(* ===== verification/Prelude.thy ===== *)
theory Prelude
  imports Main "HOL-Library.Word"
begin

text \<open>
  Shared vocabulary of the development.

  A contract call of the repository runs inside one Soroban transaction: a panic (an
  \<open>assert!\<close>, an \<open>expect\<close>, an arithmetic overflow under \<open>overflow-checks = true\<close>, a failed
  authorization or a failed call of another contract) aborts the transaction and rolls every
  write back. So an operation is a function that returns either the reason of the panic or the
  result with the new state, \<open>panic + 'a\<close>, and a failed call leaves the state as it was
  (\<open>exec\<close> below).

  The file holds: the ledger environment of a call, panics and the combinators for them,
  arithmetic at the width of the source's integers, the SEP-41 token interface (a parameter: the
  token is not code of this repository) and the machine of a contract with its reachable states.
\<close>

section \<open>Addresses, strings and the ledger environment\<close>

text \<open>An \<open>Address\<close> is named by its strkey, a \<open>String\<close> and a \<open>Symbol\<close> by their bytes.\<close>

type_synonym address = string
type_synonym sstring = string

text \<open>
  What a call sees of the host: the ledger's timestamp and sequence number, which addresses have
  authorized the call, and the address of the running contract.
\<close>

record ledger_env =
  timestamp :: nat
  sequence :: nat
  authorized :: "address \<Rightarrow> bool"
  self_addr :: address

text \<open>An environment in which every address has authorized the call, for the witnesses.\<close>

definition env_at :: "nat \<Rightarrow> nat \<Rightarrow> ledger_env" where
  "env_at t q = \<lparr>timestamp = t, sequence = q, authorized = (\<lambda>_. True), self_addr = ''CONTRACT''\<rparr>"

lemma env_at_simps [simp]:
  "timestamp (env_at t q) = t" "sequence (env_at t q) = q"
  "authorized (env_at t q) a" "self_addr (env_at t q) = ''CONTRACT''"
  by (simp_all add: env_at_def)

text \<open>One in which every address but the contract's own has.\<close>

definition ext_env :: "nat \<Rightarrow> nat \<Rightarrow> ledger_env" where
  "ext_env t q = (env_at t q)\<lparr>authorized := (\<lambda>a. a \<noteq> ''CONTRACT'')\<rparr>"

lemma ext_env_simps [simp]:
  "timestamp (ext_env t q) = t" "sequence (ext_env t q) = q"
  "authorized (ext_env t q) a \<longleftrightarrow> a \<noteq> ''CONTRACT''" "self_addr (ext_env t q) = ''CONTRACT''"
  by (simp_all add: ext_env_def)

section \<open>Panics and their combinators\<close>

datatype panic =
    Panic string             \<comment> \<open>\<open>panic!\<close>, \<open>assert!\<close>, \<open>expect\<close> with their message\<close>
  | UnwrapNone               \<comment> \<open>\<open>unwrap\<close> of \<open>None\<close>\<close>
  | NotAuthorized address    \<comment> \<open>\<open>require_auth\<close> of an address that did not authorize the call\<close>
  | Overflow                 \<comment> \<open>checked arithmetic that leaves its type\<close>
  | TokenFailed              \<comment> \<open>a token transfer that the token contract rejects\<close>
  | CallFailed               \<comment> \<open>any other cross-contract call that fails\<close>
  | BadValue                 \<comment> \<open>a stored value that does not decode at the type it is read at\<close>

type_synonym 'a res = "panic + 'a"

definition bindr :: "'e + 'a \<Rightarrow> ('a \<Rightarrow> 'e + 'b) \<Rightarrow> 'e + 'b" where
  "bindr m f = (case m of Inl e \<Rightarrow> Inl e | Inr x \<Rightarrow> f x)"

definition assertr :: "bool \<Rightarrow> string \<Rightarrow> unit res" where
  "assertr b msg = (if b then Inr () else Inl (Panic msg))"

definition expectr :: "'a option \<Rightarrow> string \<Rightarrow> 'a res" where
  "expectr x msg = (case x of None \<Rightarrow> Inl (Panic msg) | Some y \<Rightarrow> Inr y)"

definition unwrapr :: "'a option \<Rightarrow> 'a res" where
  "unwrapr x = (case x of None \<Rightarrow> Inl UnwrapNone | Some y \<Rightarrow> Inr y)"

definition require_auth :: "ledger_env \<Rightarrow> address \<Rightarrow> unit res" where
  "require_auth env a = (if authorized env a then Inr () else Inl (NotAuthorized a))"

definition unwrap_or :: "'a option \<Rightarrow> 'a \<Rightarrow> 'a" where
  "unwrap_or x d = (case x of None \<Rightarrow> d | Some y \<Rightarrow> y)"

lemma bindr_simps [simp]:
  "bindr (Inl e) f = Inl e"
  "bindr (Inr x) f = f x"
  by (simp_all add: bindr_def)

lemma bindr_Inr [simp]: "bindr m f = Inr y \<longleftrightarrow> (\<exists>x. m = Inr x \<and> f x = Inr y)"
  by (cases m) auto

lemma bindr_Inl: "bindr m f = Inl e \<longleftrightarrow> m = Inl e \<or> (\<exists>x. m = Inr x \<and> f x = Inl e)"
  by (cases m) auto

lemma bindr_cong [fundef_cong]:
  "m = m' \<Longrightarrow> (\<And>x. m' = Inr x \<Longrightarrow> f x = f' x) \<Longrightarrow> bindr m f = bindr m' f'"
  by (cases m') auto

lemma assertr_simps [simp]:
  "assertr True msg = Inr ()"
  "assertr False msg = Inl (Panic msg)"
  by (simp_all add: assertr_def)

lemma assertr_Inr [simp]: "assertr b msg = Inr u \<longleftrightarrow> b"
  by (simp add: assertr_def)

lemma assertr_Inl [simp]: "assertr b msg = Inl e \<longleftrightarrow> \<not> b \<and> e = Panic msg"
  by (auto simp: assertr_def)

lemma expectr_simps [simp]:
  "expectr None msg = Inl (Panic msg)"
  "expectr (Some y) msg = Inr y"
  by (simp_all add: expectr_def)

lemma expectr_Inr [simp]: "expectr x msg = Inr y \<longleftrightarrow> x = Some y"
  by (cases x) auto

lemma expectr_Inl [simp]: "expectr x msg = Inl e \<longleftrightarrow> x = None \<and> e = Panic msg"
  by (cases x) auto

lemma unwrapr_simps [simp]:
  "unwrapr None = Inl UnwrapNone"
  "unwrapr (Some y) = Inr y"
  by (simp_all add: unwrapr_def)

lemma unwrapr_Inr [simp]: "unwrapr x = Inr y \<longleftrightarrow> x = Some y"
  by (cases x) auto

lemma unwrapr_Inl [simp]: "unwrapr x = Inl e \<longleftrightarrow> x = None \<and> e = UnwrapNone"
  by (cases x) auto

lemma require_auth_Inr [simp]: "require_auth env a = Inr u \<longleftrightarrow> authorized env a"
  by (simp add: require_auth_def)

lemma require_auth_Inl [simp]:
  "require_auth env a = Inl e \<longleftrightarrow> \<not> authorized env a \<and> e = NotAuthorized a"
  by (auto simp: require_auth_def)

lemma require_auth_ok [simp]: "authorized env a \<Longrightarrow> require_auth env a = Inr ()"
  by simp

lemma require_auth_no [simp]: "\<not> authorized env a \<Longrightarrow> require_auth env a = Inl (NotAuthorized a)"
  by simp

lemma unwrap_or_simps [simp]:
  "unwrap_or None d = d"
  "unwrap_or (Some y) d = y"
  by (simp_all add: unwrap_or_def)

section \<open>Integers at the width of the source\<close>

text \<open>
  An \<open>i128\<close> is an \<open>int\<close>, a \<open>u64\<close> or \<open>u32\<close> a \<open>nat\<close>; every \<open>+\<close>, \<open>-\<close> and \<open>*\<close> of the source is
  followed by the range check that \<open>overflow-checks = true\<close> compiles in. \<open>saturating_*\<close> clamps.
\<close>

definition i128_min :: int where "i128_min = - 170141183460469231731687303715884105728"
definition i128_max :: int where "i128_max = 170141183460469231731687303715884105727"
definition u128_max :: int where "u128_max = 340282366920938463463374607431768211455"
definition u64_max :: nat where "u64_max = 18446744073709551615"
definition u32_max :: nat where "u32_max = 4294967295"

lemma int_limits:
  "i128_min = - (2 ^ 127)" "i128_max = 2 ^ 127 - 1" "u128_max = 2 ^ 128 - 1"
  "u64_max = 2 ^ 64 - 1" "u32_max = 2 ^ 32 - 1"
  by (simp_all add: i128_min_def i128_max_def u128_max_def u64_max_def u32_max_def)

definition in_i128 :: "int \<Rightarrow> bool" where
  "in_i128 x \<longleftrightarrow> i128_min \<le> x \<and> x \<le> i128_max"

definition i128_chk :: "int \<Rightarrow> int res" where
  "i128_chk x = (if in_i128 x then Inr x else Inl Overflow)"

definition u64_chk :: "nat \<Rightarrow> nat res" where
  "u64_chk n = (if n \<le> u64_max then Inr n else Inl Overflow)"

definition u32_chk :: "nat \<Rightarrow> nat res" where
  "u32_chk n = (if n \<le> u32_max then Inr n else Inl Overflow)"

definition i128_sat :: "int \<Rightarrow> int" where
  "i128_sat x = max i128_min (min i128_max x)"

definition u128_sat :: "int \<Rightarrow> int" where
  "u128_sat x = max 0 (min u128_max x)"

definition u64_sat :: "nat \<Rightarrow> nat" where "u64_sat n = min u64_max n"

definition u32_sat :: "nat \<Rightarrow> nat" where "u32_sat n = min u32_max n"

text \<open>Rust's \<open>/\<close> and \<open>%\<close> on signed integers truncate towards zero.\<close>

definition trunc_div :: "int \<Rightarrow> int \<Rightarrow> int" where
  "trunc_div a b = sgn a * sgn b * (\<bar>a\<bar> div \<bar>b\<bar>)"

definition trunc_mod :: "int \<Rightarrow> int \<Rightarrow> int" where
  "trunc_mod a b = a - b * trunc_div a b"

lemma i128_chk_Inr [simp]: "i128_chk x = Inr y \<longleftrightarrow> y = x \<and> in_i128 x"
  by (auto simp: i128_chk_def)

lemma u64_chk_Inr [simp]: "u64_chk x = Inr y \<longleftrightarrow> y = x \<and> x \<le> u64_max"
  by (auto simp: u64_chk_def)

lemma u32_chk_Inr [simp]: "u32_chk x = Inr y \<longleftrightarrow> y = x \<and> x \<le> u32_max"
  by (auto simp: u32_chk_def)

lemma chk_ok [simp]:
  "in_i128 x \<Longrightarrow> i128_chk x = Inr x" "\<not> in_i128 x \<Longrightarrow> i128_chk x = Inl Overflow"
  "n \<le> u64_max \<Longrightarrow> u64_chk n = Inr n" "n \<le> u32_max \<Longrightarrow> u32_chk n = Inr n"
  by (simp_all add: i128_chk_def u64_chk_def u32_chk_def)

lemma trunc_div_nonneg: "0 \<le> a \<Longrightarrow> 0 < b \<Longrightarrow> trunc_div a b = a div b"
  by (cases "a = 0") (simp_all add: trunc_div_def)

lemma trunc_mod_nonneg: "0 \<le> a \<Longrightarrow> 0 < b \<Longrightarrow> trunc_mod a b = a mod b"
  by (simp add: trunc_mod_def trunc_div_nonneg minus_mult_div_eq_mod)

lemma i128_nonneg: "0 \<le> x \<Longrightarrow> in_i128 x \<longleftrightarrow> x \<le> i128_max"
  by (simp add: in_i128_def i128_min_def)

text \<open>The running sum \<open>total += x\<close> of a loop over a vector, with its overflow check.\<close>

fun sum_chk :: "int \<Rightarrow> int list \<Rightarrow> int res" where
  "sum_chk acc [] = Inr acc"
| "sum_chk acc (x # xs) = bindr (i128_chk (acc + x)) (\<lambda>acc'. sum_chk acc' xs)"

lemma sum_chk_Inr: "sum_chk acc xs = Inr t \<Longrightarrow> t = acc + sum_list xs"
  by (induction xs arbitrary: acc) fastforce+

lemma sum_chk_total:
  "(\<And>x. x \<in> set xs \<Longrightarrow> 0 \<le> x) \<Longrightarrow> 0 \<le> acc \<Longrightarrow> acc + sum_list xs \<le> i128_max \<Longrightarrow>
   sum_chk acc xs = Inr (acc + sum_list xs)"
proof (induction xs arbitrary: acc)
  case Nil
  then show ?case by simp
next
  case (Cons x xs)
  have "0 \<le> x" and nn: "\<And>y. y \<in> set xs \<Longrightarrow> 0 \<le> y" using Cons.prems(1) by auto
  moreover have "0 \<le> sum_list xs" using nn by (rule sum_list_nonneg)
  moreover have "acc + x + sum_list xs \<le> i128_max" using Cons.prems(3) by simp
  ultimately have "in_i128 (acc + x)" using Cons.prems(2) by (simp add: i128_nonneg)
  moreover have "sum_chk (acc + x) xs = Inr (acc + x + sum_list xs)"
    using Cons.IH nn \<open>0 \<le> x\<close> Cons.prems(2,3) by simp
  ultimately show ?case by (simp add: i128_chk_def)
qed

section \<open>Sums over a storage map\<close>

text \<open>The sum of an amount over the entries of a map: what a contract owes over all its accounts.\<close>

definition map_sum :: "('v \<Rightarrow> int) \<Rightarrow> ('k \<rightharpoonup> 'v) \<Rightarrow> int" where
  "map_sum f m = (\<Sum>k\<in>dom m. f (the (m k)))"

definition amount_at :: "('v \<Rightarrow> int) \<Rightarrow> ('k \<rightharpoonup> 'v) \<Rightarrow> 'k \<Rightarrow> int" where
  "amount_at f m k = (case m k of None \<Rightarrow> 0 | Some v \<Rightarrow> f v)"

lemma map_sum_empty [simp]: "map_sum f Map.empty = 0"
  by (simp add: map_sum_def)

lemma map_sum_upd:
  assumes "finite (dom m)"
  shows "map_sum f (m(k \<mapsto> v)) = map_sum f m - amount_at f m k + f v"
proof -
  have "map_sum f (m(k \<mapsto> v)) = f v + (\<Sum>j\<in>dom m - {k}. f (the (m j)))"
    using assms by (simp add: map_sum_def sum.insert_remove)
  moreover have "map_sum f m = amount_at f m k + (\<Sum>j\<in>dom m - {k}. f (the (m j)))"
  proof (cases "m k")
    case None
    then have "dom m - {k} = dom m" by auto
    with None show ?thesis by (simp add: map_sum_def amount_at_def)
  next
    case (Some x)
    then have "k \<in> dom m" by auto
    with assms Some show ?thesis by (simp add: map_sum_def amount_at_def sum.remove)
  qed
  ultimately show ?thesis by simp
qed

lemma map_sum_del:
  assumes "finite (dom m)"
  shows "map_sum f (m(k := None)) = map_sum f m - amount_at f m k"
proof (cases "m k")
  case None
  then have "m(k := None) = m" by (simp add: fun_upd_idem)
  with None show ?thesis by (simp add: amount_at_def)
next
  case (Some v)
  have "finite (dom (m(k := None)))" using assms by simp
  from map_sum_upd [OF this, of f k v] have "map_sum f (m(k \<mapsto> v)) = map_sum f (m(k := None)) + f v"
    by (simp add: amount_at_def)
  moreover have "m(k \<mapsto> v) = m" using Some by (simp add: fun_upd_idem)
  ultimately show ?thesis using Some by (simp add: amount_at_def)
qed

lemma map_sum_nonneg: "(\<And>k v. m k = Some v \<Longrightarrow> 0 \<le> f v) \<Longrightarrow> 0 \<le> map_sum f m"
  by (auto simp: map_sum_def intro: sum_nonneg)

section \<open>Token contracts (SEP-41)\<close>

text \<open>
  The token a contract moves is another contract, outside the repository. It is a parameter: its
  \<open>transfer\<close> and \<open>balance\<close> over the type \<open>'w\<close> of token ledgers, the first address naming the
  token contract. \<open>sep41\<close> is what SEP-41 documents of them and the development relies on: a
  transfer that succeeds has a non-negative amount, needs that much on the sender's side, moves
  exactly it and touches no other balance.
\<close>

record 'w token_ops =
  tok_transfer :: "address \<Rightarrow> address \<Rightarrow> address \<Rightarrow> int \<Rightarrow> 'w \<Rightarrow> 'w option"
  tok_balance :: "address \<Rightarrow> address \<Rightarrow> 'w \<Rightarrow> int"

definition moved :: "address \<Rightarrow> address \<Rightarrow> int \<Rightarrow> address \<Rightarrow> int" where
  "moved from to n a = (if a = to then n else 0) - (if a = from then n else 0)"

definition sep41 :: "'w token_ops \<Rightarrow> bool" where
  "sep41 T \<longleftrightarrow>
     (\<forall>t from to n w w'. tok_transfer T t from to n w = Some w' \<longrightarrow>
        0 \<le> n \<and> n \<le> tok_balance T t from w \<and>
        (\<forall>a. tok_balance T t a w' = tok_balance T t a w + moved from to n a) \<and>
        (\<forall>t' a. t' \<noteq> t \<longrightarrow> tok_balance T t' a w' = tok_balance T t' a w))"

definition transferr :: "'w token_ops \<Rightarrow> address \<Rightarrow> address \<Rightarrow> address \<Rightarrow> int \<Rightarrow> 'w \<Rightarrow> 'w res" where
  "transferr T t from to n w =
     (case tok_transfer T t from to n w of None \<Rightarrow> Inl TokenFailed | Some w' \<Rightarrow> Inr w')"

lemma transferr_Inr [simp]: "transferr T t from to n w = Inr w' \<longleftrightarrow> tok_transfer T t from to n w = Some w'"
  by (auto simp: transferr_def split: option.splits)

lemma sep41_transfer:
  assumes "sep41 T" and "tok_transfer T t from to n w = Some w'"
  shows "0 \<le> n" and "n \<le> tok_balance T t from w"
    and "tok_balance T t a w' = tok_balance T t a w + moved from to n a"
    and "t' \<noteq> t \<Longrightarrow> tok_balance T t' a w' = tok_balance T t' a w"
  using assms by (auto simp: sep41_def)

text \<open>
  A concrete SEP-41 ledger, total balances as a function. It shows that \<open>sep41\<close> can hold, and
  the witnesses run the contracts against it.
\<close>

type_synonym ref_ledger = "address \<Rightarrow> address \<Rightarrow> int"

definition ref_token :: "ref_ledger token_ops" where
  "ref_token = \<lparr>
     tok_transfer = (\<lambda>t from to n w.
       if 0 \<le> n \<and> n \<le> w t from
       then Some (\<lambda>t' a. if t' = t then w t' a + moved from to n a else w t' a) else None),
     tok_balance = (\<lambda>t a w. w t a) \<rparr>"

lemma ref_token_sep41: "sep41 ref_token"
  by (auto simp: sep41_def ref_token_def split: if_splits)

section \<open>A contract as a machine\<close>

text \<open>
  A contract is a function from calls and states to results. \<open>exec\<close> is one transaction: it
  keeps the state of a call that returns and rolls a call that panics back. \<open>run\<close> is a history
  of transactions, \<open>reachable\<close> the states that histories lead to.
\<close>

definition exec :: "('e \<Rightarrow> 's \<Rightarrow> 's res) \<Rightarrow> 'e \<Rightarrow> 's \<Rightarrow> 's" where
  "exec step e s = (case step e s of Inl _ \<Rightarrow> s | Inr s' \<Rightarrow> s')"

fun run :: "('e \<Rightarrow> 's \<Rightarrow> 's res) \<Rightarrow> 'e list \<Rightarrow> 's \<Rightarrow> 's" where
  "run step [] s = s"
| "run step (e # es) s = run step es (exec step e s)"

inductive reachable :: "('s \<Rightarrow> bool) \<Rightarrow> ('e \<Rightarrow> 's \<Rightarrow> 's res) \<Rightarrow> 's \<Rightarrow> bool"
  for start :: "'s \<Rightarrow> bool" and step :: "'e \<Rightarrow> 's \<Rightarrow> 's res"
where
  reachable_start: "start s \<Longrightarrow> reachable start step s"
| reachable_call: "reachable start step s \<Longrightarrow> step e s = Inr s' \<Longrightarrow> reachable start step s'"

lemma run_append: "run step (es @ fs) s = run step fs (run step es s)"
  by (induction es arbitrary: s) auto

lemma reachable_exec: "reachable start step s \<Longrightarrow> reachable start step (exec step e s)"
  by (auto simp: exec_def intro: reachable_call split: sum.splits)

lemma reachable_run: "reachable start step s \<Longrightarrow> reachable start step (run step es s)"
  by (induction es arbitrary: s) (auto intro: reachable_exec)

lemma exec_Inr [simp]: "step e s = Inr s' \<Longrightarrow> exec step e s = s'"
  by (simp add: exec_def)

lemma exec_Inl [simp]: "step e s = Inl x \<Longrightarrow> exec step e s = s"
  by (simp add: exec_def)

text \<open>
  The contract of every machine here: an invariant that the initial states have and every
  successful call keeps. A relation that every successful call respects (\<open>mono\<close>) holds between
  the ends of any history.
\<close>

locale invariant_machine =
  fixes start :: "'s \<Rightarrow> bool"
    and step :: "'e \<Rightarrow> 's \<Rightarrow> 's res"
    and inv :: "'s \<Rightarrow> bool"
  assumes start_inv: "start s \<Longrightarrow> inv s"
    and step_inv: "inv s \<Longrightarrow> step e s = Inr s' \<Longrightarrow> inv s'"
begin

lemma exec_inv: "inv s \<Longrightarrow> inv (exec step e s)"
  by (auto simp: exec_def intro: step_inv split: sum.splits)

lemma run_inv: "inv s \<Longrightarrow> inv (run step es s)"
  by (induction es arbitrary: s) (auto intro: exec_inv)

lemma reachable_inv: "reachable start step s \<Longrightarrow> inv s"
  by (induction rule: reachable.induct) (auto intro: start_inv step_inv)

lemma run_rel:
  assumes "inv s"
    and refl: "\<And>s. R s s"
    and trans: "\<And>s t u. R s t \<Longrightarrow> R t u \<Longrightarrow> R s u"
    and mono: "\<And>s e s'. inv s \<Longrightarrow> step e s = Inr s' \<Longrightarrow> R s s'"
  shows "R s (run step es s)"
  using assms(1)
proof (induction es arbitrary: s)
  case Nil
  show ?case by (simp add: refl)
next
  case (Cons e es)
  have "R s (exec step e s)"
  proof (cases "step e s")
    case (Inl x)
    then show ?thesis by (simp add: refl)
  next
    case (Inr s')
    then show ?thesis using mono [OF Cons.prems Inr] by simp
  qed
  moreover have "R (exec step e s) (run step es (exec step e s))"
    by (rule Cons.IH [OF exec_inv [OF Cons.prems]])
  ultimately have "R s (run step es (exec step e s))" by (rule trans)
  then show ?case by simp
qed

end

text \<open>The case without an invariant: a preorder that every successful call respects.\<close>

lemma run_rel_any:
  assumes "\<And>s. R s s" and trans: "\<And>s t u. R s t \<Longrightarrow> R t u \<Longrightarrow> R s u"
    and "\<And>s e s'. step e s = Inr s' \<Longrightarrow> R s s'"
  shows "R s (run step es s)"
proof -
  have "invariant_machine (\<lambda>_. True) step (\<lambda>_. True)" by unfold_locales simp_all
  then show ?thesis
    by (rule invariant_machine.run_rel [where R = R]) (simp, rule assms(1), erule (1) trans, erule assms(3))
qed

text \<open>An invariant that only some calls are known to keep, along a history of such calls.\<close>

lemma run_inv_on:
  assumes "\<And>s e s'. I s \<Longrightarrow> ok e \<Longrightarrow> step e s = Inr s' \<Longrightarrow> I s'"
  shows "I s \<Longrightarrow> \<forall>e\<in>set es. ok e \<Longrightarrow> I (run step es s)"
  by (induction es arbitrary: s) (auto simp: exec_def intro: assms split: sum.splits)

text \<open>What holds at the end of a history and not at its start became true with one of its calls.\<close>

lemma run_becomes:
  "Q (run step cs s) \<Longrightarrow> \<not> Q s \<Longrightarrow>
   \<exists>pre c post t. cs = pre @ c # post \<and> \<not> Q (run step pre s) \<and> step c (run step pre s) = Inr t \<and> Q t"
proof (induction cs rule: rev_induct)
  case Nil
  then show ?case by simp
next
  case (snoc c cs)
  show ?case
  proof (cases "Q (run step cs s)")
    case True
    with snoc obtain pre d post t where "cs = pre @ d # post" "\<not> Q (run step pre s)"
      "step d (run step pre s) = Inr t" "Q t" by blast
    then show ?thesis by (intro exI [of _ pre] exI [of _ d] exI [of _ "post @ [c]"] exI [of _ t]) simp
  next
    case False
    with snoc.prems(1) obtain t where "step c (run step cs s) = Inr t" "Q t"
      by (auto simp: run_append exec_def split: sum.splits)
    with False show ?thesis by (intro exI [of _ cs] exI [of _ c] exI [of _ "[]"] exI [of _ t]) simp
  qed
qed

text \<open>And it holds from the last such call on.\<close>

lemma run_becomes_last:
  "Q (run step cs s) \<Longrightarrow> \<not> Q s \<Longrightarrow>
   \<exists>pre c post t. cs = pre @ c # post \<and> \<not> Q (run step pre s) \<and> step c (run step pre s) = Inr t \<and>
     (\<forall>p q. post = p @ q \<longrightarrow> Q (run step p t))"
proof (induction cs rule: rev_induct)
  case Nil
  then show ?case by simp
next
  case (snoc c cs)
  show ?case
  proof (cases "Q (run step cs s)")
    case True
    with snoc obtain pre d post t where *: "cs = pre @ d # post" "\<not> Q (run step pre s)" "step d (run step pre s) = Inr t"
      and all: "\<forall>p q. post = p @ q \<longrightarrow> Q (run step p t)" by blast
    have "run step (post @ [c]) t = run step (cs @ [c]) s" using * by (simp add: run_append)
    then have "\<forall>p q. post @ [c] = p @ q \<longrightarrow> Q (run step p t)"
      using all snoc.prems(1) by (auto simp: append_eq_append_conv2 Cons_eq_append_conv append_eq_Cons_conv)
    with * show ?thesis by (intro exI [of _ pre] exI [of _ d] exI [of _ "post @ [c]"] exI [of _ t]) simp
  next
    case False
    with snoc.prems(1) obtain t where "step c (run step cs s) = Inr t" "Q t"
      by (auto simp: run_append exec_def split: sum.splits)
    with False show ?thesis by (intro exI [of _ cs] exI [of _ c] exI [of _ "[]"] exI [of _ t]) simp
  qed
qed

end
