(* ===== verification/Merkle.thy ===== *)
theory Merkle
  imports Prelude "HOL-Library.List_Lexorder"
begin

unbundle bit_operations_syntax

text \<open>
  \<open>contracts/common/src/merkle.rs\<close>: the XOR-mixing tree (\<open>build_merkle_tree\<close>,
  \<open>generate_proof\<close>, \<open>verify_proof\<close>) and the production check \<open>verify_merkle_proof\<close> over the
  host's SHA-256, which is a parameter \<open>sha\<close>. The tree operations are written over an arbitrary
  parent hash \<open>h\<close> and instantiated with \<open>compute_hash\<close>; what they need of it is the locale
  \<open>pair_hash\<close>.
\<close>

section \<open>\<open>BytesN<32>\<close>\<close>

type_synonym byte = "8 word"

datatype bytesn = BytesN (bytes: "byte list")

text \<open>The host compares byte strings lexicographically.\<close>

instantiation bytesn :: linorder
begin

definition less_eq_bytesn :: "bytesn \<Rightarrow> bytesn \<Rightarrow> bool" where
  "less_eq_bytesn a b \<longleftrightarrow> bytes a \<le> bytes b"

definition less_bytesn :: "bytesn \<Rightarrow> bytesn \<Rightarrow> bool" where
  "less_bytesn a b \<longleftrightarrow> bytes a < bytes b"

instance
  by standard (auto simp: less_eq_bytesn_def less_bytesn_def intro: bytesn.expand)

end

definition is_bytes32 :: "bytesn \<Rightarrow> bool" where
  "is_bytes32 b \<longleftrightarrow> length (bytes b) = 32"

text \<open>\<open>b.get(i).unwrap_or(0)\<close>\<close>

definition byte_at :: "bytesn \<Rightarrow> nat \<Rightarrow> byte" where
  "byte_at b i = (if i < length (bytes b) then bytes b ! i else 0)"

section \<open>Data\<close>

definition MAX_TREE_DEPTH :: nat where "MAX_TREE_DEPTH = 64"

datatype merkle_error =
  EmptyTree | InvalidProof | IndexOutOfBounds | MalformedInput | MaxDepthExceeded | DuplicateLeaves

record merkle_proof =
  mp_leaf :: bytesn
  mp_proof :: "bytesn list"
  mp_path :: "bool list"

record merkle_tree =
  mt_root :: bytesn
  mt_leaves :: "bytesn list"
  mt_internal :: "bytesn list"

section \<open>Hashing\<close>

definition compute_hash :: "bytesn \<Rightarrow> bytesn \<Rightarrow> bytesn" where
  "compute_hash left right =
     BytesN (map (\<lambda>i. word_rotl 3 (byte_at left i XOR byte_at right i XOR word_of_nat i * 0x9E))
       [0..<32])"

definition hash_leaf :: "byte list \<Rightarrow> bytesn" where
  "hash_leaf data =
     (let mixed = foldl (\<lambda>r i. r[i mod 32 := r ! (i mod 32) XOR word_rotl i (data ! i)])
                    (replicate 32 (0 :: byte)) [0..<length data] in
      BytesN (map (\<lambda>i. mixed ! i XOR word_rotl i (word_of_nat (length data))) [0..<32]))"

section \<open>Building the tree\<close>

text \<open>The loop \<open>for i in (0..len).step_by(2)\<close>: one level of parents, an odd last node doubled.\<close>

fun parents :: "(bytesn \<Rightarrow> bytesn \<Rightarrow> bytesn) \<Rightarrow> bytesn list \<Rightarrow> bytesn list" where
  "parents h [] = []"
| "parents h [x] = [h x x]"
| "parents h (x # y # xs) = h x y # parents h xs"

lemma length_parents [simp]: "length (parents h xs) = (length xs + 1) div 2"
  by (induction h xs rule: parents.induct) auto

text \<open>The \<open>while current_level.len() > 1\<close> loop.\<close>

function build_loop ::
  "(bytesn \<Rightarrow> bytesn \<Rightarrow> bytesn) \<Rightarrow> bytesn list \<Rightarrow> bytesn list \<Rightarrow> nat \<Rightarrow>
   merkle_error + bytesn list \<times> bytesn list" where
  "build_loop h level nodes depth =
     (if 1 < length level
      then (if depth = MAX_TREE_DEPTH then Inl MaxDepthExceeded
            else build_loop h (parents h level) (nodes @ parents h level) (u32_sat (depth + 1)))
      else Inr (level, nodes))"
  by pat_completeness auto
termination
  by (relation "measure (\<lambda>(h, level, nodes, depth). length level)") auto

declare build_loop.simps [simp del]

definition build_with :: "(bytesn \<Rightarrow> bytesn \<Rightarrow> bytesn) \<Rightarrow> bytesn list \<Rightarrow> merkle_error + merkle_tree" where
  "build_with h leaves =
     (if leaves = [] then Inl EmptyTree
      else bindr (build_loop h leaves [] 0) (\<lambda>(level, nodes).
             Inr \<lparr>mt_root = hd level, mt_leaves = leaves, mt_internal = nodes\<rparr>))"

definition build_merkle_tree :: "bytesn list \<Rightarrow> merkle_error + merkle_tree" where
  "build_merkle_tree leaves = build_with compute_hash leaves"

definition compute_root :: "bytesn list \<Rightarrow> merkle_error + bytesn" where
  "compute_root leaves = bindr (build_merkle_tree leaves) (\<lambda>t. Inr (mt_root t))"

section \<open>Proofs\<close>

function proof_loop ::
  "(bytesn \<Rightarrow> bytesn \<Rightarrow> bytesn) \<Rightarrow> bytesn list \<Rightarrow> nat \<Rightarrow> bytesn list \<Rightarrow> bool list \<Rightarrow>
   bytesn list \<times> bool list" where
  "proof_loop h level idx sibs path =
     (if 1 < length level
      then
        (let is_left = (idx mod 2 = 0);
             sibling_idx = (if is_left then idx + 1 else idx - 1);
             sib = (if sibling_idx < length level then level ! sibling_idx else level ! idx) in
         proof_loop h (parents h level) (idx div 2) (sibs @ [sib]) (path @ [\<not> is_left]))
      else (sibs, path))"
  by pat_completeness auto
termination
  by (relation "measure (\<lambda>(h, level, idx, sibs, path). length level)") auto

declare proof_loop.simps [simp del]

definition generate_with ::
  "(bytesn \<Rightarrow> bytesn \<Rightarrow> bytesn) \<Rightarrow> merkle_tree \<Rightarrow> nat \<Rightarrow> merkle_error + merkle_proof" where
  "generate_with h tree index =
     (if length (mt_leaves tree) \<le> index then Inl IndexOutOfBounds
      else
        (let (sibs, path) = proof_loop h (mt_leaves tree) index [] [] in
         Inr \<lparr>mp_leaf = mt_leaves tree ! index, mp_proof = sibs, mp_path = path\<rparr>))"

definition generate_proof :: "merkle_tree \<Rightarrow> nat \<Rightarrow> merkle_error + merkle_proof" where
  "generate_proof tree index = generate_with compute_hash tree index"

text \<open>The order of the operands is the code's: \<open>is_right\<close> puts the current node first.\<close>

fun climb :: "(bytesn \<Rightarrow> bytesn \<Rightarrow> bytesn) \<Rightarrow> bytesn \<Rightarrow> (bytesn \<times> bool) list \<Rightarrow> bytesn" where
  "climb h current [] = current"
| "climb h current ((sibling, is_right) # steps) =
     climb h (if is_right then h current sibling else h sibling current) steps"

definition verify_with ::
  "(bytesn \<Rightarrow> bytesn \<Rightarrow> bytesn) \<Rightarrow> bytesn \<Rightarrow> merkle_proof \<Rightarrow> merkle_error + bool" where
  "verify_with h root p =
     (if length (mp_proof p) \<noteq> length (mp_path p) then Inl MalformedInput
      else if MAX_TREE_DEPTH < length (mp_proof p) then Inl MaxDepthExceeded
      else if climb h (mp_leaf p) (zip (mp_proof p) (mp_path p)) = root then Inr True
      else Inl InvalidProof)"

definition verify_proof :: "bytesn \<Rightarrow> merkle_proof \<Rightarrow> merkle_error + bool" where
  "verify_proof root p = verify_with compute_hash root p"

definition verify_leaf_membership :: "merkle_tree \<Rightarrow> bytesn \<Rightarrow> nat \<Rightarrow> merkle_error + bool" where
  "verify_leaf_membership tree leaf index =
     (if length (mt_leaves tree) \<le> index then Inl IndexOutOfBounds
      else if leaf \<noteq> mt_leaves tree ! index then Inl InvalidProof
      else Inr True)"

section \<open>The SHA-256 check\<close>

definition sorted_pair :: "(byte list \<Rightarrow> bytesn) \<Rightarrow> bytesn \<Rightarrow> bytesn \<Rightarrow> bytesn" where
  "sorted_pair sha computed sibling =
     (if computed < sibling then sha (bytes computed @ bytes sibling)
      else sha (bytes sibling @ bytes computed))"

fun sha_climb :: "(byte list \<Rightarrow> bytesn) \<Rightarrow> bytesn \<Rightarrow> bytesn list \<Rightarrow> bytesn" where
  "sha_climb sha computed [] = computed"
| "sha_climb sha computed (sibling # proof) = sha_climb sha (sorted_pair sha computed sibling) proof"

definition verify_merkle_proof ::
  "(byte list \<Rightarrow> bytesn) \<Rightarrow> bytesn \<Rightarrow> bytesn \<Rightarrow> bytesn list \<Rightarrow> bool" where
  "verify_merkle_proof sha root leaf proof \<longleftrightarrow>
     (if MAX_TREE_DEPTH < length proof then False else sha_climb sha leaf proof = root)"

section \<open>Levels\<close>

lemma parents_nth:
  "k < (length xs + 1) div 2 \<Longrightarrow>
   parents h xs ! k = h (xs ! (2 * k)) (if 2 * k + 1 < length xs then xs ! (2 * k + 1) else xs ! (2 * k))"
proof (induction h xs arbitrary: k rule: parents.induct)
  case (3 h x y xs)
  show ?case
  proof (cases k)
    case 0
    then show ?thesis by simp
  next
    case (Suc j)
    with "3.prems" have "j < (length xs + 1) div 2" by simp
    from "3.IH" [OF this] Suc show ?thesis by simp
  qed
qed auto

lemma build_loop_total:
  "depth \<le> MAX_TREE_DEPTH \<Longrightarrow> length level \<le> 2 ^ (MAX_TREE_DEPTH - depth) \<Longrightarrow>
   \<exists>r. build_loop h level nodes depth = Inr r"
proof (induction h level nodes depth rule: build_loop.induct)
  case (1 h level nodes depth)
  show ?case
  proof (cases "1 < length level")
    case True
    with "1.prems" have d: "depth < MAX_TREE_DEPTH" by (cases "depth = MAX_TREE_DEPTH") auto
    then obtain k where k: "MAX_TREE_DEPTH - depth = Suc k" "MAX_TREE_DEPTH - Suc depth = k"
      by (metis Suc_diff_Suc)
    have sat: "u32_sat (depth + 1) = Suc depth"
      using d by (simp add: u32_sat_def u32_max_def MAX_TREE_DEPTH_def)
    have "(length level + 1) div 2 \<le> 2 ^ k" using "1.prems"(2) k(1) by simp
    with "1.IH" True d k sat have "\<exists>r. build_loop h (parents h level) (nodes @ parents h level) (Suc depth) = Inr r"
      by simp
    with True d sat show ?thesis by (simp add: build_loop.simps [of h level])
  next
    case False
    then show ?thesis by (simp add: build_loop.simps [of h level])
  qed
qed

lemma proof_loop_acc:
  "proof_loop h level idx sibs path =
     (sibs @ fst (proof_loop h level idx [] []), path @ snd (proof_loop h level idx [] []))"
proof (induction "length level" arbitrary: level idx sibs path rule: less_induct)
  case less
  show ?case
  proof (cases "1 < length level")
    case True
    then have "length (parents h level) < length level" by simp
    note ih = less [OF this]
    have "proof_loop h (parents h level) (idx div 2) (sibs @ [x]) (path @ [y]) =
        (sibs @ fst (proof_loop h (parents h level) (idx div 2) [x] [y]),
         path @ snd (proof_loop h (parents h level) (idx div 2) [x] [y]))" for x y
      using ih [of "idx div 2" "sibs @ [x]" "path @ [y]"] ih [of "idx div 2" "[x]" "[y]"] by simp
    with True show ?thesis
      by (subst (1 2 3) proof_loop.simps) (simp add: Let_def)
  next
    case False
    then show ?thesis by (simp add: proof_loop.simps [of h level])
  qed
qed

definition sibling :: "bytesn list \<Rightarrow> nat \<Rightarrow> bytesn" where
  "sibling level idx =
     (if idx mod 2 = 0
      then (if idx + 1 < length level then level ! (idx + 1) else level ! idx)
      else (if idx - 1 < length level then level ! (idx - 1) else level ! idx))"

lemma proof_loop_step:
  assumes "1 < length level"
  shows "proof_loop h level idx [] [] =
    (sibling level idx # fst (proof_loop h (parents h level) (idx div 2) [] []),
     (idx mod 2 \<noteq> 0) # snd (proof_loop h (parents h level) (idx div 2) [] []))"
proof -
  have "proof_loop h level idx [] [] =
      proof_loop h (parents h level) (idx div 2) [sibling level idx] [idx mod 2 \<noteq> 0]"
    using assms by (subst proof_loop.simps) (simp add: Let_def sibling_def)
  then show ?thesis by (subst (asm) proof_loop_acc) simp
qed

lemma proof_loop_length: "length (fst (proof_loop h level idx [] [])) = length (snd (proof_loop h level idx [] []))"
proof (induction "length level" arbitrary: level idx rule: less_induct)
  case less
  show ?case
  proof (cases "1 < length level")
    case True
    then have "length (parents h level) < length level" by simp
    with less show ?thesis by (simp add: proof_loop_step [OF True])
  next
    case False
    then show ?thesis by (simp add: proof_loop.simps [of h level])
  qed
qed

lemma proof_within_depth:
  "build_loop h level nodes depth = Inr r \<Longrightarrow> depth \<le> MAX_TREE_DEPTH \<Longrightarrow>
   depth + length (fst (proof_loop h level idx [] [])) \<le> MAX_TREE_DEPTH"
proof (induction h level nodes depth arbitrary: idx rule: build_loop.induct)
  case (1 h level nodes depth)
  show ?case
  proof (cases "1 < length level")
    case True
    with "1.prems" have d: "depth \<noteq> MAX_TREE_DEPTH"
      by (auto simp: build_loop.simps [of h level])
    with "1.prems" have sat: "u32_sat (depth + 1) = Suc depth" "Suc depth \<le> MAX_TREE_DEPTH"
      by (simp_all add: u32_sat_def u32_max_def MAX_TREE_DEPTH_def)
    have "Suc depth + length (fst (proof_loop h (parents h level) (idx div 2) [] [])) \<le> MAX_TREE_DEPTH"
      using "1.IH" [OF True d] "1.prems"(1) True d sat by (simp add: build_loop.simps [of h level])
    then show ?thesis by (simp add: proof_loop_step [OF True])
  next
    case False
    with "1.prems" show ?thesis by (simp add: proof_loop.simps [of h level])
  qed
qed

section \<open>What the tree needs of its parent hash\<close>

text \<open>
  \<open>verify_proof\<close> hashes (current, sibling) where the builder hashed (sibling, current), so the
  pipeline is correct for commutative parent hashes.
\<close>

locale pair_hash =
  fixes h :: "bytesn \<Rightarrow> bytesn \<Rightarrow> bytesn"
  assumes comm: "h a b = h b a"
begin

lemma climb_path:
  "length ps = length ss \<Longrightarrow> length qs = length ss \<Longrightarrow>
   climb h c (zip ss ps) = climb h c (zip ss qs)"
proof (induction ss arbitrary: c ps qs)
  case Nil
  then show ?case by simp
next
  case (Cons x ss)
  obtain p ps' where p: "ps = p # ps'" using Cons.prems(1) by (cases ps) auto
  obtain q qs' where q: "qs = q # qs'" using Cons.prems(2) by (cases qs) auto
  have "climb h (h c x) (zip ss ps') = climb h (h c x) (zip ss qs')"
    using Cons.prems p q by (intro Cons.IH) simp_all
  then show ?case by (simp add: p q comm [of x c])
qed

lemma parent_sibling:
  assumes "idx < length level"
  shows "parents h level ! (idx div 2) = h (level ! idx) (sibling level idx)"
proof (cases "even idx")
  case True
  then obtain k where k: "idx = 2 * k" by (rule evenE)
  with assms have "k < (length level + 1) div 2" by simp
  from parents_nth [OF this, of h] k show ?thesis by (simp add: sibling_def)
next
  case False
  then obtain k where k: "idx = 2 * k + 1" by (rule oddE)
  with assms have "k < (length level + 1) div 2" by simp
  from parents_nth [OF this, of h] k assms show ?thesis by (simp add: sibling_def comm)
qed

lemma climb_root:
  "build_loop h level nodes depth = Inr (tp, nodes') \<Longrightarrow> idx < length level \<Longrightarrow>
   climb h (level ! idx) (zip (fst (proof_loop h level idx [] [])) (snd (proof_loop h level idx [] [])))
     = hd tp"
proof (induction "length level" arbitrary: level nodes depth idx rule: less_induct)
  case less
  show ?case
  proof (cases "1 < length level")
    case True
    with less.prems have b: "build_loop h (parents h level) (nodes @ parents h level) (u32_sat (depth + 1)) = Inr (tp, nodes')"
      by (auto simp: build_loop.simps [of h level] split: if_splits)
    have k: "idx div 2 < (length level + 1) div 2" using less.prems(2) by linarith
    have "climb h (parents h level ! (idx div 2))
        (zip (fst (proof_loop h (parents h level) (idx div 2) [] []))
             (snd (proof_loop h (parents h level) (idx div 2) [] []))) = hd tp"
      using less.hyps [OF _ b] True k by simp
    then show ?thesis
      using comm [of "sibling level idx" "level ! idx"]
      by (simp add: proof_loop_step [OF True] parent_sibling [OF less.prems(2)])
  next
    case False
    with less.prems have "tp = level" by (simp add: build_loop.simps [of h level])
    moreover obtain x where "level = [x]"
      using False less.prems(2) by (cases level) auto
    ultimately show ?thesis using less.prems(2) by (simp add: proof_loop.simps [of h "[x]"])
  qed
qed

lemma verify_generated:
  assumes "build_with h leaves = Inr t" and "index < length leaves"
  shows "\<exists>p. generate_with h t index = Inr p \<and> mp_leaf p = leaves ! index \<and>
    verify_with h (mt_root t) p = Inr True"
proof -
  obtain tp nodes where b: "build_loop h leaves [] 0 = Inr (tp, nodes)"
    and t: "mt_root t = hd tp" "mt_leaves t = leaves"
    using assms(1) by (auto simp: build_with_def split: if_splits prod.splits)
  show ?thesis
    using assms(2) t climb_root [OF b assms(2)] proof_within_depth [OF b, of index]
      proof_loop_length [of h leaves index]
    by (cases "proof_loop h leaves index [] []") (auto simp: generate_with_def verify_with_def)
qed

end

section \<open>The XOR tree provides it\<close>

lemma compute_hash_comm: "compute_hash a b = compute_hash b a"
  unfolding compute_hash_def by (simp only: xor.left_commute [of "byte_at a _"])

interpretation ch: pair_hash compute_hash
  by unfold_locales (rule compute_hash_comm)

lemma build_total:
  assumes "leaves \<noteq> []" and "length leaves \<le> u32_max"
  shows "\<exists>t. build_with h leaves = Inr t \<and> mt_leaves t = leaves"
proof -
  have "length leaves \<le> 2 ^ (MAX_TREE_DEPTH - 0)"
    using assms(2) by (simp add: u32_max_def MAX_TREE_DEPTH_def)
  then obtain lv ns where "build_loop h leaves [] 0 = Inr (lv, ns)"
    using build_loop_total [of 0 leaves h "[]"] by auto
  with assms(1) show ?thesis by (simp add: build_with_def)
qed

text \<open>\<open>compute_hash\<close> is a bijection in each argument: from the wanted result, undo the rotation.\<close>

definition unhash :: "bytesn \<Rightarrow> bytesn \<Rightarrow> bytesn" where
  "unhash leaf root =
     BytesN (map (\<lambda>i. word_rotr 3 (byte_at root i) XOR byte_at leaf i XOR word_of_nat i * 0x9E) [0..<32])"

lemma compute_hash_unhash:
  assumes "is_bytes32 root"
  shows "compute_hash (unhash leaf root) leaf = root"
proof (rule bytesn.expand, rule nth_equalityI)
  show "length (bytes (compute_hash (unhash leaf root) leaf)) = length (bytes root)"
    using assms by (simp add: compute_hash_def is_bytes32_def)
  fix i
  assume "i < length (bytes (compute_hash (unhash leaf root) leaf))"
  then have i: "i < 32" by (simp add: compute_hash_def)
  have "byte_at (unhash leaf root) i =
      word_rotr 3 (byte_at root i) XOR byte_at leaf i XOR word_of_nat i * 0x9E"
    using i by (simp add: byte_at_def unhash_def)
  moreover have "(a XOR l XOR c) XOR l XOR c = a" for a l c :: byte
    by (simp add: xor.assoc)
  ultimately have "byte_at (unhash leaf root) i XOR byte_at leaf i XOR word_of_nat i * 0x9E =
      word_rotr 3 (byte_at root i)" by simp
  then show "bytes (compute_hash (unhash leaf root) leaf) ! i = bytes root ! i"
    using i assms by (simp add: compute_hash_def byte_at_def [of root] is_bytes32_def)
qed

section \<open>What a SHA-256 proof speaks of\<close>

text \<open>
  The tree that a business publishes the root of, off-chain: its leaves are 32-byte values, an
  inner node is the hash of its children's hashes, the smaller first.
\<close>

datatype mtree = Leaf bytesn | Node mtree mtree

fun node_hash :: "(byte list \<Rightarrow> bytesn) \<Rightarrow> mtree \<Rightarrow> bytesn" where
  "node_hash sha (Leaf x) = x"
| "node_hash sha (Node l r) = sorted_pair sha (node_hash sha l) (node_hash sha r)"

text \<open>The node at a position (\<open>True\<close> is right) with the hashes beside its way up, lowest first.\<close>

fun at_path :: "(byte list \<Rightarrow> bytesn) \<Rightarrow> bool list \<Rightarrow> mtree \<Rightarrow> (bytesn \<times> bytesn list) option" where
  "at_path sha [] t = Some (node_hash sha t, [])"
| "at_path sha (b # bs) (Leaf x) = None"
| "at_path sha (b # bs) (Node l r) =
     (case at_path sha bs (if b then r else l) of
        None \<Rightarrow> None
      | Some (x, sibs) \<Rightarrow> Some (x, sibs @ [node_hash sha (if b then l else r)]))"

definition pair_input :: "bytesn \<Rightarrow> bytesn \<Rightarrow> byte list" where
  "pair_input a b = (if a < b then bytes a @ bytes b else bytes b @ bytes a)"

text \<open>The strings that are hashed in the tree, and on the way up from a leaf.\<close>

fun tree_inputs :: "(byte list \<Rightarrow> bytesn) \<Rightarrow> mtree \<Rightarrow> byte list set" where
  "tree_inputs sha (Leaf x) = {}"
| "tree_inputs sha (Node l r) =
     insert (pair_input (node_hash sha l) (node_hash sha r)) (tree_inputs sha l \<union> tree_inputs sha r)"

fun climb_inputs :: "(byte list \<Rightarrow> bytesn) \<Rightarrow> bytesn \<Rightarrow> bytesn list \<Rightarrow> byte list set" where
  "climb_inputs sha c [] = {}"
| "climb_inputs sha c (p # ps) = insert (pair_input c p) (climb_inputs sha (sorted_pair sha c p) ps)"

fun tree_leaves :: "mtree \<Rightarrow> bytesn set" where
  "tree_leaves (Leaf x) = {x}"
| "tree_leaves (Node l r) = tree_leaves l \<union> tree_leaves r"

lemma sorted_pair_input: "sorted_pair sha a b = sha (pair_input a b)"
  by (simp add: sorted_pair_def pair_input_def)

lemma pair_input_comm: "pair_input a b = pair_input b a"
  by (auto simp: pair_input_def)

lemma pair_input_inject:
  assumes "pair_input a b = pair_input c d"
    and "is_bytes32 a" "is_bytes32 b" "is_bytes32 c" "is_bytes32 d"
  shows "(a = c \<and> b = d) \<or> (a = d \<and> b = c)"
  using assms by (auto simp: pair_input_def is_bytes32_def bytesn.expand split: if_splits)

lemma sha_climb_snoc: "sha_climb sha c (ps @ [p]) = sorted_pair sha (sha_climb sha c ps) p"
  by (induction sha c ps rule: sha_climb.induct) auto

lemma climb_inputs_snoc:
  "climb_inputs sha c (ps @ [p]) = insert (pair_input (sha_climb sha c ps) p) (climb_inputs sha c ps)"
  by (induction sha c ps rule: climb_inputs.induct) auto

lemma climb_at_path: "at_path sha bs t = Some (x, sibs) \<Longrightarrow> sha_climb sha x sibs = node_hash sha t"
proof (induction sha bs t arbitrary: x sibs rule: at_path.induct)
  case (3 sha b bs l r)
  then show ?case
    by (cases b) (auto simp: sha_climb_snoc sorted_pair_input pair_input_comm split: option.splits)
qed auto

text \<open>Good data: 32-byte hashes, leaves and proof elements.\<close>

definition sized :: "(byte list \<Rightarrow> bytesn) \<Rightarrow> mtree \<Rightarrow> bytesn \<Rightarrow> bytesn list \<Rightarrow> bool" where
  "sized sha t leaf sibs \<longleftrightarrow>
     (\<forall>d. is_bytes32 (sha d)) \<and> (\<forall>x\<in>tree_leaves t. is_bytes32 x) \<and> is_bytes32 leaf \<and>
     (\<forall>x\<in>set sibs. is_bytes32 x)"

lemma node_hash_sized:
  "(\<forall>d. is_bytes32 (sha d)) \<Longrightarrow> (\<forall>x\<in>tree_leaves t. is_bytes32 x) \<Longrightarrow> is_bytes32 (node_hash sha t)"
  by (cases t) (simp_all add: sorted_pair_input)

lemma sha_climb_sized:
  "(\<forall>d. is_bytes32 (sha d)) \<Longrightarrow> is_bytes32 c \<Longrightarrow> is_bytes32 (sha_climb sha c ps)"
  by (induction sha c ps rule: sha_climb.induct) (simp_all add: sorted_pair_input)

lemma climb_sound:
  "sized sha t leaf sibs \<Longrightarrow> inj_on sha (tree_inputs sha t \<union> climb_inputs sha leaf sibs) \<Longrightarrow>
   tree_leaves t \<inter> sha ` climb_inputs sha leaf sibs = {} \<Longrightarrow>
   sha_climb sha leaf sibs = node_hash sha t \<Longrightarrow> \<exists>bs. at_path sha bs t = Some (leaf, sibs)"
proof (induction sibs arbitrary: t rule: rev_induct)
  case Nil
  then have "at_path sha [] t = Some (leaf, [])" by simp
  then show ?case ..
next
  case (snoc p ps)
  let ?c = "sha_climb sha leaf ps"
  have root: "sha (pair_input ?c p) = node_hash sha t"
    using snoc.prems(4) by (simp add: sha_climb_snoc sorted_pair_input)
  show ?case
  proof (cases t)
    case (Leaf x)
    with snoc.prems(3) root show ?thesis by (auto simp: climb_inputs_snoc)
  next
    case (Node l r)
    let ?l = "node_hash sha l" and ?r = "node_hash sha r"
    have in_t: "pair_input ?l ?r \<in> tree_inputs sha t" by (simp add: Node)
    have in_c: "pair_input ?c p \<in> climb_inputs sha leaf (ps @ [p])" by (simp add: climb_inputs_snoc)
    have "sha (pair_input ?c p) = sha (pair_input ?l ?r)"
      using root by (simp add: Node sorted_pair_input)
    with snoc.prems(2) have "pair_input ?c p = pair_input ?l ?r"
      by (rule inj_onD) (use in_t in_c in simp_all)
    then have "(?c = ?l \<and> p = ?r) \<or> (?c = ?r \<and> p = ?l)"
      by (rule pair_input_inject)
        (use snoc.prems(1) in \<open>simp_all add: Node sized_def sha_climb_sized node_hash_sized\<close>)
    then obtain b where b: "?c = node_hash sha (if b then r else l)" "p = node_hash sha (if b then l else r)"
      by (elim disjE) (rule that [of False], simp_all, rule that [of True], simp_all)
    have "\<exists>bs. at_path sha bs (if b then r else l) = Some (leaf, ps)"
    proof (rule snoc.IH)
      show "sized sha (if b then r else l) leaf ps"
        using snoc.prems(1) by (simp add: Node sized_def)
      show "inj_on sha (tree_inputs sha (if b then r else l) \<union> climb_inputs sha leaf ps)"
        using snoc.prems(2) by (rule inj_on_subset) (auto simp: Node climb_inputs_snoc)
      show "tree_leaves (if b then r else l) \<inter> sha ` climb_inputs sha leaf ps = {}"
        using snoc.prems(3) by (auto simp: Node climb_inputs_snoc)
      show "sha_climb sha leaf ps = node_hash sha (if b then r else l)" by (rule b(1))
    qed
    then obtain bs where "at_path sha bs (if b then r else l) = Some (leaf, ps)" ..
    then have "at_path sha (b # bs) t = Some (leaf, ps @ [p])" by (simp add: Node b(2))
    then show ?thesis ..
  qed
qed

section \<open>Properties\<close>

text \<open>
  C19. The pipeline of the XOR tree closes: from any non-empty vector of leaves (a host vector has
  at most \<open>u32::MAX\<close> elements) \<open>build_merkle_tree\<close> succeeds, for every index \<open>generate_proof\<close> gives a
  proof for the leaf at that index, and \<open>verify_proof\<close> accepts it against the root, odd levels and
  the depth limit of 64 included.
\<close>

theorem build_generate_verify:
  assumes "leaves \<noteq> []" and "length leaves \<le> u32_max"
  shows "\<exists>t. build_merkle_tree leaves = Inr t \<and>
    (\<forall>i < length leaves. \<exists>p. generate_proof t i = Inr p \<and> mp_leaf p = leaves ! i \<and>
       verify_proof (mt_root t) p = Inr True)"
  using build_total [OF assms, of compute_hash] ch.verify_generated [of leaves]
  by (auto simp: build_merkle_tree_def generate_proof_def verify_proof_def)

text \<open>
  The path bits of a proof do not matter: replacing them by any others of the same number does
  not change the answer of \<open>verify_proof\<close>. The parent hash is symmetric, so a proof does not bind
  the position of its leaf, against the module's documentation that a tampered path is rejected.
\<close>

theorem verify_proof_ignores_path:
  assumes "length qs = length (mp_path p)"
  shows "verify_proof root (p\<lparr>mp_path := qs\<rparr>) = verify_proof root p"
  using ch.climb_path [of "mp_path p" "mp_proof p" qs "mp_leaf p"] assms
  by (simp add: verify_proof_def verify_with_def)

text \<open>
  \<open>verify_proof\<close> is no commitment: for every 32-byte root and every leaf whatsoever there is a
  one-step proof it accepts, its only sibling being computed from the two by undoing the rotation
  and the XOR of \<open>compute_hash\<close>.
\<close>

theorem verify_proof_forgeable:
  assumes "is_bytes32 root"
  shows "verify_proof root \<lparr>mp_leaf = leaf, mp_proof = [unhash leaf root], mp_path = [b]\<rparr> = Inr True"
  using compute_hash_unhash [OF assms, of leaf] compute_hash_comm [of leaf "unhash leaf root"]
  by (simp add: verify_proof_def verify_with_def MAX_TREE_DEPTH_def)

text \<open>
  What \<open>verify_merkle_proof\<close> establishes. Let the root be the root of a tree of 32-byte leaves,
  and suppose that no two of the strings hashed in the tree or during the check collide and no
  leaf of the tree is a digest computed by the check. Then the check accepts exactly the proofs
  that list, lowest first, the hashes beside the way from some node of the tree to its root and
  start from that node's hash, up to depth 64. Inner nodes are accepted as leaves (there is no
  domain separation), in particular the root itself with the empty proof.
\<close>

theorem verify_merkle_proof_exact:
  assumes "sized sha t leaf sibs"
    and "inj_on sha (tree_inputs sha t \<union> climb_inputs sha leaf sibs)"
    and "tree_leaves t \<inter> sha ` climb_inputs sha leaf sibs = {}"
  shows "verify_merkle_proof sha (node_hash sha t) leaf sibs \<longleftrightarrow>
    length sibs \<le> MAX_TREE_DEPTH \<and> (\<exists>bs. at_path sha bs t = Some (leaf, sibs))"
  using climb_sound [OF assms] climb_at_path [of sha _ t leaf sibs]
  by (auto simp: verify_merkle_proof_def)

section \<open>Witnesses\<close>

definition leaf_of :: "byte \<Rightarrow> bytesn" where
  "leaf_of b = BytesN (replicate 32 b)"

lemma build_generate_verify_witness:
  "\<exists>t p. build_merkle_tree [leaf_of 1, leaf_of 2, leaf_of 3] = Inr t \<and> generate_proof t 2 = Inr p \<and>
     verify_proof (mt_root t) p = Inr True"
proof -
  obtain t where t: "build_merkle_tree [leaf_of 1, leaf_of 2, leaf_of 3] = Inr t"
    "\<forall>i < 3. \<exists>p. generate_proof t i = Inr p \<and>
       mp_leaf p = [leaf_of 1, leaf_of 2, leaf_of 3] ! i \<and> verify_proof (mt_root t) p = Inr True"
    using build_generate_verify [of "[leaf_of 1, leaf_of 2, leaf_of 3]"] by (auto simp: u32_max_def)
  from t(2) obtain p where "generate_proof t 2 = Inr p" "verify_proof (mt_root t) p = Inr True"
    using numeral_less_iff [of "Num.Bit0 Num.One" "Num.Bit1 Num.One"] by fastforce
  with t(1) show ?thesis by blast
qed

lemma verify_proof_ignores_path_witness:
  "verify_proof (leaf_of 9) \<lparr>mp_leaf = leaf_of 1, mp_proof = [leaf_of 2], mp_path = [False]\<rparr> =
   verify_proof (leaf_of 9) \<lparr>mp_leaf = leaf_of 1, mp_proof = [leaf_of 2], mp_path = [True]\<rparr>"
  using verify_proof_ignores_path [of "[False]"
      "\<lparr>mp_leaf = leaf_of 1, mp_proof = [leaf_of 2], mp_path = [True]\<rparr>" "leaf_of 9"]
  by simp

lemma verify_proof_forgeable_witness:
  "verify_proof (leaf_of 9) \<lparr>mp_leaf = leaf_of 1, mp_proof = [unhash (leaf_of 1) (leaf_of 9)],
     mp_path = [False]\<rparr> = Inr True"
  by (rule verify_proof_forgeable) (simp add: is_bytes32_def leaf_of_def)

lemma verify_merkle_proof_exact_witness:
  "verify_merkle_proof (\<lambda>_. leaf_of 7) (leaf_of 7) (leaf_of 1) [leaf_of 2]"
proof -
  let ?sha = "\<lambda>_ :: byte list. leaf_of 7" and ?t = "Node (Leaf (leaf_of 1)) (Leaf (leaf_of 2))"
  have "verify_merkle_proof ?sha (node_hash ?sha ?t) (leaf_of 1) [leaf_of 2] \<longleftrightarrow>
    length [leaf_of 2] \<le> MAX_TREE_DEPTH \<and> (\<exists>bs. at_path ?sha bs ?t = Some (leaf_of 1, [leaf_of 2]))"
    by (rule verify_merkle_proof_exact)
      (simp_all add: sized_def is_bytes32_def leaf_of_def)
  moreover have "at_path ?sha [False] ?t = Some (leaf_of 1, [leaf_of 2])" by simp
  ultimately show ?thesis
    by (auto simp: MAX_TREE_DEPTH_def sorted_pair_def simp del: at_path.simps)
qed

end
