(* ===== verification/Replay_Protection.thy ===== *)
theory Replay_Protection
  imports Prelude
begin

text \<open>
  \<open>contracts/common/src/replay_protection.rs\<close>: one monotonic nonce per (actor, channel).

  The interface that contracts rely on is the locale \<open>replay_guard\<close>: a nonce that was accepted is
  below the floor of its stream from then on, and other streams are untouched. Its extension
  \<open>sequential_guard\<close> is the exact-match discipline of this module. The weaker base locale has a
  second provider in \<open>Access_Control\<close> (\<open>require_valid_nonce\<close>).
\<close>

section \<open>The interface\<close>

text \<open>The nonces of stream \<open>k\<close> that a history of attempts has accepted, in order.\<close>

fun accepted :: "('k \<Rightarrow> nat \<Rightarrow> 's \<Rightarrow> 's res) \<Rightarrow> 'k \<Rightarrow> ('k \<times> nat) list \<Rightarrow> 's \<Rightarrow> nat list" where
  "accepted acc k [] s = []"
| "accepted acc k ((k', n) # es) s =
     (case acc k' n s of
        Inl _ \<Rightarrow> accepted acc k es s
      | Inr s' \<Rightarrow> (if k' = k then n # accepted acc k es s' else accepted acc k es s'))"

definition attempt :: "('k \<Rightarrow> nat \<Rightarrow> 's \<Rightarrow> 's res) \<Rightarrow> 'k \<times> nat \<Rightarrow> 's \<Rightarrow> 's res" where
  "attempt acc e s = acc (fst e) (snd e) s"

locale replay_guard =
  fixes acc :: "'k \<Rightarrow> nat \<Rightarrow> 's \<Rightarrow> 's res"
    and least :: "'k \<Rightarrow> 's \<Rightarrow> nat"
  assumes acc_fresh: "acc k n s = Inr s' \<Longrightarrow> least k s \<le> n"
    and acc_raises: "acc k n s = Inr s' \<Longrightarrow> n < least k s'"
    and acc_frame: "acc k n s = Inr s' \<Longrightarrow> k' \<noteq> k \<Longrightarrow> least k' s' = least k' s"
begin

lemma attempt_mono: "attempt acc e s = Inr s' \<Longrightarrow> least k s \<le> least k s'"
  using acc_fresh acc_raises acc_frame
  by (cases "fst e = k") (fastforce simp: attempt_def dest: less_imp_le intro: order.trans)+

sublocale mach: invariant_machine "\<lambda>_. True" "attempt acc" "\<lambda>_. True"
  by unfold_locales auto

lemma run_mono: "least k s \<le> least k (run (attempt acc) es s)"
  by (rule mach.run_rel) (auto intro: attempt_mono)

lemma no_replay:
  assumes "acc k n s = Inr s'"
  shows "\<nexists>t. acc k n (run (attempt acc) es s') = Inr t"
  using acc_raises [OF assms] run_mono [of k s' es] acc_fresh
  by (meson linorder_not_less order.strict_trans1)

lemma accepted_floor: "n \<in> set (accepted acc k es s) \<Longrightarrow> least k s \<le> n"
proof (induction es arbitrary: s)
  case Nil
  then show ?case by simp
next
  case (Cons e es)
  obtain k' m where e: "e = (k', m)" by (cases e)
  show ?case
  proof (cases "acc k' m s")
    case (Inl x)
    with Cons e show ?thesis by simp
  next
    case (Inr s')
    then have "least k s \<le> least k s'"
      using attempt_mono [of e s s' k] by (simp add: attempt_def e)
    with Cons e Inr show ?thesis
      by (auto split: if_splits intro: acc_fresh order.trans)
  qed
qed

lemma accepted_increasing: "sorted_wrt (<) (accepted acc k es s)"
proof (induction es arbitrary: s)
  case Nil
  then show ?case by simp
next
  case (Cons e es)
  obtain k' m where e: "e = (k', m)" by (cases e)
  show ?case
    using Cons
    by (auto simp: e split: sum.splits intro: order.strict_trans2 [OF acc_raises accepted_floor])
qed

end

locale sequential_guard = replay_guard +
  assumes acc_exact: "acc k n s = Inr s' \<Longrightarrow> n = least k s \<and> least k s' = Suc n"
begin

lemma accepted_consecutive:
  "accepted acc k es s = [least k s ..< least k (run (attempt acc) es s)]"
proof (induction es arbitrary: s)
  case Nil
  then show ?case by simp
next
  case (Cons e es)
  obtain k' m where e: "e = (k', m)" by (cases e)
  show ?case
  proof (cases "acc k' m s")
    case (Inl x)
    then show ?thesis using Cons by (simp add: e exec_def attempt_def)
  next
    case (Inr s')
    have step: "run (attempt acc) (e # es) s = run (attempt acc) es s'"
      using Inr by (simp add: e exec_def attempt_def)
    show ?thesis
    proof (cases "k' = k")
      case True
      with Inr have m: "m = least k s" "least k s' = Suc m" by (auto dest: acc_exact)
      moreover have "least k s' \<le> least k (run (attempt acc) es s')" by (rule run_mono)
      ultimately show ?thesis
        using Inr True Cons [of s'] unfolding step by (simp add: e upt_conv_Cons)
    next
      case False
      with Inr show ?thesis
        using Cons [of s'] acc_frame [OF Inr] unfolding step by (simp add: e)
    qed
  qed
qed

end

section \<open>The module\<close>

definition CHANNEL_ADMIN :: nat where "CHANNEL_ADMIN = 1"
definition CHANNEL_BUSINESS :: nat where "CHANNEL_BUSINESS = 2"
definition CHANNEL_MULTISIG :: nat where "CHANNEL_MULTISIG = 3"
definition CHANNEL_GOVERNANCE :: nat where "CHANNEL_GOVERNANCE = 4"
definition CHANNEL_PROTOCOL :: nat where "CHANNEL_PROTOCOL = 5"
definition CHANNEL_CUSTOM_START :: nat where "CHANNEL_CUSTOM_START = 256"

text \<open>Storage: \<open>ReplayKey::Nonce(actor, channel)\<close>.\<close>

type_synonym nonces = "address \<times> nat \<rightharpoonup> nat"

definition get_nonce :: "nonces \<Rightarrow> address \<Rightarrow> nat \<Rightarrow> nat" where
  "get_nonce m actor channel = unwrap_or (m (actor, channel)) 0"

definition peek_next_nonce :: "nonces \<Rightarrow> address \<Rightarrow> nat \<Rightarrow> nat" where
  "peek_next_nonce m actor channel = get_nonce m actor channel"

definition verify_and_increment_nonce :: "nonces \<Rightarrow> address \<Rightarrow> nat \<Rightarrow> nat \<Rightarrow> nonces res" where
  "verify_and_increment_nonce m actor channel provided =
     (let current = get_nonce m actor channel in
      bindr (assertr (provided = current) ''nonce mismatch for actor/channel pair'') (\<lambda>_.
      bindr (assertr (current < u64_max) ''nonce overflow'') (\<lambda>_.
      Inr (m((actor, channel) \<mapsto> current + 1)))))"

definition get_nonces_for_channels :: "nonces \<Rightarrow> address \<Rightarrow> nat list \<Rightarrow> nat list" where
  "get_nonces_for_channels m actor channels = map (get_nonce m actor) channels"

definition reset_nonce :: "nonces \<Rightarrow> address \<Rightarrow> nat \<Rightarrow> nonces" where
  "reset_nonce m actor channel = m((actor, channel) := None)"

fun reset_nonces_for_channels :: "nonces \<Rightarrow> address \<Rightarrow> nat list \<Rightarrow> nonces" where
  "reset_nonces_for_channels m actor [] = m"
| "reset_nonces_for_channels m actor (c # cs) =
     reset_nonces_for_channels (reset_nonce m actor c) actor cs"

definition is_well_known_channel :: "nat \<Rightarrow> bool" where
  "is_well_known_channel channel \<longleftrightarrow> CHANNEL_ADMIN \<le> channel \<and> channel \<le> CHANNEL_PROTOCOL"

definition is_custom_channel :: "nat \<Rightarrow> bool" where
  "is_custom_channel channel \<longleftrightarrow> CHANNEL_CUSTOM_START \<le> channel"

section \<open>It provides the interface\<close>

lemma verify_nonce_Inr:
  "verify_and_increment_nonce m a c n = Inr m' \<longleftrightarrow>
     n = get_nonce m a c \<and> n < u64_max \<and> m' = m((a, c) \<mapsto> n + 1)"
  by (auto simp: verify_and_increment_nonce_def Let_def)

lemma get_nonce_upd [simp]:
  "get_nonce (m((a, c) \<mapsto> n)) a' c' = (if a' = a \<and> c' = c then n else get_nonce m a' c')"
  by (auto simp: get_nonce_def)

text \<open>The attempts of the module, one stream per (actor, channel).\<close>

definition use_nonce :: "address \<times> nat \<Rightarrow> nat \<Rightarrow> nonces \<Rightarrow> nonces res" where
  "use_nonce k n m = verify_and_increment_nonce m (fst k) (snd k) n"

definition next_of :: "address \<times> nat \<Rightarrow> nonces \<Rightarrow> nat" where
  "next_of k m = get_nonce m (fst k) (snd k)"

interpretation rp: sequential_guard use_nonce next_of
  by unfold_locales (auto simp: use_nonce_def next_of_def verify_nonce_Inr prod_eq_iff)

lemma get_nonce_reset:
  "get_nonce (reset_nonce m a c) a' c' = (if a' = a \<and> c' = c then 0 else get_nonce m a' c')"
  by (auto simp: get_nonce_def reset_nonce_def)

lemma get_nonce_reset_channels:
  "get_nonce (reset_nonces_for_channels m a cs) a' c' =
     (if a' = a \<and> c' \<in> set cs then 0 else get_nonce m a' c')"
  by (induction m a cs rule: reset_nonces_for_channels.induct) (auto simp: get_nonce_reset)

section \<open>Properties\<close>

text \<open>
  C18. In any history of calls of \<open>verify_and_increment_nonce\<close>, over all actors and channels, the
  nonces accepted for one (actor, channel) are exactly the consecutive numbers from its stored
  nonce to the nonce stored at the end: none is skipped, repeated or accepted out of order, and
  calls on other streams do not count.
\<close>

theorem nonces_accepted_consecutively:
  "accepted use_nonce (actor, channel) es m =
     [get_nonce m actor channel ..< get_nonce (run (attempt use_nonce) es m) actor channel]"
  using rp.accepted_consecutive [of "(actor, channel)" es m] by (simp add: next_of_def)

end
