(* ===== verification/Access_Control.thy ===== *)
theory Access_Control
  imports Replay_Protection
begin

unbundle bit_operations_syntax

text \<open>
  \<open>contracts/attestation/src/access_control.rs\<close>: role bitmaps, the list of role holders, the
  admin quorum weights, the admin-removal guard, the per-account nonces of
  \<open>require_valid_nonce\<close> and the pause switch. An absent key reads as its default in the code
  (\<open>unwrap_or\<close>): an absent holder list is the empty one, an absent pause flag is \<open>False\<close>.
  Events and logs are output only and are left out.
\<close>

section \<open>Constants and state\<close>

type_synonym roles = "32 word"

definition ROLE_ADMIN :: roles where "ROLE_ADMIN = 1"
definition ROLE_ATTESTOR :: roles where "ROLE_ATTESTOR = 2"
definition ROLE_BUSINESS :: roles where "ROLE_BUSINESS = 4"
definition ROLE_OPERATOR :: roles where "ROLE_OPERATOR = 8"
definition ROLE_VALID_MASK :: roles where
  "ROLE_VALID_MASK = ROLE_ADMIN OR ROLE_ATTESTOR OR ROLE_BUSINESS OR ROLE_OPERATOR"
definition MAX_ADMIN_WEIGHT :: nat where "MAX_ADMIN_WEIGHT = 1000"
definition DEFAULT_ADMIN_WEIGHT :: nat where "DEFAULT_ADMIN_WEIGHT = 1"
definition MIN_ADMIN_COUNT :: nat where "MIN_ADMIN_COUNT = 1"
definition ADMIN_REMOVAL_COOLDOWN_SECS :: nat where "ADMIN_REMOVAL_COOLDOWN_SECS = 86400"
definition ZERO_ACCOUNT_STRKEY :: address where
  "ZERO_ACCOUNT_STRKEY = ''GAAAAAAAAAAAAAAAAAAAAAAAAAAAAAAAAAAAAAAAAAAAAAAAAAAAAWHF''"

record access_state =
  ac_roles :: "address \<rightharpoonup> roles"
  ac_holders :: "address list"
  ac_paused :: bool
  ac_pending_pause :: "nat option"
  ac_last_nonce :: "address \<times> nat \<rightharpoonup> nat"
  ac_weight :: "address \<rightharpoonup> nat"
  ac_last_admin_removed :: "nat option"

definition access_empty :: access_state where
  "access_empty = \<lparr>ac_roles = Map.empty, ac_holders = [], ac_paused = False,
     ac_pending_pause = None, ac_last_nonce = Map.empty, ac_weight = Map.empty,
     ac_last_admin_removed = None\<rparr>"

section \<open>Roles\<close>

definition is_valid_role_bitmap :: "roles \<Rightarrow> bool" where
  "is_valid_role_bitmap r \<longleftrightarrow> r AND NOT ROLE_VALID_MASK = 0"

definition get_roles :: "access_state \<Rightarrow> address \<Rightarrow> roles" where
  "get_roles s account = unwrap_or (ac_roles s account) 0"

definition set_roles :: "access_state \<Rightarrow> address \<Rightarrow> roles \<Rightarrow> access_state res" where
  "set_roles s account r =
     (if \<not> is_valid_role_bitmap r
      then Inl (Panic ''invalid role bitmap: contains undefined bits'')
      else
        (let s1 = s\<lparr>ac_roles := (ac_roles s)(account \<mapsto> r)\<rparr>; holders = ac_holders s1 in
         if r = 0 then Inr (s1\<lparr>ac_holders := filter (\<lambda>h. h \<noteq> account) holders\<rparr>)
         else if account \<in> set holders then Inr s1
         else Inr (s1\<lparr>ac_holders := holders @ [account]\<rparr>)))"

definition has_role :: "access_state \<Rightarrow> address \<Rightarrow> roles \<Rightarrow> bool" where
  "has_role s account role \<longleftrightarrow> get_roles s account AND role \<noteq> 0"

definition grant_role :: "access_state \<Rightarrow> address \<Rightarrow> roles \<Rightarrow> access_state res" where
  "grant_role s account role =
     (if \<not> is_valid_role_bitmap role \<or> role = 0
      then Inl (Panic ''invalid role: must be non-zero and within valid range'')
      else if role AND ROLE_ADMIN \<noteq> 0 \<and> account = ZERO_ACCOUNT_STRKEY
      then Inl (Panic ''ADMIN role cannot be granted to zero address'')
      else set_roles s account (get_roles s account OR role))"

definition get_role_holders :: "access_state \<Rightarrow> address list" where
  "get_role_holders s = ac_holders s"

definition admin_count :: "access_state \<Rightarrow> nat" where
  "admin_count s = length (filter (\<lambda>h. has_role s h ROLE_ADMIN) (get_role_holders s))"

definition require_admin_removal_allowed :: "ledger_env \<Rightarrow> access_state \<Rightarrow> unit res" where
  "require_admin_removal_allowed env s =
     bindr (assertr (admin_count s > MIN_ADMIN_COUNT)
              ''admin removal would violate MIN_ADMIN_COUNT'') (\<lambda>_.
     (case ac_last_admin_removed s of
        None \<Rightarrow> Inr ()
      | Some last_removed_at \<Rightarrow>
          (let now = timestamp env in
           assertr (last_removed_at \<le> now \<and> ADMIN_REMOVAL_COOLDOWN_SECS \<le> now - last_removed_at)
             ''admin removal cooldown not elapsed'')))"

definition revoke_role :: "ledger_env \<Rightarrow> access_state \<Rightarrow> address \<Rightarrow> roles \<Rightarrow> access_state res" where
  "revoke_role env s account role =
     (if \<not> is_valid_role_bitmap role \<or> role = 0
      then Inl (Panic ''invalid role: must be non-zero and within valid range'')
      else
        (let current = get_roles s account;
             removes_admin = (role AND ROLE_ADMIN \<noteq> 0 \<and> current AND ROLE_ADMIN \<noteq> 0) in
         bindr (if removes_admin then require_admin_removal_allowed env s else Inr ()) (\<lambda>_.
         bindr (set_roles s account (current AND NOT role)) (\<lambda>s1.
         Inr (if removes_admin
              then s1\<lparr>ac_last_admin_removed := Some (timestamp env)\<rparr> else s1)))))"

section \<open>Guards\<close>

definition require_admin :: "ledger_env \<Rightarrow> access_state \<Rightarrow> address \<Rightarrow> unit res" where
  "require_admin env s caller =
     bindr (require_auth env caller) (\<lambda>_.
     assertr (has_role s caller ROLE_ADMIN) ''caller does not have ADMIN role'')"

text \<open>\<open>locked\<close> is \<open>dispute::is_attestor_locked\<close> on the dispute storage.\<close>

definition require_attestor_not_locked ::
  "(address \<Rightarrow> bool) \<Rightarrow> ledger_env \<Rightarrow> access_state \<Rightarrow> address \<Rightarrow> unit res" where
  "require_attestor_not_locked locked env s caller =
     bindr (require_auth env caller) (\<lambda>_.
     bindr (assertr (has_role s caller ROLE_ATTESTOR) ''caller does not have ATTESTOR role'') (\<lambda>_.
     assertr (\<not> locked caller) ''attestor is locked due to an active dispute''))"

definition require_business :: "ledger_env \<Rightarrow> access_state \<Rightarrow> address \<Rightarrow> unit res" where
  "require_business env s caller =
     bindr (require_auth env caller) (\<lambda>_.
     assertr (has_role s caller ROLE_BUSINESS) ''caller does not have BUSINESS role'')"

definition require_operator :: "ledger_env \<Rightarrow> access_state \<Rightarrow> address \<Rightarrow> unit res" where
  "require_operator env s caller =
     bindr (require_auth env caller) (\<lambda>_.
     assertr (has_role s caller ROLE_OPERATOR) ''caller does not have OPERATOR role'')"

definition require_admin_or_attestor :: "ledger_env \<Rightarrow> access_state \<Rightarrow> address \<Rightarrow> unit res" where
  "require_admin_or_attestor env s caller =
     bindr (require_auth env caller) (\<lambda>_.
     assertr (get_roles s caller AND (ROLE_ADMIN OR ROLE_ATTESTOR) \<noteq> 0)
       ''caller must have ADMIN or ATTESTOR role'')"

definition require_business_or_attestor ::
  "ledger_env \<Rightarrow> access_state \<Rightarrow> address \<Rightarrow> address \<Rightarrow> bool res" where
  "require_business_or_attestor env s caller business =
     bindr (require_auth env caller) (\<lambda>_.
     if caller = business then Inr True
     else Inr (has_role s caller ROLE_ATTESTOR \<or> has_role s caller ROLE_ADMIN))"

definition grant_role_by_admin ::
  "ledger_env \<Rightarrow> access_state \<Rightarrow> address \<Rightarrow> address \<Rightarrow> roles \<Rightarrow> access_state res" where
  "grant_role_by_admin env s admin account role =
     bindr (require_admin env s admin) (\<lambda>_. grant_role s account role)"

definition revoke_role_by_admin ::
  "ledger_env \<Rightarrow> access_state \<Rightarrow> address \<Rightarrow> address \<Rightarrow> roles \<Rightarrow> access_state res" where
  "revoke_role_by_admin env s admin account role =
     bindr (require_admin env s admin) (\<lambda>_. revoke_role env s account role)"

definition swap_admin_after_verified_rotation ::
  "access_state \<Rightarrow> address \<Rightarrow> address \<Rightarrow> access_state res" where
  "swap_admin_after_verified_rotation s old_admin new_admin =
     bindr (assertr (has_role s old_admin ROLE_ADMIN) ''old_admin does not have ADMIN role'') (\<lambda>_.
     bindr (set_roles s old_admin (get_roles s old_admin AND NOT ROLE_ADMIN)) (\<lambda>s1.
     grant_role s1 new_admin ROLE_ADMIN))"

definition swap_admin ::
  "ledger_env \<Rightarrow> access_state \<Rightarrow> address \<Rightarrow> address \<Rightarrow> address \<Rightarrow> access_state res" where
  "swap_admin env s old_admin new_admin swapped_by =
     bindr (require_admin env s swapped_by) (\<lambda>_.
     bindr (assertr (has_role s old_admin ROLE_ADMIN) ''old_admin does not have ADMIN role'') (\<lambda>_.
     bindr (set_roles s old_admin (get_roles s old_admin AND NOT ROLE_ADMIN)) (\<lambda>s1.
     grant_role s1 new_admin ROLE_ADMIN)))"

section \<open>Admin quorum weights\<close>

definition get_admin_weight :: "access_state \<Rightarrow> address \<Rightarrow> nat" where
  "get_admin_weight s account = unwrap_or (ac_weight s account) DEFAULT_ADMIN_WEIGHT"

definition set_admin_weight :: "access_state \<Rightarrow> address \<Rightarrow> nat \<Rightarrow> access_state res" where
  "set_admin_weight s account weight =
     (if weight = 0 then Inl (Panic ''admin weight cannot be zero'')
      else if weight > MAX_ADMIN_WEIGHT then Inl (Panic ''admin weight exceeds MAX_ADMIN_WEIGHT'')
      else if \<not> has_role s account ROLE_ADMIN
      then Inl (Panic ''account does not hold ROLE_ADMIN'')
      else Inr (s\<lparr>ac_weight := (ac_weight s)(account \<mapsto> weight)\<rparr>))"

fun quorum_loop :: "access_state \<Rightarrow> nat \<Rightarrow> address list \<Rightarrow> nat res" where
  "quorum_loop s acc [] = Inr acc"
| "quorum_loop s acc (h # hs) =
     (if has_role s h ROLE_ADMIN
      then bindr (u64_chk (acc + get_admin_weight s h)) (\<lambda>acc'. quorum_loop s acc' hs)
      else quorum_loop s acc hs)"

definition admin_quorum_weight :: "access_state \<Rightarrow> nat res" where
  "admin_quorum_weight s = quorum_loop s 0 (get_role_holders s)"

section \<open>Nonces\<close>

definition require_valid_nonce ::
  "access_state \<Rightarrow> address \<Rightarrow> nat \<Rightarrow> nat option \<Rightarrow> access_state res" where
  "require_valid_nonce s account nonce channel_id =
     (if nonce = 0 then Inl (Panic ''invalid nonce: must be positive'')
      else
        (let channel = unwrap_or channel_id 0; key = (account, channel);
             last_nonce = unwrap_or (ac_last_nonce s key) 0 in
         if nonce \<le> last_nonce
         then Inl (Panic ''invalid nonce: must be greater than previous nonce'')
         else Inr (s\<lparr>ac_last_nonce := (ac_last_nonce s)(key \<mapsto> nonce)\<rparr>)))"

section \<open>Pausing\<close>

definition is_paused :: "access_state \<Rightarrow> bool" where
  "is_paused s = ac_paused s"

definition set_paused :: "access_state \<Rightarrow> bool \<Rightarrow> access_state" where
  "set_paused s b = s\<lparr>ac_paused := b\<rparr>"

definition get_pending_pause_effective_at :: "access_state \<Rightarrow> nat option" where
  "get_pending_pause_effective_at s = ac_pending_pause s"

definition set_pending_pause_effective_at :: "access_state \<Rightarrow> nat \<Rightarrow> access_state" where
  "set_pending_pause_effective_at s t = s\<lparr>ac_pending_pause := Some t\<rparr>"

definition clear_pending_pause :: "access_state \<Rightarrow> access_state" where
  "clear_pending_pause s = s\<lparr>ac_pending_pause := None\<rparr>"

definition emergency_pause_execute :: "access_state \<Rightarrow> access_state res" where
  "emergency_pause_execute s =
     bindr (assertr (\<not> is_paused s) ''contract already paused'') (\<lambda>_. Inr (set_paused s True))"

definition check_and_apply_pending_pause :: "ledger_env \<Rightarrow> access_state \<Rightarrow> access_state" where
  "check_and_apply_pending_pause env s =
     (case get_pending_pause_effective_at s of
        None \<Rightarrow> s
      | Some effective_at \<Rightarrow>
          (if effective_at \<le> timestamp env then clear_pending_pause (set_paused s True) else s))"

definition require_not_paused :: "ledger_env \<Rightarrow> access_state \<Rightarrow> access_state res" where
  "require_not_paused env s =
     (let s1 = check_and_apply_pending_pause env s in
      bindr (assertr (\<not> is_paused s1) ''contract is paused'') (\<lambda>_. Inr s1))"

section \<open>Role names\<close>

definition role_names :: "roles \<Rightarrow> sstring list" where
  "role_names r =
     (if r AND ROLE_ADMIN \<noteq> 0 then [''ADMIN''] else []) @
     (if r AND ROLE_ATTESTOR \<noteq> 0 then [''ATTESTOR''] else []) @
     (if r AND ROLE_BUSINESS \<noteq> 0 then [''BUSINESS''] else []) @
     (if r AND ROLE_OPERATOR \<noteq> 0 then [''OPERATOR''] else [])"

definition role_from_name :: "sstring \<Rightarrow> roles" where
  "role_from_name name =
     (if name = ''ADMIN'' then ROLE_ADMIN
      else if name = ''ATTESTOR'' then ROLE_ATTESTOR
      else if name = ''BUSINESS'' then ROLE_BUSINESS
      else if name = ''OPERATOR'' then ROLE_OPERATOR
      else 0)"

section \<open>Bitmap lemmas\<close>

lemma valid_or: "is_valid_role_bitmap x \<Longrightarrow> is_valid_role_bitmap y \<Longrightarrow> is_valid_role_bitmap (x OR y)"
  by (simp add: is_valid_role_bitmap_def bit.conj_disj_distrib2)

lemma valid_and_not: "is_valid_role_bitmap x \<Longrightarrow> is_valid_role_bitmap (x AND NOT y)"
  by (simp add: is_valid_role_bitmap_def) (metis and.assoc and.commute and_zero_eq)

lemma valid_zero [simp]: "is_valid_role_bitmap 0"
  by (simp add: is_valid_role_bitmap_def)

lemma admin_bit: "(x :: roles) AND ROLE_ADMIN \<noteq> 0 \<longleftrightarrow> odd x"
  by (simp add: ROLE_ADMIN_def and_one_eq odd_iff_mod_2_eq_one)

lemma has_admin_iff: "has_role s a ROLE_ADMIN \<longleftrightarrow> odd (get_roles s a)"
  by (simp add: has_role_def admin_bit)

lemma admin_ne_zero: "odd (x :: roles) \<Longrightarrow> x \<noteq> 0"
  by auto

lemma odd_or: "odd ((x :: roles) OR y) \<longleftrightarrow> odd x \<or> odd y"
  by (simp add: even_or_iff)

lemma odd_and_not: "odd ((x :: roles) AND NOT y) \<longleftrightarrow> odd x \<and> even y"
  by (simp add: even_and_iff even_not_iff)

lemma odd_ROLE_ADMIN [simp]: "odd ROLE_ADMIN"
  by (simp add: ROLE_ADMIN_def)

section \<open>The invariant\<close>

text \<open>
  Holders are listed once each and are exactly the accounts with a non-empty bitmap; bitmaps
  stay within \<open>ROLE_VALID_MASK\<close> and weights within their range.
\<close>

definition access_inv :: "access_state \<Rightarrow> bool" where
  "access_inv s \<longleftrightarrow>
     distinct (ac_holders s) \<and>
     (\<forall>a. a \<in> set (ac_holders s) \<longleftrightarrow> get_roles s a \<noteq> 0) \<and>
     (\<forall>a. is_valid_role_bitmap (get_roles s a)) \<and>
     (\<forall>a w. ac_weight s a = Some w \<longrightarrow> 0 < w \<and> w \<le> MAX_ADMIN_WEIGHT)"

lemma set_roles_get:
  "set_roles s a r = Inr s' \<Longrightarrow> get_roles s' b = (if b = a then r else get_roles s b)"
  by (auto simp: set_roles_def get_roles_def Let_def split: if_splits)

lemma set_roles_frame:
  assumes "set_roles s a r = Inr s'"
  shows "ac_paused s' = ac_paused s" "ac_pending_pause s' = ac_pending_pause s"
    "ac_last_nonce s' = ac_last_nonce s" "ac_weight s' = ac_weight s"
    "ac_last_admin_removed s' = ac_last_admin_removed s"
  using assms by (auto simp: set_roles_def Let_def split: if_splits)

lemma set_roles_holders:
  "set_roles s a r = Inr s' \<Longrightarrow>
   ac_holders s' = (if r = 0 then filter (\<lambda>h. h \<noteq> a) (ac_holders s)
     else if a \<in> set (ac_holders s) then ac_holders s else ac_holders s @ [a])"
  by (auto simp: set_roles_def Let_def split: if_splits)

lemma set_roles_valid: "set_roles s a r = Inr s' \<Longrightarrow> is_valid_role_bitmap r"
  by (auto simp: set_roles_def split: if_splits)

lemma set_roles_inv:
  assumes "access_inv s" and "set_roles s a r = Inr s'"
  shows "access_inv s'"
  using assms set_roles_valid [OF assms(2)]
  by (auto simp: access_inv_def set_roles_get [OF assms(2)] set_roles_frame [OF assms(2)]
        set_roles_holders [OF assms(2)])

lemma set_roles_total: "is_valid_role_bitmap r \<Longrightarrow> \<exists>s'. set_roles s a r = Inr s'"
  by (auto simp: set_roles_def Let_def)

definition admins :: "access_state \<Rightarrow> address set" where
  "admins s = {a. has_role s a ROLE_ADMIN}"

lemma admins_holders: "access_inv s \<Longrightarrow> admins s \<subseteq> set (ac_holders s)"
  by (auto simp: admins_def access_inv_def has_admin_iff dest: admin_ne_zero)

lemma finite_admins: "access_inv s \<Longrightarrow> finite (admins s)"
  by (rule finite_subset [OF admins_holders]) auto

lemma admin_count_card: "access_inv s \<Longrightarrow> admin_count s = card (admins s)"
proof -
  assume inv: "access_inv s"
  let ?hs = "filter (\<lambda>h. has_role s h ROLE_ADMIN) (ac_holders s)"
  have "admins s = set ?hs" using admins_holders [OF inv] by (auto simp: admins_def)
  moreover have "distinct ?hs" using inv by (simp add: access_inv_def)
  ultimately show ?thesis
    using distinct_card [of ?hs] by (simp add: admin_count_def get_role_holders_def)
qed

lemma set_roles_admins:
  "set_roles s a r = Inr s' \<Longrightarrow> admins s' = (if odd r then insert a (admins s) else admins s - {a})"
  by (auto simp: admins_def has_admin_iff set_roles_get split: if_splits)

section \<open>The module as a machine\<close>

datatype access_call =
    GrantRole address roles
  | GrantRoleByAdmin ledger_env address address roles
  | RevokeRole ledger_env address roles
  | RevokeRoleByAdmin ledger_env address address roles
  | SwapAdmin ledger_env address address address
  | SwapAdminVerified address address
  | SetAdminWeight address nat
  | ValidNonce address nat "nat option"
  | SetPaused bool
  | EmergencyPauseExecute
  | SetPendingPause nat
  | ClearPendingPause
  | RequireNotPaused ledger_env

fun access_step :: "access_call \<Rightarrow> access_state \<Rightarrow> access_state res" where
  "access_step (GrantRole a r) s = grant_role s a r"
| "access_step (GrantRoleByAdmin env adm a r) s = grant_role_by_admin env s adm a r"
| "access_step (RevokeRole env a r) s = revoke_role env s a r"
| "access_step (RevokeRoleByAdmin env adm a r) s = revoke_role_by_admin env s adm a r"
| "access_step (SwapAdmin env old new by) s = swap_admin env s old new by"
| "access_step (SwapAdminVerified old new) s = swap_admin_after_verified_rotation s old new"
| "access_step (SetAdminWeight a w) s = set_admin_weight s a w"
| "access_step (ValidNonce a n c) s = require_valid_nonce s a n c"
| "access_step (SetPaused b) s = Inr (set_paused s b)"
| "access_step EmergencyPauseExecute s = emergency_pause_execute s"
| "access_step (SetPendingPause t) s = Inr (set_pending_pause_effective_at s t)"
| "access_step ClearPendingPause s = Inr (clear_pending_pause s)"
| "access_step (RequireNotPaused env) s = require_not_paused env s"

text \<open>The state \<open>initialize\<close> leaves: one account holds \<open>ROLE_ADMIN\<close>.\<close>

definition access_start :: "access_state \<Rightarrow> bool" where
  "access_start s \<longleftrightarrow> (\<exists>admin. grant_role access_empty admin ROLE_ADMIN = Inr s)"

definition admin_inv :: "access_state \<Rightarrow> bool" where
  "admin_inv s \<longleftrightarrow> access_inv s \<and> admins s \<noteq> {}"

lemma access_inv_frame:
  assumes "access_inv s" and "ac_roles s' = ac_roles s" and "ac_holders s' = ac_holders s"
    and "ac_weight s' = ac_weight s"
  shows "access_inv s'" and "admins s' = admins s"
  using assms by (simp_all add: access_inv_def get_roles_def admins_def has_role_def)

lemma admin_inv_frame [simp]:
  "admin_inv (s\<lparr>ac_paused := b\<rparr>) = admin_inv s"
  "admin_inv (s\<lparr>ac_pending_pause := p\<rparr>) = admin_inv s"
  "admin_inv (s\<lparr>ac_last_nonce := m\<rparr>) = admin_inv s"
  "admin_inv (s\<lparr>ac_last_admin_removed := t\<rparr>) = admin_inv s"
  by (simp_all add: admin_inv_def access_inv_def get_roles_def admins_def has_role_def)

lemma grant_role_set:
  "grant_role s a r = Inr s' \<Longrightarrow> set_roles s a (get_roles s a OR r) = Inr s' \<and> r \<noteq> 0 \<and> is_valid_role_bitmap r"
  by (auto simp: grant_role_def split: if_splits)

lemma grant_role_inv: "access_inv s \<Longrightarrow> grant_role s a r = Inr s' \<Longrightarrow> access_inv s'"
  using grant_role_set set_roles_inv by blast

lemma grant_role_admins:
  assumes "grant_role s a r = Inr s'"
  shows "admins s' = (if odd r then insert a (admins s) else admins s)"
  using grant_role_set [OF assms] set_roles_admins [of s a "get_roles s a OR r" s']
  by (auto simp: odd_or admins_def has_admin_iff)

lemma admin_inv_grant: "admin_inv s \<Longrightarrow> grant_role s a r = Inr s' \<Longrightarrow> admin_inv s'"
  using grant_role_inv grant_role_admins by (auto simp: admin_inv_def split: if_splits)

lemma revoke_role_cases:
  assumes "revoke_role env s a r = Inr s'"
  obtains s1 where "set_roles s a (get_roles s a AND NOT r) = Inr s1"
    and "(odd r \<and> odd (get_roles s a) \<and> require_admin_removal_allowed env s = Inr () \<and>
          s' = s1\<lparr>ac_last_admin_removed := Some (timestamp env)\<rparr>) \<or>
         (\<not> (odd r \<and> odd (get_roles s a)) \<and> s' = s1)"
  using assms that by (auto simp: revoke_role_def Let_def admin_bit split: if_splits)

lemma revoke_role_inv:
  assumes "access_inv s" and "revoke_role env s a r = Inr s'"
  shows "access_inv s'"
  using assms(2)
proof (cases rule: revoke_role_cases)
  case (1 s1)
  have "access_inv s1" using assms(1) 1(1) by (rule set_roles_inv)
  with 1(2) show ?thesis by (auto intro: access_inv_frame(1) [of s1])
qed

lemma revoke_role_admins:
  assumes "revoke_role env s a r = Inr s'"
  shows "admins s' = (if odd r then admins s - {a} else admins s)"
  using assms
proof (cases rule: revoke_role_cases)
  case (1 s1)
  have "admins s1 = (if odd (get_roles s a) \<and> even r then insert a (admins s) else admins s - {a})"
    using set_roles_admins [OF 1(1)] by (simp add: odd_and_not)
  moreover have "admins s' = admins s1"
    using 1(2) by (auto simp: admins_def has_role_def get_roles_def)
  ultimately show ?thesis by (auto simp: admins_def has_admin_iff)
qed

lemma removal_allowed_count:
  "require_admin_removal_allowed env s = Inr () \<Longrightarrow> MIN_ADMIN_COUNT < admin_count s"
  by (simp add: require_admin_removal_allowed_def)

lemma admin_inv_revoke:
  assumes "admin_inv s" and "revoke_role env s a r = Inr s'"
  shows "admin_inv s'"
proof -
  have inv: "access_inv s" using assms(1) by (simp add: admin_inv_def)
  have adm: "admins s' = (if odd r then admins s - {a} else admins s)"
    by (rule revoke_role_admins [OF assms(2)])
  have "admins s' \<noteq> {}"
  proof (cases "odd r \<and> a \<in> admins s")
    case True
    then have "require_admin_removal_allowed env s = Inr ()"
      using assms(2) by (auto simp: admins_def has_admin_iff elim: revoke_role_cases)
    then have "1 < card (admins s)"
      using removal_allowed_count [of env s] admin_count_card [OF inv] by (simp add: MIN_ADMIN_COUNT_def)
    then have "\<not> admins s \<subseteq> {a}"
      using card_mono [of "{a}" "admins s"] by auto
    with adm True show ?thesis by auto
  next
    case False
    with adm assms(1) show ?thesis by (auto simp: admin_inv_def)
  qed
  with revoke_role_inv [OF inv assms(2)] show ?thesis by (simp add: admin_inv_def)
qed

lemma swap_verified_admins:
  assumes "access_inv s" and "swap_admin_after_verified_rotation s old new = Inr s'"
  shows "access_inv s'" and "admins s' = insert new (admins s - {old})"
proof -
  obtain s1 where s1: "set_roles s old (get_roles s old AND NOT ROLE_ADMIN) = Inr s1"
    and g: "grant_role s1 new ROLE_ADMIN = Inr s'"
    using assms(2) by (auto simp: swap_admin_after_verified_rotation_def)
  show "access_inv s'" using assms(1) s1 g set_roles_inv grant_role_inv by blast
  have "admins s1 = admins s - {old}"
    using set_roles_admins [OF s1] by (simp add: odd_and_not)
  with grant_role_admins [OF g] show "admins s' = insert new (admins s - {old})" by simp
qed

lemma swap_admin_verified:
  "swap_admin env s old new by = Inr s' \<Longrightarrow>
   has_role s by ROLE_ADMIN \<and> authorized env by \<and> swap_admin_after_verified_rotation s old new = Inr s'"
  by (auto simp: swap_admin_def require_admin_def swap_admin_after_verified_rotation_def)

lemma admin_inv_swap:
  "admin_inv s \<Longrightarrow> swap_admin_after_verified_rotation s old new = Inr s' \<Longrightarrow> admin_inv s'"
  using swap_verified_admins by (fastforce simp: admin_inv_def)

lemma set_weight_inv:
  "access_inv s \<Longrightarrow> set_admin_weight s a w = Inr s' \<Longrightarrow> access_inv s' \<and> admins s' = admins s"
  by (auto simp: set_admin_weight_def access_inv_def get_roles_def admins_def has_role_def
      split: if_splits)

lemmas pause_defs = set_paused_def clear_pending_pause_def set_pending_pause_effective_at_def
  emergency_pause_execute_def require_not_paused_def check_and_apply_pending_pause_def
  get_pending_pause_effective_at_def is_paused_def

lemma require_not_paused_cases:
  "require_not_paused env s = Inr s' \<Longrightarrow> s' = check_and_apply_pending_pause env s \<and> \<not> ac_paused s'"
  by (auto simp: require_not_paused_def is_paused_def Let_def)

lemma check_pause_inv [simp]: "admin_inv (check_and_apply_pending_pause env s) = admin_inv s"
  by (simp add: check_and_apply_pending_pause_def clear_pending_pause_def set_paused_def
      split: option.split)

lemma valid_nonce_inv: "require_valid_nonce s a n c = Inr s' \<Longrightarrow> admin_inv s' = admin_inv s"
  by (auto simp: require_valid_nonce_def Let_def split: if_splits)

lemma set_weight_admin_inv: "admin_inv s \<Longrightarrow> set_admin_weight s a w = Inr s' \<Longrightarrow> admin_inv s'"
  using set_weight_inv [of s a w s'] by (simp add: admin_inv_def)

lemma access_step_inv: "admin_inv s \<Longrightarrow> access_step c s = Inr s' \<Longrightarrow> admin_inv s'"
  by (cases c)
    (auto simp: set_paused_def set_pending_pause_effective_at_def clear_pending_pause_def
       emergency_pause_execute_def grant_role_by_admin_def revoke_role_by_admin_def
     dest: admin_inv_grant admin_inv_revoke admin_inv_swap set_weight_admin_inv valid_nonce_inv
       swap_admin_verified require_not_paused_cases)

lemma access_start_inv: "access_start s \<Longrightarrow> admin_inv s"
proof -
  assume "access_start s"
  then obtain admin where g: "grant_role access_empty admin ROLE_ADMIN = Inr s"
    by (auto simp: access_start_def)
  have "access_inv access_empty"
    by (simp add: access_inv_def access_empty_def get_roles_def)
  then show ?thesis
    using grant_role_inv [OF _ g] grant_role_admins [OF g] by (simp add: admin_inv_def)
qed

interpretation access: invariant_machine access_start access_step admin_inv
  by unfold_locales (auto intro: access_start_inv access_step_inv)

section \<open>Nonces as a replay guard\<close>

definition account_nonce :: "address \<times> nat \<Rightarrow> nat \<Rightarrow> access_state \<Rightarrow> access_state res" where
  "account_nonce k n s = require_valid_nonce s (fst k) n (Some (snd k))"

definition account_floor :: "address \<times> nat \<Rightarrow> access_state \<Rightarrow> nat" where
  "account_floor k s = Suc (unwrap_or (ac_last_nonce s k) 0)"

interpretation acn: replay_guard account_nonce account_floor
  by unfold_locales
    (auto simp: account_nonce_def account_floor_def require_valid_nonce_def Let_def split: if_splits)

section \<open>Quorum weights\<close>

lemma admin_weight_range: "access_inv s \<Longrightarrow> 0 < get_admin_weight s a \<and> get_admin_weight s a \<le> MAX_ADMIN_WEIGHT"
  by (cases "ac_weight s a")
    (auto simp: access_inv_def get_admin_weight_def DEFAULT_ADMIN_WEIGHT_def MAX_ADMIN_WEIGHT_def)

lemma quorum_loop_sum:
  assumes inv: "access_inv s"
    and "acc + MAX_ADMIN_WEIGHT * length (filter (\<lambda>h. has_role s h ROLE_ADMIN) hs) \<le> u64_max"
  shows "quorum_loop s acc hs =
    Inr (acc + (\<Sum>h\<leftarrow>filter (\<lambda>h. has_role s h ROLE_ADMIN) hs. get_admin_weight s h))"
  using assms(2)
proof (induction hs arbitrary: acc)
  case Nil
  then show ?case by simp
next
  case (Cons h hs)
  have "get_admin_weight s h \<le> MAX_ADMIN_WEIGHT" using admin_weight_range [OF inv] by simp
  with Cons show ?case by (auto simp: u64_chk_def algebra_simps)
qed

lemma sum_list_range:
  "(\<And>x. x \<in> set xs \<Longrightarrow> 0 < f x \<and> f x \<le> (k :: nat)) \<Longrightarrow>
   length xs \<le> (\<Sum>x\<leftarrow>xs. f x) \<and> (\<Sum>x\<leftarrow>xs. f x) \<le> k * length xs"
proof (induction xs)
  case Nil
  then show ?case by simp
next
  case (Cons x xs)
  have "0 < f x \<and> f x \<le> k" using Cons.prems by simp
  moreover have "length xs \<le> (\<Sum>x\<leftarrow>xs. f x) \<and> (\<Sum>x\<leftarrow>xs. f x) \<le> k * length xs"
    using Cons.prems by (intro Cons.IH) auto
  ultimately show ?case by simp
qed

section \<open>Properties\<close>

text \<open>
  C17. The contract never loses its last administrator: in every state that any history of role
  grants, revocations, admin swaps, weight changes, nonce uses and pauses reaches from
  initialization, at least one account holds \<open>ROLE_ADMIN\<close>, the holder list has no duplicates and
  is exactly the accounts with a non-empty bitmap, and every bitmap is within the valid mask.
\<close>

theorem last_admin_never_lost:
  assumes "reachable access_start access_step s"
  shows "access_inv s \<and> 1 \<le> admin_count s"
proof -
  have inv: "admin_inv s" using assms by (rule access.reachable_inv)
  then have "0 < card (admins s)"
    using finite_admins by (simp add: admin_inv_def card_gt_0_iff)
  with inv show ?thesis by (simp add: admin_inv_def admin_count_card)
qed

definition access_alice :: access_state where
  "access_alice = access_empty\<lparr>ac_roles := [''ALICE'' \<mapsto> ROLE_ADMIN], ac_holders := [''ALICE'']\<rparr>"

lemma access_alice_start: "grant_role access_empty ''ALICE'' ROLE_ADMIN = Inr access_alice"
  by (simp add: grant_role_def set_roles_def access_alice_def access_empty_def get_roles_def
      is_valid_role_bitmap_def ROLE_ADMIN_def ROLE_VALID_MASK_def ROLE_ATTESTOR_def
      ROLE_BUSINESS_def ROLE_OPERATOR_def ZERO_ACCOUNT_STRKEY_def)

lemma last_admin_never_lost_witness:
  "1 \<le> admin_count (run access_step
     [GrantRole ''BOB'' ROLE_ADMIN, RevokeRole (env_at 5 1) ''ALICE'' ROLE_ADMIN,
      RevokeRole (env_at 9 2) ''BOB'' ROLE_ADMIN] access_alice)"
proof -
  have "access_start access_alice" using access_alice_start by (auto simp: access_start_def)
  then have "reachable access_start access_step access_alice" by (rule reachable_start)
  then show ?thesis
    by (rule last_admin_never_lost [OF reachable_run, THEN conjunct2])
qed

lemma revoke_role_get:
  assumes "revoke_role env s account role = Inr s'"
  shows "get_roles s' a = (if a = account then get_roles s account AND NOT role else get_roles s a)"
  using assms
proof (cases rule: revoke_role_cases)
  case (1 s1)
  have "get_roles s' a = get_roles s1 a" using 1(2) by (auto simp: get_roles_def)
  with set_roles_get [OF 1(1)] show ?thesis by simp
qed

lemma revoke_role_removal:
  assumes "access_inv s" and "revoke_role env s account role = Inr s'"
    and "odd role" and "account \<in> admins s"
  shows "admin_count s' + 1 = admin_count s \<and> 1 \<le> admin_count s' \<and>
    ac_last_admin_removed s' = Some (timestamp env) \<and>
    (\<forall>t. ac_last_admin_removed s = Some t \<longrightarrow> t + ADMIN_REMOVAL_COOLDOWN_SECS \<le> timestamp env)"
proof -
  have inv': "access_inv s'" using assms(1,2) by (rule revoke_role_inv)
  have req: "require_admin_removal_allowed env s = Inr ()"
    and last: "ac_last_admin_removed s' = Some (timestamp env)"
    using assms(2-4) by (auto simp: admins_def has_admin_iff elim!: revoke_role_cases)
  have "card (admins s') + 1 = card (admins s)"
    using revoke_role_admins [OF assms(2)] assms(3)
      card_Suc_Diff1 [OF finite_admins [OF assms(1)] assms(4)] by simp
  moreover have "1 < admin_count s"
    using removal_allowed_count [OF req] by (simp add: MIN_ADMIN_COUNT_def)
  moreover have "t + ADMIN_REMOVAL_COOLDOWN_SECS \<le> timestamp env"
    if "ac_last_admin_removed s = Some t" for t
    using req that by (simp add: require_admin_removal_allowed_def Let_def) arith
  ultimately show ?thesis
    using last by (simp add: admin_count_card [OF assms(1)] admin_count_card [OF inv'])
qed

lemma revoke_role_other:
  assumes "access_inv s" and "revoke_role env s account role = Inr s'"
    and "\<not> (odd role \<and> account \<in> admins s)"
  shows "admin_count s' = admin_count s \<and> ac_last_admin_removed s' = ac_last_admin_removed s"
proof -
  have "admins s' = admins s" using revoke_role_admins [OF assms(2)] assms(3) by auto
  moreover have "ac_last_admin_removed s' = ac_last_admin_removed s"
    using assms(2)
  proof (cases rule: revoke_role_cases)
    case (1 s1)
    with assms(3) show ?thesis by (auto simp: admins_def has_admin_iff set_roles_frame(5) [OF 1(1)])
  qed
  ultimately show ?thesis
    by (simp add: admin_count_card [OF assms(1)] admin_count_card [OF revoke_role_inv [OF assms(1,2)]])
qed

text \<open>
  A successful \<open>revoke_role\<close> clears exactly the named bits of exactly the named account. When
  it takes \<open>ROLE_ADMIN\<close> from an administrator, one administrator fewer and at least one is left,
  the previous such removal is at least 24 hours old, and the time of this one is recorded;
  otherwise the number of administrators and the recorded time are unchanged.
\<close>

theorem revoke_role_effect:
  assumes "access_inv s" and "revoke_role env s account role = Inr s'"
  shows
    "(\<forall>a. get_roles s' a =
       (if a = account then get_roles s account AND NOT role else get_roles s a)) \<and>
     (if role AND ROLE_ADMIN \<noteq> 0 \<and> has_role s account ROLE_ADMIN
      then admin_count s' + 1 = admin_count s \<and> 1 \<le> admin_count s' \<and>
           ac_last_admin_removed s' = Some (timestamp env) \<and>
           (\<forall>t. ac_last_admin_removed s = Some t \<longrightarrow>
              t + ADMIN_REMOVAL_COOLDOWN_SECS \<le> timestamp env)
      else admin_count s' = admin_count s \<and>
           ac_last_admin_removed s' = ac_last_admin_removed s)"
  using revoke_role_get [OF assms(2)] revoke_role_removal [OF assms] revoke_role_other [OF assms]
  by (simp add: admin_bit admins_def)

text \<open>
  The admin quorum weight is the sum of the weights of the accounts that hold \<open>ROLE_ADMIN\<close>;
  with at most \<open>u32::MAX\<close> holders its \<open>u64\<close> accumulator cannot overflow, and it lies between the
  number of administrators and a thousand times that number.
\<close>

theorem admin_quorum_weight_bounds:
  assumes "access_inv s" and "length (ac_holders s) \<le> u32_max"
  shows "\<exists>w. admin_quorum_weight s = Inr w \<and>
    w = (\<Sum>a\<in>admins s. get_admin_weight s a) \<and>
    admin_count s \<le> w \<and> w \<le> MAX_ADMIN_WEIGHT * admin_count s"
proof -
  let ?hs = "filter (\<lambda>h. has_role s h ROLE_ADMIN) (ac_holders s)"
  have hs: "set ?hs = admins s" using admins_holders [OF assms(1)] by (auto simp: admins_def)
  have d: "distinct ?hs" using assms(1) by (simp add: access_inv_def)
  have "length ?hs \<le> u32_max" using assms(2) by (rule order.trans [OF length_filter_le])
  then have "admin_quorum_weight s = Inr (\<Sum>h\<leftarrow>?hs. get_admin_weight s h)"
    using quorum_loop_sum [OF assms(1), of 0 "ac_holders s"]
    by (simp add: admin_quorum_weight_def get_role_holders_def MAX_ADMIN_WEIGHT_def
        u32_max_def u64_max_def)
  moreover have "(\<Sum>h\<leftarrow>?hs. get_admin_weight s h) = (\<Sum>a\<in>admins s. get_admin_weight s a)"
    using sum_list_distinct_conv_sum_set [OF d] hs by metis
  moreover have "length ?hs \<le> (\<Sum>h\<leftarrow>?hs. get_admin_weight s h) \<and>
      (\<Sum>h\<leftarrow>?hs. get_admin_weight s h) \<le> MAX_ADMIN_WEIGHT * length ?hs"
    by (rule sum_list_range) (rule admin_weight_range [OF assms(1)])
  ultimately show ?thesis by (simp add: admin_count_def get_role_holders_def)
qed

section \<open>Witnesses\<close>

lemmas role_consts = ROLE_ADMIN_def ROLE_ATTESTOR_def ROLE_BUSINESS_def ROLE_OPERATOR_def
  ROLE_VALID_MASK_def is_valid_role_bitmap_def

definition access_two :: access_state where
  "access_two = access_alice\<lparr>ac_roles := [''ALICE'' \<mapsto> ROLE_ADMIN, ''BOB'' \<mapsto> ROLE_ADMIN],
     ac_holders := [''ALICE'', ''BOB''], ac_weight := [''BOB'' \<mapsto> 3],
     ac_last_admin_removed := Some 1000\<rparr>"

lemma access_two_inv: "access_inv access_two"
  by (auto simp: access_inv_def access_two_def access_alice_def access_empty_def get_roles_def
      unwrap_or_def role_consts MAX_ADMIN_WEIGHT_def)

lemma access_two_revoke:
  "\<exists>s'. revoke_role (env_at 87400 7) access_two ''ALICE'' ROLE_ADMIN = Inr s'"
  by (simp add: revoke_role_def require_admin_removal_allowed_def admin_count_def
      get_role_holders_def has_role_def get_roles_def set_roles_def access_two_def role_consts
      MIN_ADMIN_COUNT_def ADMIN_REMOVAL_COOLDOWN_SECS_def Let_def)

lemma revoke_role_effect_witness:
  "\<exists>s'. revoke_role (env_at 87400 7) access_two ''ALICE'' ROLE_ADMIN = Inr s' \<and>
        get_roles s' ''BOB'' = ROLE_ADMIN"
proof -
  obtain s' where r: "revoke_role (env_at 87400 7) access_two ''ALICE'' ROLE_ADMIN = Inr s'"
    using access_two_revoke by blast
  have "get_roles s' ''BOB'' = get_roles access_two ''BOB''"
    using revoke_role_effect [OF access_two_inv r] by simp
  with r show ?thesis by (auto simp: access_two_def get_roles_def)
qed

lemma admin_quorum_weight_bounds_witness:
  "\<exists>w. admin_quorum_weight access_two = Inr w \<and> admin_count access_two \<le> w"
  using admin_quorum_weight_bounds [OF access_two_inv]
  by (auto simp: access_two_def u32_max_def)

end
