(* ===== verification/Dispute.thy ===== *)
theory Dispute
  imports Merkle Access_Control
begin

text \<open>
  \<open>contracts/attestation/src/dispute.rs\<close>: disputes about attestations with their indices and the
  locks they put on attestors, the revocation records with their index and sequence number, and the
  anomaly escalation levels. Functions that look at the attestation store of \<open>lib.rs\<close> take it as the
  map \<open>atts\<close>; \<open>Err\<close> results are the left of a sum of strings.
\<close>

section \<open>Data\<close>

text \<open>\<open>AttestationData\<close>, a tuple in the source: root, timestamp, version, fee paid, proof hash, expiry.\<close>

record att_data =
  ad_root :: bytesn
  ad_timestamp :: nat
  ad_version :: nat
  ad_fee :: int
  ad_proof_hash :: "bytesn option"
  ad_expiry :: "nat option"

type_synonym att_key = "address \<times> sstring"
type_synonym att_store = "att_key \<rightharpoonup> att_data"

record revocation_data =
  rd_by :: address
  rd_at :: nat
  rd_reason :: sstring

definition DISPUTE_DEADLINE_SECONDS :: nat where "DISPUTE_DEADLINE_SECONDS = 604800"
definition MIN_DISPUTE_DEADLINE_SECONDS :: nat where "MIN_DISPUTE_DEADLINE_SECONDS = 3600"
definition MAX_DISPUTE_DEADLINE_SECONDS :: nat where "MAX_DISPUTE_DEADLINE_SECONDS = 7776000"

datatype dispute_status = DOpen | DResolved | DClosed
datatype dispute_type = RevenueMismatch | DataIntegrity | OtherType
datatype dispute_outcome = Upheld | Rejected | Settled

record dispute_resolution =
  re_resolver :: address
  re_outcome :: dispute_outcome
  re_timestamp :: nat
  re_notes :: sstring

record dispute =
  di_id :: nat
  di_challenger :: address
  di_business :: address
  di_attestor :: address
  di_period :: sstring
  di_status :: dispute_status
  di_type :: dispute_type
  di_evidence :: sstring
  di_timestamp :: nat
  di_resolution :: "dispute_resolution option"

record dispute_state =
  ds_counter :: "nat option"
  ds_disputes :: "nat \<rightharpoonup> dispute"
  ds_resolutions :: "nat \<rightharpoonup> dispute_resolution"
  ds_by_attestation :: "att_key \<rightharpoonup> nat list"
  ds_by_challenger :: "address \<rightharpoonup> nat list"
  ds_revoked :: "att_key \<rightharpoonup> revocation_data"
  ds_revoked_periods :: "address \<rightharpoonup> sstring list"
  ds_sequence :: "nat option"
  ds_attestor_by :: "att_key \<rightharpoonup> address"
  ds_lock_count :: "address \<rightharpoonup> nat"
  ds_deadline :: "nat option"
  ds_escalation :: "address \<rightharpoonup> nat"

definition dispute_empty :: dispute_state where
  "dispute_empty = \<lparr>ds_counter = None, ds_disputes = Map.empty, ds_resolutions = Map.empty,
     ds_by_attestation = Map.empty, ds_by_challenger = Map.empty, ds_revoked = Map.empty,
     ds_revoked_periods = Map.empty, ds_sequence = None, ds_attestor_by = Map.empty,
     ds_lock_count = Map.empty, ds_deadline = None, ds_escalation = Map.empty\<rparr>"

section \<open>Disputes and their indices\<close>

definition generate_dispute_id :: "dispute_state \<Rightarrow> (nat \<times> dispute_state) res" where
  "generate_dispute_id s =
     (let current = unwrap_or (ds_counter s) 0 in
      bindr (u64_chk (current + 1)) (\<lambda>nxt. Inr (nxt, s\<lparr>ds_counter := Some nxt\<rparr>)))"

definition store_dispute :: "dispute_state \<Rightarrow> dispute \<Rightarrow> dispute_state" where
  "store_dispute s d = s\<lparr>ds_disputes := (ds_disputes s)(di_id d \<mapsto> d)\<rparr>"

definition get_dispute :: "dispute_state \<Rightarrow> nat \<Rightarrow> dispute option" where
  "get_dispute s dispute_id = ds_disputes s dispute_id"

definition store_dispute_resolution :: "dispute_state \<Rightarrow> nat \<Rightarrow> dispute_resolution \<Rightarrow> dispute_state" where
  "store_dispute_resolution s dispute_id r = s\<lparr>ds_resolutions := (ds_resolutions s)(dispute_id \<mapsto> r)\<rparr>"

definition get_dispute_resolution :: "dispute_state \<Rightarrow> nat \<Rightarrow> dispute_resolution option" where
  "get_dispute_resolution s dispute_id = ds_resolutions s dispute_id"

definition get_dispute_ids_by_attestation :: "dispute_state \<Rightarrow> address \<Rightarrow> sstring \<Rightarrow> nat list" where
  "get_dispute_ids_by_attestation s business period = unwrap_or (ds_by_attestation s (business, period)) []"

definition add_dispute_to_attestation_index ::
  "dispute_state \<Rightarrow> address \<Rightarrow> sstring \<Rightarrow> nat \<Rightarrow> dispute_state" where
  "add_dispute_to_attestation_index s business period dispute_id =
     s\<lparr>ds_by_attestation := (ds_by_attestation s)
         ((business, period) \<mapsto> get_dispute_ids_by_attestation s business period @ [dispute_id])\<rparr>"

definition get_dispute_ids_by_challenger :: "dispute_state \<Rightarrow> address \<Rightarrow> nat list" where
  "get_dispute_ids_by_challenger s challenger = unwrap_or (ds_by_challenger s challenger) []"

definition add_dispute_to_challenger_index :: "dispute_state \<Rightarrow> address \<Rightarrow> nat \<Rightarrow> dispute_state" where
  "add_dispute_to_challenger_index s challenger dispute_id =
     s\<lparr>ds_by_challenger := (ds_by_challenger s)
         (challenger \<mapsto> get_dispute_ids_by_challenger s challenger @ [dispute_id])\<rparr>"

section \<open>Revocations\<close>

definition get_revocation_sequence :: "dispute_state \<Rightarrow> nat" where
  "get_revocation_sequence s = unwrap_or (ds_sequence s) 0"

definition increment_revocation_sequence :: "dispute_state \<Rightarrow> (nat \<times> dispute_state) res" where
  "increment_revocation_sequence s =
     (let current = get_revocation_sequence s in
      if current + 1 \<le> u64_max then Inr (current + 1, s\<lparr>ds_sequence := Some (current + 1)\<rparr>)
      else Inl (Panic ''revocation sequence overflow''))"

definition get_revoked_periods :: "dispute_state \<Rightarrow> address \<Rightarrow> sstring list" where
  "get_revoked_periods s business = unwrap_or (ds_revoked_periods s business) []"

definition set_revoked_periods :: "dispute_state \<Rightarrow> address \<Rightarrow> sstring list \<Rightarrow> dispute_state" where
  "set_revoked_periods s business periods =
     (if periods = [] then s\<lparr>ds_revoked_periods := (ds_revoked_periods s)(business := None)\<rparr>
      else s\<lparr>ds_revoked_periods := (ds_revoked_periods s)(business \<mapsto> periods)\<rparr>)"

definition append_to_revocation_index :: "dispute_state \<Rightarrow> address \<Rightarrow> sstring \<Rightarrow> dispute_state" where
  "append_to_revocation_index s business period =
     set_revoked_periods s business (get_revoked_periods s business @ [period])"

definition store_attestation_revocation ::
  "dispute_state \<Rightarrow> address \<Rightarrow> sstring \<Rightarrow> revocation_data \<Rightarrow> dispute_state" where
  "store_attestation_revocation s business period r =
     s\<lparr>ds_revoked := (ds_revoked s)((business, period) \<mapsto> r)\<rparr>"

definition get_attestation_revocation ::
  "dispute_state \<Rightarrow> address \<Rightarrow> sstring \<Rightarrow> revocation_data option" where
  "get_attestation_revocation s business period = ds_revoked s (business, period)"

definition is_attestation_revoked :: "dispute_state \<Rightarrow> address \<Rightarrow> sstring \<Rightarrow> bool" where
  "is_attestation_revoked s business period \<longleftrightarrow> ds_revoked s (business, period) \<noteq> None"

definition record_revocation ::
  "dispute_state \<Rightarrow> address \<Rightarrow> sstring \<Rightarrow> revocation_data \<Rightarrow> (nat \<times> dispute_state) res" where
  "record_revocation s business period r =
     (let s1 = store_attestation_revocation s business period r;
          s2 = append_to_revocation_index s1 business period in
      increment_revocation_sequence s2)"

text \<open>\<open>get_admin\<close> of the fee module is the argument \<open>admin\<close>.\<close>

definition require_revocation_authorized ::
  "ledger_env \<Rightarrow> address res \<Rightarrow> access_state \<Rightarrow> att_store \<Rightarrow> dispute_state \<Rightarrow> address \<Rightarrow> address \<Rightarrow>
   sstring \<Rightarrow> access_state res" where
  "require_revocation_authorized env admin ac atts s caller business period =
     bindr (require_not_paused env ac) (\<lambda>ac1.
     bindr (require_auth env caller) (\<lambda>_.
     bindr (assertr (atts (business, period) \<noteq> None) ''attestation not found'') (\<lambda>_.
     bindr (assertr (\<not> is_attestation_revoked s business period) ''attestation already revoked'') (\<lambda>_.
     bindr admin (\<lambda>adm.
     (let caller_is_admin = (caller = adm \<or> has_role ac1 caller ROLE_ADMIN) in
      bindr (assertr (caller_is_admin \<or> caller = business) ''caller must be ADMIN or the business owner'') (\<lambda>_.
      Inr ac1)))))))"

definition require_not_revoked_for_update :: "dispute_state \<Rightarrow> address \<Rightarrow> sstring \<Rightarrow> unit res" where
  "require_not_revoked_for_update s business period =
     assertr (\<not> is_attestation_revoked s business period) ''attestation revoked''"

section \<open>The deadline\<close>

definition get_dispute_deadline :: "dispute_state \<Rightarrow> nat" where
  "get_dispute_deadline s = unwrap_or (ds_deadline s) DISPUTE_DEADLINE_SECONDS"

definition set_dispute_deadline :: "dispute_state \<Rightarrow> nat \<Rightarrow> dispute_state res" where
  "set_dispute_deadline s deadline_seconds =
     bindr (assertr (MIN_DISPUTE_DEADLINE_SECONDS \<le> deadline_seconds) ''deadline must be at least 1 hour'') (\<lambda>_.
     bindr (assertr (deadline_seconds \<le> MAX_DISPUTE_DEADLINE_SECONDS) ''deadline must not exceed 90 days'') (\<lambda>_.
     Inr (s\<lparr>ds_deadline := Some deadline_seconds\<rparr>)))"

section \<open>Eligibility\<close>

definition has_existing_dispute :: "dispute_state \<Rightarrow> address \<Rightarrow> address \<Rightarrow> sstring \<Rightarrow> bool" where
  "has_existing_dispute s challenger business period \<longleftrightarrow>
     list_ex (\<lambda>i. case get_dispute s i of Some d \<Rightarrow> di_challenger d = challenger | None \<Rightarrow> False)
       (get_dispute_ids_by_attestation s business period)"

definition has_open_dispute :: "dispute_state \<Rightarrow> address \<Rightarrow> sstring \<Rightarrow> bool" where
  "has_open_dispute s business period \<longleftrightarrow>
     list_ex (\<lambda>i. case get_dispute s i of
         Some d \<Rightarrow> di_status d = DOpen \<or> di_status d = DResolved | None \<Rightarrow> False)
       (get_dispute_ids_by_attestation s business period)"

definition validate_dispute_eligibility ::
  "att_store \<Rightarrow> dispute_state \<Rightarrow> address \<Rightarrow> address \<Rightarrow> sstring \<Rightarrow> sstring + unit" where
  "validate_dispute_eligibility atts s challenger business period =
     (if atts (business, period) = None then Inl ''no attestation exists for this business and period''
      else if is_attestation_revoked s business period
      then Inl ''cannot open dispute on a revoked attestation''
      else if has_open_dispute s business period
      then Inl ''DisputeAlreadyOpen: an open dispute already exists for this attestation''
      else if has_existing_dispute s challenger business period
      then Inl ''challenger already has a dispute for this attestation''
      else Inr ())"

definition validate_dispute_resolution :: "dispute_state \<Rightarrow> nat \<Rightarrow> sstring + dispute" where
  "validate_dispute_resolution s dispute_id =
     (case get_dispute s dispute_id of
        None \<Rightarrow> Inl ''dispute not found''
      | Some d \<Rightarrow> (if di_status d \<noteq> DOpen then Inl ''dispute is not open'' else Inr d))"

definition validate_dispute_closure :: "dispute_state \<Rightarrow> nat \<Rightarrow> sstring + dispute" where
  "validate_dispute_closure s dispute_id =
     (case get_dispute s dispute_id of
        None \<Rightarrow> Inl ''dispute not found''
      | Some d \<Rightarrow> (if di_status d \<noteq> DResolved then Inl ''dispute is not resolved'' else Inr d))"

section \<open>Locks\<close>

definition store_attestor_for_attestation ::
  "dispute_state \<Rightarrow> address \<Rightarrow> sstring \<Rightarrow> address \<Rightarrow> dispute_state" where
  "store_attestor_for_attestation s business period attestor =
     s\<lparr>ds_attestor_by := (ds_attestor_by s)((business, period) \<mapsto> attestor)\<rparr>"

definition get_attestor_for_attestation :: "dispute_state \<Rightarrow> address \<Rightarrow> sstring \<Rightarrow> address option" where
  "get_attestor_for_attestation s business period = ds_attestor_by s (business, period)"

definition lock_count :: "dispute_state \<Rightarrow> address \<Rightarrow> nat" where
  "lock_count s attestor = unwrap_or (ds_lock_count s attestor) 0"

definition is_attestor_locked :: "dispute_state \<Rightarrow> address \<Rightarrow> bool" where
  "is_attestor_locked s attestor \<longleftrightarrow> 0 < lock_count s attestor"

definition lock_attestor :: "dispute_state \<Rightarrow> address \<Rightarrow> dispute_state res" where
  "lock_attestor s attestor =
     bindr (u64_chk (lock_count s attestor + 1)) (\<lambda>new_count.
     Inr (s\<lparr>ds_lock_count := (ds_lock_count s)(attestor \<mapsto> new_count)\<rparr>))"

definition unlock_attestor :: "dispute_state \<Rightarrow> address \<Rightarrow> bool \<times> dispute_state" where
  "unlock_attestor s attestor =
     (let current = lock_count s attestor in
      if current = 0 then (True, s)
      else
        (let new_count = current - 1 in
         if new_count = 0 then (True, s\<lparr>ds_lock_count := (ds_lock_count s)(attestor := None)\<rparr>)
         else (False, s\<lparr>ds_lock_count := (ds_lock_count s)(attestor \<mapsto> new_count)\<rparr>)))"

section \<open>Witnesses and rollback\<close>

definition submit_dispute_witness ::
  "(byte list \<Rightarrow> bytesn) \<Rightarrow> ledger_env \<Rightarrow> att_store \<Rightarrow> dispute_state \<Rightarrow> nat \<Rightarrow> bytesn \<Rightarrow> bytesn list \<Rightarrow>
   sstring + dispute_state" where
  "submit_dispute_witness sha env atts s dispute_id leaf proof =
     (case get_dispute s dispute_id of
        None \<Rightarrow> Inl ''dispute not found''
      | Some d \<Rightarrow>
          (if di_status d \<noteq> DOpen then Inl ''dispute is not open''
           else
             (case atts (di_business d, di_period d) of
                None \<Rightarrow> Inl ''attestation not found''
              | Some data \<Rightarrow>
                  (if \<not> verify_merkle_proof sha (ad_root data) leaf proof
                   then Inl ''invalid witness merkle proof''
                   else
                     (let r = \<lparr>re_resolver = di_challenger d, re_outcome = Upheld,
                               re_timestamp = timestamp env,
                               re_notes = ''Witness evidence verified via Merkle proof''\<rparr>;
                          d1 = d\<lparr>di_status := DResolved, di_resolution := Some r\<rparr> in
                      Inr (store_dispute_resolution (store_dispute s d1) dispute_id r))))))"

text \<open>The loop of \<open>check_and_rollback_disputes\<close> over the ids, with the count so far.\<close>

fun rollback_loop ::
  "ledger_env \<Rightarrow> nat \<Rightarrow> nat \<Rightarrow> nat list \<Rightarrow> nat \<Rightarrow> dispute_state \<Rightarrow> nat \<times> dispute_state" where
  "rollback_loop env deadline limit [] count s = (count, s)"
| "rollback_loop env deadline limit (i # ids) count s =
     (if limit \<le> count then (count, s)
      else
        (case get_dispute s i of
           None \<Rightarrow> rollback_loop env deadline limit ids count s
         | Some d \<Rightarrow>
             (if di_status d \<noteq> DOpen then rollback_loop env deadline limit ids count s
              else
                (let elapsed = (if di_timestamp d \<le> timestamp env then timestamp env - di_timestamp d else 0) in
                 if elapsed \<le> deadline then rollback_loop env deadline limit ids count s
                 else
                   (let r = \<lparr>re_resolver = di_challenger d, re_outcome = Rejected,
                             re_timestamp = timestamp env,
                             re_notes = ''Automatic rollback: dispute resolution deadline exceeded''\<rparr>;
                        d1 = d\<lparr>di_status := DClosed, di_resolution := Some r\<rparr>;
                        s1 = store_dispute_resolution (store_dispute s d1) i r;
                        s2 = (case get_attestor_for_attestation s1 (di_business d) (di_period d) of
                                Some a \<Rightarrow> snd (unlock_attestor s1 a) | None \<Rightarrow> s1) in
                    rollback_loop env deadline limit ids (count + 1) s2)))))"

definition check_and_rollback_disputes ::
  "ledger_env \<Rightarrow> dispute_state \<Rightarrow> nat list \<Rightarrow> nat \<Rightarrow> nat \<times> dispute_state" where
  "check_and_rollback_disputes env s dispute_ids limit =
     rollback_loop env (get_dispute_deadline s) limit dispute_ids 0 s"

section \<open>Anomaly escalation\<close>

definition get_anomaly_escalation :: "dispute_state \<Rightarrow> address \<Rightarrow> nat option" where
  "get_anomaly_escalation s business = ds_escalation s business"

definition clear_anomaly_escalation :: "dispute_state \<Rightarrow> address \<Rightarrow> dispute_state" where
  "clear_anomaly_escalation s business = s\<lparr>ds_escalation := (ds_escalation s)(business := None)\<rparr>"

definition update_anomaly_escalation :: "dispute_state \<Rightarrow> address \<Rightarrow> nat \<Rightarrow> dispute_state" where
  "update_anomaly_escalation s business score =
     (if score \<le> 49 then s
      else
        (let level = (if score \<le> 74 then 1 else if score \<le> 89 then 2 else 3);
             current = unwrap_or (ds_escalation s business) 0 in
         if current < level then s\<lparr>ds_escalation := (ds_escalation s)(business \<mapsto> level)\<rparr> else s))"

section \<open>Entry points\<close>

text \<open>
  The dispute entry points of \<open>lib.rs\<close>, on the parts of the contract's state they use: \<open>recorded\<close> is
  the map behind \<open>DataKey::Attestor\<close>, \<open>slash_fn\<close> is \<open>try_trigger_slash\<close> on the rest of the world.
\<close>

definition expect_ok :: "sstring + 'a \<Rightarrow> string \<Rightarrow> 'a res" where
  "expect_ok r msg = (case r of Inl _ \<Rightarrow> Inl (Panic msg) | Inr x \<Rightarrow> Inr x)"

definition open_dispute ::
  "ledger_env \<Rightarrow> att_store \<Rightarrow> (att_key \<rightharpoonup> address) \<Rightarrow> dispute_state \<Rightarrow> address \<Rightarrow> address \<Rightarrow> sstring \<Rightarrow>
   dispute_type \<Rightarrow> sstring \<Rightarrow> (nat \<times> dispute_state) res" where
  "open_dispute env atts recorded s challenger business period dtype evidence =
     bindr (require_auth env challenger) (\<lambda>_.
     bindr (expect_ok (validate_dispute_eligibility atts s challenger business period) ''not eligible'') (\<lambda>_.
     (let attestor = unwrap_or (recorded (business, period)) business in
      bindr (generate_dispute_id s) (\<lambda>(i, s1).
      (let d = \<lparr>di_id = i, di_challenger = challenger, di_business = business, di_attestor = attestor,
                di_period = period, di_status = DOpen, di_type = dtype, di_evidence = evidence,
                di_timestamp = timestamp env, di_resolution = None\<rparr>;
           s2 = store_dispute s1 d;
           s3 = add_dispute_to_attestation_index s2 business period i;
           s4 = add_dispute_to_challenger_index s3 challenger i in
       bindr (case get_attestor_for_attestation s4 business period of
                Some a \<Rightarrow> lock_attestor s4 a | None \<Rightarrow> Inr s4) (\<lambda>s5.
       Inr (i, s5)))))))"

definition resolve_dispute ::
  "ledger_env \<Rightarrow> access_state \<Rightarrow> (address \<Rightarrow> int \<Rightarrow> nat \<Rightarrow> 'w \<Rightarrow> 'w res) \<Rightarrow> nat \<Rightarrow> address \<Rightarrow>
   dispute_outcome \<Rightarrow> sstring \<Rightarrow> dispute_state \<times> 'w \<Rightarrow> (dispute_state \<times> 'w) res" where
  "resolve_dispute env ac slash_fn dispute_id resolver outcome notes sw =
     (let (s, w) = sw in
      bindr (require_admin env ac resolver) (\<lambda>_.
      bindr (expect_ok (validate_dispute_resolution s dispute_id) ''invalid'') (\<lambda>_.
      (let r = \<lparr>re_resolver = resolver, re_outcome = outcome, re_timestamp = timestamp env, re_notes = notes\<rparr>;
           s1 = store_dispute_resolution s dispute_id r in
       case get_dispute s1 dispute_id of
         None \<Rightarrow> Inr (s1, w)
       | Some d \<Rightarrow>
           (let d1 = d\<lparr>di_status := DResolved, di_resolution := Some r\<rparr>; s2 = store_dispute s1 d1 in
            bindr (if outcome = Upheld then slash_fn (di_attestor d1) 1000 dispute_id w else Inr w) (\<lambda>w1.
            Inr (case get_attestor_for_attestation s2 (di_business d1) (di_period d1) of
                   Some a \<Rightarrow> (snd (unlock_attestor s2 a), w1) | None \<Rightarrow> (s2, w1))))))))"

definition close_dispute :: "dispute_state \<Rightarrow> nat \<Rightarrow> dispute_state res" where
  "close_dispute s dispute_id =
     bindr (expect_ok (validate_dispute_closure s dispute_id) ''invalid'') (\<lambda>d.
     Inr (store_dispute s (d\<lparr>di_status := DClosed\<rparr>)))"

definition witness_entry ::
  "(byte list \<Rightarrow> bytesn) \<Rightarrow> ledger_env \<Rightarrow> att_store \<Rightarrow> dispute_state \<Rightarrow> nat \<Rightarrow> bytesn \<Rightarrow> bytesn list \<Rightarrow>
   dispute_state res" where
  "witness_entry sha env atts s dispute_id leaf proof =
     expect_ok (submit_dispute_witness sha env atts s dispute_id leaf proof) ''witness verification failed''"

definition rollback_entry ::
  "ledger_env \<Rightarrow> access_state \<Rightarrow> dispute_state \<Rightarrow> address \<Rightarrow> nat list \<Rightarrow> nat \<Rightarrow> (nat \<times> dispute_state) res" where
  "rollback_entry env ac s caller dispute_ids limit =
     bindr (require_admin env ac caller) (\<lambda>_. Inr (check_and_rollback_disputes env s dispute_ids limit))"

definition deadline_entry :: "ledger_env \<Rightarrow> access_state \<Rightarrow> dispute_state \<Rightarrow> address \<Rightarrow> nat \<Rightarrow> dispute_state res" where
  "deadline_entry env ac s caller deadline_seconds =
     bindr (require_admin env ac caller) (\<lambda>_. set_dispute_deadline s deadline_seconds)"

section \<open>The invariant of the dispute tables\<close>

definition case_key :: "dispute \<Rightarrow> att_key" where
  "case_key d = (di_business d, di_period d)"

definition ids_of :: "(dispute \<Rightarrow> bool) \<Rightarrow> dispute_state \<Rightarrow> nat list" where
  "ids_of P s = filter (\<lambda>i. case ds_disputes s i of Some d \<Rightarrow> P d | None \<Rightarrow> False)
     [1..<Suc (unwrap_or (ds_counter s) 0)]"

definition tables_ok :: "dispute_state \<Rightarrow> bool" where
  "tables_ok s \<longleftrightarrow>
     (\<forall>i d. ds_disputes s i = Some d \<longrightarrow> di_id d = i \<and> 0 < i \<and> i \<le> unwrap_or (ds_counter s) 0) \<and>
     (\<forall>b p. get_dispute_ids_by_attestation s b p = ids_of (\<lambda>d. case_key d = (b, p)) s) \<and>
     (\<forall>c. get_dispute_ids_by_challenger s c = ids_of (\<lambda>d. di_challenger d = c) s)"

definition one_pending :: "dispute_state \<Rightarrow> bool" where
  "one_pending s \<longleftrightarrow>
     (\<forall>i j d e. ds_disputes s i = Some d \<longrightarrow> ds_disputes s j = Some e \<longrightarrow> case_key d = case_key e \<longrightarrow>
        di_status d \<noteq> DClosed \<longrightarrow> di_status e \<noteq> DClosed \<longrightarrow> i = j)"

definition one_per_challenger :: "dispute_state \<Rightarrow> bool" where
  "one_per_challenger s \<longleftrightarrow>
     (\<forall>i j d e. ds_disputes s i = Some d \<longrightarrow> ds_disputes s j = Some e \<longrightarrow> case_key d = case_key e \<longrightarrow>
        di_challenger d = di_challenger e \<longrightarrow> i = j)"

definition resolutions_ok :: "dispute_state \<Rightarrow> bool" where
  "resolutions_ok s \<longleftrightarrow>
     (\<forall>i d. ds_disputes s i = Some d \<longrightarrow> (di_status d = DOpen \<longleftrightarrow> di_resolution d = None)) \<and>
     (\<forall>i. ds_resolutions s i = Option.bind (ds_disputes s i) di_resolution)"

definition dispute_inv :: "dispute_state \<Rightarrow> bool" where
  "dispute_inv s \<longleftrightarrow> tables_ok s \<and> one_pending s \<and> one_per_challenger s \<and> resolutions_ok s"

lemmas dispute_inv_defs = dispute_inv_def tables_ok_def one_pending_def one_per_challenger_def
  resolutions_ok_def ids_of_def get_dispute_ids_by_attestation_def get_dispute_ids_by_challenger_def

text \<open>The invariant speaks of five components only.\<close>

lemma dispute_inv_frame:
  "ds_disputes s' = ds_disputes s \<Longrightarrow> ds_counter s' = ds_counter s \<Longrightarrow> ds_by_attestation s' = ds_by_attestation s \<Longrightarrow>
   ds_by_challenger s' = ds_by_challenger s \<Longrightarrow> ds_resolutions s' = ds_resolutions s \<Longrightarrow>
   dispute_inv s' = dispute_inv s"
  by (simp add: dispute_inv_defs)

lemma unlock_frame [simp]:
  "ds_disputes (snd (unlock_attestor s a)) = ds_disputes s" "ds_counter (snd (unlock_attestor s a)) = ds_counter s"
  "ds_by_attestation (snd (unlock_attestor s a)) = ds_by_attestation s"
  "ds_by_challenger (snd (unlock_attestor s a)) = ds_by_challenger s"
  "ds_resolutions (snd (unlock_attestor s a)) = ds_resolutions s"
  "ds_attestor_by (snd (unlock_attestor s a)) = ds_attestor_by s"
  "ds_revoked (snd (unlock_attestor s a)) = ds_revoked s"
  "ds_deadline (snd (unlock_attestor s a)) = ds_deadline s"
  by (simp_all add: unlock_attestor_def Let_def)

lemma unlock_inv [simp]: "dispute_inv (snd (unlock_attestor s a)) = dispute_inv s"
  by (rule dispute_inv_frame) simp_all

text \<open>Moving a dispute forward, with its resolution recorded in both places.\<close>

definition conclude :: "dispute_state \<Rightarrow> nat \<Rightarrow> dispute \<Rightarrow> dispute_status \<Rightarrow> dispute_resolution \<Rightarrow> dispute_state" where
  "conclude s i d st r =
     store_dispute_resolution (store_dispute s (d\<lparr>di_status := st, di_resolution := Some r\<rparr>)) i r"

lemma ids_of_replace:
  "ds_disputes s i = Some d \<Longrightarrow> P d' = P d \<Longrightarrow> ds_disputes s' = (ds_disputes s)(i \<mapsto> d') \<Longrightarrow>
   ds_counter s' = ds_counter s \<Longrightarrow> ids_of P s' = ids_of P s"
  unfolding ids_of_def by (rule filter_cong) auto

lemma tables_replace:
  assumes "tables_ok s" and "ds_disputes s i = Some d"
    and "di_id d' = i" "case_key d' = case_key d" "di_challenger d' = di_challenger d"
    and "ds_disputes s' = (ds_disputes s)(i \<mapsto> d')" "ds_counter s' = ds_counter s"
    and "ds_by_attestation s' = ds_by_attestation s" "ds_by_challenger s' = ds_by_challenger s"
  shows "tables_ok s'"
proof -
  have "ids_of P s' = ids_of P s" if "P d' = P d" for P
    using assms(2) that assms(6,7) by (rule ids_of_replace)
  then have "ids_of (\<lambda>e. case_key e = k) s' = ids_of (\<lambda>e. case_key e = k) s"
    "ids_of (\<lambda>e. di_challenger e = c) s' = ids_of (\<lambda>e. di_challenger e = c) s" for k c
    using assms(4,5) by simp_all
  then show ?thesis
    using assms by (simp add: tables_ok_def get_dispute_ids_by_attestation_def get_dispute_ids_by_challenger_def)
qed

lemma dispute_id: "dispute_inv s \<Longrightarrow> ds_disputes s i = Some d \<Longrightarrow> di_id d = i"
  by (simp add: dispute_inv_def tables_ok_def)

lemma replace_inv:
  assumes inv: "dispute_inv s" and d: "ds_disputes s i = Some d"
    and same: "di_id d' = i" "case_key d' = case_key d" "di_challenger d' = di_challenger d"
    and fwd: "di_status d' \<noteq> DClosed \<Longrightarrow> di_status d \<noteq> DClosed"
    and res: "di_status d' \<noteq> DOpen" "di_resolution d' \<noteq> None"
    and s': "ds_disputes s' = (ds_disputes s)(i \<mapsto> d')" "ds_counter s' = ds_counter s"
      "ds_by_attestation s' = ds_by_attestation s" "ds_by_challenger s' = ds_by_challenger s"
      "ds_resolutions s' = (ds_resolutions s)(i := di_resolution d')"
  shows "dispute_inv s'"
proof -
  have t: "tables_ok s'" using inv d same s'(1-4) by (auto simp: dispute_inv_def intro: tables_replace)
  have one: "ds_disputes s j = Some e \<Longrightarrow> case_key e = case_key d' \<Longrightarrow>
      di_status e \<noteq> DClosed \<Longrightarrow> di_status d' \<noteq> DClosed \<Longrightarrow> j = i" for j e
    using inv d same(2) fwd unfolding dispute_inv_def one_pending_def by metis
  then have "one_pending s'"
    using inv s'(1) unfolding dispute_inv_def one_pending_def
    by (metis (no_types, lifting) fun_upd_apply option.inject)
  moreover have "ds_disputes s j = Some e \<Longrightarrow> case_key e = case_key d' \<Longrightarrow>
      di_challenger e = di_challenger d' \<Longrightarrow> j = i" for j e
    using inv d same(2,3) unfolding dispute_inv_def one_per_challenger_def by metis
  then have "one_per_challenger s'"
    using inv s'(1) unfolding dispute_inv_def one_per_challenger_def
    by (metis (no_types, lifting) fun_upd_apply option.inject)
  moreover have "resolutions_ok s'"
    using inv s'(1,5) res by (auto simp: dispute_inv_def resolutions_ok_def)
  ultimately show ?thesis using t by (simp add: dispute_inv_def)
qed

lemma conclude_inv:
  assumes "dispute_inv s" and "ds_disputes s i = Some d" and "di_status d = DOpen" and "st \<noteq> DOpen"
  shows "dispute_inv (conclude s i d st r)"
  using assms dispute_id [OF assms(1,2)]
  by (intro replace_inv [OF assms(1,2), where d' = "d\<lparr>di_status := st, di_resolution := Some r\<rparr>"])
    (simp_all add: conclude_def store_dispute_def store_dispute_resolution_def case_key_def)

lemma ids_of_member:
  assumes "tables_ok s" and "ds_disputes s i = Some d"
  shows "i \<in> set (ids_of P s) \<longleftrightarrow> P d"
  using assms by (auto simp: ids_of_def tables_ok_def Suc_le_eq less_Suc_eq_le simp del: upt_Suc)

lemma ids_of_exact:
  assumes "tables_ok s"
  shows "set (ids_of P s) = {i. \<exists>d. ds_disputes s i = Some d \<and> P d} \<and> sorted_wrt (<) (ids_of P s)"
proof -
  have "i \<in> set (ids_of P s) \<longleftrightarrow> (\<exists>d. ds_disputes s i = Some d \<and> P d)" for i
  proof (cases "ds_disputes s i")
    case None
    then show ?thesis by (simp add: ids_of_def)
  next
    case (Some d)
    then show ?thesis using ids_of_member [OF assms Some] by simp
  qed
  then show ?thesis by (auto simp: ids_of_def sorted_wrt_filter strict_sorted_iff simp del: upt_Suc)
qed

lemma no_open_dispute:
  assumes "tables_ok s" and "\<not> has_open_dispute s b p" and "ds_disputes s i = Some d" and "case_key d = (b, p)"
  shows "di_status d = DClosed"
proof -
  have "i \<in> set (get_dispute_ids_by_attestation s b p)"
    using ids_of_member [OF assms(1,3)] assms(1,4) by (simp add: tables_ok_def)
  with assms(2,3) show ?thesis
    by (cases "di_status d") (auto simp: has_open_dispute_def list_ex_iff get_dispute_def)
qed

lemma no_existing_dispute:
  assumes "tables_ok s" and "\<not> has_existing_dispute s c b p" and "ds_disputes s i = Some d" and "case_key d = (b, p)"
  shows "di_challenger d \<noteq> c"
proof -
  have "i \<in> set (get_dispute_ids_by_attestation s b p)"
    using ids_of_member [OF assms(1,3)] assms(1,4) by (simp add: tables_ok_def)
  with assms(2,3) show ?thesis
    by (auto simp: has_existing_dispute_def list_ex_iff get_dispute_def)
qed

text \<open>What \<open>open_dispute\<close> leaves, before the lock.\<close>

lemma open_cases:
  assumes "open_dispute env atts recorded s c b p ty ev = Inr (i, s')"
  obtains d s4 where "authorized env c" "atts (b, p) \<noteq> None" "ds_revoked s (b, p) = None"
    "\<not> has_open_dispute s b p" "\<not> has_existing_dispute s c b p"
    "i = unwrap_or (ds_counter s) 0 + 1" "di_id d = i" "case_key d = (b, p)" "di_challenger d = c"
    "di_status d = DOpen" "di_resolution d = None" "di_timestamp d = timestamp env"
    "ds_disputes s4 = (ds_disputes s)(i \<mapsto> d)" "ds_counter s4 = Some i"
    "ds_by_attestation s4 = (ds_by_attestation s)((b, p) \<mapsto> get_dispute_ids_by_attestation s b p @ [i])"
    "ds_by_challenger s4 = (ds_by_challenger s)(c \<mapsto> get_dispute_ids_by_challenger s c @ [i])"
    "ds_resolutions s4 = ds_resolutions s" "ds_lock_count s4 = ds_lock_count s"
    "ds_attestor_by s4 = ds_attestor_by s" "ds_revoked s4 = ds_revoked s"
    "case ds_attestor_by s (b, p) of None \<Rightarrow> s' = s4 | Some a \<Rightarrow>
       s' = s4\<lparr>ds_lock_count := (ds_lock_count s)(a \<mapsto> lock_count s a + 1)\<rparr>"
proof -
  have a: "authorized env c" "validate_dispute_eligibility atts s c b p = Inr ()"
    using assms by (auto simp: open_dispute_def expect_ok_def split: sum.splits)
  let ?i = "unwrap_or (ds_counter s) 0 + 1"
  let ?d = "\<lparr>di_id = ?i, di_challenger = c, di_business = b,
      di_attestor = unwrap_or (recorded (b, p)) b, di_period = p, di_status = DOpen, di_type = ty,
      di_evidence = ev, di_timestamp = timestamp env, di_resolution = None\<rparr>"
  let ?s4 = "s\<lparr>ds_counter := Some ?i, ds_disputes := (ds_disputes s)(?i \<mapsto> ?d),
      ds_by_attestation := (ds_by_attestation s)((b, p) \<mapsto> get_dispute_ids_by_attestation s b p @ [?i]),
      ds_by_challenger := (ds_by_challenger s)(c \<mapsto> get_dispute_ids_by_challenger s c @ [?i])\<rparr>"
  have s': "i = ?i" "(case ds_attestor_by s (b, p) of Some a \<Rightarrow> lock_attestor ?s4 a | None \<Rightarrow> Inr ?s4) = Inr s'"
    using assms a
    by (auto simp: open_dispute_def expect_ok_def generate_dispute_id_def store_dispute_def
        add_dispute_to_attestation_index_def add_dispute_to_challenger_index_def
        get_dispute_ids_by_attestation_def get_dispute_ids_by_challenger_def
        get_attestor_for_attestation_def Let_def cong: option.case_cong)
  show thesis
    by (rule that [of ?d ?s4])
      (use a s' in \<open>auto simp: validate_dispute_eligibility_def is_attestation_revoked_def case_key_def
        lock_attestor_def lock_count_def split: if_splits option.splits\<close>)
qed

lemma open_inv:
  assumes inv: "dispute_inv s" and opn: "open_dispute env atts recorded s c b p ty ev = Inr (i, s')"
  shows "dispute_inv s'"
  using opn
proof (cases rule: open_cases)
  case (1 d s4)
  let ?n = "unwrap_or (ds_counter s) 0"
  have t: "tables_ok s" using inv by (simp add: dispute_inv_def)
  have fresh: "ds_disputes s i = None"
    using t 1(6) by (cases "ds_disputes s i") (fastforce simp: tables_ok_def)+
  have ids: "ids_of P s4 = ids_of P s @ (if P d then [i] else [])" for P
  proof -
    have "filter (\<lambda>j. case ds_disputes s4 j of Some e \<Rightarrow> P e | None \<Rightarrow> False) [1..<Suc ?n] = ids_of P s"
      unfolding ids_of_def by (rule filter_cong) (auto simp: 1(6,13))
    moreover have "[1..<Suc i] = [1..<Suc ?n] @ [i]" by (simp add: 1(6))
    ultimately show ?thesis by (simp add: ids_of_def [of _ s4] 1(13,14) del: upt_Suc)
  qed
  have "tables_ok s4"
    using t ids 1(6,7,8,9,13-16)
    by (auto simp: tables_ok_def get_dispute_ids_by_attestation_def get_dispute_ids_by_challenger_def
        intro: le_SucI)
  moreover have "one_pending s4"
    using inv no_open_dispute [OF t 1(4)] 1(8,13) fresh
    by (auto simp: dispute_inv_def one_pending_def split: if_splits)
  moreover have "one_per_challenger s4"
    using inv no_existing_dispute [OF t 1(5)] 1(8,9,13) fresh
    unfolding dispute_inv_def one_per_challenger_def
    by (metis (no_types, lifting) fun_upd_apply option.inject)
  moreover have "resolutions_ok s4"
    using inv 1(10,11,13,17) fresh by (auto simp: dispute_inv_def resolutions_ok_def)
  ultimately have "dispute_inv s4" by (simp add: dispute_inv_def)
  with 1(21) show ?thesis
    by (cases "ds_attestor_by s (b, p)") (auto intro: dispute_inv_frame [THEN iffD2, rotated -1])
qed

section \<open>What the other calls do\<close>

text \<open>Concluding an open dispute and releasing the lock on the attestor on record, if there is one.\<close>

definition release :: "dispute_state \<Rightarrow> att_key \<Rightarrow> dispute_state" where
  "release s k = (case ds_attestor_by s k of Some a \<Rightarrow> snd (unlock_attestor s a) | None \<Rightarrow> s)"

lemma release_inv [simp]: "dispute_inv (release s k) = dispute_inv s"
  by (simp add: release_def split: option.split)

lemma conclude_frame [simp]:
  "ds_attestor_by (conclude s i d st r) = ds_attestor_by s" "ds_lock_count (conclude s i d st r) = ds_lock_count s"
  "ds_revoked (conclude s i d st r) = ds_revoked s" "ds_counter (conclude s i d st r) = ds_counter s"
  "di_id d = i \<Longrightarrow> ds_disputes (conclude s i d st r) =
     (ds_disputes s)(i \<mapsto> d\<lparr>di_status := st, di_resolution := Some r\<rparr>)"
  by (simp_all add: conclude_def store_dispute_def store_dispute_resolution_def)

lemma release_frame [simp]:
  "ds_disputes (release s k) = ds_disputes s" "ds_attestor_by (release s k) = ds_attestor_by s"
  "ds_revoked (release s k) = ds_revoked s"
  by (simp_all add: release_def split: option.split)

lemma resolve_cases:
  assumes "resolve_dispute env ac slash_fn i resolver outcome notes (s, w) = Inr (s', w')"
  obtains d r where "authorized env resolver" "has_role ac resolver ROLE_ADMIN"
    "ds_disputes s i = Some d" "di_status d = DOpen" "re_outcome r = outcome" "re_resolver r = resolver"
    "s' = release (conclude s i d DResolved r) (case_key d)"
    "if outcome = Upheld then slash_fn (di_attestor d) 1000 i w = Inr w' else w' = w"
proof -
  let ?r = "\<lparr>re_resolver = resolver, re_outcome = outcome, re_timestamp = timestamp env, re_notes = notes\<rparr>"
  obtain d where d: "authorized env resolver" "has_role ac resolver ROLE_ADMIN"
    "ds_disputes s i = Some d" "di_status d = DOpen"
    using assms by (auto simp: resolve_dispute_def require_admin_def expect_ok_def validate_dispute_resolution_def
        get_dispute_def split: option.splits sum.splits if_splits)
  have c: "store_dispute (store_dispute_resolution s i ?r) (d\<lparr>di_status := DResolved, di_resolution := Some ?r\<rparr>)
      = conclude s i d DResolved ?r"
    by (simp add: conclude_def store_dispute_def store_dispute_resolution_def)
  have g: "get_dispute (store_dispute_resolution s i ?r) i = Some d"
    using d(3) by (simp add: get_dispute_def store_dispute_resolution_def)
  obtain w1 where w1: "(if outcome = Upheld then slash_fn (di_attestor d) 1000 i w else Inr w) = Inr w1"
    and st: "(case ds_attestor_by s (case_key d) of
        Some a \<Rightarrow> (snd (unlock_attestor (conclude s i d DResolved ?r) a), w1)
      | None \<Rightarrow> (conclude s i d DResolved ?r, w1)) = (s', w')"
    using assms d(1,2,3,4)
    by (auto simp: resolve_dispute_def require_admin_def expect_ok_def validate_dispute_resolution_def
        get_dispute_def g [unfolded get_dispute_def] c get_attestor_for_attestation_def case_key_def Let_def
        cong: option.case_cong if_cong)
  then have "s' = release (conclude s i d DResolved ?r) (case_key d)" "w' = w1"
    by (auto simp: release_def split: option.splits)
  with w1 show thesis by (intro that [OF d, of ?r]) (auto split: if_splits)
qed

lemma witness_cases:
  assumes "witness_entry sha env atts s i leaf prf = Inr s'"
  obtains d data r where "ds_disputes s i = Some d" "di_status d = DOpen" "atts (case_key d) = Some data"
    "verify_merkle_proof sha (ad_root data) leaf prf" "re_outcome r = Upheld"
    "s' = conclude s i d DResolved r"
proof -
  obtain d data where d: "ds_disputes s i = Some d" "di_status d = DOpen" "atts (case_key d) = Some data"
    "verify_merkle_proof sha (ad_root data) leaf prf"
    "s' = conclude s i d DResolved \<lparr>re_resolver = di_challenger d, re_outcome = Upheld,
        re_timestamp = timestamp env, re_notes = ''Witness evidence verified via Merkle proof''\<rparr>"
    using assms
    by (auto simp: witness_entry_def expect_ok_def submit_dispute_witness_def get_dispute_def case_key_def
        conclude_def Let_def split: option.splits if_splits sum.splits)
  show thesis by (rule that [OF d(1-4) _ d(5)]) simp
qed

lemma close_cases:
  assumes "close_dispute s i = Inr s'"
  obtains d where "ds_disputes s i = Some d" "di_status d = DResolved" "s' = store_dispute s (d\<lparr>di_status := DClosed\<rparr>)"
  using assms that
  by (auto simp: close_dispute_def expect_ok_def validate_dispute_closure_def get_dispute_def
      split: option.splits if_splits sum.splits)

lemma resolved_has:
  assumes "dispute_inv s" and "ds_disputes s i = Some d"
  shows "(di_status d = DOpen) = (di_resolution d = None)" and "ds_resolutions s i = di_resolution d"
proof -
  have "resolutions_ok s" using assms(1) by (simp add: dispute_inv_def)
  then show "(di_status d = DOpen) = (di_resolution d = None)" "ds_resolutions s i = di_resolution d"
    using assms(2) unfolding resolutions_ok_def by (blast, simp)
qed

lemma close_inv: "dispute_inv s \<Longrightarrow> close_dispute s i = Inr s' \<Longrightarrow> dispute_inv s'"
proof -
  assume inv: "dispute_inv s" and c: "close_dispute s i = Inr s'"
  from c obtain d where d: "ds_disputes s i = Some d" "di_status d = DResolved"
    "s' = store_dispute s (d\<lparr>di_status := DClosed\<rparr>)" by (rule close_cases)
  have "di_resolution d \<noteq> None" "ds_resolutions s i = di_resolution d"
    using resolved_has [OF inv d(1)] d(2) by simp_all
  with d dispute_id [OF inv d(1)] show ?thesis
    by (intro replace_inv [OF inv d(1), where d' = "d\<lparr>di_status := DClosed\<rparr>"])
      (simp_all add: store_dispute_def case_key_def fun_upd_idem)
qed

text \<open>The rollback loop as a sequence of conclusions: a relation that every single one respects holds.\<close>

lemma rollback_induct:
  assumes refl: "\<And>s. R s s" and trans: "\<And>s t u. R s t \<Longrightarrow> R t u \<Longrightarrow> R s u"
    and one: "\<And>s i d r. ds_disputes s i = Some d \<Longrightarrow> di_status d = DOpen \<Longrightarrow>
      di_timestamp d + deadline < timestamp env \<Longrightarrow> re_outcome r = Rejected \<Longrightarrow>
      R s (release (conclude s i d DClosed r) (case_key d))"
  shows "R s (snd (rollback_loop env deadline limit ids count s))"
proof (induction ids arbitrary: count s)
  case Nil
  show ?case by (simp add: refl)
next
  case (Cons i ids)
  show ?case
  proof (cases "ds_disputes s i")
    case None
    with Cons show ?thesis by (auto simp: get_dispute_def refl)
  next
    case (Some d)
    let ?r = "\<lparr>re_resolver = di_challenger d, re_outcome = Rejected, re_timestamp = timestamp env,
        re_notes = ''Automatic rollback: dispute resolution deadline exceeded''\<rparr>"
    let ?s = "release (conclude s i d DClosed ?r) (case_key d)"
    let ?el = "if di_timestamp d \<le> timestamp env then timestamp env - di_timestamp d else 0"
    consider (stop) "limit \<le> count" | (skip) "\<not> limit \<le> count" "di_status d \<noteq> DOpen \<or> ?el \<le> deadline"
      | (hit) "\<not> limit \<le> count" "di_status d = DOpen" "\<not> ?el \<le> deadline" by blast
    then show ?thesis
    proof cases
      case stop
      then show ?thesis by (simp add: refl)
    next
      case skip
      then have "rollback_loop env deadline limit (i # ids) count s = rollback_loop env deadline limit ids count s"
        using Some by (auto simp: get_dispute_def Let_def)
      with Cons show ?thesis by simp
    next
      case hit
      have step: "rollback_loop env deadline limit (i # ids) count s = rollback_loop env deadline limit ids (count + 1) ?s"
        using hit Some
        by (simp add: get_dispute_def Let_def release_def conclude_def get_attestor_for_attestation_def case_key_def
            cong: option.case_cong)
      have late: "di_timestamp d + deadline < timestamp env" using hit(3) by (auto split: if_splits)
      have "R s ?s" using Some hit(2) late by (rule one) simp
      with Cons [of ?s "count + 1"] step show ?thesis by (auto intro: trans)
    qed
  qed
qed

section \<open>The module as a machine\<close>

datatype 'w dispute_call =
    DOpenC ledger_env att_store "att_key \<rightharpoonup> address" address address sstring dispute_type sstring
  | DResolveC ledger_env access_state "address \<Rightarrow> int \<Rightarrow> nat \<Rightarrow> 'w \<Rightarrow> 'w res" nat address dispute_outcome sstring
  | DCloseC nat
  | DWitnessC "byte list \<Rightarrow> bytesn" ledger_env att_store nat bytesn "bytesn list"
  | DRollbackC ledger_env access_state address "nat list" nat
  | DDeadlineC ledger_env access_state address nat
  | DRecordC address sstring address
  | DRevokeC address sstring revocation_data
  | DEscalateC address nat
  | DClearC address

fun dispute_step :: "'w dispute_call \<Rightarrow> dispute_state \<times> 'w \<Rightarrow> (dispute_state \<times> 'w) res" where
  "dispute_step (DOpenC env atts recorded c b p ty ev) (s, w) =
     bindr (open_dispute env atts recorded s c b p ty ev) (\<lambda>(_, s'). Inr (s', w))"
| "dispute_step (DResolveC env ac slash_fn i resolver outcome notes) (s, w) =
     resolve_dispute env ac slash_fn i resolver outcome notes (s, w)"
| "dispute_step (DCloseC i) (s, w) = bindr (close_dispute s i) (\<lambda>s'. Inr (s', w))"
| "dispute_step (DWitnessC sha env atts i leaf prf) (s, w) =
     bindr (witness_entry sha env atts s i leaf prf) (\<lambda>s'. Inr (s', w))"
| "dispute_step (DRollbackC env ac caller ids limit) (s, w) =
     bindr (rollback_entry env ac s caller ids limit) (\<lambda>(_, s'). Inr (s', w))"
| "dispute_step (DDeadlineC env ac caller n) (s, w) =
     bindr (deadline_entry env ac s caller n) (\<lambda>s'. Inr (s', w))"
| "dispute_step (DRecordC b p a) (s, w) = Inr (store_attestor_for_attestation s b p a, w)"
| "dispute_step (DRevokeC b p r) (s, w) = bindr (record_revocation s b p r) (\<lambda>(_, s'). Inr (s', w))"
| "dispute_step (DEscalateC b score) (s, w) = Inr (update_anomaly_escalation s b score, w)"
| "dispute_step (DClearC b) (s, w) = Inr (clear_anomaly_escalation s b, w)"

definition dispute_start :: "dispute_state \<times> 'w \<Rightarrow> bool" where
  "dispute_start sw \<longleftrightarrow>
     (let s = fst sw in ds_counter s = None \<and> ds_disputes s = Map.empty \<and> ds_resolutions s = Map.empty \<and>
        ds_by_attestation s = Map.empty \<and> ds_by_challenger s = Map.empty \<and> ds_lock_count s = Map.empty)"

lemma start_dispute_inv: "dispute_start sw \<Longrightarrow> dispute_inv (fst sw)"
  by (simp add: dispute_start_def dispute_inv_defs Let_def)

text \<open>The calls that leave the dispute tables and the locks alone.\<close>

lemma revocation_frame:
  "record_revocation s b p r = Inr (n, s') \<Longrightarrow>
   ds_disputes s' = ds_disputes s \<and> ds_counter s' = ds_counter s \<and> ds_by_attestation s' = ds_by_attestation s \<and>
   ds_by_challenger s' = ds_by_challenger s \<and> ds_resolutions s' = ds_resolutions s \<and>
   ds_lock_count s' = ds_lock_count s \<and> ds_attestor_by s' = ds_attestor_by s"
  by (auto simp: record_revocation_def increment_revocation_sequence_def append_to_revocation_index_def
      set_revoked_periods_def store_attestation_revocation_def Let_def split: if_splits)

lemma side_frame [simp]:
  "ds_disputes (update_anomaly_escalation s b n) = ds_disputes s" "ds_counter (update_anomaly_escalation s b n) = ds_counter s"
  "ds_by_attestation (update_anomaly_escalation s b n) = ds_by_attestation s"
  "ds_by_challenger (update_anomaly_escalation s b n) = ds_by_challenger s"
  "ds_resolutions (update_anomaly_escalation s b n) = ds_resolutions s"
  "ds_lock_count (update_anomaly_escalation s b n) = ds_lock_count s"
  "ds_attestor_by (update_anomaly_escalation s b n) = ds_attestor_by s"
  by (simp_all add: update_anomaly_escalation_def Let_def)

lemma rollback_inv:
  assumes "dispute_inv s" and "rollback_loop env deadline limit ids count s = (n, s')"
  shows "dispute_inv s'"
proof -
  have "dispute_inv s \<longrightarrow> dispute_inv (snd (rollback_loop env deadline limit ids count s))"
    by (rule rollback_induct [where R = "\<lambda>s t. dispute_inv s \<longrightarrow> dispute_inv t"]) (auto simp: conclude_inv)
  with assms show ?thesis by simp
qed

lemma dispute_step_inv:
  assumes "dispute_inv (fst sw)" and "dispute_step c sw = Inr sw'"
  shows "dispute_inv (fst sw')"
proof -
  obtain s w s' w' where sw: "sw = (s, w)" "sw' = (s', w')" by (metis surj_pair)
  with assms have i: "dispute_inv s" and st: "dispute_step c (s, w) = Inr (s', w')" by simp_all
  have "dispute_inv s'"
  proof (cases c)
    case (DResolveC env ac slash_fn j resolver outcome nts)
    with st have "resolve_dispute env ac slash_fn j resolver outcome nts (s, w) = Inr (s', w')" by simp
    then show ?thesis using i by (auto elim!: resolve_cases simp: conclude_inv)
  next
    case (DWitnessC sha env atts j leaf path)
    with st have "witness_entry sha env atts s j leaf path = Inr s'" by simp
    then show ?thesis using i by (auto elim!: witness_cases simp: conclude_inv)
  next
    case (DRollbackC env ac caller ids limit)
    with st i show ?thesis
      by (auto simp: rollback_entry_def check_and_rollback_disputes_def intro: rollback_inv split: prod.splits)
  next
    case (DRevokeC b p r)
    with st i show ?thesis by (auto dest!: revocation_frame intro: dispute_inv_frame [THEN iffD2])
  qed (use st i in \<open>auto simp: deadline_entry_def set_dispute_deadline_def clear_anomaly_escalation_def
      store_attestor_for_attestation_def intro: open_inv close_inv dispute_inv_frame [THEN iffD2, rotated -1]\<close>)
  with sw show ?thesis by simp
qed

interpretation disp: invariant_machine dispute_start dispute_step "\<lambda>sw. dispute_inv (fst sw)"
  by unfold_locales (erule start_dispute_inv, rule dispute_step_inv)

section \<open>Properties\<close>

text \<open>
  C4. In every reachable state an attestation has at most one dispute that is not closed and a
  challenger at most one dispute about it, ever; both indices list exactly the stored disputes they are about, none
  twice, in the order they were opened (ids grow); a dispute is stored under its own id, and it carries its resolution
  exactly when it is no longer open; no resolution is stored without its dispute.
\<close>

theorem disputes_one_at_a_time:
  assumes "reachable dispute_start dispute_step (s, w)"
  shows "(\<forall>i j d e. ds_disputes s i = Some d \<and> ds_disputes s j = Some e \<and> case_key d = case_key e \<and>
      (di_status d \<noteq> DClosed \<and> di_status e \<noteq> DClosed \<or> di_challenger d = di_challenger e) \<longrightarrow> i = j) \<and>
    (\<forall>b p. set (get_dispute_ids_by_attestation s b p) = {i. \<exists>d. ds_disputes s i = Some d \<and> case_key d = (b, p)} \<and>
      sorted_wrt (<) (get_dispute_ids_by_attestation s b p)) \<and>
    (\<forall>c. set (get_dispute_ids_by_challenger s c) = {i. \<exists>d. ds_disputes s i = Some d \<and> di_challenger d = c} \<and>
      sorted_wrt (<) (get_dispute_ids_by_challenger s c)) \<and>
    (\<forall>i d. ds_disputes s i = Some d \<longrightarrow> di_id d = i \<and> (di_status d = DOpen \<longleftrightarrow> get_dispute_resolution s i = None)) \<and>
    (\<forall>i. get_dispute_resolution s i = Option.bind (get_dispute s i) di_resolution)"
proof -
  have inv: "dispute_inv s" using disp.reachable_inv [OF assms(1)] by simp
  then have t: "tables_ok s" and o: "one_pending s" and c: "one_per_challenger s" and r: "resolutions_ok s"
    by (simp_all add: dispute_inv_def)
  have ids: "set (ids_of P s) = {i. \<exists>d. ds_disputes s i = Some d \<and> P d} \<and> sorted_wrt (<) (ids_of P s)" for P
    using ids_of_exact [OF t] .
  have "i = j" if "ds_disputes s i = Some d" "ds_disputes s j = Some e" "case_key d = case_key e"
    "di_status d \<noteq> DClosed \<and> di_status e \<noteq> DClosed \<or> di_challenger d = di_challenger e" for i j d e
    using that o c unfolding one_pending_def one_per_challenger_def by metis
  moreover have "di_id d = i \<and> (di_status d = DOpen \<longleftrightarrow> get_dispute_resolution s i = None)"
    if "ds_disputes s i = Some d" for i d
    using resolved_has [OF inv that] dispute_id [OF inv that] by (simp add: get_dispute_resolution_def)
  moreover have "get_dispute_resolution s i = Option.bind (get_dispute s i) di_resolution" for i
    using r by (simp add: resolutions_ok_def get_dispute_resolution_def get_dispute_def)
  moreover have "get_dispute_ids_by_attestation s b p = ids_of (\<lambda>d. case_key d = (b, p)) s"
    "get_dispute_ids_by_challenger s c = ids_of (\<lambda>d. di_challenger d = c) s" for b p c
    using t by (simp_all add: tables_ok_def)
  ultimately show ?thesis using ids by (simp only:) blast
qed

text \<open>The lifecycle of a dispute: who may move it, from where to where, under a deadline.\<close>

inductive dispute_move :: "nat \<Rightarrow> 'w dispute_call \<Rightarrow> dispute \<Rightarrow> dispute \<Rightarrow> bool"
  for deadline :: nat and c :: "'w dispute_call" and d :: dispute
where
  by_admin: "c = DResolveC env ac slash_fn i admin outcome note \<Longrightarrow> authorized env admin \<Longrightarrow>
    has_role ac admin ROLE_ADMIN \<Longrightarrow> di_status d = DOpen \<Longrightarrow> re_resolver r = admin \<Longrightarrow> re_outcome r = outcome \<Longrightarrow>
    dispute_move deadline c d (d\<lparr>di_status := DResolved, di_resolution := Some r\<rparr>)"
| by_witness: "c = DWitnessC sha env atts i leaf path \<Longrightarrow> atts (case_key d) = Some data \<Longrightarrow>
    verify_merkle_proof sha (ad_root data) leaf path \<Longrightarrow> di_status d = DOpen \<Longrightarrow> re_outcome r = Upheld \<Longrightarrow>
    dispute_move deadline c d (d\<lparr>di_status := DResolved, di_resolution := Some r\<rparr>)"
| by_timeout: "c = DRollbackC env ac admin ids limit \<Longrightarrow> authorized env admin \<Longrightarrow>
    has_role ac admin ROLE_ADMIN \<Longrightarrow> di_timestamp d + deadline < timestamp env \<Longrightarrow> di_status d = DOpen \<Longrightarrow>
    re_outcome r = Rejected \<Longrightarrow>
    dispute_move deadline c d (d\<lparr>di_status := DClosed, di_resolution := Some r\<rparr>)"
| by_anyone: "c = DCloseC i \<Longrightarrow> di_status d = DResolved \<Longrightarrow> dispute_move deadline c d (d\<lparr>di_status := DClosed\<rparr>)"

lemma rollback_moves:
  assumes "dispute_inv s"
  shows "ds_disputes s i = Some d \<longrightarrow> (ds_disputes (snd (rollback_loop env deadline limit ids count s)) i = Some d \<or>
     (\<exists>r. di_timestamp d + deadline < timestamp env \<and> di_status d = DOpen \<and> re_outcome r = Rejected \<and>
       ds_disputes (snd (rollback_loop env deadline limit ids count s)) i =
         Some (d\<lparr>di_status := DClosed, di_resolution := Some r\<rparr>)))"
proof -
  let ?R = "\<lambda>s t. dispute_inv s \<longrightarrow> dispute_inv t \<and>
    (\<forall>d. ds_disputes s i = Some d \<longrightarrow> (ds_disputes t i = Some d \<or>
     (\<exists>r. di_timestamp d + deadline < timestamp env \<and> di_status d = DOpen \<and> re_outcome r = Rejected \<and>
       ds_disputes t i = Some (d\<lparr>di_status := DClosed, di_resolution := Some r\<rparr>))))"
  have "?R s (snd (rollback_loop env deadline limit ids count s))"
  proof (rule rollback_induct)
    show "?R s t \<Longrightarrow> ?R t u \<Longrightarrow> ?R s u" for s t u by fastforce
  next
    show "?R s (release (conclude s j e DClosed r) (case_key e))"
      if "ds_disputes s j = Some e" "di_status e = DOpen" "di_timestamp e + deadline < timestamp env"
        "re_outcome r = Rejected" for s j e r
      using that conclude_inv dispute_id by auto
  qed simp
  with assms show ?thesis by blast
qed

text \<open>
  C10. A dispute follows its lifecycle: over any call it stays as it is or makes one move, by an
  administrator who authorizes the call and resolves it, by a Merkle witness, by the deadline and an
  administrator, or by the closing of a resolved dispute. No dispute disappears or reopens.
\<close>

theorem dispute_follows_lifecycle:
  assumes "reachable dispute_start dispute_step (s, w)" and "dispute_step c (s, w) = Inr (s', w')"
    and "ds_disputes s i = Some d"
  shows "\<exists>d'. ds_disputes s' i = Some d' \<and> (d' = d \<or> dispute_move (get_dispute_deadline s) c d d')"
proof -
  have inv: "dispute_inv s" using disp.reachable_inv [OF assms(1)] by simp
  have id: "ds_disputes s j = Some e \<Longrightarrow> di_id e = j" for j e using inv by (rule dispute_id)
  show ?thesis
  proof (cases c)
    case (DOpenC env atts recorded ch b p ty ev)
    with assms(2) obtain n where "open_dispute env atts recorded s ch b p ty ev = Inr (n, s')" by auto
    then show ?thesis
    proof (cases rule: open_cases)
      case (1 d1 s4)
      have "tables_ok s" using inv by (simp add: dispute_inv_def)
      with assms(3) 1(6) have "i \<noteq> n" unfolding tables_ok_def by fastforce
      with 1 assms(3) show ?thesis by (auto split: option.splits)
    qed
  next
    case (DResolveC env ac slash_fn j resolver outcome nts)
    with assms(2) have "resolve_dispute env ac slash_fn j resolver outcome nts (s, w) = Inr (s', w')" by simp
    then show ?thesis
      using assms(3) DResolveC id by (elim resolve_cases) (auto intro!: by_admin)
  next
    case (DCloseC j)
    with assms(2) have "close_dispute s j = Inr s'" by simp
    then show ?thesis using assms(3) DCloseC id by (elim close_cases) (auto simp: store_dispute_def intro: by_anyone)
  next
    case (DWitnessC sha env atts j leaf path)
    with assms(2) have "witness_entry sha env atts s j leaf path = Inr s'" by simp
    then show ?thesis using assms(3) DWitnessC id by (elim witness_cases) (auto intro: by_witness)
  next
    case (DRollbackC env ac caller ids limit)
    with assms(2) obtain "authorized env caller" "has_role ac caller ROLE_ADMIN"
      "s' = snd (rollback_loop env (get_dispute_deadline s) limit ids 0 s)"
      by (auto simp: rollback_entry_def require_admin_def check_and_rollback_disputes_def split: prod.splits)
    with rollback_moves [OF inv] assms(3) DRollbackC show ?thesis by (metis by_timeout)
  next
    case (DRevokeC b p r)
    with assms(2,3) show ?thesis by (auto dest!: revocation_frame)
  qed (use assms(2,3) in \<open>auto simp: deadline_entry_def set_dispute_deadline_def clear_anomaly_escalation_def
      store_attestor_for_attestation_def\<close>)
qed

text \<open>The open disputes about attestations whose recorded attestor is \<open>a\<close>, against its lock count.\<close>

definition holding :: "dispute_state \<Rightarrow> address \<Rightarrow> nat set" where
  "holding s a = {i. \<exists>d. ds_disputes s i = Some d \<and> di_status d = DOpen \<and> ds_attestor_by s (case_key d) = Some a}"

definition over :: "address \<Rightarrow> nat \<Rightarrow> dispute_state \<Rightarrow> bool" where
  "over a n s \<longleftrightarrow> dispute_inv s \<and> card (holding s a) + n \<le> lock_count s a"

lemma holding_finite:
  assumes "dispute_inv s"
  shows "finite (holding s a)"
proof (rule finite_subset)
  show "holding s a \<subseteq> {.. unwrap_or (ds_counter s) 0}"
    using assms unfolding dispute_inv_def tables_ok_def holding_def by fastforce
qed simp

lemma over_frame:
  "ds_disputes s' = ds_disputes s \<Longrightarrow> ds_attestor_by s' = ds_attestor_by s \<Longrightarrow> ds_lock_count s' = ds_lock_count s \<Longrightarrow>
   dispute_inv s' = dispute_inv s \<Longrightarrow> over a n s' = over a n s"
  by (simp add: over_def holding_def lock_count_def)

lemma lock_count_release:
  "lock_count (release s k) a = lock_count s a - (if ds_attestor_by s k = Some a then 1 else 0)"
  by (auto simp: release_def unlock_attestor_def lock_count_def Let_def split: option.split)

lemma holding_conclude:
  assumes "dispute_inv s" and "ds_disputes s i = Some d" and "st \<noteq> DOpen"
  shows "holding (conclude s i d st r) a = holding s a - {i}"
  using assms dispute_id [OF assms(1,2)] by (auto simp: holding_def case_key_def)

text \<open>A conclusion that releases keeps the surplus; one that does not adds to it.\<close>

lemma over_release:
  assumes "over a n s" and "ds_disputes s i = Some d" "di_status d = DOpen" "st \<noteq> DOpen"
  shows "over a n (release (conclude s i d st r) (case_key d))"
proof -
  have inv: "dispute_inv s" using assms(1) by (simp add: over_def)
  have h: "holding (release (conclude s i d st r) (case_key d)) a = holding s a - {i}"
    using holding_conclude [OF inv assms(2,4), of r a] by (simp add: holding_def)
  have i: "i \<in> holding s a \<longleftrightarrow> ds_attestor_by s (case_key d) = Some a"
    using assms(2,3) by (simp add: holding_def)
  have "lock_count (release (conclude s i d st r) (case_key d)) a =
      lock_count s a - (if i \<in> holding s a then 1 else 0)"
    using i by (simp add: lock_count_release) (simp add: lock_count_def)
  moreover have "card (holding s a - {i}) = card (holding s a) - (if i \<in> holding s a then 1 else 0)"
    using holding_finite [OF inv] by simp
  moreover have "i \<in> holding s a \<Longrightarrow> 0 < card (holding s a)"
    using holding_finite [OF inv] by (auto simp: card_gt_0_iff)
  ultimately show ?thesis
    using assms conclude_inv [OF inv assms(2-4)] h by (auto simp: over_def split: if_splits)
qed

lemma over_conclude:
  assumes "over a n s" and "ds_disputes s i = Some d" "di_status d = DOpen" "st \<noteq> DOpen"
  shows "over a (if ds_attestor_by s (case_key d) = Some a then Suc n else n) (conclude s i d st r)"
proof -
  have inv: "dispute_inv s" using assms(1) by (simp add: over_def)
  have i: "i \<in> holding s a \<longleftrightarrow> ds_attestor_by s (case_key d) = Some a"
    using assms(2,3) by (simp add: holding_def)
  have "i \<in> holding s a \<Longrightarrow> Suc (card (holding s a - {i})) = card (holding s a)"
    using holding_finite [OF inv] by (rule card.remove [symmetric])
  moreover have "lock_count (conclude s i d st r) a = lock_count s a" by (simp add: lock_count_def)
  ultimately show ?thesis
    using assms(1) conclude_inv [OF inv assms(2-4)] holding_conclude [OF inv assms(2,4), of r a] i
    by (auto simp: over_def split: if_splits)
qed

lemma over_mono: "over a n s \<Longrightarrow> m \<le> n \<Longrightarrow> over a m s"
  by (simp add: over_def)

lemma over_open:
  assumes "over a n s" and "open_dispute env atts recorded s c b p ty ev = Inr (i, s')"
  shows "over a n s'"
  using assms(2)
proof (cases rule: open_cases)
  case (1 d s4)
  have inv: "dispute_inv s" using assms(1) by (simp add: over_def)
  have inv': "dispute_inv s'" using open_inv [OF inv assms(2)] .
  have fresh: "ds_disputes s i = None"
    using inv 1(6) by (cases "ds_disputes s i") (fastforce simp: dispute_inv_def tables_ok_def)+
  have s': "ds_disputes s' = ds_disputes s4" "ds_attestor_by s' = ds_attestor_by s"
    using 1(19,21) by (auto split: option.splits)
  have "holding s' a = (if ds_attestor_by s (b, p) = Some a then insert i (holding s a) else holding s a)"
    unfolding holding_def s' 1(13) using fresh 1(8,10) by auto
  moreover have "lock_count s' a = lock_count s a + (if ds_attestor_by s (b, p) = Some a then 1 else 0)"
    using 1(18,21) by (auto simp: lock_count_def split: option.splits)
  moreover have "i \<notin> holding s a" using fresh by (simp add: holding_def)
  ultimately show ?thesis using assms(1) inv' holding_finite [OF inv, of a] by (auto simp: over_def)
qed

text \<open>Every call but the recording of an attestor keeps the surplus of locks.\<close>

lemma over_close:
  assumes "over a n s" and "close_dispute s i = Inr s'"
  shows "over a n s'"
  using assms(2)
proof (rule close_cases)
  fix d assume d: "ds_disputes s i = Some d" "di_status d = DResolved" "s' = store_dispute s (d\<lparr>di_status := DClosed\<rparr>)"
  have inv: "dispute_inv s" using assms(1) by (simp add: over_def)
  have "holding s' a = holding s a" using d dispute_id [OF inv d(1)] by (auto simp: holding_def store_dispute_def)
  moreover have "lock_count s' a = lock_count s a" using d(3) by (simp add: lock_count_def store_dispute_def)
  ultimately show ?thesis using assms(1) close_inv [OF inv assms(2)] by (simp add: over_def)
qed

lemma over_step:
  assumes "over a n (fst sw)" and "\<forall>b p x. c \<noteq> DRecordC b p x" and "dispute_step c sw = Inr sw'"
  shows "over a n (fst sw')"
proof -
  obtain s w s' w' where sw: "sw = (s, w)" "sw' = (s', w')" by (metis surj_pair)
  with assms have o: "over a n s" and st: "dispute_step c (s, w) = Inr (s', w')" by simp_all
  have inv: "dispute_inv s" and inv': "dispute_inv s'"
    using o dispute_step_inv [OF _ st] by (simp_all add: over_def)
  have "over a n s'"
  proof (cases c)
    case (DOpenC env atts recorded ch b p ty ev)
    with st o show ?thesis by (auto intro: over_open)
  next
    case (DResolveC env ac slash_fn j resolver outcome nts)
    with st have "resolve_dispute env ac slash_fn j resolver outcome nts (s, w) = Inr (s', w')" by simp
    then show ?thesis using o by (auto elim!: resolve_cases intro: over_release)
  next
    case (DCloseC j)
    with st o show ?thesis by (auto intro: over_close)
  next
    case (DWitnessC sha env atts j leaf path)
    with st have "witness_entry sha env atts s j leaf path = Inr s'" by simp
    then show ?thesis
    proof (rule witness_cases)
      fix d data r assume "ds_disputes s j = Some d" "di_status d = DOpen" "s' = conclude s j d DResolved r"
      then show ?thesis using over_conclude [OF o, of j d DResolved r] by (auto intro: over_mono split: if_splits)
    qed
  next
    case (DRollbackC env ac caller ids limit)
    have "over a n s \<longrightarrow> over a n (snd (rollback_loop env (get_dispute_deadline s) limit ids 0 s))"
      by (rule rollback_induct [where R = "\<lambda>s t. over a n s \<longrightarrow> over a n t"]) (auto intro: over_release)
    with DRollbackC st o show ?thesis
      by (auto simp: rollback_entry_def check_and_rollback_disputes_def split: prod.splits)
  next
    case (DRecordC b p x)
    with assms(2) show ?thesis by blast
  next
    case (DRevokeC b p r)
    with st o inv inv' show ?thesis by (auto dest!: revocation_frame intro: over_frame [THEN iffD2])
  qed (use st o inv inv' in \<open>auto simp: deadline_entry_def set_dispute_deadline_def clear_anomaly_escalation_def
      intro: over_frame [THEN iffD2, rotated -1]\<close>)
  with sw show ?thesis by simp
qed

lemma over_run:
  assumes "over a n (fst sw)" and "\<forall>b p x. DRecordC b p x \<notin> set cs"
  shows "over a n (fst (run dispute_step cs sw))"
proof (rule run_inv_on [where I = "\<lambda>sw. over a n (fst sw)" and ok = "\<lambda>c. \<forall>b p x. c \<noteq> DRecordC b p x"])
  show "\<forall>c\<in>set cs. \<forall>b p x. c \<noteq> DRecordC b p x" using assms(2) by metis
qed (use assms(1) in \<open>auto intro: over_step\<close>)

lemma over_start:
  assumes "dispute_start sw"
  shows "over a 0 (fst sw)"
proof -
  have "holding (fst sw) a = {}" using assms by (simp add: holding_def dispute_start_def Let_def)
  then show ?thesis using start_dispute_inv [OF assms] by (simp add: over_def)
qed

text \<open>
  C9. While a dispute about an attestation is open, the attestor on record for it is locked: along every
  history from a state without disputes (as long as no attestation is recorded anew on the way) the
  lock count of an attestor is at least the number of open disputes about its attestations.
\<close>

theorem attestor_locked_while_disputed:
  assumes "dispute_start sw" and "\<forall>b p x. DRecordC b p x \<notin> set cs" and "run dispute_step cs sw = (s, w)"
    and "ds_disputes s i = Some d" "di_status d = DOpen" "ds_attestor_by s (di_business d, di_period d) = Some a"
  shows "is_attestor_locked s a \<and> card {j. \<exists>e. ds_disputes s j = Some e \<and> di_status e = DOpen \<and>
    ds_attestor_by s (di_business e, di_period e) = Some a} \<le> lock_count s a"
proof -
  have "over a 0 s" using over_run [OF over_start [OF assms(1)] assms(2), of a] assms(3) by simp
  moreover from this have "finite (holding s a)" by (simp add: over_def holding_finite)
  moreover have "i \<in> holding s a" using assms(4-6) by (simp add: holding_def case_key_def)
  ultimately have "0 < card (holding s a)" by (auto simp: card_gt_0_iff)
  then have "is_attestor_locked s a" using \<open>over a 0 s\<close> by (simp add: over_def is_attestor_locked_def)
  moreover have "card {j. \<exists>e. ds_disputes s j = Some e \<and> di_status e = DOpen \<and>
      ds_attestor_by s (di_business e, di_period e) = Some a} \<le> lock_count s a"
    using \<open>over a 0 s\<close> by (simp add: over_def holding_def case_key_def)
  ultimately show ?thesis by simp
qed

text \<open>
  The witness route needs no evidence: whoever calls it with the attestation's own Merkle root as
  the leaf and an empty path resolves any open dispute as upheld. No one has to authorize the call, no
  slash follows, and the attestor on record is not unlocked.
\<close>

theorem witness_upholds_any_open_dispute:
  assumes "ds_disputes s i = Some d" "di_id d = i" "di_status d = DOpen"
    and "atts (di_business d, di_period d) = Some data"
  shows "\<exists>s' r. witness_entry sha env atts s i (ad_root data) [] = Inr s' \<and>
    get_dispute s' i = Some (d\<lparr>di_status := DResolved, di_resolution := Some r\<rparr>) \<and>
    re_outcome r = Upheld \<and> get_dispute_resolution s' i = Some r \<and> ds_lock_count s' = ds_lock_count s"
  using assms
  by (simp add: witness_entry_def expect_ok_def submit_dispute_witness_def get_dispute_def Let_def
      verify_merkle_proof_def store_dispute_def store_dispute_resolution_def get_dispute_resolution_def)

text \<open>
  A witness leaves the attestor locked for good: once a dispute has been resolved by a witness, the
  attestor on record stays locked along every further history (in which no attestation is recorded
  anew), closing and rolling back disputes included.
\<close>

theorem witness_locks_for_good:
  assumes "dispute_start sw" and "\<forall>b p x. DRecordC b p x \<notin> set cs" and "run dispute_step cs sw = (s, w)"
    and "ds_disputes s i = Some d" "ds_attestor_by s (di_business d, di_period d) = Some a"
    and "witness_entry sha env atts s i leaf path = Inr s'"
    and "\<forall>b p x. DRecordC b p x \<notin> set later"
  shows "is_attestor_locked (fst (run dispute_step later (s', w))) a"
proof -
  have o: "over a 0 s" using over_run [OF over_start [OF assms(1)] assms(2), of a] assms(3) by simp
  have "over a 1 s'"
    using assms(6)
  proof (rule witness_cases)
    fix e data r assume e: "ds_disputes s i = Some e" "di_status e = DOpen" "s' = conclude s i e DResolved r"
    then show ?thesis using over_conclude [OF o e(1,2), of DResolved r] assms(4,5) by (simp add: case_key_def)
  qed
  then have "over a 1 (fst (run dispute_step later (s', w)))" using over_run [of a 1 "(s', w)"] assms(7) by simp
  then show ?thesis by (simp add: over_def is_attestor_locked_def)
qed

section \<open>Witnesses\<close>

definition att_one :: att_data where
  "att_one = \<lparr>ad_root = leaf_of 7, ad_timestamp = 1, ad_version = 1, ad_fee = 0, ad_proof_hash = None, ad_expiry = None\<rparr>"

definition atts_one :: att_store where
  "atts_one = [(''BIZ'', ''Q1'') \<mapsto> att_one]"

definition disputes_zero :: dispute_state where
  "disputes_zero = dispute_empty\<lparr>ds_attestor_by := [(''BIZ'', ''Q1'') \<mapsto> ''ATT'']\<rparr>"

definition first_call :: "unit dispute_call" where
  "first_call = DOpenC (env_at 5 1) atts_one Map.empty ''CHAL'' ''BIZ'' ''Q1'' DataIntegrity ''evidence''"

definition dispute_one :: dispute where
  "dispute_one = \<lparr>di_id = 1, di_challenger = ''CHAL'', di_business = ''BIZ'', di_attestor = ''BIZ'',
     di_period = ''Q1'', di_status = DOpen, di_type = DataIntegrity, di_evidence = ''evidence'',
     di_timestamp = 5, di_resolution = None\<rparr>"

definition disputes_one :: dispute_state where
  "disputes_one = disputes_zero\<lparr>ds_counter := Some 1, ds_disputes := [1 \<mapsto> dispute_one],
     ds_by_attestation := [(''BIZ'', ''Q1'') \<mapsto> [1]], ds_by_challenger := [''CHAL'' \<mapsto> [1]],
     ds_lock_count := [''ATT'' \<mapsto> 1]\<rparr>"

lemma disputes_start: "dispute_start (disputes_zero, ())"
  by (simp add: dispute_start_def disputes_zero_def dispute_empty_def)

lemma first_step: "dispute_step first_call (disputes_zero, ()) = Inr (disputes_one, ())"
  by (simp add: first_call_def open_dispute_def expect_ok_def validate_dispute_eligibility_def has_open_dispute_def
      has_existing_dispute_def get_dispute_ids_by_attestation_def get_dispute_ids_by_challenger_def
      is_attestation_revoked_def generate_dispute_id_def store_dispute_def add_dispute_to_attestation_index_def
      add_dispute_to_challenger_index_def get_attestor_for_attestation_def lock_attestor_def lock_count_def
      disputes_zero_def disputes_one_def dispute_one_def dispute_empty_def atts_one_def Let_def u64_max_def)

lemma first_run: "run dispute_step [first_call] (disputes_zero, ()) = (disputes_one, ())"
  using first_step by simp

lemma first_reachable: "reachable dispute_start dispute_step (disputes_one, ())"
  by (rule reachable_call [where e = first_call], rule reachable_start, rule disputes_start, rule first_step)

lemma one_table: "ds_disputes disputes_one 1 = Some dispute_one"
  by (simp add: disputes_one_def)

lemma disputes_one_at_a_time_witness:
  "set (get_dispute_ids_by_challenger disputes_one ''CHAL'') = {1} \<and> set (get_dispute_ids_by_challenger disputes_one ''BIZ'') = {}"
proof -
  have "set (get_dispute_ids_by_challenger disputes_one c) = {i. \<exists>d. ds_disputes disputes_one i = Some d \<and> di_challenger d = c}" for c
    using disputes_one_at_a_time [OF first_reachable] by blast
  then show ?thesis by (auto simp: disputes_one_def dispute_one_def split: if_splits)
qed

lemma dispute_follows_lifecycle_witness:
  "\<exists>s' d'. dispute_step (DWitnessC (\<lambda>_. leaf_of 0) (env_at 6 1) atts_one 1 (leaf_of 7) []) (disputes_one, ()) = Inr (s', ()) \<and>
     ds_disputes s' 1 = Some d' \<and>
     (d' = dispute_one \<or> dispute_move (get_dispute_deadline disputes_one)
        (DWitnessC (\<lambda>_. leaf_of 0) (env_at 6 1) atts_one 1 (leaf_of 7) [] :: unit dispute_call) dispute_one d')"
proof -
  obtain s' where s': "dispute_step (DWitnessC (\<lambda>_. leaf_of 0) (env_at 6 1) atts_one 1 (leaf_of 7) []) (disputes_one, ()) = Inr (s', ())"
    by (simp add: witness_entry_def expect_ok_def submit_dispute_witness_def get_dispute_def Let_def
        verify_merkle_proof_def atts_one_def att_one_def disputes_one_def dispute_one_def)
  from dispute_follows_lifecycle [OF first_reachable s' one_table] s' show ?thesis by blast
qed

lemma attestor_locked_while_disputed_witness: "is_attestor_locked disputes_one ''ATT''"
  by (rule attestor_locked_while_disputed [OF disputes_start _ first_run one_table, THEN conjunct1])
    (simp_all add: first_call_def dispute_one_def disputes_one_def disputes_zero_def)

lemma witness_upholds_any_open_dispute_witness:
  "\<exists>s' r. witness_entry (\<lambda>_. leaf_of 0) (env_at 6 1) atts_one disputes_one 1 (leaf_of 7) [] = Inr s' \<and>
     get_dispute s' 1 = Some (dispute_one\<lparr>di_status := DResolved, di_resolution := Some r\<rparr>) \<and> re_outcome r = Upheld"
  using witness_upholds_any_open_dispute [of disputes_one 1 dispute_one atts_one att_one "\<lambda>_. leaf_of 0" "env_at 6 1"]
  by (auto simp: disputes_one_def dispute_one_def atts_one_def att_one_def)

lemma witness_locks_for_good_witness:
  "\<exists>s'. witness_entry (\<lambda>_. leaf_of 0) (env_at 6 1) atts_one disputes_one 1 (leaf_of 7) [] = Inr s' \<and>
     is_attestor_locked (fst (run dispute_step [DCloseC 1 :: unit dispute_call] (s', ()))) ''ATT''"
proof -
  obtain s' where s': "witness_entry (\<lambda>_. leaf_of 0) (env_at 6 1) atts_one disputes_one 1 (leaf_of 7) [] = Inr s'"
    by (simp add: witness_entry_def expect_ok_def submit_dispute_witness_def get_dispute_def Let_def
        verify_merkle_proof_def atts_one_def att_one_def disputes_one_def dispute_one_def)
  have "is_attestor_locked (fst (run dispute_step [DCloseC 1 :: unit dispute_call] (s', ()))) ''ATT''"
    by (rule witness_locks_for_good [OF disputes_start _ first_run one_table _ s'])
      (simp_all add: first_call_def dispute_one_def disputes_one_def disputes_zero_def)
  with s' show ?thesis by blast
qed

end
