(* ===== verification/Business_Registry.thy ===== *)
theory Business_Registry
  imports Access_Control
begin

text \<open>
  \<open>contracts/attestation/src/registry.rs\<close>: the registry of businesses and their lifecycle. The
  operations read the access-control state for their guards and change only the registry, a map
  from addresses to records. The lifecycle they are to follow is the relation \<open>lifecycle\<close>.
\<close>

section \<open>Data\<close>

datatype business_status = BizPending | BizActive | BizSuspended

record business_record =
  br_name_hash :: "8 word list"
  br_jurisdiction :: sstring
  br_tags :: "sstring list"
  br_status :: business_status
  br_registered_at :: nat
  br_updated_at :: nat

type_synonym registry = "address \<rightharpoonup> business_record"

section \<open>Operations\<close>

definition get_record_opt :: "registry \<Rightarrow> address \<Rightarrow> business_record option" where
  "get_record_opt m business = m business"

definition get_record :: "registry \<Rightarrow> address \<Rightarrow> business_record res" where
  "get_record m business = expectr (get_record_opt m business) ''business not registered''"

definition set_record :: "registry \<Rightarrow> address \<Rightarrow> business_record \<Rightarrow> registry" where
  "set_record m business r = m(business \<mapsto> r)"

definition is_registered :: "registry \<Rightarrow> address \<Rightarrow> bool" where
  "is_registered m business \<longleftrightarrow> m business \<noteq> None"

definition register_business ::
  "ledger_env \<Rightarrow> access_state \<Rightarrow> registry \<Rightarrow> address \<Rightarrow> 8 word list \<Rightarrow> sstring \<Rightarrow> sstring list \<Rightarrow>
   registry res" where
  "register_business env ac m business name_hash jurisdiction tags =
     bindr (require_business env ac business) (\<lambda>_.
     if is_registered m business then Inl (Panic ''business already registered'')
     else
       (let ts = timestamp env in
        Inr (set_record m business
          \<lparr>br_name_hash = name_hash, br_jurisdiction = jurisdiction, br_tags = tags,
           br_status = BizPending, br_registered_at = ts, br_updated_at = ts\<rparr>)))"

definition approve_business ::
  "ledger_env \<Rightarrow> access_state \<Rightarrow> registry \<Rightarrow> address \<Rightarrow> address \<Rightarrow> registry res" where
  "approve_business env ac m caller business =
     bindr (require_admin env ac caller) (\<lambda>_.
     bindr (get_record m business) (\<lambda>r.
     if br_status r \<noteq> BizPending then Inl (Panic ''invalid status transition'')
     else Inr (set_record m business (r\<lparr>br_status := BizActive, br_updated_at := timestamp env\<rparr>))))"

definition suspend_business ::
  "ledger_env \<Rightarrow> access_state \<Rightarrow> registry \<Rightarrow> address \<Rightarrow> address \<Rightarrow> registry res" where
  "suspend_business env ac m caller business =
     bindr (require_admin env ac caller) (\<lambda>_.
     bindr (get_record m business) (\<lambda>r.
     if br_status r \<noteq> BizActive then Inl (Panic ''invalid status transition'')
     else Inr (set_record m business (r\<lparr>br_status := BizSuspended, br_updated_at := timestamp env\<rparr>))))"

definition reactivate_business ::
  "ledger_env \<Rightarrow> access_state \<Rightarrow> registry \<Rightarrow> address \<Rightarrow> address \<Rightarrow> registry res" where
  "reactivate_business env ac m caller business =
     bindr (require_admin env ac caller) (\<lambda>_.
     bindr (get_record m business) (\<lambda>r.
     if br_status r \<noteq> BizSuspended then Inl (Panic ''invalid status transition'')
     else Inr (set_record m business (r\<lparr>br_status := BizActive, br_updated_at := timestamp env\<rparr>))))"

definition update_tags ::
  "ledger_env \<Rightarrow> access_state \<Rightarrow> registry \<Rightarrow> address \<Rightarrow> address \<Rightarrow> sstring list \<Rightarrow> registry res" where
  "update_tags env ac m caller business tags =
     bindr (require_admin env ac caller) (\<lambda>_.
     bindr (get_record m business) (\<lambda>r.
     Inr (set_record m business (r\<lparr>br_tags := tags, br_updated_at := timestamp env\<rparr>))))"

definition is_active :: "registry \<Rightarrow> address \<Rightarrow> bool" where
  "is_active m business =
     (case get_record_opt m business of Some r \<Rightarrow> br_status r = BizActive | None \<Rightarrow> False)"

definition get_business :: "registry \<Rightarrow> address \<Rightarrow> business_record option" where
  "get_business m business = get_record_opt m business"

definition require_active_business :: "registry \<Rightarrow> address \<Rightarrow> unit res" where
  "require_active_business m business =
     (case get_record_opt m business of
        None \<Rightarrow> Inl (Panic ''business not registered'')
      | Some r \<Rightarrow>
          (case br_status r of
             BizActive \<Rightarrow> Inr ()
           | BizPending \<Rightarrow> Inl (Panic ''business pending approval'')
           | BizSuspended \<Rightarrow> Inl (Panic ''business is suspended'')))"

definition get_status :: "registry \<Rightarrow> address \<Rightarrow> business_status option" where
  "get_status m business = map_option br_status (get_record_opt m business)"

section \<open>The lifecycle\<close>

text \<open>Who may move a business, and where to.\<close>

datatype actor_kind = TheBusiness | AnAdmin

inductive lifecycle :: "actor_kind \<Rightarrow> business_status option \<Rightarrow> business_status option \<Rightarrow> bool" where
  lc_register: "lifecycle TheBusiness None (Some BizPending)"
| lc_approve: "lifecycle AnAdmin (Some BizPending) (Some BizActive)"
| lc_suspend: "lifecycle AnAdmin (Some BizActive) (Some BizSuspended)"
| lc_reactivate: "lifecycle AnAdmin (Some BizSuspended) (Some BizActive)"

declare lifecycle.intros [intro]

inductive_cases lifecycle_to_active [elim!]: "lifecycle k st (Some BizActive)"
inductive_simps lifecycle_from_none [simp]: "lifecycle k None st"
inductive_simps lifecycle_to_none [simp]: "lifecycle k st None"

datatype registry_call =
    BRegister address "8 word list" sstring "sstring list"
  | BApprove address address
  | BSuspend address address
  | BReactivate address address
  | BTags address address "sstring list"

fun registry_call_by :: "registry_call \<Rightarrow> address" where
  "registry_call_by (BRegister b _ _ _) = b"
| "registry_call_by (BApprove c _) = c"
| "registry_call_by (BSuspend c _) = c"
| "registry_call_by (BReactivate c _) = c"
| "registry_call_by (BTags c _ _) = c"

text \<open>A call with the environment and the access-control state it meets.\<close>

fun registry_step :: "(ledger_env \<times> access_state) \<times> registry_call \<Rightarrow> registry \<Rightarrow> registry res" where
  "registry_step ((env, ac), BRegister b h j tg) m = register_business env ac m b h j tg"
| "registry_step ((env, ac), BApprove c b) m = approve_business env ac m c b"
| "registry_step ((env, ac), BSuspend c b) m = suspend_business env ac m c b"
| "registry_step ((env, ac), BReactivate c b) m = reactivate_business env ac m c b"
| "registry_step ((env, ac), BTags c b tg) m = update_tags env ac m c b tg"

lemmas registry_defs = register_business_def approve_business_def suspend_business_def
  reactivate_business_def update_tags_def get_record_def get_record_opt_def set_record_def
  is_registered_def require_admin_def require_business_def get_status_def

text \<open>What a record keeps for ever.\<close>

definition identity :: "business_record \<Rightarrow> 8 word list \<times> sstring \<times> nat" where
  "identity r = (br_name_hash r, br_jurisdiction r, br_registered_at r)"

lemma registry_step_status:
  assumes "registry_step ((env, ac), c) m = Inr m'" and "get_status m' b \<noteq> get_status m b"
  shows "authorized env (registry_call_by c) \<and>
    (if has_role ac (registry_call_by c) ROLE_ADMIN \<and> m b \<noteq> None
     then lifecycle AnAdmin (get_status m b) (get_status m' b)
     else lifecycle TheBusiness (get_status m b) (get_status m' b) \<and> registry_call_by c = b)"
  using assms
  by (cases c) (auto simp: registry_defs Let_def lifecycle.intros split: if_splits)

lemma registry_step_identity:
  assumes "registry_step ((env, ac), c) m = Inr m'" and "m b = Some r"
  shows "\<exists>r'. m' b = Some r' \<and> identity r' = identity r"
  using assms by (cases c) (auto simp: registry_defs identity_def Let_def split: if_splits)

lemma registry_step_activates:
  assumes "registry_step ((env, ac), c) m = Inr m'" and "is_active m' b" and "\<not> is_active m b"
  shows "authorized env (registry_call_by c) \<and> has_role ac (registry_call_by c) ROLE_ADMIN \<and>
    (c = BApprove (registry_call_by c) b \<and> get_status m b = Some BizPending \<or>
     get_status m b = Some BizSuspended)"
  using assms
  by (cases c) (auto simp: registry_defs is_active_def Let_def split: if_splits option.splits)

text \<open>A business that was approved by an administrator at some point of a history.\<close>

definition approved_in :: "address \<Rightarrow> ((ledger_env \<times> access_state) \<times> registry_call) list \<Rightarrow> bool" where
  "approved_in b es \<longleftrightarrow>
     (\<exists>pre env ac caller post. es = pre @ ((env, ac), BApprove caller b) # post \<and>
        authorized env caller \<and> has_role ac caller ROLE_ADMIN \<and>
        get_status (run registry_step pre Map.empty) b = Some BizPending)"

lemma approved_in_snoc: "approved_in b es \<Longrightarrow> approved_in b (es @ [e])"
  unfolding approved_in_def by (metis append_Cons append_assoc)

lemma past_pending_approved:
  "get_status (run registry_step es Map.empty) b \<in> {Some BizActive, Some BizSuspended} \<Longrightarrow> approved_in b es"
proof (induction es rule: rev_induct)
  case Nil
  then show ?case by (simp add: get_status_def get_record_opt_def)
next
  case (snoc e es)
  let ?m = "run registry_step es Map.empty"
  show ?case
  proof (cases "get_status ?m b \<in> {Some BizActive, Some BizSuspended}")
    case True
    then show ?thesis by (intro approved_in_snoc snoc.IH)
  next
    case False
    obtain env ac c where e: "e = ((env, ac), c)" by (metis surj_pair)
    obtain m' where m': "registry_step e ?m = Inr m'"
      using snoc.prems False by (cases "registry_step e ?m") (simp_all add: run_append)
    then have st: "get_status m' b \<in> {Some BizActive, Some BizSuspended}"
      using snoc.prems by (simp add: run_append)
    have pend: "get_status m' b = Some BizActive \<and> get_status ?m b = Some BizPending"
      using registry_step_status [OF m' [unfolded e], of b] st False
      by (auto simp: lifecycle.simps split: if_splits)
    then have "is_active m' b" "\<not> is_active ?m b"
      by (auto simp: is_active_def get_status_def split: option.splits)
    from registry_step_activates [OF m' [unfolded e] this] pend
    have "authorized env (registry_call_by c)" "has_role ac (registry_call_by c) ROLE_ADMIN"
      "c = BApprove (registry_call_by c) b" by auto
    with pend e show ?thesis
      unfolding approved_in_def by (intro exI [of _ es] exI [of _ env] exI [of _ ac] exI conjI) auto
  qed
qed

section \<open>Properties\<close>

text \<open>
  Every successful call follows the lifecycle and its authority. If it changes the status of a
  business, its caller authorized it, and either it is an administrator acting on a registered
  business along approve, suspend or reactivate, or it is the business itself registering. Name
  hash, jurisdiction and registration time of a registered business never change.
\<close>

theorem registry_follows_lifecycle:
  assumes "registry_step ((env, ac), c) m = Inr m'"
  shows "(get_status m' b \<noteq> get_status m b \<longrightarrow> authorized env (registry_call_by c) \<and>
      (if has_role ac (registry_call_by c) ROLE_ADMIN \<and> m b \<noteq> None
       then lifecycle AnAdmin (get_status m b) (get_status m' b)
       else lifecycle TheBusiness (get_status m b) (get_status m' b) \<and> registry_call_by c = b)) \<and>
    (\<forall>r. m b = Some r \<longrightarrow> (\<exists>r'. m' b = Some r' \<and> identity r' = identity r))"
  using registry_step_status [OF assms] registry_step_identity [OF assms] by blast

text \<open>
  The submission gate is sound. Along any history from an empty registry, if
  \<open>require_active_business\<close> lets a business pass, then an account that held \<open>ROLE_ADMIN\<close> and
  authorized the call had approved it while it was pending.
\<close>

theorem active_business_was_approved:
  assumes "require_active_business (run registry_step es Map.empty) b = Inr ()"
  shows "approved_in b es"
  using assms
  by (intro past_pending_approved)
    (auto simp: require_active_business_def get_status_def split: option.splits business_status.splits)

section \<open>Witnesses\<close>

definition access_biz :: access_state where
  "access_biz = access_alice\<lparr>ac_roles := [''ALICE'' \<mapsto> ROLE_ADMIN, ''BIZ'' \<mapsto> ROLE_BUSINESS],
     ac_holders := [''ALICE'', ''BIZ'']\<rparr>"

lemma access_biz_roles [simp]:
  "has_role access_biz ''ALICE'' ROLE_ADMIN" "has_role access_biz ''BIZ'' ROLE_BUSINESS"
  by (simp_all add: access_biz_def has_role_def get_roles_def role_consts)

lemma registry_follows_lifecycle_witness:
  "\<exists>m. registry_step ((env_at 5 1, access_biz), BRegister ''BIZ'' [1] ''US'' []) Map.empty = Inr m \<and>
     lifecycle TheBusiness None (get_status m ''BIZ'')"
proof -
  obtain m where m: "registry_step ((env_at 5 1, access_biz), BRegister ''BIZ'' [1] ''US'' []) Map.empty = Inr m"
    and st: "get_status m ''BIZ'' = Some BizPending"
    by (simp add: registry_defs Let_def)
  from registry_follows_lifecycle [OF m, of "''BIZ''"] m st show ?thesis
    by (auto simp: get_status_def get_record_opt_def)
qed

lemma active_business_was_approved_witness:
  "approved_in ''BIZ'' [((env_at 5 1, access_biz), BRegister ''BIZ'' [1] ''US'' []),
     ((env_at 6 2, access_biz), BApprove ''ALICE'' ''BIZ'')]"
  by (rule active_business_was_approved)
    (simp add: registry_defs Let_def exec_def require_active_business_def)

end
