(* ===== verification/Rate_Limit.thy ===== *)
theory Rate_Limit
  imports Prelude
begin

text \<open>
  \<open>contracts/attestation/src/rate_limit.rs\<close>: the sliding window and the burst window on the
  submissions of a business. Storage: the configuration, and per business the timestamps kept and
  the high-water timestamp. \<open>saturating_sub\<close> of \<open>u64\<close> is subtraction on \<open>nat\<close>.
\<close>

section \<open>Data\<close>

definition MAX_SUBMISSIONS_LIMIT :: nat where "MAX_SUBMISSIONS_LIMIT = 100"
definition MAX_WINDOW_SECONDS :: nat where "MAX_WINDOW_SECONDS = 365 * 24 * 3600"

record rate_limit_config =
  rc_max_submissions :: nat
  rc_window_seconds :: nat
  rc_burst_max_submissions :: nat
  rc_burst_window_seconds :: nat
  rc_enabled :: bool

record rate_state =
  rl_config :: "rate_limit_config option"
  rl_stamps :: "address \<rightharpoonup> nat list"
  rl_high_water :: "address \<rightharpoonup> nat"

definition rate_empty :: rate_state where
  "rate_empty = \<lparr>rl_config = None, rl_stamps = Map.empty, rl_high_water = Map.empty\<rparr>"

section \<open>Operations\<close>

definition set_rate_limit_config :: "rate_state \<Rightarrow> rate_limit_config \<Rightarrow> rate_state res" where
  "set_rate_limit_config s c =
     bindr (assertr (0 < rc_max_submissions c) ''max_submissions must be greater than zero'') (\<lambda>_.
     bindr (assertr (rc_max_submissions c \<le> MAX_SUBMISSIONS_LIMIT) ''max_submissions exceeds maximum allowed limit'') (\<lambda>_.
     bindr (assertr (0 < rc_window_seconds c) ''window_seconds must be greater than zero'') (\<lambda>_.
     bindr (assertr (rc_window_seconds c \<le> MAX_WINDOW_SECONDS) ''window_seconds exceeds maximum allowed limit'') (\<lambda>_.
     bindr (assertr (0 < rc_burst_max_submissions c) ''burst_max_submissions must be greater than zero'') (\<lambda>_.
     bindr (assertr (0 < rc_burst_window_seconds c) ''burst_window_seconds must be greater than zero'') (\<lambda>_.
     bindr (assertr (rc_burst_max_submissions c \<le> rc_max_submissions c)
              ''burst_max_submissions must be less than or equal to max_submissions'') (\<lambda>_.
     bindr (assertr (rc_burst_window_seconds c \<le> rc_window_seconds c)
              ''burst_window_seconds must be less than or equal to window_seconds'') (\<lambda>_.
     Inr (s\<lparr>rl_config := Some c\<rparr>)))))))))"

definition get_rate_limit_config :: "rate_state \<Rightarrow> rate_limit_config option" where
  "get_rate_limit_config s = rl_config s"

definition get_timestamps :: "rate_state \<Rightarrow> address \<Rightarrow> nat list" where
  "get_timestamps s business = unwrap_or (rl_stamps s business) []"

definition set_timestamps :: "rate_state \<Rightarrow> address \<Rightarrow> nat list \<Rightarrow> rate_state" where
  "set_timestamps s business ts = s\<lparr>rl_stamps := (rl_stamps s)(business \<mapsto> ts)\<rparr>"

definition effective_timestamp :: "ledger_env \<Rightarrow> rate_state \<Rightarrow> address \<Rightarrow> nat" where
  "effective_timestamp env s business =
     (let high_water = unwrap_or (rl_high_water s business) (timestamp env) in
      max (timestamp env) high_water)"

text \<open>The loop over the stored timestamps.\<close>

fun window_loop :: "nat \<Rightarrow> nat \<Rightarrow> nat list \<Rightarrow> nat list \<times> nat \<times> nat \<Rightarrow> nat list \<times> nat \<times> nat" where
  "window_loop cutoff burst_cutoff [] acc = acc"
| "window_loop cutoff burst_cutoff (ts # rest) (active, window_count, burst_count) =
     (if cutoff \<le> ts
      then window_loop cutoff burst_cutoff rest
             (active @ [ts], window_count + 1,
              if burst_cutoff \<le> ts then burst_count + 1 else burst_count)
      else window_loop cutoff burst_cutoff rest (active, window_count, burst_count))"

definition analyze_submission_windows ::
  "ledger_env \<Rightarrow> rate_state \<Rightarrow> rate_limit_config \<Rightarrow> address \<Rightarrow> nat list \<times> nat \<times> nat \<times> nat" where
  "analyze_submission_windows env s c business =
     (let now = effective_timestamp env s business;
          cutoff = now - rc_window_seconds c;
          burst_cutoff = now - rc_burst_window_seconds c;
          stored = get_timestamps s business;
          (active, window_count, burst_count) = window_loop cutoff burst_cutoff stored ([], 0, 0) in
      (active, length stored, window_count, burst_count))"

definition enabled_config :: "rate_state \<Rightarrow> rate_limit_config option" where
  "enabled_config s =
     (case get_rate_limit_config s of Some c \<Rightarrow> (if rc_enabled c then Some c else None) | None \<Rightarrow> None)"

definition check_rate_limit :: "ledger_env \<Rightarrow> rate_state \<Rightarrow> address \<Rightarrow> rate_state res" where
  "check_rate_limit env s business =
     (case enabled_config s of
        None \<Rightarrow> Inr s
      | Some c \<Rightarrow>
          (let (active, original_len, window_count, burst_count) =
                 analyze_submission_windows env s c business;
               s1 = (if length active \<noteq> original_len then set_timestamps s business active else s) in
           bindr (assertr (window_count < rc_max_submissions c) ''rate limit exceeded'') (\<lambda>_.
           bindr (assertr (burst_count < rc_burst_max_submissions c) ''burst rate limit exceeded'') (\<lambda>_.
           Inr s1))))"

definition record_submission :: "ledger_env \<Rightarrow> rate_state \<Rightarrow> address \<Rightarrow> rate_state" where
  "record_submission env s business =
     (case enabled_config s of
        None \<Rightarrow> s
      | Some c \<Rightarrow>
          (let now = effective_timestamp env s business;
               (active, _, _, _) = analyze_submission_windows env s c business;
               s1 = set_timestamps s business (active @ [now]) in
           s1\<lparr>rl_high_water := (rl_high_water s1)(business \<mapsto> now)\<rparr>))"

definition get_submission_count :: "ledger_env \<Rightarrow> rate_state \<Rightarrow> address \<Rightarrow> nat" where
  "get_submission_count env s business =
     (case enabled_config s of
        None \<Rightarrow> 0
      | Some c \<Rightarrow> (let (_, _, count, _) = analyze_submission_windows env s c business in count))"

definition get_burst_submission_count :: "ledger_env \<Rightarrow> rate_state \<Rightarrow> address \<Rightarrow> nat" where
  "get_burst_submission_count env s business =
     (case enabled_config s of
        None \<Rightarrow> 0
      | Some c \<Rightarrow> (let (_, _, _, count) = analyze_submission_windows env s c business in count))"

section \<open>The windows as filters\<close>

lemma window_loop_filter:
  "burst_cutoff \<ge> cutoff \<Longrightarrow>
   window_loop cutoff burst_cutoff ts (active, n, k) =
     (active @ filter (\<lambda>t. cutoff \<le> t) ts, n + length (filter (\<lambda>t. cutoff \<le> t) ts),
      k + length (filter (\<lambda>t. burst_cutoff \<le> t) ts))"
  by (induction ts arbitrary: active n k) auto

definition valid_config :: "rate_limit_config \<Rightarrow> bool" where
  "valid_config c \<longleftrightarrow>
     0 < rc_burst_max_submissions c \<and> rc_burst_max_submissions c \<le> rc_max_submissions c \<and>
     rc_max_submissions c \<le> MAX_SUBMISSIONS_LIMIT \<and>
     0 < rc_burst_window_seconds c \<and> rc_burst_window_seconds c \<le> rc_window_seconds c \<and>
     rc_window_seconds c \<le> MAX_WINDOW_SECONDS"

lemma set_config_valid: "set_rate_limit_config s c = Inr s' \<longleftrightarrow> valid_config c \<and> s' = s\<lparr>rl_config := Some c\<rparr>"
  by (auto simp: set_rate_limit_config_def valid_config_def)

lemma analyze_filter:
  assumes "rc_burst_window_seconds c \<le> rc_window_seconds c"
  shows "analyze_submission_windows env s c b =
    (filter (\<lambda>t. effective_timestamp env s b - rc_window_seconds c \<le> t) (get_timestamps s b),
     length (get_timestamps s b),
     length (filter (\<lambda>t. effective_timestamp env s b - rc_window_seconds c \<le> t) (get_timestamps s b)),
     length (filter (\<lambda>t. effective_timestamp env s b - rc_burst_window_seconds c \<le> t) (get_timestamps s b)))"
  using assms by (simp add: analyze_submission_windows_def Let_def window_loop_filter diff_le_mono2)

text \<open>A submission as the contract makes it: the check before the write, the record after it.\<close>

definition rate_submit :: "ledger_env \<Rightarrow> address \<Rightarrow> rate_state \<Rightarrow> rate_state res" where
  "rate_submit env business s =
     bindr (check_rate_limit env s business) (\<lambda>s1. Inr (record_submission env s1 business))"

lemma effective_set_timestamps [simp]:
  "effective_timestamp env (set_timestamps s b ts) b' = effective_timestamp env s b'"
  by (simp add: effective_timestamp_def set_timestamps_def)

lemma enabled_set_timestamps [simp]: "enabled_config (set_timestamps s b ts) = enabled_config s"
  by (simp add: enabled_config_def get_rate_limit_config_def set_timestamps_def)

lemma get_set_timestamps [simp]:
  "get_timestamps (set_timestamps s b ts) b' = (if b' = b then ts else get_timestamps s b')"
  by (simp add: get_timestamps_def set_timestamps_def)

lemma filter_filter_le: "c \<le> (d :: nat) \<Longrightarrow> filter (\<lambda>t. d \<le> t) (filter (\<lambda>t. c \<le> t) ts) = filter (\<lambda>t. d \<le> t) ts"
  by (induction ts) auto

lemma rate_submit_Inr:
  assumes c: "enabled_config s = Some c" and v: "rc_burst_window_seconds c \<le> rc_window_seconds c"
    and sub: "rate_submit env b s = Inr s'"
  defines "now \<equiv> effective_timestamp env s b"
  shows "length (filter (\<lambda>t. now - rc_window_seconds c \<le> t) (get_timestamps s b)) < rc_max_submissions c"
    and "length (filter (\<lambda>t. now - rc_burst_window_seconds c \<le> t) (get_timestamps s b)) < rc_burst_max_submissions c"
    and "get_timestamps s' b' =
      (if b' = b then filter (\<lambda>t. now - rc_window_seconds c \<le> t) (get_timestamps s b) @ [now]
       else get_timestamps s b')"
    and "rl_high_water s' = (rl_high_water s)(b \<mapsto> now)"
    and "rl_config s' = rl_config s"
proof -
  let ?act = "filter (\<lambda>t. now - rc_window_seconds c \<le> t) (get_timestamps s b)"
  obtain s1 where s1: "check_rate_limit env s b = Inr s1" and s': "s' = record_submission env s1 b"
    using sub by (auto simp: rate_submit_def)
  show "length ?act < rc_max_submissions c"
    and "length (filter (\<lambda>t. now - rc_burst_window_seconds c \<le> t) (get_timestamps s b)) < rc_burst_max_submissions c"
    using s1 by (simp_all add: check_rate_limit_def c analyze_filter [OF v] now_def)
  consider "s1 = s" | "s1 = set_timestamps s b ?act"
    using s1 by (auto simp: check_rate_limit_def c analyze_filter [OF v] now_def Let_def split: if_splits)
  then have "get_timestamps s' b' = (if b' = b then ?act @ [now] else get_timestamps s b') \<and>
    rl_high_water s' = (rl_high_water s)(b \<mapsto> now) \<and> rl_config s' = rl_config s"
    by cases
      (simp_all add: s' record_submission_def c analyze_filter [OF v] now_def Let_def
        filter_filter_le, simp_all add: set_timestamps_def get_timestamps_def)
  then show "get_timestamps s' b' = (if b' = b then ?act @ [now] else get_timestamps s b')"
    and "rl_high_water s' = (rl_high_water s)(b \<mapsto> now)" and "rl_config s' = rl_config s" by simp_all
qed

section \<open>Windows over a history\<close>

text \<open>The effective times of the submissions of business \<open>b\<close> that a history of attempts admits.\<close>

fun admitted :: "address \<Rightarrow> (ledger_env \<times> address) list \<Rightarrow> rate_state \<Rightarrow> nat list" where
  "admitted b [] s = []"
| "admitted b ((env, b') # es) s =
     (case rate_submit env b' s of
        Inl _ \<Rightarrow> admitted b es s
      | Inr s' \<Rightarrow> (if b' = b then effective_timestamp env s b # admitted b es s' else admitted b es s'))"

text \<open>Any \<open>n + 1\<close> successive times span more than \<open>w\<close> seconds.\<close>

definition spaced :: "nat \<Rightarrow> nat \<Rightarrow> nat list \<Rightarrow> bool" where
  "spaced n w ts \<longleftrightarrow> (\<forall>i. i + n < length ts \<longrightarrow> ts ! i + w < ts ! (i + n))"

definition last_time :: "nat list \<Rightarrow> nat" where
  "last_time ts = (if ts = [] then 0 else last ts)"

definition tracks :: "rate_limit_config \<Rightarrow> address \<Rightarrow> rate_state \<Rightarrow> nat list \<Rightarrow> bool" where
  "tracks c b s ts \<longleftrightarrow>
     sorted ts \<and> enabled_config s = Some c \<and>
     rl_high_water s b = (if ts = [] then None else Some (last ts)) \<and>
     get_timestamps s b = filter (\<lambda>t. last_time ts - rc_window_seconds c \<le> t) ts \<and>
     spaced (rc_max_submissions c) (rc_window_seconds c) ts \<and>
     spaced (rc_burst_max_submissions c) (rc_burst_window_seconds c) ts"

lemma spaced_snoc:
  assumes "sorted ts" and "spaced n w ts" and few: "length (filter (\<lambda>t. now - w \<le> t) ts) < n"
  shows "spaced n w (ts @ [now])"
  unfolding spaced_def
proof (intro allI impI)
  fix i
  assume i: "i + n < length (ts @ [now])"
  show "(ts @ [now]) ! i + w < (ts @ [now]) ! (i + n)"
  proof (cases "i + n < length ts")
    case True
    with assms(2) show ?thesis by (simp add: spaced_def nth_append)
  next
    case False
    with i have n: "i + n = length ts" by simp
    with few have il: "i < length ts" by simp
    have "ts ! i + w < now"
    proof (rule ccontr)
      assume "\<not> ts ! i + w < now"
      then have "now - w \<le> ts ! i" by simp
      moreover have "ts ! i \<le> t" if "t \<in> set (drop i ts)" for t
        using that assms(1) il by (auto simp: in_set_conv_nth sorted_nth_mono)
      ultimately have "filter (\<lambda>t. now - w \<le> t) (drop i ts) = drop i ts"
        by (fastforce intro: filter_True)
      then have "length (drop i ts) \<le> length (filter (\<lambda>t. now - w \<le> t) (take i ts @ drop i ts))"
        unfolding filter_append length_append by simp
      with few n show False by simp
    qed
    with n il show ?thesis by (simp add: nth_append)
  qed
qed

lemma sorted_last: "sorted ts \<Longrightarrow> t \<in> set ts \<Longrightarrow> t \<le> last ts"
  by (cases ts rule: rev_cases) (auto simp: sorted_append)

lemma tracks_submit:
  assumes v: "valid_config c" and t: "tracks c b s ts" and sub: "rate_submit env b s = Inr s'"
  shows "tracks c b s' (ts @ [effective_timestamp env s b])"
proof -
  let ?now = "effective_timestamp env s b"
  have burst: "rc_burst_window_seconds c \<le> rc_window_seconds c" using v by (simp add: valid_config_def)
  have c: "enabled_config s = Some c" and srt: "sorted ts" using t by (simp_all add: tracks_def)
  note r = rate_submit_Inr [OF c burst sub]
  have le: "last_time ts \<le> ?now"
    using t by (auto simp: tracks_def last_time_def effective_timestamp_def)
  then have old: "t \<le> ?now" if "t \<in> set ts" for t
    using sorted_last [OF srt that] that by (cases ts) (auto simp: last_time_def split: if_splits)
  have st: "get_timestamps s b = filter (\<lambda>t. last_time ts - rc_window_seconds c \<le> t) ts"
    using t by (simp add: tracks_def)
  have f: "filter (\<lambda>t. ?now - w \<le> t) (get_timestamps s b) = filter (\<lambda>t. ?now - w \<le> t) ts"
    if "w \<le> rc_window_seconds c" for w
    unfolding st by (rule filter_filter_le) (use that le in arith)
  have "sorted (ts @ [?now])" using srt old by (simp add: sorted_append)
  moreover have "spaced (rc_max_submissions c) (rc_window_seconds c) (ts @ [?now])"
    using spaced_snoc [OF srt, of "rc_max_submissions c" "rc_window_seconds c"] r(1) t f
    by (simp add: tracks_def)
  moreover have "spaced (rc_burst_max_submissions c) (rc_burst_window_seconds c) (ts @ [?now])"
    using spaced_snoc [OF srt, of "rc_burst_max_submissions c" "rc_burst_window_seconds c"] r(2) t f [OF burst]
    by (simp add: tracks_def)
  ultimately show ?thesis
    using r(3-5) c f by (simp add: tracks_def last_time_def enabled_config_def get_rate_limit_config_def)
qed

lemma tracks_other:
  assumes "valid_config c" and "tracks c b s ts" and "rate_submit env b' s = Inr s'" and "b' \<noteq> b"
  shows "tracks c b s' ts"
proof -
  have "enabled_config s = Some c" "rc_burst_window_seconds c \<le> rc_window_seconds c"
    using assms(1,2) by (simp_all add: tracks_def valid_config_def)
  note r = rate_submit_Inr [OF this assms(3)]
  show ?thesis
    using assms(2,4) r(3-5) by (simp add: tracks_def enabled_config_def get_rate_limit_config_def)
qed

lemma tracks_admitted:
  "valid_config c \<Longrightarrow> tracks c b s ts \<Longrightarrow>
   sorted (ts @ admitted b es s) \<and>
   spaced (rc_max_submissions c) (rc_window_seconds c) (ts @ admitted b es s) \<and>
   spaced (rc_burst_max_submissions c) (rc_burst_window_seconds c) (ts @ admitted b es s)"
proof (induction es arbitrary: s ts)
  case Nil
  then show ?case by (simp add: tracks_def)
next
  case (Cons e es)
  obtain env b' where e: "e = (env, b')" by (cases e)
  show ?case
  proof (cases "rate_submit env b' s")
    case (Inl x)
    with Cons show ?thesis by (simp add: e)
  next
    case (Inr s')
    show ?thesis
    proof (cases "b' = b")
      case True
      with Cons.IH [OF Cons.prems(1) tracks_submit [OF Cons.prems, of env s']] Inr
      show ?thesis by (simp add: e)
    next
      case False
      with Cons.IH [OF Cons.prems(1) tracks_other [OF Cons.prems Inr]] Inr
      show ?thesis by (simp add: e)
    qed
  qed
qed

section \<open>Bounded storage\<close>

datatype rate_call = RConfig rate_limit_config | RSubmit ledger_env address

fun rate_step :: "rate_call \<Rightarrow> rate_state \<Rightarrow> rate_state res" where
  "rate_step (RConfig c) s = set_rate_limit_config s c"
| "rate_step (RSubmit env b) s = rate_submit env b s"

definition rate_inv :: "rate_state \<Rightarrow> bool" where
  "rate_inv s \<longleftrightarrow> (\<forall>c. rl_config s = Some c \<longrightarrow> valid_config c) \<and>
     (\<forall>b. length (get_timestamps s b) \<le> MAX_SUBMISSIONS_LIMIT)"

lemma rate_submit_off: "enabled_config s = None \<Longrightarrow> rate_submit env b s = Inr s"
  by (simp add: rate_submit_def check_rate_limit_def record_submission_def)

lemma rate_submit_inv:
  assumes inv: "rate_inv s" and sub: "rate_submit env b s = Inr s'"
  shows "rate_inv s'"
proof (cases "enabled_config s")
  case None
  with sub inv show ?thesis by (simp add: rate_submit_off)
next
  case (Some c)
  have v: "valid_config c"
    using Some inv by (auto simp: enabled_config_def get_rate_limit_config_def rate_inv_def
        split: option.splits if_splits)
  then have "rc_burst_window_seconds c \<le> rc_window_seconds c" "rc_max_submissions c \<le> MAX_SUBMISSIONS_LIMIT"
    by (simp_all add: valid_config_def)
  with rate_submit_Inr [OF Some this(1) sub] inv show ?thesis by (simp add: rate_inv_def)
qed

interpretation rate: invariant_machine "\<lambda>s. s = rate_empty" rate_step rate_inv
proof
  show "rate_inv s" if "s = rate_empty" for s
    using that by (simp add: rate_inv_def rate_empty_def get_timestamps_def)
  show "rate_inv s'" if "rate_inv s" "rate_step e s = Inr s'" for s e s'
  proof (cases e)
    case (RConfig c)
    with that show ?thesis by (auto simp: set_config_valid rate_inv_def get_timestamps_def)
  next
    case (RSubmit env b)
    with that show ?thesis by (auto intro: rate_submit_inv)
  qed
qed

section \<open>Properties\<close>

text \<open>
  Both windows hold over any history. Under a fixed valid configuration that is enabled, and for
  a business without a record yet, let any sequence of submissions by any businesses be attempted at
  any ledger times, also times that go back. The effective times of those that are admitted for the
  business never decrease, any \<open>max_submissions + 1\<close> successive ones span more than
  \<open>window_seconds\<close>, and any \<open>burst_max_submissions + 1\<close> more than \<open>burst_window_seconds\<close>.
\<close>

theorem rate_windows_hold:
  assumes "rl_config s = Some c" and "valid_config c" and "rc_enabled c"
    and "rl_stamps s b = None" and "rl_high_water s b = None"
  shows "sorted (admitted b es s) \<and>
    spaced (rc_max_submissions c) (rc_window_seconds c) (admitted b es s) \<and>
    spaced (rc_burst_max_submissions c) (rc_burst_window_seconds c) (admitted b es s)"
proof -
  have "tracks c b s []"
    using assms by (simp add: tracks_def spaced_def enabled_config_def get_rate_limit_config_def
        get_timestamps_def)
  from tracks_admitted [OF assms(2) this, of es] show ?thesis by simp
qed

text \<open>
  The timestamps kept for a business never exceed \<open>MAX_SUBMISSIONS_LIMIT\<close>, and a stored
  configuration is valid, in every state reachable by configuration changes and submissions.
\<close>

theorem rate_storage_bounded:
  assumes "reachable (\<lambda>s. s = rate_empty) rate_step s"
  shows "length (get_timestamps s b) \<le> MAX_SUBMISSIONS_LIMIT \<and>
    (\<forall>c. rl_config s = Some c \<longrightarrow> valid_config c)"
  using rate.reachable_inv [OF assms] by (simp add: rate_inv_def)

section \<open>Witnesses\<close>

definition rate_cfg2 :: rate_limit_config where
  "rate_cfg2 = \<lparr>rc_max_submissions = 2, rc_window_seconds = 100, rc_burst_max_submissions = 1,
     rc_burst_window_seconds = 10, rc_enabled = True\<rparr>"

lemma rate_cfg2_valid: "valid_config rate_cfg2"
  by (simp add: valid_config_def rate_cfg2_def MAX_SUBMISSIONS_LIMIT_def MAX_WINDOW_SECONDS_def)

lemma rate_windows_hold_witness:
  "spaced 2 100 (admitted ''BIZ'' [(env_at 5 1, ''BIZ''), (env_at 12 2, ''BIZ''), (env_at 40 3, ''BIZ''),
     (env_at 90 4, ''BIZ''), (env_at 7 5, ''BIZ''), (env_at 200 6, ''BIZ'')] (rate_empty\<lparr>rl_config := Some rate_cfg2\<rparr>))"
  using rate_windows_hold [of "rate_empty\<lparr>rl_config := Some rate_cfg2\<rparr>" rate_cfg2 "''BIZ''"
      "[(env_at 5 1, ''BIZ''), (env_at 12 2, ''BIZ''), (env_at 40 3, ''BIZ''),
        (env_at 90 4, ''BIZ''), (env_at 7 5, ''BIZ''), (env_at 200 6, ''BIZ'')]"] rate_cfg2_valid
  by (simp add: rate_empty_def) (simp add: rate_cfg2_def)

lemma rate_storage_bounded_witness:
  "length (get_timestamps (run rate_step [RConfig rate_cfg2, RSubmit (env_at 5 1) ''BIZ'',
     RSubmit (env_at 30 2) ''BIZ'', RSubmit (env_at 60 3) ''BIZ''] rate_empty) ''BIZ'') \<le> MAX_SUBMISSIONS_LIMIT"
  by (rule rate_storage_bounded [THEN conjunct1], rule reachable_run, rule reachable_start) (rule refl)

end
