(* ===== verification/Dynamic_Fees.thy ===== *)
theory Dynamic_Fees
  imports Merkle
begin

text \<open>
  \<open>contracts/attestation/src/dynamic_fees.rs\<close>: the tiered, volume-based fee, its timelocked
  configuration, the epoch counter with its per-period accumulators, and the small storage
  accessors of the attestation contract that live in the same module. Storage is the record
  \<open>fee_state\<close>, an absent key is \<open>None\<close>. The fee configuration that a protocol DAO contract returns
  is a parameter \<open>dao_config\<close> of the operations that read it. The key \<open>DataKey::Dao\<close> (\<open>fs_dao\<close>) is shared
  with the flat fees, whose \<open>FlatFeeDataKey::Dao\<close> encodes to the same key; \<open>Attestation_Admin\<close> stores both
  views of it together.
\<close>

section \<open>Data\<close>

definition MIN_TIER :: nat where "MIN_TIER = 0"
definition MAX_TIER :: nat where "MAX_TIER = 9"
definition FEE_BUCKET_WINDOW_SECONDS :: nat where "FEE_BUCKET_WINDOW_SECONDS = 86400"
definition FEE_TIMELOCK_SECONDS :: nat where "FEE_TIMELOCK_SECONDS = 86400"
definition DEFAULT_REVOKE_GRACE_SECONDS :: nat where "DEFAULT_REVOKE_GRACE_SECONDS = 86400"

record revoke_proposal =
  rvp_proposer :: address
  rvp_proposed_at :: nat
  rvp_reason :: sstring

record fee_config =
  fc_token :: address
  fc_collector :: address
  fc_base_fee :: int
  fc_enabled :: bool

record pending_fee_config =
  pf_config :: fee_config
  pf_effective_at :: nat
  pf_proposed_by :: address

record pending_staking_contract =
  ps_new_contract :: address
  ps_effective_at :: nat
  ps_proposed_by :: address

record archive_pointer =
  ap_merkle_root :: bytesn
  ap_archive_index :: nat
  ap_archived_at :: nat

record compaction_policy =
  cp_min_epochs :: nat

record fee_state =
  fs_admin :: "address option"
  fs_fee_config :: "fee_config option"
  fs_pending_fee :: "pending_fee_config option"
  fs_paused :: "bool option"
  fs_dao :: "address option"
  fs_tier_discount :: "nat \<rightharpoonup> nat"
  fs_business_tier :: "address \<rightharpoonup> nat"
  fs_business_count :: "address \<rightharpoonup> nat"
  fs_thresholds :: "nat list option"
  fs_discounts :: "nat list option"
  fs_epoch :: "nat option"
  fs_last_bucket :: "nat option"
  fs_epoch_submissions :: "sstring \<rightharpoonup> nat"
  fs_epoch_fees :: "sstring \<rightharpoonup> int"
  fs_backfill :: "nat option"
  fs_cleanup_count :: "nat \<rightharpoonup> nat"
  fs_grace :: "nat option"
  fs_proposals :: "address \<times> sstring \<rightharpoonup> revoke_proposal"
  fs_pending_staking :: "pending_staking_contract option"
  fs_archive_index :: "nat option"
  fs_archive_pointers :: "address \<times> sstring \<rightharpoonup> archive_pointer"
  fs_relayer_gas :: "address \<rightharpoonup> nat"
  fs_retention :: "compaction_policy option"
  fs_reputation :: "address option"
  fs_min_reputation :: "nat option"

definition fee_empty :: fee_state where
  "fee_empty = \<lparr>fs_admin = None, fs_fee_config = None, fs_pending_fee = None, fs_paused = None,
     fs_dao = None, fs_tier_discount = Map.empty, fs_business_tier = Map.empty,
     fs_business_count = Map.empty, fs_thresholds = None, fs_discounts = None, fs_epoch = None,
     fs_last_bucket = None, fs_epoch_submissions = Map.empty, fs_epoch_fees = Map.empty,
     fs_backfill = None, fs_cleanup_count = Map.empty, fs_grace = None, fs_proposals = Map.empty,
     fs_pending_staking = None, fs_archive_index = None, fs_archive_pointers = Map.empty,
     fs_relayer_gas = Map.empty, fs_retention = None, fs_reputation = None,
     fs_min_reputation = None\<rparr>"

section \<open>Revocation grace window\<close>

definition get_revoke_grace_seconds :: "fee_state \<Rightarrow> nat" where
  "get_revoke_grace_seconds s = unwrap_or (fs_grace s) DEFAULT_REVOKE_GRACE_SECONDS"

definition set_revoke_grace_seconds :: "fee_state \<Rightarrow> nat \<Rightarrow> fee_state" where
  "set_revoke_grace_seconds s seconds = s\<lparr>fs_grace := Some seconds\<rparr>"

definition store_revoke_proposal ::
  "fee_state \<Rightarrow> address \<Rightarrow> sstring \<Rightarrow> revoke_proposal \<Rightarrow> fee_state" where
  "store_revoke_proposal s business period p =
     s\<lparr>fs_proposals := (fs_proposals s)((business, period) \<mapsto> p)\<rparr>"

definition get_revoke_proposal :: "fee_state \<Rightarrow> address \<Rightarrow> sstring \<Rightarrow> revoke_proposal option" where
  "get_revoke_proposal s business period = fs_proposals s (business, period)"

definition remove_revoke_proposal :: "fee_state \<Rightarrow> address \<Rightarrow> sstring \<Rightarrow> fee_state" where
  "remove_revoke_proposal s business period =
     s\<lparr>fs_proposals := (fs_proposals s)((business, period) := None)\<rparr>"

section \<open>Admin, fee configuration and its timelock\<close>

definition fees_get_admin :: "fee_state \<Rightarrow> address res" where
  "fees_get_admin s = expectr (fs_admin s) ''contract not initialized''"

definition fees_require_admin :: "ledger_env \<Rightarrow> fee_state \<Rightarrow> address res" where
  "fees_require_admin env s =
     bindr (fees_get_admin s) (\<lambda>admin. bindr (require_auth env admin) (\<lambda>_. Inr admin))"

definition fees_set_admin :: "fee_state \<Rightarrow> address \<Rightarrow> fee_state" where
  "fees_set_admin s admin = s\<lparr>fs_admin := Some admin\<rparr>"

definition fees_is_initialized :: "fee_state \<Rightarrow> bool" where
  "fees_is_initialized s \<longleftrightarrow> fs_admin s \<noteq> None"

definition get_fee_config :: "fee_state \<Rightarrow> fee_config option" where
  "get_fee_config s = fs_fee_config s"

definition set_fee_config :: "fee_state \<Rightarrow> fee_config \<Rightarrow> fee_state" where
  "set_fee_config s c = s\<lparr>fs_fee_config := Some c\<rparr>"

definition set_fee_enabled :: "fee_state \<Rightarrow> bool \<Rightarrow> fee_state" where
  "set_fee_enabled s en =
     (case get_fee_config s of
        Some c \<Rightarrow> set_fee_config s (c\<lparr>fc_enabled := en\<rparr>)
      | None \<Rightarrow> s)"

definition get_pending_fee_config :: "fee_state \<Rightarrow> pending_fee_config option" where
  "get_pending_fee_config s = fs_pending_fee s"

definition set_pending_fee_config :: "fee_state \<Rightarrow> pending_fee_config \<Rightarrow> fee_state" where
  "set_pending_fee_config s p = s\<lparr>fs_pending_fee := Some p\<rparr>"

definition clear_pending_fee_config :: "fee_state \<Rightarrow> fee_state" where
  "clear_pending_fee_config s = s\<lparr>fs_pending_fee := None\<rparr>"

definition check_and_apply_pending_fee_config :: "ledger_env \<Rightarrow> fee_state \<Rightarrow> bool \<times> fee_state" where
  "check_and_apply_pending_fee_config env s =
     (case get_pending_fee_config s of
        Some p \<Rightarrow>
          (if pf_effective_at p \<le> timestamp env
           then (True, clear_pending_fee_config (set_fee_config s (pf_config p)))
           else (False, s))
      | None \<Rightarrow> (False, s))"

definition fees_set_paused :: "fee_state \<Rightarrow> bool \<Rightarrow> fee_state" where
  "fees_set_paused s paused = s\<lparr>fs_paused := Some paused\<rparr>"

definition fees_is_paused :: "fee_state \<Rightarrow> bool" where
  "fees_is_paused s = unwrap_or (fs_paused s) False"

definition fees_set_dao :: "fee_state \<Rightarrow> address \<Rightarrow> fee_state" where
  "fees_set_dao s dao = s\<lparr>fs_dao := Some dao\<rparr>"

definition get_dao :: "fee_state \<Rightarrow> address option" where
  "get_dao s = fs_dao s"

section \<open>Tiers and volume brackets\<close>

definition get_tier_discount :: "fee_state \<Rightarrow> nat \<Rightarrow> nat" where
  "get_tier_discount s tier = unwrap_or (fs_tier_discount s tier) 0"

definition set_tier_discount :: "fee_state \<Rightarrow> nat \<Rightarrow> nat \<Rightarrow> fee_state res" where
  "set_tier_discount s tier discount_bps =
     bindr (assertr (tier \<le> MAX_TIER) ''tier exceeds MAX_TIER'') (\<lambda>_.
     bindr (assertr (discount_bps \<le> 10000) ''discount cannot exceed 10 000 bps'') (\<lambda>_.
     Inr (s\<lparr>fs_tier_discount := (fs_tier_discount s)(tier \<mapsto> discount_bps)\<rparr>)))"

definition get_business_tier :: "fee_state \<Rightarrow> address \<Rightarrow> nat" where
  "get_business_tier s business = unwrap_or (fs_business_tier s business) 0"

definition set_business_tier :: "fee_state \<Rightarrow> address \<Rightarrow> nat \<Rightarrow> fee_state res" where
  "set_business_tier s business tier =
     bindr (assertr (tier \<le> MAX_TIER) ''tier exceeds MAX_TIER'') (\<lambda>_.
     Inr (s\<lparr>fs_business_tier := (fs_business_tier s)(business \<mapsto> tier)\<rparr>))"

definition get_business_count :: "fee_state \<Rightarrow> address \<Rightarrow> nat" where
  "get_business_count s business = unwrap_or (fs_business_count s business) 0"

definition increment_business_count :: "fee_state \<Rightarrow> address \<Rightarrow> (nat \<times> fee_state) res" where
  "increment_business_count s business =
     bindr (u64_chk (get_business_count s business + 1)) (\<lambda>count.
     Inr (count, s\<lparr>fs_business_count := (fs_business_count s)(business \<mapsto> count)\<rparr>))"

definition get_volume_thresholds :: "fee_state \<Rightarrow> nat list" where
  "get_volume_thresholds s = unwrap_or (fs_thresholds s) []"

definition get_volume_discounts_vec :: "fee_state \<Rightarrow> nat list" where
  "get_volume_discounts_vec s = unwrap_or (fs_discounts s) []"

text \<open>The two validation loops of \<open>set_volume_brackets\<close>.\<close>

fun ascending_from :: "nat list \<Rightarrow> bool" where
  "ascending_from (x # y # zs) \<longleftrightarrow> x < y \<and> ascending_from (y # zs)"
| "ascending_from _ \<longleftrightarrow> True"

definition set_volume_brackets :: "fee_state \<Rightarrow> nat list \<Rightarrow> nat list \<Rightarrow> fee_state res" where
  "set_volume_brackets s thresholds discounts =
     bindr (assertr (length thresholds = length discounts) ''thresholds and discounts must have equal length'') (\<lambda>_.
     bindr (assertr (ascending_from thresholds) ''thresholds must be strictly ascending'') (\<lambda>_.
     bindr (assertr (list_all (\<lambda>d. d \<le> 10000) discounts) ''discount cannot exceed 10 000 bps'') (\<lambda>_.
     Inr (s\<lparr>fs_thresholds := Some thresholds, fs_discounts := Some discounts\<rparr>))))"

section \<open>The fee\<close>

text \<open>The backwards walk \<open>while i > 0\<close>; reading past the end of \<open>discounts\<close> is \<open>unwrap\<close> of \<open>None\<close>.\<close>

fun bracket_walk :: "nat \<Rightarrow> nat list \<Rightarrow> nat list \<Rightarrow> nat \<Rightarrow> nat res" where
  "bracket_walk count thresholds discounts 0 = Inr 0"
| "bracket_walk count thresholds discounts (Suc i) =
     (if thresholds ! i \<le> count
      then (if i < length discounts then Inr (discounts ! i) else Inl UnwrapNone)
      else bracket_walk count thresholds discounts i)"

definition volume_discount_for_count :: "fee_state \<Rightarrow> nat \<Rightarrow> nat res" where
  "volume_discount_for_count s count =
     (let thresholds = get_volume_thresholds s; discounts = get_volume_discounts_vec s in
      if length thresholds = 0 then Inr 0
      else bracket_walk count thresholds discounts (length thresholds))"

definition checked_mul :: "int \<Rightarrow> int \<Rightarrow> int option" where
  "checked_mul a b = (if in_i128 (a * b) then Some (a * b) else None)"

definition compute_fee :: "int \<Rightarrow> nat \<Rightarrow> nat \<Rightarrow> int res" where
  "compute_fee base_fee tier_discount_bps volume_discount_bps =
     bindr (assertr (0 \<le> base_fee) ''base_fee must be non-negative'') (\<lambda>_.
     (let tier_factor = 10000 - int tier_discount_bps;
          vol_factor = 10000 - int volume_discount_bps in
      bindr (expectr (checked_mul base_fee tier_factor) ''fee overflow: base_fee * tier_factor'') (\<lambda>p1.
      bindr (expectr (checked_mul p1 vol_factor) ''fee overflow: base_fee * tier_factor * vol_factor'') (\<lambda>product.
      (let fee = trunc_div product 100000000 in
      bindr (assertr (0 \<le> fee) ''fee must be non-negative'') (\<lambda>_.
      bindr (assertr (fee \<le> base_fee) ''fee exceeds base_fee'') (\<lambda>_.
      Inr fee)))))))"

text \<open>The DAO contract: \<open>get_attestation_fee_config\<close> of the contract at an address, or a failed call.\<close>

type_synonym dao_call = "address \<Rightarrow> (address \<times> address \<times> int \<times> bool) option res"

definition get_fee_config_from_dao :: "dao_call \<Rightarrow> fee_state \<Rightarrow> fee_config option res" where
  "get_fee_config_from_dao dao_config s =
     (case get_dao s of
        None \<Rightarrow> Inr None
      | Some dao \<Rightarrow> bindr (dao_config dao) (\<lambda>opt.
          Inr (map_option (\<lambda>(token, collector, base_fee, enabled).
                 \<lparr>fc_token = token, fc_collector = collector, fc_base_fee = base_fee,
                  fc_enabled = enabled\<rparr>) opt)))"

definition get_effective_fee_config :: "dao_call \<Rightarrow> fee_state \<Rightarrow> fee_config option res" where
  "get_effective_fee_config dao_config s =
     bindr (get_fee_config_from_dao dao_config s) (\<lambda>opt.
     Inr (case opt of Some c \<Rightarrow> Some c | None \<Rightarrow> get_fee_config s))"

definition calculate_fee :: "dao_call \<Rightarrow> fee_state \<Rightarrow> address \<Rightarrow> int res" where
  "calculate_fee dao_config s business =
     bindr (get_effective_fee_config dao_config s) (\<lambda>opt.
     case opt of
       None \<Rightarrow> Inr 0
     | Some c \<Rightarrow>
         (if fc_enabled c
          then (let tier_disc = get_tier_discount s (get_business_tier s business) in
                bindr (volume_discount_for_count s (get_business_count s business)) (\<lambda>vol_disc.
                compute_fee (fc_base_fee c) tier_disc vol_disc))
          else Inr 0))"

definition collect_fee_from ::
  "'w token_ops \<Rightarrow> dao_call \<Rightarrow> fee_state \<Rightarrow> address \<Rightarrow> address \<Rightarrow> 'w \<Rightarrow> (int \<times> 'w) res" where
  "collect_fee_from T dao_config s payer business w =
     bindr (calculate_fee dao_config s business) (\<lambda>fee.
     if 0 < fee
     then bindr (get_effective_fee_config dao_config s) (\<lambda>opt.
          bindr (unwrapr opt) (\<lambda>c.
          bindr (transferr T (fc_token c) payer (fc_collector c) fee w) (\<lambda>w1.
          Inr (fee, w1))))
     else Inr (fee, w))"

definition collect_fee :: "'w token_ops \<Rightarrow> dao_call \<Rightarrow> fee_state \<Rightarrow> address \<Rightarrow> 'w \<Rightarrow> (int \<times> 'w) res" where
  "collect_fee T dao_config s business w = collect_fee_from T dao_config s business business w"

section \<open>Epochs and accumulators\<close>

definition get_epoch :: "fee_state \<Rightarrow> nat" where
  "get_epoch s = unwrap_or (fs_epoch s) 0"

definition get_cleanup_count_for_epoch :: "fee_state \<Rightarrow> nat \<Rightarrow> nat" where
  "get_cleanup_count_for_epoch s epoch = unwrap_or (fs_cleanup_count s epoch) 0"

definition increment_cleanup_count :: "fee_state \<Rightarrow> fee_state" where
  "increment_cleanup_count s =
     (let epoch = get_epoch s; nxt = u64_sat (get_cleanup_count_for_epoch s epoch + 1) in
      s\<lparr>fs_cleanup_count := (fs_cleanup_count s)(epoch \<mapsto> nxt)\<rparr>)"

definition advance_epoch :: "fee_state \<Rightarrow> fee_state res" where
  "advance_epoch s = bindr (u64_chk (get_epoch s + 1)) (\<lambda>e. Inr (s\<lparr>fs_epoch := Some e\<rparr>))"

fun advance_times :: "nat \<Rightarrow> fee_state \<Rightarrow> fee_state res" where
  "advance_times 0 s = Inr s"
| "advance_times (Suc n) s = bindr (advance_epoch s) (advance_times n)"

definition handle_epoch_rollover :: "ledger_env \<Rightarrow> fee_state \<Rightarrow> fee_state res" where
  "handle_epoch_rollover env s =
     (let current_bucket = timestamp env div FEE_BUCKET_WINDOW_SECONDS in
      bindr (case fs_last_bucket s of
               None \<Rightarrow> advance_epoch s
             | Some last_bucket \<Rightarrow>
                 (if last_bucket < current_bucket then advance_times (current_bucket - last_bucket) s
                  else Inr s)) (\<lambda>s1.
      Inr (s1\<lparr>fs_last_bucket := Some current_bucket\<rparr>)))"

definition increment_epoch_submissions :: "fee_state \<Rightarrow> sstring \<Rightarrow> nat \<Rightarrow> nat \<times> fee_state" where
  "increment_epoch_submissions s period delta =
     (let nxt = u64_sat (unwrap_or (fs_epoch_submissions s period) 0 + delta) in
      (nxt, s\<lparr>fs_epoch_submissions := (fs_epoch_submissions s)(period \<mapsto> nxt)\<rparr>))"

definition accumulate_epoch_fees :: "fee_state \<Rightarrow> sstring \<Rightarrow> int \<Rightarrow> int \<times> fee_state" where
  "accumulate_epoch_fees s period fee =
     (let nxt = i128_sat (unwrap_or (fs_epoch_fees s period) 0 + fee) in
      (nxt, s\<lparr>fs_epoch_fees := (fs_epoch_fees s)(period \<mapsto> nxt)\<rparr>))"

definition increment_backfill_count :: "fee_state \<Rightarrow> nat \<times> fee_state" where
  "increment_backfill_count s =
     (let nxt = u64_sat (unwrap_or (fs_backfill s) 0 + 1) in (nxt, s\<lparr>fs_backfill := Some nxt\<rparr>))"

section \<open>Staking contract proposal, archive, relayers, compaction, reputation\<close>

definition get_pending_staking_contract :: "fee_state \<Rightarrow> pending_staking_contract option" where
  "get_pending_staking_contract s = fs_pending_staking s"

definition set_pending_staking_contract :: "fee_state \<Rightarrow> pending_staking_contract \<Rightarrow> fee_state" where
  "set_pending_staking_contract s p = s\<lparr>fs_pending_staking := Some p\<rparr>"

definition clear_pending_staking_contract :: "fee_state \<Rightarrow> fee_state" where
  "clear_pending_staking_contract s = s\<lparr>fs_pending_staking := None\<rparr>"

definition get_archive_index :: "fee_state \<Rightarrow> nat" where
  "get_archive_index s = unwrap_or (fs_archive_index s) 0"

definition next_archive_index :: "fee_state \<Rightarrow> (nat \<times> fee_state) res" where
  "next_archive_index s =
     bindr (u64_chk (get_archive_index s + 1)) (\<lambda>nxt. Inr (nxt, s\<lparr>fs_archive_index := Some nxt\<rparr>))"

definition set_archive_pointer :: "fee_state \<Rightarrow> address \<Rightarrow> sstring \<Rightarrow> archive_pointer \<Rightarrow> fee_state" where
  "set_archive_pointer s business period p =
     s\<lparr>fs_archive_pointers := (fs_archive_pointers s)((business, period) \<mapsto> p)\<rparr>"

definition get_archive_pointer :: "fee_state \<Rightarrow> address \<Rightarrow> sstring \<Rightarrow> archive_pointer option" where
  "get_archive_pointer s business period = fs_archive_pointers s (business, period)"

definition get_relayer_gas :: "fee_state \<Rightarrow> address \<Rightarrow> nat" where
  "get_relayer_gas s relayer = unwrap_or (fs_relayer_gas s relayer) 0"

definition add_relayer_gas :: "fee_state \<Rightarrow> address \<Rightarrow> nat \<Rightarrow> fee_state" where
  "add_relayer_gas s relayer gas =
     s\<lparr>fs_relayer_gas := (fs_relayer_gas s)(relayer \<mapsto> u64_sat (get_relayer_gas s relayer + gas))\<rparr>"

definition get_compaction_retention :: "fee_state \<Rightarrow> compaction_policy option" where
  "get_compaction_retention s = fs_retention s"

definition set_compaction_retention :: "fee_state \<Rightarrow> compaction_policy \<Rightarrow> fee_state" where
  "set_compaction_retention s p = s\<lparr>fs_retention := Some p\<rparr>"

definition clear_compaction_retention :: "fee_state \<Rightarrow> fee_state" where
  "clear_compaction_retention s = s\<lparr>fs_retention := None\<rparr>"

definition get_reputation_contract :: "fee_state \<Rightarrow> address option" where
  "get_reputation_contract s = fs_reputation s"

definition set_reputation_contract :: "fee_state \<Rightarrow> address \<Rightarrow> fee_state" where
  "set_reputation_contract s contract = s\<lparr>fs_reputation := Some contract\<rparr>"

definition clear_reputation_contract :: "fee_state \<Rightarrow> fee_state" where
  "clear_reputation_contract s = s\<lparr>fs_reputation := None\<rparr>"

definition get_min_reputation :: "fee_state \<Rightarrow> nat" where
  "get_min_reputation s = unwrap_or (fs_min_reputation s) 0"

definition set_min_reputation :: "fee_state \<Rightarrow> nat \<Rightarrow> fee_state" where
  "set_min_reputation s min_score = s\<lparr>fs_min_reputation := Some min_score\<rparr>"

section \<open>Brackets\<close>

text \<open>The reference: the discount of the last bracket whose threshold the count has reached.\<close>

definition bracket_discount :: "nat \<Rightarrow> nat list \<Rightarrow> nat list \<Rightarrow> nat" where
  "bracket_discount count ths ds =
     (let reached = filter (\<lambda>(t, d). t \<le> count) (zip ths ds) in
      if reached = [] then 0 else snd (last reached))"

lemma ascending_sorted: "ascending_from xs \<longleftrightarrow> sorted_wrt (<) xs"
proof (induction xs rule: ascending_from.induct)
  case (1 x y zs)
  then show ?case by (auto intro: less_trans)
qed auto

lemma bracket_walk_last:
  assumes "length ths = length ds" and "i \<le> length ths"
  shows "bracket_walk count ths ds i = Inr (bracket_discount count (take i ths) (take i ds))"
  using assms(2)
proof (induction i)
  case 0
  then show ?case by (simp add: bracket_discount_def)
next
  case (Suc i)
  then have "take (Suc i) ths = take i ths @ [ths ! i]" "take (Suc i) ds = take i ds @ [ds ! i]"
    using assms(1) by (simp_all add: take_Suc_conv_app_nth)
  moreover have "length (take i ths) = length (take i ds)" using assms(1) by simp
  ultimately show ?case
    using Suc assms(1)
    by (simp add: bracket_discount_def Let_def)
qed

section \<open>The invariant of the fee schedule\<close>

definition fees_ok :: "fee_state \<Rightarrow> bool" where
  "fees_ok s \<longleftrightarrow>
     (\<forall>t d. fs_tier_discount s t = Some d \<longrightarrow> t \<le> MAX_TIER \<and> d \<le> 10000) \<and>
     (\<forall>b t. fs_business_tier s b = Some t \<longrightarrow> t \<le> MAX_TIER) \<and>
     sorted_wrt (<) (get_volume_thresholds s) \<and>
     length (get_volume_thresholds s) = length (get_volume_discounts_vec s) \<and>
     (\<forall>d\<in>set (get_volume_discounts_vec s). d \<le> 10000)"

lemma tier_discount_le: "fees_ok s \<Longrightarrow> get_tier_discount s t \<le> 10000"
  by (cases "fs_tier_discount s t") (auto simp: fees_ok_def get_tier_discount_def)

lemma volume_discount_exact:
  "fees_ok s \<Longrightarrow> volume_discount_for_count s count =
     Inr (bracket_discount count (get_volume_thresholds s) (get_volume_discounts_vec s))"
  using bracket_walk_last [of "get_volume_thresholds s" "get_volume_discounts_vec s" "length (get_volume_thresholds s)" count]
  by (auto simp: fees_ok_def volume_discount_for_count_def Let_def bracket_discount_def)

lemma bracket_discount_le: "(\<forall>d\<in>set ds. d \<le> 10000) \<Longrightarrow> bracket_discount count ths ds \<le> 10000"
proof -
  assume d: "\<forall>d\<in>set ds. d \<le> 10000"
  let ?f = "filter (\<lambda>(t, d). t \<le> count) (zip ths ds)"
  have "snd (last ?f) \<le> 10000" if "?f \<noteq> []"
  proof -
    have "last ?f \<in> set (zip ths ds)"
      by (rule subsetD [OF filter_is_subset last_in_set [OF that]])
    moreover obtain x y where "last ?f = (x, y)" by (cases "last ?f")
    ultimately have "snd (last ?f) \<in> set ds" by (simp add: set_zip_rightD)
    with d show ?thesis by blast
  qed
  then show ?thesis by (simp add: bracket_discount_def Let_def)
qed

datatype fee_call =
    FTierDiscount nat nat
  | FBusinessTier address nat
  | FBrackets "nat list" "nat list"
  | FCount address
  | FConfig fee_config
  | FEnabled bool
  | FDao address
  | FEpoch ledger_env

fun fee_step :: "fee_call \<Rightarrow> fee_state \<Rightarrow> fee_state res" where
  "fee_step (FTierDiscount t d) s = set_tier_discount s t d"
| "fee_step (FBusinessTier b t) s = set_business_tier s b t"
| "fee_step (FBrackets ths ds) s = set_volume_brackets s ths ds"
| "fee_step (FCount b) s = bindr (increment_business_count s b) (\<lambda>(n, s'). Inr s')"
| "fee_step (FConfig c) s = Inr (set_fee_config s c)"
| "fee_step (FEnabled en) s = Inr (set_fee_enabled s en)"
| "fee_step (FDao d) s = Inr (fees_set_dao s d)"
| "fee_step (FEpoch env) s = handle_epoch_rollover env s"

lemma advance_times_state: "advance_times n s = Inr s' \<Longrightarrow> n \<noteq> 0 \<Longrightarrow> s' = s\<lparr>fs_epoch := Some (get_epoch s + n)\<rparr>"
proof (induction n arbitrary: s)
  case 0
  then show ?case by simp
next
  case (Suc n)
  obtain s1 where "advance_epoch s = Inr s1" "advance_times n s1 = Inr s'" using Suc.prems(1) by auto
  with Suc.IH [of s1] show ?case by (cases n) (auto simp: advance_epoch_def get_epoch_def)
qed

lemma advance_times_total:
  "get_epoch s + n \<le> u64_max \<Longrightarrow> \<exists>s'. advance_times n s = Inr s' \<and> get_epoch s' = get_epoch s + n"
proof (induction n arbitrary: s)
  case 0
  then show ?case by simp
next
  case (Suc n)
  let ?s = "s\<lparr>fs_epoch := Some (get_epoch s + 1)\<rparr>"
  have e: "get_epoch ?s = get_epoch s + 1" by (simp add: get_epoch_def)
  then obtain s' where "advance_times n ?s = Inr s'" "get_epoch s' = get_epoch s + 1 + n"
    using Suc.IH [of ?s] Suc.prems by auto
  with Suc.prems show ?case by (simp add: advance_epoch_def)
qed

lemma rollover_frame:
  assumes "handle_epoch_rollover env s = Inr s'"
  shows "\<exists>e b. s' = s\<lparr>fs_epoch := e, fs_last_bucket := b\<rparr>"
proof -
  let ?b = "timestamp env div FEE_BUCKET_WINDOW_SECONDS"
  have adv: "\<exists>e. s1 = s\<lparr>fs_epoch := e\<rparr>" if "advance_times n s = Inr s1" for n s1
    using that advance_times_state [OF that] by (cases n) (auto intro: exI [of _ "fs_epoch s"])
  obtain n s1 where "advance_times n s = Inr s1" "s' = s1\<lparr>fs_last_bucket := Some ?b\<rparr>"
  proof (cases "fs_last_bucket s")
    case None
    with assms show ?thesis
      using that [of 1] by (auto simp: handle_epoch_rollover_def Let_def)
  next
    case (Some l)
    with assms show ?thesis
      using that [of "?b - l"] by (auto simp: handle_epoch_rollover_def Let_def split: if_splits)
  qed
  with adv show ?thesis by blast
qed

lemma fees_ok_frame:
  "fs_tier_discount s' = fs_tier_discount s \<Longrightarrow> fs_business_tier s' = fs_business_tier s \<Longrightarrow>
   fs_thresholds s' = fs_thresholds s \<Longrightarrow> fs_discounts s' = fs_discounts s \<Longrightarrow> fees_ok s' = fees_ok s"
  by (simp add: fees_ok_def get_volume_thresholds_def get_volume_discounts_vec_def)

lemma fee_step_ok: "fees_ok s \<Longrightarrow> fee_step c s = Inr s' \<Longrightarrow> fees_ok s'"
proof (cases c)
  case (FEpoch env)
  assume ok: "fees_ok s" and "fee_step c s = Inr s'"
  with FEpoch have "handle_epoch_rollover env s = Inr s'" by simp
  from rollover_frame [OF this] have "fees_ok s' = fees_ok s"
    by (intro fees_ok_frame) auto
  with ok show ?thesis by simp
qed (auto simp: set_tier_discount_def set_business_tier_def set_volume_brackets_def
    increment_business_count_def set_fee_config_def set_fee_enabled_def fees_set_dao_def get_fee_config_def
    fees_ok_def get_volume_thresholds_def get_volume_discounts_vec_def ascending_sorted list_all_iff
    split: if_splits option.splits)

interpretation fees: invariant_machine "\<lambda>s. s = fee_empty" fee_step fees_ok
proof
  show "fees_ok s" if "s = fee_empty" for s
    using that by (simp add: fees_ok_def fee_empty_def get_volume_thresholds_def get_volume_discounts_vec_def)
  show "fees_ok s'" if "fees_ok s" "fee_step e s = Inr s'" for s e s'
    using that by (rule fee_step_ok)
qed

section \<open>Computing the fee\<close>

lemma fee_floor_le:
  assumes "0 \<le> (base :: int)" and "0 \<le> a" "a \<le> 10000" "0 \<le> b" "b \<le> 10000"
  shows "0 \<le> base * a * b" and "base * a * b \<le> base * 100000000" and "base * a \<le> base * 10000"
proof -
  show ba: "base * a \<le> base * 10000" using assms by (intro mult_left_mono) auto
  show "0 \<le> base * a * b" using assms by simp
  have "base * a * b \<le> base * 10000 * 10000"
    using ba assms by (intro mult_mono) auto
  then show "base * a * b \<le> base * 100000000" by simp
qed

lemma compute_fee_value:
  assumes "t \<le> 10000" and "v \<le> 10000" and "0 \<le> base" and "base * 100000000 \<le> i128_max"
  shows "compute_fee base t v = Inr (base * (10000 - int t) * (10000 - int v) div 100000000)"
proof -
  let ?a = "10000 - int t" and ?b = "10000 - int v"
  have ab: "0 \<le> ?a" "?a \<le> 10000" "0 \<le> ?b" "?b \<le> 10000" using assms(1,2) by simp_all
  note le = fee_floor_le [OF assms(3) ab]
  have "in_i128 (base * ?a)" "in_i128 (base * ?a * ?b)"
    using le ab assms(3,4) by (simp_all add: i128_nonneg)
  moreover have "base * ?a * ?b div 100000000 \<le> base" "0 \<le> base * ?a * ?b div 100000000"
    using le by simp_all
  ultimately show ?thesis
    using assms(3) le(1) by (simp add: compute_fee_def Let_def checked_mul_def trunc_div_nonneg)
qed

section \<open>Properties\<close>

text \<open>
  The fee arithmetic. For discounts of at most 10 000 bps and a non-negative base fee whose
  product with \<open>10^8\<close> fits an \<open>i128\<close>, \<open>compute_fee\<close> never panics and returns the base fee times both
  remaining fractions, rounded down; the result lies between 0 and the base fee, does not depend on
  the order of the discounts, and falls (weakly) when either discount rises.
\<close>

theorem compute_fee_exact:
  assumes "t \<le> 10000" and "v \<le> 10000" and "0 \<le> base" and "base * 100000000 \<le> i128_max"
  shows "\<exists>fee. compute_fee base t v = Inr fee \<and>
    fee = base * (10000 - int t) * (10000 - int v) div 100000000 \<and> 0 \<le> fee \<and> fee \<le> base \<and>
    compute_fee base v t = Inr fee \<and>
    (\<forall>t'\<in>{t..10000}. \<exists>fee'. compute_fee base t' v = Inr fee' \<and> fee' \<le> fee)"
proof -
  let ?f = "\<lambda>t. base * (10000 - int t) * (10000 - int v) div 100000000"
  have ab: "0 \<le> 10000 - int t" "10000 - int t \<le> 10000" "0 \<le> 10000 - int v" "10000 - int v \<le> 10000"
    using assms(1,2) by simp_all
  note le = fee_floor_le [OF assms(3) ab]
  have "?f t' \<le> ?f t" if "t' \<in> {t..10000}" for t'
  proof (rule zdiv_mono1)
    show "base * (10000 - int t') * (10000 - int v) \<le> base * (10000 - int t) * (10000 - int v)"
      using that ab assms(3) by (intro mult_right_mono mult_left_mono) auto
  qed simp
  moreover have "0 \<le> ?f t" "?f t \<le> base" using le by simp_all
  moreover have comm: "base * (10000 - int v) * (10000 - int t) = base * (10000 - int t) * (10000 - int v)"
    by (rule mult.commute [THEN trans]) (simp only: ac_simps)
  have "compute_fee base v t = Inr (?f t)"
    using compute_fee_value [OF assms(2,1,3,4)] unfolding comm .
  moreover have "compute_fee base t' v = Inr (?f t')" if "t' \<in> {t..10000}" for t'
    using that assms by (intro compute_fee_value) simp_all
  ultimately show ?thesis
    using assms(1) by fastforce
qed

text \<open>
  In every state that configuration, counting and epochs reach, the fee of a business is the
  floor of the effective base fee times the remaining fractions of its tier discount and of the
  discount of the last volume bracket that its count has reached (0 below the first one). It never
  panics on the stored schedule, and it is 0 when fees are off.
\<close>

theorem calculate_fee_exact:
  assumes "reachable (\<lambda>s. s = fee_empty) fee_step s"
    and "get_effective_fee_config dao_config s = Inr opt"
    and "\<forall>c. opt = Some c \<longrightarrow> 0 \<le> fc_base_fee c \<and> fc_base_fee c * 100000000 \<le> i128_max"
  shows "calculate_fee dao_config s b = Inr
    (case opt of
       None \<Rightarrow> 0
     | Some c \<Rightarrow>
         (if fc_enabled c
          then fc_base_fee c * (10000 - int (get_tier_discount s (get_business_tier s b))) *
            (10000 - int (bracket_discount (get_business_count s b) (get_volume_thresholds s)
               (get_volume_discounts_vec s))) div 100000000
          else 0))"
proof -
  have ok: "fees_ok s" using assms(1) by (rule fees.reachable_inv)
  have "bracket_discount (get_business_count s b) (get_volume_thresholds s) (get_volume_discounts_vec s) \<le> 10000"
    using ok by (intro bracket_discount_le) (simp add: fees_ok_def)
  with assms(2,3) tier_discount_le [OF ok] volume_discount_exact [OF ok] show ?thesis
    by (cases opt) (auto simp: calculate_fee_def compute_fee_value)
qed

text \<open>
  Collecting a fee over SEP-41 moves exactly the returned amount from the payer to the collector
  of the effective configuration, or nothing at all when the fee is 0; no other balance changes.
\<close>

theorem collect_fee_moves_fee:
  assumes "sep41 T" and "collect_fee_from T dao_config s payer business w = Inr (fee, w')"
  shows "calculate_fee dao_config s business = Inr fee \<and>
    (if 0 < fee
     then \<exists>c. get_effective_fee_config dao_config s = Inr (Some c) \<and>
       (\<forall>t a. tok_balance T t a w' = tok_balance T t a w +
          (if t = fc_token c then moved payer (fc_collector c) fee a else 0))
     else w' = w)"
proof -
  have fee: "calculate_fee dao_config s business = Inr fee"
    using assms(2) by (auto simp: collect_fee_from_def split: if_splits)
  show ?thesis
  proof (cases "0 < fee")
    case True
    then obtain c where "get_effective_fee_config dao_config s = Inr (Some c)"
      "tok_transfer T (fc_token c) payer (fc_collector c) fee w = Some w'"
      using assms(2) fee by (auto simp: collect_fee_from_def)
    with fee True sep41_transfer [OF assms(1) this(2)] show ?thesis by auto
  next
    case False
    with assms(2) fee show ?thesis by (auto simp: collect_fee_from_def)
  qed
qed

text \<open>
  The epoch counts windows. After any non-empty sequence of submissions at non-decreasing ledger
  times, the first one on a fresh contract, the epoch is one more than the number of fee windows
  between the first and the last time, however many windows a gap skips, and the counter never
  overflows.
\<close>

theorem epoch_counts_windows:
  assumes "sorted (map timestamp (env # envs))" and "\<forall>e\<in>set (env # envs). timestamp e \<le> u64_max"
    and "fs_epoch s = None" and "fs_last_bucket s = None"
  shows "get_epoch (run handle_epoch_rollover (env # envs) s) =
    1 + (timestamp (last (env # envs)) div FEE_BUCKET_WINDOW_SECONDS - timestamp env div FEE_BUCKET_WINDOW_SECONDS)"
proof -
  let ?b = "\<lambda>e. timestamp e div FEE_BUCKET_WINDOW_SECONDS"
  have mono: "?b e \<le> ?b e'" if "timestamp e \<le> timestamp e'" for e e'
    using that by (rule div_le_mono)
  have "fs_last_bucket (run handle_epoch_rollover (env # envs) s) = Some (?b (last (env # envs))) \<and>
    get_epoch (run handle_epoch_rollover (env # envs) s) = 1 + (?b (last (env # envs)) - ?b env)"
    using assms(1,2)
  proof (induction envs rule: rev_induct)
    case Nil
    then show ?case
      using assms(3,4) by (simp add: exec_def handle_epoch_rollover_def advance_epoch_def Let_def get_epoch_def u64_max_def)
  next
    case (snoc e es)
    let ?s = "run handle_epoch_rollover (env # es) s" and ?l = "last (env # es)"
    have l: "timestamp ?l \<le> timestamp e" "timestamp env \<le> timestamp ?l" "timestamp e \<le> u64_max"
      using snoc.prems by (auto simp: sorted_append)
    have ih: "fs_last_bucket ?s = Some (?b ?l)" "get_epoch ?s = 1 + (?b ?l - ?b env)"
      using snoc by (auto simp: sorted_append)
    have bl: "?b ?l \<le> ?b e" "?b env \<le> ?b ?l" using mono l by blast+
    have "?b e \<le> u64_max div FEE_BUCKET_WINDOW_SECONDS" using l(3) by (rule div_le_mono)
    then have "1 + ?b e \<le> u64_max" by (simp add: u64_max_def FEE_BUCKET_WINDOW_SECONDS_def)
    moreover have "get_epoch ?s + (?b e - ?b ?l) \<le> 1 + ?b e" unfolding ih(2) using bl by arith
    ultimately have "get_epoch ?s + (?b e - ?b ?l) \<le> u64_max" by (rule order.trans [rotated])
    from advance_times_total [OF this] obtain s' where s': "advance_times (?b e - ?b ?l) ?s = Inr s'"
      "get_epoch s' = get_epoch ?s + (?b e - ?b ?l)" by blast
    have "handle_epoch_rollover e ?s = Inr (s'\<lparr>fs_last_bucket := Some (?b e)\<rparr>)"
      using s'(1) bl ih(1) by (cases "?b ?l < ?b e") (auto simp: handle_epoch_rollover_def Let_def)
    moreover have "run handle_epoch_rollover (env # es @ [e]) s = exec handle_epoch_rollover e ?s"
      using run_append [of handle_epoch_rollover "env # es" "[e]" s] by simp
    ultimately show ?case
      using s'(2) ih(2) bl by (simp add: get_epoch_def)
  qed
  then show ?thesis by blast
qed

section \<open>Witnesses\<close>

lemma compute_fee_exact_witness:
  "\<exists>fee. compute_fee 1000 2000 500 = Inr fee \<and> fee = 760"
  using compute_fee_exact [of 2000 500 1000] by (auto simp: i128_max_def)

definition fee_cfg :: fee_config where
  "fee_cfg = \<lparr>fc_token = ''USDC'', fc_collector = ''COLLECTOR'', fc_base_fee = 1000, fc_enabled = True\<rparr>"

definition fee_calls :: "fee_call list" where
  "fee_calls = [FConfig fee_cfg, FTierDiscount 1 2000, FBusinessTier ''BIZ'' 1,
     FBrackets [1, 3] [500, 1000], FCount ''BIZ'', FCount ''BIZ'']"

definition fee_demo :: fee_state where
  "fee_demo = fee_empty\<lparr>fs_fee_config := Some fee_cfg, fs_tier_discount := [1 \<mapsto> 2000],
     fs_business_tier := [''BIZ'' \<mapsto> 1], fs_thresholds := Some [1, 3], fs_discounts := Some [500, 1000],
     fs_business_count := [''BIZ'' \<mapsto> 2]\<rparr>"

lemma fee_demo_run: "run fee_step fee_calls fee_empty = fee_demo"
  by (simp add: fee_calls_def fee_demo_def fee_empty_def exec_def set_fee_config_def set_tier_discount_def
      set_business_tier_def set_volume_brackets_def increment_business_count_def get_business_count_def
      MAX_TIER_def u64_max_def numeral_2_eq_2)

lemma calculate_fee_exact_witness: "calculate_fee (\<lambda>_. Inl CallFailed) fee_demo ''BIZ'' = Inr 760"
proof -
  have 1: "reachable (\<lambda>s. s = fee_empty) fee_step fee_demo"
    unfolding fee_demo_run [symmetric] by (rule reachable_run, rule reachable_start) (rule refl)
  have 2: "get_effective_fee_config (\<lambda>_. Inl CallFailed) fee_demo = Inr (Some fee_cfg)"
    by (simp add: get_effective_fee_config_def get_fee_config_from_dao_def get_dao_def get_fee_config_def
        fee_demo_def fee_empty_def)
  have 3: "\<forall>c. Some fee_cfg = Some c \<longrightarrow> 0 \<le> fc_base_fee c \<and> fc_base_fee c * 100000000 \<le> i128_max"
    by (simp add: fee_cfg_def i128_max_def)
  show ?thesis
    unfolding calculate_fee_exact [OF 1 2 3]
    by (simp add: fee_cfg_def fee_demo_def fee_empty_def get_tier_discount_def get_business_tier_def
        bracket_discount_def get_business_count_def get_volume_thresholds_def get_volume_discounts_vec_def)
qed

lemma collect_fee_moves_fee_witness:
  "\<exists>w'. collect_fee_from ref_token (\<lambda>_. Inl CallFailed) fee_demo ''PAYER'' ''BIZ'' (\<lambda>t a. 800) = Inr (760, w') \<and>
     tok_balance ref_token ''USDC'' ''COLLECTOR'' w' = 1560"
proof -
  have cfg: "get_effective_fee_config (\<lambda>_. Inl CallFailed) fee_demo = Inr (Some fee_cfg)"
    by (simp add: get_effective_fee_config_def get_fee_config_from_dao_def get_dao_def get_fee_config_def
        fee_demo_def fee_empty_def)
  have fee: "calculate_fee (\<lambda>_. Inl CallFailed) fee_demo ''BIZ'' = Inr 760"
    by (simp add: calculate_fee_def cfg) (simp add: fee_cfg_def fee_demo_def fee_empty_def
        get_tier_discount_def get_business_tier_def get_business_count_def volume_discount_for_count_def
        get_volume_thresholds_def get_volume_discounts_vec_def compute_fee_def checked_mul_def
        in_i128_def i128_min_def i128_max_def trunc_div_def numeral_2_eq_2)
  obtain w' where w': "collect_fee_from ref_token (\<lambda>_. Inl CallFailed) fee_demo ''PAYER'' ''BIZ'' (\<lambda>t a. 800) = Inr (760, w')"
    by (simp add: collect_fee_from_def fee cfg transferr_def ref_token_def)
  from collect_fee_moves_fee [OF ref_token_sep41 w'] w' cfg show ?thesis
    by (auto simp: fee_cfg_def moved_def ref_token_def)
qed

lemma epoch_counts_windows_witness:
  "get_epoch (run handle_epoch_rollover [env_at 1000 1, env_at 90000 2, env_at 400000 3] fee_empty) = 5"
  using epoch_counts_windows [of "env_at 1000 1" "[env_at 90000 2, env_at 400000 3]" fee_empty]
  by (simp add: u64_max_def fee_empty_def FEE_BUCKET_WINDOW_SECONDS_def)

end
