(* ===== verification/Handover.thy ===== *)
theory Handover
  imports Prelude
begin

text \<open>
  The interface of a two-step handover: an office is offered to a nominee and passes only when the
  nominee accepts. Several contracts hand an office over this way; each provides the laws below on
  its own operations.

  \<open>holder\<close> and \<open>nominee\<close> read the state, \<open>accepts e a\<close> says that the call \<open>e\<close> is an acceptance
  authorized by \<open>a\<close>.
\<close>

locale two_step_handover =
  fixes step :: "'e \<Rightarrow> 's \<Rightarrow> 's res"
    and holder :: "'s \<Rightarrow> address option"
    and nominee :: "'s \<Rightarrow> address option"
    and accepts :: "'e \<Rightarrow> address \<Rightarrow> bool"
  assumes passes: "step e s = Inr s' \<Longrightarrow> holder s' \<noteq> holder s \<Longrightarrow>
      \<exists>a. nominee s = Some a \<and> accepts e a \<and> holder s' = Some a"
begin

lemma exec_passes:
  "holder (exec step e s) \<noteq> holder s \<Longrightarrow>
   \<exists>a. nominee s = Some a \<and> accepts e a \<and> holder (exec step e s) = Some a"
  using passes by (cases "step e s") auto

text \<open>Whoever holds the office at the end and not at the start accepted it as the nominee.\<close>

lemma new_holder_accepted:
  "holder (run step es s) \<noteq> holder s \<Longrightarrow>
   \<exists>a pre e post. es = pre @ e # post \<and> holder (run step es s) = Some a \<and>
     nominee (run step pre s) = Some a \<and> accepts e a"
proof (induction es rule: rev_induct)
  case Nil
  then show ?case by simp
next
  case (snoc e es)
  let ?t = "run step es s"
  have last: "run step (es @ [e]) s = exec step e ?t" by (simp add: run_append)
  show ?case
  proof (cases "holder (exec step e ?t) = holder ?t")
    case True
    with snoc last obtain a pre e' post where "es = pre @ e' # post" "holder ?t = Some a"
      "nominee (run step pre s) = Some a" "accepts e' a" by auto
    with True last have "es @ [e] = pre @ e' # (post @ [e])" "holder (run step (es @ [e]) s) = Some a"
      by simp_all
    with \<open>nominee (run step pre s) = Some a\<close> \<open>accepts e' a\<close> show ?thesis by blast
  next
    case False
    from exec_passes [OF this] obtain a where "nominee ?t = Some a" "accepts e a"
      "holder (exec step e ?t) = Some a" by blast
    then have "es @ [e] = es @ e # []" "holder (run step (es @ [e]) s) = Some a" by (simp_all add: last)
    with \<open>nominee ?t = Some a\<close> \<open>accepts e a\<close> show ?thesis by blast
  qed
qed

end

end
