(* ===== verification/Flat_Fees.thy ===== *)
theory Flat_Fees
  imports Dynamic_Fees Handover
begin

text \<open>
  \<open>contracts/attestation/src/fees.rs\<close>: the flat fee, the rotation of its collector through an
  escrow, the rotation of the DAO that overrides it, and the bounded history of per-epoch
  configuration snapshots. The DAO contract is the parameter \<open>dao_config\<close> of \<open>Dynamic_Fees\<close>, and the key of
  its address, \<open>FlatFeeDataKey::Dao\<close> (\<open>fl_dao\<close>), is the slot of \<open>DataKey::Dao\<close> there: what this module stores
  in it, \<open>Attestation_Admin\<close> stores for the dynamic fees as well.
\<close>

section \<open>Data\<close>

definition MAX_EPOCH_HISTORY :: nat where "MAX_EPOCH_HISTORY = 100"

record flat_fee_config =
  fl_token :: address
  fl_collector :: address
  fl_amount :: int
  fl_enabled :: bool

record collector_rotation =
  cr_old_collector :: address
  cr_new_collector :: address
  cr_token :: address
  cr_escrowed_amount :: int

record dao_rotation =
  dr_old_dao :: address
  dr_new_dao :: address

record flat_state =
  fl_config :: "flat_fee_config option"
  fl_dao :: "address option"
  fl_collector_rotation :: "collector_rotation option"
  fl_dao_rotation :: "dao_rotation option"
  fl_current_epoch :: "nat option"
  fl_snapshots :: "nat \<rightharpoonup> flat_fee_config"
  fl_history :: "nat list option"

definition flat_empty :: flat_state where
  "flat_empty = \<lparr>fl_config = None, fl_dao = None, fl_collector_rotation = None,
     fl_dao_rotation = None, fl_current_epoch = None, fl_snapshots = Map.empty, fl_history = None\<rparr>"

section \<open>Configuration and snapshots\<close>

definition get_flat_fee_config :: "flat_state \<Rightarrow> flat_fee_config option" where
  "get_flat_fee_config s = fl_config s"

definition flat_get_dao :: "flat_state \<Rightarrow> address option" where
  "flat_get_dao s = fl_dao s"

definition get_flat_fee_config_from_dao :: "dao_call \<Rightarrow> flat_state \<Rightarrow> flat_fee_config option res" where
  "get_flat_fee_config_from_dao dao_config s =
     (case flat_get_dao s of
        None \<Rightarrow> Inr None
      | Some dao \<Rightarrow> bindr (dao_config dao) (\<lambda>opt.
          Inr (map_option (\<lambda>(token, collector, amount, enabled).
                 \<lparr>fl_token = token, fl_collector = collector, fl_amount = amount,
                  fl_enabled = enabled\<rparr>) opt)))"

definition get_effective_flat_fee_config :: "dao_call \<Rightarrow> flat_state \<Rightarrow> flat_fee_config option res" where
  "get_effective_flat_fee_config dao_config s =
     bindr (get_flat_fee_config_from_dao dao_config s) (\<lambda>opt.
     Inr (case opt of Some c \<Rightarrow> Some c | None \<Rightarrow> get_flat_fee_config s))"

definition get_effective_flat_fee_collector :: "dao_call \<Rightarrow> flat_state \<Rightarrow> address option res" where
  "get_effective_flat_fee_collector dao_config s =
     bindr (get_effective_flat_fee_config dao_config s) (\<lambda>opt. Inr (map_option fl_collector opt))"

definition get_current_epoch :: "flat_state \<Rightarrow> nat" where
  "get_current_epoch s = unwrap_or (fl_current_epoch s) 0"

text \<open>The pruning loop: drop the oldest snapshots while the history is too long.\<close>

function prune :: "nat list \<Rightarrow> (nat \<rightharpoonup> flat_fee_config) \<Rightarrow> nat list \<times> (nat \<rightharpoonup> flat_fee_config)" where
  "prune history snaps =
     (if MAX_EPOCH_HISTORY < length history
      then (case history of
              [] \<Rightarrow> (history, snaps)
            | oldest # rest \<Rightarrow> prune rest (snaps(oldest := None)))
      else (history, snaps))"
  by pat_completeness auto
termination
  by (relation "measure (\<lambda>(h, s). length h)") auto

declare prune.simps [simp del]

definition persist_epoch_snapshot_for :: "dao_call \<Rightarrow> flat_state \<Rightarrow> nat \<Rightarrow> flat_state res" where
  "persist_epoch_snapshot_for dao_config s epoch =
     bindr (get_effective_flat_fee_config dao_config s) (\<lambda>opt.
     case opt of
       None \<Rightarrow> Inr s
     | Some c \<Rightarrow>
         (let snaps = (fl_snapshots s)(epoch \<mapsto> c);
              history = unwrap_or (fl_history s) [];
              history1 = (if epoch \<in> set history then history else history @ [epoch]);
              (history2, snaps2) = prune history1 snaps in
          Inr (s\<lparr>fl_snapshots := snaps2, fl_history := Some history2\<rparr>)))"

definition persist_epoch_snapshot :: "dao_call \<Rightarrow> flat_state \<Rightarrow> flat_state res" where
  "persist_epoch_snapshot dao_config s = persist_epoch_snapshot_for dao_config s (get_current_epoch s)"

definition set_flat_fee_config :: "dao_call \<Rightarrow> flat_state \<Rightarrow> flat_fee_config \<Rightarrow> flat_state res" where
  "set_flat_fee_config dao_config s c = persist_epoch_snapshot dao_config (s\<lparr>fl_config := Some c\<rparr>)"

definition flat_set_dao :: "dao_call \<Rightarrow> flat_state \<Rightarrow> address \<Rightarrow> flat_state res" where
  "flat_set_dao dao_config s dao = persist_epoch_snapshot dao_config (s\<lparr>fl_dao := Some dao\<rparr>)"

definition set_current_epoch :: "dao_call \<Rightarrow> flat_state \<Rightarrow> nat \<Rightarrow> flat_state res" where
  "set_current_epoch dao_config s epoch =
     persist_epoch_snapshot_for dao_config (s\<lparr>fl_current_epoch := Some epoch\<rparr>) epoch"

definition flat_advance_epoch :: "dao_call \<Rightarrow> flat_state \<Rightarrow> (nat \<times> flat_state) res" where
  "flat_advance_epoch dao_config s =
     bindr (u64_chk (get_current_epoch s + 1)) (\<lambda>next_epoch.
     bindr (set_current_epoch dao_config s next_epoch) (\<lambda>s1. Inr (next_epoch, s1)))"

definition get_fee_config_at_epoch :: "flat_state \<Rightarrow> nat \<Rightarrow> flat_fee_config option" where
  "get_fee_config_at_epoch s epoch = fl_snapshots s epoch"

definition get_fee_quote_at_epoch :: "flat_state \<Rightarrow> nat \<Rightarrow> int" where
  "get_fee_quote_at_epoch s epoch =
     (case get_fee_config_at_epoch s epoch of
        Some c \<Rightarrow> (if fl_enabled c then fl_amount c else 0)
      | None \<Rightarrow> 0)"

section \<open>Charging\<close>

definition calculate_flat_fee :: "dao_call \<Rightarrow> flat_state \<Rightarrow> int res" where
  "calculate_flat_fee dao_config s =
     bindr (get_effective_flat_fee_config dao_config s) (\<lambda>opt.
     Inr (case opt of Some c \<Rightarrow> (if fl_enabled c then fl_amount c else 0) | None \<Rightarrow> 0))"

definition collect_flat_fee ::
  "'w token_ops \<Rightarrow> dao_call \<Rightarrow> flat_state \<Rightarrow> address \<Rightarrow> 'w \<Rightarrow> (int \<times> 'w) res" where
  "collect_flat_fee T dao_config s payer w =
     bindr (get_effective_flat_fee_config dao_config s) (\<lambda>opt.
     case opt of
       None \<Rightarrow> Inr (0, w)
     | Some c \<Rightarrow>
         (if fl_enabled c \<and> 0 < fl_amount c
          then bindr (transferr T (fl_token c) payer (fl_collector c) (fl_amount c) w) (\<lambda>w1.
               Inr (fl_amount c, w1))
          else Inr (0, w)))"

section \<open>Rotation of the collector\<close>

definition get_collector_rotation_proposal :: "flat_state \<Rightarrow> collector_rotation option" where
  "get_collector_rotation_proposal s = fl_collector_rotation s"

definition has_pending_collector_rotation :: "flat_state \<Rightarrow> bool" where
  "has_pending_collector_rotation s \<longleftrightarrow> fl_collector_rotation s \<noteq> None"

definition propose_collector_rotation ::
  "'w token_ops \<Rightarrow> ledger_env \<Rightarrow> address \<Rightarrow> address \<Rightarrow> flat_state \<times> 'w \<Rightarrow> (flat_state \<times> 'w) res" where
  "propose_collector_rotation T env caller new_collector sw =
     (let (s, w) = sw in
      bindr (require_auth env caller) (\<lambda>_.
      bindr (expectr (get_flat_fee_config s) ''flat fee not configured'') (\<lambda>c.
      bindr (assertr (flat_get_dao s = None) ''collector rotation unavailable when DAO override is active'') (\<lambda>_.
      bindr (assertr (\<not> has_pending_collector_rotation s) ''collector rotation already pending'') (\<lambda>_.
      bindr (assertr (caller = fl_collector c) ''only current collector may propose rotation'') (\<lambda>_.
      (let escrowed = tok_balance T (fl_token c) (fl_collector c) w in
       bindr (if 0 < escrowed then transferr T (fl_token c) (fl_collector c) (self_addr env) escrowed w
              else Inr w) (\<lambda>w1.
       Inr (s\<lparr>fl_collector_rotation := Some \<lparr>cr_old_collector = fl_collector c,
               cr_new_collector = new_collector, cr_token = fl_token c, cr_escrowed_amount = escrowed\<rparr>\<rparr>,
            w1)))))))))"

definition accept_collector_rotation ::
  "'w token_ops \<Rightarrow> dao_call \<Rightarrow> ledger_env \<Rightarrow> address \<Rightarrow> flat_state \<times> 'w \<Rightarrow> (flat_state \<times> 'w) res" where
  "accept_collector_rotation T dao_config env caller sw =
     (let (s, w) = sw in
      bindr (require_auth env caller) (\<lambda>_.
      bindr (expectr (get_collector_rotation_proposal s) ''no pending collector rotation'') (\<lambda>p.
      bindr (assertr (caller = cr_new_collector p) ''only proposed new collector may accept rotation'') (\<lambda>_.
      bindr (expectr (get_flat_fee_config s) ''flat fee not configured'') (\<lambda>c.
      bindr (assertr (fl_collector c = cr_old_collector p) ''collector configuration changed since proposal'') (\<lambda>_.
      bindr (set_flat_fee_config dao_config s (c\<lparr>fl_collector := cr_new_collector p\<rparr>)) (\<lambda>s1.
      bindr (if 0 < cr_escrowed_amount p
             then transferr T (cr_token p) (self_addr env) (cr_new_collector p) (cr_escrowed_amount p) w
             else Inr w) (\<lambda>w1.
      Inr (s1\<lparr>fl_collector_rotation := None\<rparr>, w1)))))))))"

section \<open>Rotation of the DAO\<close>

definition has_pending_dao_rotation :: "flat_state \<Rightarrow> bool" where
  "has_pending_dao_rotation s \<longleftrightarrow> fl_dao_rotation s \<noteq> None"

definition get_pending_dao_rotation :: "flat_state \<Rightarrow> dao_rotation option" where
  "get_pending_dao_rotation s = fl_dao_rotation s"

definition propose_dao_rotation :: "ledger_env \<Rightarrow> address \<Rightarrow> address \<Rightarrow> flat_state \<Rightarrow> flat_state res" where
  "propose_dao_rotation env caller new_dao s =
     bindr (require_auth env caller) (\<lambda>_.
     (let current_dao = unwrap_or (flat_get_dao s) (self_addr env) in
      bindr (assertr (\<not> has_pending_dao_rotation s) ''DAO rotation already pending'') (\<lambda>_.
      Inr (s\<lparr>fl_dao_rotation := Some \<lparr>dr_old_dao = current_dao, dr_new_dao = new_dao\<rparr>\<rparr>))))"

definition accept_dao_rotation :: "dao_call \<Rightarrow> ledger_env \<Rightarrow> address \<Rightarrow> flat_state \<Rightarrow> flat_state res" where
  "accept_dao_rotation dao_config env caller s =
     bindr (require_auth env caller) (\<lambda>_.
     bindr (expectr (get_pending_dao_rotation s) ''no pending DAO rotation'') (\<lambda>p.
     bindr (assertr (caller = dr_new_dao p) ''only proposed new DAO may accept rotation'') (\<lambda>_.
     bindr (flat_set_dao dao_config s (dr_new_dao p)) (\<lambda>s1.
     Inr (s1\<lparr>fl_dao_rotation := None\<rparr>)))))"

definition cancel_dao_rotation :: "ledger_env \<Rightarrow> address \<Rightarrow> flat_state \<Rightarrow> flat_state res" where
  "cancel_dao_rotation env caller s =
     bindr (require_auth env caller) (\<lambda>_.
     bindr (expectr (get_pending_dao_rotation s) ''no pending DAO rotation'') (\<lambda>p.
     bindr (assertr (caller = dr_old_dao p) ''only the current DAO may cancel rotation'') (\<lambda>_.
     Inr (s\<lparr>fl_dao_rotation := None\<rparr>))))"

section \<open>The history of snapshots\<close>

text \<open>The history lists, oldest first and without repetition, exactly the epochs with a snapshot.\<close>

definition history_of :: "flat_state \<Rightarrow> nat list" where
  "history_of s = unwrap_or (fl_history s) []"

definition history_ok :: "flat_state \<Rightarrow> bool" where
  "history_ok s \<longleftrightarrow> distinct (history_of s) \<and> length (history_of s) \<le> MAX_EPOCH_HISTORY \<and>
     dom (fl_snapshots s) = set (history_of s)"

lemma prune_short [simp]: "length h \<le> MAX_EPOCH_HISTORY \<Longrightarrow> prune h m = (h, m)"
  by (simp add: prune.simps)

lemma prune_one: "length h = MAX_EPOCH_HISTORY \<Longrightarrow> prune (e # h) m = (h, m(e := None))"
  by (subst prune.simps) simp

lemma history_of_update [simp]:
  "history_of (s\<lparr>fl_config := c\<rparr>) = history_of s" "history_of (s\<lparr>fl_dao := d\<rparr>) = history_of s"
  "history_of (s\<lparr>fl_current_epoch := k\<rparr>) = history_of s" "history_of (s\<lparr>fl_dao_rotation := r\<rparr>) = history_of s"
  "history_of (s\<lparr>fl_collector_rotation := q\<rparr>) = history_of s"
  by (simp_all add: history_of_def)

lemma history_ok_update [simp]:
  "history_ok (s\<lparr>fl_config := c\<rparr>) = history_ok s" "history_ok (s\<lparr>fl_dao := d\<rparr>) = history_ok s"
  "history_ok (s\<lparr>fl_current_epoch := k\<rparr>) = history_ok s" "history_ok (s\<lparr>fl_dao_rotation := r\<rparr>) = history_ok s"
  "history_ok (s\<lparr>fl_collector_rotation := q\<rparr>) = history_ok s"
  by (simp_all add: history_ok_def)

text \<open>What recording a snapshot for epoch \<open>e\<close> does to a history in order.\<close>

lemma persist_snapshot:
  assumes ok: "history_ok s" and eff: "get_effective_flat_fee_config dao_config s = Inr (Some c)"
    and res: "persist_epoch_snapshot_for dao_config s e = Inr s'"
  defines "full \<equiv> e \<notin> set (history_of s) \<and> length (history_of s) = MAX_EPOCH_HISTORY"
  shows "s' = s\<lparr>fl_snapshots := (if full then (fl_snapshots s)(hd (history_of s) := None) else fl_snapshots s)(e \<mapsto> c),
      fl_history := Some (if e \<in> set (history_of s) then history_of s
                          else (if full then tl (history_of s) else history_of s) @ [e])\<rparr>"
proof -
  let ?h = "history_of s"
  consider (old) "e \<in> set ?h" | (room) "e \<notin> set ?h" "length ?h < MAX_EPOCH_HISTORY" | (full) "full"
    using ok by (auto simp: history_ok_def full_def order_le_less)
  then show ?thesis
  proof cases
    case old
    with ok eff res show ?thesis
      by (simp add: persist_epoch_snapshot_for_def history_of_def [symmetric] history_ok_def full_def Let_def)
  next
    case room
    with ok eff res show ?thesis
      by (simp add: persist_epoch_snapshot_for_def history_of_def [symmetric] history_ok_def full_def Let_def)
  next
    case full
    then obtain x r where h: "?h = x # r" "length r + 1 = MAX_EPOCH_HISTORY" "e \<notin> set ?h"
      by (cases ?h) (auto simp: full_def MAX_EPOCH_HISTORY_def)
    then have "prune (?h @ [e]) ((fl_snapshots s)(e \<mapsto> c)) = (r @ [e], (fl_snapshots s)(e \<mapsto> c, x := None))"
      using prune_one [of "r @ [e]" x] by simp
    moreover have "(fl_snapshots s)(e \<mapsto> c, x := None) = (fl_snapshots s)(x := None, e \<mapsto> c)"
      using h by (intro fun_upd_twist) auto
    ultimately show ?thesis
      using full h eff res
      by (simp add: persist_epoch_snapshot_for_def history_of_def [symmetric] full_def Let_def)
  qed
qed

lemma persist_history_ok:
  assumes ok: "history_ok s" and res: "persist_epoch_snapshot_for dao_config s e = Inr s'"
  shows "history_ok s'"
proof -
  obtain opt where opt: "get_effective_flat_fee_config dao_config s = Inr opt"
    using res by (auto simp: persist_epoch_snapshot_for_def)
  show ?thesis
  proof (cases opt)
    case None
    with opt res ok show ?thesis by (simp add: persist_epoch_snapshot_for_def)
  next
    case (Some c)
    note s' = persist_snapshot [OF ok opt [unfolded Some] res]
    let ?h = "history_of s"
    have d: "distinct ?h" "length ?h \<le> MAX_EPOCH_HISTORY" "dom (fl_snapshots s) = set ?h"
      using ok by (simp_all add: history_ok_def)
    consider "e \<in> set ?h" | "e \<notin> set ?h" "length ?h < MAX_EPOCH_HISTORY"
      | x r where "e \<notin> set ?h" "length ?h = MAX_EPOCH_HISTORY" "?h = x # r"
      using d(2) by (cases ?h) (auto simp: MAX_EPOCH_HISTORY_def order_le_less)
    then show ?thesis
      using d by cases (simp_all add: s' history_ok_def history_of_def, auto)
  qed
qed

lemma effective_cong:
  "fl_dao s' = fl_dao s \<Longrightarrow> fl_config s' = fl_config s \<Longrightarrow>
   get_effective_flat_fee_config d s' = get_effective_flat_fee_config d s"
  by (simp add: get_effective_flat_fee_config_def get_flat_fee_config_from_dao_def flat_get_dao_def
      get_flat_fee_config_def cong: option.case_cong)

lemma persist_total:
  "get_effective_flat_fee_config d s = Inr opt \<Longrightarrow> \<exists>s'. persist_epoch_snapshot_for d s e = Inr s'"
  by (auto simp: persist_epoch_snapshot_for_def Let_def case_prod_unfold split: option.split)

lemma persist_frame:
  assumes "persist_epoch_snapshot_for dao_config s e = Inr s'"
  shows "fl_config s' = fl_config s" "fl_dao s' = fl_dao s" "fl_collector_rotation s' = fl_collector_rotation s"
    "fl_dao_rotation s' = fl_dao_rotation s" "fl_current_epoch s' = fl_current_epoch s"
  using assms by (auto simp: persist_epoch_snapshot_for_def Let_def case_prod_unfold split: option.splits)

section \<open>The module as a machine\<close>

text \<open>Every operation of the module that changes its state; each call names the answers of the DAO.\<close>

datatype flat_call =
    LConfig dao_call flat_fee_config
  | LEpoch dao_call nat
  | LAdvance dao_call
  | LSetDao dao_call address
  | LProposeCollector ledger_env address address
  | LAcceptCollector dao_call ledger_env address
  | LProposeDao ledger_env address address
  | LAcceptDao dao_call ledger_env address
  | LCancelDao ledger_env address

fun flat_step :: "'w token_ops \<Rightarrow> flat_call \<Rightarrow> flat_state \<times> 'w \<Rightarrow> (flat_state \<times> 'w) res" where
  "flat_step T (LConfig d c) (s, w) = bindr (set_flat_fee_config d s c) (\<lambda>s'. Inr (s', w))"
| "flat_step T (LEpoch d e) (s, w) = bindr (set_current_epoch d s e) (\<lambda>s'. Inr (s', w))"
| "flat_step T (LAdvance d) (s, w) = bindr (flat_advance_epoch d s) (\<lambda>(e, s'). Inr (s', w))"
| "flat_step T (LSetDao d a) (s, w) = bindr (flat_set_dao d s a) (\<lambda>s'. Inr (s', w))"
| "flat_step T (LProposeCollector env c n) (s, w) = propose_collector_rotation T env c n (s, w)"
| "flat_step T (LAcceptCollector d env c) (s, w) = accept_collector_rotation T d env c (s, w)"
| "flat_step T (LProposeDao env c n) (s, w) = bindr (propose_dao_rotation env c n s) (\<lambda>s'. Inr (s', w))"
| "flat_step T (LAcceptDao d env c) (s, w) = bindr (accept_dao_rotation d env c s) (\<lambda>s'. Inr (s', w))"
| "flat_step T (LCancelDao env c) (s, w) = bindr (cancel_dao_rotation env c s) (\<lambda>s'. Inr (s', w))"

lemmas flat_sets = set_flat_fee_config_def set_current_epoch_def flat_set_dao_def
  flat_advance_epoch_def persist_epoch_snapshot_def

lemma propose_collector_cases:
  assumes "propose_collector_rotation T env a n (s, w) = Inr (s', w')"
  obtains c where "authorized env a" "fl_config s = Some c" "fl_dao s = None" "fl_collector_rotation s = None"
    "a = fl_collector c"
    "s' = s\<lparr>fl_collector_rotation := Some \<lparr>cr_old_collector = a, cr_new_collector = n, cr_token = fl_token c,
       cr_escrowed_amount = tok_balance T (fl_token c) a w\<rparr>\<rparr>"
    "if 0 < tok_balance T (fl_token c) a w
     then tok_transfer T (fl_token c) a (self_addr env) (tok_balance T (fl_token c) a w) w = Some w' else w' = w"
  using assms that
  by (auto simp: propose_collector_rotation_def get_flat_fee_config_def flat_get_dao_def
      has_pending_collector_rotation_def Let_def split: if_splits)

lemma accept_collector_cases:
  assumes "accept_collector_rotation T d env a (s, w) = Inr (s', w')"
  obtains p c s1 where "authorized env a" "fl_collector_rotation s = Some p" "a = cr_new_collector p"
    "fl_config s = Some c" "fl_collector c = cr_old_collector p"
    "set_flat_fee_config d s (c\<lparr>fl_collector := a\<rparr>) = Inr s1"
    "s' = s1\<lparr>fl_collector_rotation := None\<rparr>"
    "if 0 < cr_escrowed_amount p
     then tok_transfer T (cr_token p) (self_addr env) a (cr_escrowed_amount p) w = Some w' else w' = w"
  using assms that
  by (auto simp: accept_collector_rotation_def get_flat_fee_config_def get_collector_rotation_proposal_def
      split: if_splits)

lemma flat_step_history: "history_ok (fst sw) \<Longrightarrow> flat_step T c sw = Inr sw' \<Longrightarrow> history_ok (fst sw')"
proof -
  assume ok: "history_ok (fst sw)" and step: "flat_step T c sw = Inr sw'"
  obtain s w s' w' where sw: "sw = (s, w)" "sw' = (s', w')" by (metis surj_pair)
  have p: "history_ok t'" if "persist_epoch_snapshot_for d t e = Inr t'" "history_ok t" for d t e t'
    using that by (rule persist_history_ok [rotated])
  have "history_ok s'"
    using step ok
    by (cases c)
      (auto simp: sw flat_sets accept_dao_rotation_def propose_dao_rotation_def cancel_dao_rotation_def Let_def
        elim!: propose_collector_cases accept_collector_cases dest!: p)
  then show ?thesis by (simp add: sw)
qed

interpretation flat: invariant_machine "\<lambda>sw. fst sw = flat_empty" "flat_step T" "\<lambda>sw. history_ok (fst sw)" for T
proof
  show "history_ok (fst sw)" if "fst sw = flat_empty" for sw :: "flat_state \<times> 'a"
    using that by (simp add: history_ok_def flat_empty_def history_of_def)
  show "history_ok (fst sw')" if "history_ok (fst sw)" "flat_step T e sw = Inr sw'" for sw e sw'
    using that by (rule flat_step_history)
qed

section \<open>The DAO rotation as a handover\<close>

fun rotation_step :: "flat_call \<Rightarrow> flat_state \<Rightarrow> flat_state res" where
  "rotation_step (LProposeDao env c n) s = propose_dao_rotation env c n s"
| "rotation_step (LAcceptDao d env c) s = accept_dao_rotation d env c s"
| "rotation_step (LCancelDao env c) s = cancel_dao_rotation env c s"
| "rotation_step (LConfig d c) s = set_flat_fee_config d s c"
| "rotation_step (LEpoch d e) s = set_current_epoch d s e"
| "rotation_step _ s = Inl CallFailed"

definition dao_nominee :: "flat_state \<Rightarrow> address option" where
  "dao_nominee s = map_option dr_new_dao (fl_dao_rotation s)"

fun accepts_dao :: "flat_call \<Rightarrow> address \<Rightarrow> bool" where
  "accepts_dao (LAcceptDao d env c) a \<longleftrightarrow> c = a \<and> authorized env a"
| "accepts_dao _ a \<longleftrightarrow> False"

interpretation daorot: two_step_handover rotation_step fl_dao dao_nominee accepts_dao
proof
  show "\<exists>a. dao_nominee s = Some a \<and> accepts_dao e a \<and> fl_dao s' = Some a"
    if "rotation_step e s = Inr s'" "fl_dao s' \<noteq> fl_dao s" for e s s'
    using that
    by (cases e) (auto simp: propose_dao_rotation_def accept_dao_rotation_def cancel_dao_rotation_def
        flat_sets dao_nominee_def get_pending_dao_rotation_def persist_frame Let_def)
qed

section \<open>Properties\<close>

text \<open>
  The fee history is bounded and consistent: in every reachable state the epochs with a snapshot
  are exactly those of the history, without repetition, and there are at most
  \<open>MAX_EPOCH_HISTORY\<close> of them.
\<close>

theorem fee_history_bounded:
  assumes "reachable (\<lambda>sw. fst sw = flat_empty) (flat_step T) (s, w)"
  shows "distinct (history_of s) \<and> length (history_of s) \<le> MAX_EPOCH_HISTORY \<and>
    dom (fl_snapshots s) = set (history_of s)"
  using flat.reachable_inv [OF assms] by (simp add: history_ok_def)

text \<open>
  Setting the epoch records the effective configuration for it and disturbs no other snapshot,
  but for the oldest one, which is dropped exactly when the history is full and the epoch is new.
\<close>

theorem set_current_epoch_snapshot:
  assumes "history_ok s" and "get_effective_flat_fee_config dao_config s = Inr (Some c)"
    and "set_current_epoch dao_config s e = Inr s'"
  shows "get_current_epoch s' = e \<and> get_fee_config_at_epoch s' e = Some c \<and>
    (\<forall>e'. e' \<noteq> e \<longrightarrow> get_fee_config_at_epoch s' e' =
       (if e \<notin> set (history_of s) \<and> length (history_of s) = MAX_EPOCH_HISTORY \<and> e' = hd (history_of s)
        then None else get_fee_config_at_epoch s e'))"
proof -
  let ?s = "s\<lparr>fl_current_epoch := Some e\<rparr>"
  have "history_ok ?s" "get_effective_flat_fee_config dao_config ?s = Inr (Some c)"
    using assms(1,2) effective_cong [of ?s s] by simp_all
  from persist_snapshot [OF this, of e s'] assms(3)
  show ?thesis by (simp add: set_current_epoch_def get_current_epoch_def get_fee_config_at_epoch_def)
qed

text \<open>
  A collector rotation that is proposed and then accepted with no other token traffic moves
  exactly the old collector's balance to the new collector and leaves the escrow account, the
  contract, as it was; the new collector is then the configured one and no proposal is pending.
\<close>

theorem collector_rotation_conserves:
  assumes "sep41 T" and "propose_collector_rotation T env a n (s, w) = Inr (s1, w1)"
    and "accept_collector_rotation T d env' n (s1, w1) = Inr (s2, w2)"
    and "self_addr env' = self_addr env"
  shows "\<exists>c amount. fl_config s = Some c \<and> amount = max 0 (tok_balance T (fl_token c) a w) \<and>
    fl_config s2 = Some (c\<lparr>fl_collector := n\<rparr>) \<and> fl_collector_rotation s2 = None \<and>
    (\<forall>b. tok_balance T (fl_token c) b w2 = tok_balance T (fl_token c) b w + moved a n amount b)"
  using assms(2)
proof (cases rule: propose_collector_cases)
  case (1 c)
  note pr = this
  show ?thesis
    using assms(3)
  proof (cases rule: accept_collector_cases)
    case (1 p c' s1')
    have c': "c' = c" "cr_escrowed_amount p = tok_balance T (fl_token c) a w" "cr_token p = fl_token c"
      using 1(2,4) pr(2,6) by auto
    have cfg: "fl_config s2 = Some (c\<lparr>fl_collector := n\<rparr>)" "fl_collector_rotation s2 = None"
      using 1(6,7) c' persist_frame(1) by (auto simp: flat_sets)
    have "tok_balance T (fl_token c) b w2 =
        tok_balance T (fl_token c) b w + moved a n (max 0 (tok_balance T (fl_token c) a w)) b" for b
    proof (cases "0 < tok_balance T (fl_token c) a w")
      case True
      with pr(7) 1(8) c' have
        t1: "tok_transfer T (fl_token c) a (self_addr env) (tok_balance T (fl_token c) a w) w = Some w1" and
        t2: "tok_transfer T (fl_token c) (self_addr env') n (tok_balance T (fl_token c) a w) w1 = Some w2"
        by simp_all
      show ?thesis
        using sep41_transfer(3) [OF assms(1) t1, of b] sep41_transfer(3) [OF assms(1) t2, of b] True assms(4)
        by (simp add: moved_def)
    next
      case False
      with pr(7) 1(8) c' show ?thesis by (simp add: moved_def)
    qed
    with pr(2) cfg show ?thesis by blast
  qed
qed

text \<open>
  Anyone can take the flat-fee DAO over. \<open>propose_dao_rotation\<close> checks that its caller authorized
  the call, but not that the caller is the current DAO: with no rotation pending, any account can
  nominate itself, accept, and from then on answer the effective flat-fee configuration (token,
  collector, amount) from its own contract.
\<close>

theorem dao_rotation_takeover:
  assumes "authorized env attacker" and "fl_dao_rotation s = None"
    and "dao_config attacker = Inr (Some (token, collector, amount, True))"
  shows "\<exists>s1 s2. propose_dao_rotation env attacker attacker s = Inr s1 \<and>
    accept_dao_rotation dao_config env attacker s1 = Inr s2 \<and> fl_dao s2 = Some attacker \<and>
    get_effective_flat_fee_config dao_config s2 =
      Inr (Some \<lparr>fl_token = token, fl_collector = collector, fl_amount = amount, fl_enabled = True\<rparr>)"
proof -
  let ?c = "\<lparr>fl_token = token, fl_collector = collector, fl_amount = amount, fl_enabled = True\<rparr>"
  let ?s1 = "s\<lparr>fl_dao_rotation := Some \<lparr>dr_old_dao = unwrap_or (flat_get_dao s) (self_addr env), dr_new_dao = attacker\<rparr>\<rparr>"
  have p: "propose_dao_rotation env attacker attacker s = Inr ?s1"
    using assms(1,2) by (simp add: propose_dao_rotation_def has_pending_dao_rotation_def)
  have eff: "get_effective_flat_fee_config dao_config (t\<lparr>fl_dao := Some attacker\<rparr>) = Inr (Some ?c)" for t
    using assms(3) by (simp add: get_effective_flat_fee_config_def get_flat_fee_config_from_dao_def flat_get_dao_def)
  obtain s2 where s2: "flat_set_dao dao_config ?s1 attacker = Inr s2"
    using persist_total [OF eff] by (auto simp: flat_set_dao_def persist_epoch_snapshot_def)
  then have dao: "fl_dao s2 = Some attacker" by (auto simp: flat_sets dest: persist_frame(2))
  have "get_effective_flat_fee_config dao_config (s2\<lparr>fl_dao_rotation := None\<rparr>) =
      get_effective_flat_fee_config dao_config (s2\<lparr>fl_dao := Some attacker\<rparr>)"
    using dao by (intro effective_cong) simp_all
  then have "get_effective_flat_fee_config dao_config (s2\<lparr>fl_dao_rotation := None\<rparr>) = Inr (Some ?c)"
    by (simp only: eff)
  moreover have "accept_dao_rotation dao_config env attacker ?s1 = Inr (s2\<lparr>fl_dao_rotation := None\<rparr>)"
    using assms(1) s2 by (simp add: accept_dao_rotation_def get_pending_dao_rotation_def)
  ultimately show ?thesis using p dao by auto
qed

text \<open>
  A collector rotation cannot be called off: the module has no cancel. Along every history in
  which the nominated collector makes no successful acceptance, the proposal stays as it is (and with
  it the escrowed amount), whatever configuration, epoch or DAO calls happen.
\<close>

theorem collector_rotation_only_accepted:
  assumes "fl_collector_rotation s = Some p"
    and "\<forall>d env. LAcceptCollector d env (cr_new_collector p) \<notin> set cs"
  shows "fl_collector_rotation (fst (run (flat_step T) cs (s, w))) = Some p"
  using assms
proof (induction cs arbitrary: s w)
  case Nil
  then show ?case by simp
next
  case (Cons c cs)
  obtain s' w' where e: "exec (flat_step T) c (s, w) = (s', w')" by (metis surj_pair)
  have "fl_collector_rotation s' = Some p"
  proof (cases "flat_step T c (s, w)")
    case (Inl x)
    with e Cons.prems(1) show ?thesis by simp
  next
    case (Inr sw)
    with e have step: "flat_step T c (s, w) = Inr (s', w')" by simp
    have not_acc: "c \<noteq> LAcceptCollector d env (cr_new_collector p)" for d env
      using Cons.prems(2) by auto
    show ?thesis
    proof (cases c)
      case (LAcceptCollector d env a)
      with step have "accept_collector_rotation T d env a (s, w) = Inr (s', w')" by simp
      then have "a = cr_new_collector p" using Cons.prems(1) by (auto elim: accept_collector_cases)
      with not_acc LAcceptCollector show ?thesis by blast
    qed (use step Cons.prems(1) in \<open>auto simp: flat_sets accept_dao_rotation_def propose_dao_rotation_def
        cancel_dao_rotation_def persist_frame Let_def elim!: propose_collector_cases\<close>)
  qed
  with Cons e show ?case by simp
qed

section \<open>Witnesses\<close>

definition flat_cfg :: flat_fee_config where
  "flat_cfg = \<lparr>fl_token = ''USDC'', fl_collector = ''OLD'', fl_amount = 7, fl_enabled = True\<rparr>"

definition no_dao :: dao_call where
  "no_dao a = Inl CallFailed"

definition flat_one :: flat_state where
  "flat_one = flat_empty\<lparr>fl_config := Some flat_cfg, fl_snapshots := [0 \<mapsto> flat_cfg], fl_history := Some [0]\<rparr>"

lemma flat_one_ok: "history_ok flat_one"
  by (simp add: history_ok_def history_of_def flat_one_def MAX_EPOCH_HISTORY_def)

lemma flat_one_effective: "get_effective_flat_fee_config no_dao flat_one = Inr (Some flat_cfg)"
  by (simp add: get_effective_flat_fee_config_def get_flat_fee_config_from_dao_def flat_get_dao_def
      get_flat_fee_config_def flat_one_def flat_empty_def)

lemma fee_history_bounded_witness:
  "length (history_of (fst (run (flat_step ref_token) [LConfig no_dao flat_cfg, LAdvance no_dao, LEpoch no_dao 0]
     (flat_empty, \<lambda>t a. 0)))) \<le> MAX_EPOCH_HISTORY"
proof -
  let ?sw = "run (flat_step ref_token) [LConfig no_dao flat_cfg, LAdvance no_dao, LEpoch no_dao 0]
     (flat_empty, \<lambda>t a. 0)"
  have "reachable (\<lambda>sw. fst sw = flat_empty) (flat_step ref_token) ?sw"
    by (rule reachable_run, rule reachable_start) simp
  then have "reachable (\<lambda>sw. fst sw = flat_empty) (flat_step ref_token) (fst ?sw, snd ?sw)"
    by (simp only: prod.collapse)
  from fee_history_bounded [OF this] show ?thesis by simp
qed

lemma set_current_epoch_snapshot_witness:
  "\<exists>s'. set_current_epoch no_dao flat_one 4 = Inr s' \<and> get_fee_config_at_epoch s' 4 = Some flat_cfg \<and>
     get_fee_config_at_epoch s' 0 = Some flat_cfg"
proof -
  have "get_effective_flat_fee_config no_dao (flat_one\<lparr>fl_current_epoch := Some 4\<rparr>) = Inr (Some flat_cfg)"
    using flat_one_effective effective_cong [of "flat_one\<lparr>fl_current_epoch := Some 4\<rparr>" flat_one no_dao] by simp
  from persist_total [OF this, of 4] obtain s' where s': "set_current_epoch no_dao flat_one 4 = Inr s'"
    by (auto simp: set_current_epoch_def)
  from set_current_epoch_snapshot [OF flat_one_ok flat_one_effective s'] s' show ?thesis
    by (simp add: get_fee_config_at_epoch_def flat_one_def history_of_def MAX_EPOCH_HISTORY_def)
qed

definition flat_rotating :: flat_state where
  "flat_rotating = flat_one\<lparr>fl_collector_rotation := Some \<lparr>cr_old_collector = ''OLD'',
     cr_new_collector = ''NEW'', cr_token = ''USDC'', cr_escrowed_amount = 50\<rparr>\<rparr>"

lemma collector_rotation_conserves_witness:
  "\<exists>s1 w1 s2 w2. propose_collector_rotation ref_token (env_at 1 1) ''OLD'' ''NEW'' (flat_one, \<lambda>t a. 50) = Inr (s1, w1) \<and>
     accept_collector_rotation ref_token no_dao (env_at 2 2) ''NEW'' (s1, w1) = Inr (s2, w2) \<and>
     tok_balance ref_token ''USDC'' ''NEW'' w2 = 100"
proof -
  obtain w1 where w1: "propose_collector_rotation ref_token (env_at 1 1) ''OLD'' ''NEW'' (flat_one, \<lambda>t a. 50) = Inr (flat_rotating, w1)"
    "w1 = (\<lambda>t a. if t = ''USDC'' then 50 + moved ''OLD'' ''CONTRACT'' 50 a else 50)"
    by (simp add: propose_collector_rotation_def get_flat_fee_config_def flat_get_dao_def flat_rotating_def
        has_pending_collector_rotation_def flat_one_def flat_empty_def flat_cfg_def ref_token_def transferr_def)
  have "get_effective_flat_fee_config no_dao (flat_rotating\<lparr>fl_config := Some (flat_cfg\<lparr>fl_collector := ''NEW''\<rparr>)\<rparr>)
      = Inr (Some (flat_cfg\<lparr>fl_collector := ''NEW''\<rparr>))"
    by (simp add: get_effective_flat_fee_config_def get_flat_fee_config_from_dao_def flat_get_dao_def
        get_flat_fee_config_def flat_rotating_def flat_one_def flat_empty_def)
  from persist_total [OF this] obtain s1 where
    s1: "set_flat_fee_config no_dao flat_rotating (flat_cfg\<lparr>fl_collector := ''NEW''\<rparr>) = Inr s1"
    by (auto simp: set_flat_fee_config_def persist_epoch_snapshot_def)
  have c: "fl_config flat_rotating = Some flat_cfg" by (simp add: flat_rotating_def flat_one_def)
  obtain s2 w2 where w2: "accept_collector_rotation ref_token no_dao (env_at 2 2) ''NEW'' (flat_rotating, w1) = Inr (s2, w2)"
    using s1 w1(2) c
    by (simp add: accept_collector_rotation_def get_flat_fee_config_def get_collector_rotation_proposal_def
        ref_token_def transferr_def moved_def)
      (simp add: flat_rotating_def flat_cfg_def moved_def)
  have b: "tok_balance ref_token ''USDC'' ''NEW'' w2 = 100"
    using collector_rotation_conserves [OF ref_token_sep41 w1(1) w2] by (auto simp: flat_one_def flat_cfg_def moved_def ref_token_def)
  show ?thesis by (intro exI conjI) (rule w1(1), rule w2, rule b)
qed

lemma dao_rotation_takeover_witness:
  "\<exists>s1 s2. propose_dao_rotation (env_at 1 1) ''MALLORY'' ''MALLORY'' (flat_one\<lparr>fl_dao := Some ''DAO''\<rparr>) = Inr s1 \<and>
     accept_dao_rotation (\<lambda>a. Inr (Some (''USDC'', ''MALLORY'', 1000000, True))) (env_at 1 1) ''MALLORY'' s1 = Inr s2 \<and>
     fl_dao s2 = Some ''MALLORY''"
  using dao_rotation_takeover [of "env_at 1 1" "''MALLORY''" "flat_one\<lparr>fl_dao := Some ''DAO''\<rparr>"
      "\<lambda>a. Inr (Some (''USDC'', ''MALLORY'', 1000000, True))" "''USDC''" "''MALLORY''" 1000000]
  by (auto simp: flat_one_def flat_empty_def)

lemma collector_rotation_only_accepted_witness:
  "fl_collector_rotation (fst (run (flat_step ref_token)
     [LConfig no_dao flat_cfg, LProposeCollector (env_at 3 3) ''OLD'' ''OTHER'', LAcceptCollector no_dao (env_at 4 4) ''OLD'']
     (flat_rotating, \<lambda>t a. 50))) =
   Some \<lparr>cr_old_collector = ''OLD'', cr_new_collector = ''NEW'', cr_token = ''USDC'', cr_escrowed_amount = 50\<rparr>"
  by (rule collector_rotation_only_accepted) (simp_all add: flat_rotating_def)

end
