(* ===== verification/Attestation.thy ===== *)
theory Attestation
  imports Dispute Business_Registry Rate_Limit Flat_Fees Replay_Protection
begin

text \<open>
  The contract of \<open>contracts/attestation/src/lib.rs\<close>: its storage, the submission of attestations
  (one by one, by an attestor, in batches), reading and verifying them. The other entry points are in
  \<open>Attestation_Lifecycle\<close> and \<open>Attestation_Admin\<close>; \<open>extended_metadata.rs\<close> and
  \<open>network_config.rs\<close> are here too.

  \<open>DataKey::Attestation\<close> is written in instance storage and read by \<open>get_attestation\<close> from persistent
  storage; the two storages have separate key spaces and are separate components of the state.
\<close>

section \<open>Constants and data\<close>

definition NONCE_CHANNEL_ADMIN :: nat where "NONCE_CHANNEL_ADMIN = 0"
definition NONCE_CHANNEL_BUSINESS :: nat where "NONCE_CHANNEL_BUSINESS = 1"
definition NONCE_CHANNEL_PERMIT :: nat where "NONCE_CHANNEL_PERMIT = 2"
definition STATUS_ACTIVE :: nat where "STATUS_ACTIVE = 0"
definition STATUS_REVOKED :: nat where "STATUS_REVOKED = 1"
definition STATUS_FILTER_ALL :: nat where "STATUS_FILTER_ALL = 2"
definition ANOMALY_SCORE_MAX :: nat where "ANOMALY_SCORE_MAX = 100"
definition MAX_BATCH_SIZE :: nat where "MAX_BATCH_SIZE = 25"
definition MAX_BATCH_SIZE_VERIFY :: nat where "MAX_BATCH_SIZE_VERIFY = 30"
definition CURRENCY_CODE_MAX_LEN :: nat where "CURRENCY_CODE_MAX_LEN = 3"

record att_range =
  rg_start :: nat
  rg_end :: nat
  rg_root :: bytesn
  rg_timestamp :: nat
  rg_version :: nat
  rg_fee_paid :: int
  rg_proof_hash :: "bytesn option"
  rg_expiry :: "nat option"
  rg_revoked :: bool

record batch_item =
  bi_business :: address
  bi_period :: sstring
  bi_root :: bytesn
  bi_timestamp :: nat
  bi_version :: nat
  bi_proof_hash :: "bytesn option"
  bi_expiry :: "nat option"

record att_metadata =
  am_currency_code :: sstring
  am_is_net :: bool

record att_state =
  at_fees :: fee_state
  at_flat :: flat_state
  at_access :: access_state
  at_nonces :: nonces
  at_rate :: rate_state
  at_registry :: registry
  at_dispute :: dispute_state
  at_active :: att_store                        \<comment> \<open>instance \<open>DataKey::Attestation\<close>\<close>
  at_persistent :: att_store                    \<comment> \<open>persistent \<open>DataKey::Attestation\<close>\<close>
  at_snapshots :: att_store                     \<comment> \<open>persistent \<open>DataKey::AttestationSnapshot\<close>\<close>
  at_archived :: att_store                      \<comment> \<open>instance \<open>DataKey::ArchivedAttestation\<close>\<close>
  at_attestor :: "att_key \<rightharpoonup> address"
  at_metadata :: "att_key \<rightharpoonup> att_metadata"
  at_staking :: "address option"
  at_audit :: "address option"
  at_slash_counter :: "nat option"
  at_ranges :: "address \<rightharpoonup> att_range list"
  at_root_index :: "address \<times> bytesn \<rightharpoonup> nat"
  at_analytics :: "address set"
  at_anomaly :: "att_key \<rightharpoonup> nat"

definition att_empty :: att_state where
  "att_empty = \<lparr>at_fees = fee_empty, at_flat = flat_empty, at_access = access_empty, at_nonces = Map.empty,
     at_rate = rate_empty, at_registry = Map.empty, at_dispute = dispute_empty, at_active = Map.empty,
     at_persistent = Map.empty, at_snapshots = Map.empty, at_archived = Map.empty, at_attestor = Map.empty,
     at_metadata = Map.empty, at_staking = None, at_audit = None, at_slash_counter = None,
     at_ranges = Map.empty, at_root_index = Map.empty, at_analytics = {}, at_anomaly = Map.empty\<rparr>"

text \<open>
  The contracts a call may reach, over a world \<open>'w\<close>: the fee token, the DAO, the staking contract
  (\<open>is_eligible\<close>, \<open>slash\<close>), the reputation contract and the audit log. They are parameters; a call of
  theirs that fails fails the caller.
\<close>

record 'w att_ext =
  ex_token :: "'w token_ops"
  ex_dao :: dao_call
  ex_is_eligible :: "address \<Rightarrow> address \<Rightarrow> 'w \<Rightarrow> bool res"
  ex_slash :: "address \<Rightarrow> address \<Rightarrow> int \<Rightarrow> nat \<Rightarrow> 'w \<Rightarrow> 'w res"
  ex_get_reputation :: "address \<Rightarrow> address \<Rightarrow> 'w \<Rightarrow> nat res"
  ex_audit_nonce :: "address \<Rightarrow> address \<Rightarrow> nat \<Rightarrow> 'w \<Rightarrow> nat res"
  ex_audit_append :: "address \<Rightarrow> nat \<Rightarrow> address \<Rightarrow> address \<Rightarrow> sstring \<Rightarrow> sstring \<Rightarrow> 'w \<Rightarrow> 'w res"

section \<open>Checks on the submitted data\<close>

definition validate_period :: "sstring \<Rightarrow> unit res" where
  "validate_period period =
     (if period = [] then Inl (Panic ''period string must not be empty'')
      else if length period \<noteq> 6
      then Inl (Panic ''malformed period string structure: expected YYYYMM format'')
      else Inr ())"

definition validate_expiry :: "ledger_env \<Rightarrow> nat \<Rightarrow> nat option \<Rightarrow> unit res" where
  "validate_expiry env ts expiry_timestamp =
     (case expiry_timestamp of
        Some expiry \<Rightarrow>
          (if expiry \<le> ts then Inl (Panic ''expiry_timestamp must be > timestamp'')
           else if expiry \<le> timestamp env then Inl (Panic ''attestation expired on arrival'')
           else Inr ())
      | None \<Rightarrow> Inr ())"

definition validate_proof_hash :: "bytesn option \<Rightarrow> unit res" where
  "validate_proof_hash proof_hash =
     (case proof_hash of
        Some hash \<Rightarrow> (if list_ex (\<lambda>b. b \<noteq> 0) (bytes hash) then Inr ()
                      else Inl (Panic ''proof_hash must not be all-zero''))
      | None \<Rightarrow> Inr ())"

definition attestation_expired :: "ledger_env \<Rightarrow> att_data \<Rightarrow> bool" where
  "attestation_expired env data = (case ad_expiry data of Some expiry \<Rightarrow> expiry \<le> timestamp env | None \<Rightarrow> False)"

section \<open>Slashing\<close>

definition next_condition_slash_id :: "att_state \<Rightarrow> (nat \<times> att_state) res" where
  "next_condition_slash_id s =
     bindr (u64_chk (unwrap_or (at_slash_counter s) 0 + 1)) (\<lambda>nxt.
     Inr (nxt, s\<lparr>at_slash_counter := Some nxt\<rparr>))"

definition try_trigger_slash ::
  "'w att_ext \<Rightarrow> att_state \<Rightarrow> address \<Rightarrow> int \<Rightarrow> nat \<Rightarrow> 'w \<Rightarrow> (bool \<times> 'w) res" where
  "try_trigger_slash X s attestor amount dispute_id w =
     (case at_staking s of
        None \<Rightarrow> Inr (False, w)
      | Some staking_addr \<Rightarrow>
          bindr (ex_slash X staking_addr attestor amount dispute_id w) (\<lambda>w1. Inr (True, w1)))"

section \<open>Submission\<close>

text \<open>
  What a submission writes once it is admitted: the collection of the fees and the record with its
  checkpoints. \<open>execute_submission\<close> and the loop of \<open>execute_batch_submission\<close> contain this code.
\<close>

definition charge_fees ::
  "'w att_ext \<Rightarrow> address \<Rightarrow> address \<Rightarrow> att_state \<times> 'w \<Rightarrow> (int \<times> att_state \<times> 'w) res" where
  "charge_fees X payer business sw =
     (let (s, w) = sw in
      bindr (collect_fee_from (ex_token X) (ex_dao X) (at_fees s) payer business w) (\<lambda>(dynamic_fee, w1).
      bindr (collect_flat_fee (ex_token X) (ex_dao X) (at_flat s) payer w1) (\<lambda>(flat_fee, w2).
      bindr (i128_chk (dynamic_fee + flat_fee)) (\<lambda>total_fee.
      bindr (increment_business_count (at_fees s) business) (\<lambda>(_, f1).
      Inr (total_fee, s\<lparr>at_fees := f1\<rparr>, w2))))))"

definition write_record ::
  "ledger_env \<Rightarrow> address \<Rightarrow> sstring \<Rightarrow> att_data \<Rightarrow> att_state \<Rightarrow> att_state" where
  "write_record env business period data s =
     (let s1 = s\<lparr>at_active := (at_active s)((business, period) \<mapsto> data)\<rparr>;
          f1 = snd (increment_epoch_submissions (at_fees s1) period 1);
          f2 = snd (accumulate_epoch_fees f1 period (ad_fee data));
          f3 = snd (increment_backfill_count f2) in
      s1\<lparr>at_fees := f3, at_rate := record_submission env (at_rate s1) business\<rparr>)"

definition execute_submission ::
  "ledger_env \<Rightarrow> 'w att_ext \<Rightarrow> address \<Rightarrow> address option \<Rightarrow> address \<Rightarrow> sstring \<Rightarrow> bytesn \<Rightarrow> nat \<Rightarrow> nat \<Rightarrow>
   bytesn option \<Rightarrow> nat option \<Rightarrow> att_state \<times> 'w \<Rightarrow> (att_state \<times> 'w) res" where
  "execute_submission env X payer attestor business period merkle_root ts version proof_hash expiry sw =
     (let (s, w) = sw; is_delegated = (payer \<noteq> business) in
      bindr (require_not_paused env (at_access s)) (\<lambda>ac.
      bindr (require_active_business (at_registry s) business) (\<lambda>_.
      bindr (check_rate_limit env (at_rate s) business) (\<lambda>rl.
      bindr (handle_epoch_rollover env (at_fees s)) (\<lambda>f1.
      (let s1 = s\<lparr>at_access := ac, at_rate := rl, at_fees := f1\<rparr> in
       if at_active s1 (business, period) \<noteq> None
       then bindr (case attestor of
                     Some a \<Rightarrow> bindr (next_condition_slash_id s1) (\<lambda>(i, s2).
                               bindr (try_trigger_slash X s2 a 1000 i w) (\<lambda>_. Inr ()))
                   | None \<Rightarrow> Inr ()) (\<lambda>_.
            Inl (Panic ''attestation already exists for this business and period''))
       else
         bindr (validate_expiry env ts expiry) (\<lambda>_.
         bindr (validate_proof_hash proof_hash) (\<lambda>_.
         (let s2 = (case attestor of
                      Some a \<Rightarrow> s1\<lparr>at_attestor := (at_attestor s1)((business, period) \<mapsto> a)\<rparr>
                    | None \<Rightarrow> s1) in
          bindr (charge_fees X payer business (s2, w)) (\<lambda>(total_fee, s3, w1).
          (let s4 = write_record env business period
                      \<lparr>ad_root = merkle_root, ad_timestamp = ts, ad_version = version, ad_fee = total_fee,
                       ad_proof_hash = proof_hash, ad_expiry = expiry\<rparr> s3;
               s5 = (if is_delegated then s4\<lparr>at_fees := add_relayer_gas (at_fees s4) payer 0\<rparr> else s4) in
           Inr (s5, w1))))))))))))"

definition submit_attestation ::
  "ledger_env \<Rightarrow> 'w att_ext \<Rightarrow> address \<Rightarrow> sstring \<Rightarrow> bytesn \<Rightarrow> nat \<Rightarrow> nat \<Rightarrow> int \<Rightarrow> bytesn option \<Rightarrow> nat option \<Rightarrow>
   att_state \<times> 'w \<Rightarrow> (att_state \<times> 'w) res" where
  "submit_attestation env X business period merkle_root ts version fee_paid proof_hash expiry sw =
     bindr (require_auth env business) (\<lambda>_.
     execute_submission env X business None business period merkle_root ts version proof_hash expiry sw)"

text \<open>The three gates in front of both attestor entry points: the lock, the stake and the reputation.\<close>

definition attestor_gates :: "ledger_env \<Rightarrow> 'w att_ext \<Rightarrow> address \<Rightarrow> att_state \<times> 'w \<Rightarrow> unit res" where
  "attestor_gates env X attestor sw =
     (let (s, w) = sw in
      bindr (require_attestor_not_locked (is_attestor_locked (at_dispute s)) env (at_access s) attestor) (\<lambda>_.
      bindr (case at_staking s of
               Some staking_addr \<Rightarrow>
                 bindr (ex_is_eligible X staking_addr attestor w) (\<lambda>ok.
                 if \<not> ok then Inl (Panic ''attestor is not eligible'') else Inr ())
             | None \<Rightarrow> Inr ()) (\<lambda>_.
      case get_reputation_contract (at_fees s) of
        Some c \<Rightarrow>
          bindr (ex_get_reputation X c attestor w) (\<lambda>score.
          if \<not> get_min_reputation (at_fees s) \<le> score
          then Inl (Panic ''attestor reputation below minimum threshold'') else Inr ())
      | None \<Rightarrow> Inr ())))"

definition submit_attestation_as_attestor ::
  "ledger_env \<Rightarrow> 'w att_ext \<Rightarrow> address \<Rightarrow> address \<Rightarrow> sstring \<Rightarrow> bytesn \<Rightarrow> nat \<Rightarrow> nat \<Rightarrow> nat option \<Rightarrow>
   att_state \<times> 'w \<Rightarrow> (att_state \<times> 'w) res" where
  "submit_attestation_as_attestor env X attestor business period merkle_root ts version expiry sw =
     bindr (attestor_gates env X attestor sw) (\<lambda>_.
     bindr (execute_submission env X attestor (Some attestor) business period merkle_root ts version None expiry sw)
       (\<lambda>(s1, w1).
     Inr (s1\<lparr>at_dispute := store_attestor_for_attestation (at_dispute s1) business period attestor\<rparr>, w1)))"

section \<open>Batches\<close>

text \<open>The authorization loop of both batch entry points, over the businesses already asked.\<close>

fun auth_loop :: "ledger_env \<Rightarrow> address list \<Rightarrow> batch_item list \<Rightarrow> unit res" where
  "auth_loop env authed [] = Inr ()"
| "auth_loop env authed (item # items) =
     (if List.member authed (bi_business item) then auth_loop env authed items
      else bindr (require_auth env (bi_business item)) (\<lambda>_.
           auth_loop env (authed @ [bi_business item]) items))"

fun validation_loop ::
  "ledger_env \<Rightarrow> att_state \<Rightarrow> bool \<Rightarrow> address list \<Rightarrow> att_key list \<Rightarrow> batch_item list \<Rightarrow> unit res" where
  "validation_loop env s require_business_auth authed seen [] = Inr ()"
| "validation_loop env s require_business_auth authed seen (item # items) =
     (let business = bi_business item; pair = (bi_business item, bi_period item) in
      bindr (if require_business_auth \<and> \<not> List.member authed business
             then bindr (require_auth env business) (\<lambda>_. Inr (authed @ [business]))
             else Inr authed) (\<lambda>authed1.
      bindr (require_active_business (at_registry s) business) (\<lambda>_.
      bindr (assertr (\<not> List.member seen pair) ''duplicate attestation in batch'') (\<lambda>_.
      bindr (assertr (at_active s pair = None) ''attestation already exists'') (\<lambda>_.
      bindr (validate_expiry env (bi_timestamp item) (bi_expiry item)) (\<lambda>_.
      bindr (validate_proof_hash (bi_proof_hash item)) (\<lambda>_.
      validation_loop env s require_business_auth authed1 (seen @ [pair]) items)))))))"

definition store_item ::
  "ledger_env \<Rightarrow> 'w att_ext \<Rightarrow> address option \<Rightarrow> batch_item \<Rightarrow> att_state \<times> 'w \<Rightarrow> (att_state \<times> 'w) res" where
  "store_item env X payer item sw =
     (let (s, w) = sw; business = bi_business item; fee_payer = unwrap_or payer (bi_business item) in
      bindr (check_rate_limit env (at_rate s) business) (\<lambda>rl.
      bindr (handle_epoch_rollover env (at_fees s)) (\<lambda>f1.
      bindr (charge_fees X fee_payer business (s\<lparr>at_rate := rl, at_fees := f1\<rparr>, w)) (\<lambda>(total_fee, s2, w1).
      (let s3 = (case payer of
                   Some p \<Rightarrow> s2\<lparr>at_attestor := (at_attestor s2)((business, bi_period item) \<mapsto> p)\<rparr>
                 | None \<Rightarrow> s2) in
       Inr (write_record env business (bi_period item)
              \<lparr>ad_root = bi_root item, ad_timestamp = bi_timestamp item, ad_version = bi_version item,
               ad_fee = total_fee, ad_proof_hash = bi_proof_hash item, ad_expiry = bi_expiry item\<rparr> s3, w1))))))"

fun store_loop ::
  "ledger_env \<Rightarrow> 'w att_ext \<Rightarrow> address option \<Rightarrow> batch_item list \<Rightarrow> att_state \<times> 'w \<Rightarrow> (att_state \<times> 'w) res" where
  "store_loop env X payer [] sw = Inr sw"
| "store_loop env X payer (item # items) sw =
     bindr (store_item env X payer item sw) (store_loop env X payer items)"

definition execute_batch_submission ::
  "ledger_env \<Rightarrow> 'w att_ext \<Rightarrow> address option \<Rightarrow> batch_item list \<Rightarrow> bool \<Rightarrow> att_state \<times> 'w \<Rightarrow>
   (att_state \<times> 'w) res" where
  "execute_batch_submission env X payer items require_business_auth sw =
     (let (s, w) = sw in
      bindr (require_not_paused env (at_access s)) (\<lambda>ac.
      (let s1 = s\<lparr>at_access := ac\<rparr> in
       bindr (assertr (items \<noteq> []) ''batch cannot be empty'') (\<lambda>_.
       bindr (assertr (length items \<le> MAX_BATCH_SIZE) ''batch exceeds maximum size'') (\<lambda>_.
       bindr (validation_loop env s1 require_business_auth [] [] items) (\<lambda>_.
       bindr (store_loop env X payer items (s1, w)) (\<lambda>(s2, w1).
       Inr (case payer of
              Some relayer \<Rightarrow> (s2\<lparr>at_fees := add_relayer_gas (at_fees s2) relayer 0\<rparr>, w1)
            | None \<Rightarrow> (s2, w1)))))))))"

definition submit_attestations_batch ::
  "ledger_env \<Rightarrow> 'w att_ext \<Rightarrow> batch_item list \<Rightarrow> att_state \<times> 'w \<Rightarrow> (att_state \<times> 'w) res" where
  "submit_attestations_batch env X items sw =
     bindr (assertr (items \<noteq> []) ''batch cannot be empty'') (\<lambda>_.
     bindr (assertr (length items \<le> MAX_BATCH_SIZE) ''batch exceeds maximum size'') (\<lambda>_.
     bindr (auth_loop env [] items) (\<lambda>_.
     execute_batch_submission env X None items False sw)))"

definition submit_batch_as_attestor ::
  "ledger_env \<Rightarrow> 'w att_ext \<Rightarrow> address \<Rightarrow> batch_item list \<Rightarrow> att_state \<times> 'w \<Rightarrow> (att_state \<times> 'w) res" where
  "submit_batch_as_attestor env X attestor items sw =
     bindr (attestor_gates env X attestor sw) (\<lambda>_.
     bindr (execute_batch_submission env X (Some attestor) items True sw) (\<lambda>(s1, w1).
     Inr (s1\<lparr>at_dispute := foldl (\<lambda>d item.
            store_attestor_for_attestation d (bi_business item) (bi_period item) attestor) (at_dispute s1) items\<rparr>, w1)))"

section \<open>Metadata\<close>

definition validate_currency_code :: "sstring \<Rightarrow> unit res" where
  "validate_currency_code code =
     bindr (assertr (0 < length code) ''currency code cannot be empty'') (\<lambda>_.
     assertr (length code \<le> CURRENCY_CODE_MAX_LEN) ''currency code too long'')"

definition validate_metadata :: "sstring \<Rightarrow> bool \<Rightarrow> att_metadata res" where
  "validate_metadata currency_code is_net =
     bindr (validate_currency_code currency_code) (\<lambda>_.
     Inr \<lparr>am_currency_code = currency_code, am_is_net = is_net\<rparr>)"

definition set_metadata :: "att_state \<Rightarrow> address \<Rightarrow> sstring \<Rightarrow> att_metadata \<Rightarrow> att_state" where
  "set_metadata s business period m = s\<lparr>at_metadata := (at_metadata s)((business, period) \<mapsto> m)\<rparr>"

definition get_metadata :: "att_state \<Rightarrow> address \<Rightarrow> sstring \<Rightarrow> att_metadata option" where
  "get_metadata s business period = at_metadata s (business, period)"

definition has_metadata :: "att_state \<Rightarrow> address \<Rightarrow> sstring \<Rightarrow> bool" where
  "has_metadata s business period \<longleftrightarrow> get_metadata s business period \<noteq> None"

definition remove_metadata :: "att_state \<Rightarrow> address \<Rightarrow> sstring \<Rightarrow> att_state" where
  "remove_metadata s business period = s\<lparr>at_metadata := (at_metadata s)((business, period) := None)\<rparr>"

definition submit_attestation_with_metadata ::
  "ledger_env \<Rightarrow> 'w att_ext \<Rightarrow> address \<Rightarrow> sstring \<Rightarrow> bytesn \<Rightarrow> nat \<Rightarrow> nat \<Rightarrow> sstring \<Rightarrow> bool \<Rightarrow>
   att_state \<times> 'w \<Rightarrow> (att_state \<times> 'w) res" where
  "submit_attestation_with_metadata env X business period merkle_root ts version currency_code is_net sw =
     bindr (submit_attestation env X business period merkle_root ts version 0 None None sw) (\<lambda>(s1, w1).
     bindr (validate_metadata currency_code is_net) (\<lambda>m.
     Inr (set_metadata s1 business period m, w1)))"

section \<open>Reading and verifying\<close>

definition get_attestation :: "att_state \<Rightarrow> address \<Rightarrow> sstring \<Rightarrow> att_data option \<times> att_state" where
  "get_attestation s business period =
     (case at_persistent s (business, period) of
        Some data \<Rightarrow> (Some data, s)
      | None \<Rightarrow>
          (case at_snapshots s (business, period) of
             Some data \<Rightarrow> (Some data, s\<lparr>at_persistent := (at_persistent s)((business, period) \<mapsto> data)\<rparr>)
           | None \<Rightarrow> (None, s)))"

text \<open>
  \<open>get::<bool>(Revoked)\<close> decodes a stored \<open>RevocationData\<close> tuple as a bool, which fails the call.
\<close>

definition verify_merkle_entry ::
  "(byte list \<Rightarrow> bytesn) \<Rightarrow> att_state \<Rightarrow> address \<Rightarrow> sstring \<Rightarrow> bytesn \<Rightarrow> bytesn list \<Rightarrow> (bool \<times> att_state) res" where
  "verify_merkle_entry sha s business period leaf proof =
     (case get_attestation s business period of
        (None, s1) \<Rightarrow> Inr (False, s1)
      | (Some data, s1) \<Rightarrow>
          (if ds_revoked (at_dispute s1) (business, period) \<noteq> None then Inl (Panic ''conversion'')
           else Inr (verify_merkle_proof sha (ad_root data) leaf proof, s1)))"

definition is_expired :: "ledger_env \<Rightarrow> att_state \<Rightarrow> address \<Rightarrow> sstring \<Rightarrow> bool \<times> att_state" where
  "is_expired env s business period =
     (case get_attestation s business period of
        (Some data, s1) \<Rightarrow> (attestation_expired env data, s1) | (None, s1) \<Rightarrow> (False, s1))"

definition get_attestation_with_status ::
  "att_state \<Rightarrow> address \<Rightarrow> sstring \<Rightarrow> (att_data \<times> revocation_data option) option \<times> att_state" where
  "get_attestation_with_status s business period =
     (case get_attestation s business period of
        (Some data, s1) \<Rightarrow> (Some (data, get_attestation_revocation (at_dispute s1) business period), s1)
      | (None, s1) \<Rightarrow> (None, s1))"

definition verify_attestation ::
  "ledger_env \<Rightarrow> att_state \<Rightarrow> address \<Rightarrow> sstring \<Rightarrow> bytesn \<Rightarrow> bool \<times> att_state" where
  "verify_attestation env s business period merkle_root =
     (case get_attestation s business period of
        (Some data, s1) \<Rightarrow>
          (if attestation_expired env data then (False, s1)
           else (ad_root data = merkle_root \<and> \<not> is_attestation_revoked (at_dispute s1) business period, s1))
      | (None, s1) \<Rightarrow> (False, s1))"

fun verify_loop ::
  "ledger_env \<Rightarrow> att_state \<Rightarrow> (address \<times> sstring \<times> bytesn) list \<Rightarrow> bool list \<Rightarrow> bool list \<times> att_state" where
  "verify_loop env s [] results = (results, s)"
| "verify_loop env s ((business, period, provided_root) # items) results =
     (case get_attestation s business period of
        (Some data, s1) \<Rightarrow>
          (let is_valid = (ad_root data = provided_root \<and> \<not> is_attestation_revoked (at_dispute s1) business period);
               is_valid1 = (if attestation_expired env data then False else is_valid) in
           verify_loop env s1 items (results @ [is_valid1]))
      | (None, s1) \<Rightarrow> verify_loop env s1 items (results @ [False]))"

definition verify_attestations_batch ::
  "ledger_env \<Rightarrow> att_state \<Rightarrow> (address \<times> sstring \<times> bytesn) list \<Rightarrow> (bool list \<times> att_state) res" where
  "verify_attestations_batch env s items =
     bindr (assertr (items \<noteq> []) ''batch cannot be empty'') (\<lambda>_.
     bindr (assertr (length items \<le> MAX_BATCH_SIZE_VERIFY) ''batch exceeds maximum size'') (\<lambda>_.
     Inr (verify_loop env s items [])))"

definition get_proof_hash :: "att_state \<Rightarrow> address \<Rightarrow> sstring \<Rightarrow> bytesn option \<times> att_state" where
  "get_proof_hash s business period =
     (case get_attestation s business period of (r, s1) \<Rightarrow> (Option.bind r ad_proof_hash, s1))"

text \<open>
  \<open>extend_ttl\<close> of a persistent entry that does not exist is an error of the host; \<open>network_config\<close>
  only supplies the two TTLs.
\<close>

fun status_loop ::
  "att_state \<Rightarrow> address \<Rightarrow> sstring list \<Rightarrow> (sstring \<times> att_data option \<times> revocation_data option) list \<Rightarrow>
   ((sstring \<times> att_data option \<times> revocation_data option) list \<times> att_state) res" where
  "status_loop s business [] result = Inr (result, s)"
| "status_loop s business (period # periods) result =
     (case at_active s (business, period) of
        Some data \<Rightarrow>
          bindr (assertr (at_persistent s (business, period) \<noteq> None) ''missing persistent entry'') (\<lambda>_.
          status_loop s business periods
            (result @ [(period, Some data, get_attestation_revocation (at_dispute s) business period)]))
      | None \<Rightarrow>
          (case at_snapshots s (business, period) of
             Some data \<Rightarrow>
               (let s1 = s\<lparr>at_persistent := (at_persistent s)((business, period) \<mapsto> data),
                           at_snapshots := (at_snapshots s)((business, period) := None)\<rparr> in
                status_loop s1 business periods
                  (result @ [(period, Some data, get_attestation_revocation (at_dispute s1) business period)]))
           | None \<Rightarrow> status_loop s business periods result))"

definition get_business_attestations ::
  "att_state \<Rightarrow> address \<Rightarrow> sstring list \<Rightarrow>
   ((sstring \<times> att_data option \<times> revocation_data option) list \<times> att_state) res" where
  "get_business_attestations s business periods = status_loop s business periods []"

section \<open>Pages\<close>

datatype ordering = OLess | OEqual | OGreater

text \<open>Lengths first, then the bytes; strings longer than the buffer of 64 bytes panic.\<close>

fun byte_cmp :: "sstring \<Rightarrow> sstring \<Rightarrow> ordering" where
  "byte_cmp [] [] = OEqual"
| "byte_cmp [] (y # ys) = OLess"
| "byte_cmp (x # xs) [] = OGreater"
| "byte_cmp (x # xs) (y # ys) =
     (if (of_char x :: nat) < of_char y then OLess
      else if (of_char y :: nat) < of_char x then OGreater else byte_cmp xs ys)"

definition compare_strings :: "sstring \<Rightarrow> sstring \<Rightarrow> ordering res" where
  "compare_strings a b =
     (let la = length a; lb = length b in
      if la \<noteq> lb then Inr (if la < lb then OLess else OGreater)
      else if la = 0 then Inr OEqual
      else if 64 < la then Inl (Panic ''string too long for compare'')
      else Inr (byte_cmp a b))"

type_synonym page_row = "sstring \<times> bytesn \<times> nat \<times> nat \<times> nat"

definition out_of_range :: "sstring option \<Rightarrow> ordering \<Rightarrow> sstring \<Rightarrow> bool res" where
  "out_of_range bound dir period =
     (case bound of None \<Rightarrow> Inr False | Some b \<Rightarrow> bindr (compare_strings period b) (\<lambda>c. Inr (c = dir)))"

definition page_row_of ::
  "att_state \<Rightarrow> address \<Rightarrow> sstring \<Rightarrow> nat \<Rightarrow> nat option \<Rightarrow> page_row option \<times> att_state" where
  "page_row_of s business period status_filter version_filter =
     (case get_attestation s business period of
        (None, s1) \<Rightarrow> (None, s1)
      | (Some data, s1) \<Rightarrow>
          (if (case version_filter of Some v \<Rightarrow> ad_version data \<noteq> v | None \<Rightarrow> False) then (None, s1)
           else
             (let is_rev = is_attestation_revoked (at_dispute s1) business period;
                  status = (if is_rev then STATUS_ACTIVE + 1 else STATUS_ACTIVE) in
              if status_filter \<noteq> STATUS_FILTER_ALL \<and> status \<noteq> status_filter then (None, s1)
              else (Some (period, ad_root data, ad_timestamp data, ad_version data, status), s1))))"

function page_loop ::
  "address \<Rightarrow> sstring list \<Rightarrow> sstring option \<Rightarrow> sstring option \<Rightarrow> nat \<Rightarrow> nat option \<Rightarrow> nat \<Rightarrow>
   page_row list \<Rightarrow> nat \<Rightarrow> att_state \<Rightarrow> (page_row list \<times> nat \<times> att_state) res" where
  "page_loop business periods p_start p_end status_filter version_filter limit results cursor s =
     (if length results < limit \<and> cursor < length periods
      then
        (let period = periods ! cursor; next_cursor = cursor + 1 in
         bindr (out_of_range p_start OLess period) (\<lambda>before.
         if before
         then page_loop business periods p_start p_end status_filter version_filter limit results next_cursor s
         else
           bindr (out_of_range p_end OGreater period) (\<lambda>after.
           if after
           then page_loop business periods p_start p_end status_filter version_filter limit results next_cursor s
           else
             (case page_row_of s business period status_filter version_filter of
                (row, s1) \<Rightarrow>
                  page_loop business periods p_start p_end status_filter version_filter limit
                    (case row of Some r \<Rightarrow> results @ [r] | None \<Rightarrow> results) next_cursor s1))))
      else Inr (results, cursor, s))"
  by pat_completeness auto
termination
  by (relation "measure (\<lambda>(_, periods, _, _, _, _, _, _, cursor, _). length periods - cursor)") auto

declare page_loop.simps [simp del]

definition get_attestations_page ::
  "att_state \<Rightarrow> address \<Rightarrow> sstring list \<Rightarrow> sstring option \<Rightarrow> sstring option \<Rightarrow> nat \<Rightarrow> nat option \<Rightarrow> nat \<Rightarrow> nat \<Rightarrow>
   (page_row list \<times> nat \<times> att_state) res" where
  "get_attestations_page s business periods p_start p_end status_filter version_filter limit cursor =
     page_loop business periods p_start p_end status_filter version_filter (if 30 < limit then 30 else limit) [] cursor s"

section \<open>Fee quotes\<close>

definition get_fee_quote :: "dao_call \<Rightarrow> att_state \<Rightarrow> address \<Rightarrow> int res" where
  "get_fee_quote dao_config s business =
     bindr (calculate_fee dao_config (at_fees s) business) (\<lambda>dyn.
     bindr (calculate_flat_fee dao_config (at_flat s)) (\<lambda>flat. i128_chk (dyn + flat)))"

definition get_fee_quote_detailed :: "dao_call \<Rightarrow> att_state \<Rightarrow> address \<Rightarrow> (int \<times> nat \<times> nat \<times> int \<times> int) res" where
  "get_fee_quote_detailed dao_config s business =
     bindr (calculate_flat_fee dao_config (at_flat s)) (\<lambda>flat.
     bindr (calculate_fee dao_config (at_fees s) business) (\<lambda>dyn.
     bindr (get_effective_fee_config dao_config (at_fees s)) (\<lambda>opt.
     bindr (case opt of
              Some c \<Rightarrow>
                (if fc_enabled c
                 then bindr (volume_discount_for_count (at_fees s) (get_business_count (at_fees s) business)) (\<lambda>vol.
                      Inr (fc_base_fee c, get_tier_discount (at_fees s) (get_business_tier (at_fees s) business), vol))
                 else Inr (0, 0, 0))
            | None \<Rightarrow> Inr (0, 0, 0)) (\<lambda>(base_fee, tier, vol).
     Inr (base_fee, tier, vol, dyn, flat)))))"

section \<open>Frames of a submission\<close>

text \<open>What a submission leaves alone in the storage of the fee module.\<close>

definition fee_frame :: "fee_state \<Rightarrow> fee_state \<Rightarrow> bool" where
  "fee_frame f f' \<longleftrightarrow>
     fs_admin f' = fs_admin f \<and> fs_fee_config f' = fs_fee_config f \<and> fs_pending_fee f' = fs_pending_fee f \<and>
     fs_paused f' = fs_paused f \<and> fs_dao f' = fs_dao f \<and> fs_tier_discount f' = fs_tier_discount f \<and>
     fs_business_tier f' = fs_business_tier f \<and> fs_thresholds f' = fs_thresholds f \<and>
     fs_discounts f' = fs_discounts f \<and> fs_cleanup_count f' = fs_cleanup_count f \<and> fs_grace f' = fs_grace f \<and>
     fs_proposals f' = fs_proposals f \<and> fs_pending_staking f' = fs_pending_staking f \<and>
     fs_archive_index f' = fs_archive_index f \<and> fs_archive_pointers f' = fs_archive_pointers f \<and>
     fs_retention f' = fs_retention f \<and> fs_reputation f' = fs_reputation f \<and> fs_min_reputation f' = fs_min_reputation f"

lemma fee_frame_refl [simp]: "fee_frame f f"
  by (simp add: fee_frame_def)

lemma fee_frame_trans: "fee_frame f g \<Longrightarrow> fee_frame g h \<Longrightarrow> fee_frame f h"
  by (simp add: fee_frame_def)

lemma rollover_fee_frame:
  assumes "handle_epoch_rollover env f = Inr f'"
  shows "fee_frame f f'" and "fs_business_count f' = fs_business_count f"
  using rollover_frame [OF assms] by (auto simp: fee_frame_def)

lemma increment_count_frame:
  "increment_business_count f b = Inr (n, f') \<Longrightarrow>
   n = get_business_count f b + 1 \<and> f' = f\<lparr>fs_business_count := (fs_business_count f)(b \<mapsto> n)\<rparr>"
  by (auto simp: increment_business_count_def)

definition sub_frame :: "att_state \<Rightarrow> att_state \<Rightarrow> bool" where
  "sub_frame s s' \<longleftrightarrow>
     at_flat s' = at_flat s \<and> at_nonces s' = at_nonces s \<and> at_registry s' = at_registry s \<and>
     at_dispute s' = at_dispute s \<and> at_persistent s' = at_persistent s \<and> at_snapshots s' = at_snapshots s \<and>
     at_archived s' = at_archived s \<and> at_metadata s' = at_metadata s \<and> at_staking s' = at_staking s \<and>
     at_audit s' = at_audit s \<and> at_slash_counter s' = at_slash_counter s \<and> at_ranges s' = at_ranges s \<and>
     at_root_index s' = at_root_index s \<and> at_analytics s' = at_analytics s \<and>
     at_anomaly s' = at_anomaly s \<and> fee_frame (at_fees s) (at_fees s')"

lemma sub_frame_refl [simp]: "sub_frame s s"
  by (simp add: sub_frame_def)

lemma sub_frame_trans: "sub_frame s t \<Longrightarrow> sub_frame t u \<Longrightarrow> sub_frame s u"
  by (auto simp: sub_frame_def intro: fee_frame_trans)

lemma charge_cases:
  assumes "charge_fees X payer business (s, w) = Inr (fee, s', w')"
  obtains dyn w1 flat where
    "collect_fee_from (ex_token X) (ex_dao X) (at_fees s) payer business w = Inr (dyn, w1)"
    "collect_flat_fee (ex_token X) (ex_dao X) (at_flat s) payer w1 = Inr (flat, w')"
    "fee = dyn + flat" "in_i128 fee"
    "s' = s\<lparr>at_fees := (at_fees s)\<lparr>fs_business_count :=
       (fs_business_count (at_fees s))(business \<mapsto> get_business_count (at_fees s) business + 1)\<rparr>\<rparr>"
  using assms that by (fastforce simp: charge_fees_def dest: increment_count_frame)

lemma charge_frame:
  assumes "charge_fees X payer business (s, w) = Inr (fee, s', w')"
  shows "sub_frame s s'" "at_access s' = at_access s" "at_attestor s' = at_attestor s" "at_active s' = at_active s"
    "at_rate s' = at_rate s"
  using assms by (rule charge_cases, simp add: sub_frame_def fee_frame_def)+

lemma write_record_frame:
  "at_active (write_record env b p data s) = (at_active s)((b, p) \<mapsto> data)"
  "at_access (write_record env b p data s) = at_access s"
  "at_attestor (write_record env b p data s) = at_attestor s"
  "fs_business_count (at_fees (write_record env b p data s)) = fs_business_count (at_fees s)"
  "at_rate (write_record env b p data s) = record_submission env (at_rate s) b"
  "sub_frame s (write_record env b p data s)"
  by (simp_all add: write_record_def Let_def increment_epoch_submissions_def accumulate_epoch_fees_def
      increment_backfill_count_def sub_frame_def fee_frame_def)

lemma require_not_paused_Inr:
  "require_not_paused env ac = Inr ac' \<longleftrightarrow>
     ac' = check_and_apply_pending_pause env ac \<and> \<not> is_paused ac'"
  by (auto simp: require_not_paused_def Let_def)

lemma require_not_paused_again:
  "require_not_paused env ac = Inr ac' \<Longrightarrow> require_not_paused env ac' = Inr ac'"
  by (auto simp: require_not_paused_Inr check_and_apply_pending_pause_def get_pending_pause_effective_at_def
      clear_pending_pause_def split: option.splits if_splits)

lemma require_active_Inr: "require_active_business m b = Inr u \<longleftrightarrow> get_status m b = Some BizActive"
  by (auto simp: require_active_business_def get_status_def get_record_opt_def
      split: option.splits business_status.splits)

text \<open>A successful submission, taken apart.\<close>

lemma execute_cases:
  assumes "execute_submission env X payer attestor b p root ts ver ph expiry (s, w) = Inr (s', w')"
  obtains ac rl f1 fee s3 s1 data where
    "require_not_paused env (at_access s) = Inr ac" "get_status (at_registry s) b = Some BizActive"
    "check_rate_limit env (at_rate s) b = Inr rl" "handle_epoch_rollover env (at_fees s) = Inr f1"
    "at_active s (b, p) = None" "validate_expiry env ts expiry = Inr ()" "validate_proof_hash ph = Inr ()"
    "s1 = s\<lparr>at_access := ac, at_rate := rl, at_fees := f1,
       at_attestor := (case attestor of Some a \<Rightarrow> (at_attestor s)((b, p) \<mapsto> a) | None \<Rightarrow> at_attestor s)\<rparr>"
    "charge_fees X payer b (s1, w) = Inr (fee, s3, w')"
    "data = \<lparr>ad_root = root, ad_timestamp = ts, ad_version = ver, ad_fee = fee, ad_proof_hash = ph, ad_expiry = expiry\<rparr>"
    "s' = (let s4 = write_record env b p data s3
           in if payer \<noteq> b then s4\<lparr>at_fees := add_relayer_gas (at_fees s4) payer 0\<rparr> else s4)"
proof -
  obtain ac rl f1 where a: "require_not_paused env (at_access s) = Inr ac" "require_active_business (at_registry s) b = Inr ()"
    "check_rate_limit env (at_rate s) b = Inr rl" "handle_epoch_rollover env (at_fees s) = Inr f1"
    using assms by (auto simp: execute_submission_def)
  have n: "at_active s (b, p) = None"
    using assms a by (auto simp: execute_submission_def Let_def split: if_splits option.splits)
  let ?s1 = "s\<lparr>at_access := ac, at_rate := rl, at_fees := f1,
       at_attestor := (case attestor of Some a \<Rightarrow> (at_attestor s)((b, p) \<mapsto> a) | None \<Rightarrow> at_attestor s)\<rparr>"
  have s1: "(case attestor of
        Some a \<Rightarrow> s\<lparr>at_access := ac, at_rate := rl, at_fees := f1, at_attestor := (at_attestor s)((b, p) \<mapsto> a)\<rparr>
      | None \<Rightarrow> s\<lparr>at_access := ac, at_rate := rl, at_fees := f1\<rparr>) = ?s1"
    by (auto split: option.split)
  obtain fee s3 where b: "validate_expiry env ts expiry = Inr ()" "validate_proof_hash ph = Inr ()"
    "charge_fees X payer b (?s1, w) = Inr (fee, s3, w')"
    "s' = (let s4 = write_record env b p \<lparr>ad_root = root, ad_timestamp = ts, ad_version = ver, ad_fee = fee,
               ad_proof_hash = ph, ad_expiry = expiry\<rparr> s3
           in if payer \<noteq> b then s4\<lparr>at_fees := add_relayer_gas (at_fees s4) payer 0\<rparr> else s4)"
    using assms a n s1 by (auto simp: execute_submission_def Let_def cong: option.case_cong if_cong split: prod.splits)
  show thesis
    by (rule that [OF a(1) _ a(3,4) n b(1,2) refl b(3) refl b(4)]) (use a(2) in \<open>simp add: require_active_Inr\<close>)
qed

lemma relayer_frame [simp]:
  "sub_frame s (s\<lparr>at_fees := add_relayer_gas (at_fees s) p n\<rparr>)"
  by (simp add: sub_frame_def fee_frame_def add_relayer_gas_def)

lemma execute_frame:
  assumes "execute_submission env X payer attestor b p root ts ver ph expiry (s, w) = Inr (s', w')"
  shows "sub_frame s s'"
    and "at_access s' = check_and_apply_pending_pause env (at_access s)"
    and "at_attestor s' = (case attestor of Some a \<Rightarrow> (at_attestor s)((b, p) \<mapsto> a) | None \<Rightarrow> at_attestor s)"
    and "\<exists>data. at_active s' = (at_active s)((b, p) \<mapsto> data)"
  using assms
proof -
  from assms obtain ac rl f1 fee s3 s1 data where e:
    "require_not_paused env (at_access s) = Inr ac" "handle_epoch_rollover env (at_fees s) = Inr f1"
    "s1 = s\<lparr>at_access := ac, at_rate := rl, at_fees := f1,
       at_attestor := (case attestor of Some a \<Rightarrow> (at_attestor s)((b, p) \<mapsto> a) | None \<Rightarrow> at_attestor s)\<rparr>"
    "charge_fees X payer b (s1, w) = Inr (fee, s3, w')"
    "s' = (let s4 = write_record env b p data s3
           in if payer \<noteq> b then s4\<lparr>at_fees := add_relayer_gas (at_fees s4) payer 0\<rparr> else s4)"
    by (rule execute_cases)
  have s3: "sub_frame s1 s3" "at_access s3 = at_access s1" "at_attestor s3 = at_attestor s1" "at_active s3 = at_active s1"
    using charge_frame [OF e(4)] by simp_all
  have "sub_frame s s1" using rollover_fee_frame(1) [OF e(2)] by (simp add: e(3) sub_frame_def)
  moreover have "sub_frame s3 s'"
    using sub_frame_trans [OF write_record_frame(6) relayer_frame] write_record_frame(6) by (simp add: e(5) Let_def)
  ultimately show "sub_frame s s'" using s3(1) by (blast intro: sub_frame_trans)
  show "at_access s' = check_and_apply_pending_pause env (at_access s)"
    using e(1) s3(2) by (simp add: e(3,5) Let_def write_record_frame require_not_paused_Inr)
  show "at_attestor s' = (case attestor of Some a \<Rightarrow> (at_attestor s)((b, p) \<mapsto> a) | None \<Rightarrow> at_attestor s)"
    using s3(3) by (simp add: e(3,5) Let_def write_record_frame)
  show "\<exists>data. at_active s' = (at_active s)((b, p) \<mapsto> data)"
    using s3(4) by (auto simp: e(3,5) Let_def write_record_frame)
qed

section \<open>A batch is the sequence of its submissions\<close>

text \<open>
  One item by itself: as a submission of its business, and as a submission of an attestor past the
  gates of \<open>submit_attestation_as_attestor\<close> (which a batch of an attestor passes once).
\<close>

definition submit_alone :: "ledger_env \<Rightarrow> 'w att_ext \<Rightarrow> batch_item \<Rightarrow> att_state \<times> 'w \<Rightarrow> (att_state \<times> 'w) res" where
  "submit_alone env X i sw =
     submit_attestation env X (bi_business i) (bi_period i) (bi_root i) (bi_timestamp i) (bi_version i) 0
       (bi_proof_hash i) (bi_expiry i) sw"

definition attest_alone ::
  "ledger_env \<Rightarrow> 'w att_ext \<Rightarrow> address \<Rightarrow> batch_item \<Rightarrow> att_state \<times> 'w \<Rightarrow> (att_state \<times> 'w) res" where
  "attest_alone env X a i sw =
     bindr (execute_submission env X a (Some a) (bi_business i) (bi_period i) (bi_root i) (bi_timestamp i)
              (bi_version i) (bi_proof_hash i) (bi_expiry i) sw) (\<lambda>(s1, w1).
     Inr (s1\<lparr>at_dispute := store_attestor_for_attestation (at_dispute s1) (bi_business i) (bi_period i) a\<rparr>, w1))"

lemma attest_alone_entry:
  "bi_proof_hash i = None \<Longrightarrow>
   submit_attestation_as_attestor env X a (bi_business i) (bi_period i) (bi_root i) (bi_timestamp i) (bi_version i)
     (bi_expiry i) sw = bindr (attestor_gates env X a sw) (\<lambda>_. attest_alone env X a i sw)"
  by (simp add: submit_attestation_as_attestor_def attest_alone_def)

fun in_turn :: "('i \<Rightarrow> 'x \<Rightarrow> 'x res) \<Rightarrow> 'i list \<Rightarrow> 'x \<Rightarrow> 'x res" where
  "in_turn f [] x = Inr x"
| "in_turn f (i # is) x = bindr (f i x) (in_turn f is)"

definition item_key :: "batch_item \<Rightarrow> att_key" where
  "item_key i = (bi_business i, bi_period i)"

definition item_ok :: "ledger_env \<Rightarrow> att_state \<Rightarrow> batch_item \<Rightarrow> bool" where
  "item_ok env s i \<longleftrightarrow> get_status (at_registry s) (bi_business i) = Some BizActive \<and> at_active s (item_key i) = None \<and>
     validate_expiry env (bi_timestamp i) (bi_expiry i) = Inr () \<and> validate_proof_hash (bi_proof_hash i) = Inr ()"

lemma validation_loop_Inr:
  "validation_loop env s rba authed seen items = Inr () \<longleftrightarrow>
     (rba \<longrightarrow> (\<forall>i\<in>set items. bi_business i \<in> set authed \<or> authorized env (bi_business i))) \<and>
     (\<forall>i\<in>set items. item_ok env s i) \<and> distinct (map item_key items) \<and> set (map item_key items) \<inter> set seen = {}"
proof (induction items arbitrary: rba authed seen)
  case Nil
  then show ?case by simp
next
  case (Cons i items)
  show ?case
    by (cases rba) (auto simp: Let_def Cons.IH item_ok_def item_key_def require_active_Inr image_iff split: if_splits)
qed

lemma auth_loop_Inr:
  "auth_loop env authed items = Inr () \<longleftrightarrow> (\<forall>i\<in>set items. bi_business i \<in> set authed \<or> authorized env (bi_business i))"
  by (induction items arbitrary: authed) auto

text \<open>
  The two parts of the state that a submission of an attestor also writes: the relayer's gas and the
  dispute module's record of the attestor. No later submission reads them.
\<close>

definition with_side :: "(address \<rightharpoonup> nat) \<Rightarrow> dispute_state \<Rightarrow> att_state \<Rightarrow> att_state" where
  "with_side g d s = s\<lparr>at_fees := (at_fees s)\<lparr>fs_relayer_gas := g\<rparr>, at_dispute := d\<rparr>"

lemma with_side_simps [simp]:
  "with_side g d (with_side h e s) = with_side g d s"
  "with_side (fs_relayer_gas (at_fees s)) (at_dispute s) s = s"
  "fs_relayer_gas (at_fees (with_side g d s)) = g" "at_dispute (with_side g d s) = d"
  "at_access (with_side g d s) = at_access s" "at_registry (with_side g d s) = at_registry s"
  "at_active (with_side g d s) = at_active s" "at_rate (with_side g d s) = at_rate s"
  "at_flat (with_side g d s) = at_flat s"
  "at_fees (with_side g d s) = (at_fees s)\<lparr>fs_relayer_gas := g\<rparr>"
  by (simp_all add: with_side_def)

lemma item_ok_side [simp]: "item_ok env (with_side g d s) i = item_ok env s i"
  by (simp add: item_ok_def)

lemma effective_fee_config_cong:
  "fs_dao f' = fs_dao f \<Longrightarrow> fs_fee_config f' = fs_fee_config f \<Longrightarrow>
   get_effective_fee_config dao f' = get_effective_fee_config dao f"
  by (simp add: get_effective_fee_config_def get_fee_config_from_dao_def get_dao_def get_fee_config_def
      cong: option.case_cong)

lemma calculate_fee_cong:
  "fs_dao f' = fs_dao f \<Longrightarrow> fs_fee_config f' = fs_fee_config f \<Longrightarrow> fs_tier_discount f' = fs_tier_discount f \<Longrightarrow>
   fs_business_tier f' = fs_business_tier f \<Longrightarrow> fs_thresholds f' = fs_thresholds f \<Longrightarrow>
   fs_discounts f' = fs_discounts f \<Longrightarrow> fs_business_count f' = fs_business_count f \<Longrightarrow>
   calculate_fee dao f' b = calculate_fee dao f b"
  by (simp add: calculate_fee_def get_effective_fee_config_def get_fee_config_from_dao_def get_dao_def
      get_fee_config_def get_tier_discount_def get_business_tier_def volume_discount_for_count_def
      get_volume_thresholds_def get_volume_discounts_vec_def get_business_count_def Let_def
      cong: option.case_cong if_cong)

lemma advance_times_gas:
  "advance_times n (f\<lparr>fs_relayer_gas := g\<rparr>) = bindr (advance_times n f) (\<lambda>f1. Inr (f1\<lparr>fs_relayer_gas := g\<rparr>))"
proof (induction n arbitrary: f)
  case (Suc n)
  have swap: "f\<lparr>fs_relayer_gas := g, fs_epoch := e\<rparr> = f\<lparr>fs_epoch := e, fs_relayer_gas := g\<rparr>" for e
    by (cases f) simp
  show ?case
    by (cases "get_epoch f + 1 \<le> u64_max")
      (simp_all add: advance_epoch_def get_epoch_def u64_chk_def swap Suc.IH)
qed simp

lemma rollover_gas:
  "handle_epoch_rollover env (f\<lparr>fs_relayer_gas := g\<rparr>) =
     bindr (handle_epoch_rollover env f) (\<lambda>f1. Inr (f1\<lparr>fs_relayer_gas := g\<rparr>))"
proof -
  have "advance_epoch (f\<lparr>fs_relayer_gas := g\<rparr>) = bindr (advance_epoch f) (\<lambda>f1. Inr (f1\<lparr>fs_relayer_gas := g\<rparr>))"
    using advance_times_gas [of 1 g f] by (cases "advance_epoch f"; cases "advance_epoch (f\<lparr>fs_relayer_gas := g\<rparr>)") simp_all
  then show ?thesis
    by (cases "advance_epoch f"; cases "advance_times (timestamp env div FEE_BUCKET_WINDOW_SECONDS - the (fs_last_bucket f)) f")
      (auto simp: handle_epoch_rollover_def Let_def advance_times_gas split: option.splits)
qed

lemma effective_gas [simp]: "get_effective_fee_config dao (f\<lparr>fs_relayer_gas := g\<rparr>) = get_effective_fee_config dao f"
  by (simp add: get_effective_fee_config_def get_fee_config_from_dao_def get_dao_def get_fee_config_def
      cong: option.case_cong)

lemma collect_gas: "collect_fee_from T dao (f\<lparr>fs_relayer_gas := g\<rparr>) payer b w = collect_fee_from T dao f payer b w"
proof -
  have "calculate_fee dao (f\<lparr>fs_relayer_gas := g\<rparr>) b = calculate_fee dao f b" by (rule calculate_fee_cong) simp_all
  then show ?thesis by (simp add: collect_fee_from_def cong: if_cong)
qed

lemma charge_side:
  "charge_fees X payer b (s\<lparr>at_rate := rl, at_fees := f\<lparr>fs_relayer_gas := g\<rparr>, at_dispute := d\<rparr>, w) =
     bindr (charge_fees X payer b (s\<lparr>at_rate := rl, at_fees := f\<rparr>, w)) (\<lambda>(fee, s1, w1). Inr (fee, with_side g d s1, w1))"
proof -
  have "increment_business_count (f\<lparr>fs_relayer_gas := g\<rparr>) b =
      bindr (increment_business_count f b) (\<lambda>(n, f1). Inr (n, f1\<lparr>fs_relayer_gas := g\<rparr>))"
    by (cases "u64_chk (get_business_count f b + 1)") (simp_all add: increment_business_count_def get_business_count_def)
  then show ?thesis
    by (cases "increment_business_count f b")
      (auto simp: charge_fees_def collect_gas with_side_def bindr_def split: sum.splits prod.splits)
qed

lemma write_side: "write_record env b p data (with_side g d s) = with_side g d (write_record env b p data s)"
  by (simp add: write_record_def with_side_def Let_def increment_epoch_submissions_def accumulate_epoch_fees_def
      increment_backfill_count_def)

lemma store_side:
  "store_item env X payer i (with_side g d s, w) =
     bindr (store_item env X payer i (s, w)) (\<lambda>(s1, w1). Inr (with_side g d s1, w1))"
proof -
  have e: "(with_side g d s)\<lparr>at_rate := rl, at_fees := f\<lparr>fs_relayer_gas := g\<rparr>\<rparr> =
      s\<lparr>at_rate := rl, at_fees := f\<lparr>fs_relayer_gas := g\<rparr>, at_dispute := d\<rparr>" for rl f
    by (simp add: with_side_def)
  have at: "(with_side g d t)\<lparr>at_attestor := m\<rparr> = with_side g d (t\<lparr>at_attestor := m\<rparr>)"
    "at_attestor (with_side g d t) = at_attestor t" for t m by (simp_all add: with_side_def)
  show ?thesis
  proof (cases "check_rate_limit env (at_rate s) (bi_business i)")
    case (Inr rl)
    show ?thesis
    proof (cases "handle_epoch_rollover env (at_fees s)")
      case fl: (Inr f1)
      show ?thesis
        by (cases "charge_fees X (unwrap_or payer (bi_business i)) (bi_business i) (s\<lparr>at_rate := rl, at_fees := f1\<rparr>, w)")
          (auto simp: store_item_def Let_def Inr fl rollover_gas e charge_side write_side at split: option.splits)
    qed (simp add: store_item_def Let_def Inr rollover_gas)
  qed (simp add: store_item_def Let_def)
qed

lemma execute_store:
  assumes "require_not_paused env (at_access s) = Inr (at_access s)" and "payer = unwrap_or attestor (bi_business i)"
  shows "execute_submission env X payer attestor (bi_business i) (bi_period i) (bi_root i) (bi_timestamp i) (bi_version i)
      (bi_proof_hash i) (bi_expiry i) (s, w) = Inr r \<longleftrightarrow>
    item_ok env s i \<and> (\<exists>s1 w1. store_item env X attestor i (s, w) = Inr (s1, w1) \<and>
      r = (if payer \<noteq> bi_business i then s1\<lparr>at_fees := add_relayer_gas (at_fees s1) payer 0\<rparr> else s1, w1))"
proof -
  have e: "s\<lparr>at_access := at_access s, at_rate := rl, at_fees := f\<rparr> = s\<lparr>at_rate := rl, at_fees := f\<rparr>" for rl f
    by (cases s) simp
  have c: "charge_fees X q b (t\<lparr>at_attestor := m\<rparr>, w) =
      bindr (charge_fees X q b (t, w)) (\<lambda>(fee, t1, w1). Inr (fee, t1\<lparr>at_attestor := m\<rparr>, w1))" for t m q b
    by (auto simp: charge_fees_def bindr_def split: sum.splits prod.splits)
  show ?thesis
  proof (cases "item_ok env s i")
    case False
    have "item_ok env s i" if "execute_submission env X payer attestor (bi_business i) (bi_period i) (bi_root i)
        (bi_timestamp i) (bi_version i) (bi_proof_hash i) (bi_expiry i) (s, w) = Inr r"
    proof -
      obtain s' w' where "r = (s', w')" by (metis surj_pair)
      with that have "execute_submission env X payer attestor (bi_business i) (bi_period i) (bi_root i)
        (bi_timestamp i) (bi_version i) (bi_proof_hash i) (bi_expiry i) (s, w) = Inr (s', w')" by simp
      then show ?thesis by (rule execute_cases) (simp add: item_ok_def item_key_def)
    qed
    with False show ?thesis by blast
  next
    case True
    then have ok: "require_active_business (at_registry s) (bi_business i) = Inr ()"
      "at_active s (bi_business i, bi_period i) = None" "validate_expiry env (bi_timestamp i) (bi_expiry i) = Inr ()"
      "validate_proof_hash (bi_proof_hash i) = Inr ()"
      by (simp_all add: item_ok_def item_key_def require_active_Inr)
    consider (rate) e where "check_rate_limit env (at_rate s) (bi_business i) = Inl e"
      | (roll) rl e where "check_rate_limit env (at_rate s) (bi_business i) = Inr rl" "handle_epoch_rollover env (at_fees s) = Inl e"
      | (charge) rl f1 e where "check_rate_limit env (at_rate s) (bi_business i) = Inr rl"
          "handle_epoch_rollover env (at_fees s) = Inr f1"
          "charge_fees X payer (bi_business i) (s\<lparr>at_rate := rl, at_fees := f1\<rparr>, w) = Inl e"
      | (go) rl f1 fee t w1 where "check_rate_limit env (at_rate s) (bi_business i) = Inr rl"
          "handle_epoch_rollover env (at_fees s) = Inr f1"
          "charge_fees X payer (bi_business i) (s\<lparr>at_rate := rl, at_fees := f1\<rparr>, w) = Inr (fee, t, w1)"
      by (metis old.sum.exhaust surj_pair)
    then show ?thesis
    proof cases
      case go
      have "at_attestor t = at_attestor s" using charge_frame(3) [OF go(3)] by simp
      with go assms(2) True show ?thesis
        by (cases attestor) (auto simp: execute_submission_def store_item_def assms(1) ok Let_def e c)
    qed (use assms(2) True in \<open>cases attestor; simp add: execute_submission_def store_item_def assms(1) ok Let_def e c\<close>)+
  qed
qed

lemma store_item_frame:
  assumes "store_item env X payer i (s, w) = Inr (s', w')"
  shows "sub_frame s s'" and "at_access s' = at_access s"
    and "\<exists>data. at_active s' = (at_active s)(item_key i \<mapsto> data)"
    and "at_attestor s' = (case payer of Some a \<Rightarrow> (at_attestor s)(item_key i \<mapsto> a) | None \<Rightarrow> at_attestor s)"
proof -
  obtain rl f1 fee s2 data where e: "handle_epoch_rollover env (at_fees s) = Inr f1"
    "charge_fees X (unwrap_or payer (bi_business i)) (bi_business i) (s\<lparr>at_rate := rl, at_fees := f1\<rparr>, w) = Inr (fee, s2, w')"
    "s' = write_record env (bi_business i) (bi_period i) data
       (case payer of Some p \<Rightarrow> s2\<lparr>at_attestor := (at_attestor s2)((bi_business i, bi_period i) \<mapsto> p)\<rparr> | None \<Rightarrow> s2)"
    using assms by (auto simp: store_item_def Let_def split: prod.splits)
  note c = charge_frame [OF e(2)]
  let ?s3 = "case payer of Some p \<Rightarrow> s2\<lparr>at_attestor := (at_attestor s2)((bi_business i, bi_period i) \<mapsto> p)\<rparr> | None \<Rightarrow> s2"
  have "sub_frame s (s\<lparr>at_rate := rl, at_fees := f1\<rparr>)"
    using rollover_fee_frame(1) [OF e(1)] by (simp add: sub_frame_def)
  moreover have "sub_frame s2 ?s3" by (simp add: sub_frame_def split: option.split)
  ultimately show "sub_frame s s'"
    using c(1) write_record_frame(6) unfolding e(3) by (blast intro: sub_frame_trans)
  show "at_access s' = at_access s" "\<exists>data. at_active s' = (at_active s)(item_key i \<mapsto> data)"
    "at_attestor s' = (case payer of Some a \<Rightarrow> (at_attestor s)(item_key i \<mapsto> a) | None \<Rightarrow> at_attestor s)"
    using c(2-4) unfolding e(3) by (auto simp: write_record_frame item_key_def split: option.split)
qed

text \<open>
  Operations that each store one item and then touch only the two side parts, run in turn, are the
  storing loop with all checks made beforehand.
\<close>

lemma in_turn_Inr:
  assumes one: "\<And>i s w r. require_not_paused env (at_access s) = Inr (at_access s) \<Longrightarrow>
      f i (s, w) = Inr r \<longleftrightarrow> P i \<and> item_ok env s i \<and> (\<exists>s1 w1. store_item env X payer i (s, w) = Inr (s1, w1) \<and>
        r = (with_side (G i (fs_relayer_gas (at_fees s1))) (D i (at_dispute s1)) s1, w1))"
    and "require_not_paused env (at_access s) = Inr (at_access s)"
  shows "in_turn f items (with_side g d s, w) = Inr r \<longleftrightarrow>
    (\<forall>i\<in>set items. P i \<and> item_ok env s i) \<and> distinct (map item_key items) \<and>
    (\<exists>s1 w1. store_loop env X payer items (s, w) = Inr (s1, w1) \<and>
      r = (with_side (foldl (\<lambda>g i. G i g) g items) (foldl (\<lambda>d i. D i d) d items) s1, w1))"
  using assms(2)
proof (induction items arbitrary: g d s w)
  case Nil
  then show ?case by auto
next
  case (Cons i items)
  have step: "in_turn f items (with_side (G i g) (D i d) s1, w1) = Inr r \<longleftrightarrow>
      (\<forall>j\<in>set items. P j \<and> item_ok env s j) \<and> item_key i \<notin> set (map item_key items) \<and> distinct (map item_key items) \<and>
      (\<exists>s2 w2. store_loop env X payer items (s1, w1) = Inr (s2, w2) \<and>
        r = (with_side (foldl (\<lambda>g i. G i g) (G i g) items) (foldl (\<lambda>d i. D i d) (D i d) items) s2, w2))" (is "_ \<longleftrightarrow> ?rest s1 w1")
    if "store_item env X payer i (s, w) = Inr (s1, w1)" for s1 w1
  proof -
    note fr = store_item_frame [OF that]
    have "item_ok env s1 j \<longleftrightarrow> item_ok env s j \<and> item_key j \<noteq> item_key i" for j
      using fr(1,3) by (auto simp: item_ok_def sub_frame_def split: if_splits)
    then have "(\<forall>j\<in>set items. P j \<and> item_ok env s1 j) \<longleftrightarrow>
        (\<forall>j\<in>set items. P j \<and> item_ok env s j) \<and> item_key i \<notin> set (map item_key items)"
      by (auto simp: image_iff)
    with Cons.IH [of s1 "G i g" "D i d" w1] Cons.prems fr(2) show ?thesis by auto
  qed
  have "in_turn f (i # items) (with_side g d s, w) = Inr r \<longleftrightarrow>
      (\<exists>s1 w1. P i \<and> item_ok env s i \<and> store_item env X payer i (s, w) = Inr (s1, w1) \<and>
        in_turn f items (with_side (G i g) (D i d) s1, w1) = Inr r)"
    using one [of "with_side g d s" i w] Cons.prems by (auto simp: store_side split: prod.splits)
  also have "\<dots> \<longleftrightarrow> (\<exists>s1 w1. P i \<and> item_ok env s i \<and> store_item env X payer i (s, w) = Inr (s1, w1) \<and> ?rest s1 w1)"
    using step by blast
  finally show ?case by auto
qed

lemma store_loop_side:
  "store_loop env X payer items (s, w) = Inr (s1, w1) \<Longrightarrow>
   fs_relayer_gas (at_fees s1) = fs_relayer_gas (at_fees s) \<and> at_dispute s1 = at_dispute s"
proof (induction items arbitrary: s w)
  case (Cons i items)
  then obtain t u where t: "store_item env X payer i (s, w) = Inr (t, u)" "store_loop env X payer items (t, u) = Inr (s1, w1)"
    by auto
  have "t = with_side (fs_relayer_gas (at_fees s)) (at_dispute s) t"
    using store_side [of env X payer i "fs_relayer_gas (at_fees s)" "at_dispute s" s w] t(1) by simp
  then have "fs_relayer_gas (at_fees t) = fs_relayer_gas (at_fees s)" "at_dispute t = at_dispute s"
    by (metis with_side_simps(3), metis with_side_simps(4))
  with Cons.IH [OF t(2)] show ?case by simp
qed simp

lemma foldl_same: "foldl (\<lambda>x i. x) x is = x"
  by (induction "is") simp_all

lemma submit_alone_store:
  assumes "require_not_paused env (at_access s) = Inr (at_access s)"
  shows "submit_alone env X i (s, w) = Inr r \<longleftrightarrow> authorized env (bi_business i) \<and> item_ok env s i \<and>
    (\<exists>s1 w1. store_item env X None i (s, w) = Inr (s1, w1) \<and>
      r = (with_side (fs_relayer_gas (at_fees s1)) (at_dispute s1) s1, w1))"
  using execute_store [OF assms, of "bi_business i" None i X w r]
  by (auto simp: submit_alone_def submit_attestation_def)

text \<open>What the relayer's account of gas becomes: the delta is zero, but an entry is made.\<close>

definition gas_entry :: "address \<Rightarrow> (address \<rightharpoonup> nat) \<Rightarrow> (address \<rightharpoonup> nat)" where
  "gas_entry a g = g(a \<mapsto> u64_sat (unwrap_or (g a) 0))"

lemma gas_entry_again: "gas_entry a (gas_entry a g) = gas_entry a g"
  by (simp add: gas_entry_def u64_sat_def)

lemma gas_entries: "gas_entry a (foldl (\<lambda>g i. if a \<noteq> bi_business i then gas_entry a g else g) g items) = gas_entry a g"
  by (induction items arbitrary: g) (auto simp: gas_entry_again)

lemma add_gas_entry: "add_relayer_gas f a 0 = f\<lparr>fs_relayer_gas := gas_entry a (fs_relayer_gas f)\<rparr>"
  by (simp add: add_relayer_gas_def get_relayer_gas_def gas_entry_def)

lemma attest_alone_store:
  assumes "require_not_paused env (at_access s) = Inr (at_access s)"
  shows "attest_alone env X a i (s, w) = Inr r \<longleftrightarrow> True \<and> item_ok env s i \<and>
    (\<exists>s1 w1. store_item env X (Some a) i (s, w) = Inr (s1, w1) \<and>
      r = (with_side (if a \<noteq> bi_business i then gas_entry a (fs_relayer_gas (at_fees s1)) else fs_relayer_gas (at_fees s1))
        (store_attestor_for_attestation (at_dispute s1) (bi_business i) (bi_period i) a) s1, w1))"
proof -
  define F where "F s1 = (if a \<noteq> bi_business i then s1\<lparr>at_fees := add_relayer_gas (at_fees s1) a 0\<rparr> else s1)" for s1 :: att_state
  define H where "H s1 = with_side (if a \<noteq> bi_business i then gas_entry a (fs_relayer_gas (at_fees s1)) else fs_relayer_gas (at_fees s1))
      (store_attestor_for_attestation (at_dispute s1) (bi_business i) (bi_period i) a) s1" for s1 :: att_state
  have side: "(F s1)\<lparr>at_dispute := store_attestor_for_attestation (at_dispute (F s1)) (bi_business i) (bi_period i) a\<rparr> = H s1" for s1
    by (simp add: F_def H_def with_side_def add_gas_entry)
  have "execute_submission env X a (Some a) (bi_business i) (bi_period i) (bi_root i) (bi_timestamp i) (bi_version i)
      (bi_proof_hash i) (bi_expiry i) (s, w) = Inr q \<longleftrightarrow>
    item_ok env s i \<and> (\<exists>s1 w1. store_item env X (Some a) i (s, w) = Inr (s1, w1) \<and> q = (F s1, w1))" for q
    unfolding F_def by (rule execute_store [OF assms]) simp
  then have "attest_alone env X a i (s, w) = Inr r \<longleftrightarrow> item_ok env s i \<and>
      (\<exists>s1 w1. store_item env X (Some a) i (s, w) = Inr (s1, w1) \<and> r = (H s1, w1))"
    by (auto simp: attest_alone_def side)
  then show ?thesis by (simp add: H_def)
qed

text \<open>The pause that is due takes effect with the first call.\<close>

lemma execute_unpaused:
  assumes "require_not_paused env (at_access s) = Inr ac"
  shows "execute_submission env X payer attestor b p root ts ver ph ex (s, w) =
    execute_submission env X payer attestor b p root ts ver ph ex (s\<lparr>at_access := ac\<rparr>, w)"
  using assms require_not_paused_again [OF assms] by (simp add: execute_submission_def Let_def cong: if_cong option.case_cong)

lemma batch_Inr:
  "execute_batch_submission env X payer items rba (s, w) = Inr r \<longleftrightarrow>
     items \<noteq> [] \<and> length items \<le> MAX_BATCH_SIZE \<and> (\<exists>ac. require_not_paused env (at_access s) = Inr ac \<and>
       (rba \<longrightarrow> (\<forall>i\<in>set items. authorized env (bi_business i))) \<and>
       (\<forall>i\<in>set items. item_ok env (s\<lparr>at_access := ac\<rparr>) i) \<and> distinct (map item_key items) \<and>
       (\<exists>s1 w1. store_loop env X payer items (s\<lparr>at_access := ac\<rparr>, w) = Inr (s1, w1) \<and>
          r = (case payer of Some a \<Rightarrow> s1\<lparr>at_fees := add_relayer_gas (at_fees s1) a 0\<rparr> | None \<Rightarrow> s1, w1)))"
  by (cases payer; cases r) (auto simp: execute_batch_submission_def Let_def validation_loop_Inr)

lemma paused_alone:
  assumes "require_not_paused env (at_access s) = Inl e"
  shows "submit_alone env X i (s, w) \<noteq> Inr r" and "attest_alone env X a i (s, w) \<noteq> Inr r"
  using assms by (simp_all add: submit_alone_def submit_attestation_def attest_alone_def execute_submission_def)

text \<open>
  C5. Both batch entry points are the sequence of the single submissions. A batch of businesses succeeds, and
  with the same state, exactly when it has between one and \<open>MAX_BATCH_SIZE\<close> items and submitting the
  items one by one with \<open>submit_attestation\<close> succeeds. A batch of an attestor succeeds exactly when, the size
  aside, the attestor passes the gates at its start, every business authorized the call (which a single
  submission of an attestor does not ask) and submitting the items one by one past the gates succeeds; the
  state is the same, but that the attestor has an entry for relayed gas even where it is the business. So a
  batch escapes no check, no fee and no rate limit, and one bad item stops it.
\<close>

theorem batch_equals_sequence:
  "(submit_attestations_batch env X items (s, w) = Inr r \<longleftrightarrow>
     items \<noteq> [] \<and> length items \<le> MAX_BATCH_SIZE \<and> in_turn (submit_alone env X) items (s, w) = Inr r) \<and>
   (submit_batch_as_attestor env X a items (s, w) = Inr r \<longleftrightarrow>
     items \<noteq> [] \<and> length items \<le> MAX_BATCH_SIZE \<and> attestor_gates env X a (s, w) = Inr () \<and>
     (\<forall>i\<in>set items. authorized env (bi_business i)) \<and>
     (\<exists>s1 w1. in_turn (attest_alone env X a) items (s, w) = Inr (s1, w1) \<and>
        r = (s1\<lparr>at_fees := add_relayer_gas (at_fees s1) a 0\<rparr>, w1)))"
proof (cases "require_not_paused env (at_access s)")
  case (Inl e)
  have "in_turn f items (s, w) \<noteq> Inr q" if "items \<noteq> []" "\<And>i r. f i (s, w) \<noteq> Inr r" for f and q :: "att_state \<times> 'a"
    using that by (cases items) auto
  then have "items \<noteq> [] \<Longrightarrow> in_turn (submit_alone env X) items (s, w) \<noteq> Inr r"
    "items \<noteq> [] \<Longrightarrow> in_turn (attest_alone env X a) items (s, w) \<noteq> Inr q" for q
    by (simp_all add: paused_alone [OF Inl])
  with Inl show ?thesis
    by (cases "items = []") (simp_all add: submit_attestations_batch_def submit_batch_as_attestor_def batch_Inr)
next
  case (Inr ac)
  let ?s = "s\<lparr>at_access := ac\<rparr>"
  have ok: "require_not_paused env (at_access ?s) = Inr (at_access ?s)" using require_not_paused_again [OF Inr] by simp
  have first: "in_turn (submit_alone env X) items (s, w) = in_turn (submit_alone env X) items (?s, w)"
    "in_turn (attest_alone env X a) items (s, w) = in_turn (attest_alone env X a) items (?s, w)" if "items \<noteq> []"
  proof -
    have "submit_alone env X i (s, w) = submit_alone env X i (?s, w)" "attest_alone env X a i (s, w) = attest_alone env X a i (?s, w)" for i
      by (simp_all only: submit_alone_def submit_attestation_def attest_alone_def execute_unpaused [OF Inr])
    then show "in_turn (submit_alone env X) items (s, w) = in_turn (submit_alone env X) items (?s, w)"
      "in_turn (attest_alone env X a) items (s, w) = in_turn (attest_alone env X a) items (?s, w)"
      using that by (cases items; simp)+
  qed
  let ?g = "fs_relayer_gas (at_fees s)" and ?d = "at_dispute s"
  have here: "with_side ?g ?d ?s = ?s" by (simp add: with_side_def)
  have alone: "in_turn (submit_alone env X) items (?s, w) = Inr r \<longleftrightarrow>
      (\<forall>i\<in>set items. authorized env (bi_business i) \<and> item_ok env ?s i) \<and> distinct (map item_key items) \<and>
      (\<exists>s1 w1. store_loop env X None items (?s, w) = Inr (s1, w1) \<and>
        r = (with_side (foldl (\<lambda>g i. g) ?g items) (foldl (\<lambda>d i. d) ?d items) s1, w1))"
    by (rule in_turn_Inr [where g = ?g and d = ?d and s = ?s, unfolded here]) (erule submit_alone_store, rule ok)
  have attest: "in_turn (attest_alone env X a) items (?s, w) = Inr q \<longleftrightarrow>
      (\<forall>i\<in>set items. True \<and> item_ok env ?s i) \<and> distinct (map item_key items) \<and>
      (\<exists>s1 w1. store_loop env X (Some a) items (?s, w) = Inr (s1, w1) \<and>
        q = (with_side (foldl (\<lambda>g i. if a \<noteq> bi_business i then gas_entry a g else g) ?g items)
          (foldl (\<lambda>d i. store_attestor_for_attestation d (bi_business i) (bi_period i) a) ?d items) s1, w1))" for q
    by (rule in_turn_Inr [where g = ?g and d = ?d and s = ?s, unfolded here]) (erule attest_alone_store, rule ok)
  have same: "with_side ?g ?d s1 = s1" "fs_relayer_gas (at_fees s1) = ?g"
    if "store_loop env X payer items (?s, w) = Inr (s1, w1)" for payer s1 w1
  proof -
    show g: "fs_relayer_gas (at_fees s1) = ?g" using store_loop_side [OF that] by simp
    have "at_dispute s1 = ?d" using store_loop_side [OF that] by simp
    with g with_side_simps(2) [of s1] show "with_side ?g ?d s1 = s1" by simp
  qed
  have turn: "in_turn (submit_alone env X) items (?s, w) = Inr r \<longleftrightarrow>
      (\<forall>i\<in>set items. authorized env (bi_business i)) \<and> (\<forall>i\<in>set items. item_ok env ?s i) \<and> distinct (map item_key items) \<and>
      store_loop env X None items (?s, w) = Inr r"
    unfolding alone by (cases r) (auto simp: foldl_same same cong: conj_cong)
  have "submit_attestations_batch env X items (s, w) = Inr r \<longleftrightarrow> items \<noteq> [] \<and> length items \<le> MAX_BATCH_SIZE \<and>
      (\<forall>i\<in>set items. authorized env (bi_business i)) \<and> (\<forall>i\<in>set items. item_ok env ?s i) \<and> distinct (map item_key items) \<and>
      store_loop env X None items (?s, w) = Inr r"
    by (cases r) (simp add: submit_attestations_batch_def auth_loop_Inr batch_Inr Inr, blast)
  then have "submit_attestations_batch env X items (s, w) = Inr r \<longleftrightarrow>
     items \<noteq> [] \<and> length items \<le> MAX_BATCH_SIZE \<and> in_turn (submit_alone env X) items (s, w) = Inr r"
    using first(1) turn by metis
  moreover have "submit_batch_as_attestor env X a items (s, w) = Inr r \<longleftrightarrow>
     items \<noteq> [] \<and> length items \<le> MAX_BATCH_SIZE \<and> attestor_gates env X a (s, w) = Inr () \<and>
     (\<forall>i\<in>set items. authorized env (bi_business i)) \<and>
     (\<exists>s1 w1. in_turn (attest_alone env X a) items (s, w) = Inr (s1, w1) \<and>
        r = (s1\<lparr>at_fees := add_relayer_gas (at_fees s1) a 0\<rparr>, w1))"
  proof -
    let ?D = "foldl (\<lambda>d i. store_attestor_for_attestation d (bi_business i) (bi_period i) a)"
    let ?G = "foldl (\<lambda>g i. if a \<noteq> bi_business i then gas_entry a g else g)"
    let ?checks = "items \<noteq> [] \<and> length items \<le> MAX_BATCH_SIZE \<and> attestor_gates env X a (s, w) = Inr () \<and>
      (\<forall>i\<in>set items. authorized env (bi_business i)) \<and> (\<forall>i\<in>set items. item_ok env ?s i) \<and> distinct (map item_key items)"
    have batch: "submit_batch_as_attestor env X a items (s, w) = Inr r \<longleftrightarrow> ?checks \<and>
        (\<exists>s1 w1. store_loop env X (Some a) items (?s, w) = Inr (s1, w1) \<and> r = (with_side (gas_entry a ?g) (?D ?d items) s1, w1))"
    proof -
      have side: "s1\<lparr>at_fees := add_relayer_gas (at_fees s1) a 0, at_dispute := ?D (at_dispute s1) items\<rparr> =
          with_side (gas_entry a ?g) (?D ?d items) s1"
        if "store_loop env X (Some a) items (?s, w) = Inr (s1, w1)" for s1 w1
        using store_loop_side [OF that] by (simp add: with_side_def add_gas_entry)
      show ?thesis
        by (cases r) (auto simp: submit_batch_as_attestor_def batch_Inr Inr side simp del: foldl_conv_fold)
    qed
    have turn: "(\<exists>s1 w1. in_turn (attest_alone env X a) items (?s, w) = Inr (s1, w1) \<and>
        r = (s1\<lparr>at_fees := add_relayer_gas (at_fees s1) a 0\<rparr>, w1)) \<longleftrightarrow>
      (\<forall>i\<in>set items. item_ok env ?s i) \<and> distinct (map item_key items) \<and>
      (\<exists>s1 w1. store_loop env X (Some a) items (?s, w) = Inr (s1, w1) \<and> r = (with_side (gas_entry a ?g) (?D ?d items) s1, w1))"
    proof -
      have "(with_side (?G ?g items) d s1)\<lparr>at_fees := add_relayer_gas (at_fees (with_side (?G ?g items) d s1)) a 0\<rparr> =
          with_side (gas_entry a ?g) d s1" for d s1
        by (simp add: with_side_def add_gas_entry gas_entries)
      then show ?thesis unfolding attest by (simp add: ex_simps [symmetric] del: ex_simps) blast
    qed
    show ?thesis unfolding batch using first(2) turn by (cases "items = []") auto
  qed
  ultimately show ?thesis by blast
qed

section \<open>What a submission records and charges\<close>

lemma compute_fee_nonneg: "compute_fee base t v = Inr fee \<Longrightarrow> 0 \<le> fee"
  by (auto simp: compute_fee_def Let_def)

lemma calculate_fee_nonneg: "calculate_fee dao f b = Inr fee \<Longrightarrow> 0 \<le> fee"
  by (auto simp: calculate_fee_def Let_def dest: compute_fee_nonneg split: option.splits if_splits)

text \<open>The change of the balance of an account when a fee is paid under a configuration in force: the fee moves
  from the payer to the collector in the configured token, and without a configuration nothing moves.\<close>

definition fee_moved :: "(address \<times> address) option \<Rightarrow> address \<Rightarrow> int \<Rightarrow> address \<Rightarrow> address \<Rightarrow> int" where
  "fee_moved config payer fee t a = (case config of
     Some (token, collector) \<Rightarrow> if t = token then moved payer collector fee a else 0 | None \<Rightarrow> 0)"

definition fee_parties :: "fee_config option \<Rightarrow> (address \<times> address) option" where
  "fee_parties = map_option (\<lambda>c. (fc_token c, fc_collector c))"

definition flat_parties :: "flat_fee_config option \<Rightarrow> (address \<times> address) option" where
  "flat_parties = map_option (\<lambda>c. (fl_token c, fl_collector c))"

lemma moved_zero [simp]: "moved p c 0 a = 0"
  by (simp add: moved_def)

lemma fee_moved_zero [simp]: "fee_moved config p 0 t a = 0"
  by (simp add: fee_moved_def split: option.splits)

lemma transfer_moves:
  assumes "sep41 T" and "tok_transfer T t payer c n w = Some w'"
  shows "tok_balance T t' a w' = tok_balance T t' a w + fee_moved (Some (t, c)) payer n t' a"
proof (cases "t' = t")
  case True
  with sep41_transfer(3) [OF assms, of a] show ?thesis by (simp add: fee_moved_def)
next
  case False
  with sep41_transfer(4) [OF assms False, of a] show ?thesis by (simp add: fee_moved_def)
qed

lemma dynamic_fee_paid:
  assumes "sep41 T" and "collect_fee_from T dao f payer b w = Inr (fee, w')"
  obtains config where "get_effective_fee_config dao f = Inr config" and "calculate_fee dao f b = Inr fee"
    and "\<And>t a. tok_balance T t a w' = tok_balance T t a w + fee_moved (fee_parties config) payer fee t a"
proof -
  have c: "calculate_fee dao f b = Inr fee" using assms(2) by (auto simp: collect_fee_from_def split: if_splits)
  then obtain config where g: "get_effective_fee_config dao f = Inr config" by (auto simp: calculate_fee_def)
  have "tok_balance T t a w' = tok_balance T t a w + fee_moved (fee_parties config) payer fee t a" for t a
  proof (cases "0 < fee")
    case True
    with assms(2) c g show ?thesis
      by (auto simp: collect_fee_from_def fee_parties_def transfer_moves [OF assms(1)] split: option.splits)
  next
    case False
    with calculate_fee_nonneg [OF c] have "fee = 0" by simp
    with assms(2) c show ?thesis by (simp add: collect_fee_from_def)
  qed
  with g c show thesis by (rule that)
qed

lemma flat_fee_paid:
  assumes "sep41 T" and "collect_flat_fee T dao f payer w = Inr (fee, w')"
  obtains config quoted where "get_effective_flat_fee_config dao f = Inr config"
    and "calculate_flat_fee dao f = Inr quoted" and "fee = max 0 quoted"
    and "\<And>t a. tok_balance T t a w' = tok_balance T t a w + fee_moved (flat_parties config) payer fee t a"
proof -
  obtain config where g: "get_effective_flat_fee_config dao f = Inr config"
    using assms(2) by (auto simp: collect_flat_fee_def)
  note d = this assms(2)
  have "(\<exists>quoted. calculate_flat_fee dao f = Inr quoted \<and> fee = max 0 quoted) \<and>
    (\<forall>t a. tok_balance T t a w' = tok_balance T t a w + fee_moved (flat_parties config) payer fee t a)"
  proof (cases config)
    case None
    with d show ?thesis by (simp add: collect_flat_fee_def calculate_flat_fee_def)
  next
    case (Some c)
    show ?thesis
    proof (cases "fl_enabled c \<and> 0 < fl_amount c")
      case True
      with d Some have "fee = fl_amount c" "tok_transfer T (fl_token c) payer (fl_collector c) (fl_amount c) w = Some w'"
        by (auto simp: collect_flat_fee_def)
      with True d(1) Some transfer_moves [OF assms(1) this(2)] show ?thesis
        by (simp add: calculate_flat_fee_def flat_parties_def)
    next
      case False
      with d Some show ?thesis by (auto simp: collect_flat_fee_def calculate_flat_fee_def)
    qed
  qed
  with g that show thesis by blast
qed

text \<open>
  C6. A submission records the data it was given under a business and period that held none, for a
  business that is active in a contract that is not paused, and it is paid for. The recorded fee is the
  dynamic fee quoted before the call plus the flat fee (where a negative flat amount counts as zero, which
  the quote of \<open>get_fee_quote\<close> does not do). Every balance in every token changes exactly by these payments:
  the dynamic fee moves from the payer to the collector of the dynamic configuration in force in its token,
  the flat fee to the collector of the flat configuration in force in its token, and nothing else moves. The
  volume count of the business grows by one; no other attestation changes.
\<close>

theorem submission_recorded:
  assumes "sep41 (ex_token X)"
    and "execute_submission env X payer attestor b p root ts ver ph expiry (s, w) = Inr (s', w')"
  shows "at_active s (b, p) = None \<and> get_status (at_registry s) b = Some BizActive \<and> \<not> is_paused (at_access s') \<and>
    get_business_count (at_fees s') b = get_business_count (at_fees s) b + 1 \<and>
    (\<exists>dyn flat dynamic fixed.
       calculate_fee (ex_dao X) (at_fees s) b = Inr dyn \<and> calculate_flat_fee (ex_dao X) (at_flat s) = Inr flat \<and>
       get_effective_fee_config (ex_dao X) (at_fees s) = Inr dynamic \<and>
       get_effective_flat_fee_config (ex_dao X) (at_flat s) = Inr fixed \<and>
       at_active s' = (at_active s)((b, p) \<mapsto> \<lparr>ad_root = root, ad_timestamp = ts, ad_version = ver,
         ad_fee = dyn + max 0 flat, ad_proof_hash = ph, ad_expiry = expiry\<rparr>) \<and>
       (\<forall>t a. tok_balance (ex_token X) t a w' = tok_balance (ex_token X) t a w +
          fee_moved (fee_parties dynamic) payer dyn t a + fee_moved (flat_parties fixed) payer (max 0 flat) t a))"
  using assms(2)
proof (rule execute_cases)
  fix ac rl f1 fee s3 s1 data
  assume e: "require_not_paused env (at_access s) = Inr ac" "get_status (at_registry s) b = Some BizActive"
    "handle_epoch_rollover env (at_fees s) = Inr f1" "at_active s (b, p) = None"
    "s1 = s\<lparr>at_access := ac, at_rate := rl, at_fees := f1,
       at_attestor := (case attestor of Some a \<Rightarrow> (at_attestor s)((b, p) \<mapsto> a) | None \<Rightarrow> at_attestor s)\<rparr>"
    "charge_fees X payer b (s1, w) = Inr (fee, s3, w')"
    "data = \<lparr>ad_root = root, ad_timestamp = ts, ad_version = ver, ad_fee = fee, ad_proof_hash = ph, ad_expiry = expiry\<rparr>"
    "s' = (let s4 = write_record env b p data s3
           in if payer \<noteq> b then s4\<lparr>at_fees := add_relayer_gas (at_fees s4) payer 0\<rparr> else s4)"
  from e(6) obtain dyn w1 flat where c: "collect_fee_from (ex_token X) (ex_dao X) f1 payer b w = Inr (dyn, w1)"
    "collect_flat_fee (ex_token X) (ex_dao X) (at_flat s) payer w1 = Inr (flat, w')" "fee = dyn + flat"
    "get_business_count (at_fees s3) b = get_business_count f1 b + 1"
    by (rule charge_cases) (auto simp: e(5) get_business_count_def)
  note ff = rollover_fee_frame [OF e(3)]
  obtain dynamic where d: "get_effective_fee_config (ex_dao X) f1 = Inr dynamic" "calculate_fee (ex_dao X) f1 b = Inr dyn"
    "\<And>t a. tok_balance (ex_token X) t a w1 = tok_balance (ex_token X) t a w + fee_moved (fee_parties dynamic) payer dyn t a"
    using dynamic_fee_paid [OF assms(1) c(1)] by blast
  obtain fixed quoted where l: "get_effective_flat_fee_config (ex_dao X) (at_flat s) = Inr fixed"
    "calculate_flat_fee (ex_dao X) (at_flat s) = Inr quoted" "flat = max 0 quoted"
    "\<And>t a. tok_balance (ex_token X) t a w' = tok_balance (ex_token X) t a w1 + fee_moved (flat_parties fixed) payer flat t a"
    using flat_fee_paid [OF assms(1) c(2)] by blast
  have dyn: "calculate_fee (ex_dao X) (at_fees s) b = Inr dyn" "get_effective_fee_config (ex_dao X) (at_fees s) = Inr dynamic"
    using d(1,2) ff calculate_fee_cong [of f1 "at_fees s"] effective_fee_config_cong [of f1 "at_fees s"]
    by (simp_all add: fee_frame_def)
  have "get_business_count (at_fees s') b = get_business_count (at_fees s) b + 1"
    using c(4) ff(2) by (simp add: e(8) Let_def get_business_count_def write_record_frame add_relayer_gas_def)
  moreover have "at_active s' = (at_active s)((b, p) \<mapsto> data)" "at_access s' = ac"
    using charge_frame [OF e(6)] by (simp_all add: e(5,8) Let_def write_record_frame)
  moreover have "tok_balance (ex_token X) t a w' = tok_balance (ex_token X) t a w +
      fee_moved (fee_parties dynamic) payer dyn t a + fee_moved (flat_parties fixed) payer (max 0 quoted) t a" for t a
    using d(3) l(3,4) by simp
  ultimately show ?thesis
    using e(1,2,4) dyn l(1-3) c(3) by (auto simp: e(7) require_not_paused_Inr)
qed

text \<open>A contract with one active business and a flat fee of 5, for the witnesses.\<close>

definition demo_root :: bytesn where "demo_root = BytesN (replicate 32 7)"

definition ext_demo :: "ref_ledger att_ext" where
  "ext_demo = \<lparr>ex_token = ref_token, ex_dao = (\<lambda>_. Inl CallFailed), ex_is_eligible = (\<lambda>_ _ _. Inr True),
     ex_slash = (\<lambda>_ _ _ _ w. Inr w), ex_get_reputation = (\<lambda>_ _ _. Inr 0), ex_audit_nonce = (\<lambda>_ _ _ _. Inr 0),
     ex_audit_append = (\<lambda>_ _ _ _ _ _ w. Inr w)\<rparr>"

definition att_demo :: att_state where
  "att_demo = att_empty\<lparr>
     at_flat := flat_empty\<lparr>fl_config := Some \<lparr>fl_token = ''USDC'', fl_collector = ''COLLECTOR'', fl_amount = 5, fl_enabled = True\<rparr>\<rparr>,
     at_registry := [''BIZ'' \<mapsto> \<lparr>br_name_hash = [], br_jurisdiction = ''US'', br_tags = [], br_status = BizActive,
                                br_registered_at = 1, br_updated_at = 2\<rparr>]\<rparr>"

lemmas att_demo_simps = att_demo_def att_empty_def fee_empty_def flat_empty_def access_empty_def rate_empty_def

lemma att_demo_quotes:
  "calculate_fee dao (at_fees att_demo) b = Inr 0" "calculate_flat_fee dao (at_flat att_demo) = Inr 5"
  "get_effective_fee_config dao (at_fees att_demo) = Inr None"
  "get_effective_flat_fee_config dao (at_flat att_demo) = Inr (Some \<lparr>fl_token = ''USDC'',
      fl_collector = ''COLLECTOR'', fl_amount = 5, fl_enabled = True\<rparr>)"
  by (simp_all add: calculate_fee_def get_effective_fee_config_def get_fee_config_from_dao_def get_dao_def
      get_fee_config_def calculate_flat_fee_def get_effective_flat_fee_config_def get_flat_fee_config_from_dao_def
      flat_get_dao_def get_flat_fee_config_def att_demo_simps)

lemma att_demo_submits:
  "\<exists>s' w'. execute_submission (env_at 1000 1) ext_demo ''BIZ'' None ''BIZ'' ''202601'' demo_root 900 1 None None
     (att_demo, \<lambda>t a. 800) = Inr (s', w')"
proof -
  have act: "require_active_business (at_registry att_demo) ''BIZ'' = Inr ()"
    by (simp add: require_active_Inr get_status_def get_record_opt_def att_demo_def att_empty_def)
  have np: "require_not_paused (env_at 1000 1) (at_access att_demo) = Inr (at_access att_demo)"
    by (simp add: require_not_paused_Inr check_and_apply_pending_pause_def get_pending_pause_effective_at_def
        is_paused_def att_demo_simps)
  have rate: "check_rate_limit (env_at 1000 1) (at_rate att_demo) ''BIZ'' = Inr (at_rate att_demo)"
    by (simp add: check_rate_limit_def enabled_config_def get_rate_limit_config_def att_demo_simps)
  obtain f1 where roll: "handle_epoch_rollover (env_at 1000 1) (at_fees att_demo) = Inr f1"
    by (simp add: handle_epoch_rollover_def Let_def advance_epoch_def get_epoch_def u64_max_def att_demo_simps)
  have f1: "calculate_fee dao f1 b = Inr 0" "get_business_count f1 b = 0" for dao b
    using rollover_fee_frame [OF roll] att_demo_quotes(1) calculate_fee_cong [of f1 "at_fees att_demo"]
    by (simp_all add: fee_frame_def get_business_count_def att_demo_simps)
  have proj: "at_active att_demo = Map.empty" "at_flat att_demo = flat_empty\<lparr>fl_config := Some \<lparr>fl_token = ''USDC'',
      fl_collector = ''COLLECTOR'', fl_amount = 5, fl_enabled = True\<rparr>\<rparr>"
    by (simp_all add: att_demo_def att_empty_def)
  let ?w = "\<lambda>t a. 800 :: int"
  have cf: "collect_fee_from (ex_token ext_demo) (ex_dao ext_demo) f1 ''BIZ'' ''BIZ'' ?w = Inr (0, ?w)"
    by (simp add: collect_fee_from_def f1)
  obtain w1 where cl: "collect_flat_fee (ex_token ext_demo) (ex_dao ext_demo) (at_flat att_demo) ''BIZ'' ?w = Inr (5, w1)"
    by (simp add: collect_flat_fee_def get_effective_flat_fee_config_def get_flat_fee_config_from_dao_def
        flat_get_dao_def get_flat_fee_config_def transferr_def ext_demo_def ref_token_def proj flat_empty_def)
  obtain f2 where inc: "increment_business_count f1 ''BIZ'' = Inr (1, f2)"
    by (simp add: increment_business_count_def f1 u64_max_def)
  have sum: "i128_chk 5 = Inr 5" by (simp add: in_i128_def i128_min_def i128_max_def)
  show ?thesis
    unfolding execute_submission_def Let_def prod.case np act rate roll bindr_simps
    by (simp add: proj(1) validate_expiry_def validate_proof_hash_def charge_fees_def cf cl inc sum
        del: bindr_Inr)
qed

definition demo_item :: batch_item where
  "demo_item = \<lparr>bi_business = ''BIZ'', bi_period = ''202601'', bi_root = demo_root, bi_timestamp = 900, bi_version = 1,
     bi_proof_hash = None, bi_expiry = None\<rparr>"

lemma batch_equals_sequence_witness:
  "\<exists>r. submit_attestations_batch (env_at 1000 1) ext_demo [demo_item] (att_demo, \<lambda>t a. 800) = Inr r \<and>
     in_turn (submit_alone (env_at 1000 1) ext_demo) [demo_item] (att_demo, \<lambda>t a. 800) = Inr r"
proof -
  obtain r where "in_turn (submit_alone (env_at 1000 1) ext_demo) [demo_item] (att_demo, \<lambda>t a. 800) = Inr r"
    using att_demo_submits by (auto simp: submit_alone_def submit_attestation_def demo_item_def)
  with batch_equals_sequence [of "env_at 1000 1" ext_demo "[demo_item]" att_demo "\<lambda>t a. 800" r "''ATT''"]
  show ?thesis by (auto simp: MAX_BATCH_SIZE_def simp del: in_turn.simps)
qed

lemma submission_recorded_witness:
  "\<exists>s' w'. execute_submission (env_at 1000 1) ext_demo ''BIZ'' None ''BIZ'' ''202601'' demo_root 900 1 None None
       (att_demo, \<lambda>t a. 800) = Inr (s', w') \<and>
     at_active s' = [(''BIZ'', ''202601'') \<mapsto> \<lparr>ad_root = demo_root, ad_timestamp = 900, ad_version = 1, ad_fee = 5,
       ad_proof_hash = None, ad_expiry = None\<rparr>] \<and> get_business_count (at_fees s') ''BIZ'' = 1 \<and>
     w' ''USDC'' ''BIZ'' = 795 \<and> w' ''USDC'' ''COLLECTOR'' = 805 \<and> w' ''EURC'' ''BIZ'' = 800"
proof -
  obtain s' w' where ex: "execute_submission (env_at 1000 1) ext_demo ''BIZ'' None ''BIZ'' ''202601'' demo_root 900 1
      None None (att_demo, \<lambda>t a. 800) = Inr (s', w')"
    using att_demo_submits by blast
  have "sep41 (ex_token ext_demo)" by (simp add: ext_demo_def ref_token_sep41)
  note rec = submission_recorded [OF this ex, unfolded att_demo_quotes]
  have "tok_balance (ex_token ext_demo) t a v = v t a" for t a v by (simp add: ext_demo_def ref_token_def)
  then have "w' t a = 800 + fee_moved (flat_parties (Some \<lparr>fl_token = ''USDC'', fl_collector = ''COLLECTOR'',
      fl_amount = 5, fl_enabled = True\<rparr>)) ''BIZ'' 5 t a" for t a
    using rec by simp
  then have "w' ''USDC'' ''BIZ'' = 795" "w' ''USDC'' ''COLLECTOR'' = 805" "w' ''EURC'' ''BIZ'' = 800"
    by (simp_all add: fee_moved_def flat_parties_def moved_def)
  with rec ex show ?thesis by (auto simp: get_business_count_def att_demo_simps)
qed

end
