(* ===== verification/Attestation_Lifecycle.thy ===== *)
theory Attestation_Lifecycle
  imports Attestation
begin

text \<open>
  What happens to an attestation after its submission, from \<open>lib.rs\<close>: revocation (at once, with
  cleanup, or proposed and committed after a grace window), archival and compaction, cleanup, migration,
  changes of the expiry and the proof hash, and the multi-period ranges.
\<close>

section \<open>Revocation\<close>

definition is_admin_caller :: "att_state \<Rightarrow> address \<Rightarrow> bool res" where
  "is_admin_caller s caller =
     bindr (fees_get_admin (at_fees s)) (\<lambda>admin. Inr (caller = admin \<or> has_role (at_access s) caller ROLE_ADMIN))"

definition require_admin_or_owner :: "att_state \<Rightarrow> address \<Rightarrow> address \<Rightarrow> unit res" where
  "require_admin_or_owner s caller business =
     bindr (is_admin_caller s caller) (\<lambda>caller_is_admin.
     assertr (caller_is_admin \<or> caller = business) ''caller must be ADMIN or the business owner'')"

definition revoke_attestation ::
  "ledger_env \<Rightarrow> address \<Rightarrow> address \<Rightarrow> sstring \<Rightarrow> sstring \<Rightarrow> nat \<Rightarrow> att_state \<Rightarrow> att_state res" where
  "revoke_attestation env caller business period reason nonce s =
     bindr (require_revocation_authorized env (fees_get_admin (at_fees s)) (at_access s) (at_active s)
              (at_dispute s) caller business period) (\<lambda>ac.
     bindr (record_revocation (at_dispute s) business period
              \<lparr>rd_by = caller, rd_at = timestamp env, rd_reason = reason\<rparr>) (\<lambda>(_, d1).
     Inr (s\<lparr>at_access := ac, at_dispute := d1\<rparr>)))"

definition revoke_and_cleanup ::
  "ledger_env \<Rightarrow> address \<Rightarrow> address \<Rightarrow> sstring \<Rightarrow> sstring \<Rightarrow> nat \<Rightarrow> att_state \<Rightarrow> att_state res" where
  "revoke_and_cleanup env caller business period reason nonce s =
     bindr (require_not_paused env (at_access s)) (\<lambda>ac.
     bindr (require_auth env caller) (\<lambda>_.
     bindr (assertr (at_active s (business, period) \<noteq> None) ''attestation not found'') (\<lambda>_.
     bindr (require_admin_or_owner (s\<lparr>at_access := ac\<rparr>) caller business) (\<lambda>_.
     bindr (if \<not> is_attestation_revoked (at_dispute s) business period
            then bindr (record_revocation (at_dispute s) business period
                          \<lparr>rd_by = caller, rd_at = timestamp env, rd_reason = reason\<rparr>) (\<lambda>(_, d). Inr d)
            else Inr (at_dispute s)) (\<lambda>d1.
     (let s1 = s\<lparr>at_access := ac, at_dispute := d1, at_active := (at_active s)((business, period) := None)\<rparr>;
          s2 = remove_metadata s1 business period;
          new_periods = filter (\<lambda>p. p \<noteq> period) (get_revoked_periods (at_dispute s2) business);
          s3 = s2\<lparr>at_dispute := set_revoked_periods (at_dispute s2) business new_periods\<rparr> in
      Inr (s3\<lparr>at_fees := increment_cleanup_count (at_fees s3)\<rparr>)))))))"

definition propose_revoke ::
  "ledger_env \<Rightarrow> address \<Rightarrow> address \<Rightarrow> sstring \<Rightarrow> sstring \<Rightarrow> att_state \<Rightarrow> att_state res" where
  "propose_revoke env caller business period reason s =
     bindr (require_not_paused env (at_access s)) (\<lambda>ac.
     bindr (require_auth env caller) (\<lambda>_.
     bindr (assertr (at_active s (business, period) \<noteq> None) ''attestation not found'') (\<lambda>_.
     bindr (assertr (\<not> is_attestation_revoked (at_dispute s) business period) ''attestation already revoked'') (\<lambda>_.
     bindr (assertr (get_revoke_proposal (at_fees s) business period = None) ''revocation already proposed'') (\<lambda>_.
     bindr (require_admin_or_owner (s\<lparr>at_access := ac\<rparr>) caller business) (\<lambda>_.
     Inr (s\<lparr>at_access := ac, at_fees := store_revoke_proposal (at_fees s) business period
            \<lparr>rvp_proposer = caller, rvp_proposed_at = timestamp env, rvp_reason = reason\<rparr>\<rparr>)))))))"

definition earliest_commit :: "fee_state \<Rightarrow> revoke_proposal \<Rightarrow> nat" where
  "earliest_commit f p = u64_sat (rvp_proposed_at p + get_revoke_grace_seconds f)"

definition commit_revoke ::
  "ledger_env \<Rightarrow> address \<Rightarrow> address \<Rightarrow> sstring \<Rightarrow> att_state \<Rightarrow> att_state res" where
  "commit_revoke env committed_by business period s =
     bindr (require_not_paused env (at_access s)) (\<lambda>ac.
     bindr (require_auth env committed_by) (\<lambda>_.
     bindr (expectr (get_revoke_proposal (at_fees s) business period) ''no pending revocation proposal'') (\<lambda>p.
     bindr (assertr (earliest_commit (at_fees s) p \<le> timestamp env) ''grace window has not elapsed'') (\<lambda>_.
     bindr (assertr (\<not> is_attestation_revoked (at_dispute s) business period) ''attestation already revoked'') (\<lambda>_.
     bindr (record_revocation (at_dispute s) business period
              \<lparr>rd_by = rvp_proposer p, rd_at = timestamp env, rd_reason = rvp_reason p\<rparr>) (\<lambda>(_, d1).
     Inr (s\<lparr>at_access := ac, at_fees := remove_revoke_proposal (at_fees s) business period, at_dispute := d1\<rparr>)))))))"

definition cancel_revoke_proposal ::
  "ledger_env \<Rightarrow> address \<Rightarrow> address \<Rightarrow> sstring \<Rightarrow> att_state \<Rightarrow> att_state res" where
  "cancel_revoke_proposal env caller business period s =
     bindr (require_not_paused env (at_access s)) (\<lambda>ac.
     bindr (require_auth env caller) (\<lambda>_.
     bindr (expectr (get_revoke_proposal (at_fees s) business period) ''no pending revocation proposal'') (\<lambda>p.
     bindr (require_admin_or_owner (s\<lparr>at_access := ac\<rparr>) caller business) (\<lambda>_.
     bindr (assertr (timestamp env < earliest_commit (at_fees s) p)
              ''grace window has elapsed; use commit_revoke instead'') (\<lambda>_.
     Inr (s\<lparr>at_access := ac, at_fees := remove_revoke_proposal (at_fees s) business period\<rparr>))))))"

definition set_grace_entry :: "ledger_env \<Rightarrow> address \<Rightarrow> nat \<Rightarrow> att_state \<Rightarrow> att_state res" where
  "set_grace_entry env caller seconds s =
     bindr (require_admin env (at_access s) caller) (\<lambda>_.
     Inr (s\<lparr>at_fees := set_revoke_grace_seconds (at_fees s) seconds\<rparr>))"

section \<open>Cleanup\<close>

definition cleanup_expired_attestation ::
  "ledger_env \<Rightarrow> address \<Rightarrow> address \<Rightarrow> sstring \<Rightarrow> att_state \<Rightarrow> att_state res" where
  "cleanup_expired_attestation env caller business period s =
     bindr (require_auth env caller) (\<lambda>_.
     bindr (require_admin_or_owner s caller business) (\<lambda>_.
     bindr (expectr (at_active s (business, period)) ''attestation not found'') (\<lambda>data.
     bindr (assertr (attestation_expired env data) ''attestation not expired'') (\<lambda>_.
     bindr (assertr (\<not> is_attestation_revoked (at_dispute s) business period) ''attestation revoked'') (\<lambda>_.
     bindr (assertr (\<not> has_open_dispute (at_dispute s) business period) ''attestation has an open dispute'') (\<lambda>_.
     (let s1 = remove_metadata (s\<lparr>at_active := (at_active s)((business, period) := None)\<rparr>) business period in
      Inr (s1\<lparr>at_fees := increment_cleanup_count (at_fees s1)\<rparr>))))))))"

definition cleanup_revocation_index :: "address \<Rightarrow> att_state \<Rightarrow> nat \<times> att_state" where
  "cleanup_revocation_index business s =
     (let periods = get_revoked_periods (at_dispute s) business in
      if periods = [] then (0, s)
      else
        (let new_periods = filter (\<lambda>p. at_active s (business, p) \<noteq> None) periods;
             cleaned_count = length (filter (\<lambda>p. at_active s (business, p) = None) periods) in
         if 0 < cleaned_count
         then (cleaned_count, s\<lparr>at_dispute := set_revoked_periods (at_dispute s) business new_periods\<rparr>)
         else (0, s)))"

section \<open>The archive\<close>

definition set_archived_attestation :: "att_state \<Rightarrow> address \<Rightarrow> sstring \<Rightarrow> att_data \<Rightarrow> att_state" where
  "set_archived_attestation s business period data =
     s\<lparr>at_archived := (at_archived s)((business, period) \<mapsto> data)\<rparr>"

definition get_archived_attestation :: "att_state \<Rightarrow> address \<Rightarrow> sstring \<Rightarrow> att_data option" where
  "get_archived_attestation s business period = at_archived s (business, period)"

definition remove_archived_attestation :: "att_state \<Rightarrow> address \<Rightarrow> sstring \<Rightarrow> att_state" where
  "remove_archived_attestation s business period =
     s\<lparr>at_archived := (at_archived s)((business, period) := None)\<rparr>"

text \<open>The body of the loop of \<open>move_to_archive\<close> for an attestation that is old enough.\<close>

definition archive_one :: "nat \<Rightarrow> att_key \<Rightarrow> att_data \<Rightarrow> att_state \<Rightarrow> att_state res" where
  "archive_one now k data s =
     (let s1 = set_archived_attestation s (fst k) (snd k) data in
      bindr (next_archive_index (at_fees s1)) (\<lambda>(i, f1).
      Inr (s1\<lparr>at_fees := set_archive_pointer f1 (fst k) (snd k)
                \<lparr>ap_merkle_root = ad_root data, ap_archive_index = i, ap_archived_at = now\<rparr>,
              at_active := (at_active s1)(k := None)\<rparr>)))"

fun archive_loop ::
  "nat \<Rightarrow> nat \<Rightarrow> nat \<Rightarrow> att_key list \<Rightarrow> nat \<Rightarrow> att_state \<Rightarrow> (nat \<times> att_state) res" where
  "archive_loop now age_threshold limit [] count s = Inr (count, s)"
| "archive_loop now age_threshold limit (k # ks) count s =
     (if limit \<le> count then Inr (count, s)
      else
        (case at_active s k of
           None \<Rightarrow> archive_loop now age_threshold limit ks count s
         | Some data \<Rightarrow>
             (let age = (if ad_timestamp data \<le> now then now - ad_timestamp data else 0) in
              if age < age_threshold then archive_loop now age_threshold limit ks count s
              else bindr (archive_one now k data s) (archive_loop now age_threshold limit ks (count + 1)))))"

definition move_to_archive ::
  "ledger_env \<Rightarrow> address \<Rightarrow> att_key list \<Rightarrow> nat \<Rightarrow> nat \<Rightarrow> att_state \<Rightarrow> (nat \<times> att_state) res" where
  "move_to_archive env caller candidates age_threshold limit s =
     bindr (require_admin env (at_access s) caller) (\<lambda>_.
     bindr (assertr (0 < age_threshold) ''age_threshold_seconds must be greater than zero'') (\<lambda>_.
     bindr (assertr (0 < limit) ''limit must be greater than zero'') (\<lambda>_.
     archive_loop (timestamp env) age_threshold limit candidates 0 s)))"

definition set_retention_entry :: "ledger_env \<Rightarrow> address \<Rightarrow> nat \<Rightarrow> att_state \<Rightarrow> att_state res" where
  "set_retention_entry env caller min_epochs s =
     bindr (require_admin env (at_access s) caller) (\<lambda>_.
     bindr (assertr (0 < min_epochs) ''min_epochs must be greater than zero'') (\<lambda>_.
     Inr (s\<lparr>at_fees := set_compaction_retention (at_fees s) \<lparr>cp_min_epochs = min_epochs\<rparr>\<rparr>)))"

definition clear_retention_entry :: "ledger_env \<Rightarrow> address \<Rightarrow> att_state \<Rightarrow> att_state res" where
  "clear_retention_entry env caller s =
     bindr (require_admin env (at_access s) caller) (\<lambda>_.
     Inr (s\<lparr>at_fees := clear_compaction_retention (at_fees s)\<rparr>))"

definition compactable :: "nat \<Rightarrow> nat \<Rightarrow> att_state \<Rightarrow> att_key \<Rightarrow> bool" where
  "compactable current_epoch min_epochs s k =
     (case get_archived_attestation s (fst k) (snd k) of
        None \<Rightarrow> False
      | Some data \<Rightarrow>
          (if get_archive_pointer (at_fees s) (fst k) (snd k) = None then False
           else
             (case ad_expiry data of
                None \<Rightarrow> False
              | Some expiry_ts \<Rightarrow>
                  (let epoch_at_expiry = expiry_ts div FEE_BUCKET_WINDOW_SECONDS;
                       epochs_since_expiry = current_epoch - epoch_at_expiry in
                   min_epochs \<le> epochs_since_expiry))))"

fun compact_loop :: "nat \<Rightarrow> nat \<Rightarrow> nat \<Rightarrow> att_key list \<Rightarrow> nat \<Rightarrow> att_state \<Rightarrow> nat \<times> att_state" where
  "compact_loop current_epoch min_epochs limit [] compacted s = (compacted, s)"
| "compact_loop current_epoch min_epochs limit (k # ks) compacted s =
     (if limit \<le> compacted then (compacted, s)
      else if compactable current_epoch min_epochs s k
      then compact_loop current_epoch min_epochs limit ks (compacted + 1)
             (remove_archived_attestation s (fst k) (snd k))
      else compact_loop current_epoch min_epochs limit ks compacted s)"

definition compact_archival ::
  "ledger_env \<Rightarrow> address \<Rightarrow> att_key list \<Rightarrow> nat \<Rightarrow> att_state \<Rightarrow> (nat \<times> att_state) res" where
  "compact_archival env caller candidates limit s =
     bindr (require_admin env (at_access s) caller) (\<lambda>_.
     bindr (assertr (0 < limit) ''limit must be greater than zero'') (\<lambda>_.
     bindr (expectr (get_compaction_retention (at_fees s)) ''compaction retention policy not configured'') (\<lambda>policy.
     Inr (compact_loop (timestamp env div FEE_BUCKET_WINDOW_SECONDS) (cp_min_epochs policy) limit candidates 0 s))))"

section \<open>Changes to an attestation\<close>

definition migrate_attestation ::
  "ledger_env \<Rightarrow> address \<Rightarrow> address \<Rightarrow> sstring \<Rightarrow> bytesn \<Rightarrow> nat \<Rightarrow> att_state \<Rightarrow> att_state res" where
  "migrate_attestation env caller business period new_root new_version s =
     bindr (require_admin env (at_access s) caller) (\<lambda>_.
     bindr (expectr (at_active s (business, period)) ''attestation not found'') (\<lambda>data.
     bindr (assertr (ad_version data < new_version) ''new version must be greater than old version'') (\<lambda>_.
     bindr (assertr (\<not> attestation_expired env data) ''cannot migrate an expired attestation'') (\<lambda>_.
     bindr (assertr (\<not> is_attestation_revoked (at_dispute s) business period)
              ''cannot migrate a revoked attestation'') (\<lambda>_.
     Inr (s\<lparr>at_active := (at_active s)((business, period) \<mapsto> data\<lparr>ad_root := new_root, ad_version := new_version\<rparr>)\<rparr>))))))"

definition extend_expiry ::
  "ledger_env \<Rightarrow> address \<Rightarrow> sstring \<Rightarrow> nat \<Rightarrow> att_state \<Rightarrow> att_state res" where
  "extend_expiry env business period new_expiry s =
     bindr (require_auth env business) (\<lambda>_.
     bindr (expectr (at_active s (business, period)) ''attestation not found'') (\<lambda>data.
     if new_expiry \<le> unwrap_or (ad_expiry data) 0
     then Inl (Panic ''new_expiry must be greater than current expiry'')
     else if new_expiry \<le> ad_timestamp data
     then Inl (Panic ''new_expiry must be greater than attestation timestamp'')
     else Inr (s\<lparr>at_active := (at_active s)((business, period) \<mapsto> data\<lparr>ad_expiry := Some new_expiry\<rparr>)\<rparr>)))"

definition update_proof_hash ::
  "ledger_env \<Rightarrow> address \<Rightarrow> address \<Rightarrow> sstring \<Rightarrow> bytesn option \<Rightarrow> att_state \<Rightarrow> att_state res" where
  "update_proof_hash env caller business period new_proof_hash s =
     bindr (require_admin env (at_access s) caller) (\<lambda>_.
     bindr (expectr (at_active s (business, period)) ''attestation not found'') (\<lambda>data.
     Inr (s\<lparr>at_active := (at_active s)((business, period) \<mapsto> data\<lparr>ad_proof_hash := new_proof_hash\<rparr>)\<rparr>)))"

section \<open>Multi-period ranges\<close>

definition ranges_of :: "att_state \<Rightarrow> address \<Rightarrow> att_range list" where
  "ranges_of s business = unwrap_or (at_ranges s business) []"

definition submit_multi_period_attestation ::
  "ledger_env \<Rightarrow> 'w att_ext \<Rightarrow> address \<Rightarrow> nat \<Rightarrow> nat \<Rightarrow> bytesn \<Rightarrow> nat \<Rightarrow> nat \<Rightarrow> bytesn option \<Rightarrow> nat option \<Rightarrow>
   att_state \<times> 'w \<Rightarrow> (att_state \<times> 'w) res" where
  "submit_multi_period_attestation env X business start_period end_period merkle_root ts version proof_hash expiry sw =
     (let (s, w) = sw in
      bindr (require_auth env business) (\<lambda>_.
      bindr (if end_period < start_period then Inl (Panic ''start_period must be <= end_period'') else Inr ()) (\<lambda>_.
      bindr (validate_expiry env ts expiry) (\<lambda>_.
      (let ranges = ranges_of s business in
       bindr (assertr (\<not> list_ex (\<lambda>r. \<not> rg_revoked r \<and> start_period \<le> rg_end r \<and> rg_start r \<le> end_period) ranges)
                ''overlapping attestation range detected'') (\<lambda>_.
       bindr (collect_fee (ex_token X) (ex_dao X) (at_fees s) business w) (\<lambda>(fee_paid, w1).
       bindr (increment_business_count (at_fees s) business) (\<lambda>(_, f1).
       (let ranges1 = ranges @ [\<lparr>rg_start = start_period, rg_end = end_period, rg_root = merkle_root,
                      rg_timestamp = ts, rg_version = version, rg_fee_paid = fee_paid,
                      rg_proof_hash = proof_hash, rg_expiry = expiry, rg_revoked = False\<rparr>] in
        Inr (s\<lparr>at_fees := f1, at_ranges := (at_ranges s)(business \<mapsto> ranges1),
               at_root_index := (at_root_index s)((business, merkle_root) \<mapsto> length ranges1 - 1)\<rparr>, w1))))))))))"

definition range_verifies :: "ledger_env \<Rightarrow> nat \<Rightarrow> bytesn \<Rightarrow> att_range \<Rightarrow> bool" where
  "range_verifies env target_period merkle_root r \<longleftrightarrow>
     \<not> rg_revoked r \<and> rg_start r \<le> target_period \<and> target_period \<le> rg_end r \<and>
     \<not> (case rg_expiry r of Some expiry \<Rightarrow> expiry \<le> timestamp env | None \<Rightarrow> False) \<and> rg_root r = merkle_root"

definition verify_multi_period_attestation :: "ledger_env \<Rightarrow> att_state \<Rightarrow> address \<Rightarrow> nat \<Rightarrow> bytesn \<Rightarrow> bool" where
  "verify_multi_period_attestation env s business target_period merkle_root =
     (case at_ranges s business of
        Some ranges \<Rightarrow> list_ex (range_verifies env target_period merkle_root) ranges
      | None \<Rightarrow> False)"

definition revoke_multi_period_attestation ::
  "ledger_env \<Rightarrow> address \<Rightarrow> bytesn \<Rightarrow> att_state \<Rightarrow> att_state res" where
  "revoke_multi_period_attestation env business merkle_root s =
     bindr (require_auth env business) (\<lambda>_.
     bindr (expectr (at_root_index s (business, merkle_root)) ''root not found'') (\<lambda>i.
     bindr (expectr (at_ranges s business) ''no multi-period attestations'') (\<lambda>ranges.
     bindr (assertr (i < length ranges) ''invalid range index'') (\<lambda>_.
     Inr (s\<lparr>at_ranges := (at_ranges s)(business \<mapsto> ranges[i := (ranges ! i)\<lparr>rg_revoked := True\<rparr>])\<rparr>)))))"

text \<open>\<open>bump_range_ttl\<close> changes no state; its guards are observable.\<close>

definition bump_range_ttl :: "ledger_env \<Rightarrow> address \<Rightarrow> address \<Rightarrow> nat \<Rightarrow> att_state \<Rightarrow> unit res" where
  "bump_range_ttl env caller business range_id s =
     bindr (require_auth env caller) (\<lambda>_.
     bindr (assertr (has_role (at_access s) caller ROLE_ADMIN \<or> caller = business) ''not admin or business owner'') (\<lambda>_.
     bindr (expectr (at_ranges s business) ''no ranges found'') (\<lambda>ranges.
     bindr (assertr (range_id < length ranges) ''range_id out of bounds'') (\<lambda>_.
     bindr (assertr (\<not> rg_revoked (ranges ! range_id)) ''range is revoked'') (\<lambda>_.
     case rg_expiry (ranges ! range_id) of
       Some expiry \<Rightarrow> assertr (timestamp env < expiry) ''range is expired''
     | None \<Rightarrow> Inr ())))))"

end
