(* ===== verification/Multisig.thy ===== *)
theory Multisig
  imports Access_Control
begin

text \<open>
  \<open>contracts/attestation/src/multisig.rs\<close>: the owners and their threshold, proposals with the snapshot
  of owners and threshold they are voted under, approvals, execution, expiry and cleanup. Ledger
  sequence numbers are \<open>u32\<close>.
\<close>

section \<open>Data\<close>

definition DEFAULT_PROPOSAL_EXPIRY :: nat where "DEFAULT_PROPOSAL_EXPIRY = 100000"
definition PROPOSAL_COOLDOWN_LEDGERS :: nat where "PROPOSAL_COOLDOWN_LEDGERS = 1000"
definition DEFAULT_PROPOSAL_EXPIRY_GRACE :: nat where "DEFAULT_PROPOSAL_EXPIRY_GRACE = 10000"

datatype proposal_action =
    PPause
  | PUnpause
  | PAddOwner address
  | PRemoveOwner address
  | PChangeThreshold nat
  | PGrantRole address roles
  | PRevokeRole address roles
  | PUpdateFeeConfig address address int bool
  | PEmergencyRotateAdmin address
  | PEmergencyPause

datatype proposal_status = PSPending | PSExecuted | PSRejected | PSExpired

record vote_snapshot =
  vs_owners :: "address list"
  vs_threshold :: nat
  vs_total_weight :: nat
  vs_created_at :: nat
  vs_action_tag :: nat

record proposal =
  pr_id :: nat
  pr_action :: proposal_action
  pr_proposer :: address
  pr_status :: proposal_status
  pr_created_at :: nat

record proposal_effect =
  pe_proposal_id :: nat
  pe_would_execute :: bool
  pe_error :: "sstring option"
  pe_change_count :: nat
  pe_changes :: "(sstring \<times> sstring) list"
  pe_predicted_status :: proposal_status
  pe_approvals :: nat
  pe_required_approvals :: nat

record multisig_state =
  ms_owners :: "address list option"
  ms_threshold :: "nat option"
  ms_proposals :: "nat \<rightharpoonup> proposal"
  ms_approvals :: "nat \<rightharpoonup> address list"
  ms_next_id :: "nat option"
  ms_expiry :: "nat \<rightharpoonup> nat"
  ms_last_quorum :: "nat option"
  ms_grace :: "nat option"
  ms_snapshots :: "nat \<rightharpoonup> vote_snapshot"

definition multisig_empty :: multisig_state where
  "multisig_empty = \<lparr>ms_owners = None, ms_threshold = None, ms_proposals = Map.empty,
     ms_approvals = Map.empty, ms_next_id = None, ms_expiry = Map.empty, ms_last_quorum = None,
     ms_grace = None, ms_snapshots = Map.empty\<rparr>"

section \<open>Owners and threshold\<close>

definition get_owners :: "multisig_state \<Rightarrow> address list" where
  "get_owners s = unwrap_or (ms_owners s) []"

definition set_owners :: "multisig_state \<Rightarrow> address list \<Rightarrow> multisig_state res" where
  "set_owners s owners =
     bindr (assertr (owners \<noteq> []) ''must have at least one owner'') (\<lambda>_.
     Inr (s\<lparr>ms_owners := Some owners\<rparr>))"

definition is_owner :: "multisig_state \<Rightarrow> address \<Rightarrow> bool" where
  "is_owner s a \<longleftrightarrow> a \<in> set (get_owners s)"

definition get_threshold :: "multisig_state \<Rightarrow> nat" where
  "get_threshold s = unwrap_or (ms_threshold s) 1"

definition rotate_threshold :: "multisig_state \<Rightarrow> nat \<Rightarrow> multisig_state res" where
  "rotate_threshold s new_threshold =
     bindr (assertr (0 < new_threshold \<and> new_threshold \<le> length (get_owners s))
              ''new threshold cannot exceed number of owners'') (\<lambda>_.
     Inr (s\<lparr>ms_threshold := Some new_threshold\<rparr>))"

definition initialize_multisig :: "multisig_state \<Rightarrow> address list \<Rightarrow> nat \<Rightarrow> multisig_state res" where
  "initialize_multisig s owners threshold =
     bindr (assertr (ms_owners s = None) ''multisig already initialized'') (\<lambda>_.
     bindr (set_owners s owners) (\<lambda>s1.
     Inr (s1\<lparr>ms_threshold := Some threshold\<rparr>)))"

definition is_multisig_initialized :: "multisig_state \<Rightarrow> bool" where
  "is_multisig_initialized s \<longleftrightarrow> ms_owners s \<noteq> None"

definition require_owner :: "ledger_env \<Rightarrow> multisig_state \<Rightarrow> address \<Rightarrow> unit res" where
  "require_owner env s caller =
     bindr (require_auth env caller) (\<lambda>_. assertr (is_owner s caller) ''caller is not a multisig owner'')"

definition add_owner :: "ledger_env \<Rightarrow> multisig_state \<Rightarrow> address \<Rightarrow> multisig_state res" where
  "add_owner env s owner =
     bindr (require_auth env owner) (\<lambda>_.
     bindr (assertr (owner \<notin> set (get_owners s)) ''already an owner'') (\<lambda>_.
     set_owners s (get_owners s @ [owner])))"

definition remove_owner :: "multisig_state \<Rightarrow> address \<Rightarrow> multisig_state res" where
  "remove_owner s owner =
     (let owners = get_owners s in
      bindr (assertr (owner \<in> set owners) ''not an owner'') (\<lambda>_.
      bindr (assertr (1 < length owners) ''cannot remove last owner'') (\<lambda>_.
      (let threshold = get_threshold s; nxt = filter (\<lambda>c. c \<noteq> owner) owners in
       bindr (assertr (threshold \<le> length nxt) ''cannot remove owner: would drop below threshold'') (\<lambda>_.
       set_owners s nxt)))))"

definition emergency_pause ::
  "ledger_env \<Rightarrow> multisig_state \<Rightarrow> access_state \<Rightarrow> address \<Rightarrow> address \<Rightarrow> access_state res" where
  "emergency_pause env s ac signer1 signer2 =
     bindr (require_auth env signer1) (\<lambda>_.
     bindr (require_auth env signer2) (\<lambda>_.
     bindr (assertr (signer1 \<noteq> signer2) ''both signatures must come from distinct keys'') (\<lambda>_.
     bindr (assertr (signer1 \<in> set (get_owners s)) ''first signature not from owner'') (\<lambda>_.
     bindr (assertr (signer2 \<in> set (get_owners s)) ''second signature not from owner'') (\<lambda>_.
     if is_paused ac then Inl (Panic ''contract already paused'')
     else emergency_pause_execute ac)))))"

section \<open>Proposals\<close>

definition action_tag :: "proposal_action \<Rightarrow> nat" where
  "action_tag a =
     (case a of PPause \<Rightarrow> 1 | PUnpause \<Rightarrow> 2 | PAddOwner _ \<Rightarrow> 3 | PRemoveOwner _ \<Rightarrow> 4 | PChangeThreshold _ \<Rightarrow> 5
      | PGrantRole _ _ \<Rightarrow> 6 | PRevokeRole _ _ \<Rightarrow> 7 | PUpdateFeeConfig _ _ _ _ \<Rightarrow> 8
      | PEmergencyRotateAdmin _ \<Rightarrow> 9 | PEmergencyPause \<Rightarrow> 10)"

fun is_change_threshold :: "proposal_action \<Rightarrow> bool" where
  "is_change_threshold (PChangeThreshold _) \<longleftrightarrow> True"
| "is_change_threshold _ \<longleftrightarrow> False"

definition create_proposal ::
  "ledger_env \<Rightarrow> multisig_state \<Rightarrow> address \<Rightarrow> proposal_action \<Rightarrow> (nat \<times> multisig_state) res" where
  "create_proposal env s proposer action =
     bindr (require_auth env proposer) (\<lambda>_.
     bindr (assertr (is_owner s proposer) ''only owners can create proposals'') (\<lambda>_.
     bindr (if is_change_threshold action
            then bindr (u32_chk (unwrap_or (ms_last_quorum s) 0 + PROPOSAL_COOLDOWN_LEDGERS)) (\<lambda>t.
                 assertr (t \<le> sequence env) ''quorum change cooldown has not elapsed'')
            else Inr ()) (\<lambda>_.
     (let i = unwrap_or (ms_next_id s) 0 in
      bindr (u64_chk (i + 1)) (\<lambda>nxt.
      (let created_at = sequence env;
           snapshot = \<lparr>vs_owners = get_owners s, vs_threshold = get_threshold s,
                       vs_total_weight = length (get_owners s), vs_created_at = created_at,
                       vs_action_tag = action_tag action\<rparr>;
           p = \<lparr>pr_id = i, pr_action = action, pr_proposer = proposer, pr_status = PSPending,
                pr_created_at = sequence env\<rparr> in
       bindr (u32_chk (created_at + DEFAULT_PROPOSAL_EXPIRY)) (\<lambda>expiry.
       Inr (i, s\<lparr>ms_next_id := Some nxt, ms_snapshots := (ms_snapshots s)(i \<mapsto> snapshot),
                 ms_proposals := (ms_proposals s)(i \<mapsto> p), ms_expiry := (ms_expiry s)(i \<mapsto> expiry),
                 ms_approvals := (ms_approvals s)(i \<mapsto> [proposer])\<rparr>))))))))"

definition get_vote_weight_snapshot :: "multisig_state \<Rightarrow> nat \<Rightarrow> vote_snapshot option" where
  "get_vote_weight_snapshot s i = ms_snapshots s i"

definition get_proposal :: "multisig_state \<Rightarrow> nat \<Rightarrow> proposal option" where
  "get_proposal s i = ms_proposals s i"

definition get_approvals :: "multisig_state \<Rightarrow> nat \<Rightarrow> address list" where
  "get_approvals s i = unwrap_or (ms_approvals s i) []"

definition is_proposal_expired :: "ledger_env \<Rightarrow> multisig_state \<Rightarrow> nat \<Rightarrow> bool" where
  "is_proposal_expired env s i = (case ms_expiry s i of Some expiry \<Rightarrow> expiry < sequence env | None \<Rightarrow> False)"

definition effective_threshold :: "multisig_state \<Rightarrow> nat \<Rightarrow> nat" where
  "effective_threshold s i =
     (case get_vote_weight_snapshot s i of Some snapshot \<Rightarrow> vs_threshold snapshot | None \<Rightarrow> get_threshold s)"

definition get_approval_count :: "multisig_state \<Rightarrow> nat \<Rightarrow> nat" where
  "get_approval_count s i =
     (case get_vote_weight_snapshot s i of
        Some snapshot \<Rightarrow> length (filter (\<lambda>a. a \<in> set (vs_owners snapshot)) (get_approvals s i))
      | None \<Rightarrow> length (get_approvals s i))"

definition is_proposal_approved :: "multisig_state \<Rightarrow> nat \<Rightarrow> bool" where
  "is_proposal_approved s i \<longleftrightarrow> effective_threshold s i \<le> get_approval_count s i"

definition set_proposal :: "multisig_state \<Rightarrow> nat \<Rightarrow> proposal \<Rightarrow> multisig_state" where
  "set_proposal s i p = s\<lparr>ms_proposals := (ms_proposals s)(i \<mapsto> p)\<rparr>"

text \<open>
  \<open>approve_proposal\<close> and \<open>mark_executed\<close> write the status \<open>Expired\<close> of an expired proposal and then
  panic, which undoes the write.
\<close>

definition approve_proposal :: "ledger_env \<Rightarrow> multisig_state \<Rightarrow> address \<Rightarrow> nat \<Rightarrow> multisig_state res" where
  "approve_proposal env s approver i =
     bindr (require_auth env approver) (\<lambda>_.
     bindr (expectr (get_proposal s i) ''proposal not found'') (\<lambda>p.
     if is_proposal_expired env s i then Inl (Panic ''proposal has expired'')
     else
       bindr (assertr (pr_status p = PSPending) ''proposal is not pending'') (\<lambda>_.
       bindr (case get_vote_weight_snapshot s i of
                Some snapshot \<Rightarrow> assertr (approver \<in> set (vs_owners snapshot))
                                    ''approver not in proposal vote-weight snapshot''
              | None \<Rightarrow> Inr ()) (\<lambda>_.
       bindr (assertr (is_owner s approver) ''only owners can approve proposals'') (\<lambda>_.
       (let approvals = get_approvals s i in
        bindr (assertr (approver \<notin> set approvals) ''already approved this proposal'') (\<lambda>_.
        Inr (s\<lparr>ms_approvals := (ms_approvals s)(i \<mapsto> approvals @ [approver])\<rparr>))))))))"

definition reject_proposal :: "ledger_env \<Rightarrow> multisig_state \<Rightarrow> address \<Rightarrow> nat \<Rightarrow> multisig_state res" where
  "reject_proposal env s rejecter i =
     bindr (require_auth env rejecter) (\<lambda>_.
     bindr (assertr (is_owner s rejecter) ''only owners can reject proposals'') (\<lambda>_.
     bindr (expectr (get_proposal s i) ''proposal not found'') (\<lambda>p.
     Inr (set_proposal s i (p\<lparr>pr_status := PSRejected\<rparr>)))))"

definition mark_executed :: "ledger_env \<Rightarrow> multisig_state \<Rightarrow> nat \<Rightarrow> multisig_state res" where
  "mark_executed env s i =
     bindr (expectr (get_proposal s i) ''proposal not found'') (\<lambda>p.
     if is_proposal_expired env s i then Inl (Panic ''proposal has expired'')
     else
       bindr (assertr (pr_status p = PSPending) ''proposal is not pending'') (\<lambda>_.
       bindr (assertr (is_proposal_approved s i) ''proposal not approved'') (\<lambda>_.
       (let s1 = (if is_change_threshold (pr_action p) then s\<lparr>ms_last_quorum := Some (sequence env)\<rparr> else s) in
        Inr (set_proposal s1 i (p\<lparr>pr_status := PSExecuted\<rparr>))))))"

text \<open>Swap with the last entry, then drop the last one.\<close>

definition revoke_approval :: "ledger_env \<Rightarrow> multisig_state \<Rightarrow> address \<Rightarrow> nat \<Rightarrow> multisig_state res" where
  "revoke_approval env s approver i =
     bindr (require_auth env approver) (\<lambda>_.
     bindr (expectr (get_proposal s i) ''proposal not found'') (\<lambda>p.
     if is_proposal_expired env s i then Inl (Panic ''proposal has expired'')
     else
       bindr (assertr (pr_status p = PSPending)
                ''cannot revoke approval: proposal already executed or rejected'') (\<lambda>_.
       (let approvals = get_approvals s i in
        case find (\<lambda>k. approvals ! k = approver) [0..<length approvals] of
          None \<Rightarrow> Inr s
        | Some idx \<Rightarrow>
            (let lst = length approvals - 1;
                 swapped = (if idx \<noteq> lst then approvals[idx := approvals ! lst] else approvals) in
             Inr (s\<lparr>ms_approvals := (ms_approvals s)(i \<mapsto> butlast swapped)\<rparr>))))))"

section \<open>Preview\<close>

definition preview_detail :: "proposal_action \<Rightarrow> sstring \<times> sstring" where
  "preview_detail a =
     (case a of
        PPause \<Rightarrow> (''pause'', ''pause the contract'')
      | PUnpause \<Rightarrow> (''unpause'', ''unpause the contract'')
      | PAddOwner _ \<Rightarrow> (''add_owner'', ''add owner'')
      | PRemoveOwner _ \<Rightarrow> (''rmv_owner'', ''remove owner'')
      | PChangeThreshold _ \<Rightarrow> (''threshold'', ''change threshold'')
      | PGrantRole _ _ \<Rightarrow> (''grant_rol'', ''grant role'')
      | PRevokeRole _ _ \<Rightarrow> (''revoke_ro'', ''revoke role'')
      | PUpdateFeeConfig _ _ _ _ \<Rightarrow> (''fee_cfg'', ''update fee config'')
      | PEmergencyRotateAdmin _ \<Rightarrow> (''rot_admin'', ''rotate admin'')
      | PEmergencyPause \<Rightarrow> (''emrg_paus'', ''trigger emergency pause''))"

definition preview_failure :: "nat \<Rightarrow> sstring \<Rightarrow> proposal_status \<Rightarrow> nat \<Rightarrow> nat \<Rightarrow> proposal_effect" where
  "preview_failure i msg st approvals required =
     \<lparr>pe_proposal_id = i, pe_would_execute = False, pe_error = Some msg, pe_change_count = 0, pe_changes = [],
      pe_predicted_status = st, pe_approvals = approvals, pe_required_approvals = required\<rparr>"

definition preview_proposal :: "ledger_env \<Rightarrow> multisig_state \<Rightarrow> nat \<Rightarrow> proposal_effect" where
  "preview_proposal env s i =
     (case get_proposal s i of
        None \<Rightarrow> preview_failure i ''proposal not found'' PSPending 0 0
      | Some p \<Rightarrow>
          (let approvals = get_approval_count s i; required_approvals = effective_threshold s i in
           if is_proposal_expired env s i
           then preview_failure i ''proposal has expired'' PSExpired approvals required_approvals
           else if pr_status p \<noteq> PSPending
           then preview_failure i ''proposal is not pending'' (pr_status p) approvals required_approvals
           else if approvals < required_approvals
           then preview_failure i ''proposal not approved'' PSPending approvals required_approvals
           else \<lparr>pe_proposal_id = i, pe_would_execute = True, pe_error = None, pe_change_count = 1,
                 pe_changes = [preview_detail (pr_action p)], pe_predicted_status = PSExecuted,
                 pe_approvals = approvals, pe_required_approvals = required_approvals\<rparr>))"

section \<open>Cleanup\<close>

definition get_next_proposal_id :: "multisig_state \<Rightarrow> nat" where
  "get_next_proposal_id s = unwrap_or (ms_next_id s) 0"

definition set_proposal_expiry_grace :: "multisig_state \<Rightarrow> nat \<Rightarrow> multisig_state" where
  "set_proposal_expiry_grace s grace = s\<lparr>ms_grace := Some grace\<rparr>"

definition get_proposal_expiry_grace :: "multisig_state \<Rightarrow> nat" where
  "get_proposal_expiry_grace s = unwrap_or (ms_grace s) DEFAULT_PROPOSAL_EXPIRY_GRACE"

definition remove_proposal :: "multisig_state \<Rightarrow> nat \<Rightarrow> multisig_state" where
  "remove_proposal s i =
     s\<lparr>ms_proposals := (ms_proposals s)(i := None), ms_approvals := (ms_approvals s)(i := None),
       ms_expiry := (ms_expiry s)(i := None), ms_snapshots := (ms_snapshots s)(i := None)\<rparr>"

fun proposal_cleanup_loop ::
  "ledger_env \<Rightarrow> nat \<Rightarrow> nat list \<Rightarrow> nat \<Rightarrow> multisig_state \<Rightarrow> (nat \<times> multisig_state) res" where
  "proposal_cleanup_loop env grace [] cleaned s = Inr (cleaned, s)"
| "proposal_cleanup_loop env grace (i # ids) cleaned s =
     (case ms_expiry s i of
        None \<Rightarrow> proposal_cleanup_loop env grace ids cleaned s
      | Some expiry \<Rightarrow>
          bindr (u32_chk (expiry + grace)) (\<lambda>limit.
          if limit < sequence env \<and> ms_proposals s i \<noteq> None
          then proposal_cleanup_loop env grace ids (cleaned + 1) (remove_proposal s i)
          else proposal_cleanup_loop env grace ids cleaned s))"

text \<open>\<open>next_id as u32\<close> is taken only when \<open>next_id\<close> is at most the \<open>u32\<close> \<open>limit\<close>.\<close>

definition cleanup_expired_proposals :: "ledger_env \<Rightarrow> multisig_state \<Rightarrow> nat \<Rightarrow> (nat \<times> multisig_state) res" where
  "cleanup_expired_proposals env s limit =
     (let next_id = get_next_proposal_id s; mx = (if limit < next_id then limit else next_id) in
      proposal_cleanup_loop env (get_proposal_expiry_grace s) [0..<mx] 0 s)"

section \<open>The module as a machine\<close>

text \<open>\<open>MInit\<close> has the check of the threshold that the entry point of \<open>lib.rs\<close> makes before the call.\<close>

datatype multisig_call =
    MInit "address list" nat
  | MCreate ledger_env address proposal_action
  | MApprove ledger_env address nat
  | MReject ledger_env address nat
  | MExecute ledger_env nat
  | MRevoke ledger_env address nat
  | MAddOwner ledger_env address
  | MRemoveOwner address
  | MRotate nat
  | MGrace nat
  | MCleanup ledger_env nat

fun multisig_step :: "multisig_call \<Rightarrow> multisig_state \<Rightarrow> multisig_state res" where
  "multisig_step (MInit os t) s =
     bindr (assertr (0 < t \<and> t \<le> length os) ''invalid multisig threshold'') (\<lambda>_. initialize_multisig s os t)"
| "multisig_step (MCreate env a act) s = bindr (create_proposal env s a act) (\<lambda>(_, s'). Inr s')"
| "multisig_step (MApprove env a i) s = approve_proposal env s a i"
| "multisig_step (MReject env a i) s = reject_proposal env s a i"
| "multisig_step (MExecute env i) s = mark_executed env s i"
| "multisig_step (MRevoke env a i) s = revoke_approval env s a i"
| "multisig_step (MAddOwner env a) s = add_owner env s a"
| "multisig_step (MRemoveOwner a) s = remove_owner s a"
| "multisig_step (MRotate t) s = rotate_threshold s t"
| "multisig_step (MGrace g) s = Inr (set_proposal_expiry_grace s g)"
| "multisig_step (MCleanup env limit) s = bindr (cleanup_expired_proposals env s limit) (\<lambda>(_, s'). Inr s')"

definition threshold_ok :: "multisig_state \<Rightarrow> bool" where
  "threshold_ok s \<longleftrightarrow> 0 < get_threshold s \<and>
     (case ms_owners s of Some os \<Rightarrow> get_threshold s \<le> length os | None \<Rightarrow> ms_threshold s = None)"

lemma threshold_frame:
  "ms_owners s' = ms_owners s \<Longrightarrow> ms_threshold s' = ms_threshold s \<Longrightarrow> threshold_ok s' = threshold_ok s"
  by (simp add: threshold_ok_def get_threshold_def cong: option.case_cong)

text \<open>What holds of a proposal \<open>p\<close> stored under \<open>i\<close>.\<close>

definition proposal_ok :: "multisig_state \<Rightarrow> nat \<Rightarrow> proposal \<Rightarrow> bool" where
  "proposal_ok s i p \<longleftrightarrow> i < get_next_proposal_id s \<and>
     (\<exists>snap as. ms_snapshots s i = Some snap \<and> ms_approvals s i = Some as \<and> 0 < vs_threshold snap \<and>
        vs_threshold snap \<le> length (vs_owners snap) \<and> distinct as \<and> set as \<subseteq> set (vs_owners snap) \<and>
        (pr_status p = PSExecuted \<longrightarrow> vs_threshold snap \<le> length as))"

definition multisig_inv :: "multisig_state \<Rightarrow> bool" where
  "multisig_inv s \<longleftrightarrow> threshold_ok s \<and> (\<forall>i p. ms_proposals s i = Some p \<longrightarrow> proposal_ok s i p)"

lemma approval_count_all:
  "ms_snapshots s i = Some snap \<Longrightarrow> ms_approvals s i = Some as \<Longrightarrow> set as \<subseteq> set (vs_owners snap) \<Longrightarrow>
   get_approval_count s i = length as"
  by (auto simp: get_approval_count_def get_vote_weight_snapshot_def get_approvals_def subset_iff
      intro!: arg_cong [where f = length] filter_True)

text \<open>The operations on owners and threshold leave the proposals alone.\<close>

definition same_votes :: "multisig_state \<Rightarrow> multisig_state \<Rightarrow> bool" where
  "same_votes s s' \<longleftrightarrow> ms_proposals s' = ms_proposals s \<and> ms_approvals s' = ms_approvals s \<and>
     ms_next_id s' = ms_next_id s \<and> ms_snapshots s' = ms_snapshots s"

lemma same_votes_inv: "same_votes s s' \<Longrightarrow> threshold_ok s' \<Longrightarrow> multisig_inv s \<Longrightarrow> multisig_inv s'"
  by (simp add: multisig_inv_def same_votes_def proposal_ok_def get_next_proposal_id_def)

lemma set_owners_Inr: "set_owners s os = Inr s' \<longleftrightarrow> os \<noteq> [] \<and> s' = s\<lparr>ms_owners := Some os\<rparr>"
  by (auto simp: set_owners_def)

lemmas owner_defs = add_owner_def remove_owner_def rotate_threshold_def initialize_multisig_def set_owners_Inr
  Let_def same_votes_def multisig_inv_def threshold_ok_def get_owners_def get_threshold_def

lemma add_owner_inv: "multisig_inv s \<Longrightarrow> add_owner env s a = Inr s' \<Longrightarrow> multisig_inv s'"
  by (rule same_votes_inv [of s]) (auto simp: owner_defs split: option.splits)

lemma remove_owner_inv: "multisig_inv s \<Longrightarrow> remove_owner s a = Inr s' \<Longrightarrow> multisig_inv s'"
  by (rule same_votes_inv [of s]) (auto simp: owner_defs split: option.splits)

lemma rotate_inv: "multisig_inv s \<Longrightarrow> rotate_threshold s t = Inr s' \<Longrightarrow> multisig_inv s'"
  by (rule same_votes_inv [of s]) (auto simp: owner_defs split: option.splits)

lemma init_inv:
  "multisig_inv s \<Longrightarrow> 0 < t \<Longrightarrow> t \<le> length os \<Longrightarrow> initialize_multisig s os t = Inr s' \<Longrightarrow> multisig_inv s'"
  by (rule same_votes_inv [of s]) (auto simp: owner_defs split: option.splits)

lemma set_proposal_inv:
  assumes "multisig_inv s" and "ms_proposals s i = Some p"
    and "pr_status p' = PSExecuted \<Longrightarrow> pr_status p = PSExecuted \<or> is_proposal_approved s i"
    and "s' = set_proposal (s\<lparr>ms_last_quorum := q\<rparr>) i p'"
  shows "multisig_inv s'"
proof -
  have ok: "proposal_ok s i p" using assms(1,2) by (simp add: multisig_inv_def)
  then obtain snap as where a: "ms_snapshots s i = Some snap" "ms_approvals s i = Some as"
    "set as \<subseteq> set (vs_owners snap)" by (auto simp: proposal_ok_def)
  have "is_proposal_approved s i \<longleftrightarrow> vs_threshold snap \<le> length as"
    using approval_count_all [OF a] a(1)
    by (simp add: is_proposal_approved_def effective_threshold_def get_vote_weight_snapshot_def)
  with ok a assms(3) have "proposal_ok s i p'" by (auto simp: proposal_ok_def)
  moreover have "threshold_ok s' = threshold_ok s"
    by (rule threshold_frame) (simp_all add: assms(4) set_proposal_def)
  ultimately show ?thesis using assms(1)
    by (auto simp: assms(4) multisig_inv_def proposal_ok_def set_proposal_def get_next_proposal_id_def)
qed

lemma create_cases:
  assumes "create_proposal env s a act = Inr (i, s')"
  obtains snap p expiry where "authorized env a" "is_owner s a" "i = get_next_proposal_id s"
    "vs_owners snap = get_owners s" "vs_threshold snap = get_threshold s" "pr_status p = PSPending"
    "expiry = sequence env + DEFAULT_PROPOSAL_EXPIRY"
    "s' = s\<lparr>ms_next_id := Some (i + 1), ms_snapshots := (ms_snapshots s)(i \<mapsto> snap),
       ms_proposals := (ms_proposals s)(i \<mapsto> p), ms_expiry := (ms_expiry s)(i \<mapsto> expiry),
       ms_approvals := (ms_approvals s)(i \<mapsto> [a])\<rparr>"
  by (rule that [of "\<lparr>vs_owners = get_owners s, vs_threshold = get_threshold s,
        vs_total_weight = length (get_owners s), vs_created_at = sequence env, vs_action_tag = action_tag act\<rparr>"
      "\<lparr>pr_id = i, pr_action = act, pr_proposer = a, pr_status = PSPending, pr_created_at = sequence env\<rparr>"
      "sequence env + DEFAULT_PROPOSAL_EXPIRY"])
    (use assms in \<open>auto simp: create_proposal_def Let_def get_next_proposal_id_def\<close>)

lemma create_inv:
  assumes "multisig_inv s" and "create_proposal env s a act = Inr (i, s')"
  shows "multisig_inv s'"
  using assms(2)
proof (rule create_cases)
  fix snap p expiry
  assume c: "is_owner s a" "i = get_next_proposal_id s"
    "vs_owners snap = get_owners s" "vs_threshold snap = get_threshold s" "pr_status p = PSPending"
    "s' = s\<lparr>ms_next_id := Some (i + 1), ms_snapshots := (ms_snapshots s)(i \<mapsto> snap),
       ms_proposals := (ms_proposals s)(i \<mapsto> p), ms_expiry := (ms_expiry s)(i \<mapsto> expiry),
       ms_approvals := (ms_approvals s)(i \<mapsto> [a])\<rparr>"
  have t: "threshold_ok s" using assms(1) by (simp add: multisig_inv_def)
  then have "proposal_ok s' i p"
    using c(1-5) by (auto simp: c(6) proposal_ok_def get_next_proposal_id_def threshold_ok_def is_owner_def get_owners_def
        split: option.splits)
  moreover have "proposal_ok s' j q" if "ms_proposals s j = Some q" "j \<noteq> i" for j q
    using that assms(1) c(2) by (fastforce simp: c(6) multisig_inv_def proposal_ok_def get_next_proposal_id_def)
  moreover have "threshold_ok s'" using t threshold_frame [of s' s] by (simp add: c(6))
  ultimately show ?thesis by (auto simp: multisig_inv_def c(6) split: if_splits)
qed

lemma approvals_inv:
  assumes "multisig_inv s" and "ms_proposals s i = Some p" and "pr_status p \<noteq> PSExecuted"
    and "s' = s\<lparr>ms_approvals := (ms_approvals s)(i \<mapsto> as)\<rparr>" and "distinct as"
    and "\<And>snap. ms_snapshots s i = Some snap \<Longrightarrow> set (get_approvals s i) \<subseteq> set (vs_owners snap) \<Longrightarrow>
      set as \<subseteq> set (vs_owners snap)"
  shows "multisig_inv s'"
proof -
  have "proposal_ok s i p" using assms(1,2) by (simp add: multisig_inv_def)
  with assms(3,5,6) have "proposal_ok s' i p"
    by (fastforce simp: assms(4) proposal_ok_def get_next_proposal_id_def get_approvals_def)
  moreover have "proposal_ok s' j q" if "ms_proposals s j = Some q" "j \<noteq> i" for j q
    using that assms(1) by (simp add: assms(4) multisig_inv_def proposal_ok_def get_next_proposal_id_def)
  ultimately have "proposal_ok s' j q" if "ms_proposals s' j = Some q" for j q
    using that assms(2) by (cases "j = i") (auto simp: assms(4))
  moreover have "threshold_ok s'"
    using assms(1) threshold_frame [of s' s] by (simp add: assms(4) multisig_inv_def)
  ultimately show ?thesis by (simp add: multisig_inv_def)
qed

text \<open>Swapping with the last entry and dropping it removes one entry.\<close>

lemma swap_remove:
  assumes "k < length xs" and "distinct xs"
  shows "distinct (butlast (if k \<noteq> length xs - 1 then xs[k := xs ! (length xs - 1)] else xs))"
    and "set (butlast (if k \<noteq> length xs - 1 then xs[k := xs ! (length xs - 1)] else xs)) = set xs - {xs ! k}"
proof -
  obtain ys y where xs: "xs = ys @ [y]" using assms(1) by (cases xs rule: rev_cases) auto
  show "distinct (butlast (if k \<noteq> length xs - 1 then xs[k := xs ! (length xs - 1)] else xs))"
    using assms by (auto simp: xs list_update_append distinct_list_update)
  show "set (butlast (if k \<noteq> length xs - 1 then xs[k := xs ! (length xs - 1)] else xs)) = set xs - {xs ! k}"
    using assms by (auto simp: xs list_update_append nth_append set_update_distinct)
qed

lemma cleanup_props:
  assumes refl: "\<And>s. R s s" and trans: "\<And>s t u. R s t \<Longrightarrow> R t u \<Longrightarrow> R s u"
    and one: "\<And>s i. R s (remove_proposal s i)"
  shows "proposal_cleanup_loop env grace ids n s = Inr (m, s') \<Longrightarrow> R s s'"
proof (induction ids arbitrary: n s)
  case Nil
  then show ?case by (simp add: refl)
next
  case (Cons i ids)
  then obtain k t where "t = s \<or> t = remove_proposal s i" "proposal_cleanup_loop env grace ids k t = Inr (m, s')"
    by (auto split: option.splits if_splits)
  with Cons.IH show ?case using one refl trans by blast
qed

lemma remove_proposal_inv: "multisig_inv s \<Longrightarrow> multisig_inv (remove_proposal s i)"
  using threshold_frame [of "remove_proposal s i" s]
  by (auto simp: multisig_inv_def remove_proposal_def proposal_ok_def get_next_proposal_id_def)

lemma revoke_cases:
  assumes "revoke_approval env s a i = Inr s'"
  obtains "authorized env a" "s' = s"
  | p k where "authorized env a" "ms_proposals s i = Some p" "pr_status p = PSPending"
      "k < length (get_approvals s i)" "get_approvals s i ! k = a"
      "s' = s\<lparr>ms_approvals := (ms_approvals s)(i \<mapsto> butlast
         (if k \<noteq> length (get_approvals s i) - 1
          then (get_approvals s i)[k := get_approvals s i ! (length (get_approvals s i) - 1)] else get_approvals s i))\<rparr>"
proof (cases "find (\<lambda>k. get_approvals s i ! k = a) [0..<length (get_approvals s i)]")
  case None
  with assms show ?thesis by (auto simp: revoke_approval_def Let_def split: if_splits intro: that(1))
next
  case (Some k)
  then have "k < length (get_approvals s i)" "get_approvals s i ! k = a"
    by (auto simp: find_Some_iff)
  moreover obtain p where "authorized env a" "ms_proposals s i = Some p" "pr_status p = PSPending"
    "s' = s\<lparr>ms_approvals := (ms_approvals s)(i \<mapsto> butlast
         (if k \<noteq> length (get_approvals s i) - 1
          then (get_approvals s i)[k := get_approvals s i ! (length (get_approvals s i) - 1)] else get_approvals s i))\<rparr>"
    using assms Some by (auto simp: revoke_approval_def Let_def get_proposal_def split: if_splits)
  ultimately show ?thesis using that(2) by blast
qed

lemma revoke_inv:
  assumes "multisig_inv s" and "revoke_approval env s a i = Inr s'"
  shows "multisig_inv s'"
  using assms(2)
proof (cases rule: revoke_cases)
  case 1
  with assms(1) show ?thesis by simp
next
  case (2 p k)
  then have "proposal_ok s i p" using assms(1) by (simp add: multisig_inv_def)
  then have "distinct (get_approvals s i)" by (auto simp: proposal_ok_def get_approvals_def)
  note sw = swap_remove [OF 2(4) this]
  show ?thesis
    by (rule approvals_inv [OF assms(1) 2(2) _ 2(6) sw(1)]) (use 2(3) sw(2) in auto)
qed

lemma approve_cases:
  assumes "approve_proposal env s a i = Inr s'"
  obtains p where "authorized env a" "ms_proposals s i = Some p" "pr_status p = PSPending" "a \<notin> set (get_approvals s i)"
    "\<not> is_proposal_expired env s i"
    "\<And>snap. ms_snapshots s i = Some snap \<Longrightarrow> a \<in> set (vs_owners snap)" "is_owner s a"
    "s' = s\<lparr>ms_approvals := (ms_approvals s)(i \<mapsto> get_approvals s i @ [a])\<rparr>"
  using assms
  by (auto simp: approve_proposal_def Let_def get_proposal_def get_vote_weight_snapshot_def
      split: if_splits option.splits intro: that)

lemma approve_inv:
  assumes "multisig_inv s" and "approve_proposal env s a i = Inr s'"
  shows "multisig_inv s'"
  using assms(2)
proof (rule approve_cases)
  fix p assume a: "ms_proposals s i = Some p" "pr_status p = PSPending" "a \<notin> set (get_approvals s i)"
    "\<And>snap. ms_snapshots s i = Some snap \<Longrightarrow> a \<in> set (vs_owners snap)"
    "s' = s\<lparr>ms_approvals := (ms_approvals s)(i \<mapsto> get_approvals s i @ [a])\<rparr>"
  have "proposal_ok s i p" using assms(1) a(1) by (simp add: multisig_inv_def)
  then have d: "distinct (get_approvals s i @ [a])" using a(3) by (auto simp: proposal_ok_def get_approvals_def)
  show ?thesis by (rule approvals_inv [OF assms(1) a(1) _ a(5) d]) (use a(2,4) in auto)
qed

lemma mark_executed_cases:
  assumes "mark_executed env s i = Inr s'"
  obtains p q where "ms_proposals s i = Some p" "pr_status p = PSPending" "is_proposal_approved s i"
    "\<not> is_proposal_expired env s i"
    "s' = set_proposal (s\<lparr>ms_last_quorum := q\<rparr>) i (p\<lparr>pr_status := PSExecuted\<rparr>)"
proof -
  obtain p where p: "ms_proposals s i = Some p" "pr_status p = PSPending" "is_proposal_approved s i"
    "\<not> is_proposal_expired env s i"
    "s' = set_proposal (if is_change_threshold (pr_action p) then s\<lparr>ms_last_quorum := Some (sequence env)\<rparr> else s) i
       (p\<lparr>pr_status := PSExecuted\<rparr>)"
    using assms by (auto simp: mark_executed_def Let_def get_proposal_def split: if_splits)
  show thesis
    by (rule that [OF p(1-4), of "if is_change_threshold (pr_action p) then Some (sequence env) else ms_last_quorum s"])
      (simp add: p(5))
qed

lemma reject_cases:
  assumes "reject_proposal env s a i = Inr s'"
  obtains p where "authorized env a" "is_owner s a" "ms_proposals s i = Some p"
    "s' = set_proposal (s\<lparr>ms_last_quorum := ms_last_quorum s\<rparr>) i (p\<lparr>pr_status := PSRejected\<rparr>)"
  using assms by (auto simp: reject_proposal_def get_proposal_def intro: that)

lemma execute_inv:
  assumes "multisig_inv s" and "mark_executed env s i = Inr s'"
  shows "multisig_inv s'"
  using assms(2) by (rule mark_executed_cases) (erule set_proposal_inv [OF assms(1), rotated 2], simp_all)

lemma reject_inv:
  assumes "multisig_inv s" and "reject_proposal env s a i = Inr s'"
  shows "multisig_inv s'"
  using assms(2) by (rule reject_cases) (erule set_proposal_inv [OF assms(1), rotated 2], simp_all)

lemma multisig_step_inv: "multisig_inv s \<Longrightarrow> multisig_step c s = Inr s' \<Longrightarrow> multisig_inv s'"
proof (cases c)
  case (MCleanup env limit)
  assume i: "multisig_inv s" and "multisig_step c s = Inr s'"
  with MCleanup obtain ids n m where "proposal_cleanup_loop env (get_proposal_expiry_grace s) ids n s = Inr (m, s')"
    by (auto simp: cleanup_expired_proposals_def Let_def)
  then have "multisig_inv s \<longrightarrow> multisig_inv s'"
    by (rule cleanup_props [rotated 3]) (auto simp: remove_proposal_inv)
  with i show ?thesis by simp
next
  case (MGrace g)
  assume "multisig_inv s" "multisig_step c s = Inr s'"
  with MGrace show ?thesis
    using threshold_frame [of s' s]
    by (auto simp: set_proposal_expiry_grace_def multisig_inv_def proposal_ok_def get_next_proposal_id_def)
qed (auto intro: init_inv create_inv approve_inv revoke_inv execute_inv reject_inv add_owner_inv remove_owner_inv rotate_inv)

lemma multisig_start_inv: "multisig_inv multisig_empty"
  by (simp add: multisig_inv_def multisig_empty_def threshold_ok_def get_threshold_def)

interpretation msig: invariant_machine "\<lambda>s. s = multisig_empty" multisig_step multisig_inv
  by unfold_locales (simp add: multisig_start_inv, rule multisig_step_inv)

section \<open>Votes in a history\<close>

text \<open>\<open>a\<close> approved the proposal with a call of the history that went through by the deadline.\<close>

definition approved_by_in :: "multisig_state \<Rightarrow> multisig_call list \<Rightarrow> nat \<Rightarrow> address \<Rightarrow> nat \<Rightarrow> bool" where
  "approved_by_in t cs i a deadline \<longleftrightarrow>
     (\<exists>pre env post s'. cs = pre @ MApprove env a i # post \<and>
        approve_proposal env (run multisig_step pre t) a i = Inr s' \<and> authorized env a \<and> sequence env \<le> deadline)"

lemma approved_by_in_snoc: "approved_by_in t cs i a n \<Longrightarrow> approved_by_in t (cs @ ds) i a n"
  unfolding approved_by_in_def by (metis append.assoc append_Cons)

lemma approved_by_in_last:
  "approve_proposal env (run multisig_step cs t) a i = Inr s' \<Longrightarrow> authorized env a \<Longrightarrow> sequence env \<le> n \<Longrightarrow>
   approved_by_in t (cs @ [MApprove env a i]) i a n"
  unfolding approved_by_in_def by blast

lemma cleanup_keeps:
  assumes "cleanup_expired_proposals env s limit = Inr (n, s')"
  shows "get_next_proposal_id s' = get_next_proposal_id s \<and>
    (ms_proposals s' i = ms_proposals s i \<and> ms_snapshots s' i = ms_snapshots s i \<and> ms_expiry s' i = ms_expiry s i \<or>
     ms_proposals s' i = None) \<and> set (get_approvals s' i) \<subseteq> set (get_approvals s i)"
proof -
  let ?R = "\<lambda>s s'. get_next_proposal_id s' = get_next_proposal_id s \<and>
    (ms_proposals s' i = ms_proposals s i \<and> ms_snapshots s' i = ms_snapshots s i \<and> ms_expiry s' i = ms_expiry s i \<or>
     ms_proposals s' i = None) \<and> set (get_approvals s' i) \<subseteq> set (get_approvals s i)"
  obtain ids k m where "proposal_cleanup_loop env (get_proposal_expiry_grace s) ids k s = Inr (m, s')"
    using assms by (auto simp: cleanup_expired_proposals_def Let_def)
  then show ?thesis
    by (rule cleanup_props [where R = ?R, rotated 3])
      (auto simp: remove_proposal_def get_next_proposal_id_def get_approvals_def)
qed

lemma swap_subset: "set (butlast (if b then xs[k := xs ! (length xs - 1)] else xs)) \<subseteq> set xs"
proof -
  have "x \<in> set xs" if "x \<in> set (xs[k := xs ! (length xs - 1)])" for x
    using that set_update_subset_insert [of xs k "xs ! (length xs - 1)"] by (cases "xs = []") auto
  then show ?thesis by (auto dest!: in_set_butlastD)
qed

text \<open>
  While a proposal is stored, its snapshot and its expiry stay as they are, and only an approval of this
  proposal, before the expiry, adds a vote.
\<close>

definition vote_frame :: "multisig_call \<Rightarrow> nat \<Rightarrow> multisig_state \<Rightarrow> multisig_state \<Rightarrow> bool" where
  "vote_frame c i s s' \<longleftrightarrow> ms_snapshots s' i = ms_snapshots s i \<and> ms_expiry s' i = ms_expiry s i \<and>
     (\<forall>a. a \<in> set (get_approvals s' i) \<longrightarrow> a \<in> set (get_approvals s i) \<or>
        (\<exists>env. c = MApprove env a i \<and> authorized env a \<and> \<not> is_proposal_expired env s i))"

lemma vote_frameI:
  "ms_snapshots s' i = ms_snapshots s i \<Longrightarrow> ms_expiry s' i = ms_expiry s i \<Longrightarrow>
   set (get_approvals s' i) \<subseteq> set (get_approvals s i) \<Longrightarrow> vote_frame c i s s'"
  by (auto simp: vote_frame_def)

lemma stored_proposal_step:
  assumes "multisig_inv s" and "multisig_step c s = Inr s'" and "ms_proposals s i \<noteq> None" and "ms_proposals s' i \<noteq> None"
  shows "vote_frame c i s s'"
proof (cases c)
  case (MCreate env b act)
  with assms(2) obtain j where "create_proposal env s b act = Inr (j, s')" by auto
  moreover have "i < get_next_proposal_id s" using assms(1,3) by (auto simp: multisig_inv_def proposal_ok_def)
  ultimately show ?thesis by (elim create_cases) (auto simp: get_approvals_def intro: vote_frameI)
next
  case (MApprove env b j)
  with assms(2) have "approve_proposal env s b j = Inr s'" by simp
  then show ?thesis
    by (rule approve_cases) (use MApprove in \<open>auto simp: vote_frame_def get_approvals_def split: if_splits\<close>)
next
  case (MRevoke env b j)
  with assms(2) have "revoke_approval env s b j = Inr s'" by simp
  then show ?thesis
  proof (cases rule: revoke_cases)
    case 1
    then show ?thesis by (simp add: vote_frameI)
  next
    case (2 p k)
    have "set (get_approvals s' j) \<subseteq> set (get_approvals s j)"
    proof -
      have "get_approvals s' j = butlast (if k \<noteq> length (get_approvals s j) - 1
          then (get_approvals s j)[k := get_approvals s j ! (length (get_approvals s j) - 1)] else get_approvals s j)"
        unfolding get_approvals_def [of s'] by (subst 2(6)) simp
      then show ?thesis using swap_subset by metis
    qed
    moreover have "get_approvals s' i = get_approvals s i" if "i \<noteq> j"
      using that by (simp add: get_approvals_def 2(6))
    ultimately show ?thesis by (cases "i = j") (simp_all add: vote_frameI 2(6))
  qed
next
  case (MCleanup env limit)
  with assms show ?thesis by (auto dest!: cleanup_keeps [of env s limit _ s' i] intro: vote_frameI)
next
  case (MExecute env j)
  with assms(2) have "mark_executed env s j = Inr s'" by simp
  then show ?thesis by (rule mark_executed_cases) (simp add: vote_frameI get_approvals_def set_proposal_def)
next
  case (MReject env b j)
  with assms(2) have "reject_proposal env s b j = Inr s'" by simp
  then show ?thesis by (rule reject_cases) (simp add: vote_frameI get_approvals_def set_proposal_def)
qed (use assms in \<open>auto simp: get_approvals_def owner_defs set_proposal_expiry_grace_def intro!: vote_frameI\<close>)

text \<open>So it is over every history in which the proposal stays stored.\<close>

lemma stored_proposal_run:
  assumes "multisig_inv t" and "\<forall>p q. cs = p @ q \<longrightarrow> ms_proposals (run multisig_step p t) i \<noteq> None" and "ms_expiry t i = Some n"
  shows "ms_snapshots (run multisig_step cs t) i = ms_snapshots t i \<and> ms_expiry (run multisig_step cs t) i = Some n \<and>
    (\<forall>a\<in>set (get_approvals (run multisig_step cs t) i). a \<in> set (get_approvals t i) \<or> approved_by_in t cs i a n)"
  using assms(2)
proof (induction cs rule: rev_induct)
  case Nil
  then show ?case using assms(3) by simp
next
  case (snoc c cs)
  let ?s = "run multisig_step cs t"
  have stored: "ms_proposals ?s i \<noteq> None" "ms_proposals (exec multisig_step c ?s) i \<noteq> None"
    using snoc.prems [rule_format, of cs "[c]"] snoc.prems [rule_format, of "cs @ [c]" "[]"] by (simp_all add: run_append)
  have IH: "ms_snapshots ?s i = ms_snapshots t i" "ms_expiry ?s i = Some n"
    "\<forall>a\<in>set (get_approvals ?s i). a \<in> set (get_approvals t i) \<or> approved_by_in t cs i a n"
    using snoc.IH snoc.prems by (metis append.assoc)+
  show ?case
  proof (cases "multisig_step c ?s")
    case (Inl e)
    with IH show ?thesis by (auto simp: run_append intro: approved_by_in_snoc)
  next
    case (Inr s')
    then have f: "vote_frame c i ?s s'"
      using stored stored_proposal_step [OF msig.run_inv [OF assms(1)]] by simp
    have "a \<in> set (get_approvals t i) \<or> approved_by_in t (cs @ [c]) i a n" if "a \<in> set (get_approvals s' i)" for a
    proof (cases "a \<in> set (get_approvals ?s i)")
      case True
      with IH(3) show ?thesis by (auto intro: approved_by_in_snoc)
    next
      case False
      with f that obtain env where e: "c = MApprove env a i" "authorized env a" "\<not> is_proposal_expired env ?s i"
        by (auto simp: vote_frame_def)
      have "approve_proposal env ?s a i = Inr s'" using Inr e(1) by simp
      moreover have "sequence env \<le> n" using e(3) IH(2) by (simp add: is_proposal_expired_def)
      ultimately show ?thesis using e(1,2) by (auto intro: approved_by_in_last)
    qed
    with Inr f IH show ?thesis by (simp add: run_append vote_frame_def)
  qed
qed

definition settled :: "nat \<Rightarrow> multisig_state \<Rightarrow> bool" where
  "settled i s \<longleftrightarrow> i < get_next_proposal_id s \<and> (\<forall>p. ms_proposals s i = Some p \<longrightarrow> pr_status p \<noteq> PSPending)"

lemma settled_step:
  assumes "settled i s" and "multisig_step c s = Inr s'"
  shows "settled i s'"
proof (cases c)
  case (MCreate env b act)
  with assms(2) obtain j where "create_proposal env s b act = Inr (j, s')" by auto
  then show ?thesis
    by (rule create_cases) (use assms(1) in \<open>auto simp: settled_def get_next_proposal_id_def\<close>)
next
  case (MCleanup env limit)
  with assms show ?thesis by (auto simp: settled_def dest: cleanup_keeps [of env s limit _ s' i])
next
  case (MRevoke env b j)
  with assms(2) have "revoke_approval env s b j = Inr s'" by simp
  then show ?thesis by (rule revoke_cases) (use assms(1) in \<open>auto simp: settled_def get_next_proposal_id_def\<close>)
next
  case (MExecute env j)
  with assms(2) have "mark_executed env s j = Inr s'" by simp
  then show ?thesis
    by (rule mark_executed_cases) (use assms(1) in \<open>auto simp: settled_def set_proposal_def get_next_proposal_id_def\<close>)
next
  case (MReject env b j)
  with assms(2) have "reject_proposal env s b j = Inr s'" by simp
  then show ?thesis
    by (rule reject_cases) (use assms(1) in \<open>auto simp: settled_def set_proposal_def get_next_proposal_id_def\<close>)
next
  case (MApprove env b j)
  with assms(2) have "approve_proposal env s b j = Inr s'" by simp
  then show ?thesis by (rule approve_cases) (use assms(1) in \<open>auto simp: settled_def get_next_proposal_id_def\<close>)
qed (use assms in \<open>auto simp: settled_def get_next_proposal_id_def owner_defs set_proposal_expiry_grace_def\<close>)

interpretation settled: invariant_machine "settled i" multisig_step "settled i" for i
  by unfold_locales (simp, rule settled_step)

text \<open>The calls that create and execute a stored proposal.\<close>

lemma created_by_call:
  assumes "ms_proposals (run multisig_step cs multisig_empty) i \<noteq> None"
  obtains pre env a act post t where "cs = pre @ MCreate env a act # post"
    "create_proposal env (run multisig_step pre multisig_empty) a act = Inr (i, t)"
    "\<forall>q r. post = q @ r \<longrightarrow> ms_proposals (run multisig_step q t) i \<noteq> None"
proof -
  let ?Q = "\<lambda>s. ms_proposals s i \<noteq> None"
  have "\<not> ?Q multisig_empty" by (simp add: multisig_empty_def)
  from run_becomes_last [of ?Q, OF assms this] obtain pre c post t where c: "cs = pre @ c # post"
    "ms_proposals (run multisig_step pre multisig_empty) i = None"
    "multisig_step c (run multisig_step pre multisig_empty) = Inr t"
    "\<forall>q r. post = q @ r \<longrightarrow> ?Q (run multisig_step q t)" by auto
  have t: "ms_proposals t i \<noteq> None" using c(4) [rule_format, of "[]" post] by simp
  show thesis
  proof (cases c)
    case (MCreate env a act)
    with c(3) obtain j where j: "create_proposal env (run multisig_step pre multisig_empty) a act = Inr (j, t)" by auto
    then have "i = j" by (rule create_cases) (use c(2) t in \<open>auto split: if_splits\<close>)
    with MCreate c j show thesis by (intro that) auto
  next
    case (MCleanup env limit)
    with c(2,3) t show thesis by (auto dest: cleanup_keeps [of env _ limit _ t i])
  qed (use c(2,3) t in \<open>auto simp: owner_defs set_proposal_expiry_grace_def set_proposal_def split: if_splits
      elim!: approve_cases revoke_cases mark_executed_cases reject_cases\<close>)
qed

lemma executed_by_call:
  assumes "run multisig_step cs multisig_empty = s" and "ms_proposals s i = Some p" and "pr_status p = PSExecuted"
  obtains pre env post t where "cs = pre @ MExecute env i # post"
    "mark_executed env (run multisig_step pre multisig_empty) i = Inr t"
    "\<forall>q r. post = q @ r \<longrightarrow> ms_proposals (run multisig_step q t) i \<noteq> None"
proof -
  let ?Q = "\<lambda>s. \<exists>p. ms_proposals s i = Some p \<and> pr_status p = PSExecuted"
  have "?Q (run multisig_step cs multisig_empty)" "\<not> ?Q multisig_empty" using assms by (simp_all add: multisig_empty_def)
  from run_becomes_last [of ?Q, OF this] obtain pre c post t where c: "cs = pre @ c # post"
    "\<not> ?Q (run multisig_step pre multisig_empty)"
    "multisig_step c (run multisig_step pre multisig_empty) = Inr t"
    "\<forall>q r. post = q @ r \<longrightarrow> ?Q (run multisig_step q t)" by blast
  have t: "?Q t" using c(4) [rule_format, of "[]" post] by simp
  show thesis
  proof (cases c)
    case (MCreate env a act)
    with c(3) obtain j where "create_proposal env (run multisig_step pre multisig_empty) a act = Inr (j, t)" by auto
    then show thesis by (rule create_cases) (use c(2) t in \<open>auto split: if_splits\<close>)
  next
    case (MExecute env j)
    with c(3) have j: "mark_executed env (run multisig_step pre multisig_empty) j = Inr t" by simp
    then have "i = j" by (rule mark_executed_cases) (use c(2) t in \<open>auto simp: set_proposal_def split: if_splits\<close>)
    with MExecute c j show thesis by (intro that) auto
  next
    case (MCleanup env limit)
    with c(2,3) t show thesis by (auto dest!: cleanup_keeps [of env _ limit _ t i])
  qed (use c(2,3) t in \<open>auto simp: owner_defs set_proposal_expiry_grace_def set_proposal_def split: if_splits
      elim!: approve_cases revoke_cases reject_cases\<close>)
qed

lemma snapshot_kept:
  assumes "multisig_inv s" and "mark_executed env s i = Inr t"
    and "\<forall>q r. post = q @ r \<longrightarrow> ms_proposals (run multisig_step q t) i \<noteq> None" and "ms_expiry s i = Some n"
  shows "ms_snapshots (run multisig_step post t) i = ms_snapshots s i"
proof -
  have "ms_snapshots t i = ms_snapshots s i" "ms_expiry t i = Some n"
    using assms(2,4) by (auto simp: set_proposal_def elim!: mark_executed_cases)
  with stored_proposal_run [OF execute_inv [OF assms(1,2)] assms(3)] show ?thesis by simp
qed

section \<open>Properties\<close>

text \<open>
  C1. An executed proposal had its quorum in time: along every history from the empty storage, a proposal with
  status \<open>Executed\<close> was created by one call of the history and executed by a later one, not after its
  expiry \<open>DEFAULT_PROPOSAL_EXPIRY\<close> ledgers on. Its snapshot holds the owners and the threshold
  of the moment of its creation (at least one, at most the number of owners), and at least as many different owners of
  the snapshot as the threshold stood for it: each is the creator, who authorized the creation, or approved this
  very proposal, with a call of its own that went through between creation and execution and not after the expiry.
\<close>

theorem executed_needs_quorum:
  assumes "run multisig_step cs multisig_empty = s" and "ms_proposals s i = Some p" and "pr_status p = PSExecuted"
  shows "\<exists>pre env0 a0 act s1 mid env1 s2 post snap S.
    cs = pre @ MCreate env0 a0 act # mid @ MExecute env1 i # post \<and> authorized env0 a0 \<and>
    create_proposal env0 (run multisig_step pre multisig_empty) a0 act = Inr (i, s1) \<and>
    mark_executed env1 (run multisig_step mid s1) i = Inr s2 \<and>
    sequence env1 \<le> sequence env0 + DEFAULT_PROPOSAL_EXPIRY \<and> get_vote_weight_snapshot s i = Some snap \<and>
    vs_owners snap = get_owners (run multisig_step pre multisig_empty) \<and>
    vs_threshold snap = get_threshold (run multisig_step pre multisig_empty) \<and>
    0 < vs_threshold snap \<and> vs_threshold snap \<le> length (vs_owners snap) \<and>
    S \<subseteq> set (vs_owners snap) \<and> vs_threshold snap \<le> card S \<and>
    (\<forall>a\<in>S. a = a0 \<or> approved_by_in s1 mid i a (sequence env0 + DEFAULT_PROPOSAL_EXPIRY))"
proof -
  let ?run = "\<lambda>xs. run multisig_step xs multisig_empty"
  obtain before env1 post s2 where x: "cs = before @ MExecute env1 i # post" "mark_executed env1 (?run before) i = Inr s2"
    and later: "\<forall>q r. post = q @ r \<longrightarrow> ms_proposals (run multisig_step q s2) i \<noteq> None"
    using executed_by_call [OF assms] .
  from x(2) obtain p1 where p1: "ms_proposals (?run before) i = Some p1" "is_proposal_approved (?run before) i"
    "\<not> is_proposal_expired env1 (?run before) i" by (rule mark_executed_cases)
  obtain pre env0 a0 act mid s1 where c: "before = pre @ MCreate env0 a0 act # mid"
      "create_proposal env0 (?run pre) a0 act = Inr (i, s1)"
    and stored: "\<forall>q r. mid = q @ r \<longrightarrow> ms_proposals (run multisig_step q s1) i \<noteq> None"
  proof (rule created_by_call)
    show "ms_proposals (?run before) i \<noteq> None" using p1(1) by simp
  qed
  have mid: "?run before = run multisig_step mid s1" using c by (simp add: run_append)
  have inv: "multisig_inv (?run xs)" for xs by (rule msig.run_inv [OF multisig_start_inv])
  have inv1: "multisig_inv s1" using inv c(2) by (rule create_inv)
  from c(2) obtain snap where c': "authorized env0 a0" "ms_snapshots s1 i = Some snap"
    "vs_owners snap = get_owners (?run pre)" "vs_threshold snap = get_threshold (?run pre)"
    "ms_expiry s1 i = Some (sequence env0 + DEFAULT_PROPOSAL_EXPIRY)" "get_approvals s1 i = [a0]"
    by (rule create_cases) (auto simp: get_approvals_def)
  note m = stored_proposal_run [OF inv1 stored c'(5), folded mid]
  have "proposal_ok (?run before) i p1" using inv p1(1) by (simp add: multisig_inv_def)
  then obtain as where as: "ms_approvals (?run before) i = Some as" "0 < vs_threshold snap"
    "vs_threshold snap \<le> length (vs_owners snap)" "distinct as" "set as \<subseteq> set (vs_owners snap)"
    using m c'(2) by (auto simp: proposal_ok_def)
  have thr: "vs_threshold snap \<le> length as"
    using p1(2) m c'(2) approval_count_all [OF _ as(1,5)]
    by (simp add: is_proposal_approved_def effective_threshold_def get_vote_weight_snapshot_def)
  have end_snap: "ms_snapshots s i = Some snap"
    using snapshot_kept [OF inv x(2) later] m c'(2) assms(1) x by (simp add: run_append)
  have "sequence env1 \<le> sequence env0 + DEFAULT_PROPOSAL_EXPIRY" using p1(3) m by (simp add: is_proposal_expired_def)
  moreover have "\<forall>a\<in>set as. a = a0 \<or> approved_by_in s1 mid i a (sequence env0 + DEFAULT_PROPOSAL_EXPIRY)"
    using m as(1) c'(6) by (auto simp: get_approvals_def)
  moreover have "cs = pre @ MCreate env0 a0 act # mid @ MExecute env1 i # post" using x(1) c(1) by simp
  moreover have "mark_executed env1 (run multisig_step mid s1) i = Inr s2" using x(2) mid by simp
  ultimately show ?thesis
    using c(2) c'(1,3,4) as thr end_snap
    by (intro exI [of _ pre] exI [of _ env0] exI [of _ a0] exI [of _ act] exI [of _ s1] exI [of _ mid] exI [of _ env1]
        exI [of _ s2] exI [of _ post] exI [of _ snap] exI [of _ "set as"] conjI)
      (simp_all add: get_vote_weight_snapshot_def distinct_card)
qed

text \<open>
  C11. A proposal is executed at most once: after a successful execution no later one of the same id
  succeeds, whatever is created, approved, rejected or cleaned up in between.
\<close>

theorem executed_at_most_once:
  assumes "reachable (\<lambda>s. s = multisig_empty) multisig_step s" and "mark_executed env s i = Inr s'"
  shows "\<exists>e. mark_executed env' (run multisig_step cs s') i = Inl e"
proof -
  have inv: "multisig_inv s" using assms(1) by (rule msig.reachable_inv)
  have "settled i s'"
    using assms(2)
    by (rule mark_executed_cases)
      (use inv in \<open>auto simp: settled_def set_proposal_def get_next_proposal_id_def multisig_inv_def proposal_ok_def\<close>)
  then have "settled i (run multisig_step cs s')" by (rule settled.run_inv)
  then show ?thesis
    by (cases "ms_proposals (run multisig_step cs s') i")
      (auto simp: settled_def mark_executed_def get_proposal_def Let_def)
qed

text \<open>
  The preview is right: \<open>preview_proposal\<close> says that a proposal would execute exactly when marking it
  as executed succeeds, and the status it predicts then is the one the proposal gets; otherwise its
  error is the message of the failure.
\<close>

theorem preview_agrees:
  "case mark_executed env s i of
     Inr s' \<Rightarrow> pe_would_execute (preview_proposal env s i) \<and> pe_error (preview_proposal env s i) = None \<and>
       map_option pr_status (get_proposal s' i) = Some (pe_predicted_status (preview_proposal env s i))
   | Inl e \<Rightarrow> \<not> pe_would_execute (preview_proposal env s i) \<and>
       (\<exists>msg. e = Panic msg \<and> pe_error (preview_proposal env s i) = Some msg)"
proof (cases "get_proposal s i")
  case None
  then show ?thesis by (simp add: mark_executed_def preview_proposal_def preview_failure_def)
next
  case (Some p)
  then have p: "ms_proposals s i = Some p" by (simp add: get_proposal_def)
  consider (exp) "is_proposal_expired env s i" | (st) "\<not> is_proposal_expired env s i" "pr_status p \<noteq> PSPending"
    | (few) "\<not> is_proposal_expired env s i" "pr_status p = PSPending" "\<not> is_proposal_approved s i"
    | (ok) "\<not> is_proposal_expired env s i" "pr_status p = PSPending" "is_proposal_approved s i" by blast
  then show ?thesis
    by cases (simp_all add: p mark_executed_def preview_proposal_def preview_failure_def Let_def
        is_proposal_approved_def set_proposal_def get_proposal_def)
qed

text \<open>Any single owner may reject, and a proposal that was executed too.\<close>

lemma reject_has_no_status_check:
  "authorized env a \<Longrightarrow> is_owner s a \<Longrightarrow> ms_proposals s i = Some p \<Longrightarrow>
   \<exists>s'. reject_proposal env s a i = Inr s' \<and> ms_proposals s' i = Some (p\<lparr>pr_status := PSRejected\<rparr>)"
  by (simp add: reject_proposal_def get_proposal_def set_proposal_def)

section \<open>Witnesses\<close>

definition ms_calls :: "multisig_call list" where
  "ms_calls = [MInit [''A'', ''B''] 2, MCreate (env_at 1 1) ''A'' PPause, MApprove (env_at 2 2) ''B'' 0]"

definition ms_voted :: multisig_state where
  "ms_voted = \<lparr>ms_owners = Some [''A'', ''B''], ms_threshold = Some 2,
     ms_proposals = [0 \<mapsto> \<lparr>pr_id = 0, pr_action = PPause, pr_proposer = ''A'', pr_status = PSPending, pr_created_at = 1\<rparr>],
     ms_approvals = [0 \<mapsto> [''A'', ''B'']], ms_next_id = Some 1, ms_expiry = [0 \<mapsto> 100001], ms_last_quorum = None,
     ms_grace = None, ms_snapshots = [0 \<mapsto> \<lparr>vs_owners = [''A'', ''B''], vs_threshold = 2, vs_total_weight = Suc (Suc 0),
       vs_created_at = 1, vs_action_tag = 1\<rparr>]\<rparr>"

lemma ms_calls_run: "run multisig_step ms_calls multisig_empty = ms_voted"
  by (simp add: ms_calls_def exec_def initialize_multisig_def set_owners_def multisig_empty_def create_proposal_def
      is_owner_def get_owners_def get_threshold_def action_tag_def Let_def u64_max_def u32_max_def
      DEFAULT_PROPOSAL_EXPIRY_def approve_proposal_def get_proposal_def is_proposal_expired_def
      get_vote_weight_snapshot_def get_approvals_def ms_voted_def)

lemma ms_voted_executes: "\<exists>s'. mark_executed (env_at 3 3) ms_voted 0 = Inr s'"
  by (simp add: mark_executed_def ms_voted_def get_proposal_def is_proposal_expired_def is_proposal_approved_def
      effective_threshold_def get_approval_count_def get_vote_weight_snapshot_def get_approvals_def Let_def)

lemma executed_needs_quorum_witness:
  "\<exists>S. 2 \<le> card S \<and> (\<exists>pre env0 a0 act s1 mid env1 post.
     ms_calls @ [MExecute (env_at 3 3) 0] = pre @ MCreate env0 a0 act # mid @ MExecute env1 0 # post \<and>
     (\<forall>a\<in>S. a = a0 \<or> approved_by_in s1 mid 0 a (sequence env0 + DEFAULT_PROPOSAL_EXPIRY)))"
proof -
  obtain s' where e: "mark_executed (env_at 3 3) ms_voted 0 = Inr s'" using ms_voted_executes by blast
  have r: "run multisig_step (ms_calls @ [MExecute (env_at 3 3) 0]) multisig_empty = s'"
    using e by (simp add: run_append ms_calls_run)
  obtain p where p: "ms_proposals s' 0 = Some p" "pr_status p = PSExecuted" "ms_snapshots s' = ms_snapshots ms_voted"
    using e by (rule mark_executed_cases) (simp add: set_proposal_def)
  have "vs_threshold snap = 2" if "get_vote_weight_snapshot s' 0 = Some snap" for snap
    using that p(3) by (auto simp: get_vote_weight_snapshot_def ms_voted_def)
  with executed_needs_quorum [OF r p(1,2)] show ?thesis by metis
qed

lemma executed_at_most_once_witness:
  "\<exists>s' e. mark_executed (env_at 3 3) ms_voted 0 = Inr s' \<and>
     mark_executed (env_at 9 9) (run multisig_step [MCreate (env_at 4 4) ''A'' PUnpause] s') 0 = Inl e"
proof -
  obtain s' where e: "mark_executed (env_at 3 3) ms_voted 0 = Inr s'" using ms_voted_executes by blast
  have "reachable (\<lambda>s. s = multisig_empty) multisig_step (run multisig_step ms_calls multisig_empty)"
    by (rule reachable_run, rule reachable_start) simp
  then have "reachable (\<lambda>s. s = multisig_empty) multisig_step ms_voted" by (simp only: ms_calls_run)
  from executed_at_most_once [OF this e] e show ?thesis by blast
qed

end
