(* ===== verification/Key_Rotation.thy ===== *)
theory Key_Rotation
  imports Prelude
begin

text \<open>
  \<open>contracts/common/src/key_rotation.rs\<close>: the two-step rotation of an administrator key (propose, wait
  out the timelock, confirm within the window), its cancellation, the emergency rotation and the
  bounded history. Time is the ledger's sequence number, a \<open>u32\<close>.

  The key \<open>KeyRotationKey::PendingRotation\<close> of the module and the key
  \<open>AnalyticsRotationKey::PendingRotation\<close> of the attestation contract encode to the same value (a unit
  variant is stored under its name alone), and both are kept in the instance storage: the pending key
  rotation and the pending analytics rotation share one slot. The slot holds a value of either type, and
  reading it at the other type is a trap.
\<close>

section \<open>Data\<close>

datatype rotation_status = RPending | RCompleted | RCancelled | RExpired

record rotation_request =
  rq_old_admin :: address
  rq_new_admin :: address
  rq_status :: rotation_status
  rq_proposed_at :: nat
  rq_timelock_until :: nat
  rq_expires_at :: nat
  rq_is_emergency :: bool

record analytics_rotation =
  an_old :: address
  an_new :: address

datatype pending_value = PendingKey rotation_request | PendingAnalytics analytics_rotation

record rotation_record =
  rr_old_admin :: address
  rr_new_admin :: address
  rr_completed_at :: nat
  rr_is_emergency :: bool
  rr_grace_period_end :: nat

record rotation_config =
  ro_timelock_ledgers :: nat
  ro_confirmation_window_ledgers :: nat
  ro_cooldown_ledgers :: nat
  ro_grace_period_ledgers :: nat

definition DEFAULT_TIMELOCK_LEDGERS :: nat where "DEFAULT_TIMELOCK_LEDGERS = 17280"
definition DEFAULT_CONFIRMATION_WINDOW :: nat where "DEFAULT_CONFIRMATION_WINDOW = 34560"
definition DEFAULT_COOLDOWN_LEDGERS :: nat where "DEFAULT_COOLDOWN_LEDGERS = 8640"
definition DEFAULT_GRACE_PERIOD_LEDGERS :: nat where "DEFAULT_GRACE_PERIOD_LEDGERS = 17280"
definition MAX_ROTATION_HISTORY :: nat where "MAX_ROTATION_HISTORY = 50"

record rotation_state =
  ks_pending :: "pending_value option"
  ks_history :: "rotation_record list option"
  ks_config :: "rotation_config option"
  ks_last :: "nat option"
  ks_count :: "nat option"

definition rotation_empty :: rotation_state where
  "rotation_empty = \<lparr>ks_pending = None, ks_history = None, ks_config = None, ks_last = None, ks_count = None\<rparr>"

section \<open>Operations\<close>

definition get_rotation_config :: "rotation_state \<Rightarrow> rotation_config" where
  "get_rotation_config s = unwrap_or (ks_config s)
     \<lparr>ro_timelock_ledgers = DEFAULT_TIMELOCK_LEDGERS,
      ro_confirmation_window_ledgers = DEFAULT_CONFIRMATION_WINDOW,
      ro_cooldown_ledgers = DEFAULT_COOLDOWN_LEDGERS,
      ro_grace_period_ledgers = DEFAULT_GRACE_PERIOD_LEDGERS\<rparr>"

definition set_rotation_config :: "rotation_state \<Rightarrow> rotation_config \<Rightarrow> rotation_state res" where
  "set_rotation_config s c =
     bindr (assertr (0 < ro_timelock_ledgers c) ''timelock must be at least 1 ledger'') (\<lambda>_.
     bindr (assertr (0 < ro_confirmation_window_ledgers c) ''confirmation window must be at least 1 ledger'') (\<lambda>_.
     Inr (s\<lparr>ks_config := Some c\<rparr>)))"

definition get_pending_rotation :: "rotation_state \<Rightarrow> rotation_request option res" where
  "get_pending_rotation s = (case ks_pending s of
     None \<Rightarrow> Inr None | Some (PendingKey r) \<Rightarrow> Inr (Some r) | Some (PendingAnalytics p) \<Rightarrow> Inl BadValue)"

definition has_pending_rotation :: "ledger_env \<Rightarrow> rotation_state \<Rightarrow> bool res" where
  "has_pending_rotation env s =
     bindr (get_pending_rotation s) (\<lambda>pending.
     Inr (case pending of
            Some req \<Rightarrow> rq_status req = RPending \<and> sequence env \<le> rq_expires_at req
          | None \<Rightarrow> False))"

text \<open>The analytics rotation in the same slot: \<open>has\<close> sees a value of either type, \<open>get\<close> traps on the other one.\<close>

definition has_pending_analytics_rotation :: "rotation_state \<Rightarrow> bool" where
  "has_pending_analytics_rotation s \<longleftrightarrow> ks_pending s \<noteq> None"

definition get_pending_analytics_rotation :: "rotation_state \<Rightarrow> analytics_rotation option res" where
  "get_pending_analytics_rotation s = (case ks_pending s of
     None \<Rightarrow> Inr None | Some (PendingAnalytics p) \<Rightarrow> Inr (Some p) | Some (PendingKey r) \<Rightarrow> Inl BadValue)"

definition store_analytics_rotation :: "rotation_state \<Rightarrow> analytics_rotation \<Rightarrow> rotation_state res" where
  "store_analytics_rotation s p =
     bindr (assertr (\<not> has_pending_analytics_rotation s) ''analytics rotation already pending'') (\<lambda>_.
     Inr (s\<lparr>ks_pending := Some (PendingAnalytics p)\<rparr>))"

definition take_analytics_rotation :: "rotation_state \<Rightarrow> (analytics_rotation \<times> rotation_state) res" where
  "take_analytics_rotation s =
     bindr (get_pending_analytics_rotation s) (\<lambda>pending.
     bindr (expectr pending ''no pending analytics rotation'') (\<lambda>p. Inr (p, s\<lparr>ks_pending := None\<rparr>)))"

definition get_rotation_history :: "rotation_state \<Rightarrow> rotation_record list" where
  "get_rotation_history s = unwrap_or (ks_history s) []"

definition get_rotation_count :: "rotation_state \<Rightarrow> nat" where
  "get_rotation_count s = unwrap_or (ks_count s) 0"

definition get_last_rotation_ledger :: "rotation_state \<Rightarrow> nat" where
  "get_last_rotation_ledger s = unwrap_or (ks_last s) 0"

fun grace_loop :: "ledger_env \<Rightarrow> address \<Rightarrow> rotation_record list \<Rightarrow> bool" where
  "grace_loop env admin [] \<longleftrightarrow> False"
| "grace_loop env admin (record # older) \<longleftrightarrow>
     (if rr_old_admin record = admin
      then \<not> rr_is_emergency record \<and> sequence env \<le> rr_grace_period_end record
      else grace_loop env admin older)"

definition is_in_grace_period :: "ledger_env \<Rightarrow> rotation_state \<Rightarrow> address \<Rightarrow> bool" where
  "is_in_grace_period env s admin \<longleftrightarrow>
     (let history = get_rotation_history s in if history = [] then False else grace_loop env admin (rev history))"

function trim_history :: "rotation_record list \<Rightarrow> rotation_record list" where
  "trim_history history = (if MAX_ROTATION_HISTORY < length history then trim_history (tl history) else history)"
  by pat_completeness auto
termination
  by (relation "measure length") (auto simp: MAX_ROTATION_HISTORY_def)

definition finalize_rotation :: "ledger_env \<Rightarrow> rotation_state \<Rightarrow> rotation_request \<Rightarrow> rotation_state res" where
  "finalize_rotation env s request =
     bindr (if rq_is_emergency request then Inr (sequence env)
            else u32_chk (sequence env + ro_grace_period_ledgers (get_rotation_config s))) (\<lambda>grace_end.
     (let record = \<lparr>rr_old_admin = rq_old_admin request, rr_new_admin = rq_new_admin request,
                    rr_completed_at = sequence env, rr_is_emergency = rq_is_emergency request,
                    rr_grace_period_end = grace_end\<rparr>;
          history = trim_history (get_rotation_history s @ [record]) in
      bindr (u32_chk (get_rotation_count s + 1)) (\<lambda>count.
      Inr (s\<lparr>ks_history := Some history, ks_last := Some (sequence env), ks_count := Some count,
             ks_pending := None\<rparr>))))"

definition propose_rotation ::
  "ledger_env \<Rightarrow> rotation_state \<Rightarrow> address \<Rightarrow> address \<Rightarrow> (rotation_request \<times> rotation_state) res" where
  "propose_rotation env s current_admin new_admin =
     bindr (assertr (current_admin \<noteq> new_admin) ''new admin must differ from current admin'') (\<lambda>_.
     bindr (has_pending_rotation env s) (\<lambda>already.
     bindr (assertr (\<not> already) ''a rotation is already pending'') (\<lambda>_.
     (let config = get_rotation_config s; last_rotation = unwrap_or (ks_last s) 0 in
      bindr (if 0 < last_rotation
             then bindr (u32_chk (last_rotation + ro_cooldown_ledgers config)) (\<lambda>t.
                  assertr (t \<le> sequence env) ''rotation cooldown has not elapsed'')
             else Inr ()) (\<lambda>_.
      (let current_seq = sequence env in
       bindr (u32_chk (current_seq + ro_timelock_ledgers config)) (\<lambda>timelock_until.
       bindr (u32_chk (current_seq + ro_timelock_ledgers config + ro_confirmation_window_ledgers config)) (\<lambda>expires_at.
       (let request = \<lparr>rq_old_admin = current_admin, rq_new_admin = new_admin, rq_status = RPending,
                       rq_proposed_at = current_seq, rq_timelock_until = timelock_until,
                       rq_expires_at = expires_at, rq_is_emergency = False\<rparr> in
        Inr (request, s\<lparr>ks_pending := Some (PendingKey request)\<rparr>))))))))))"

definition confirm_rotation ::
  "ledger_env \<Rightarrow> rotation_state \<Rightarrow> address \<Rightarrow> (rotation_request \<times> rotation_state) res" where
  "confirm_rotation env s new_admin =
     bindr (get_pending_rotation s) (\<lambda>pending.
     bindr (expectr pending ''no pending rotation'') (\<lambda>request.
     bindr (assertr (rq_status request = RPending) ''rotation is not pending'') (\<lambda>_.
     bindr (assertr (new_admin = rq_new_admin request) ''caller is not the proposed new admin'') (\<lambda>_.
     bindr (assertr (rq_timelock_until request \<le> sequence env) ''timelock has not elapsed'') (\<lambda>_.
     bindr (assertr (sequence env \<le> rq_expires_at request) ''rotation confirmation window has expired'') (\<lambda>_.
     (let request1 = request\<lparr>rq_status := RCompleted\<rparr> in
      bindr (finalize_rotation env s request1) (\<lambda>s1. Inr (request1, s1)))))))))"

definition cancel_rotation ::
  "rotation_state \<Rightarrow> address \<Rightarrow> (rotation_request \<times> rotation_state) res" where
  "cancel_rotation s current_admin =
     bindr (get_pending_rotation s) (\<lambda>pending.
     bindr (expectr pending ''no pending rotation'') (\<lambda>request.
     bindr (assertr (rq_status request = RPending) ''rotation is not pending'') (\<lambda>_.
     bindr (assertr (current_admin = rq_old_admin request) ''only the current admin can cancel'') (\<lambda>_.
     Inr (request\<lparr>rq_status := RCancelled\<rparr>, s\<lparr>ks_pending := None\<rparr>)))))"

definition emergency_rotate ::
  "ledger_env \<Rightarrow> rotation_state \<Rightarrow> address \<Rightarrow> address \<Rightarrow> (rotation_request \<times> rotation_state) res" where
  "emergency_rotate env s old_admin new_admin =
     bindr (assertr (old_admin \<noteq> new_admin) ''new admin must differ from current admin'') (\<lambda>_.
     bindr (has_pending_rotation env s) (\<lambda>already.
     (let s1 = (if already then s\<lparr>ks_pending := None\<rparr> else s);
          request = \<lparr>rq_old_admin = old_admin, rq_new_admin = new_admin, rq_status = RCompleted,
                     rq_proposed_at = sequence env, rq_timelock_until = sequence env,
                     rq_expires_at = sequence env, rq_is_emergency = True\<rparr> in
      bindr (finalize_rotation env s1 request) (\<lambda>s2. Inr (request, s2)))))"

section \<open>The module as a machine\<close>

datatype rotation_call =
    KConfig rotation_config
  | KPropose ledger_env address address
  | KConfirm ledger_env address
  | KCancel address
  | KEmergency ledger_env address address
  | KStoreAnalytics analytics_rotation
  | KTakeAnalytics

fun rotation_call_step :: "rotation_call \<Rightarrow> rotation_state \<Rightarrow> rotation_state res" where
  "rotation_call_step (KConfig c) s = set_rotation_config s c"
| "rotation_call_step (KPropose env a b) s = bindr (propose_rotation env s a b) (\<lambda>(_, s'). Inr s')"
| "rotation_call_step (KConfirm env a) s = bindr (confirm_rotation env s a) (\<lambda>(_, s'). Inr s')"
| "rotation_call_step (KCancel a) s = bindr (cancel_rotation s a) (\<lambda>(_, s'). Inr s')"
| "rotation_call_step (KEmergency env a b) s = bindr (emergency_rotate env s a b) (\<lambda>(_, s'). Inr s')"
| "rotation_call_step (KStoreAnalytics p) s = store_analytics_rotation s p"
| "rotation_call_step KTakeAnalytics s = bindr (take_analytics_rotation s) (\<lambda>(_, s'). Inr s')"

lemma trim_history_drop: "trim_history h = drop (length h - MAX_ROTATION_HISTORY) h"
proof (induction h rule: trim_history.induct)
  case (1 h)
  show ?case
  proof (cases "MAX_ROTATION_HISTORY < length h")
    case True
    then have "trim_history h = drop (length (tl h) - MAX_ROTATION_HISTORY) (tl h)"
      using 1 by (simp add: trim_history.simps [of h])
    with True show ?thesis by (cases h) (simp_all add: Suc_diff_le)
  qed (simp add: trim_history.simps [of h])
qed

declare trim_history.simps [simp del]

lemma finalize_cases:
  assumes "finalize_rotation env s req = Inr s'"
  obtains rc where "rr_old_admin rc = rq_old_admin req" "rr_new_admin rc = rq_new_admin req"
    "rr_completed_at rc = sequence env" "rr_is_emergency rc = rq_is_emergency req"
    "rr_grace_period_end rc = sequence env + (if rq_is_emergency req then 0 else ro_grace_period_ledgers (get_rotation_config s))"
    "s' = s\<lparr>ks_history := Some (trim_history (get_rotation_history s @ [rc])), ks_last := Some (sequence env),
       ks_count := Some (get_rotation_count s + 1), ks_pending := None\<rparr>"
  by (rule that [of "\<lparr>rr_old_admin = rq_old_admin req, rr_new_admin = rq_new_admin req, rr_completed_at = sequence env,
        rr_is_emergency = rq_is_emergency req, rr_grace_period_end = sequence env +
        (if rq_is_emergency req then 0 else ro_grace_period_ledgers (get_rotation_config s))\<rparr>"])
    (use assms in \<open>auto simp: finalize_rotation_def Let_def split: if_splits\<close>)

lemma pending_Inr:
  "get_pending_rotation s = Inr (Some r) \<longleftrightarrow> ks_pending s = Some (PendingKey r)"
  "get_pending_rotation s = Inr None \<longleftrightarrow> ks_pending s = None"
  "get_pending_analytics_rotation s = Inr (Some p) \<longleftrightarrow> ks_pending s = Some (PendingAnalytics p)"
  "get_pending_analytics_rotation s = Inr None \<longleftrightarrow> ks_pending s = None"
  by (auto simp: get_pending_rotation_def get_pending_analytics_rotation_def split: option.splits pending_value.splits)

lemma cancel_cases:
  assumes "cancel_rotation s a = Inr (r, s')"
  obtains q where "ks_pending s = Some (PendingKey q)" "rq_status q = RPending" "a = rq_old_admin q"
    "r = q\<lparr>rq_status := RCancelled\<rparr>" "s' = s\<lparr>ks_pending := None\<rparr>"
  using assms by (auto simp: cancel_rotation_def pending_Inr intro: that)

lemma analytics_cases:
  "store_analytics_rotation s p = Inr s' \<longleftrightarrow> ks_pending s = None \<and> s' = s\<lparr>ks_pending := Some (PendingAnalytics p)\<rparr>"
  "take_analytics_rotation s = Inr (p, s') \<longleftrightarrow> ks_pending s = Some (PendingAnalytics p) \<and> s' = s\<lparr>ks_pending := None\<rparr>"
  by (auto simp: store_analytics_rotation_def has_pending_analytics_rotation_def take_analytics_rotation_def pending_Inr)

text \<open>The completed rotations of a history of calls, in order, as old and new administrator.\<close>

fun completes :: "rotation_call \<Rightarrow> rotation_state \<Rightarrow> (address \<times> address) list" where
  "completes (KConfirm env a) s =
     (case confirm_rotation env s a of Inr (r, _) \<Rightarrow> [(rq_old_admin r, rq_new_admin r)] | Inl _ \<Rightarrow> [])"
| "completes (KEmergency env a b) s = (case emergency_rotate env s a b of Inr _ \<Rightarrow> [(a, b)] | Inl _ \<Rightarrow> [])"
| "completes _ s = []"

fun rotations :: "rotation_call list \<Rightarrow> rotation_state \<Rightarrow> (address \<times> address) list" where
  "rotations [] s = []"
| "rotations (c # cs) s = completes c s @ rotations cs (exec rotation_call_step c s)"

definition rotation_inv :: "rotation_state \<Rightarrow> bool" where
  "rotation_inv s \<longleftrightarrow> 0 < ro_timelock_ledgers (get_rotation_config s) \<and>
     0 < ro_confirmation_window_ledgers (get_rotation_config s) \<and>
     (\<forall>r. ks_pending s = Some (PendingKey r) \<longrightarrow> rq_status r = RPending \<and> rq_proposed_at r < rq_timelock_until r \<and>
        rq_timelock_until r < rq_expires_at r \<and> rq_old_admin r \<noteq> rq_new_admin r \<and> \<not> rq_is_emergency r)"

lemma propose_cases:
  assumes "propose_rotation env s a b = Inr (r, s')"
  obtains "a \<noteq> b" "has_pending_rotation env s = Inr False" "s' = s\<lparr>ks_pending := Some (PendingKey r)\<rparr>"
    "rq_old_admin r = a" "rq_new_admin r = b" "rq_status r = RPending" "rq_proposed_at r = sequence env"
    "rq_timelock_until r = sequence env + ro_timelock_ledgers (get_rotation_config s)"
    "rq_expires_at r = sequence env + ro_timelock_ledgers (get_rotation_config s) +
       ro_confirmation_window_ledgers (get_rotation_config s)"
    "\<not> rq_is_emergency r"
    "get_last_rotation_ledger s = 0 \<or> get_last_rotation_ledger s + ro_cooldown_ledgers (get_rotation_config s) \<le> sequence env"
  using assms
  by (auto simp: propose_rotation_def Let_def get_last_rotation_ledger_def split: if_splits intro: that)

lemma confirm_cases:
  assumes "confirm_rotation env s a = Inr (r, s')"
  obtains q where "ks_pending s = Some (PendingKey q)" "rq_status q = RPending" "a = rq_new_admin q"
    "rq_timelock_until q \<le> sequence env" "sequence env \<le> rq_expires_at q" "r = q\<lparr>rq_status := RCompleted\<rparr>"
    "finalize_rotation env s (q\<lparr>rq_status := RCompleted\<rparr>) = Inr s'"
  using assms by (auto simp: confirm_rotation_def Let_def pending_Inr intro: that)

lemma emergency_cases:
  assumes "emergency_rotate env s a b = Inr (r, s')"
  obtains t q where "a \<noteq> b" "t = s \<or> t = s\<lparr>ks_pending := None\<rparr>" "rq_old_admin q = a" "rq_new_admin q = b"
    "rq_is_emergency q" "finalize_rotation env t q = Inr s'"
proof -
  obtain already where "a \<noteq> b" "finalize_rotation env (if already then s\<lparr>ks_pending := None\<rparr> else s)
      \<lparr>rq_old_admin = a, rq_new_admin = b, rq_status = RCompleted, rq_proposed_at = sequence env,
        rq_timelock_until = sequence env, rq_expires_at = sequence env, rq_is_emergency = True\<rparr> = Inr s'"
    using assms by (auto simp: emergency_rotate_def Let_def)
  then show thesis by (intro that) auto
qed

lemma rotation_config_frame: "ks_config s' = ks_config s \<Longrightarrow> get_rotation_config s' = get_rotation_config s"
  by (simp add: get_rotation_config_def)

lemma rotation_step_inv:
  assumes "rotation_inv s" and "rotation_call_step c s = Inr s'"
  shows "rotation_inv s'"
proof (cases c)
  case (KConfig cfg)
  with assms show ?thesis by (auto simp: set_rotation_config_def rotation_inv_def get_rotation_config_def)
next
  case (KPropose env a b)
  with assms(2) obtain r where "propose_rotation env s a b = Inr (r, s')" by auto
  then show ?thesis
    by (rule propose_cases) (use assms(1) rotation_config_frame [of s' s] in \<open>auto simp: rotation_inv_def\<close>)
next
  case (KConfirm env a)
  with assms(2) obtain r where "confirm_rotation env s a = Inr (r, s')" by auto
  then show ?thesis
    by (elim confirm_cases finalize_cases) (use assms(1) rotation_config_frame [of s' s] in \<open>auto simp: rotation_inv_def\<close>)
next
  case (KCancel a)
  with assms(2) obtain r where "cancel_rotation s a = Inr (r, s')" by auto
  then show ?thesis
    by (rule cancel_cases) (use assms(1) rotation_config_frame [of s' s] in \<open>auto simp: rotation_inv_def\<close>)
next
  case (KEmergency env a b)
  with assms(2) obtain r where "emergency_rotate env s a b = Inr (r, s')" by auto
  then show ?thesis
    by (elim emergency_cases finalize_cases) (use assms(1) rotation_config_frame [of s' s] in \<open>auto simp: rotation_inv_def\<close>)
qed (use assms rotation_config_frame [of s' s] in \<open>auto simp: rotation_inv_def analytics_cases\<close>)

lemma rotation_start_inv: "rotation_inv rotation_empty"
  by (simp add: rotation_inv_def rotation_empty_def get_rotation_config_def DEFAULT_TIMELOCK_LEDGERS_def
      DEFAULT_CONFIRMATION_WINDOW_def)

interpretation krot: invariant_machine "\<lambda>s. s = rotation_empty" rotation_call_step rotation_inv
  by unfold_locales (simp add: rotation_start_inv, rule rotation_step_inv)

section \<open>Properties\<close>

definition history_is :: "rotation_state \<Rightarrow> (address \<times> address) list \<Rightarrow> bool" where
  "history_is s xs \<longleftrightarrow>
     map (\<lambda>r. (rr_old_admin r, rr_new_admin r)) (get_rotation_history s) = drop (length xs - MAX_ROTATION_HISTORY) xs \<and>
     get_rotation_count s = length xs"

lemma drop_last_window:
  "drop (Suc (min (length xs) m) - m) (drop (length xs - m) xs @ [y]) = drop (Suc (length xs) - m) (xs @ [y])"
proof -
  have "drop (length xs - m) xs @ [y] = drop (length xs - m) (xs @ [y])" by simp
  moreover have "(Suc (min (length xs) m) - m) + (length xs - m) = Suc (length xs) - m" by simp
  ultimately show ?thesis by (simp only: drop_drop)
qed

lemma finalize_history:
  assumes "history_is s xs" and "finalize_rotation env s q = Inr s'"
  shows "history_is s' (xs @ [(rq_old_admin q, rq_new_admin q)])"
  using assms(2)
proof (rule finalize_cases)
  fix rc assume rc: "rr_old_admin rc = rq_old_admin q" "rr_new_admin rc = rq_new_admin q"
    "s' = s\<lparr>ks_history := Some (trim_history (get_rotation_history s @ [rc])), ks_last := Some (sequence env),
       ks_count := Some (get_rotation_count s + 1), ks_pending := None\<rparr>"
  let ?f = "\<lambda>r. (rr_old_admin r, rr_new_admin r)" and ?h = "get_rotation_history s"
  have h: "map ?f ?h = drop (length xs - MAX_ROTATION_HISTORY) xs" using assms(1) by (simp add: history_is_def)
  have l: "length ?h = min (length xs) MAX_ROTATION_HISTORY" using arg_cong [OF h, of length] by simp
  have "get_rotation_history s' = trim_history (?h @ [rc])"
    unfolding get_rotation_history_def [of s'] by (subst rc(3)) simp
  then have "map ?f (get_rotation_history s') = drop (Suc (length ?h) - MAX_ROTATION_HISTORY) (map ?f ?h @ [?f rc])"
    by (simp add: trim_history_drop drop_map [symmetric] del: drop_append)
  also have "\<dots> = drop (Suc (length xs) - MAX_ROTATION_HISTORY) (xs @ [?f rc])"
    unfolding h l by (rule drop_last_window)
  finally show ?thesis
    using assms(1) rc by (simp add: history_is_def get_rotation_count_def del: drop_append)
qed

lemma history_frame:
  "ks_history s' = ks_history s \<Longrightarrow> ks_count s' = ks_count s \<Longrightarrow> history_is s' xs = history_is s xs"
  by (simp add: history_is_def get_rotation_history_def get_rotation_count_def)

lemma history_step:
  assumes "history_is s xs"
  shows "history_is (exec rotation_call_step c s) (xs @ completes c s)"
proof (cases "rotation_call_step c s")
  case (Inl e)
  then have "completes c s = []" by (cases c) (auto simp: bindr_Inl split: sum.splits prod.splits)
  with Inl assms show ?thesis by simp
next
  case (Inr s')
  show ?thesis
  proof (cases c)
    case (KConfig cfg)
    with Inr assms show ?thesis by (auto simp: set_rotation_config_def intro: history_frame [THEN iffD2])
  next
    case (KPropose env a b)
    with Inr obtain r where "propose_rotation env s a b = Inr (r, s')" by auto
    then have "history_is s' xs" using assms by (elim propose_cases) (auto intro: history_frame [THEN iffD2])
    with KPropose Inr show ?thesis by simp
  next
    case (KConfirm env a)
    with Inr obtain r where r: "confirm_rotation env s a = Inr (r, s')" by auto
    then obtain q where "finalize_rotation env s (q\<lparr>rq_status := RCompleted\<rparr>) = Inr s'" "r = q\<lparr>rq_status := RCompleted\<rparr>"
      by (rule confirm_cases)
    with finalize_history [OF assms this(1)] r KConfirm Inr show ?thesis by simp
  next
    case (KCancel a)
    with Inr obtain r where "cancel_rotation s a = Inr (r, s')" by auto
    then have "history_is s' xs" using assms by (elim cancel_cases) (auto intro: history_frame [THEN iffD2])
    with KCancel Inr show ?thesis by simp
  next
    case (KEmergency env a b)
    with Inr obtain r where r: "emergency_rotate env s a b = Inr (r, s')" by auto
    then obtain t q where q: "t = s \<or> t = s\<lparr>ks_pending := None\<rparr>" "rq_old_admin q = a" "rq_new_admin q = b"
      "finalize_rotation env t q = Inr s'" by (rule emergency_cases)
    have "history_is t xs" using q(1) assms by (auto intro: history_frame [THEN iffD2])
    from finalize_history [OF this q(4)] q(2,3) r KEmergency Inr show ?thesis by simp
  qed (use Inr assms in \<open>auto simp: analytics_cases intro: history_frame [THEN iffD2]\<close>)
qed

lemma history_run: "history_is s xs \<Longrightarrow> history_is (run rotation_call_step cs s) (xs @ rotations cs s)"
proof (induction cs arbitrary: s xs)
  case Nil
  then show ?case by simp
next
  case (Cons c cs)
  from Cons.IH [OF history_step [OF Cons.prems]] show ?case by simp
qed

text \<open>
  The rotation history is the tail of all rotations: after any calls from the empty storage it lists,
  in order, the last \<open>MAX_ROTATION_HISTORY\<close> completed rotations (emergency ones included), and the
  rotation count is the number of all of them.
\<close>

theorem rotation_history_exact:
  "map (\<lambda>r. (rr_old_admin r, rr_new_admin r)) (get_rotation_history (run rotation_call_step cs rotation_empty)) =
     drop (length (rotations cs rotation_empty) - MAX_ROTATION_HISTORY) (rotations cs rotation_empty) \<and>
   get_rotation_count (run rotation_call_step cs rotation_empty) = length (rotations cs rotation_empty)"
proof -
  have "history_is rotation_empty []"
    by (simp add: history_is_def rotation_empty_def get_rotation_history_def get_rotation_count_def)
  from history_run [OF this, of cs] show ?thesis by (simp add: history_is_def)
qed

text \<open>
  C16. A rotation is confirmed only in its window: a successful confirmation goes back to a proposal of the
  same history, for the confirming key and under the timelock and window configured then, which are
  at least one ledger each; so the key is never handed over in the ledger of its proposal.
\<close>

theorem confirm_within_window:
  assumes "confirm_rotation env (run rotation_call_step cs rotation_empty) a = Inr (r, s')"
  shows "\<exists>pre env0 old post cfg. cs = pre @ KPropose env0 old a # post \<and>
    cfg = get_rotation_config (run rotation_call_step pre rotation_empty) \<and> 0 < ro_timelock_ledgers cfg \<and>
    rq_old_admin r = old \<and> rq_new_admin r = a \<and> old \<noteq> a \<and>
    sequence env0 + ro_timelock_ledgers cfg \<le> sequence env \<and>
    sequence env \<le> sequence env0 + ro_timelock_ledgers cfg + ro_confirmation_window_ledgers cfg"
proof -
  let ?s = "run rotation_call_step cs rotation_empty"
  from assms obtain q where q: "ks_pending ?s = Some (PendingKey q)" "a = rq_new_admin q" "rq_timelock_until q \<le> sequence env"
    "sequence env \<le> rq_expires_at q" "r = q\<lparr>rq_status := RCompleted\<rparr>" by (rule confirm_cases)
  obtain pre c post t where c: "cs = pre @ c # post" "ks_pending (run rotation_call_step pre rotation_empty) \<noteq> Some (PendingKey q)"
    "rotation_call_step c (run rotation_call_step pre rotation_empty) = Inr t" "ks_pending t = Some (PendingKey q)"
    using run_becomes [of "\<lambda>s. ks_pending s = Some (PendingKey q)", OF q(1)] by (auto simp: rotation_empty_def)
  let ?p = "run rotation_call_step pre rotation_empty"
  have inv: "rotation_inv ?p" by (rule krot.run_inv [OF rotation_start_inv])
  obtain env0 x y where k: "c = KPropose env0 x y" "propose_rotation env0 ?p x y = Inr (q, t)"
  proof (cases c)
    case (KPropose env0 x y)
    with c(3) obtain q' where q': "propose_rotation env0 ?p x y = Inr (q', t)" by auto
    then have "ks_pending t = Some (PendingKey q')" by (auto elim: propose_cases)
    with c(4) q' KPropose show ?thesis by (auto intro: that)
  qed (use c in \<open>auto simp: set_rotation_config_def analytics_cases elim!: cancel_cases confirm_cases emergency_cases finalize_cases\<close>)
  let ?cfg = "get_rotation_config ?p"
  have "0 < ro_timelock_ledgers ?cfg \<and> rq_old_admin r = x \<and> rq_new_admin r = a \<and> x \<noteq> a \<and> y = a \<and>
      sequence env0 + ro_timelock_ledgers ?cfg \<le> sequence env \<and>
      sequence env \<le> sequence env0 + ro_timelock_ledgers ?cfg + ro_confirmation_window_ledgers ?cfg"
    using k(2) q inv by (elim propose_cases) (auto simp: rotation_inv_def)
  with c(1) k(1) show ?thesis by (intro exI [of _ pre] exI [of _ env0] exI [of _ x] exI [of _ post]) simp
qed

text \<open>
  The shared slot: while an analytics rotation is pending, every key rotation is stuck. It can be neither
  proposed nor confirmed nor cancelled, and the emergency rotation, meant for a lost key, fails as well;
  and while a key rotation is pending (or has expired unconfirmed) no analytics rotation can be proposed
  or taken up.
\<close>

lemma pending_analytics_blocks_rotation:
  assumes "ks_pending s = Some (PendingAnalytics p)"
  shows "\<exists>e. propose_rotation env s a b = Inl e" and "confirm_rotation env s b = Inl BadValue"
    and "cancel_rotation s a = Inl BadValue" and "a \<noteq> b \<Longrightarrow> emergency_rotate env s a b = Inl BadValue"
  using assms
  by (simp_all add: propose_rotation_def confirm_rotation_def cancel_rotation_def emergency_rotate_def
      has_pending_rotation_def get_pending_rotation_def bindr_Inl assertr_def)

lemma pending_key_blocks_analytics:
  assumes "ks_pending s = Some (PendingKey r)"
  shows "\<exists>e. store_analytics_rotation s p = Inl e" and "take_analytics_rotation s = Inl BadValue"
  using assms
  by (simp_all add: store_analytics_rotation_def has_pending_analytics_rotation_def take_analytics_rotation_def
      get_pending_analytics_rotation_def assertr_def)

section \<open>Witnesses\<close>

lemma rotation_propose_value:
  "run rotation_call_step [KPropose (env_at 0 10) ''OLD'' ''NEW''] rotation_empty =
     rotation_empty\<lparr>ks_pending := Some (PendingKey \<lparr>rq_old_admin = ''OLD'', rq_new_admin = ''NEW'', rq_status = RPending,
       rq_proposed_at = 10, rq_timelock_until = 17290, rq_expires_at = 51850, rq_is_emergency = False\<rparr>)\<rparr>"
  by (simp add: exec_def propose_rotation_def has_pending_rotation_def get_pending_rotation_def rotation_empty_def
      get_rotation_config_def DEFAULT_TIMELOCK_LEDGERS_def DEFAULT_CONFIRMATION_WINDOW_def u32_max_def Let_def)

lemma confirm_within_window_witness:
  "\<exists>r s'. confirm_rotation (env_at 0 17290) (run rotation_call_step [KPropose (env_at 0 10) ''OLD'' ''NEW''] rotation_empty) ''NEW''
     = Inr (r, s') \<and> rq_old_admin r = ''OLD''"
proof -
  obtain r s' where c: "confirm_rotation (env_at 0 17290)
      (run rotation_call_step [KPropose (env_at 0 10) ''OLD'' ''NEW''] rotation_empty) ''NEW'' = Inr (r, s')"
    unfolding rotation_propose_value
    by (simp add: confirm_rotation_def get_pending_rotation_def finalize_rotation_def rotation_empty_def get_rotation_config_def
        DEFAULT_GRACE_PERIOD_LEDGERS_def get_rotation_count_def u32_max_def Let_def)
  from confirm_within_window [OF this] c show ?thesis by (auto simp: Cons_eq_append_conv)
qed

end
