(* ===== verification/Attestation_Admin.thy ===== *)
theory Attestation_Admin
  imports Attestation_Lifecycle Multisig Key_Rotation
begin

text \<open>
  The administrative entry points of \<open>lib.rs\<close>: initialization, fee configuration and its timelock, the
  staking contract and its timelock, roles, pausing, rate limits, analytics and anomaly scores, key
  rotation, disputes, slashing and the multisig with the dispatch of its actions.
\<close>

section \<open>The contract\<close>

text \<open>
  The storage of the multisig and of the key rotation is kept beside that of the rest. Two keys of the
  instance storage are written by two modules each, because a unit variant of a key type is stored under
  its name alone. \<open>DataKey::Dao\<close> (\<open>dynamic_fees.rs\<close>) and \<open>FlatFeeDataKey::Dao\<close> (\<open>fees.rs\<close>) are one
  slot: both modules' states show it (\<open>fs_dao\<close>, \<open>fl_dao\<close>), and an operation that stores one stores the
  other. \<open>AnalyticsRotationKey::PendingRotation\<close> (\<open>lib.rs\<close>) and \<open>KeyRotationKey::PendingRotation\<close>
  (\<open>common/src/key_rotation.rs\<close>) are one slot as well, the field \<open>ks_pending\<close> of the rotation state.
\<close>

record contract =
  ct_att :: att_state
  ct_multisig :: multisig_state
  ct_rotation :: rotation_state

definition contract_empty :: contract where
  "contract_empty = \<lparr>ct_att = att_empty, ct_multisig = multisig_empty, ct_rotation = rotation_empty\<rparr>"

text \<open>An operation of one module on its part of the storage.\<close>

definition on_fees :: "(fee_state \<Rightarrow> fee_state res) \<Rightarrow> att_state \<Rightarrow> att_state res" where
  "on_fees f s = bindr (f (at_fees s)) (\<lambda>f1. Inr (s\<lparr>at_fees := f1\<rparr>))"

text \<open>The flat fee module stores its state; its DAO is the dynamic fees' DAO too.\<close>

definition put_flat :: "flat_state \<Rightarrow> att_state \<Rightarrow> att_state" where
  "put_flat f s = s\<lparr>at_flat := f, at_fees := (at_fees s)\<lparr>fs_dao := fl_dao f\<rparr>\<rparr>"

definition on_flat :: "(flat_state \<Rightarrow> flat_state res) \<Rightarrow> att_state \<Rightarrow> att_state res" where
  "on_flat f s = bindr (f (at_flat s)) (\<lambda>f1. Inr (put_flat f1 s))"

definition on_access :: "(access_state \<Rightarrow> access_state res) \<Rightarrow> att_state \<Rightarrow> att_state res" where
  "on_access f s = bindr (f (at_access s)) (\<lambda>a1. Inr (s\<lparr>at_access := a1\<rparr>))"

definition on_registry :: "(registry \<Rightarrow> registry res) \<Rightarrow> att_state \<Rightarrow> att_state res" where
  "on_registry f s = bindr (f (at_registry s)) (\<lambda>r1. Inr (s\<lparr>at_registry := r1\<rparr>))"

definition on_dispute :: "(dispute_state \<Rightarrow> dispute_state res) \<Rightarrow> att_state \<Rightarrow> att_state res" where
  "on_dispute f s = bindr (f (at_dispute s)) (\<lambda>d1. Inr (s\<lparr>at_dispute := d1\<rparr>))"

definition use_nonce_of :: "address \<Rightarrow> nat \<Rightarrow> nat \<Rightarrow> att_state \<Rightarrow> att_state res" where
  "use_nonce_of actor channel nonce s =
     bindr (verify_and_increment_nonce (at_nonces s) actor channel nonce) (\<lambda>m. Inr (s\<lparr>at_nonces := m\<rparr>))"

definition for_admin :: "ledger_env \<Rightarrow> (att_state \<Rightarrow> att_state res) \<Rightarrow> att_state \<Rightarrow> att_state res" where
  "for_admin env f s = bindr (fees_require_admin env (at_fees s)) (\<lambda>_. f s)"

definition for_role_admin :: "ledger_env \<Rightarrow> address \<Rightarrow> (att_state \<Rightarrow> att_state res) \<Rightarrow> att_state \<Rightarrow> att_state res" where
  "for_role_admin env caller f s = bindr (require_admin env (at_access s) caller) (\<lambda>_. f s)"

section \<open>Initialization and fees\<close>

definition initialize :: "ledger_env \<Rightarrow> address \<Rightarrow> nat \<Rightarrow> att_state \<Rightarrow> att_state res" where
  "initialize env admin nonce s =
     (if fees_is_initialized (at_fees s) then Inl (Panic ''already initialized'')
      else
        bindr (require_auth env admin) (\<lambda>_.
        bindr (use_nonce_of admin NONCE_CHANNEL_ADMIN nonce s) (\<lambda>s1.
        (let s2 = s1\<lparr>at_fees := fees_set_admin (at_fees s1) admin\<rparr> in
         on_access (\<lambda>ac. grant_role ac admin ROLE_ADMIN) s2))))"

definition configure_fees ::
  "ledger_env \<Rightarrow> address \<Rightarrow> address \<Rightarrow> int \<Rightarrow> bool \<Rightarrow> att_state \<Rightarrow> att_state res" where
  "configure_fees env token collector base_fee enabled s =
     for_admin env (\<lambda>s.
       bindr (assertr (0 \<le> base_fee) ''base_fee must be non-negative'') (\<lambda>_.
       on_fees (\<lambda>f. Inr (set_fee_config f \<lparr>fc_token = token, fc_collector = collector, fc_base_fee = base_fee,
                                              fc_enabled = enabled\<rparr>)) s)) s"

text \<open>What the timelocked calls start with: the caller's role, the administrator's authorization and nonce.\<close>

definition timelock_guard :: "ledger_env \<Rightarrow> address \<Rightarrow> nat \<Rightarrow> att_state \<Rightarrow> (address \<times> att_state) res" where
  "timelock_guard env caller nonce s =
     bindr (require_admin env (at_access s) caller) (\<lambda>_.
     bindr (fees_require_admin env (at_fees s)) (\<lambda>admin.
     bindr (use_nonce_of admin NONCE_CHANNEL_ADMIN nonce s) (\<lambda>s1. Inr (admin, s1))))"

definition propose_fee_config ::
  "ledger_env \<Rightarrow> address \<Rightarrow> address \<Rightarrow> address \<Rightarrow> int \<Rightarrow> bool \<Rightarrow> nat \<Rightarrow> att_state \<Rightarrow> att_state res" where
  "propose_fee_config env caller token collector base_fee enabled nonce s =
     bindr (timelock_guard env caller nonce s) (\<lambda>(admin, s1).
     bindr (assertr (0 \<le> base_fee) ''base_fee must be non-negative'') (\<lambda>_.
     bindr (assertr (get_pending_fee_config (at_fees s1) = None) ''pending fee config already scheduled'') (\<lambda>_.
     bindr (u64_chk (timestamp env + FEE_TIMELOCK_SECONDS)) (\<lambda>effective_at.
     Inr (s1\<lparr>at_fees := set_pending_fee_config (at_fees s1)
            \<lparr>pf_config = \<lparr>fc_token = token, fc_collector = collector, fc_base_fee = base_fee, fc_enabled = enabled\<rparr>,
             pf_effective_at = effective_at, pf_proposed_by = admin\<rparr>\<rparr>)))))"

definition commit_fee_config :: "ledger_env \<Rightarrow> address \<Rightarrow> nat \<Rightarrow> att_state \<Rightarrow> att_state res" where
  "commit_fee_config env caller nonce s =
     bindr (timelock_guard env caller nonce s) (\<lambda>(admin, s1).
     bindr (expectr (get_pending_fee_config (at_fees s1)) ''no pending fee config to commit'') (\<lambda>p.
     bindr (assertr (pf_effective_at p \<le> timestamp env) ''timelock not yet expired'') (\<lambda>_.
     Inr (s1\<lparr>at_fees := clear_pending_fee_config (set_fee_config (at_fees s1) (pf_config p))\<rparr>))))"

definition cancel_pending_fee_config :: "ledger_env \<Rightarrow> address \<Rightarrow> nat \<Rightarrow> att_state \<Rightarrow> att_state res" where
  "cancel_pending_fee_config env caller nonce s =
     bindr (timelock_guard env caller nonce s) (\<lambda>(admin, s1).
     bindr (assertr (get_pending_fee_config (at_fees s1) \<noteq> None) ''no pending fee config to cancel'') (\<lambda>_.
     Inr (s1\<lparr>at_fees := clear_pending_fee_config (at_fees s1)\<rparr>)))"

definition tier_discount_entry :: "ledger_env \<Rightarrow> nat \<Rightarrow> nat \<Rightarrow> att_state \<Rightarrow> att_state res" where
  "tier_discount_entry env tier bps = for_admin env (on_fees (\<lambda>f. set_tier_discount f tier bps))"

definition business_tier_entry :: "ledger_env \<Rightarrow> address \<Rightarrow> nat \<Rightarrow> att_state \<Rightarrow> att_state res" where
  "business_tier_entry env business tier = for_admin env (on_fees (\<lambda>f. set_business_tier f business tier))"

definition volume_brackets_entry :: "ledger_env \<Rightarrow> nat list \<Rightarrow> nat list \<Rightarrow> att_state \<Rightarrow> att_state res" where
  "volume_brackets_entry env thresholds discounts =
     for_admin env (on_fees (\<lambda>f. set_volume_brackets f thresholds discounts))"

definition fee_enabled_entry :: "ledger_env \<Rightarrow> bool \<Rightarrow> att_state \<Rightarrow> att_state res" where
  "fee_enabled_entry env enabled = for_admin env (on_fees (\<lambda>f. Inr (set_fee_enabled f enabled)))"

definition set_dao_entry :: "ledger_env \<Rightarrow> address \<Rightarrow> att_state \<Rightarrow> att_state res" where
  "set_dao_entry env dao = for_admin env (\<lambda>s.
     Inr (s\<lparr>at_fees := fees_set_dao (at_fees s) dao, at_flat := (at_flat s)\<lparr>fl_dao := Some dao\<rparr>\<rparr>))"

definition configure_flat_fee ::
  "ledger_env \<Rightarrow> dao_call \<Rightarrow> address \<Rightarrow> address \<Rightarrow> int \<Rightarrow> bool \<Rightarrow> att_state \<Rightarrow> att_state res" where
  "configure_flat_fee env dao_config token collector amount enabled =
     for_admin env (on_flat (\<lambda>f. set_flat_fee_config dao_config f
       \<lparr>fl_token = token, fl_collector = collector, fl_amount = amount, fl_enabled = enabled\<rparr>))"

definition set_flat_fee_dao :: "ledger_env \<Rightarrow> dao_call \<Rightarrow> address \<Rightarrow> att_state \<Rightarrow> att_state res" where
  "set_flat_fee_dao env dao_config dao = for_admin env (on_flat (\<lambda>f. flat_set_dao dao_config f dao))"

definition advance_epoch_entry :: "ledger_env \<Rightarrow> dao_call \<Rightarrow> att_state \<Rightarrow> att_state res" where
  "advance_epoch_entry env dao_config =
     for_admin env (on_flat (\<lambda>f. bindr (flat_advance_epoch dao_config f) (\<lambda>(_, f1). Inr f1)))"

definition set_epoch_entry :: "ledger_env \<Rightarrow> dao_call \<Rightarrow> nat \<Rightarrow> att_state \<Rightarrow> att_state res" where
  "set_epoch_entry env dao_config epoch = for_admin env (on_flat (\<lambda>f. set_current_epoch dao_config f epoch))"

definition propose_collector_entry ::
  "ledger_env \<Rightarrow> 'w token_ops \<Rightarrow> address \<Rightarrow> address \<Rightarrow> att_state \<times> 'w \<Rightarrow> (att_state \<times> 'w) res" where
  "propose_collector_entry env T caller new_collector sw =
     (let (s, w) = sw in
      bindr (expectr (get_flat_fee_config (at_flat s)) ''flat fee not configured'') (\<lambda>c.
      bindr (assertr (caller = fl_collector c) ''only current collector may propose rotation'') (\<lambda>_.
      bindr (propose_collector_rotation T env caller new_collector (at_flat s, w)) (\<lambda>(f1, w1).
      Inr (put_flat f1 s, w1)))))"

definition accept_collector_entry ::
  "ledger_env \<Rightarrow> 'w token_ops \<Rightarrow> dao_call \<Rightarrow> address \<Rightarrow> att_state \<times> 'w \<Rightarrow> (att_state \<times> 'w) res" where
  "accept_collector_entry env T dao_config caller sw =
     (let (s, w) = sw in
      bindr (expectr (get_collector_rotation_proposal (at_flat s)) ''no pending collector rotation'') (\<lambda>p.
      bindr (assertr (caller = cr_new_collector p) ''only proposed new collector may accept rotation'') (\<lambda>_.
      bindr (accept_collector_rotation T dao_config env caller (at_flat s, w)) (\<lambda>(f1, w1).
      Inr (put_flat f1 s, w1)))))"

section \<open>The staking, audit and reputation contracts\<close>

definition set_attestor_staking_contract :: "att_state \<Rightarrow> att_state res" where
  "set_attestor_staking_contract s =
     Inl (Panic ''set_attestor_staking_contract is disabled: use propose_staking_contract + commit_staking_contract (24 h timelock)'')"

definition propose_staking_contract ::
  "ledger_env \<Rightarrow> address \<Rightarrow> address \<Rightarrow> nat \<Rightarrow> att_state \<Rightarrow> att_state res" where
  "propose_staking_contract env caller new_contract nonce s =
     bindr (timelock_guard env caller nonce s) (\<lambda>(admin, s1).
     bindr (assertr (get_pending_staking_contract (at_fees s1) = None) ''pending staking contract already scheduled'') (\<lambda>_.
     bindr (u64_chk (timestamp env + FEE_TIMELOCK_SECONDS)) (\<lambda>effective_at.
     Inr (s1\<lparr>at_fees := set_pending_staking_contract (at_fees s1)
            \<lparr>ps_new_contract = new_contract, ps_effective_at = effective_at, ps_proposed_by = admin\<rparr>\<rparr>))))"

definition commit_staking_contract :: "ledger_env \<Rightarrow> address \<Rightarrow> nat \<Rightarrow> att_state \<Rightarrow> att_state res" where
  "commit_staking_contract env caller nonce s =
     bindr (timelock_guard env caller nonce s) (\<lambda>(admin, s1).
     bindr (expectr (get_pending_staking_contract (at_fees s1)) ''no pending staking contract to commit'') (\<lambda>p.
     bindr (assertr (ps_effective_at p \<le> timestamp env) ''timelock not yet expired'') (\<lambda>_.
     Inr (s1\<lparr>at_staking := Some (ps_new_contract p), at_fees := clear_pending_staking_contract (at_fees s1)\<rparr>))))"

definition cancel_pending_staking_contract :: "ledger_env \<Rightarrow> address \<Rightarrow> nat \<Rightarrow> att_state \<Rightarrow> att_state res" where
  "cancel_pending_staking_contract env caller nonce s =
     bindr (timelock_guard env caller nonce s) (\<lambda>(admin, s1).
     bindr (expectr (get_pending_staking_contract (at_fees s1)) ''no pending staking contract to cancel'') (\<lambda>p.
     Inr (s1\<lparr>at_fees := clear_pending_staking_contract (at_fees s1)\<rparr>)))"

definition set_audit_log_contract :: "ledger_env \<Rightarrow> address \<Rightarrow> address \<Rightarrow> att_state \<Rightarrow> att_state res" where
  "set_audit_log_contract env caller audit_log = for_role_admin env caller (\<lambda>s. Inr (s\<lparr>at_audit := Some audit_log\<rparr>))"

definition reputation_entry :: "ledger_env \<Rightarrow> address \<Rightarrow> address \<Rightarrow> att_state \<Rightarrow> att_state res" where
  "reputation_entry env caller c = for_role_admin env caller (on_fees (\<lambda>f. Inr (set_reputation_contract f c)))"

definition clear_reputation_entry :: "ledger_env \<Rightarrow> address \<Rightarrow> att_state \<Rightarrow> att_state res" where
  "clear_reputation_entry env caller = for_role_admin env caller (on_fees (\<lambda>f. Inr (clear_reputation_contract f)))"

definition min_reputation_entry :: "ledger_env \<Rightarrow> address \<Rightarrow> nat \<Rightarrow> att_state \<Rightarrow> att_state res" where
  "min_reputation_entry env caller score = for_role_admin env caller (on_fees (\<lambda>f. Inr (set_min_reputation f score)))"

section \<open>Roles, permits and pausing\<close>

definition grant_role_entry :: "ledger_env \<Rightarrow> address \<Rightarrow> address \<Rightarrow> roles \<Rightarrow> att_state \<Rightarrow> att_state res" where
  "grant_role_entry env caller account role = for_role_admin env caller (on_access (\<lambda>ac. grant_role ac account role))"

definition revoke_role_entry :: "ledger_env \<Rightarrow> address \<Rightarrow> address \<Rightarrow> roles \<Rightarrow> att_state \<Rightarrow> att_state res" where
  "revoke_role_entry env caller account role =
     for_role_admin env caller (on_access (\<lambda>ac. revoke_role env ac account role))"

definition swap_admin_entry :: "ledger_env \<Rightarrow> address \<Rightarrow> address \<Rightarrow> address \<Rightarrow> att_state \<Rightarrow> att_state res" where
  "swap_admin_entry env caller old_admin new_admin = on_access (\<lambda>ac. swap_admin env ac old_admin new_admin caller)"

definition admin_weight_entry :: "ledger_env \<Rightarrow> address \<Rightarrow> address \<Rightarrow> nat \<Rightarrow> att_state \<Rightarrow> att_state res" where
  "admin_weight_entry env caller account weight =
     for_role_admin env caller (on_access (\<lambda>ac. set_admin_weight ac account weight))"

definition cancel_delegated_permit :: "ledger_env \<Rightarrow> address \<Rightarrow> nat \<Rightarrow> nat \<Rightarrow> att_state \<Rightarrow> att_state res" where
  "cancel_delegated_permit env business nonce permit_expiry_ts s =
     bindr (require_auth env business) (\<lambda>_.
     if permit_expiry_ts \<noteq> 0 \<and> permit_expiry_ts < timestamp env then Inl (Panic ''cancel permit has expired'')
     else use_nonce_of business NONCE_CHANNEL_PERMIT nonce s)"

text \<open>What the pause calls start with; the pending pause is applied before anything else.\<close>

definition pause_guard :: "ledger_env \<Rightarrow> address \<Rightarrow> nat \<Rightarrow> att_state \<Rightarrow> att_state res" where
  "pause_guard env caller nonce s =
     (let s1 = s\<lparr>at_access := check_and_apply_pending_pause env (at_access s)\<rparr> in
      bindr (require_admin env (at_access s1) caller) (\<lambda>_. use_nonce_of caller NONCE_CHANNEL_ADMIN nonce s1))"

definition pause_entry :: "ledger_env \<Rightarrow> address \<Rightarrow> nat \<Rightarrow> att_state \<Rightarrow> att_state res" where
  "pause_entry env caller nonce s =
     bindr (pause_guard env caller nonce s) (on_access (\<lambda>ac. Inr (set_paused ac True)))"

definition unpause_entry :: "ledger_env \<Rightarrow> address \<Rightarrow> nat \<Rightarrow> att_state \<Rightarrow> att_state res" where
  "unpause_entry env caller nonce s =
     bindr (pause_guard env caller nonce s) (on_access (\<lambda>ac. Inr (set_paused ac False)))"

definition schedule_pause :: "ledger_env \<Rightarrow> address \<Rightarrow> nat \<Rightarrow> nat \<Rightarrow> att_state \<Rightarrow> att_state res" where
  "schedule_pause env caller effective_at nonce s =
     bindr (pause_guard env caller nonce s) (\<lambda>s1.
     bindr (u64_chk (timestamp env + 3600)) (\<lambda>earliest.
     bindr (assertr (earliest \<le> effective_at) ''notice window must be at least 1 hour'') (\<lambda>_.
     bindr (assertr (get_pending_pause_effective_at (at_access s1) = None) ''pending pause already scheduled'') (\<lambda>_.
     on_access (\<lambda>ac. Inr (set_pending_pause_effective_at ac effective_at)) s1))))"

definition cancel_scheduled_pause :: "ledger_env \<Rightarrow> address \<Rightarrow> nat \<Rightarrow> att_state \<Rightarrow> att_state res" where
  "cancel_scheduled_pause env caller nonce s =
     bindr (pause_guard env caller nonce s) (\<lambda>s1.
     bindr (assertr (get_pending_pause_effective_at (at_access s1) \<noteq> None) ''no pending pause to cancel'') (\<lambda>_.
     on_access (\<lambda>ac. Inr (clear_pending_pause ac)) s1))"

definition configure_rate_limit ::
  "ledger_env \<Rightarrow> nat \<Rightarrow> nat \<Rightarrow> nat \<Rightarrow> nat \<Rightarrow> bool \<Rightarrow> nat \<Rightarrow> att_state \<Rightarrow> att_state res" where
  "configure_rate_limit env max_submissions window_seconds burst_max_submissions burst_window_seconds enabled nonce s =
     bindr (fees_get_admin (at_fees s)) (\<lambda>admin.
     bindr (require_auth env admin) (\<lambda>_.
     bindr (use_nonce_of admin NONCE_CHANNEL_ADMIN nonce s) (\<lambda>s1.
     bindr (set_rate_limit_config (at_rate s1)
              \<lparr>rc_max_submissions = max_submissions, rc_window_seconds = window_seconds,
               rc_burst_max_submissions = burst_max_submissions, rc_burst_window_seconds = burst_window_seconds,
               rc_enabled = enabled\<rparr>) (\<lambda>r1.
     Inr (s1\<lparr>at_rate := r1\<rparr>)))))"

section \<open>Analytics and anomaly scores\<close>

definition add_authorized_analytics :: "ledger_env \<Rightarrow> address \<Rightarrow> address \<Rightarrow> att_state \<Rightarrow> att_state res" where
  "add_authorized_analytics env caller analytics =
     for_role_admin env caller (\<lambda>s. Inr (s\<lparr>at_analytics := insert analytics (at_analytics s)\<rparr>))"

definition remove_authorized_analytics :: "ledger_env \<Rightarrow> address \<Rightarrow> address \<Rightarrow> att_state \<Rightarrow> att_state res" where
  "remove_authorized_analytics env caller analytics =
     for_role_admin env caller (\<lambda>s. Inr (s\<lparr>at_analytics := at_analytics s - {analytics}\<rparr>))"

definition is_authorized_analytics :: "att_state \<Rightarrow> address \<Rightarrow> bool" where
  "is_authorized_analytics s analytics \<longleftrightarrow> analytics \<in> at_analytics s"

definition set_anomaly ::
  "ledger_env \<Rightarrow> address \<Rightarrow> address \<Rightarrow> sstring \<Rightarrow> nat \<Rightarrow> att_state \<Rightarrow> att_state res" where
  "set_anomaly env caller business period score s =
     bindr (require_auth env caller) (\<lambda>_.
     bindr (assertr (score \<le> ANOMALY_SCORE_MAX) ''score too high'') (\<lambda>_.
     bindr (assertr (has_role (at_access s) caller ROLE_ADMIN \<or> caller \<in> at_analytics s)
              ''caller is not authorized analytics or admin'') (\<lambda>_.
     Inr (s\<lparr>at_anomaly := (at_anomaly s)((business, period) \<mapsto> score)\<rparr>))))"

definition get_anomaly :: "att_state \<Rightarrow> address \<Rightarrow> sstring \<Rightarrow> nat option" where
  "get_anomaly s business period = at_anomaly s (business, period)"

definition propose_analytics_rotation ::
  "ledger_env \<Rightarrow> address \<Rightarrow> address \<Rightarrow> address \<Rightarrow> contract \<Rightarrow> contract res" where
  "propose_analytics_rotation env caller old_analytics new_analytics c =
     (let s = ct_att c in
      bindr (require_admin env (at_access s) caller) (\<lambda>_.
      bindr (assertr (old_analytics \<noteq> new_analytics) ''new analytics must differ'') (\<lambda>_.
      bindr (assertr (old_analytics \<in> at_analytics s) ''old analytics is not authorized'') (\<lambda>_.
      bindr (assertr (new_analytics \<notin> at_analytics s) ''new analytics is already authorized'') (\<lambda>_.
      bindr (store_analytics_rotation (ct_rotation c) \<lparr>an_old = old_analytics, an_new = new_analytics\<rparr>) (\<lambda>r1.
      Inr (c\<lparr>ct_rotation := r1\<rparr>)))))))"

definition commit_analytics_rotation :: "ledger_env \<Rightarrow> address \<Rightarrow> address \<Rightarrow> contract \<Rightarrow> contract res" where
  "commit_analytics_rotation env caller new_analytics c =
     (let s = ct_att c in
      bindr (require_admin env (at_access s) caller) (\<lambda>_.
      bindr (take_analytics_rotation (ct_rotation c)) (\<lambda>(p, r1).
      bindr (assertr (an_new p = new_analytics) ''pending analytics rotation does not match'') (\<lambda>_.
      bindr (assertr (an_old p \<in> at_analytics s) ''old analytics is no longer authorized'') (\<lambda>_.
      Inr (c\<lparr>ct_att := s\<lparr>at_analytics := insert (an_new p) (at_analytics s - {an_old p})\<rparr>, ct_rotation := r1\<rparr>))))))"

definition cancel_analytics_rotation :: "ledger_env \<Rightarrow> address \<Rightarrow> contract \<Rightarrow> contract res" where
  "cancel_analytics_rotation env caller c =
     bindr (require_admin env (at_access (ct_att c)) caller) (\<lambda>_.
     bindr (take_analytics_rotation (ct_rotation c)) (\<lambda>(p, r1). Inr (c\<lparr>ct_rotation := r1\<rparr>)))"

definition clear_escalation_entry :: "ledger_env \<Rightarrow> address \<Rightarrow> address \<Rightarrow> att_state \<Rightarrow> att_state res" where
  "clear_escalation_entry env caller business =
     for_role_admin env caller (on_dispute (\<lambda>d. Inr (clear_anomaly_escalation d business)))"

section \<open>Disputes and slashing\<close>

definition open_dispute_entry ::
  "ledger_env \<Rightarrow> address \<Rightarrow> address \<Rightarrow> sstring \<Rightarrow> dispute_type \<Rightarrow> sstring \<Rightarrow> att_state \<Rightarrow> (nat \<times> att_state) res" where
  "open_dispute_entry env challenger business period dtype evidence s =
     bindr (open_dispute env (at_active s) (at_attestor s) (at_dispute s) challenger business period dtype evidence)
       (\<lambda>(i, d1). Inr (i, s\<lparr>at_dispute := d1\<rparr>))"

definition resolve_dispute_entry ::
  "ledger_env \<Rightarrow> 'w att_ext \<Rightarrow> nat \<Rightarrow> address \<Rightarrow> dispute_outcome \<Rightarrow> sstring \<Rightarrow> att_state \<times> 'w \<Rightarrow> (att_state \<times> 'w) res" where
  "resolve_dispute_entry env X dispute_id resolver outcome notes sw =
     (let (s, w) = sw in
      bindr (resolve_dispute env (at_access s)
               (\<lambda>attestor amount i w. bindr (try_trigger_slash X s attestor amount i w) (\<lambda>(_, w1). Inr w1))
               dispute_id resolver outcome notes (at_dispute s, w)) (\<lambda>(d1, w1).
      Inr (s\<lparr>at_dispute := d1\<rparr>, w1)))"

definition close_dispute_entry :: "nat \<Rightarrow> att_state \<Rightarrow> att_state res" where
  "close_dispute_entry dispute_id = on_dispute (\<lambda>d. close_dispute d dispute_id)"

definition dispute_witness_entry ::
  "(byte list \<Rightarrow> bytesn) \<Rightarrow> ledger_env \<Rightarrow> nat \<Rightarrow> bytesn \<Rightarrow> bytesn list \<Rightarrow> att_state \<Rightarrow> att_state res" where
  "dispute_witness_entry sha env dispute_id leaf path s =
     on_dispute (\<lambda>d. witness_entry sha env (at_active s) d dispute_id leaf path) s"

definition rollback_disputes_entry ::
  "ledger_env \<Rightarrow> address \<Rightarrow> nat list \<Rightarrow> nat \<Rightarrow> att_state \<Rightarrow> (nat \<times> att_state) res" where
  "rollback_disputes_entry env caller dispute_ids limit s =
     bindr (rollback_entry env (at_access s) (at_dispute s) caller dispute_ids limit) (\<lambda>(n, d1).
     Inr (n, s\<lparr>at_dispute := d1\<rparr>))"

definition dispute_deadline_entry :: "ledger_env \<Rightarrow> address \<Rightarrow> nat \<Rightarrow> att_state \<Rightarrow> att_state res" where
  "dispute_deadline_entry env caller seconds s =
     on_dispute (\<lambda>d. deadline_entry env (at_access s) d caller seconds) s"

definition trigger_slash ::
  "ledger_env \<Rightarrow> 'w att_ext \<Rightarrow> address \<Rightarrow> address \<Rightarrow> int \<Rightarrow> nat \<Rightarrow> att_state \<times> 'w \<Rightarrow> (att_state \<times> 'w) res" where
  "trigger_slash env X caller attestor amount dispute_id sw =
     (let (s, w) = sw in
      bindr (require_admin env (at_access s) caller) (\<lambda>_.
      bindr (expectr (at_staking s) ''staking contract not configured'') (\<lambda>staking_addr.
      bindr (ex_slash X staking_addr attestor amount dispute_id w) (\<lambda>w1.
      bindr (case at_audit s of
               Some audit_log \<Rightarrow>
                 bindr (ex_audit_nonce X audit_log (self_addr env) 1 w1) (\<lambda>nonce.
                 ex_audit_append X audit_log nonce caller (self_addr env) ''SlashTriggered'' ''SlashPayload'' w1)
             | None \<Rightarrow> Inr w1) (\<lambda>w2.
      Inr (s, w2))))))"

section \<open>Key rotation\<close>

definition configure_key_rotation :: "ledger_env \<Rightarrow> rotation_config \<Rightarrow> contract \<Rightarrow> contract res" where
  "configure_key_rotation env config c =
     bindr (fees_require_admin env (at_fees (ct_att c))) (\<lambda>_.
     bindr (set_rotation_config (ct_rotation c) config) (\<lambda>r1. Inr (c\<lparr>ct_rotation := r1\<rparr>)))"

definition propose_key_rotation :: "ledger_env \<Rightarrow> address \<Rightarrow> contract \<Rightarrow> contract res" where
  "propose_key_rotation env new_admin c =
     bindr (fees_require_admin env (at_fees (ct_att c))) (\<lambda>admin.
     bindr (propose_rotation env (ct_rotation c) admin new_admin) (\<lambda>(_, r1). Inr (c\<lparr>ct_rotation := r1\<rparr>)))"

definition confirm_key_rotation :: "ledger_env \<Rightarrow> address \<Rightarrow> contract \<Rightarrow> contract res" where
  "confirm_key_rotation env caller c =
     bindr (require_auth env caller) (\<lambda>_.
     bindr (fees_get_admin (at_fees (ct_att c))) (\<lambda>old_admin.
     bindr (get_pending_rotation (ct_rotation c)) (\<lambda>found.
     bindr (expectr found ''no pending'') (\<lambda>pending.
     bindr (assertr (caller = rq_new_admin pending) ''not new admin'') (\<lambda>_.
     bindr (confirm_rotation env (ct_rotation c) (rq_new_admin pending)) (\<lambda>(_, r1).
     (let s1 = (ct_att c)\<lparr>at_fees := fees_set_admin (at_fees (ct_att c)) (rq_new_admin pending)\<rparr> in
      bindr (on_access (\<lambda>ac. swap_admin_after_verified_rotation ac old_admin (rq_new_admin pending)) s1) (\<lambda>s2.
      Inr (c\<lparr>ct_att := s2, ct_rotation := r1\<rparr>)))))))))"

definition cancel_key_rotation :: "ledger_env \<Rightarrow> contract \<Rightarrow> contract res" where
  "cancel_key_rotation env c =
     bindr (fees_require_admin env (at_fees (ct_att c))) (\<lambda>admin.
     bindr (cancel_rotation (ct_rotation c) admin) (\<lambda>(_, r1). Inr (c\<lparr>ct_rotation := r1\<rparr>)))"

section \<open>Multisig\<close>

definition emergency_pause_entry ::
  "ledger_env \<Rightarrow> address \<Rightarrow> address \<Rightarrow> address \<Rightarrow> nat \<Rightarrow> contract \<Rightarrow> contract res" where
  "emergency_pause_entry env caller signer1 signer2 nonce c =
     bindr (require_admin env (at_access (ct_att c)) caller) (\<lambda>_.
     bindr (use_nonce_of caller NONCE_CHANNEL_ADMIN nonce (ct_att c)) (\<lambda>s1.
     bindr (on_access (\<lambda>ac. emergency_pause env (ct_multisig c) ac signer1 signer2) s1) (\<lambda>s2.
     Inr (c\<lparr>ct_att := s2\<rparr>))))"

definition initialize_multisig_entry :: "ledger_env \<Rightarrow> address list \<Rightarrow> nat \<Rightarrow> nat \<Rightarrow> contract \<Rightarrow> contract res" where
  "initialize_multisig_entry env owners threshold nonce c =
     bindr (fees_require_admin env (at_fees (ct_att c))) (\<lambda>admin.
     bindr (use_nonce_of admin NONCE_CHANNEL_ADMIN nonce (ct_att c)) (\<lambda>s1.
     bindr (assertr (0 < threshold \<and> threshold \<le> length owners) ''invalid multisig threshold'') (\<lambda>_.
     bindr (initialize_multisig (ct_multisig c) owners threshold) (\<lambda>m1.
     Inr (c\<lparr>ct_att := s1, ct_multisig := m1\<rparr>)))))"

definition create_proposal_entry ::
  "ledger_env \<Rightarrow> address \<Rightarrow> proposal_action \<Rightarrow> nat \<Rightarrow> contract \<Rightarrow> (nat \<times> contract) res" where
  "create_proposal_entry env proposer action nonce c =
     bindr (use_nonce_of proposer CHANNEL_MULTISIG nonce (ct_att c)) (\<lambda>s1.
     bindr (create_proposal env (ct_multisig c) proposer action) (\<lambda>(i, m1).
     Inr (i, c\<lparr>ct_att := s1, ct_multisig := m1\<rparr>)))"

definition approve_proposal_entry :: "ledger_env \<Rightarrow> address \<Rightarrow> nat \<Rightarrow> nat \<Rightarrow> contract \<Rightarrow> contract res" where
  "approve_proposal_entry env approver proposal_id nonce c =
     bindr (use_nonce_of approver CHANNEL_MULTISIG nonce (ct_att c)) (\<lambda>s1.
     bindr (approve_proposal env (ct_multisig c) approver proposal_id) (\<lambda>m1.
     Inr (c\<lparr>ct_att := s1, ct_multisig := m1\<rparr>)))"

definition reject_proposal_entry :: "ledger_env \<Rightarrow> address \<Rightarrow> nat \<Rightarrow> nat \<Rightarrow> contract \<Rightarrow> contract res" where
  "reject_proposal_entry env rejecter proposal_id nonce c =
     bindr (use_nonce_of rejecter CHANNEL_MULTISIG nonce (ct_att c)) (\<lambda>s1.
     bindr (reject_proposal env (ct_multisig c) rejecter proposal_id) (\<lambda>m1.
     Inr (c\<lparr>ct_att := s1, ct_multisig := m1\<rparr>)))"

definition dispatch_multisig_action ::
  "ledger_env \<Rightarrow> address \<Rightarrow> proposal_action \<Rightarrow> contract \<Rightarrow> contract res" where
  "dispatch_multisig_action env executor action c =
     (let s = ct_att c; ms = ct_multisig c;
          pausing = (\<lambda>b. Inr (c\<lparr>ct_att := s\<lparr>at_access :=
                       set_paused (check_and_apply_pending_pause env (at_access s)) b\<rparr>\<rparr>));
          owners = (\<lambda>r. bindr r (\<lambda>m1. Inr (c\<lparr>ct_multisig := m1\<rparr>)));
          access = (\<lambda>f. bindr (on_access f s) (\<lambda>s1. Inr (c\<lparr>ct_att := s1\<rparr>))) in
      case action of
        PPause \<Rightarrow> pausing True
      | PUnpause \<Rightarrow> pausing False
      | PAddOwner a \<Rightarrow> owners (add_owner env ms a)
      | PRemoveOwner a \<Rightarrow> owners (remove_owner ms a)
      | PChangeThreshold t \<Rightarrow> owners (rotate_threshold ms t)
      | PGrantRole a r \<Rightarrow> access (\<lambda>ac. grant_role ac a r)
      | PRevokeRole a r \<Rightarrow> access (\<lambda>ac. revoke_role env ac a r)
      | PUpdateFeeConfig token collector base_fee enabled \<Rightarrow>
          bindr (assertr (0 \<le> base_fee) ''base_fee must be non-negative'') (\<lambda>_.
          Inr (c\<lparr>ct_att := s\<lparr>at_fees := set_fee_config (at_fees s)
            \<lparr>fc_token = token, fc_collector = collector, fc_base_fee = base_fee, fc_enabled = enabled\<rparr>\<rparr>\<rparr>))
      | PEmergencyRotateAdmin new_admin \<Rightarrow>
          bindr (fees_get_admin (at_fees s)) (\<lambda>old_admin.
          bindr (emergency_rotate env (ct_rotation c) old_admin new_admin) (\<lambda>(_, r1).
          bindr (on_access (\<lambda>ac. swap_admin_after_verified_rotation ac old_admin new_admin)
                   (s\<lparr>at_fees := fees_set_admin (at_fees s) new_admin\<rparr>)) (\<lambda>s1.
          Inr (c\<lparr>ct_att := s1, ct_rotation := r1\<rparr>))))
      | PEmergencyPause \<Rightarrow> pausing True)"

definition execute_proposal :: "ledger_env \<Rightarrow> address \<Rightarrow> nat \<Rightarrow> nat \<Rightarrow> contract \<Rightarrow> contract res" where
  "execute_proposal env executor proposal_id nonce c =
     bindr (require_owner env (ct_multisig c) executor) (\<lambda>_.
     bindr (use_nonce_of executor CHANNEL_MULTISIG nonce (ct_att c)) (\<lambda>s1.
     bindr (expectr (get_proposal (ct_multisig c) proposal_id) ''proposal not found'') (\<lambda>p.
     bindr (mark_executed env (ct_multisig c) proposal_id) (\<lambda>m1.
     dispatch_multisig_action env executor (pr_action p) (c\<lparr>ct_att := s1, ct_multisig := m1\<rparr>)))))"

definition cleanup_proposals_entry :: "ledger_env \<Rightarrow> nat \<Rightarrow> contract \<Rightarrow> (nat \<times> contract) res" where
  "cleanup_proposals_entry env limit c =
     bindr (cleanup_expired_proposals env (ct_multisig c) limit) (\<lambda>(n, m1). Inr (n, c\<lparr>ct_multisig := m1\<rparr>))"

definition expiry_grace_entry :: "ledger_env \<Rightarrow> address \<Rightarrow> nat \<Rightarrow> contract \<Rightarrow> contract res" where
  "expiry_grace_entry env caller grace c =
     bindr (require_admin env (at_access (ct_att c)) caller) (\<lambda>_.
     Inr (c\<lparr>ct_multisig := set_proposal_expiry_grace (ct_multisig c) grace\<rparr>))"

end
