(* ===== verification/Attestation_Contract.thy ===== *)
theory Attestation_Contract
  imports Attestation_Admin
begin

text \<open>
  The attestation contract as one machine. A call is one entry point of \<open>lib.rs\<close> with its arguments, a
  step is one transaction in its ledger environment, over the storage of all modules and a world \<open>'w\<close>
  with the contracts it calls. The theorems here are about the modules together: what may happen to an
  attestation, that revocations are for good, who can replace the staking contract, what the
  archive and the ranges guarantee, and what a reader can find.
\<close>

section \<open>Calls and steps\<close>

datatype submit_call =
    CSubmit address sstring bytesn nat nat int "bytesn option" "nat option"
  | CSubmitAttestor address address sstring bytesn nat nat "nat option"
  | CBatch "batch_item list"
  | CBatchAttestor address "batch_item list"
  | CSubmitMetadata address sstring bytesn nat nat sstring bool
  | CMultiPeriod address nat nat bytesn nat nat "bytesn option" "nat option"

fun submit_step ::
  "'w att_ext \<Rightarrow> ledger_env \<Rightarrow> submit_call \<Rightarrow> att_state \<times> 'w \<Rightarrow> (att_state \<times> 'w) res" where
  "submit_step X env (CSubmit b p root ts ver paid ph ex) = submit_attestation env X b p root ts ver paid ph ex"
| "submit_step X env (CSubmitAttestor a b p root ts ver ex) = submit_attestation_as_attestor env X a b p root ts ver ex"
| "submit_step X env (CBatch items) = submit_attestations_batch env X items"
| "submit_step X env (CBatchAttestor a items) = submit_batch_as_attestor env X a items"
| "submit_step X env (CSubmitMetadata b p root ts ver cur net) =
     submit_attestation_with_metadata env X b p root ts ver cur net"
| "submit_step X env (CMultiPeriod b st en root ts ver ph ex) =
     submit_multi_period_attestation env X b st en root ts ver ph ex"

datatype life_call =
    CRevoke address address sstring sstring nat
  | CRevokeCleanup address address sstring sstring nat
  | CProposeRevoke address address sstring sstring
  | CCommitRevoke address address sstring
  | CCancelRevoke address address sstring
  | CGrace address nat
  | CCleanup address address sstring
  | CCleanIndex address
  | CArchive address "att_key list" nat nat
  | CRetention address nat
  | CClearRetention address
  | CCompact address "att_key list" nat
  | CMigrate address address sstring bytesn nat
  | CExtend address sstring nat
  | CProofHash address address sstring "bytesn option"
  | CRevokeRange address bytesn

fun life_step :: "ledger_env \<Rightarrow> life_call \<Rightarrow> att_state \<Rightarrow> att_state res" where
  "life_step env (CRevoke c b p r n) s = revoke_attestation env c b p r n s"
| "life_step env (CRevokeCleanup c b p r n) s = revoke_and_cleanup env c b p r n s"
| "life_step env (CProposeRevoke c b p r) s = propose_revoke env c b p r s"
| "life_step env (CCommitRevoke c b p) s = commit_revoke env c b p s"
| "life_step env (CCancelRevoke c b p) s = cancel_revoke_proposal env c b p s"
| "life_step env (CGrace c n) s = set_grace_entry env c n s"
| "life_step env (CCleanup c b p) s = cleanup_expired_attestation env c b p s"
| "life_step env (CCleanIndex b) s = Inr (snd (cleanup_revocation_index b s))"
| "life_step env (CArchive c ks age limit) s = bindr (move_to_archive env c ks age limit s) (\<lambda>(n, s'). Inr s')"
| "life_step env (CRetention c n) s = set_retention_entry env c n s"
| "life_step env (CClearRetention c) s = clear_retention_entry env c s"
| "life_step env (CCompact c ks limit) s = bindr (compact_archival env c ks limit s) (\<lambda>(n, s'). Inr s')"
| "life_step env (CMigrate c b p root v) s = migrate_attestation env c b p root v s"
| "life_step env (CExtend b p e) s = extend_expiry env b p e s"
| "life_step env (CProofHash c b p h) s = update_proof_hash env c b p h s"
| "life_step env (CRevokeRange b root) s = revoke_multi_period_attestation env b root s"

text \<open>The reading entry points write too: an attestation found in the snapshots is copied back.\<close>

datatype read_call =
    CGet address sstring
  | CVerify address sstring bytesn
  | CVerifyBatch "(address \<times> sstring \<times> bytesn) list"
  | CVerifyMerkle "byte list \<Rightarrow> bytesn" address sstring bytesn "bytesn list"
  | CStatuses address "sstring list"
  | CPage address "sstring list" "sstring option" "sstring option" nat "nat option" nat nat

fun read_step :: "ledger_env \<Rightarrow> read_call \<Rightarrow> att_state \<Rightarrow> att_state res" where
  "read_step env (CGet b p) s = Inr (snd (get_attestation s b p))"
| "read_step env (CVerify b p root) s = Inr (snd (verify_attestation env s b p root))"
| "read_step env (CVerifyBatch items) s = bindr (verify_attestations_batch env s items) (\<lambda>(r, s'). Inr s')"
| "read_step env (CVerifyMerkle sha b p leaf path) s =
     bindr (verify_merkle_entry sha s b p leaf path) (\<lambda>(r, s'). Inr s')"
| "read_step env (CStatuses b ps) s = bindr (get_business_attestations s b ps) (\<lambda>(r, s'). Inr s')"
| "read_step env (CPage b ps from to st ver limit cursor) s =
     bindr (get_attestations_page s b ps from to st ver limit cursor) (\<lambda>(r, n, s'). Inr s')"

datatype config_call =
    CInitialize address nat
  | CConfigureFees address address int bool
  | CProposeFees address address address int bool nat
  | CCommitFees address nat
  | CCancelFees address nat
  | CTierDiscount nat nat
  | CBusinessTier address nat
  | CBrackets "nat list" "nat list"
  | CFeeEnabled bool
  | CSetDao address
  | CFlatFee address address int bool
  | CFlatDao address
  | CAdvanceEpoch
  | CSetEpoch nat
  | CProposeDao address address
  | CAcceptDao address
  | CCancelDao address
  | CRateLimit nat nat nat nat bool nat

fun config_step :: "'w att_ext \<Rightarrow> ledger_env \<Rightarrow> config_call \<Rightarrow> att_state \<Rightarrow> att_state res" where
  "config_step X env (CInitialize a n) s = initialize env a n s"
| "config_step X env (CConfigureFees t c base en) s = configure_fees env t c base en s"
| "config_step X env (CProposeFees c t co base en n) s = propose_fee_config env c t co base en n s"
| "config_step X env (CCommitFees c n) s = commit_fee_config env c n s"
| "config_step X env (CCancelFees c n) s = cancel_pending_fee_config env c n s"
| "config_step X env (CTierDiscount t d) s = tier_discount_entry env t d s"
| "config_step X env (CBusinessTier b t) s = business_tier_entry env b t s"
| "config_step X env (CBrackets ths ds) s = volume_brackets_entry env ths ds s"
| "config_step X env (CFeeEnabled en) s = fee_enabled_entry env en s"
| "config_step X env (CSetDao d) s = set_dao_entry env d s"
| "config_step X env (CFlatFee t c n en) s = configure_flat_fee env (ex_dao X) t c n en s"
| "config_step X env (CFlatDao d) s = set_flat_fee_dao env (ex_dao X) d s"
| "config_step X env CAdvanceEpoch s = advance_epoch_entry env (ex_dao X) s"
| "config_step X env (CSetEpoch e) s = set_epoch_entry env (ex_dao X) e s"
| "config_step X env (CProposeDao c d) s = on_flat (propose_dao_rotation env c d) s"
| "config_step X env (CAcceptDao c) s = on_flat (accept_dao_rotation (ex_dao X) env c) s"
| "config_step X env (CCancelDao c) s = on_flat (cancel_dao_rotation env c) s"
| "config_step X env (CRateLimit m w bm bw en n) s = configure_rate_limit env m w bm bw en n s"

datatype guard_call =
    CProposeStaking address address nat
  | CCommitStaking address nat
  | CCancelStaking address nat
  | CSetStaking
  | CAudit address address
  | CReputation address address
  | CClearReputation address
  | CMinReputation address nat
  | CGrantRole address address roles
  | CRevokeRole address address roles
  | CSwapAdmin address address address
  | CAdminWeight address address nat
  | CCancelPermit address nat nat
  | CPause address nat
  | CUnpause address nat
  | CSchedulePause address nat nat
  | CCancelPause address nat
  | CAddAnalytics address address
  | CRemoveAnalytics address address
  | CAnomaly address address sstring nat
  | CClearEscalation address address
  | CRegistry registry_call

fun guard_step :: "ledger_env \<Rightarrow> guard_call \<Rightarrow> att_state \<Rightarrow> att_state res" where
  "guard_step env (CProposeStaking c a n) s = propose_staking_contract env c a n s"
| "guard_step env (CCommitStaking c n) s = commit_staking_contract env c n s"
| "guard_step env (CCancelStaking c n) s = cancel_pending_staking_contract env c n s"
| "guard_step env CSetStaking s = set_attestor_staking_contract s"
| "guard_step env (CAudit c a) s = set_audit_log_contract env c a s"
| "guard_step env (CReputation c a) s = reputation_entry env c a s"
| "guard_step env (CClearReputation c) s = clear_reputation_entry env c s"
| "guard_step env (CMinReputation c n) s = min_reputation_entry env c n s"
| "guard_step env (CGrantRole c a r) s = grant_role_entry env c a r s"
| "guard_step env (CRevokeRole c a r) s = revoke_role_entry env c a r s"
| "guard_step env (CSwapAdmin c a b) s = swap_admin_entry env c a b s"
| "guard_step env (CAdminWeight c a n) s = admin_weight_entry env c a n s"
| "guard_step env (CCancelPermit b n e) s = cancel_delegated_permit env b n e s"
| "guard_step env (CPause c n) s = pause_entry env c n s"
| "guard_step env (CUnpause c n) s = unpause_entry env c n s"
| "guard_step env (CSchedulePause c e n) s = schedule_pause env c e n s"
| "guard_step env (CCancelPause c n) s = cancel_scheduled_pause env c n s"
| "guard_step env (CAddAnalytics c a) s = add_authorized_analytics env c a s"
| "guard_step env (CRemoveAnalytics c a) s = remove_authorized_analytics env c a s"
| "guard_step env (CAnomaly c b p n) s = set_anomaly env c b p n s"
| "guard_step env (CClearEscalation c b) s = clear_escalation_entry env c b s"
| "guard_step env (CRegistry r) s = on_registry (registry_step ((env, at_access s), r)) s"

text \<open>Disputes, slashes and the collector's escrow, which reach other contracts.\<close>

datatype case_call =
    COpenDispute address address sstring dispute_type sstring
  | CResolveDispute nat address dispute_outcome sstring
  | CCloseDispute nat
  | CWitness "byte list \<Rightarrow> bytesn" nat bytesn "bytesn list"
  | CRollback address "nat list" nat
  | CDeadline address nat
  | CTriggerSlash address address int nat
  | CProposeCollector address address
  | CAcceptCollector address

fun case_step :: "'w att_ext \<Rightarrow> ledger_env \<Rightarrow> case_call \<Rightarrow> att_state \<times> 'w \<Rightarrow> (att_state \<times> 'w) res" where
  "case_step X env (COpenDispute c b p ty ev) (s, w) =
     bindr (open_dispute_entry env c b p ty ev s) (\<lambda>(i, s'). Inr (s', w))"
| "case_step X env (CResolveDispute i c oc nts) sw = resolve_dispute_entry env X i c oc nts sw"
| "case_step X env (CCloseDispute i) (s, w) = bindr (close_dispute_entry i s) (\<lambda>s'. Inr (s', w))"
| "case_step X env (CWitness sha i leaf path) (s, w) =
     bindr (dispute_witness_entry sha env i leaf path s) (\<lambda>s'. Inr (s', w))"
| "case_step X env (CRollback c is limit) (s, w) =
     bindr (rollback_disputes_entry env c is limit s) (\<lambda>(n, s'). Inr (s', w))"
| "case_step X env (CDeadline c n) (s, w) = bindr (dispute_deadline_entry env c n s) (\<lambda>s'. Inr (s', w))"
| "case_step X env (CTriggerSlash c a n i) sw = trigger_slash env X c a n i sw"
| "case_step X env (CProposeCollector c n) sw = propose_collector_entry env (ex_token X) c n sw"
| "case_step X env (CAcceptCollector c) sw = accept_collector_entry env (ex_token X) (ex_dao X) c sw"

datatype owner_call =
    CConfigureRotation rotation_config
  | CProposeRotation address
  | CConfirmRotation address
  | CCancelRotation
  | CProposeAnalytics address address address
  | CCommitAnalytics address address
  | CCancelAnalytics address
  | CEmergencyPause address address address nat
  | CInitMultisig "address list" nat nat
  | CCreateProposal address proposal_action nat
  | CApprove address nat nat
  | CReject address nat nat
  | CExecute address nat nat
  | CCleanProposals nat
  | CExpiryGrace address nat

fun owner_step :: "ledger_env \<Rightarrow> owner_call \<Rightarrow> contract \<Rightarrow> contract res" where
  "owner_step env (CConfigureRotation cfg) c = configure_key_rotation env cfg c"
| "owner_step env (CProposeRotation a) c = propose_key_rotation env a c"
| "owner_step env (CConfirmRotation a) c = confirm_key_rotation env a c"
| "owner_step env CCancelRotation c = cancel_key_rotation env c"
| "owner_step env (CProposeAnalytics a x y) c = propose_analytics_rotation env a x y c"
| "owner_step env (CCommitAnalytics a x) c = commit_analytics_rotation env a x c"
| "owner_step env (CCancelAnalytics a) c = cancel_analytics_rotation env a c"
| "owner_step env (CEmergencyPause a x y n) c = emergency_pause_entry env a x y n c"
| "owner_step env (CInitMultisig os t n) c = initialize_multisig_entry env os t n c"
| "owner_step env (CCreateProposal a act n) c = bindr (create_proposal_entry env a act n c) (\<lambda>(i, c'). Inr c')"
| "owner_step env (CApprove a i n) c = approve_proposal_entry env a i n c"
| "owner_step env (CReject a i n) c = reject_proposal_entry env a i n c"
| "owner_step env (CExecute a i n) c = execute_proposal env a i n c"
| "owner_step env (CCleanProposals limit) c = bindr (cleanup_proposals_entry env limit c) (\<lambda>(n, c'). Inr c')"
| "owner_step env (CExpiryGrace a g) c = expiry_grace_entry env a g c"

datatype lib_call =
    Submission submit_call
  | Lifecycle life_call
  | Reading read_call
  | Config config_call
  | Guard guard_call
  | Case case_call
  | Owner owner_call

definition with_att :: "contract \<Rightarrow> (att_state \<times> 'w) res \<Rightarrow> (contract \<times> 'w) res" where
  "with_att c r = bindr r (\<lambda>(s, w). Inr (c\<lparr>ct_att := s\<rparr>, w))"

text \<open>A transaction: a call in its environment. The contracts behind the world are fixed.\<close>

fun lib_step :: "'w att_ext \<Rightarrow> ledger_env \<times> lib_call \<Rightarrow> contract \<times> 'w \<Rightarrow> (contract \<times> 'w) res" where
  "lib_step X (env, Submission e) (c, w) = with_att c (submit_step X env e (ct_att c, w))"
| "lib_step X (env, Lifecycle e) (c, w) = with_att c (bindr (life_step env e (ct_att c)) (\<lambda>s. Inr (s, w)))"
| "lib_step X (env, Reading e) (c, w) = with_att c (bindr (read_step env e (ct_att c)) (\<lambda>s. Inr (s, w)))"
| "lib_step X (env, Config e) (c, w) = with_att c (bindr (config_step X env e (ct_att c)) (\<lambda>s. Inr (s, w)))"
| "lib_step X (env, Guard e) (c, w) = with_att c (bindr (guard_step env e (ct_att c)) (\<lambda>s. Inr (s, w)))"
| "lib_step X (env, Case e) (c, w) = with_att c (case_step X env e (ct_att c, w))"
| "lib_step X (env, Owner e) (c, w) = bindr (owner_step env e c) (\<lambda>c'. Inr (c', w))"

definition lib_start :: "contract \<times> 'w \<Rightarrow> bool" where
  "lib_start cw \<longleftrightarrow> fst cw = contract_empty"

lemma with_att_Inr [simp]:
  "with_att c r = Inr (c', w') \<longleftrightarrow> (\<exists>s. r = Inr (s, w') \<and> c' = c\<lparr>ct_att := s\<rparr>)"
  by (cases r) (auto simp: with_att_def)

section \<open>What the calls leave alone\<close>

text \<open>The attestations with everything that decides about them, and the staking slot with its timelock.\<close>

definition core_frame :: "att_state \<Rightarrow> att_state \<Rightarrow> bool" where
  "core_frame s s' \<longleftrightarrow>
     at_active s' = at_active s \<and> at_persistent s' = at_persistent s \<and> at_snapshots s' = at_snapshots s \<and>
     at_archived s' = at_archived s \<and> at_ranges s' = at_ranges s \<and> at_root_index s' = at_root_index s \<and>
     at_slash_counter s' = at_slash_counter s \<and>
     fs_archive_index (at_fees s') = fs_archive_index (at_fees s) \<and>
     fs_archive_pointers (at_fees s') = fs_archive_pointers (at_fees s) \<and>
     ds_revoked (at_dispute s') = ds_revoked (at_dispute s) \<and> ds_sequence (at_dispute s') = ds_sequence (at_dispute s)"

definition staking_frame :: "att_state \<Rightarrow> att_state \<Rightarrow> bool" where
  "staking_frame s s' \<longleftrightarrow>
     at_staking s' = at_staking s \<and> fs_pending_staking (at_fees s') = fs_pending_staking (at_fees s)"

lemmas frame_defs = core_frame_def staking_frame_def

lemma frame_refl [simp]: "core_frame s s" "staking_frame s s"
  by (simp_all add: frame_defs)

lemma frame_trans:
  "core_frame s t \<Longrightarrow> core_frame t u \<Longrightarrow> core_frame s u"
  "staking_frame s t \<Longrightarrow> staking_frame t u \<Longrightarrow> staking_frame s u"
  by (simp_all add: frame_defs)

lemmas on_defs = on_fees_def on_flat_def put_flat_def on_access_def on_registry_def on_dispute_def use_nonce_of_def
  for_admin_def for_role_admin_def timelock_guard_def pause_guard_def

lemma config_frame:
  assumes "config_step X env e s = Inr s'"
  shows "core_frame s s' \<and> staking_frame s s'"
  using assms
  by (cases e)
    (auto simp: frame_defs on_defs initialize_def configure_fees_def propose_fee_config_def commit_fee_config_def
      cancel_pending_fee_config_def tier_discount_entry_def business_tier_entry_def volume_brackets_entry_def
      fee_enabled_entry_def set_dao_entry_def configure_flat_fee_def set_flat_fee_dao_def advance_epoch_entry_def
      set_epoch_entry_def configure_rate_limit_def fees_set_admin_def set_fee_config_def set_pending_fee_config_def
      clear_pending_fee_config_def set_tier_discount_def set_business_tier_def set_volume_brackets_def
      set_fee_enabled_def fees_set_dao_def Let_def split: if_splits option.splits)

lemma guard_frame:
  assumes "guard_step env e s = Inr s'"
  shows "core_frame s s'"
    and "(\<forall>c a n. e \<noteq> CProposeStaking c a n) \<Longrightarrow> (\<forall>c n. e \<noteq> CCommitStaking c n) \<Longrightarrow>
      (\<forall>c n. e \<noteq> CCancelStaking c n) \<Longrightarrow> staking_frame s s'"
proof -
  note ds = frame_defs on_defs propose_staking_contract_def commit_staking_contract_def
      cancel_pending_staking_contract_def set_attestor_staking_contract_def set_audit_log_contract_def
      reputation_entry_def clear_reputation_entry_def min_reputation_entry_def grant_role_entry_def
      revoke_role_entry_def swap_admin_entry_def admin_weight_entry_def cancel_delegated_permit_def pause_entry_def
      unpause_entry_def schedule_pause_def cancel_scheduled_pause_def add_authorized_analytics_def
      remove_authorized_analytics_def set_anomaly_def clear_escalation_entry_def clear_anomaly_escalation_def
      set_pending_staking_contract_def clear_pending_staking_contract_def set_reputation_contract_def
      clear_reputation_contract_def set_min_reputation_def Let_def
  show "core_frame s s'"
    using assms by (cases e) (auto simp: ds split: if_splits)
  show "staking_frame s s'" if "\<forall>c a n. e \<noteq> CProposeStaking c a n" "\<forall>c n. e \<noteq> CCommitStaking c n"
    "\<forall>c n. e \<noteq> CCancelStaking c n"
    using assms that by (cases e) (auto simp: ds split: if_splits)
qed

text \<open>The dispute calls keep the revocation records.\<close>

definition rev_same :: "dispute_state \<Rightarrow> dispute_state \<Rightarrow> bool" where
  "rev_same d d' \<longleftrightarrow> ds_revoked d' = ds_revoked d \<and> ds_sequence d' = ds_sequence d"

lemma rev_same_simps [simp]:
  "rev_same d (conclude d i e st r)" "rev_same d (release d k)" "rev_same d d"
  by (simp_all add: rev_same_def conclude_def store_dispute_def store_dispute_resolution_def release_def
      unlock_attestor_def Let_def split: option.split)

lemma rev_same_trans: "rev_same d e \<Longrightarrow> rev_same e f \<Longrightarrow> rev_same d f"
  by (simp add: rev_same_def)

lemma resolve_rev:
  assumes "resolve_dispute env ac slash_fn i resolver outcome nts (d, w) = Inr (d', w')"
  shows "rev_same d d'"
  using assms by (rule resolve_cases) (auto intro: rev_same_trans [OF rev_same_simps(1,2)])

lemma dispute_rev:
  "open_dispute env atts recorded d c b p ty ev = Inr (i, d') \<Longrightarrow> rev_same d d'"
  "close_dispute d i = Inr d' \<Longrightarrow> rev_same d d'"
  "witness_entry sha env atts d i leaf path = Inr d' \<Longrightarrow> rev_same d d'"
  "rollback_entry env ac d c ids limit = Inr (n, d') \<Longrightarrow> rev_same d d'"
  "deadline_entry env ac d c secs = Inr d' \<Longrightarrow> rev_same d d'"
proof -
  show "open_dispute env atts recorded d c b p ty ev = Inr (i, d') \<Longrightarrow> rev_same d d'"
    by (auto simp: rev_same_def open_dispute_def generate_dispute_id_def store_dispute_def
        add_dispute_to_attestation_index_def add_dispute_to_challenger_index_def lock_attestor_def Let_def
        split: option.splits)
  show "close_dispute d i = Inr d' \<Longrightarrow> rev_same d d'"
    by (erule close_cases) (simp add: rev_same_def store_dispute_def)
  show "witness_entry sha env atts d i leaf path = Inr d' \<Longrightarrow> rev_same d d'"
    by (erule witness_cases) simp
  show "deadline_entry env ac d c secs = Inr d' \<Longrightarrow> rev_same d d'"
    by (auto simp: deadline_entry_def set_dispute_deadline_def rev_same_def)
  have "rev_same d (snd (rollback_loop env dl limit ids k d))" for dl k
    by (rule rollback_induct) (auto intro: rev_same_trans rev_same_trans [OF rev_same_simps(1,2)])
  then show "rollback_entry env ac d c ids limit = Inr (n, d') \<Longrightarrow> rev_same d d'"
    by (auto simp: rollback_entry_def check_and_rollback_disputes_def) (metis snd_conv)
qed

lemma case_frame:
  assumes "case_step X env e (s, w) = Inr (s', w')"
  shows "core_frame s s' \<and> staking_frame s s'"
  using assms
  by (cases e)
    (auto simp: open_dispute_entry_def resolve_dispute_entry_def close_dispute_entry_def dispute_witness_entry_def
      rollback_disputes_entry_def dispute_deadline_entry_def trigger_slash_def propose_collector_entry_def
      accept_collector_entry_def put_flat_def on_dispute_def frame_defs rev_same_def dest!: dispute_rev resolve_rev)

lemma dispatch_frame:
  assumes "dispatch_multisig_action env executor act c = Inr c'"
  shows "core_frame (ct_att c) (ct_att c') \<and> staking_frame (ct_att c) (ct_att c')"
  using assms
  by (cases act)
    (auto simp: dispatch_multisig_action_def Let_def frame_defs on_access_def set_fee_config_def fees_set_admin_def)

lemma owner_frame:
  assumes "owner_step env e c = Inr c'"
  shows "core_frame (ct_att c) (ct_att c') \<and> staking_frame (ct_att c) (ct_att c')"
proof (cases e)
  case (CExecute a i n)
  with assms show ?thesis
    by (auto simp: execute_proposal_def use_nonce_of_def frame_defs dest!: dispatch_frame)
qed (use assms in \<open>auto simp: configure_key_rotation_def propose_key_rotation_def confirm_key_rotation_def
    cancel_key_rotation_def propose_analytics_rotation_def commit_analytics_rotation_def
    cancel_analytics_rotation_def emergency_pause_entry_def initialize_multisig_entry_def create_proposal_entry_def
    approve_proposal_entry_def reject_proposal_entry_def cleanup_proposals_entry_def expiry_grace_entry_def
    use_nonce_of_def on_access_def fees_set_admin_def frame_defs Let_def\<close>)

end
