(* ===== verification/Attestation_Pages.thy ===== *)
theory Attestation_Pages
  imports Attestation_Contract
begin

text \<open>
  Paging through the attestations of a business (\<open>get_attestations_page\<close> of \<open>lib.rs\<close>): a client that
  follows the returned cursors sees every period of its list once, in order, and comes to an end.
\<close>

section \<open>What one period contributes\<close>

text \<open>Reading copies attestations between stores; what a read returns does not change with it.\<close>

definition same_view :: "att_state \<Rightarrow> att_state \<Rightarrow> bool" where
  "same_view s t \<longleftrightarrow> at_dispute s = at_dispute t \<and> (\<forall>b p. fst (get_attestation s b p) = fst (get_attestation t b p))"

lemma same_view_refl [simp]: "same_view s s"
  by (simp add: same_view_def)

lemma same_view_get: "same_view (snd (get_attestation s b p)) s"
  by (auto simp: same_view_def get_attestation_def split: option.split)

lemma same_view_trans: "same_view s t \<Longrightarrow> same_view t u \<Longrightarrow> same_view s u"
  by (simp add: same_view_def)

lemma page_row_view:
  "same_view (snd (page_row_of s b p st ver)) s"
  using same_view_get [of s b p] by (auto simp: page_row_of_def Let_def split: prod.split option.split)

lemma page_row_same:
  assumes "same_view s t"
  shows "fst (page_row_of s b p st ver) = fst (page_row_of t b p st ver)"
proof -
  obtain r s1 t1 where g: "get_attestation s b p = (r, s1)" "get_attestation t b p = (r, t1)"
    using assms unfolding same_view_def by (metis prod.collapse)
  have "at_dispute s1 = at_dispute s" "at_dispute t1 = at_dispute t"
    using same_view_get [of s b p] same_view_get [of t b p] g by (simp_all add: same_view_def)
  with assms g show ?thesis by (cases r) (simp_all add: page_row_of_def same_view_def Let_def)
qed

text \<open>The row of one period, or none when the bounds or the filters leave it out.\<close>

definition page_entry ::
  "att_state \<Rightarrow> address \<Rightarrow> sstring option \<Rightarrow> sstring option \<Rightarrow> nat \<Rightarrow> nat option \<Rightarrow> sstring \<Rightarrow> page_row option res" where
  "page_entry s b lo hi st ver p =
     bindr (out_of_range lo OLess p) (\<lambda>before.
     if before then Inr None
     else bindr (out_of_range hi OGreater p) (\<lambda>after.
          Inr (if after then None else fst (page_row_of s b p st ver))))"

definition row_list :: "page_row option res \<Rightarrow> page_row list" where
  "row_list e = (case e of Inr (Some r) \<Rightarrow> [r] | _ \<Rightarrow> [])"

lemma row_list_simps [simp]: "row_list (Inr None) = []" "row_list (Inr (Some r)) = [r]" "row_list (Inl e) = []"
  by (simp_all add: row_list_def)

lemma page_entry_same: "same_view s t \<Longrightarrow> page_entry s b lo hi st ver p = page_entry t b lo hi st ver p"
  unfolding page_entry_def by (drule page_row_same [of s t b p st ver]) (simp only:)

lemma page_loop_step:
  assumes "length rows < limit" "cursor < length ps" "page_entry s b lo hi st ver (ps ! cursor) = Inr e"
  shows "\<exists>s1. same_view s1 s \<and> page_loop b ps lo hi st ver limit rows cursor s =
    page_loop b ps lo hi st ver limit (rows @ row_list (Inr e)) (cursor + 1) s1"
proof -
  obtain row s1 where r: "page_row_of s b (ps ! cursor) st ver = (row, s1)" by (metis surj_pair)
  have s1: "same_view s1 s" using page_row_view [of s b "ps ! cursor" st ver] r by simp
  obtain before where before: "out_of_range lo OLess (ps ! cursor) = Inr before"
    using assms(3) by (auto simp: page_entry_def)
  show ?thesis
  proof (cases before)
    case True
    with assms before show ?thesis
      by (intro exI [of _ s]) (subst page_loop.simps, auto simp: page_entry_def Let_def)
  next
    case False
    then obtain after where after: "out_of_range hi OGreater (ps ! cursor) = Inr after"
      using assms(3) before by (auto simp: page_entry_def)
    show ?thesis
    proof (cases after)
      case True
      with assms before after False show ?thesis
        by (intro exI [of _ s]) (subst page_loop.simps, auto simp: page_entry_def Let_def)
    next
      case no: False
      have "e = row" using assms(3) before after False no r by (simp add: page_entry_def)
      with assms before after False no r s1 show ?thesis
        by (intro exI [of _ s1]) (subst page_loop.simps, simp add: Let_def split: option.split)
    qed
  qed
qed

lemma page_loop_spec:
  assumes "\<forall>p\<in>set ps. \<exists>e. page_entry s0 b lo hi st ver p = Inr e"
    and "same_view s s0" and "cursor \<le> length ps"
  shows "\<exists>next s'. page_loop b ps lo hi st ver limit rows cursor s =
      Inr (rows @ concat (map (\<lambda>p. row_list (page_entry s0 b lo hi st ver p)) (take (next - cursor) (drop cursor ps))), next, s') \<and>
    cursor \<le> next \<and> next \<le> length ps \<and> same_view s' s0 \<and> (length rows < limit \<and> cursor < length ps \<longrightarrow> cursor < next)"
  using assms(2,3)
proof (induction "length ps - cursor" arbitrary: rows cursor s)
  case 0
  then have "cursor = length ps" by simp
  with 0 show ?case by (subst page_loop.simps) auto
next
  case (Suc n)
  then have lt: "cursor < length ps" by simp
  show ?case
  proof (cases "length rows < limit")
    case False
    with Suc.prems show ?thesis by (subst page_loop.simps) auto
  next
    case True
    from assms(1) lt obtain e where e0: "page_entry s0 b lo hi st ver (ps ! cursor) = Inr e" by (meson nth_mem)
    then have e: "page_entry s b lo hi st ver (ps ! cursor) = Inr e" using page_entry_same [OF Suc.prems(1)] by simp
    from page_loop_step [OF True lt e] obtain s1 where s1: "same_view s1 s"
      "page_loop b ps lo hi st ver limit rows cursor s =
         page_loop b ps lo hi st ver limit (rows @ row_list (Inr e)) (cursor + 1) s1" by blast
    have "same_view s1 s0" using s1(1) Suc.prems(1) by (rule same_view_trans)
    moreover have "n = length ps - (cursor + 1)" "cursor + 1 \<le> length ps" using Suc.hyps(2) lt by simp_all
    ultimately obtain nxt s' where IH:
      "page_loop b ps lo hi st ver limit (rows @ row_list (Inr e)) (cursor + 1) s1 =
         Inr ((rows @ row_list (Inr e)) @ concat (map (\<lambda>p. row_list (page_entry s0 b lo hi st ver p))
           (take (nxt - (cursor + 1)) (drop (cursor + 1) ps))), nxt, s')"
      "cursor + 1 \<le> nxt" "nxt \<le> length ps" "same_view s' s0"
      using Suc.hyps(1) [of "cursor + 1" s1 "rows @ row_list (Inr e)"] by blast
    have "take (nxt - cursor) (drop cursor ps) = ps ! cursor # take (nxt - (cursor + 1)) (drop (cursor + 1) ps)"
      using lt IH(2) by (simp add: Cons_nth_drop_Suc [symmetric] Suc_diff_Suc [symmetric])
    with IH s1(2) e0 show ?thesis by (intro exI [of _ nxt] exI [of _ s']) simp
  qed
qed

section \<open>Following the cursors\<close>

text \<open>A client that asks for page after page, at most \<open>n\<close> of them, and stops behind the last period.\<close>

fun read_pages ::
  "nat \<Rightarrow> address \<Rightarrow> sstring list \<Rightarrow> sstring option \<Rightarrow> sstring option \<Rightarrow> nat \<Rightarrow> nat option \<Rightarrow> nat \<Rightarrow> nat \<Rightarrow> att_state \<Rightarrow>
   page_row list option res" where
  "read_pages 0 b ps lo hi st ver limit cursor s = Inr (if length ps \<le> cursor then Some [] else None)"
| "read_pages (Suc n) b ps lo hi st ver limit cursor s =
     (if length ps \<le> cursor then Inr (Some [])
      else bindr (get_attestations_page s b ps lo hi st ver limit cursor) (\<lambda>(rows, nxt, s1).
           bindr (read_pages n b ps lo hi st ver limit nxt s1) (\<lambda>rest. Inr (map_option ((@) rows) rest))))"

lemma read_pages_spec:
  assumes "\<forall>p\<in>set ps. \<exists>e. page_entry s0 b lo hi st ver p = Inr e" and "0 < limit"
    and "same_view s s0" and "cursor \<le> length ps" and "length ps - cursor \<le> n"
  shows "read_pages n b ps lo hi st ver limit cursor s =
    Inr (Some (concat (map (\<lambda>p. row_list (page_entry s0 b lo hi st ver p)) (drop cursor ps))))"
  using assms(3-5)
proof (induction n arbitrary: cursor s)
  case 0
  then show ?case by simp
next
  case (Suc n)
  show ?case
  proof (cases "cursor < length ps")
    case False
    with Suc.prems show ?thesis by simp
  next
    case True
    from page_loop_spec [OF assms(1) Suc.prems(1,2), of "if 30 < limit then 30 else limit" "[]"]
    obtain nxt s' where p: "get_attestations_page s b ps lo hi st ver limit cursor =
        Inr (concat (map (\<lambda>p. row_list (page_entry s0 b lo hi st ver p)) (take (nxt - cursor) (drop cursor ps))), nxt, s')"
      "nxt \<le> length ps" "same_view s' s0" "cursor < nxt"
      using True assms(2) by (auto simp: get_attestations_page_def split: if_splits)
    have "length ps - nxt \<le> n" using Suc.prems(3) p(4) True by simp
    note IH = Suc.IH [OF p(3,2) this]
    have "drop cursor ps = take (nxt - cursor) (drop cursor ps) @ drop nxt ps"
      using p(4) by (metis append_take_drop_id drop_drop le_add_diff_inverse2 less_imp_le)
    with True p(1) IH show ?thesis
      by (simp del: append_take_drop_id) (metis concat_append map_append)
  qed
qed

text \<open>
  C15. Paging is complete and ends. A client that passes each returned cursor on, with any page limit above
  zero, reaches the end of its list of periods after at most as many calls as there are periods, and the
  pages joined are exactly the rows of the periods that the bounds and filters admit, in the order of the
  list: none is missed and none is seen twice. The only condition is that the bounds can be compared with
  the periods, which fails just for strings of equal length above 64 bytes.
\<close>

theorem paging_complete:
  assumes "0 < limit" and "\<forall>p\<in>set ps. \<exists>e. page_entry s b lo hi st ver p = Inr e"
  shows "read_pages (length ps) b ps lo hi st ver limit 0 s =
    Inr (Some (concat (map (\<lambda>p. row_list (page_entry s b lo hi st ver p)) ps)))"
  using read_pages_spec [OF assms(2,1) same_view_refl, of 0 "length ps"] by simp

definition paged_row :: "nat \<Rightarrow> att_data" where
  "paged_row t = \<lparr>ad_root = demo_root, ad_timestamp = t, ad_version = 1, ad_fee = 0, ad_proof_hash = None, ad_expiry = None\<rparr>"

text \<open>Two stored periods, one only as a snapshot, and an unknown one between them, read one row at a time.\<close>

definition paged :: att_state where
  "paged = att_empty\<lparr>at_persistent := [(''BIZ'', ''202601'') \<mapsto> paged_row 10],
     at_snapshots := [(''BIZ'', ''202603'') \<mapsto> paged_row 30]\<rparr>"

lemma paged_entries:
  "page_entry paged ''BIZ'' None None STATUS_FILTER_ALL None ''202601'' = Inr (Some (''202601'', demo_root, 10, 1, STATUS_ACTIVE))"
  "page_entry paged ''BIZ'' None None STATUS_FILTER_ALL None ''202602'' = Inr None"
  "page_entry paged ''BIZ'' None None STATUS_FILTER_ALL None ''202603'' = Inr (Some (''202603'', demo_root, 30, 1, STATUS_ACTIVE))"
  by (simp_all add: page_entry_def out_of_range_def page_row_of_def get_attestation_def paged_def paged_row_def
      att_empty_def Let_def is_attestation_revoked_def dispute_empty_def)

lemma paging_complete_witness:
  "read_pages 3 ''BIZ'' [''202601'', ''202602'', ''202603''] None None STATUS_FILTER_ALL None 1 0 paged =
     Inr (Some [(''202601'', demo_root, 10, 1, STATUS_ACTIVE), (''202603'', demo_root, 30, 1, STATUS_ACTIVE)])"
proof -
  have "read_pages (length [''202601'', ''202602'', ''202603'']) ''BIZ'' [''202601'', ''202602'', ''202603'']
      None None STATUS_FILTER_ALL None 1 0 paged = Inr (Some (concat (map (\<lambda>p. row_list (page_entry paged ''BIZ''
      None None STATUS_FILTER_ALL None p)) [''202601'', ''202602'', ''202603''])))"
    by (rule paging_complete) (auto simp: paged_entries)
  then show ?thesis by (simp add: paged_entries numeral_3_eq_3 del: read_pages.simps)
qed

end
