(* ===== verification/Attestor_Staking.thy ===== *)
theory Attestor_Staking
  imports Prelude
begin

text \<open>
  \<open>contracts/attestor-staking/src/lib.rs\<close>: stakes, the queue of pending unstakes with its
  unbonding period, and slashing. The state is the instance storage of the contract; an operation
  that moves tokens also takes and returns the token ledger. An absent storage key is \<open>None\<close>.
\<close>

section \<open>Data\<close>

datatype slash_outcome = Slashed | NoSlash

record pending_unstake =
  pu_amount :: int
  pu_unlock :: nat

record stake_rec =
  sk_attestor :: address
  sk_amount :: int
  sk_locked :: int

record staking_state =
  ss_admin :: "address option"
  ss_token :: "address option"
  ss_treasury :: "address option"
  ss_min_stake :: "int option"
  ss_dispute :: "address option"
  ss_unbonding :: "nat option"
  ss_stakes :: "address \<rightharpoonup> stake_rec"
  ss_pending :: "address \<rightharpoonup> pending_unstake list"
  ss_slashed :: "nat set"

definition staking_empty :: staking_state where
  "staking_empty = \<lparr>ss_admin = None, ss_token = None, ss_treasury = None, ss_min_stake = None,
     ss_dispute = None, ss_unbonding = None, ss_stakes = Map.empty, ss_pending = Map.empty,
     ss_slashed = {}\<rparr>"

definition MAX_UNBONDING_PERIOD :: nat where "MAX_UNBONDING_PERIOD = 31536000"

section \<open>Operations\<close>

definition staking_initialize ::
  "ledger_env \<Rightarrow> staking_state \<Rightarrow> address \<Rightarrow> address \<Rightarrow> address \<Rightarrow> int \<Rightarrow> address \<Rightarrow> nat \<Rightarrow>
   staking_state res" where
  "staking_initialize env s admin token treasury min_stake dispute_contract unbonding =
     (if ss_admin s \<noteq> None then Inl (Panic ''already initialized'')
      else
        bindr (require_auth env admin) (\<lambda>_.
        bindr (assertr (0 < min_stake) ''min_stake must be positive'') (\<lambda>_.
        bindr (assertr (unbonding \<le> MAX_UNBONDING_PERIOD) ''unbonding period too long'') (\<lambda>_.
        bindr (assertr (token \<noteq> self_addr env) ''token cannot be self'') (\<lambda>_.
        bindr (assertr (treasury \<noteq> self_addr env) ''treasury cannot be self'') (\<lambda>_.
        bindr (assertr (dispute_contract \<noteq> self_addr env) ''dispute_contract cannot be self'') (\<lambda>_.
        bindr (assertr (admin \<noteq> treasury) ''admin and treasury must be distinct'') (\<lambda>_.
        bindr (assertr (token \<noteq> treasury) ''token and treasury must be distinct'') (\<lambda>_.
        bindr (assertr (dispute_contract \<noteq> treasury) ''dispute and treasury must be distinct'') (\<lambda>_.
        Inr (s\<lparr>ss_admin := Some admin, ss_token := Some token, ss_treasury := Some treasury,
                ss_min_stake := Some min_stake, ss_dispute := Some dispute_contract,
                ss_unbonding := Some unbonding\<rparr>)))))))))))"

definition stake_of :: "staking_state \<Rightarrow> address \<Rightarrow> stake_rec" where
  "stake_of s a = unwrap_or (ss_stakes s a) \<lparr>sk_attestor = a, sk_amount = 0, sk_locked = 0\<rparr>"

definition stake ::
  "'w token_ops \<Rightarrow> ledger_env \<Rightarrow> address \<Rightarrow> int \<Rightarrow> staking_state \<times> 'w \<Rightarrow> (staking_state \<times> 'w) res" where
  "stake T env attestor amount sw =
     (let (s, w) = sw in
      bindr (require_auth env attestor) (\<lambda>_.
      bindr (assertr (0 < amount) ''amount must be positive'') (\<lambda>_.
      bindr (unwrapr (ss_token s)) (\<lambda>token.
      (let st = stake_of s attestor in
      bindr (i128_chk (sk_amount st + amount)) (\<lambda>new_amount.
      bindr (assertr (0 \<le> new_amount) ''stake overflow'') (\<lambda>_.
      (let s1 = s\<lparr>ss_stakes := (ss_stakes s)(attestor \<mapsto> st\<lparr>sk_amount := new_amount\<rparr>)\<rparr> in
      bindr (transferr T token attestor (self_addr env) amount w) (\<lambda>w1.
      Inr (s1, w1))))))))))"

definition request_unstake ::
  "ledger_env \<Rightarrow> address \<Rightarrow> int \<Rightarrow> staking_state \<Rightarrow> staking_state res" where
  "request_unstake env attestor amount s =
     bindr (require_auth env attestor) (\<lambda>_.
     bindr (assertr (0 < amount) ''amount must be positive'') (\<lambda>_.
     (let pending_vec = unwrap_or (ss_pending s attestor) [] in
     bindr (assertr (length pending_vec < 10) ''too many pending unstakes'') (\<lambda>_.
     bindr (expectr (ss_stakes s attestor) ''no stake found'') (\<lambda>st.
     bindr (i128_chk (sk_amount st - sk_locked st)) (\<lambda>available.
     bindr (assertr (amount \<le> available) ''insufficient unlocked stake'') (\<lambda>_.
     bindr (i128_chk (sk_locked st + amount)) (\<lambda>new_locked.
     (let s1 = s\<lparr>ss_stakes := (ss_stakes s)(attestor \<mapsto> st\<lparr>sk_locked := new_locked\<rparr>)\<rparr>;
          unbonding = unwrap_or (ss_unbonding s1) 0;
          unlock0 = u64_sat (timestamp env + unbonding);
          unlock = (if pending_vec \<noteq> [] \<and> unlock0 < pu_unlock (last pending_vec)
                    then pu_unlock (last pending_vec) else unlock0)
      in Inr (s1\<lparr>ss_pending := (ss_pending s1)
                (attestor \<mapsto> pending_vec @ [\<lparr>pu_amount = amount, pu_unlock = unlock\<rparr>])\<rparr>))))))))))"

text \<open>The loop of \<open>withdraw_unstaked\<close>: the unlocked total and the entries that remain.\<close>

fun split_unlocked ::
  "nat \<Rightarrow> int \<Rightarrow> pending_unstake list \<Rightarrow> pending_unstake list \<Rightarrow> (int \<times> pending_unstake list) res" where
  "split_unlocked now acc rest [] = Inr (acc, rest)"
| "split_unlocked now acc rest (p # ps) =
     (if pu_unlock p \<le> now
      then bindr (i128_chk (acc + pu_amount p)) (\<lambda>acc'. split_unlocked now acc' rest ps)
      else split_unlocked now acc (rest @ [p]) ps)"

definition withdraw_unstaked ::
  "'w token_ops \<Rightarrow> ledger_env \<Rightarrow> address \<Rightarrow> staking_state \<times> 'w \<Rightarrow> (staking_state \<times> 'w) res" where
  "withdraw_unstaked T env attestor sw =
     (let (s, w) = sw in
      bindr (require_auth env attestor) (\<lambda>_.
      bindr (expectr (ss_pending s attestor) ''no pending unstake'') (\<lambda>pending_vec.
      bindr (split_unlocked (timestamp env) 0 [] pending_vec) (\<lambda>(to_withdraw, remaining).
      bindr (assertr (0 < to_withdraw) ''no unstake unlocked'') (\<lambda>_.
      bindr (expectr (ss_stakes s attestor) ''no stake found'') (\<lambda>st.
      bindr (assertr (to_withdraw \<le> sk_locked st) ''locked invariant violated'') (\<lambda>_.
      bindr (assertr (to_withdraw \<le> sk_amount st) ''stake invariant violated'') (\<lambda>_.
      bindr (i128_chk (sk_amount st - to_withdraw)) (\<lambda>new_amount.
      bindr (i128_chk (sk_locked st - to_withdraw)) (\<lambda>new_locked.
      (let s1 = s\<lparr>ss_stakes := (ss_stakes s)
                  (attestor \<mapsto> st\<lparr>sk_amount := new_amount, sk_locked := new_locked\<rparr>)\<rparr>;
           s2 = (if remaining = [] then s1\<lparr>ss_pending := (ss_pending s1)(attestor := None)\<rparr>
                 else s1\<lparr>ss_pending := (ss_pending s1)(attestor \<mapsto> remaining)\<rparr>) in
      bindr (unwrapr (ss_token s2)) (\<lambda>token.
      bindr (transferr T token (self_addr env) attestor to_withdraw w) (\<lambda>w1.
      Inr (s2, w1))))))))))))))"

text \<open>The \<open>while i > 0\<close> loop of \<open>slash\<close>, \<open>i\<close> counting down from the length of the queue.\<close>

fun slash_loop :: "nat \<Rightarrow> int \<Rightarrow> pending_unstake list \<Rightarrow> pending_unstake list res" where
  "slash_loop 0 excess v = Inr v"
| "slash_loop (Suc i) excess v =
     (let p = v ! i in
      if 0 < excess
      then (if pu_amount p \<le> excess
            then bindr (i128_chk (excess - pu_amount p)) (\<lambda>excess'.
                   slash_loop i excess' (v[i := p\<lparr>pu_amount := 0\<rparr>]))
            else bindr (i128_chk (pu_amount p - excess)) (\<lambda>left.
                   slash_loop i 0 (v[i := p\<lparr>pu_amount := left\<rparr>])))
      else slash_loop i excess (v[i := p]))"

definition slash_pending :: "int \<Rightarrow> pending_unstake list \<Rightarrow> pending_unstake list res" where
  "slash_pending locked v =
     bindr (sum_chk 0 (map pu_amount v)) (\<lambda>total_pending.
       if locked < total_pending
       then bindr (i128_chk (total_pending - locked)) (\<lambda>excess. slash_loop (length v) excess v)
       else Inr v)"

definition slash ::
  "'w token_ops \<Rightarrow> ledger_env \<Rightarrow> address \<Rightarrow> int \<Rightarrow> nat \<Rightarrow> staking_state \<times> 'w \<Rightarrow>
   (slash_outcome \<times> staking_state \<times> 'w) res" where
  "slash T env attestor amount dispute_id sw =
     (let (s, w) = sw in
      bindr (unwrapr (ss_dispute s)) (\<lambda>dispute_contract.
      bindr (require_auth env dispute_contract) (\<lambda>_.
      bindr (assertr (0 < amount) ''slash amount must be positive'') (\<lambda>_.
      if dispute_id \<in> ss_slashed s then Inl (Panic ''dispute already processed'')
      else
      bindr (expectr (ss_stakes s attestor) ''no stake found'') (\<lambda>st.
      (let slash_amount = min amount (sk_amount st) in
      if slash_amount = 0 then Inr (NoSlash, s, w)
      else
      bindr (i128_chk (sk_amount st - slash_amount)) (\<lambda>new_amount.
      (let new_locked = (if new_amount < sk_locked st then new_amount else sk_locked st) in
      bindr (case ss_pending s attestor of
               None \<Rightarrow> Inr s
             | Some v \<Rightarrow> bindr (slash_pending new_locked v) (\<lambda>v'.
                 Inr (s\<lparr>ss_pending := (ss_pending s)(attestor \<mapsto> v')\<rparr>))) (\<lambda>s1.
      (let s2 = s1\<lparr>ss_stakes := (ss_stakes s1)
                   (attestor \<mapsto> st\<lparr>sk_amount := new_amount, sk_locked := new_locked\<rparr>),
                   ss_slashed := insert dispute_id (ss_slashed s1)\<rparr> in
      bindr (unwrapr (ss_token s2)) (\<lambda>token.
      bindr (unwrapr (ss_treasury s2)) (\<lambda>treasury.
      bindr (transferr T token (self_addr env) treasury slash_amount w) (\<lambda>w1.
      Inr (Slashed, s2, w1))))))))))))))"

section \<open>Reads and configuration\<close>

definition get_stake :: "staking_state \<Rightarrow> address \<Rightarrow> stake_rec option" where
  "get_stake s attestor = ss_stakes s attestor"

definition is_dispute_processed :: "staking_state \<Rightarrow> nat \<Rightarrow> bool" where
  "is_dispute_processed s dispute_id \<longleftrightarrow> dispute_id \<in> ss_slashed s"

definition get_dispute_contract :: "staking_state \<Rightarrow> address res" where
  "get_dispute_contract s = unwrapr (ss_dispute s)"

definition get_pending_unstake :: "staking_state \<Rightarrow> address \<Rightarrow> pending_unstake option" where
  "get_pending_unstake s attestor =
     (case ss_pending s attestor of
        Some v \<Rightarrow> (if v \<noteq> [] then Some (v ! 0) else None)
      | None \<Rightarrow> None)"

definition get_pending_unstakes :: "staking_state \<Rightarrow> address \<Rightarrow> pending_unstake list option" where
  "get_pending_unstakes s attestor = ss_pending s attestor"

definition is_eligible :: "staking_state \<Rightarrow> address \<Rightarrow> bool res" where
  "is_eligible s attestor =
     bindr (unwrapr (ss_min_stake s)) (\<lambda>min_stake.
     Inr (case get_stake s attestor of Some st \<Rightarrow> min_stake \<le> sk_amount st | None \<Rightarrow> False))"

text \<open>\<open>as u64\<close> of an \<open>i128\<close> keeps the low 64 bits.\<close>

definition get_reputation :: "staking_state \<Rightarrow> address \<Rightarrow> nat" where
  "get_reputation s attestor =
     (case get_stake s attestor of
        Some st \<Rightarrow>
          (let available_stake = i128_sat (sk_amount st - sk_locked st) in
           if available_stake \<le> 0 then 0
           else nat (min available_stake i128_max mod 2 ^ 64))
      | None \<Rightarrow> 0)"

definition staking_get_admin :: "staking_state \<Rightarrow> address res" where
  "staking_get_admin s = unwrapr (ss_admin s)"

definition get_min_stake :: "staking_state \<Rightarrow> int res" where
  "get_min_stake s = unwrapr (ss_min_stake s)"

definition get_unbonding_period :: "staking_state \<Rightarrow> nat" where
  "get_unbonding_period s = unwrap_or (ss_unbonding s) 0"

definition set_min_stake :: "ledger_env \<Rightarrow> staking_state \<Rightarrow> int \<Rightarrow> staking_state res" where
  "set_min_stake env s min_stake =
     bindr (unwrapr (ss_admin s)) (\<lambda>admin.
     bindr (require_auth env admin) (\<lambda>_.
     bindr (assertr (0 < min_stake) ''min_stake must be positive'') (\<lambda>_.
     Inr (s\<lparr>ss_min_stake := Some min_stake\<rparr>))))"

definition set_dispute_contract :: "ledger_env \<Rightarrow> staking_state \<Rightarrow> address \<Rightarrow> staking_state res" where
  "set_dispute_contract env s dispute_contract =
     bindr (unwrapr (ss_admin s)) (\<lambda>admin.
     bindr (require_auth env admin) (\<lambda>_.
     Inr (s\<lparr>ss_dispute := Some dispute_contract\<rparr>)))"

definition set_unbonding_period :: "ledger_env \<Rightarrow> staking_state \<Rightarrow> nat \<Rightarrow> staking_state res" where
  "set_unbonding_period env s unbonding =
     bindr (unwrapr (ss_admin s)) (\<lambda>admin.
     bindr (require_auth env admin) (\<lambda>_.
     Inr (s\<lparr>ss_unbonding := Some unbonding\<rparr>)))"

section \<open>The account invariant\<close>

text \<open>
  What holds of an account between calls: the locked part of the stake is exactly the sum of the
  queue, the queue is ordered by unlock time, has at most ten entries and is never stored empty.
\<close>

definition queue_ok :: "pending_unstake list \<Rightarrow> bool" where
  "queue_ok v \<longleftrightarrow> (\<forall>p\<in>set v. 0 \<le> pu_amount p) \<and> sorted (map pu_unlock v) \<and> length v \<le> 10"

definition queued :: "pending_unstake list \<Rightarrow> int" where
  "queued v = sum_list (map pu_amount v)"

definition acct_ok :: "stake_rec option \<Rightarrow> pending_unstake list option \<Rightarrow> bool" where
  "acct_ok st q \<longleftrightarrow>
     (case st of
        None \<Rightarrow> q = None
      | Some k \<Rightarrow> 0 \<le> sk_locked k \<and> sk_locked k \<le> sk_amount k \<and> sk_amount k \<le> i128_max \<and>
          queued (unwrap_or q []) = sk_locked k \<and> queue_ok (unwrap_or q []) \<and> q \<noteq> Some [])"

definition accounts_ok :: "staking_state \<Rightarrow> bool" where
  "accounts_ok s \<longleftrightarrow> (\<forall>a. acct_ok (ss_stakes s a) (ss_pending s a))"

lemma queued_simps [simp]:
  "queued [] = 0" "queued (p # v) = pu_amount p + queued v" "queued (u @ v) = queued u + queued v"
  "queued (rev v) = queued v"
  by (simp_all add: queued_def rev_map [symmetric] sum_list_rev)

lemma queue_ok_Nil [simp]: "queue_ok []"
  by (simp add: queue_ok_def)

lemma queued_nonneg: "(\<forall>p\<in>set v. 0 \<le> pu_amount p) \<Longrightarrow> 0 \<le> queued v"
  by (induction v) auto

lemma accounts_okD: "accounts_ok s \<Longrightarrow> acct_ok (ss_stakes s a) (ss_pending s a)"
  by (simp add: accounts_ok_def)

lemma accounts_ok_upd:
  "accounts_ok s \<Longrightarrow> acct_ok st q \<Longrightarrow> ss_stakes s' = (ss_stakes s)(a := st) \<Longrightarrow>
   ss_pending s' = (ss_pending s)(a := q) \<Longrightarrow> accounts_ok s'"
  by (simp add: accounts_ok_def)

lemma accounts_ok_empty [simp]: "accounts_ok staking_empty"
  by (simp add: accounts_ok_def staking_empty_def acct_ok_def)

section \<open>The queue loops\<close>

lemma split_unlocked_filter:
  assumes "split_unlocked now acc rest v = Inr (t, r)"
  shows "t = acc + queued (filter (\<lambda>p. pu_unlock p \<le> now) v) \<and>
    r = rest @ filter (\<lambda>p. now < pu_unlock p) v"
  using assms
  by (induction now acc rest v rule: split_unlocked.induct)
    (auto split: if_splits simp: not_le)

lemma split_unlocked_total:
  "(\<forall>p\<in>set v. 0 \<le> pu_amount p) \<Longrightarrow> 0 \<le> acc \<Longrightarrow> acc + queued v \<le> i128_max \<Longrightarrow>
   split_unlocked now acc rest v =
     Inr (acc + queued (filter (\<lambda>p. pu_unlock p \<le> now) v), rest @ filter (\<lambda>p. now < pu_unlock p) v)"
proof (induction now acc rest v rule: split_unlocked.induct)
  case (1 now acc rest)
  then show ?case by simp
next
  case (2 now acc rest p ps)
  have "0 \<le> queued ps" using 2(3) by (simp add: queued_nonneg)
  then have "i128_chk (acc + pu_amount p) = Inr (acc + pu_amount p)"
    using 2(3-5) by (simp add: i128_nonneg)
  with 2 show ?case by (auto simp: not_le)
qed

lemma queued_partition:
  "queued (filter P v) + queued (filter (\<lambda>p. \<not> P p) v) = queued v"
  by (induction v) auto

text \<open>The reference of the slash loop: take the excess from the newest entry backwards.\<close>

fun trim :: "int \<Rightarrow> pending_unstake list \<Rightarrow> pending_unstake list" where
  "trim excess [] = []"
| "trim excess (p # ps) =
     (if excess \<le> 0 then p # ps
      else if pu_amount p \<le> excess then p\<lparr>pu_amount := 0\<rparr> # trim (excess - pu_amount p) ps
      else p\<lparr>pu_amount := pu_amount p - excess\<rparr> # ps)"

lemma slash_loop_zero: "i \<le> length v \<Longrightarrow> slash_loop i 0 v = Inr v"
  by (induction i) auto

lemma slash_loop_trim:
  "(\<forall>p\<in>set xs. 0 \<le> pu_amount p \<and> pu_amount p \<le> i128_max) \<Longrightarrow> 0 \<le> excess \<Longrightarrow> excess \<le> i128_max \<Longrightarrow>
   slash_loop (length xs) excess (xs @ ys) = Inr (rev (trim excess (rev xs)) @ ys)"
proof (induction xs arbitrary: excess ys rule: rev_induct)
  case Nil
  then show ?case by simp
next
  case (snoc p xs)
  have ih: "slash_loop (length xs) e (xs @ zs) = Inr (rev (trim e (rev xs)) @ zs)"
    if "0 \<le> e" "e \<le> i128_max" for e zs
    using snoc.IH [of e zs] snoc.prems(1) that by simp
  have p: "0 \<le> pu_amount p" "pu_amount p \<le> i128_max" using snoc.prems(1) by auto
  consider "excess = 0" | "0 < excess" "pu_amount p \<le> excess" | "0 < excess" "excess < pu_amount p"
    using snoc.prems(2) by linarith
  then show ?case
  proof cases
    case 1
    then show ?thesis using slash_loop_zero [of "length xs" "xs @ p # ys"] by simp
  next
    case 2
    then have "i128_chk (excess - pu_amount p) = Inr (excess - pu_amount p)"
      using p snoc.prems(3) by (simp add: i128_nonneg)
    with 2 p snoc.prems(3) show ?thesis by (simp add: Let_def ih)
  next
    case 3
    then have "i128_chk (pu_amount p - excess) = Inr (pu_amount p - excess)"
      using p by (simp add: i128_nonneg)
    with 3 show ?thesis by (simp add: Let_def slash_loop_zero)
  qed
qed

lemma trim_props:
  "(\<forall>p\<in>set v. 0 \<le> pu_amount p) \<Longrightarrow> 0 \<le> e \<Longrightarrow> e \<le> queued v \<Longrightarrow>
   queued (trim e v) = queued v - e \<and> (\<forall>p\<in>set (trim e v). 0 \<le> pu_amount p)"
  by (induction e v rule: trim.induct) (auto dest: queued_nonneg)

lemma trim_unlock [simp]: "map pu_unlock (trim e v) = map pu_unlock v"
  by (induction e v rule: trim.induct) auto

lemma trim_length [simp]: "length (trim e v) = length v"
  by (induction e v rule: trim.induct) auto

lemma amounts_le_queued:
  "(\<forall>p\<in>set v. 0 \<le> pu_amount p) \<Longrightarrow> p \<in> set v \<Longrightarrow> pu_amount p \<le> queued v"
  by (induction v) (auto dest: queued_nonneg)

lemma slash_pending_result:
  assumes "queue_ok v" and "queued v \<le> i128_max" and "0 \<le> l"
  shows "slash_pending l v = Inr (rev (trim (max 0 (queued v - l)) (rev v)))"
proof -
  have nn: "\<forall>p\<in>set v. 0 \<le> pu_amount p" using assms(1) by (simp add: queue_ok_def)
  then have bd: "\<forall>p\<in>set v. 0 \<le> pu_amount p \<and> pu_amount p \<le> i128_max"
    using amounts_le_queued [OF nn] assms(2) by fastforce
  have "sum_chk 0 (map pu_amount v) = Inr (queued v)"
    using sum_chk_total [of "map pu_amount v" 0] nn assms(2) by (auto simp: queued_def)
  moreover have "slash_loop (length v) (queued v - l) v = Inr (rev (trim (queued v - l) (rev v)))"
    if "l < queued v"
    using slash_loop_trim [OF bd, of "queued v - l" "[]"] assms that by simp
  moreover have "trim 0 (rev v) = rev v" by (cases "rev v") auto
  ultimately show ?thesis
    using assms by (auto simp: slash_pending_def i128_chk_def i128_nonneg max_def)
qed

lemma slash_pending_ok:
  assumes "queue_ok v" and "0 \<le> l" and "slash_pending l v = Inr v'" and "queued v \<le> i128_max"
  shows "queue_ok v'" and "queued v' = min (queued v) l" and "length v' = length v"
proof -
  let ?e = "max 0 (queued v - l)"
  have v': "v' = rev (trim ?e (rev v))"
    using slash_pending_result [OF assms(1,4,2)] assms(3) by simp
  have nn: "\<forall>p\<in>set (rev v). 0 \<le> pu_amount p" using assms(1) by (simp add: queue_ok_def)
  have "?e \<le> queued (rev v)" using assms(2) queued_nonneg [OF nn] by simp
  from trim_props [OF nn _ this]
  have t: "queued (trim ?e (rev v)) = queued v - ?e" "\<forall>p\<in>set (trim ?e (rev v)). 0 \<le> pu_amount p"
    by simp_all
  have "map pu_unlock v' = map pu_unlock v" by (simp add: v' rev_map [symmetric])
  then show "queue_ok v'" using assms(1) t(2) by (simp add: queue_ok_def v')
  show "queued v' = min (queued v) l" by (simp add: v' t)
  show "length v' = length v" by (simp add: v')
qed

section \<open>What a successful call did\<close>

lemma stake_cases:
  assumes "stake T env a n (s, w) = Inr (s', w')"
  obtains t where "authorized env a" "0 < n" "ss_token s = Some t"
    "tok_transfer T t a (self_addr env) n w = Some w'"
    "in_i128 (sk_amount (stake_of s a) + n)"
    "s' = s\<lparr>ss_stakes := (ss_stakes s)(a \<mapsto>
       (stake_of s a)\<lparr>sk_amount := sk_amount (stake_of s a) + n\<rparr>)\<rparr>"
  using assms that by (auto simp: stake_def Let_def)

lemma request_cases:
  assumes "request_unstake env a n s = Inr s'"
  obtains st u q where "authorized env a" "0 < n" "ss_stakes s a = Some st"
    "q = unwrap_or (ss_pending s a) []" "length q < 10"
    "n \<le> sk_amount st - sk_locked st" "u64_sat (timestamp env + unwrap_or (ss_unbonding s) 0) \<le> u"
    "q \<noteq> [] \<Longrightarrow> pu_unlock (last q) \<le> u"
    "s' = s\<lparr>ss_stakes := (ss_stakes s)(a \<mapsto> st\<lparr>sk_locked := sk_locked st + n\<rparr>),
       ss_pending := (ss_pending s)(a \<mapsto> q @ [\<lparr>pu_amount = n, pu_unlock = u\<rparr>])\<rparr>"
proof -
  let ?q = "unwrap_or (ss_pending s a) []"
  let ?t = "u64_sat (timestamp env + unwrap_or (ss_unbonding s) 0)"
  let ?u = "if ?q \<noteq> [] \<and> ?t < pu_unlock (last ?q) then pu_unlock (last ?q) else ?t"
  obtain st where st: "authorized env a" "0 < n" "ss_stakes s a = Some st" "length ?q < 10"
    "n \<le> sk_amount st - sk_locked st"
    "s' = s\<lparr>ss_stakes := (ss_stakes s)(a \<mapsto> st\<lparr>sk_locked := sk_locked st + n\<rparr>),
       ss_pending := (ss_pending s)(a \<mapsto> ?q @ [\<lparr>pu_amount = n, pu_unlock = ?u\<rparr>])\<rparr>"
    using assms by (auto simp: request_unstake_def Let_def)
  show thesis by (rule that [OF st(1-3) refl st(4,5) _ _ st(6)]) simp_all
qed

lemma withdraw_cases:
  assumes "withdraw_unstaked T env a (s, w) = Inr (s', w')"
  obtains v st t n where "authorized env a" "ss_pending s a = Some v" "ss_stakes s a = Some st"
    "n = queued (filter (\<lambda>p. pu_unlock p \<le> timestamp env) v)" "0 < n"
    "n \<le> sk_locked st" "n \<le> sk_amount st" "ss_token s = Some t"
    "tok_transfer T t (self_addr env) a n w = Some w'"
    "s' = s\<lparr>ss_stakes := (ss_stakes s)(a \<mapsto> st\<lparr>sk_amount := sk_amount st - n, sk_locked := sk_locked st - n\<rparr>),
       ss_pending := (ss_pending s)(a :=
         (if filter (\<lambda>p. timestamp env < pu_unlock p) v = [] then None
          else Some (filter (\<lambda>p. timestamp env < pu_unlock p) v)))\<rparr>"
proof -
  obtain v n r st t where v: "authorized env a" "ss_pending s a = Some v"
    "split_unlocked (timestamp env) 0 [] v = Inr (n, r)" "0 < n" "ss_stakes s a = Some st"
    "n \<le> sk_locked st" "n \<le> sk_amount st" "ss_token s = Some t"
    "tok_transfer T t (self_addr env) a n w = Some w'"
    "s' = s\<lparr>ss_stakes := (ss_stakes s)(a \<mapsto> st\<lparr>sk_amount := sk_amount st - n, sk_locked := sk_locked st - n\<rparr>),
       ss_pending := (ss_pending s)(a := (if r = [] then None else Some r))\<rparr>"
    using assms unfolding withdraw_unstaked_def Let_def prod.case
    by (simp add: if_distrib [of "\<lambda>m. ss_pending_update (\<lambda>_. m) _", symmetric]
        split del: if_split) (elim exE conjE, rule that, assumption+, hypsubst, simp)
  from split_unlocked_filter [OF v(3)]
  have n: "n = queued (filter (\<lambda>p. pu_unlock p \<le> timestamp env) v)"
    and r: "r = filter (\<lambda>p. timestamp env < pu_unlock p) v" by simp_all
  show thesis by (rule that [OF v(1,2,5) n v(4,6-9) v(10) [unfolded r]])
qed

lemma slash_cases:
  assumes "slash T env a n d (s, w) = Inr (out, s', w')"
  obtains
    (no_slash) st dc where "out = NoSlash" "s' = s" "w' = w" "ss_stakes s a = Some st"
      "min n (sk_amount st) = 0" "0 < n" "d \<notin> ss_slashed s"
      "ss_dispute s = Some dc" "authorized env dc"
  | (slashed) st t tr m l q dc where "out = Slashed" "ss_stakes s a = Some st" "0 < n" "d \<notin> ss_slashed s"
      "ss_dispute s = Some dc" "authorized env dc"
      "m = min n (sk_amount st)" "m \<noteq> 0" "l = min (sk_locked st) (sk_amount st - m)"
      "ss_token s = Some t" "ss_treasury s = Some tr"
      "tok_transfer T t (self_addr env) tr m w = Some w'"
      "(ss_pending s a = None \<and> q = None) \<or>
       (\<exists>v v'. ss_pending s a = Some v \<and> slash_pending l v = Inr v' \<and> q = Some v')"
      "s' = s\<lparr>ss_stakes := (ss_stakes s)(a \<mapsto> st\<lparr>sk_amount := sk_amount st - m, sk_locked := l\<rparr>),
         ss_pending := (ss_pending s)(a := q), ss_slashed := insert d (ss_slashed s)\<rparr>"
proof -
  obtain dc st where 1: "ss_dispute s = Some dc" "authorized env dc" "0 < n" "d \<notin> ss_slashed s"
    "ss_stakes s a = Some st"
    using assms by (auto simp: slash_def Let_def split: if_splits)
  show thesis
  proof (cases "min n (sk_amount st) = 0")
    case True
    with assms 1 show ?thesis by (intro no_slash) (auto simp: slash_def Let_def split: if_splits)
  next
    case False
    let ?m = "min n (sk_amount st)"
    let ?l = "min (sk_locked st) (sk_amount st - ?m)"
    let ?i = "if sk_amount st - ?m < sk_locked st then sk_amount st - ?m else sk_locked st"
    have l: "?i = ?l" by simp
    obtain t tr s1 where 2: "ss_token s1 = Some t" "ss_treasury s1 = Some tr" "out = Slashed"
      "tok_transfer T t (self_addr env) tr ?m w = Some w'"
      "(case ss_pending s a of None \<Rightarrow> Inr s | Some v \<Rightarrow> bindr (slash_pending ?i v) (\<lambda>v'.
                 Inr (s\<lparr>ss_pending := (ss_pending s)(a \<mapsto> v')\<rparr>))) = Inr s1"
      "s' = s1\<lparr>ss_stakes := (ss_stakes s1)(a \<mapsto> st\<lparr>sk_amount := sk_amount st - ?m, sk_locked := ?i\<rparr>),
             ss_slashed := insert d (ss_slashed s1)\<rparr>"
      using assms 1 False unfolding slash_def Let_def prod.case
      by (simp only: bindr_Inr unwrapr_Inr require_auth_Inr expectr_Inr if_False) auto
    note 2 = 2 [unfolded l]
    show ?thesis
    proof (cases "ss_pending s a")
      case None
      then have "(ss_pending s)(a := None) = ss_pending s" by (simp add: fun_upd_idem)
      moreover have "s1 = s" using 2(5) None by simp
      ultimately have "s' = s\<lparr>ss_stakes := (ss_stakes s)(a \<mapsto> st\<lparr>sk_amount := sk_amount st - ?m, sk_locked := ?l\<rparr>),
         ss_pending := (ss_pending s)(a := None), ss_slashed := insert d (ss_slashed s)\<rparr>"
        using 2(6) by simp
      from slashed [OF 2(3) 1(5,3,4,1,2) refl False refl _ _ 2(4) _ this] 2(1,2) None \<open>s1 = s\<close>
      show ?thesis by simp
    next
      case (Some v)
      with 2(5) obtain v' where v': "slash_pending ?l v = Inr v'"
        "s1 = s\<lparr>ss_pending := (ss_pending s)(a \<mapsto> v')\<rparr>" by auto
      then have "s' = s\<lparr>ss_stakes := (ss_stakes s)(a \<mapsto> st\<lparr>sk_amount := sk_amount st - ?m, sk_locked := ?l\<rparr>),
         ss_pending := (ss_pending s)(a := Some v'), ss_slashed := insert d (ss_slashed s)\<rparr>"
        using 2(6) by simp
      from slashed [OF 2(3) 1(5,3,4,1,2) refl False refl _ _ 2(4) _ this] 2(1,2) Some v'
      show ?thesis by simp
    qed
  qed
qed

section \<open>The invariant is kept\<close>

lemma queue_ok_snoc:
  assumes "queue_ok q" and "length q < 10" and "0 \<le> n" and "q \<noteq> [] \<Longrightarrow> pu_unlock (last q) \<le> u"
  shows "queue_ok (q @ [\<lparr>pu_amount = n, pu_unlock = u\<rparr>])"
proof -
  have "pu_unlock p \<le> u" if p: "p \<in> set q" for p
  proof -
    obtain q' l where "q = q' @ [l]" using p by (cases q rule: rev_cases) auto
    with assms(1,4) p show ?thesis by (auto simp: queue_ok_def sorted_append)
  qed
  with assms show ?thesis by (auto simp: queue_ok_def sorted_append)
qed

lemma queue_ok_filter: "queue_ok v \<Longrightarrow> queue_ok (filter P v)"
  by (auto simp: queue_ok_def sorted_filter intro: order.trans [OF length_filter_le])

lemma stake_accounts:
  assumes "accounts_ok s" and "stake T env a n (s, w) = Inr (s', w')"
  shows "accounts_ok s'"
  using assms(2)
proof (cases rule: stake_cases)
  case (1 t)
  have "acct_ok (Some ((stake_of s a)\<lparr>sk_amount := sk_amount (stake_of s a) + n\<rparr>)) (ss_pending s a)"
    using accounts_okD [OF assms(1), of a] 1(2,5)
    by (auto simp: acct_ok_def stake_of_def in_i128_def split: option.splits)
  from accounts_ok_upd [OF assms(1) this] 1 show ?thesis by simp
qed

lemma request_accounts:
  assumes "accounts_ok s" and "request_unstake env a n s = Inr s'"
  shows "accounts_ok s'"
  using assms(2)
proof (cases rule: request_cases)
  case (1 st u q)
  have a: "0 \<le> sk_locked st" "sk_amount st \<le> i128_max" "queued q = sk_locked st" "queue_ok q"
    using accounts_okD [OF assms(1), of a] 1(3,4) by (simp_all add: acct_ok_def)
  have "acct_ok (Some (st\<lparr>sk_locked := sk_locked st + n\<rparr>)) (Some (q @ [\<lparr>pu_amount = n, pu_unlock = u\<rparr>]))"
    using a 1(2,5,6,8) queue_ok_snoc [of q n u] by (simp add: acct_ok_def)
  from accounts_ok_upd [OF assms(1) this] 1(9) show ?thesis by simp
qed

lemma withdraw_accounts:
  assumes "accounts_ok s" and "withdraw_unstaked T env a (s, w) = Inr (s', w')"
  shows "accounts_ok s'"
  using assms(2)
proof (cases rule: withdraw_cases)
  case (1 v st t n)
  let ?r = "filter (\<lambda>p. timestamp env < pu_unlock p) v"
  have a: "sk_locked st \<le> sk_amount st" "sk_amount st \<le> i128_max" "queued v = sk_locked st" "queue_ok v"
    using accounts_okD [OF assms(1), of a] 1(2,3) by (simp_all add: acct_ok_def)
  have r: "queued ?r = sk_locked st - n"
    using queued_partition [of "\<lambda>p. timestamp env < pu_unlock p" v] a(3) 1(4) by (simp add: not_less)
  have "acct_ok (Some (st\<lparr>sk_amount := sk_amount st - n, sk_locked := sk_locked st - n\<rparr>))
      (if ?r = [] then None else Some ?r)"
    using a r 1(5,6) by (auto simp: acct_ok_def intro: queue_ok_filter)
  from accounts_ok_upd [OF assms(1) this] 1(10) show ?thesis by simp
qed

lemma slash_accounts:
  assumes "accounts_ok s" and "slash T env a n d (s, w) = Inr (out, s', w')"
  shows "accounts_ok s'"
  using assms(2)
proof (cases rule: slash_cases)
  case no_slash
  with assms(1) show ?thesis by simp
next
  case (slashed st t tr m l q)
  have a: "0 \<le> sk_locked st" "sk_locked st \<le> sk_amount st" "sk_amount st \<le> i128_max"
    "queued (unwrap_or (ss_pending s a) []) = sk_locked st" "queue_ok (unwrap_or (ss_pending s a) [])"
    "ss_pending s a \<noteq> Some []"
    using accounts_okD [OF assms(1), of a] slashed(2) by (simp_all add: acct_ok_def)
  have m: "0 \<le> m" "m \<le> sk_amount st" "0 \<le> l" "l \<le> sk_amount st - m" "l \<le> sk_locked st"
    using slashed(3,7,9) a(1,2) by auto
  have "queued (unwrap_or q []) = l \<and> queue_ok (unwrap_or q []) \<and> q \<noteq> Some []"
    using slashed(13)
  proof (elim disjE exE conjE)
    assume "ss_pending s a = None" "q = None"
    with a m show ?thesis by simp
  next
    fix v v'
    assume v: "ss_pending s a = Some v" "slash_pending l v = Inr v'" "q = Some v'"
    from slash_pending_ok [OF _ m(3) v(2)] a v(1) have "queue_ok v'" "queued v' = min (queued v) l"
      "length v' = length v" by simp_all
    with a(4,6) m(5) v(1,3) show ?thesis by auto
  qed
  then have "acct_ok (Some (st\<lparr>sk_amount := sk_amount st - m, sk_locked := l\<rparr>)) q"
    using a m by (simp add: acct_ok_def)
  from accounts_ok_upd [OF assms(1) this] slashed(14) show ?thesis by simp
qed

section \<open>The contract as a machine\<close>

text \<open>
  The calls of the contract at address \<open>self\<close>, and \<open>Outside\<close>: any change of the token ledger by
  others. \<open>call_ok\<close> is what the host guarantees of a call: it runs at the contract's own address,
  which never authorizes a call from outside, and nobody else can take the contract's tokens.
\<close>

datatype 'w staking_call =
    SInit ledger_env address address address int address nat
  | SStake ledger_env address int
  | SRequest ledger_env address int
  | SWithdraw ledger_env address
  | SSlash ledger_env address int nat
  | SMinStake ledger_env int
  | SDispute ledger_env address
  | SUnbonding ledger_env nat
  | SOutside 'w

fun call_env :: "'w staking_call \<Rightarrow> ledger_env option" where
  "call_env (SInit env _ _ _ _ _ _) = Some env"
| "call_env (SStake env _ _) = Some env"
| "call_env (SRequest env _ _) = Some env"
| "call_env (SWithdraw env _) = Some env"
| "call_env (SSlash env _ _ _) = Some env"
| "call_env (SMinStake env _) = Some env"
| "call_env (SDispute env _) = Some env"
| "call_env (SUnbonding env _) = Some env"
| "call_env (SOutside _) = None"

definition with_ledger :: "'w \<Rightarrow> 's res \<Rightarrow> ('s \<times> 'w) res" where
  "with_ledger w r = bindr r (\<lambda>s. Inr (s, w))"

fun staking_dispatch :: "'w token_ops \<Rightarrow> 'w staking_call \<Rightarrow> staking_state \<times> 'w \<Rightarrow> (staking_state \<times> 'w) res" where
  "staking_dispatch T (SInit env a t tr m d u) (s, w) = with_ledger w (staking_initialize env s a t tr m d u)"
| "staking_dispatch T (SStake env a n) (s, w) = stake T env a n (s, w)"
| "staking_dispatch T (SRequest env a n) (s, w) = with_ledger w (request_unstake env a n s)"
| "staking_dispatch T (SWithdraw env a) (s, w) = withdraw_unstaked T env a (s, w)"
| "staking_dispatch T (SSlash env a n d) (s, w) = bindr (slash T env a n d (s, w)) (\<lambda>(out, s', w'). Inr (s', w'))"
| "staking_dispatch T (SMinStake env m) (s, w) = with_ledger w (set_min_stake env s m)"
| "staking_dispatch T (SDispute env d) (s, w) = with_ledger w (set_dispute_contract env s d)"
| "staking_dispatch T (SUnbonding env u) (s, w) = with_ledger w (set_unbonding_period env s u)"
| "staking_dispatch T (SOutside w') (s, w) = Inr (s, w')"

definition call_ok :: "'w token_ops \<Rightarrow> address \<Rightarrow> 'w staking_call \<Rightarrow> staking_state \<times> 'w \<Rightarrow> bool" where
  "call_ok T self c sw \<longleftrightarrow>
     (case call_env c of None \<Rightarrow> True | Some env \<Rightarrow> self_addr env = self \<and> \<not> authorized env self) \<and>
     (case c of SOutside w' \<Rightarrow> (\<forall>t. tok_balance T t self (snd sw) \<le> tok_balance T t self w') | _ \<Rightarrow> True)"

definition staking_step ::
  "'w token_ops \<Rightarrow> address \<Rightarrow> 'w staking_call \<Rightarrow> staking_state \<times> 'w \<Rightarrow> (staking_state \<times> 'w) res" where
  "staking_step T self c sw = (if call_ok T self c sw then staking_dispatch T c sw else Inl CallFailed)"

definition staking_start :: "'w token_ops \<Rightarrow> address \<Rightarrow> staking_state \<times> 'w \<Rightarrow> bool" where
  "staking_start T self sw \<longleftrightarrow>
     fst sw = staking_empty \<and> (\<forall>t. 0 \<le> tok_balance T t self (snd sw))"

definition staked :: "staking_state \<Rightarrow> int" where
  "staked s = map_sum sk_amount (ss_stakes s)"

definition solvent :: "'w token_ops \<Rightarrow> address \<Rightarrow> staking_state \<Rightarrow> 'w \<Rightarrow> bool" where
  "solvent T self s w \<longleftrightarrow>
     finite (dom (ss_stakes s)) \<and> ss_treasury s \<noteq> Some self \<and> (ss_admin s = None \<longrightarrow> ss_token s = None) \<and>
     (case ss_token s of None \<Rightarrow> ss_stakes s = Map.empty
      | Some t \<Rightarrow> staked s \<le> tok_balance T t self w)"

definition staking_inv :: "'w token_ops \<Rightarrow> address \<Rightarrow> staking_state \<times> 'w \<Rightarrow> bool" where
  "staking_inv T self sw \<longleftrightarrow> accounts_ok (fst sw) \<and> solvent T self (fst sw) (snd sw) \<and>
     (\<forall>t. 0 \<le> tok_balance T t self (snd sw))"

lemma staked_upd:
  "finite (dom (ss_stakes s)) \<Longrightarrow> ss_stakes s' = (ss_stakes s)(a \<mapsto> k) \<Longrightarrow>
   staked s' = staked s - amount_at sk_amount (ss_stakes s) a + sk_amount k"
  by (simp add: staked_def map_sum_upd)

text \<open>A change of one account's stake by what the token transfer brings or takes keeps solvency.\<close>

lemma solvent_upd:
  assumes "sep41 T" and "solvent T self s w" and "ss_token s = Some t"
    and "tok_transfer T t from to n w = Some w'"
    and "ss_stakes s' = (ss_stakes s)(a \<mapsto> k)" and "ss_token s' = ss_token s"
    and "ss_treasury s' = ss_treasury s" and "ss_admin s' = ss_admin s"
    and "sk_amount k = amount_at sk_amount (ss_stakes s) a + d" and "d \<le> moved from to n self"
  shows "solvent T self s' w'"
  using assms(2-10) sep41_transfer(3) [OF assms(1,4), of self] staked_upd [OF _ assms(5)]
  by (auto simp: solvent_def)

lemma stake_solvent:
  assumes "sep41 T" and "solvent T self s w" and "self_addr env = self" and "\<not> authorized env self"
    and "stake T env a n (s, w) = Inr (s', w')"
  shows "solvent T self s' w'"
  using assms(5)
proof (cases rule: stake_cases)
  case (1 t)
  have "a \<noteq> self" using assms(4) 1(1) by auto
  moreover have "sk_amount (stake_of s a) = amount_at sk_amount (ss_stakes s) a"
    by (simp add: stake_of_def amount_at_def split: option.split)
  ultimately show ?thesis
    using 1(6) assms(3) by (intro solvent_upd [OF assms(1,2) 1(3,4), where d = n]) (simp, simp_all add: moved_def)
qed

lemma withdraw_solvent:
  assumes "sep41 T" and "solvent T self s w" and "self_addr env = self" and "\<not> authorized env self"
    and "withdraw_unstaked T env a (s, w) = Inr (s', w')"
  shows "solvent T self s' w'"
  using assms(5)
proof (cases rule: withdraw_cases)
  case (1 v st t n)
  show ?thesis
    using 1(3,5,10) assms(3)
    by (intro solvent_upd [OF assms(1,2) 1(8,9), where d = "- n"]) (simp, simp_all add: moved_def amount_at_def)
qed

lemma slash_solvent:
  assumes "sep41 T" and "accounts_ok s" and "solvent T self s w" and "self_addr env = self"
    and "slash T env a n d (s, w) = Inr (out, s', w')"
  shows "solvent T self s' w'"
  using assms(5)
proof (cases rule: slash_cases)
  case no_slash
  with assms(3) show ?thesis by simp
next
  case (slashed st t tr m l q)
  have "0 \<le> sk_amount st"
    using accounts_okD [OF assms(2), of a] slashed(2) by (simp add: acct_ok_def)
  then have "0 \<le> m" using slashed(3,7) by simp
  with slashed(2,14) assms(4) show ?thesis
    by (intro solvent_upd [OF assms(1,3) slashed(10,12), where d = "- m"])
      (simp, simp_all add: moved_def amount_at_def)
qed

lemma request_solvent:
  assumes "solvent T self s w" and "request_unstake env a n s = Inr s'"
  shows "solvent T self s' w"
  using assms(2)
proof (cases rule: request_cases)
  case (1 st u q)
  have "staked s' = staked s" if "finite (dom (ss_stakes s))"
    using staked_upd [OF that, of s' a "st\<lparr>sk_locked := sk_locked st + n\<rparr>"] 1(3,9)
    by (simp add: amount_at_def)
  with assms(1) 1(3,9) show ?thesis by (auto simp: solvent_def split: option.splits)
qed

lemma initialize_solvent:
  assumes "solvent T self s w" and "self_addr env = self" and "\<forall>t. 0 \<le> tok_balance T t self w"
    and "staking_initialize env s a t tr m d u = Inr s'"
  shows "solvent T self s' w"
  using assms
  by (auto simp: staking_initialize_def solvent_def staked_def split: if_splits)

text \<open>A balance is never negative, which the machine's states carry along.\<close>

lemma transfer_balance_nonneg:
  assumes "sep41 T" and "tok_transfer T t from to n w = Some w'" and "\<forall>t. 0 \<le> tok_balance T t self w"
  shows "\<forall>t. 0 \<le> tok_balance T t self w'"
proof
  fix t'
  show "0 \<le> tok_balance T t' self w'"
    using sep41_transfer [OF assms(1,2)] assms(3)
    by (cases "t' = t"; cases "self = from"; cases "self = to") (simp_all add: moved_def)
qed

lemma config_accounts:
  "set_min_stake env s m = Inr s' \<Longrightarrow> accounts_ok s' = accounts_ok s \<and> solvent T self s' w = solvent T self s w"
  "set_dispute_contract env s c = Inr s' \<Longrightarrow> accounts_ok s' = accounts_ok s \<and> solvent T self s' w = solvent T self s w"
  "set_unbonding_period env s u = Inr s' \<Longrightarrow> accounts_ok s' = accounts_ok s \<and> solvent T self s' w = solvent T self s w"
  by (auto simp: set_min_stake_def set_dispute_contract_def set_unbonding_period_def accounts_ok_def
      solvent_def staked_def cong: option.case_cong)

lemma initialize_accounts: "staking_initialize env s a t tr m d u = Inr s' \<Longrightarrow> accounts_ok s' = accounts_ok s"
  by (auto simp: staking_initialize_def accounts_ok_def split: if_splits)

lemma with_ledger_Inr [simp]: "with_ledger w r = Inr sw' \<longleftrightarrow> (\<exists>s'. r = Inr s' \<and> sw' = (s', w))"
  by (auto simp: with_ledger_def)

lemma moves_balance:
  "stake T env a n (s, w) = Inr (s', w') \<Longrightarrow> \<exists>t from to m. tok_transfer T t from to m w = Some w'"
  "withdraw_unstaked T env a (s, w) = Inr (s', w') \<Longrightarrow> \<exists>t from to m. tok_transfer T t from to m w = Some w'"
  "slash T env a n d (s, w) = Inr (out, s', w') \<Longrightarrow> w' = w \<or> (\<exists>t from to m. tok_transfer T t from to m w = Some w')"
  by (blast elim: stake_cases withdraw_cases slash_cases)+

lemma staking_step_accounts:
  assumes acc: "accounts_ok (fst sw)" and step: "staking_step T self c sw = Inr sw'"
  shows "accounts_ok (fst sw')"
proof -
  obtain s w where sw: "sw = (s, w)" by (cases sw)
  obtain s' w' where sw': "sw' = (s', w')" by (cases sw')
  have d: "staking_dispatch T c (s, w) = Inr (s', w')"
    using step by (simp add: staking_step_def sw sw' split: if_splits)
  have acc: "accounts_ok s" using acc by (simp add: sw)
  have "accounts_ok s'"
    using d acc
    by (cases c)
      (auto simp: initialize_accounts config_accounts
        intro: stake_accounts request_accounts withdraw_accounts slash_accounts)
  then show ?thesis by (simp add: sw')
qed

lemma staking_step_inv:
  assumes T: "sep41 T" and inv: "staking_inv T self sw" and step: "staking_step T self c sw = Inr sw'"
  shows "staking_inv T self sw'"
proof -
  obtain s w where sw: "sw = (s, w)" by (cases sw)
  obtain s' w' where sw': "sw' = (s', w')" by (cases sw')
  have acc: "accounts_ok s" and sol: "solvent T self s w" and pos: "\<forall>t. 0 \<le> tok_balance T t self w"
    using inv by (simp_all add: staking_inv_def sw)
  have ok: "call_ok T self c sw" and d: "staking_dispatch T c (s, w) = Inr (s', w')"
    using step by (simp_all add: staking_step_def sw sw' split: if_splits)
  note env = ok [unfolded call_ok_def, THEN conjunct1]
  have "accounts_ok s' \<and> solvent T self s' w' \<and> (\<forall>t. 0 \<le> tok_balance T t self w')"
  proof (cases c)
    case (SInit e a t tr m dc u)
    with d env acc sol pos show ?thesis
      by (auto simp: initialize_accounts intro: initialize_solvent)
  next
    case (SStake e a n)
    with d env have st: "stake T e a n (s, w) = Inr (s', w')" "self_addr e = self" "\<not> authorized e self"
      by auto
    with moves_balance(1) [OF st(1)] show ?thesis
      using stake_accounts [OF acc st(1)] stake_solvent [OF T sol st(2,3,1)] transfer_balance_nonneg [OF T _ pos]
      by blast
  next
    case (SRequest e a n)
    with d acc sol pos show ?thesis by (auto intro: request_accounts request_solvent)
  next
    case (SWithdraw e a)
    with d env have st: "withdraw_unstaked T e a (s, w) = Inr (s', w')" "self_addr e = self" "\<not> authorized e self"
      by auto
    with moves_balance(2) [OF st(1)] show ?thesis
      using withdraw_accounts [OF acc st(1)] withdraw_solvent [OF T sol st(2,3,1)] transfer_balance_nonneg [OF T _ pos]
      by blast
  next
    case (SSlash e a n i)
    with d env obtain out where st: "slash T e a n i (s, w) = Inr (out, s', w')" "self_addr e = self"
      by auto
    with moves_balance(3) [OF st(1)] show ?thesis
      using slash_accounts [OF acc st(1)] slash_solvent [OF T acc sol st(2,1)] transfer_balance_nonneg [OF T _ pos] pos
      by blast
  next
    case (SOutside v)
    with d ok have "s' = s" "w' = v" and le: "\<forall>t. tok_balance T t self w \<le> tok_balance T t self v"
      by (simp_all add: call_ok_def sw)
    with acc sol pos show ?thesis
      by (auto simp: solvent_def intro: order.trans split: option.splits)
  qed (use d acc sol pos in \<open>auto dest: config_accounts\<close>)
  then show ?thesis by (simp add: staking_inv_def sw')
qed

lemma staking_start_inv: "staking_start T self sw \<Longrightarrow> staking_inv T self sw"
  by (auto simp: staking_start_def staking_inv_def solvent_def accounts_ok_def acct_ok_def staking_empty_def)

text \<open>The invariant of the machine, once the token keeps SEP-41.\<close>

definition staking_inv_if :: "'w token_ops \<Rightarrow> address \<Rightarrow> staking_state \<times> 'w \<Rightarrow> bool" where
  "staking_inv_if T self sw \<longleftrightarrow> (sep41 T \<longrightarrow> staking_inv T self sw)"

interpretation stk: invariant_machine "staking_start T self" "staking_step T self" "staking_inv_if T self"
  for T self
  by unfold_locales (auto simp: staking_inv_if_def intro: staking_start_inv staking_step_inv)

section \<open>Jammed queues\<close>

text \<open>
  Ten entries of amount zero: no request fits, and no withdrawal finds a positive amount. Nothing
  the contract does changes such a queue.
\<close>

definition jammed :: "staking_state \<Rightarrow> address \<Rightarrow> bool" where
  "jammed s a \<longleftrightarrow>
     (\<exists>v. ss_pending s a = Some v \<and> length v = 10 \<and> (\<forall>p\<in>set v. pu_amount p = 0))"

definition stuck :: "address \<Rightarrow> staking_state \<times> 'w \<Rightarrow> bool" where
  "stuck a sw \<longleftrightarrow> accounts_ok (fst sw) \<and> jammed (fst sw) a"

lemma queued_zero: "(\<forall>p\<in>set v. pu_amount p = 0) \<Longrightarrow> queued v = 0"
  by (induction v) auto

lemma jammed_frame: "ss_pending s' a = ss_pending s a \<Longrightarrow> jammed s a \<Longrightarrow> jammed s' a"
  by (simp add: jammed_def)

lemma jammed_request: "jammed s a \<Longrightarrow> request_unstake env a n s \<noteq> Inr s'"
  by (auto simp: jammed_def elim!: request_cases)

lemma jammed_withdraw: "jammed s a \<Longrightarrow> withdraw_unstaked T env a (s, w) \<noteq> Inr (s', w')"
proof
  assume j: "jammed s a" and "withdraw_unstaked T env a (s, w) = Inr (s', w')"
  from this(2) show False
  proof (cases rule: withdraw_cases)
    case (1 v st t n)
    with j have "\<forall>p\<in>set v. pu_amount p = 0" by (auto simp: jammed_def)
    then have "n = 0" unfolding 1(4) by (intro queued_zero) auto
    with 1(5) show False by simp
  qed
qed

lemma jammed_slash:
  assumes "accounts_ok s" and "jammed s a" and "slash T env b n d (s, w) = Inr (out, s', w')"
  shows "jammed s' a"
  using assms(3)
proof (cases rule: slash_cases)
  case no_slash
  with assms(2) show ?thesis by simp
next
  case (slashed st t tr m l q)
  show ?thesis
  proof (cases "b = a")
    case True
    obtain v where v: "ss_pending s a = Some v" "length v = 10" "\<forall>p\<in>set v. pu_amount p = 0"
      using assms(2) by (auto simp: jammed_def)
    have a: "0 \<le> sk_locked st" "sk_locked st \<le> sk_amount st" "queue_ok v"
      using accounts_okD [OF assms(1), of a] v(1) slashed(2) True by (simp_all add: acct_ok_def)
    then have "0 \<le> l" using slashed(7,9) by simp
    then have "slash_pending l v = Inr v"
      using slash_pending_result [OF a(3), of l] queued_zero [OF v(3)]
      by (cases "rev v") (auto simp: i128_max_def)
    with slashed(13,14) v True show ?thesis by (auto simp: jammed_def)
  next
    case False
    with slashed(14) assms(2) show ?thesis by (auto intro: jammed_frame)
  qed
qed

lemma stuck_step: "stuck a sw \<Longrightarrow> staking_step T self c sw = Inr sw' \<Longrightarrow> stuck a sw'"
proof -
  assume stk: "stuck a sw" and step: "staking_step T self c sw = Inr sw'"
  obtain s w where sw: "sw = (s, w)" by (cases sw)
  obtain s' w' where sw': "sw' = (s', w')" by (cases sw')
  have d: "staking_dispatch T c (s, w) = Inr (s', w')"
    using step by (simp add: staking_step_def sw sw' split: if_splits)
  have acc: "accounts_ok s" and j: "jammed s a" using stk by (simp_all add: stuck_def sw)
  have "jammed s' a"
  proof (cases c)
    case (SStake e b n)
    with d j show ?thesis by (auto elim!: stake_cases intro: jammed_frame)
  next
    case (SRequest e b n)
    with d jammed_request [OF j] have r: "request_unstake e b n s = Inr s'" and "b \<noteq> a" by auto
    then have "ss_pending s' a = ss_pending s a" by (auto elim!: request_cases)
    then show ?thesis using j by (rule jammed_frame)
  next
    case (SWithdraw e b)
    with d jammed_withdraw [OF j, of T] have r: "withdraw_unstaked T e b (s, w) = Inr (s', w')" and "b \<noteq> a" by auto
    then have "ss_pending s' a = ss_pending s a" by (auto elim!: withdraw_cases)
    then show ?thesis using j by (rule jammed_frame)
  next
    case (SSlash e b n i)
    with d jammed_slash [OF acc j] show ?thesis by auto
  qed (use d j in \<open>auto simp: staking_initialize_def set_min_stake_def set_dispute_contract_def
      set_unbonding_period_def jammed_def split: if_splits\<close>)
  with staking_step_accounts [of sw T self c sw'] acc step show ?thesis
    by (simp add: stuck_def sw sw')
qed

interpretation jam: invariant_machine "stuck a" "staking_step T self" "stuck a" for a T self
  by unfold_locales (auto intro: stuck_step)

section \<open>Properties\<close>

text \<open>
  C3. The stakes are backed. In every state that any history of calls reaches from deployment (with
  a token that keeps SEP-41, and other token traffic in between), the contract holds at least the
  sum of all recorded stakes, and every account is in order: \<open>0 \<le> locked \<le> amount\<close>, the locked part
  is exactly the sum of the pending queue, and the queue is ordered by unlock time, has at most ten
  entries and is never stored empty.
\<close>

theorem stakes_backed:
  assumes "sep41 T" and "reachable (staking_start T self) (staking_step T self) (s, w)"
  shows "accounts_ok s \<and> (\<forall>t. ss_token s = Some t \<longrightarrow> staked s \<le> tok_balance T t self w)"
  using stk.reachable_inv [OF assms(2)] assms(1)
  by (auto simp: staking_inv_if_def staking_inv_def solvent_def)

text \<open>
  What \<open>withdraw_unstaked\<close> does on every branch, for an account in order. It pays exactly the
  entries whose unlock time has come, keeps the others in their order and removes the key when
  none is left; it fails when there is no queue, when nothing is due, or when the token refuses.
  The two "invariant violated" assertions and the arithmetic never fail.
\<close>

theorem withdraw_unstaked_exact:
  assumes "accounts_ok s" and "authorized env a" and "ss_token s = Some t"
  shows "withdraw_unstaked T env a (s, w) =
    (case ss_pending s a of
       None \<Rightarrow> Inl (Panic ''no pending unstake'')
     | Some v \<Rightarrow>
         (let st = stake_of s a;
              due = queued (filter (\<lambda>p. pu_unlock p \<le> timestamp env) v);
              rest = filter (\<lambda>p. timestamp env < pu_unlock p) v in
          if due = 0 then Inl (Panic ''no unstake unlocked'')
          else bindr (transferr T t (self_addr env) a due w) (\<lambda>w'.
            Inr (s\<lparr>ss_stakes := (ss_stakes s)(a \<mapsto>
                      st\<lparr>sk_amount := sk_amount st - due, sk_locked := sk_locked st - due\<rparr>),
                   ss_pending := (ss_pending s)(a := (if rest = [] then None else Some rest))\<rparr>, w'))))"
proof (cases "ss_pending s a")
  case None
  then show ?thesis using assms(2) by (simp add: withdraw_unstaked_def require_auth_def)
next
  case (Some v)
  define due rest where due_def: "due = queued (filter (\<lambda>p. pu_unlock p \<le> timestamp env) v)"
    and rest_def: "rest = filter (\<lambda>p. timestamp env < pu_unlock p) v"
  obtain st where st: "ss_stakes s a = Some st" "queued v = sk_locked st" "queue_ok v"
    "sk_locked st \<le> sk_amount st" "sk_amount st \<le> i128_max"
    using accounts_okD [OF assms(1), of a] Some by (auto simp: acct_ok_def split: option.splits)
  have nn: "\<forall>p\<in>set v. 0 \<le> pu_amount p" using st(3) by (simp add: queue_ok_def)
  have split: "split_unlocked (timestamp env) 0 [] v = Inr (due, rest)"
    using split_unlocked_total [OF nn, of 0] st by (simp add: due_def rest_def)
  have due: "0 \<le> due" "due \<le> sk_locked st"
    using queued_partition [of "\<lambda>p. pu_unlock p \<le> timestamp env" v] st(2) nn
      queued_nonneg [of "filter (\<lambda>p. \<not> pu_unlock p \<le> timestamp env) v"]
    by (auto simp: due_def intro!: queued_nonneg)
  then have chk: "i128_chk (sk_amount st - due) = Inr (sk_amount st - due)"
    "i128_chk (sk_locked st - due) = Inr (sk_locked st - due)"
    using st by (simp_all add: i128_nonneg)
  have stake: "stake_of s a = st" using st(1) by (simp add: stake_of_def)
  have auth: "require_auth env a = Inr ()" using assms(2) by simp
  show ?thesis
    unfolding Some option.case Let_def due_def [symmetric] rest_def [symmetric] stake
  proof (cases "due = 0")
    case True
    then show "withdraw_unstaked T env a (s, w) = (if due = 0 then Inl (Panic ''no unstake unlocked'')
          else bindr (transferr T t (self_addr env) a due w) (\<lambda>w'.
            Inr (s\<lparr>ss_stakes := (ss_stakes s)(a \<mapsto>
                      st\<lparr>sk_amount := sk_amount st - due, sk_locked := sk_locked st - due\<rparr>),
                   ss_pending := (ss_pending s)(a := (if rest = [] then None else Some rest))\<rparr>, w')))"
      using auth Some split by (simp add: withdraw_unstaked_def)
  next
    case False
    then have "0 < due" using due(1) by simp
    then show "withdraw_unstaked T env a (s, w) = (if due = 0 then Inl (Panic ''no unstake unlocked'')
          else bindr (transferr T t (self_addr env) a due w) (\<lambda>w'.
            Inr (s\<lparr>ss_stakes := (ss_stakes s)(a \<mapsto>
                      st\<lparr>sk_amount := sk_amount st - due, sk_locked := sk_locked st - due\<rparr>),
                   ss_pending := (ss_pending s)(a := (if rest = [] then None else Some rest))\<rparr>, w')))"
      using auth assms(3) Some split st(1,4) due chk
      by (cases "rest = []") (simp_all add: withdraw_unstaked_def Let_def)
  qed
qed

text \<open>
  The slash loop takes the cut from the newest requests first. On a queue in order, cutting the
  locked amount to \<open>l\<close> never panics and gives the reference \<open>trim\<close> on the reversed queue; the
  entries then sum to the smaller of the old total and \<open>l\<close>, with unlock times and length unchanged.
\<close>

theorem slash_pending_lifo:
  assumes "queue_ok v" and "queued v \<le> i128_max" and "0 \<le> l"
  shows "\<exists>v'. slash_pending l v = Inr v' \<and> v' = rev (trim (max 0 (queued v - l)) (rev v)) \<and>
    queued v' = min (queued v) l \<and> map pu_unlock v' = map pu_unlock v"
  using slash_pending_result [OF assms] slash_pending_ok(2) [OF assms(1,3) _ assms(2)]
  by (auto simp: rev_map [symmetric])

text \<open>
  A dispute slashes once: after a call of \<open>slash\<close> that slashed, no history of calls leads to a
  state in which \<open>slash\<close> with the same dispute id succeeds, for whatever attestor and amount.
\<close>

theorem slash_once_per_dispute:
  assumes "slash T env a n d (s, w) = Inr (Slashed, s', w')"
  shows "\<exists>e. slash T env' a' n' d (run (staking_step T self) cs (s', w')) = Inl e"
proof -
  have mono: "ss_slashed (fst sw) \<subseteq> ss_slashed (fst sw')"
    if step: "staking_step T self c sw = Inr sw'" for c and sw sw' :: "staking_state \<times> 'a"
  proof -
    obtain s w s' w' where sw: "sw = (s, w)" "sw' = (s', w')" by (metis surj_pair)
    with step have "staking_dispatch T c (s, w) = Inr (s', w')"
      by (simp add: staking_step_def split: if_splits)
    then show ?thesis
      by (cases c) (auto simp: sw staking_initialize_def set_min_stake_def set_dispute_contract_def
          set_unbonding_period_def split: if_splits
          elim!: stake_cases request_cases withdraw_cases slash_cases)
  qed
  have "ss_slashed (fst (s', w')) \<subseteq> ss_slashed (fst (run (staking_step T self) cs (s', w')))"
    by (rule run_rel_any) (auto dest: mono)
  moreover have "d \<in> ss_slashed s'" using assms by (auto elim: slash_cases)
  ultimately have "d \<in> ss_slashed (fst (run (staking_step T self) cs (s', w')))" by auto
  then show ?thesis
    by (cases "run (staking_step T self) cs (s', w')"; cases "slash T env' a' n' d (run (staking_step T self) cs (s', w'))")
      (auto elim!: slash_cases)
qed

text \<open>
  A full slash can lock an account for good. If an attestor with ten pending requests is slashed
  by at least its whole stake, the ten entries stay in the queue with amount zero, and from then on,
  whatever happens (new stakes included), every \<open>request_unstake\<close> fails (the queue is full) and every
  \<open>withdraw_unstaked\<close> fails (nothing positive is due): tokens staked later can never be taken out.
\<close>

theorem full_slash_jams_queue:
  assumes "accounts_ok s" and "ss_pending s a = Some v" and "length v = 10"
    and "slash T env a n d (s, w) = Inr (Slashed, s', w')" and "sk_amount (stake_of s a) \<le> n"
  shows "(\<exists>e. request_unstake env' a m (fst (run (staking_step T self) cs (s', w'))) = Inl e) \<and>
    (\<exists>e. withdraw_unstaked T env' a (run (staking_step T self) cs (s', w')) = Inl e)"
proof -
  have acc: "accounts_ok s'" using assms(1,4) by (rule slash_accounts)
  have "jammed s' a"
    using assms(4)
  proof (cases rule: slash_cases)
    case (slashed st t tr m' l q)
    have a: "queue_ok v" "0 \<le> sk_locked st" "queued v = sk_locked st" "sk_locked st \<le> sk_amount st"
      "sk_amount st \<le> i128_max"
      using accounts_okD [OF assms(1), of a] assms(2) slashed(2) by (simp_all add: acct_ok_def)
    have "l = 0" using a(2,4) slashed(2,3,7,9) assms(5) by (simp add: stake_of_def)
    with slashed(13) assms(2) obtain v' where v': "slash_pending 0 v = Inr v'" "q = Some v'" by auto
    have "queue_ok v'" "queued v' = 0" "length v' = 10"
      using slash_pending_ok [OF a(1) _ v'(1)] a(2,3,4,5) assms(3) by simp_all
    moreover from this have "\<forall>p\<in>set v'. pu_amount p = 0"
      using amounts_le_queued [of v'] by (fastforce simp: queue_ok_def)
    ultimately show ?thesis using v'(2) slashed(14) by (simp add: jammed_def)
  qed simp
  with acc have "stuck a (run (staking_step T self) cs (s', w'))"
    by (intro jam.run_inv) (simp add: stuck_def)
  then have j: "jammed (fst (run (staking_step T self) cs (s', w'))) a" by (simp add: stuck_def)
  then show ?thesis
    using jammed_request [OF j, of env' m]
      jammed_withdraw [OF j, of T env' "snd (run (staking_step T self) cs (s', w'))"]
    by (metis old.sum.exhaust prod.collapse)
qed

text \<open>
  The reputation of an attestor is its unlocked stake modulo \<open>2^64\<close>: the cast to \<open>u64\<close> wraps,
  where the comment in the code says that the score is capped at \<open>u64::MAX\<close>.
\<close>

theorem get_reputation_wraps:
  assumes "accounts_ok s"
  shows "get_reputation s a =
    nat ((sk_amount (stake_of s a) - sk_locked (stake_of s a)) mod 2 ^ 64)"
proof (cases "ss_stakes s a")
  case None
  then show ?thesis by (simp add: get_reputation_def get_stake_def stake_of_def)
next
  case (Some st)
  have "0 \<le> sk_locked st" "sk_locked st \<le> sk_amount st" "sk_amount st \<le> i128_max"
    using accounts_okD [OF assms, of a] Some by (simp_all add: acct_ok_def)
  then have "i128_sat (sk_amount st - sk_locked st) = sk_amount st - sk_locked st"
    and "min (sk_amount st - sk_locked st) i128_max = sk_amount st - sk_locked st"
    and "0 \<le> sk_amount st - sk_locked st"
    by (simp_all add: i128_sat_def i128_min_def)
  with Some show ?thesis
    by (auto simp: get_reputation_def get_stake_def stake_of_def Let_def)
qed

section \<open>Witnesses\<close>

lemma stakes_backed_witness:
  "accounts_ok (fst (run (staking_step ref_token ''CONTRACT'')
     [SInit (ext_env 0 0) ''ADMIN'' ''TOK'' ''TREASURY'' 5 ''DISPUTE'' 100,
      SStake (ext_env 1 1) ''ALICE'' 40, SRequest (ext_env 2 2) ''ALICE'' 10,
      SSlash (ext_env 3 3) ''ALICE'' 35 1, SWithdraw (ext_env 200 4) ''ALICE'']
     (staking_empty, \<lambda>t a. if a = ''ALICE'' then 100 else 0)))"
  (is "accounts_ok (fst (run ?step ?cs ?sw))")
proof -
  have "staking_start ref_token ''CONTRACT'' ?sw"
    by (simp add: staking_start_def ref_token_def)
  then have "reachable (staking_start ref_token ''CONTRACT'') ?step (fst (run ?step ?cs ?sw), snd (run ?step ?cs ?sw))"
    by (simp only: prod.collapse reachable_run reachable_start)
  from stakes_backed [OF ref_token_sep41 this] show ?thesis by (rule conjunct1)
qed

definition staking_alice :: staking_state where
  "staking_alice = staking_empty\<lparr>ss_admin := Some ''ADMIN'', ss_token := Some ''TOK'',
     ss_treasury := Some ''TREASURY'', ss_min_stake := Some 5, ss_dispute := Some ''DISPUTE'',
     ss_stakes := [''ALICE'' \<mapsto> \<lparr>sk_attestor = ''ALICE'', sk_amount = 40, sk_locked = 10\<rparr>],
     ss_pending := [''ALICE'' \<mapsto> map (\<lambda>i. \<lparr>pu_amount = 1, pu_unlock = i\<rparr>) [0..<10]]\<rparr>"

lemma staking_alice_ok: "accounts_ok staking_alice"
  by (auto simp: accounts_ok_def acct_ok_def staking_alice_def staking_empty_def queue_ok_def
      queued_def i128_max_def upt_rec)

lemma withdraw_unstaked_exact_witness:
  "\<exists>s' w'. withdraw_unstaked ref_token (ext_env 3 9) ''ALICE'' (staking_alice, \<lambda>t a. 50) = Inr (s', w') \<and>
     map pu_unlock (the (ss_pending s' ''ALICE'')) = [4, 5, 6, 7, 8, 9]"
  using withdraw_unstaked_exact [OF staking_alice_ok, of "ext_env 3 9" "''ALICE''" "''TOK''" ref_token "\<lambda>t a. 50"]
  by (simp add: staking_alice_def stake_of_def upt_rec transferr_def ref_token_def)

lemma slash_pending_lifo_witness:
  "\<exists>v'. slash_pending 3 [\<lparr>pu_amount = 2, pu_unlock = 1\<rparr>, \<lparr>pu_amount = 4, pu_unlock = 7\<rparr>] = Inr v' \<and>
     v' = [\<lparr>pu_amount = 2, pu_unlock = 1\<rparr>, \<lparr>pu_amount = 1, pu_unlock = 7\<rparr>]"
  using slash_pending_lifo [of "[\<lparr>pu_amount = 2, pu_unlock = 1\<rparr>, \<lparr>pu_amount = 4, pu_unlock = 7\<rparr>]" 3]
  by (simp add: queue_ok_def i128_max_def)

lemma slash_alice:
  "\<exists>s' w'. slash ref_token (ext_env 5 9) ''ALICE'' 40 1 (staking_alice, \<lambda>t a. 50) = Inr (Slashed, s', w')"
proof -
  let ?v = "map (\<lambda>i. \<lparr>pu_amount = 1, pu_unlock = i\<rparr>) [0..<10]"
  obtain v' where "slash_pending 0 ?v = Inr v'"
    using slash_pending_result [of ?v 0] by (auto simp: queue_ok_def queued_def i128_max_def upt_rec)
  then show ?thesis
    by (simp add: slash_def staking_alice_def staking_empty_def transferr_def ref_token_def in_i128_def
        i128_min_def i128_max_def)
qed

lemma slash_once_per_dispute_witness:
  "\<exists>s' w'. slash ref_token (ext_env 5 9) ''ALICE'' 40 1 (staking_alice, \<lambda>t a. 50) = Inr (Slashed, s', w') \<and>
     (\<exists>e. slash ref_token (ext_env 6 9) ''ALICE'' 2 1 (s', w') = Inl e)"
proof -
  obtain s' w' where s: "slash ref_token (ext_env 5 9) ''ALICE'' 40 1 (staking_alice, \<lambda>t a. 50) = Inr (Slashed, s', w')"
    using slash_alice by blast
  with slash_once_per_dispute [OF s, of "ext_env 6 9" "''ALICE''" 2 "''CONTRACT''" "[]"]
  show ?thesis by auto
qed

lemma full_slash_jams_queue_witness:
  "\<exists>s' w'. slash ref_token (ext_env 5 9) ''ALICE'' 40 1 (staking_alice, \<lambda>t a. 50) = Inr (Slashed, s', w') \<and>
     (\<exists>e. withdraw_unstaked ref_token (ext_env 999 9) ''ALICE''
        (run (staking_step ref_token ''CONTRACT'') [SStake (ext_env 20 20) ''ALICE'' 30] (s', w')) = Inl e)"
proof -
  obtain s' w' where s: "slash ref_token (ext_env 5 9) ''ALICE'' 40 1 (staking_alice, \<lambda>t a. 50) = Inr (Slashed, s', w')"
    using slash_alice by blast
  have "ss_pending staking_alice ''ALICE'' = Some (map (\<lambda>i. \<lparr>pu_amount = 1, pu_unlock = i\<rparr>) [0..<10])"
    "sk_amount (stake_of staking_alice ''ALICE'') \<le> 40"
    by (simp_all add: staking_alice_def stake_of_def)
  from full_slash_jams_queue [OF staking_alice_ok this(1) _ s this(2), THEN conjunct2] s
  show ?thesis by (intro exI [of _ s'] exI [of _ w'] conjI) (assumption, simp only: length_map length_upt diff_zero)
qed

lemma get_reputation_wraps_witness:
  "get_reputation (staking_empty\<lparr>ss_stakes := [''ALICE'' \<mapsto>
      \<lparr>sk_attestor = ''ALICE'', sk_amount = 2 ^ 64, sk_locked = 0\<rparr>]\<rparr>) ''ALICE'' = 0"
proof -
  let ?s = "staking_empty\<lparr>ss_stakes := [''ALICE'' \<mapsto>
      \<lparr>sk_attestor = ''ALICE'', sk_amount = 2 ^ 64, sk_locked = 0\<rparr>]\<rparr>"
  have "accounts_ok ?s"
    by (auto simp: accounts_ok_def acct_ok_def staking_empty_def i128_max_def)
  from get_reputation_wraps [OF this, of "''ALICE''"] show ?thesis by (simp add: stake_of_def)
qed

end
