(* ===== verification/Staking_Link.thy ===== *)
theory Staking_Link
  imports Attestation_Contract Attestor_Staking
begin

text \<open>
  The attestation contract wired to the staking contract of this repository: the staking calls of
  \<open>lib.rs\<close> are no parameter here but run the staking model, as one transaction over both storages. A
  contract that calls another is authorized for that call, and nobody else is.
\<close>

definition staking_env :: "address \<Rightarrow> ledger_env \<Rightarrow> ledger_env" where
  "staking_env st env = env\<lparr>authorized := (\<lambda>a. a = self_addr env), self_addr := st\<rparr>"

definition link :: "'l token_ops \<Rightarrow> address \<Rightarrow> ledger_env \<Rightarrow> (staking_state \<times> 'l) att_ext \<Rightarrow> (staking_state \<times> 'l) att_ext" where
  "link T st env X = X\<lparr>
     ex_is_eligible := (\<lambda>c a w. if c = st then is_eligible (fst w) a else ex_is_eligible X c a w),
     ex_slash := (\<lambda>c a n i w. if c = st then bindr (slash T (staking_env st env) a n i w) (\<lambda>(_, w'). Inr w')
                             else ex_slash X c a n i w)\<rparr>"

text \<open>
  C12. What an upheld dispute costs. Resolving an open dispute as upheld, with the repository's own
  staking contract in place, succeeds only if the attestor of the dispute has a stake record there and
  the dispute id was not used for a slash. It takes 1000 units or the whole stake, whichever is less, from
  that stake, moves exactly that amount from the staking contract to the treasury, marks the id so that it
  never slashes again, and records the outcome; no other stake changes. So a dispute about an
  attestation that the business submitted itself, whose attestor is the business, cannot be upheld by an
  administrator unless the business happens to have a stake.
\<close>

theorem upheld_dispute_slashes:
  assumes "sep41 T" and "at_staking s = Some st"
    and "ds_disputes (at_dispute s) i = Some d" "di_id d = i"
    and "resolve_dispute_entry env (link T st env X) i admin Upheld nts (s, (ss, l)) = Inr (s', (ss', l'))"
  shows "\<exists>k m t tr. ss_stakes ss (di_attestor d) = Some k \<and> i \<notin> ss_slashed ss \<and> m = min 1000 (sk_amount k) \<and>
    (m \<noteq> 0 \<longrightarrow> ss_stakes ss' = (ss_stakes ss)(di_attestor d \<mapsto> k\<lparr>sk_amount := sk_amount k - m,
        sk_locked := min (sk_locked k) (sk_amount k - m)\<rparr>) \<and> i \<in> ss_slashed ss' \<and>
      ss_token ss = Some t \<and> ss_treasury ss = Some tr \<and>
      (\<forall>a. tok_balance T t a l' = tok_balance T t a l + moved st tr m a)) \<and>
    (m = 0 \<longrightarrow> ss' = ss \<and> l' = l) \<and>
    (\<exists>r. get_dispute (at_dispute s') i = Some (d\<lparr>di_status := DResolved, di_resolution := Some r\<rparr>) \<and> re_outcome r = Upheld) \<and>
    di_status d = DOpen \<and> authorized env admin \<and> has_role (at_access s) admin ROLE_ADMIN"
proof -
  let ?f = "\<lambda>attestor amount i w. bindr (try_trigger_slash (link T st env X) s attestor amount i w) (\<lambda>(_, w1). Inr w1)"
  obtain d1 where r: "resolve_dispute env (at_access s) ?f i admin Upheld nts (at_dispute s, (ss, l)) = Inr (d1, (ss', l'))"
    and s': "s' = s\<lparr>at_dispute := d1\<rparr>"
    using assms(5) by (auto simp: resolve_dispute_entry_def)
  from r obtain e rs where e: "authorized env admin" "has_role (at_access s) admin ROLE_ADMIN"
    "ds_disputes (at_dispute s) i = Some e" "di_status e = DOpen" "re_outcome rs = Upheld"
    "d1 = release (conclude (at_dispute s) i e DResolved rs) (case_key e)" "?f (di_attestor e) 1000 i (ss, l) = Inr (ss', l')"
    by (rule resolve_cases) simp
  have [simp]: "e = d" using e(3) assms(3) by simp
  have g: "get_dispute (at_dispute s') i = Some (d\<lparr>di_status := DResolved, di_resolution := Some rs\<rparr>)"
    using assms(4) by (simp add: s' e(6) get_dispute_def)
  obtain out where sl: "slash T (staking_env st env) (di_attestor d) 1000 i (ss, l) = Inr (out, ss', l')"
    using e(7) assms(2) by (auto simp: try_trigger_slash_def link_def)
  from sl show ?thesis
  proof (cases rule: slash_cases)
    case (no_slash k dc)
    with g e(1,2,4,5) show ?thesis by auto
  next
    case (slashed k t tr m q x dc)
    have "tok_balance T t a l' = tok_balance T t a l + moved st tr m a" for a
      using sep41_transfer(3) [OF assms(1) slashed(12)] by (simp add: staking_env_def)
    note bal = this
    have upd: "ss_stakes ss' = (ss_stakes ss)(di_attestor d \<mapsto> k\<lparr>sk_amount := sk_amount k - m,
        sk_locked := min (sk_locked k) (sk_amount k - m)\<rparr>)" "i \<in> ss_slashed ss'"
      by (simp_all add: slashed(9,14))
    have "\<exists>r. get_dispute (at_dispute s') i = Some (d\<lparr>di_status := DResolved, di_resolution := Some r\<rparr>) \<and> re_outcome r = Upheld"
      using g e(5) by blast
    then show ?thesis
      using slashed(2,4,7,8,10,11) upd bal e(1,2,4)
      by (intro exI [of _ k] exI [of _ m] exI [of _ t] exI [of _ tr]) simp
  qed
qed

definition link_att :: att_state where
  "link_att = att_empty\<lparr>at_staking := Some ''STAKING'', at_access := access_empty\<lparr>ac_roles := [''ADMIN'' \<mapsto> ROLE_ADMIN]\<rparr>,
     at_dispute := disputes_one\<lparr>ds_disputes := [1 \<mapsto> dispute_one\<lparr>di_attestor := ''ATT''\<rparr>]\<rparr>\<rparr>"

definition link_stakes :: staking_state where
  "link_stakes = staking_empty\<lparr>ss_token := Some ''TOK'', ss_treasury := Some ''TREASURY'', ss_dispute := Some ''CONTRACT'',
     ss_stakes := [''ATT'' \<mapsto> \<lparr>sk_attestor = ''ATT'', sk_amount = 3000, sk_locked = 0\<rparr>]\<rparr>"

definition link_ext :: "(staking_state \<times> ref_ledger) att_ext" where
  "link_ext = \<lparr>ex_token = \<lparr>tok_transfer = (\<lambda>t a b n w. None), tok_balance = (\<lambda>t a w. snd w t a)\<rparr>, ex_dao = (\<lambda>_. Inl CallFailed),
     ex_is_eligible = (\<lambda>_ _ _. Inl CallFailed), ex_slash = (\<lambda>_ _ _ _ w. Inl CallFailed),
     ex_get_reputation = (\<lambda>_ _ _. Inr 0), ex_audit_nonce = (\<lambda>_ _ _ _. Inr 0), ex_audit_append = (\<lambda>_ _ _ _ _ _ w. Inr w)\<rparr>"

lemma upheld_dispute_slashes_witness:
  "\<exists>s' ss' l'. resolve_dispute_entry (env_at 9 1) (link ref_token ''STAKING'' (env_at 9 1) link_ext) 1 ''ADMIN'' Upheld ''proved''
      (link_att, (link_stakes, \<lambda>t a. 5000)) = Inr (s', (ss', l')) \<and>
    map_option sk_amount (ss_stakes ss' ''ATT'') = Some 2000 \<and> 1 \<in> ss_slashed ss'"
proof -
  let ?e = "env_at 9 1"
  obtain ss' l' where sl: "slash ref_token (staking_env ''STAKING'' ?e) ''ATT'' 1000 1 (link_stakes, \<lambda>t a. 5000) = Inr (Slashed, ss', l')"
    by (simp add: slash_def link_stakes_def staking_empty_def staking_env_def transferr_def ref_token_def in_i128_def
        i128_min_def i128_max_def)
  let ?d = "dispute_one\<lparr>di_attestor := ''ATT''\<rparr>"
  have adm: "has_role (at_access link_att) ''ADMIN'' ROLE_ADMIN"
    by (simp add: link_att_def has_role_def get_roles_def ROLE_ADMIN_def)
  have st: "at_staking link_att = Some ''STAKING''" by (simp add: link_att_def)
  have val: "validate_dispute_resolution (at_dispute link_att) 1 = Inr ?d" "get_dispute (at_dispute link_att) 1 = Some ?d"
    "ds_attestor_by (at_dispute link_att) (''BIZ'', ''Q1'') = Some ''ATT''" "di_business ?d = ''BIZ''" "di_period ?d = ''Q1''"
    by (simp_all add: link_att_def validate_dispute_resolution_def get_dispute_def disputes_one_def disputes_zero_def dispute_one_def)
  obtain s' where s': "resolve_dispute_entry ?e (link ref_token ''STAKING'' ?e link_ext) 1 ''ADMIN'' Upheld ''proved''
      (link_att, (link_stakes, \<lambda>t a. 5000)) = Inr (s', (ss', l'))"
    using sl val
    by (simp add: resolve_dispute_entry_def resolve_dispute_def require_admin_def adm st expect_ok_def get_dispute_def
        store_dispute_resolution_def store_dispute_def get_attestor_for_attestation_def
        try_trigger_slash_def link_def Let_def)
  have "at_staking link_att = Some ''STAKING''" "ds_disputes (at_dispute link_att) 1 = Some (dispute_one\<lparr>di_attestor := ''ATT''\<rparr>)"
    "di_id (dispute_one\<lparr>di_attestor := ''ATT''\<rparr>) = 1"
    by (simp_all add: link_att_def dispute_one_def)
  from upheld_dispute_slashes [OF ref_token_sep41 this s'] s' show ?thesis
    by (fastforce simp: link_stakes_def)
qed

end
