(* ===== verification/Protocol_Dao.thy ===== *)
theory Protocol_Dao
  imports Handover
begin

text \<open>
  \<open>contracts/protocol-dao/src/lib.rs\<close>: governance by token holders. A holder proposes, holders vote, one
  vote each, and anybody executes what a majority of a quorum approved.

  The state has one field per key of \<open>DataKey\<close>; \<open>HasVoted\<close> holds nothing but \<open>true\<close> and is a set. The
  governance token is a parameter: only its \<open>balance\<close> is read, so a call sees the token ledger and the
  ledger may be another one at the next call.
\<close>

section \<open>State\<close>

definition DEFAULT_MIN_VOTES :: nat where "DEFAULT_MIN_VOTES = 1"
definition DEFAULT_PROPOSAL_DURATION :: nat where "DEFAULT_PROPOSAL_DURATION = 120960"
definition MAX_MIN_VOTES :: nat where "MAX_MIN_VOTES = 1000000"
definition MAX_PROPOSAL_DURATION :: nat where "MAX_PROPOSAL_DURATION = u32_max"

datatype dao_role = DaoAdmin | DaoProposer | DaoVoter | DaoExecutor

datatype dao_status = DaoPending | DaoExecuted | DaoRejected | DaoExpired

datatype dao_action =
    SetAttestationFeeConfig address address int bool
  | SetAttestationFeeEnabled bool
  | UpdateGovernanceConfig nat nat
  | PauseAttestation
  | UnpauseAttestation

record dao_proposal =
  dp_id :: nat
  dp_creator :: address
  dp_action :: dao_action
  dp_status :: dao_status
  dp_created_at :: nat

record dao_state =
  pd_admin :: "address option"
  pd_pending_admin :: "address option"
  pd_token :: "address option"
  pd_min_votes :: "nat option"
  pd_duration :: "nat option"
  pd_next_id :: "nat option"
  pd_proposals :: "nat \<rightharpoonup> dao_proposal"
  pd_for :: "nat \<rightharpoonup> nat"
  pd_against :: "nat \<rightharpoonup> nat"
  pd_voted :: "(nat \<times> address) set"
  pd_fee_config :: "(address \<times> address \<times> int \<times> bool) option"
  pd_paused :: "bool option"

definition dao_empty :: dao_state where
  "dao_empty = \<lparr>pd_admin = None, pd_pending_admin = None, pd_token = None, pd_min_votes = None,
     pd_duration = None, pd_next_id = None, pd_proposals = Map.empty, pd_for = Map.empty,
     pd_against = Map.empty, pd_voted = {}, pd_fee_config = None, pd_paused = None\<rparr>"

section \<open>Helpers\<close>

definition dao_get_admin :: "dao_state \<Rightarrow> address res" where
  "dao_get_admin s = expectr (pd_admin s) ''dao not initialized''"

definition dao_require_admin :: "ledger_env \<Rightarrow> dao_state \<Rightarrow> address \<Rightarrow> unit res" where
  "dao_require_admin env s caller =
     bindr (require_auth env caller) (\<lambda>_.
     bindr (dao_get_admin s) (\<lambda>admin. assertr (caller = admin) ''caller is not admin''))"

definition require_token_holder :: "'w token_ops \<Rightarrow> 'w \<Rightarrow> dao_state \<Rightarrow> address \<Rightarrow> unit res" where
  "require_token_holder T w s who =
     (case pd_token s of
        Some token_addr \<Rightarrow> assertr (0 < tok_balance T token_addr who w) ''insufficient governance token balance''
      | None \<Rightarrow> Inr ())"

definition get_min_votes :: "dao_state \<Rightarrow> nat" where
  "get_min_votes s = unwrap_or (pd_min_votes s) DEFAULT_MIN_VOTES"

definition get_proposal_duration :: "dao_state \<Rightarrow> nat" where
  "get_proposal_duration s = unwrap_or (pd_duration s) DEFAULT_PROPOSAL_DURATION"

definition validate_min_votes :: "nat \<Rightarrow> unit res" where
  "validate_min_votes min_votes = assertr (min_votes \<le> MAX_MIN_VOTES) ''min_votes exceeds maximum allowed value''"

definition validate_proposal_duration :: "nat \<Rightarrow> unit res" where
  "validate_proposal_duration duration =
     assertr (duration \<le> MAX_PROPOSAL_DURATION) ''proposal_duration exceeds maximum allowed value''"

definition normalize_config :: "nat \<Rightarrow> nat \<Rightarrow> nat \<times> nat" where
  "normalize_config min_votes duration =
     (if min_votes = 0 then DEFAULT_MIN_VOTES else min_votes, if duration = 0 then DEFAULT_PROPOSAL_DURATION else duration)"

definition next_proposal_id :: "dao_state \<Rightarrow> (nat \<times> dao_state) res" where
  "next_proposal_id s =
     (let i = unwrap_or (pd_next_id s) 0 in
      bindr (u64_chk (i + 1)) (\<lambda>next_id. Inr (i, s\<lparr>pd_next_id := Some next_id\<rparr>)))"

definition store_proposal :: "dao_proposal \<Rightarrow> dao_state \<Rightarrow> dao_state" where
  "store_proposal p s = s\<lparr>pd_proposals := (pd_proposals s)(dp_id p \<mapsto> p)\<rparr>"

definition get_proposal_internal :: "dao_state \<Rightarrow> nat \<Rightarrow> dao_proposal res" where
  "get_proposal_internal s i = expectr (pd_proposals s i) ''proposal not found''"

text \<open>Expiry is judged by the duration of the moment, not by that of the proposal's creation.\<close>

definition dao_is_expired :: "ledger_env \<Rightarrow> dao_state \<Rightarrow> nat \<Rightarrow> bool res" where
  "dao_is_expired env s i =
     bindr (get_proposal_internal s i) (\<lambda>p.
     Inr (u32_sat (dp_created_at p + get_proposal_duration s) < sequence env))"

definition get_votes :: "dao_state \<Rightarrow> nat \<Rightarrow> nat \<times> nat" where
  "get_votes s i = (unwrap_or (pd_for s i) 0, unwrap_or (pd_against s i) 0)"

definition dao_has_voted :: "dao_state \<Rightarrow> nat \<Rightarrow> address \<Rightarrow> bool" where
  "dao_has_voted s i voter \<longleftrightarrow> (i, voter) \<in> pd_voted s"

definition set_voted :: "nat \<Rightarrow> address \<Rightarrow> dao_state \<Rightarrow> dao_state" where
  "set_voted i voter s = s\<lparr>pd_voted := insert (i, voter) (pd_voted s)\<rparr>"

definition increment_for :: "nat \<Rightarrow> dao_state \<Rightarrow> dao_state" where
  "increment_for i s = s\<lparr>pd_for := (pd_for s)(i \<mapsto> u32_sat (fst (get_votes s i) + 1))\<rparr>"

definition increment_against :: "nat \<Rightarrow> dao_state \<Rightarrow> dao_state" where
  "increment_against i s = s\<lparr>pd_against := (pd_against s)(i \<mapsto> u32_sat (snd (get_votes s i) + 1))\<rparr>"

definition quorum_met :: "dao_state \<Rightarrow> nat \<Rightarrow> bool" where
  "quorum_met s i = (let (f, a) = get_votes s i in get_min_votes s \<le> u32_sat (f + a))"

definition has_majority :: "dao_state \<Rightarrow> nat \<Rightarrow> bool" where
  "has_majority s i = (let (f, a) = get_votes s i in a < f)"

definition dao_is_proposal_approved :: "dao_state \<Rightarrow> nat \<Rightarrow> bool" where
  "dao_is_proposal_approved s i \<longleftrightarrow> quorum_met s i \<and> has_majority s i"

definition get_quorum_status :: "dao_state \<Rightarrow> nat \<Rightarrow> nat \<times> nat \<times> nat \<times> bool \<times> bool" where
  "get_quorum_status s i =
     (let (f, a) = get_votes s i in (f, a, get_min_votes s, quorum_met s i, has_majority s i))"

fun apply_action :: "dao_action \<Rightarrow> dao_state \<Rightarrow> dao_state res" where
  "apply_action (SetAttestationFeeConfig token collector base_fee enabled) s =
     Inr (s\<lparr>pd_fee_config := Some (token, collector, base_fee, enabled)\<rparr>)"
| "apply_action (SetAttestationFeeEnabled enabled) s =
     bindr (expectr (pd_fee_config s) ''attestation fee config not set'') (\<lambda>(token, collector, base_fee, _).
     Inr (s\<lparr>pd_fee_config := Some (token, collector, base_fee, enabled)\<rparr>))"
| "apply_action (UpdateGovernanceConfig min_votes duration) s =
     bindr (validate_min_votes min_votes) (\<lambda>_.
     bindr (validate_proposal_duration duration) (\<lambda>_.
     (case normalize_config min_votes duration of
        (mv, dur) \<Rightarrow> Inr (s\<lparr>pd_min_votes := Some mv, pd_duration := Some dur\<rparr>))))"
| "apply_action PauseAttestation s = Inr (s\<lparr>pd_paused := Some True\<rparr>)"
| "apply_action UnpauseAttestation s = Inr (s\<lparr>pd_paused := Some False\<rparr>)"

section \<open>Entry points\<close>

definition dao_initialize ::
  "ledger_env \<Rightarrow> address \<Rightarrow> address option \<Rightarrow> nat \<Rightarrow> nat \<Rightarrow> dao_state \<Rightarrow> dao_state res" where
  "dao_initialize env admin governance_token min_votes proposal_duration s =
     bindr (assertr (pd_admin s = None) ''already initialized'') (\<lambda>_.
     bindr (require_auth env admin) (\<lambda>_.
     bindr (validate_min_votes min_votes) (\<lambda>_.
     bindr (validate_proposal_duration proposal_duration) (\<lambda>_.
     (case normalize_config min_votes proposal_duration of
        (mv, dur) \<Rightarrow>
          Inr (s\<lparr>pd_admin := Some admin,
                 pd_token := (case governance_token of Some t \<Rightarrow> Some t | None \<Rightarrow> pd_token s),
                 pd_min_votes := Some mv, pd_duration := Some dur\<rparr>))))))"

definition transfer_admin :: "ledger_env \<Rightarrow> address \<Rightarrow> address \<Rightarrow> dao_state \<Rightarrow> dao_state res" where
  "transfer_admin env caller new_admin s =
     bindr (dao_require_admin env s caller) (\<lambda>_.
     bindr (dao_get_admin s) (\<lambda>admin.
     bindr (assertr (new_admin \<noteq> admin) ''new_admin must differ from current admin'') (\<lambda>_.
     Inr (s\<lparr>pd_pending_admin := Some new_admin\<rparr>))))"

definition accept_admin :: "ledger_env \<Rightarrow> address \<Rightarrow> dao_state \<Rightarrow> dao_state res" where
  "accept_admin env caller s =
     bindr (require_auth env caller) (\<lambda>_.
     bindr (expectr (pd_pending_admin s) ''no pending admin'') (\<lambda>pending.
     bindr (assertr (caller = pending) ''caller is not pending admin'') (\<lambda>_.
     Inr (s\<lparr>pd_admin := Some caller, pd_pending_admin := None\<rparr>))))"

definition set_governance_token :: "ledger_env \<Rightarrow> address \<Rightarrow> address \<Rightarrow> dao_state \<Rightarrow> dao_state res" where
  "set_governance_token env caller token s =
     bindr (dao_require_admin env s caller) (\<lambda>_. Inr (s\<lparr>pd_token := Some token\<rparr>))"

definition set_voting_config :: "ledger_env \<Rightarrow> address \<Rightarrow> nat \<Rightarrow> nat \<Rightarrow> dao_state \<Rightarrow> dao_state res" where
  "set_voting_config env caller min_votes proposal_duration s =
     bindr (dao_require_admin env s caller) (\<lambda>_.
     bindr (validate_min_votes min_votes) (\<lambda>_.
     bindr (validate_proposal_duration proposal_duration) (\<lambda>_.
     (case normalize_config min_votes proposal_duration of
        (mv, dur) \<Rightarrow> Inr (s\<lparr>pd_min_votes := Some mv, pd_duration := Some dur\<rparr>)))))"

text \<open>The common end of the five proposal constructors: draw an id and store the proposal as pending.\<close>

definition new_dao_proposal :: "ledger_env \<Rightarrow> address \<Rightarrow> dao_action \<Rightarrow> dao_state \<Rightarrow> (nat \<times> dao_state) res" where
  "new_dao_proposal env creator action s =
     bindr (next_proposal_id s) (\<lambda>(i, s1).
     Inr (i, store_proposal \<lparr>dp_id = i, dp_creator = creator, dp_action = action, dp_status = DaoPending,
                dp_created_at = sequence env\<rparr> s1))"

definition create_fee_config_proposal ::
  "'w token_ops \<Rightarrow> 'w \<Rightarrow> ledger_env \<Rightarrow> address \<Rightarrow> address \<Rightarrow> address \<Rightarrow> int \<Rightarrow> bool \<Rightarrow> dao_state \<Rightarrow> (nat \<times> dao_state) res" where
  "create_fee_config_proposal T w env creator token collector base_fee enabled s =
     bindr (require_auth env creator) (\<lambda>_.
     bindr (require_token_holder T w s creator) (\<lambda>_.
     bindr (assertr (0 \<le> base_fee) ''base_fee must be non-negative'') (\<lambda>_.
     new_dao_proposal env creator (SetAttestationFeeConfig token collector base_fee enabled) s)))"

definition create_fee_toggle_proposal ::
  "'w token_ops \<Rightarrow> 'w \<Rightarrow> ledger_env \<Rightarrow> address \<Rightarrow> bool \<Rightarrow> dao_state \<Rightarrow> (nat \<times> dao_state) res" where
  "create_fee_toggle_proposal T w env creator enabled s =
     bindr (require_auth env creator) (\<lambda>_.
     bindr (require_token_holder T w s creator) (\<lambda>_.
     new_dao_proposal env creator (SetAttestationFeeEnabled enabled) s))"

definition create_gov_config_proposal ::
  "'w token_ops \<Rightarrow> 'w \<Rightarrow> ledger_env \<Rightarrow> address \<Rightarrow> nat \<Rightarrow> nat \<Rightarrow> dao_state \<Rightarrow> (nat \<times> dao_state) res" where
  "create_gov_config_proposal T w env creator min_votes proposal_duration s =
     bindr (require_auth env creator) (\<lambda>_.
     bindr (require_token_holder T w s creator) (\<lambda>_.
     bindr (validate_min_votes min_votes) (\<lambda>_.
     bindr (validate_proposal_duration proposal_duration) (\<lambda>_.
     (case normalize_config min_votes proposal_duration of
        (mv, dur) \<Rightarrow> new_dao_proposal env creator (UpdateGovernanceConfig mv dur) s)))))"

definition create_pause_proposal :: "'w token_ops \<Rightarrow> 'w \<Rightarrow> ledger_env \<Rightarrow> address \<Rightarrow> dao_state \<Rightarrow> (nat \<times> dao_state) res" where
  "create_pause_proposal T w env creator s =
     bindr (require_auth env creator) (\<lambda>_.
     bindr (require_token_holder T w s creator) (\<lambda>_.
     new_dao_proposal env creator PauseAttestation s))"

definition create_unpause_proposal :: "'w token_ops \<Rightarrow> 'w \<Rightarrow> ledger_env \<Rightarrow> address \<Rightarrow> dao_state \<Rightarrow> (nat \<times> dao_state) res" where
  "create_unpause_proposal T w env creator s =
     bindr (require_auth env creator) (\<lambda>_.
     bindr (require_token_holder T w s creator) (\<lambda>_.
     new_dao_proposal env creator UnpauseAttestation s))"

definition vote_for :: "'w token_ops \<Rightarrow> 'w \<Rightarrow> ledger_env \<Rightarrow> address \<Rightarrow> nat \<Rightarrow> dao_state \<Rightarrow> dao_state res" where
  "vote_for T w env voter i s =
     bindr (require_auth env voter) (\<lambda>_.
     bindr (require_token_holder T w s voter) (\<lambda>_.
     bindr (get_proposal_internal s i) (\<lambda>p.
     bindr (assertr (dp_status p = DaoPending) ''proposal is not pending'') (\<lambda>_.
     bindr (dao_is_expired env s i) (\<lambda>expired.
     bindr (assertr (\<not> expired) ''proposal expired'') (\<lambda>_.
     bindr (assertr (\<not> dao_has_voted s i voter) ''already voted'') (\<lambda>_.
     Inr (store_proposal p (set_voted i voter (increment_for i s))))))))))"

definition vote_against :: "'w token_ops \<Rightarrow> 'w \<Rightarrow> ledger_env \<Rightarrow> address \<Rightarrow> nat \<Rightarrow> dao_state \<Rightarrow> dao_state res" where
  "vote_against T w env voter i s =
     bindr (require_auth env voter) (\<lambda>_.
     bindr (require_token_holder T w s voter) (\<lambda>_.
     bindr (get_proposal_internal s i) (\<lambda>p.
     bindr (assertr (dp_status p = DaoPending) ''proposal is not pending'') (\<lambda>_.
     bindr (dao_is_expired env s i) (\<lambda>expired.
     bindr (assertr (\<not> expired) ''proposal expired'') (\<lambda>_.
     bindr (assertr (\<not> dao_has_voted s i voter) ''already voted'') (\<lambda>_.
     Inr (store_proposal p (set_voted i voter (increment_against i s))))))))))"

definition dao_execute_proposal :: "ledger_env \<Rightarrow> address \<Rightarrow> nat \<Rightarrow> dao_state \<Rightarrow> dao_state res" where
  "dao_execute_proposal env executor i s =
     bindr (require_auth env executor) (\<lambda>_.
     bindr (get_proposal_internal s i) (\<lambda>p.
     bindr (assertr (dp_status p = DaoPending) ''proposal is not pending'') (\<lambda>_.
     bindr (dao_is_expired env s i) (\<lambda>expired.
     bindr (assertr (\<not> expired) ''proposal expired'') (\<lambda>_.
     bindr (assertr (quorum_met s i) ''quorum not met'') (\<lambda>_.
     bindr (assertr (has_majority s i) ''proposal not approved'') (\<lambda>_.
     bindr (apply_action (dp_action p) s) (\<lambda>s1.
     Inr (store_proposal (p\<lparr>dp_status := DaoExecuted\<rparr>) s1)))))))))"

definition cancel_proposal :: "ledger_env \<Rightarrow> address \<Rightarrow> nat \<Rightarrow> dao_state \<Rightarrow> dao_state res" where
  "cancel_proposal env caller i s =
     bindr (require_auth env caller) (\<lambda>_.
     bindr (get_proposal_internal s i) (\<lambda>p.
     bindr (assertr (dp_status p = DaoPending) ''proposal is not pending'') (\<lambda>_.
     bindr (if dp_creator p = caller then Inr True else bindr (dao_get_admin s) (\<lambda>admin. Inr (admin = caller))) (\<lambda>may.
     bindr (assertr may ''only creator or admin can cancel'') (\<lambda>_.
     Inr (store_proposal (p\<lparr>dp_status := DaoRejected\<rparr>) s))))))"

section \<open>Queries\<close>

definition is_attestation_paused :: "dao_state \<Rightarrow> bool" where
  "is_attestation_paused s = unwrap_or (pd_paused s) False"

definition get_attestation_fee_config :: "dao_state \<Rightarrow> (address \<times> address \<times> int \<times> bool) option" where
  "get_attestation_fee_config s = pd_fee_config s"

definition dao_get_config :: "dao_state \<Rightarrow> (address \<times> address option \<times> nat \<times> nat) res" where
  "dao_get_config s =
     bindr (dao_get_admin s) (\<lambda>admin. Inr (admin, pd_token s, get_min_votes s, get_proposal_duration s))"

definition get_role :: "'w token_ops \<Rightarrow> 'w \<Rightarrow> dao_state \<Rightarrow> address \<Rightarrow> dao_role" where
  "get_role T w s who =
     (if pd_admin s = Some who then DaoAdmin
      else
        (case pd_token s of
           Some token_addr \<Rightarrow> (if 0 < tok_balance T token_addr who w then DaoVoter else DaoExecutor)
         | None \<Rightarrow> DaoExecutor))"

section \<open>The contract as a machine\<close>

text \<open>A call sees the ledger and the tokens as they are when it is made.\<close>

datatype gov_call =
    GInit address "address option" nat nat
  | GTransferAdmin address address
  | GAcceptAdmin address
  | GSetToken address address
  | GSetConfig address nat nat
  | GProposeFee address address address int bool
  | GProposeToggle address bool
  | GProposeConfig address nat nat
  | GProposePause address
  | GProposeUnpause address
  | GVoteFor address nat
  | GVoteAgainst address nat
  | GExecute address nat
  | GCancel address nat

fun gov_step :: "'w token_ops \<Rightarrow> (ledger_env \<times> 'w) \<times> gov_call \<Rightarrow> dao_state \<Rightarrow> dao_state res" where
  "gov_step T ((env, w), GInit a t mv d) s = dao_initialize env a t mv d s"
| "gov_step T ((env, w), GTransferAdmin c n) s = transfer_admin env c n s"
| "gov_step T ((env, w), GAcceptAdmin c) s = accept_admin env c s"
| "gov_step T ((env, w), GSetToken c t) s = set_governance_token env c t s"
| "gov_step T ((env, w), GSetConfig c mv d) s = set_voting_config env c mv d s"
| "gov_step T ((env, w), GProposeFee c t k f e) s = bindr (create_fee_config_proposal T w env c t k f e s) (\<lambda>(_, s'). Inr s')"
| "gov_step T ((env, w), GProposeToggle c e) s = bindr (create_fee_toggle_proposal T w env c e s) (\<lambda>(_, s'). Inr s')"
| "gov_step T ((env, w), GProposeConfig c mv d) s = bindr (create_gov_config_proposal T w env c mv d s) (\<lambda>(_, s'). Inr s')"
| "gov_step T ((env, w), GProposePause c) s = bindr (create_pause_proposal T w env c s) (\<lambda>(_, s'). Inr s')"
| "gov_step T ((env, w), GProposeUnpause c) s = bindr (create_unpause_proposal T w env c s) (\<lambda>(_, s'). Inr s')"
| "gov_step T ((env, w), GVoteFor v i) s = vote_for T w env v i s"
| "gov_step T ((env, w), GVoteAgainst v i) s = vote_against T w env v i s"
| "gov_step T ((env, w), GExecute x i) s = dao_execute_proposal env x i s"
| "gov_step T ((env, w), GCancel c i) s = cancel_proposal env c i s"

text \<open>Every proposal is stored under its id, below the counter; nothing is voted on before it exists.\<close>

definition dao_ok :: "dao_state \<Rightarrow> bool" where
  "dao_ok s \<longleftrightarrow> (\<forall>i p. pd_proposals s i = Some p \<longrightarrow> dp_id p = i \<and> i < unwrap_or (pd_next_id s) 0) \<and>
     (\<forall>i. pd_proposals s i = None \<longrightarrow> pd_for s i = None \<and> pd_against s i = None \<and> (\<forall>v. (i, v) \<notin> pd_voted s))"

lemma dao_ok_proposal: "dao_ok s \<Longrightarrow> pd_proposals s i = Some p \<Longrightarrow> dp_id p = i"
  by (simp add: dao_ok_def)

lemmas dao_helpers = get_proposal_internal_def dao_is_expired_def store_proposal_def set_voted_def
  increment_for_def increment_against_def dao_has_voted_def dao_require_admin_def dao_get_admin_def

text \<open>The effect of the calls on the proposals, votes and the rest, one rule per kind of call.\<close>

lemma proposing_cases:
  assumes "new_dao_proposal env c act s = Inr (i, s')"
  obtains "i = unwrap_or (pd_next_id s) 0" "s' = s\<lparr>pd_next_id := Some (i + 1),
    pd_proposals := (pd_proposals s)(i \<mapsto> \<lparr>dp_id = i, dp_creator = c, dp_action = act, dp_status = DaoPending,
      dp_created_at = sequence env\<rparr>)\<rparr>"
  using assms by (auto simp: new_dao_proposal_def next_proposal_id_def store_proposal_def Let_def)

text \<open>A vote on one side, \<open>True\<close> for the proposal.\<close>

definition count_vote :: "bool \<Rightarrow> nat \<Rightarrow> dao_state \<Rightarrow> dao_state" where
  "count_vote side i s = (if side then increment_for i s else increment_against i s)"

text \<open>
  Who may propose and vote: with a governance token configured, only its holders; without one governance is
  open, and anyone may.
\<close>

definition may_take_part :: "'w token_ops \<Rightarrow> 'w \<Rightarrow> dao_state \<Rightarrow> address \<Rightarrow> bool" where
  "may_take_part T w s who \<longleftrightarrow> (\<forall>token. pd_token s = Some token \<longrightarrow> 0 < tok_balance T token who w)"

lemma require_token_holder_Inr [simp]: "require_token_holder T w s who = Inr () \<longleftrightarrow> may_take_part T w s who"
  by (auto simp: require_token_holder_def may_take_part_def split: option.splits)

definition may_vote :: "'w token_ops \<Rightarrow> 'w \<Rightarrow> ledger_env \<Rightarrow> address \<Rightarrow> nat \<Rightarrow> dao_state \<Rightarrow> bool" where
  "may_vote T w env v i s \<longleftrightarrow> authorized env v \<and> may_take_part T w s v \<and>
     (\<exists>p. pd_proposals s i = Some p \<and> dp_status p = DaoPending) \<and> dao_is_expired env s i = Inr False \<and>
     (i, v) \<notin> pd_voted s"

lemma vote_for_Inr:
  assumes "dao_ok s"
  shows "vote_for T w env v i s = Inr s' \<longleftrightarrow> may_vote T w env v i s \<and> s' = set_voted i v (count_vote True i s)"
  using assms
  by (auto simp: vote_for_def may_vote_def count_vote_def dao_helpers dao_ok_def fun_upd_idem)

lemma vote_against_Inr:
  assumes "dao_ok s"
  shows "vote_against T w env v i s = Inr s' \<longleftrightarrow> may_vote T w env v i s \<and> s' = set_voted i v (count_vote False i s)"
  using assms
  by (auto simp: vote_against_def may_vote_def count_vote_def dao_helpers dao_ok_def fun_upd_idem)

lemma count_vote_frame [simp]:
  "pd_proposals (set_voted i v (count_vote b i s)) = pd_proposals s"
  "pd_voted (set_voted i v (count_vote b i s)) = insert (i, v) (pd_voted s)"
  "pd_admin (set_voted i v (count_vote b i s)) = pd_admin s"
  "pd_pending_admin (set_voted i v (count_vote b i s)) = pd_pending_admin s"
  "pd_token (set_voted i v (count_vote b i s)) = pd_token s"
  "pd_min_votes (set_voted i v (count_vote b i s)) = pd_min_votes s"
  "pd_duration (set_voted i v (count_vote b i s)) = pd_duration s"
  "pd_next_id (set_voted i v (count_vote b i s)) = pd_next_id s"
  "pd_fee_config (set_voted i v (count_vote b i s)) = pd_fee_config s"
  "pd_paused (set_voted i v (count_vote b i s)) = pd_paused s"
  "pd_for (set_voted i v (count_vote b i s)) = (if b then (pd_for s)(i \<mapsto> u32_sat (fst (get_votes s i) + 1)) else pd_for s)"
  "pd_against (set_voted i v (count_vote b i s)) = (if b then pd_against s else (pd_against s)(i \<mapsto> u32_sat (snd (get_votes s i) + 1)))"
  by (simp_all add: set_voted_def count_vote_def increment_for_def increment_against_def)

lemma executing_cases:
  assumes "dao_execute_proposal env x i s = Inr s'" and "dao_ok s"
  obtains p s1 where "authorized env x" "pd_proposals s i = Some p" "dp_status p = DaoPending"
    "dao_is_expired env s i = Inr False" "quorum_met s i" "has_majority s i" "apply_action (dp_action p) s = Inr s1"
    "s' = s1\<lparr>pd_proposals := (pd_proposals s1)(i \<mapsto> p\<lparr>dp_status := DaoExecuted\<rparr>)\<rparr>"
  using assms that by (auto simp: dao_execute_proposal_def get_proposal_internal_def store_proposal_def dao_ok_def)

lemma applying_frame:
  assumes "apply_action act s = Inr s1"
  shows "pd_proposals s1 = pd_proposals s" "pd_for s1 = pd_for s" "pd_against s1 = pd_against s"
    "pd_voted s1 = pd_voted s" "pd_next_id s1 = pd_next_id s" "pd_admin s1 = pd_admin s"
    "pd_pending_admin s1 = pd_pending_admin s" "pd_token s1 = pd_token s"
  using assms by (cases act; auto split: prod.splits)+

lemma cancelling_cases:
  assumes "cancel_proposal env c i s = Inr s'" and "dao_ok s"
  obtains p where "authorized env c" "pd_proposals s i = Some p" "dp_status p = DaoPending"
    "dp_creator p = c \<or> pd_admin s = Some c"
    "s' = s\<lparr>pd_proposals := (pd_proposals s)(i \<mapsto> p\<lparr>dp_status := DaoRejected\<rparr>)\<rparr>"
  using assms that
  by (auto simp: cancel_proposal_def get_proposal_internal_def store_proposal_def dao_ok_def dao_get_admin_def split: if_splits)

text \<open>The calls that touch neither a proposal nor a vote nor what an execution sets.\<close>

definition office_call :: "gov_call \<Rightarrow> bool" where
  "office_call c \<longleftrightarrow> (case c of GInit _ _ _ _ \<Rightarrow> True | GTransferAdmin _ _ \<Rightarrow> True | GAcceptAdmin _ \<Rightarrow> True
     | GSetToken _ _ \<Rightarrow> True | GSetConfig _ _ _ \<Rightarrow> True | _ \<Rightarrow> False)"

lemma office_frame:
  assumes "gov_step T ((env, w), c) s = Inr s'" and "office_call c"
  shows "pd_proposals s' = pd_proposals s" "pd_for s' = pd_for s" "pd_against s' = pd_against s"
    "pd_voted s' = pd_voted s" "pd_next_id s' = pd_next_id s" "pd_fee_config s' = pd_fee_config s" "pd_paused s' = pd_paused s"
  using assms
  by (cases c; auto simp: office_call_def dao_initialize_def transfer_admin_def accept_admin_def set_governance_token_def
      set_voting_config_def split: prod.splits)+

inductive proposes :: "ledger_env \<Rightarrow> gov_call \<Rightarrow> address \<Rightarrow> dao_action \<Rightarrow> bool" for env where
  "0 \<le> f \<Longrightarrow> proposes env (GProposeFee c t k f e) c (SetAttestationFeeConfig t k f e)"
| "proposes env (GProposeToggle c e) c (SetAttestationFeeEnabled e)"
| "normalize_config mv d = (mv', d') \<Longrightarrow> proposes env (GProposeConfig c mv d) c (UpdateGovernanceConfig mv' d')"
| "proposes env (GProposePause c) c PauseAttestation"
| "proposes env (GProposeUnpause c) c UnpauseAttestation"

inductive_cases proposesE: "proposes env c a act"

lemma gov_step_cases [consumes 2, case_names office propose vote execute cancel]:
  assumes "gov_step T ((env, w), c) s = Inr s'" and ok: "dao_ok s"
    and office: "office_call c \<Longrightarrow> P"
    and prp: "\<And>a act i. proposes env c a act \<Longrightarrow> authorized env a \<Longrightarrow> require_token_holder T w s a = Inr () \<Longrightarrow>
           new_dao_proposal env a act s = Inr (i, s') \<Longrightarrow> P"
    and vote: "\<And>v i b. c = (if b then GVoteFor v i else GVoteAgainst v i) \<Longrightarrow> may_vote T w env v i s \<Longrightarrow>
           s' = set_voted i v (count_vote b i s) \<Longrightarrow> P"
    and exec: "\<And>x i. c = GExecute x i \<Longrightarrow> dao_execute_proposal env x i s = Inr s' \<Longrightarrow> P"
    and canc: "\<And>x i. c = GCancel x i \<Longrightarrow> cancel_proposal env x i s = Inr s' \<Longrightarrow> P"
  shows P
proof (cases c)
  case (GProposeConfig a mv d)
  obtain mv' d' where n: "normalize_config mv d = (mv', d')" by (metis surj_pair)
  with assms(1) GProposeConfig obtain i where "authorized env a" "require_token_holder T w s a = Inr ()"
    "new_dao_proposal env a (UpdateGovernanceConfig mv' d') s = Inr (i, s')"
    by (auto simp: create_gov_config_proposal_def)
  with GProposeConfig n show ?thesis by (auto intro: prp proposes.intros)
next
  case (GVoteFor v i)
  with assms(1) ok vote [of True v i] show ?thesis by (simp add: vote_for_Inr)
next
  case (GVoteAgainst v i)
  with assms(1) ok vote [of False v i] show ?thesis by (simp add: vote_against_Inr)
next
  case (GExecute x i)
  with assms(1) exec show ?thesis by simp
next
  case (GCancel x i)
  with assms(1) canc show ?thesis by simp
next
  case (GProposeFee a t k f e)
  with assms(1) obtain i where "0 \<le> f" "authorized env a" "require_token_holder T w s a = Inr ()"
    "new_dao_proposal env a (SetAttestationFeeConfig t k f e) s = Inr (i, s')"
    by (auto simp: create_fee_config_proposal_def)
  with GProposeFee show ?thesis by (auto intro: prp proposes.intros)
next
  case (GProposeToggle a e)
  with assms(1) obtain i where "authorized env a" "require_token_holder T w s a = Inr ()"
    "new_dao_proposal env a (SetAttestationFeeEnabled e) s = Inr (i, s')"
    by (auto simp: create_fee_toggle_proposal_def)
  with GProposeToggle show ?thesis by (auto intro: prp proposes.intros)
next
  case (GProposePause a)
  with assms(1) obtain i where "authorized env a" "require_token_holder T w s a = Inr ()"
    "new_dao_proposal env a PauseAttestation s = Inr (i, s')"
    by (auto simp: create_pause_proposal_def)
  with GProposePause show ?thesis by (auto intro: prp proposes.intros)
next
  case (GProposeUnpause a)
  with assms(1) obtain i where "authorized env a" "require_token_holder T w s a = Inr ()"
    "new_dao_proposal env a UnpauseAttestation s = Inr (i, s')"
    by (auto simp: create_unpause_proposal_def)
  with GProposeUnpause show ?thesis by (auto intro: prp proposes.intros)
qed (simp_all add: office office_call_def)

lemma dao_ok_step:
  assumes "dao_ok s" and "gov_step T ((env, w), c) s = Inr s'"
  shows "dao_ok s'"
  using assms(2,1)
proof (cases rule: gov_step_cases)
  case office
  with assms show ?thesis by (simp add: dao_ok_def office_frame)
next
  case (propose a act i)
  from propose(4) show ?thesis
    by (rule proposing_cases) (use assms(1) in \<open>fastforce simp: dao_ok_def split: if_splits\<close>)
next
  case (vote v i b)
  with assms(1) show ?thesis by (auto simp: dao_ok_def may_vote_def)
next
  case (execute x i)
  from execute(2) assms(1) show ?thesis
    by (rule executing_cases) (use assms(1) in \<open>auto simp: dao_ok_def applying_frame\<close>)
next
  case (cancel x i)
  from cancel(2) assms(1) show ?thesis
    by (rule cancelling_cases) (use assms(1) in \<open>auto simp: dao_ok_def\<close>)
qed

interpretation gov: invariant_machine "\<lambda>s. s = dao_empty" "gov_step T" dao_ok for T
proof
  show "dao_ok s" if "s = dao_empty" for s using that by (simp add: dao_ok_def dao_empty_def)
  show "dao_ok s'" if "dao_ok s" "gov_step T e s = Inr s'" for e s s'
    using that by (cases e rule: prod.exhaust, cases "fst e") (auto intro: dao_ok_step)
qed

section \<open>Ballots\<close>

text \<open>The accounts whose vote on a side of a proposal a history of calls accepted, in order.\<close>

definition vote_in :: "gov_call \<Rightarrow> nat \<Rightarrow> bool \<Rightarrow> address list" where
  "vote_in c i side =
     (case c of
        GVoteFor v j \<Rightarrow> (if side \<and> j = i then [v] else [])
      | GVoteAgainst v j \<Rightarrow> (if \<not> side \<and> j = i then [v] else [])
      | _ \<Rightarrow> [])"

fun ballots :: "'w token_ops \<Rightarrow> ((ledger_env \<times> 'w) \<times> gov_call) list \<Rightarrow> dao_state \<Rightarrow> nat \<Rightarrow> bool \<Rightarrow> address list" where
  "ballots T [] s i side = []"
| "ballots T (e # es) s i side =
     (case gov_step T e s of
        Inl _ \<Rightarrow> ballots T es s i side
      | Inr s' \<Rightarrow> vote_in (snd e) i side @ ballots T es s' i side)"

lemma ballots_snoc:
  "ballots T (es @ [e]) s i side = ballots T es s i side @
     (case gov_step T e (run (gov_step T) es s) of Inl _ \<Rightarrow> [] | Inr s' \<Rightarrow> vote_in (snd e) i side)"
  by (induction es arbitrary: s) (auto simp: exec_def split: sum.splits)

lemma vote_in_proposes: "proposes env c a act \<Longrightarrow> vote_in c i side = []"
  by (cases rule: proposes.cases) (auto simp: vote_in_def)

lemma vote_in_office: "office_call c \<Longrightarrow> vote_in c i side = []"
  by (cases c) (auto simp: vote_in_def office_call_def)

lemma u32_sat_Suc [simp]: "u32_sat (Suc (u32_sat n)) = u32_sat (Suc n)"
  by (simp add: u32_sat_def)

definition counted_for :: "'w token_ops \<Rightarrow> ((ledger_env \<times> 'w) \<times> gov_call) list \<Rightarrow> dao_state \<Rightarrow> nat \<Rightarrow> bool" where
  "counted_for T es s i \<longleftrightarrow>
     get_votes s i = (u32_sat (length (ballots T es dao_empty i True)), u32_sat (length (ballots T es dao_empty i False))) \<and>
     distinct (ballots T es dao_empty i True @ ballots T es dao_empty i False) \<and>
     set (ballots T es dao_empty i True @ ballots T es dao_empty i False) = {v. (i, v) \<in> pd_voted s}"

lemma tallied_step:
  assumes ok: "dao_ok s" and s: "s = run (gov_step T) es dao_empty" and counted: "counted_for T es s i"
    and step: "gov_step T ((env, w), c) s = Inr s'"
  shows "counted_for T (es @ [((env, w), c)]) s' i"
proof -
  let ?b = "ballots T es dao_empty i"
  have b: "ballots T (es @ [((env, w), c)]) dao_empty i side = ?b side @ vote_in c i side" for side
    using step s by (simp add: ballots_snoc)
  have keep: ?thesis if "pd_for s' = pd_for s" "pd_against s' = pd_against s" "pd_voted s' = pd_voted s"
    "\<And>side. vote_in c i side = []"
    using counted that by (simp add: counted_for_def b get_votes_def)
  from step ok show ?thesis
  proof (cases rule: gov_step_cases)
    case office
    with step show ?thesis by (intro keep) (simp_all add: office_frame vote_in_office)
  next
    case (propose a act j)
    from propose(4) show ?thesis
      by (rule proposing_cases) (intro keep, simp_all add: vote_in_proposes [OF propose(1)])
  next
    case (vote v j side)
    show ?thesis
    proof (cases "j = i")
      case False
      with vote have "get_votes s' i = get_votes s i" "{u. (i, u) \<in> pd_voted s'} = {u. (i, u) \<in> pd_voted s}"
        "vote_in c i True = []" "vote_in c i False = []"
        by (auto simp: get_votes_def vote_in_def split: if_splits)
      with counted show ?thesis by (simp add: counted_for_def b)
    next
      case True
      with vote have "(i, v) \<notin> pd_voted s" "vote_in c i side = [v]" "vote_in c i (\<not> side) = []"
        "{u. (i, u) \<in> pd_voted s'} = insert v {u. (i, u) \<in> pd_voted s}"
        by (auto simp: may_vote_def vote_in_def)
      with counted vote(3) True show ?thesis
        by (cases side) (auto simp: counted_for_def b get_votes_def)
    qed
  next
    case (execute x j)
    from execute(2) ok show ?thesis
      by (rule executing_cases) (intro keep, simp_all add: execute(1) vote_in_def applying_frame)
  next
    case (cancel x j)
    from cancel(2) ok show ?thesis
      by (rule cancelling_cases) (intro keep, simp_all add: cancel(1) vote_in_def)
  qed
qed

lemma run_snoc: "run step (es @ [e]) s = exec step e (run step es s)"
  by (simp add: run_append)

lemma votes_counted: "counted_for T es (run (gov_step T) es dao_empty) i"
proof (induction es rule: rev_induct)
  case Nil
  then show ?case by (simp add: counted_for_def get_votes_def dao_empty_def u32_sat_def)
next
  case (snoc e es)
  obtain env w c where e: "e = ((env, w), c)" by (metis surj_pair)
  let ?s = "run (gov_step T) es dao_empty"
  have ok: "dao_ok ?s" by (rule gov.run_inv) (simp add: gov.start_inv)
  show ?case
  proof (cases "gov_step T e ?s")
    case (Inl x)
    then have "ballots T (es @ [e]) dao_empty i side = ballots T es dao_empty i side" for side
      by (simp add: ballots_snoc)
    with snoc Inl show ?thesis by (simp add: run_snoc counted_for_def)
  next
    case (Inr s')
    with tallied_step [OF ok refl snoc, of env w c s'] e show ?thesis by (simp add: run_snoc)
  qed
qed

lemma ballot_cast:
  assumes "v \<in> set (ballots T es dao_empty i side)"
  shows "\<exists>pre env w c post. es = pre @ ((env, w), c) # post \<and> (c = GVoteFor v i \<or> c = GVoteAgainst v i) \<and>
    may_vote T w env v i (run (gov_step T) pre dao_empty)"
  using assms
proof (induction es rule: rev_induct)
  case Nil
  then show ?case by simp
next
  case (snoc e es)
  let ?s = "run (gov_step T) es dao_empty"
  show ?case
  proof (cases "v \<in> set (ballots T es dao_empty i side)")
    case True
    from snoc.IH [OF this] obtain pre env w c post where "es = pre @ ((env, w), c) # post"
      "c = GVoteFor v i \<or> c = GVoteAgainst v i" "may_vote T w env v i (run (gov_step T) pre dao_empty)" by blast
    then show ?thesis by (metis append.assoc append_Cons)
  next
    case False
    obtain env w c where e: "e = ((env, w), c)" by (metis surj_pair)
    from False snoc.prems e obtain s' where step: "gov_step T ((env, w), c) ?s = Inr s'" and v: "v \<in> set (vote_in c i side)"
      by (cases "gov_step T ((env, w), c) ?s") (auto simp: ballots_snoc)
    have ok: "dao_ok ?s" by (rule gov.run_inv) (simp add: gov.start_inv)
    from v have c: "c = GVoteFor v i \<or> c = GVoteAgainst v i"
      by (auto simp: vote_in_def split: gov_call.splits if_splits)
    with step ok have "may_vote T w env v i ?s" by (auto simp: vote_for_Inr vote_against_Inr)
    with c e show ?thesis by blast
  qed
qed

section \<open>The life of a proposal\<close>

text \<open>What a call may do to the proposal with id \<open>i\<close>.\<close>

definition proposal_created :: "'w token_ops \<Rightarrow> 'w \<Rightarrow> ledger_env \<Rightarrow> dao_state \<Rightarrow> dao_state \<Rightarrow> nat \<Rightarrow> bool" where
  "proposal_created T w env s s' i \<longleftrightarrow> pd_proposals s i = None \<and>
     (\<exists>p. pd_proposals s' i = Some p \<and> dp_status p = DaoPending \<and> dp_id p = i \<and> dp_created_at p = sequence env \<and>
        authorized env (dp_creator p) \<and> may_take_part T w s (dp_creator p))"

definition proposal_executed :: "ledger_env \<Rightarrow> gov_call \<Rightarrow> dao_state \<Rightarrow> dao_state \<Rightarrow> nat \<Rightarrow> bool" where
  "proposal_executed env c s s' i \<longleftrightarrow>
     (\<exists>x p s1. c = GExecute x i \<and> pd_proposals s i = Some p \<and> dp_status p = DaoPending \<and>
        dao_is_expired env s i = Inr False \<and> quorum_met s i \<and> has_majority s i \<and>
        apply_action (dp_action p) s = Inr s1 \<and>
        s' = s1\<lparr>pd_proposals := (pd_proposals s)(i \<mapsto> p\<lparr>dp_status := DaoExecuted\<rparr>)\<rparr>)"

definition proposal_cancelled :: "ledger_env \<Rightarrow> gov_call \<Rightarrow> dao_state \<Rightarrow> dao_state \<Rightarrow> nat \<Rightarrow> bool" where
  "proposal_cancelled env c s s' i \<longleftrightarrow>
     (\<exists>x p. c = GCancel x i \<and> pd_proposals s i = Some p \<and> dp_status p = DaoPending \<and> authorized env x \<and>
        (dp_creator p = x \<or> pd_admin s = Some x) \<and>
        s' = s\<lparr>pd_proposals := (pd_proposals s)(i \<mapsto> p\<lparr>dp_status := DaoRejected\<rparr>)\<rparr>)"

lemma proposal_moves:
  assumes "dao_ok s" and "gov_step T ((env, w), c) s = Inr s'"
  shows "pd_proposals s' i = pd_proposals s i \<or> proposal_created T w env s s' i \<or>
    proposal_executed env c s s' i \<or> proposal_cancelled env c s s' i"
  using assms(2,1)
proof (cases rule: gov_step_cases)
  case office
  with assms(2) show ?thesis by (simp add: office_frame)
next
  case (propose a act j)
  from propose(4) show ?thesis
  proof (rule proposing_cases)
    assume j: "j = unwrap_or (pd_next_id s) 0" and s': "s' = s\<lparr>pd_next_id := Some (j + 1),
      pd_proposals := (pd_proposals s)(j \<mapsto> \<lparr>dp_id = j, dp_creator = a, dp_action = act, dp_status = DaoPending,
        dp_created_at = sequence env\<rparr>)\<rparr>"
    have "pd_proposals s j = None" using assms(1) j by (cases "pd_proposals s j") (auto simp: dao_ok_def)
    with s' propose(2,3) show ?thesis by (auto simp: proposal_created_def)
  qed
next
  case (execute x j)
  from execute(2) assms(1) show ?thesis
  proof (rule executing_cases)
    fix p s1
    assume *: "pd_proposals s j = Some p" "dp_status p = DaoPending" "dao_is_expired env s j = Inr False"
      "quorum_met s j" "has_majority s j" and a: "apply_action (dp_action p) s = Inr s1"
      and s': "s' = s1\<lparr>pd_proposals := (pd_proposals s1)(j \<mapsto> p\<lparr>dp_status := DaoExecuted\<rparr>)\<rparr>"
    show ?thesis
    proof (cases "j = i")
      case True
      with * a s' execute(1) applying_frame(1) [OF a] have "proposal_executed env c s s' i"
        unfolding proposal_executed_def by metis
      then show ?thesis by simp
    qed (simp add: s' applying_frame(1) [OF a])
  qed
next
  case (cancel x j)
  from cancel(2) assms(1) show ?thesis
    by (rule cancelling_cases) (use cancel(1) in \<open>auto simp: proposal_cancelled_def\<close>)
qed simp

lemma settings_by_execution:
  assumes "dao_ok s" and "gov_step T ((env, w), c) s = Inr s'"
  shows "pd_fee_config s' = pd_fee_config s \<and> pd_paused s' = pd_paused s \<or> (\<exists>i. proposal_executed env c s s' i)"
  using assms(2,1)
proof (cases rule: gov_step_cases)
  case office
  with assms(2) show ?thesis by (simp add: office_frame)
next
  case (propose a act j)
  from propose(4) show ?thesis by (rule proposing_cases) simp
next
  case (execute x j)
  from execute(2) assms(1) show ?thesis
  proof (rule executing_cases)
    fix p s1
    assume *: "pd_proposals s j = Some p" "dp_status p = DaoPending" "dao_is_expired env s j = Inr False"
      "quorum_met s j" "has_majority s j" and a: "apply_action (dp_action p) s = Inr s1"
      and s': "s' = s1\<lparr>pd_proposals := (pd_proposals s1)(j \<mapsto> p\<lparr>dp_status := DaoExecuted\<rparr>)\<rparr>"
    with execute(1) applying_frame(1) [OF a] have "proposal_executed env c s s' j"
      unfolding proposal_executed_def by metis
    then show ?thesis by blast
  qed
next
  case (cancel x j)
  from cancel(2) assms(1) show ?thesis by (rule cancelling_cases) simp
qed simp

text \<open>The fee configuration is what an executed proposal said, but for the switch; fees are not negative.\<close>

definition fee_voted :: "dao_state \<Rightarrow> bool" where
  "fee_voted s \<longleftrightarrow> (\<forall>t k f e. pd_fee_config s = Some (t, k, f, e) \<longrightarrow>
     (\<exists>i p e'. pd_proposals s i = Some p \<and> dp_status p = DaoExecuted \<and> dp_action p = SetAttestationFeeConfig t k f e'))"

definition fees_nonneg :: "dao_state \<Rightarrow> bool" where
  "fees_nonneg s \<longleftrightarrow> (\<forall>i p t k f e. pd_proposals s i = Some p \<longrightarrow> dp_action p = SetAttestationFeeConfig t k f e \<longrightarrow> 0 \<le> f)"

lemma proposes_nonneg: "proposes env c a (SetAttestationFeeConfig t k f e) \<Longrightarrow> 0 \<le> f"
  by (auto elim: proposes.cases)

lemma fees_nonneg_step:
  assumes "fees_nonneg s" and "dao_ok s" and "gov_step T ((env, w), c) s = Inr s'"
  shows "fees_nonneg s'"
  using assms(3,2)
proof (cases rule: gov_step_cases)
  case office
  with assms show ?thesis by (simp add: fees_nonneg_def office_frame)
next
  case (propose a act j)
  from propose(4) show ?thesis
    by (rule proposing_cases) (use assms(1) propose(1) in \<open>auto simp: fees_nonneg_def dest: proposes_nonneg\<close>)
next
  case (execute x j)
  from execute(2) assms(2) show ?thesis
    by (rule executing_cases) (use assms(1) in \<open>fastforce simp: fees_nonneg_def applying_frame split: if_splits\<close>)
next
  case (cancel x j)
  from cancel(2) assms(2) show ?thesis
    by (rule cancelling_cases) (use assms(1) in \<open>fastforce simp: fees_nonneg_def split: if_splits\<close>)
qed (use assms(1) in \<open>simp add: fees_nonneg_def\<close>)

lemma executed_stays:
  assumes "dao_ok s" and "gov_step T ((env, w), c) s = Inr s'" and "pd_proposals s i = Some p" and "dp_status p = DaoExecuted"
  shows "pd_proposals s' i = Some p"
  using proposal_moves [OF assms(1,2), of i] assms(3,4)
  by (auto simp: proposal_created_def proposal_executed_def proposal_cancelled_def)

lemma fee_voted_step:
  assumes "fee_voted s" and "dao_ok s" and "gov_step T ((env, w), c) s = Inr s'"
  shows "fee_voted s'"
proof -
  have old: "\<exists>i p e'. pd_proposals s' i = Some p \<and> dp_status p = DaoExecuted \<and> dp_action p = SetAttestationFeeConfig t k f e'"
    if "pd_fee_config s = Some (t, k, f, e)" for t k f e
    using assms(1) that executed_stays [OF assms(2,3)] unfolding fee_voted_def by blast
  have same: ?thesis if "pd_fee_config s' = pd_fee_config s"
    unfolding fee_voted_def that using old by blast
  from settings_by_execution [OF assms(2,3)] show ?thesis
  proof (elim disjE exE)
    fix i assume "proposal_executed env c s s' i"
    then obtain p s1 where p: "pd_proposals s i = Some p" and a: "apply_action (dp_action p) s = Inr s1"
      and s': "s' = s1\<lparr>pd_proposals := (pd_proposals s)(i \<mapsto> p\<lparr>dp_status := DaoExecuted\<rparr>)\<rparr>"
      by (auto simp: proposal_executed_def)
    have new: "pd_proposals s' i = Some (p\<lparr>dp_status := DaoExecuted\<rparr>)" using s' by simp
    show ?thesis
    proof (cases "dp_action p")
      case (SetAttestationFeeConfig t k f e)
      with a s' have "pd_fee_config s' = Some (t, k, f, e)" by auto
      with new SetAttestationFeeConfig show ?thesis by (fastforce simp: fee_voted_def)
    next
      case (SetAttestationFeeEnabled e)
      with a s' obtain t k f d where "pd_fee_config s = Some (t, k, f, d)" "pd_fee_config s' = Some (t, k, f, e)" by auto
      with old show ?thesis by (simp add: fee_voted_def)
    next
      case (UpdateGovernanceConfig m d)
      with a s' show ?thesis by (intro same) (auto split: prod.splits)
    next
      case PauseAttestation
      with a s' show ?thesis by (intro same) auto
    next
      case UnpauseAttestation
      with a s' show ?thesis by (intro same) auto
    qed
  qed (simp add: same)
qed

interpretation govfee: invariant_machine "\<lambda>s. s = dao_empty" "gov_step T" "\<lambda>s. dao_ok s \<and> fee_voted s \<and> fees_nonneg s" for T
proof
  show "dao_ok s \<and> fee_voted s \<and> fees_nonneg s" if "s = dao_empty" for s
    using that gov.start_inv by (simp add: fee_voted_def fees_nonneg_def dao_empty_def)
  show "dao_ok s' \<and> fee_voted s' \<and> fees_nonneg s'" if "dao_ok s \<and> fee_voted s \<and> fees_nonneg s" "gov_step T e s = Inr s'" for e s s'
    using that by (cases e rule: prod.exhaust, cases "fst e") (auto intro: dao_ok_step fee_voted_step fees_nonneg_step)
qed

section \<open>The office of the administrator\<close>

definition office_step :: "'w token_ops \<Rightarrow> (ledger_env \<times> 'w) \<times> gov_call \<Rightarrow> dao_state \<Rightarrow> dao_state res" where
  "office_step T e s = (if pd_admin s = None then Inl CallFailed else gov_step T e s)"

definition accepts_office :: "(ledger_env \<times> 'w) \<times> gov_call \<Rightarrow> address \<Rightarrow> bool" where
  "accepts_office e a \<longleftrightarrow> snd e = GAcceptAdmin a \<and> authorized (fst (fst e)) a"

lemma office_passes:
  assumes "gov_step T ((env, w), c) s = Inr s'" and "pd_admin s = Some a" and "pd_admin s' \<noteq> pd_admin s"
  shows "\<exists>b. pd_pending_admin s = Some b \<and> c = GAcceptAdmin b \<and> authorized env b \<and> pd_admin s' = Some b"
  using assms
  by (cases c)
    (auto simp: dao_initialize_def transfer_admin_def accept_admin_def set_governance_token_def set_voting_config_def
      create_fee_config_proposal_def create_fee_toggle_proposal_def create_gov_config_proposal_def create_pause_proposal_def
      create_unpause_proposal_def vote_for_def vote_against_def cancel_proposal_def dao_execute_proposal_def
      dao_helpers applying_frame elim!: proposing_cases split: prod.splits)

interpretation dao_office: two_step_handover "office_step T" pd_admin pd_pending_admin accepts_office for T
proof
  show "\<exists>a. pd_pending_admin s = Some a \<and> accepts_office e a \<and> pd_admin s' = Some a"
    if "office_step T e s = Inr s'" "pd_admin s' \<noteq> pd_admin s" for e s s'
    using that office_passes [of T "fst (fst e)" "snd (fst e)" "snd e" s s']
    by (cases "pd_admin s") (auto simp: office_step_def accepts_office_def)
qed

lemma office_run: "pd_admin s \<noteq> None \<Longrightarrow> run (gov_step T) es s = run (office_step T) es s"
proof (induction es arbitrary: s)
  case Nil
  then show ?case by simp
next
  case (Cons e es)
  then have "office_step T e s = gov_step T e s" by (auto simp: office_step_def)
  moreover have "pd_admin (exec (gov_step T) e s) \<noteq> None"
    using Cons.prems dao_office.exec_passes [of T e s] calculation by (force simp: exec_def split: sum.splits)
  ultimately show ?case using Cons.IH by (simp add: exec_def)
qed

section \<open>Properties\<close>

text \<open>
  C22. A proposal is executed only by a majority of a quorum. When a proposal has been executed, one of the
  calls of the history executed it, authorized by its caller and before the proposal expired, and at that
  moment the accepted votes for it outnumber those against it and reach, together, the quorum in force. All
  of them come from different accounts, each of which authorized its vote and voted while the proposal was
  pending and not expired; and if a governance token was configured when it voted, it held some of that token
  then. Without a governance token the DAO is open: anyone may vote, and accounts are all that is counted.
\<close>

theorem dao_executed_by_majority:
  assumes "pd_proposals (run (gov_step T) es dao_empty) i = Some p" and "dp_status p = DaoExecuted"
  shows "\<exists>pre env w x post. es = pre @ ((env, w), GExecute x i) # post \<and> authorized env x \<and>
    dao_is_expired env (run (gov_step T) pre dao_empty) i = Inr False \<and>
    (let s = run (gov_step T) pre dao_empty;
         yes = ballots T pre dao_empty i True;
         no = ballots T pre dao_empty i False in
     distinct (yes @ no) \<and> length no < length yes \<and> get_min_votes s \<le> length yes + length no \<and>
     (\<forall>v\<in>set (yes @ no). \<exists>pre' env' w' c post'. pre = pre' @ ((env', w'), c) # post' \<and>
        (c = GVoteFor v i \<or> c = GVoteAgainst v i) \<and> authorized env' v \<and>
        (let s' = run (gov_step T) pre' dao_empty in
         (\<forall>token. pd_token s' = Some token \<longrightarrow> 0 < tok_balance T token v w') \<and>
         map_option dp_status (pd_proposals s' i) = Some DaoPending \<and> dao_is_expired env' s' i = Inr False)))"
proof -
  let ?Q = "\<lambda>s. \<exists>p. pd_proposals s i = Some p \<and> dp_status p = DaoExecuted"
  have "?Q (run (gov_step T) es dao_empty)" "\<not> ?Q dao_empty" using assms by (simp_all add: dao_empty_def)
  from run_becomes [of ?Q, OF this] obtain pre e post t where es: "es = pre @ e # post"
    "\<not> ?Q (run (gov_step T) pre dao_empty)" "gov_step T e (run (gov_step T) pre dao_empty) = Inr t" "?Q t" by blast
  obtain env w c where e: "e = ((env, w), c)" by (metis surj_pair)
  let ?s = "run (gov_step T) pre dao_empty"
  have ok: "dao_ok ?s" by (rule gov.run_inv) (simp add: gov.start_inv)
  from es(3) ok have "\<exists>x. c = GExecute x i \<and> authorized env x \<and> dao_is_expired env ?s i = Inr False \<and> quorum_met ?s i \<and> has_majority ?s i" unfolding e
  proof (cases rule: gov_step_cases)
    case (propose a act j)
    from propose(4) es(2,4) show ?thesis by (auto elim!: proposing_cases split: if_splits)
  next
    case (execute x j)
    from execute(2) ok es(2,4) execute(1) show ?thesis
      by (auto elim!: executing_cases simp: applying_frame split: if_splits)
  next
    case (cancel x j)
    from cancel(2) ok es(2,4) show ?thesis by (auto elim!: cancelling_cases split: if_splits)
  next
    case office
    with es(3) e have "pd_proposals t = pd_proposals ?s" by (simp add: office_frame)
    with es(2,4) show ?thesis by metis
  qed (use es(2,4) in auto)
  then obtain x where x: "c = GExecute x i" "authorized env x" "dao_is_expired env ?s i = Inr False" and q: "quorum_met ?s i" "has_majority ?s i" by blast
  have cnt: "get_votes ?s i = (u32_sat (length (ballots T pre dao_empty i True)), u32_sat (length (ballots T pre dao_empty i False)))"
    "distinct (ballots T pre dao_empty i True @ ballots T pre dao_empty i False)"
    using votes_counted [of T pre i] by (simp_all add: counted_for_def)
  have "length (ballots T pre dao_empty i False) < length (ballots T pre dao_empty i True)"
    using q(2) by (auto simp: has_majority_def cnt(1) u32_sat_def)
  moreover have "get_min_votes ?s \<le> length (ballots T pre dao_empty i True) + length (ballots T pre dao_empty i False)"
    using q(1) by (auto simp: quorum_met_def cnt(1) u32_sat_def)
  moreover have "\<exists>pre' env' w' c post'. pre = pre' @ ((env', w'), c) # post' \<and>
      (c = GVoteFor v i \<or> c = GVoteAgainst v i) \<and> authorized env' v \<and>
      (let s' = run (gov_step T) pre' dao_empty in
       (\<forall>token. pd_token s' = Some token \<longrightarrow> 0 < tok_balance T token v w') \<and>
       map_option dp_status (pd_proposals s' i) = Some DaoPending \<and> dao_is_expired env' s' i = Inr False)"
    if v: "v \<in> set (ballots T pre dao_empty i True @ ballots T pre dao_empty i False)" for v
  proof -
    obtain side where "v \<in> set (ballots T pre dao_empty i side)" using v by auto
    from ballot_cast [OF this] show ?thesis
      by (elim exE conjE) (intro exI conjI, assumption+, auto simp: may_vote_def may_take_part_def Let_def)
  qed
  ultimately show ?thesis using es(1) e x cnt(2)
    by (intro exI [of _ pre] exI [of _ env] exI [of _ w] exI [of _ x] exI [of _ post]) (simp add: Let_def)
qed

text \<open>
  Proposals follow their lifecycle. In every reachable state a successful call leaves a proposal as it
  is or moves it once: it is created as pending by an account that authorized the call and held governance
  tokens, if a governance token was configured; it is executed, while pending, not expired and approved by a majority of a quorum, and its action
  takes effect in the same call; or it is cancelled by its creator or the administrator. Executed and
  cancelled proposals never change, what a proposal asks for never changes, and the fee configuration and
  the pause flag change in no other way than by an execution.
\<close>

theorem dao_proposals_follow_lifecycle:
  assumes "reachable (\<lambda>s. s = dao_empty) (gov_step T) s" and "gov_step T ((env, w), c) s = Inr s'"
  shows "(\<forall>i. pd_proposals s' i = pd_proposals s i \<or> proposal_created T w env s s' i \<or>
        proposal_executed env c s s' i \<or> proposal_cancelled env c s s' i) \<and>
    (pd_fee_config s' = pd_fee_config s \<and> pd_paused s' = pd_paused s \<or> (\<exists>i. proposal_executed env c s s' i))"
  using proposal_moves [OF gov.reachable_inv [OF assms(1)] assms(2)]
    settings_by_execution [OF gov.reachable_inv [OF assms(1)] assms(2)] by simp

text \<open>
  The administration of an initialized DAO passes only to a nominee who accepts it.
\<close>

theorem dao_admin_accepts:
  assumes "pd_admin s = Some a" and "pd_admin (run (gov_step T) es s) \<noteq> Some a"
  shows "\<exists>b pre env w post. es = pre @ ((env, w), GAcceptAdmin b) # post \<and> authorized env b \<and>
    pd_pending_admin (run (gov_step T) pre s) = Some b \<and> pd_admin (run (gov_step T) es s) = Some b"
proof -
  have run: "run (gov_step T) cs s = run (office_step T) cs s" for cs
    by (rule office_run) (simp add: assms(1))
  from dao_office.new_holder_accepted [of T es s] assms obtain b pre e post where
    "es = pre @ e # post" "pd_admin (run (office_step T) es s) = Some b"
    "pd_pending_admin (run (office_step T) pre s) = Some b" "accepts_office e b" by (auto simp: run)
  then show ?thesis unfolding run accepts_office_def by (metis prod.collapse)
qed

text \<open>
  Votes count accounts, not tokens. The balance is asked for when a vote is cast and the tokens stay
  free to move, so a single unit of the governance token, handed from account to account, casts a vote
  from each of them: any number of accounts without further tokens carries any quorum.
\<close>

definition sole_holder :: "address \<Rightarrow> ref_ledger" where
  "sole_holder v = (\<lambda>t a. if a = v then 1 else 0)"

theorem one_token_votes_often:
  assumes "dao_ok s" and "pd_proposals s i = Some p" and "dp_status p = DaoPending"
    and "dao_is_expired env s i = Inr False" and "\<forall>a. authorized env a"
    and "distinct vs" and "\<forall>v\<in>set vs. (i, v) \<notin> pd_voted s" and "fst (get_votes s i) + length vs \<le> u32_max"
  shows "get_votes (run (gov_step ref_token) (map (\<lambda>v. ((env, sole_holder v), GVoteFor v i)) vs) s) i =
      (fst (get_votes s i) + length vs, snd (get_votes s i)) \<and>
    (\<forall>u v t. u \<noteq> v \<longrightarrow> tok_transfer ref_token t u v 1 (\<lambda>t' a. if t' = t then sole_holder u t a else 0) =
       Some (\<lambda>t' a. if t' = t then sole_holder v t a else 0))"
proof
  show "get_votes (run (gov_step ref_token) (map (\<lambda>v. ((env, sole_holder v), GVoteFor v i)) vs) s) i =
      (fst (get_votes s i) + length vs, snd (get_votes s i))"
    using assms(1-4,6-8)
  proof (induction vs arbitrary: s)
    case Nil
    then show ?case by simp
  next
    case (Cons v vs)
    let ?e = "((env, sole_holder v), GVoteFor v i)" and ?s1 = "set_voted i v (count_vote True i s)"
    have "require_token_holder ref_token (sole_holder v) s v = Inr ()"
      by (simp add: require_token_holder_def ref_token_def sole_holder_def split: option.split)
    then have step: "gov_step ref_token ?e s = Inr ?s1"
      using Cons.prems assms(5) by (simp add: vote_for_Inr may_vote_def)
    have v1: "get_votes ?s1 i = (fst (get_votes s i) + 1, snd (get_votes s i))"
      using Cons.prems(7) by (simp add: get_votes_def u32_sat_def)
    have "dao_ok ?s1" using dao_ok_step [OF Cons.prems(1) step] .
    moreover have "dao_is_expired env ?s1 i = Inr False"
      using Cons.prems(2,4) by (simp add: dao_is_expired_def get_proposal_internal_def get_proposal_duration_def)
    ultimately have "get_votes (run (gov_step ref_token) (map (\<lambda>v. ((env, sole_holder v), GVoteFor v i)) vs) ?s1) i =
        (fst (get_votes ?s1 i) + length vs, snd (get_votes ?s1 i))"
      using Cons.prems v1 by (intro Cons.IH) auto
    with step v1 show ?case by simp
  qed
  show "\<forall>u v t. u \<noteq> v \<longrightarrow> tok_transfer ref_token t u v 1 (\<lambda>t' a. if t' = t then sole_holder u t a else 0) =
       Some (\<lambda>t' a. if t' = t then sole_holder v t a else 0)"
    by (auto simp: ref_token_def sole_holder_def moved_def fun_eq_iff)
qed

section \<open>A concrete history\<close>

text \<open>A fee configuration is proposed, gets two votes and is executed; the quorum is two.\<close>

definition gov_at :: "gov_call \<Rightarrow> (ledger_env \<times> ref_ledger) \<times> gov_call" where
  "gov_at c = ((env_at 0 10, \<lambda>t a. 5), c)"

definition gov_calls :: "((ledger_env \<times> ref_ledger) \<times> gov_call) list" where
  "gov_calls = map gov_at [GInit ''ADMIN'' (Some ''GOV'') 2 0,
     GProposeFee ''ALICE'' ''USDC'' ''COLLECTOR'' 100 True, GVoteFor ''ALICE'' 0, GVoteFor ''BOB'' 0]"

definition gov_proposal :: dao_proposal where
  "gov_proposal = \<lparr>dp_id = 0, dp_creator = ''ALICE'', dp_action = SetAttestationFeeConfig ''USDC'' ''COLLECTOR'' 100 True,
     dp_status = DaoPending, dp_created_at = 10\<rparr>"

definition gov_voted :: dao_state where
  "gov_voted = dao_empty\<lparr>pd_admin := Some ''ADMIN'', pd_token := Some ''GOV'', pd_min_votes := Some 2,
     pd_duration := Some 120960, pd_next_id := Some 1, pd_proposals := [0 \<mapsto> gov_proposal], pd_for := [0 \<mapsto> 2],
     pd_voted := {(0, ''ALICE''), (0, ''BOB'')}\<rparr>"

lemmas gov_defs = dao_initialize_def validate_min_votes_def validate_proposal_duration_def normalize_config_def
  MAX_MIN_VOTES_def MAX_PROPOSAL_DURATION_def DEFAULT_PROPOSAL_DURATION_def u32_max_def u64_max_def dao_empty_def
  create_fee_config_proposal_def require_token_holder_def ref_token_def new_dao_proposal_def next_proposal_id_def
  vote_for_def dao_helpers get_proposal_duration_def get_votes_def u32_sat_def

lemma gov_run: "run (gov_step ref_token) gov_calls dao_empty = gov_voted"
  by (simp add: gov_calls_def gov_at_def gov_voted_def gov_proposal_def gov_defs exec_def insert_commute numeral_2_eq_2)

lemma gov_executes:
  "gov_step ref_token (gov_at (GExecute ''CAROL'' 0)) gov_voted =
     Inr (gov_voted\<lparr>pd_fee_config := Some (''USDC'', ''COLLECTOR'', 100, True),
       pd_proposals := [0 \<mapsto> gov_proposal\<lparr>dp_status := DaoExecuted\<rparr>]\<rparr>)"
  by (simp add: gov_at_def gov_voted_def gov_proposal_def dao_execute_proposal_def gov_defs quorum_met_def
      has_majority_def get_min_votes_def)

lemma dao_executed_by_majority_witness:
  "\<exists>pre env w x post. gov_calls @ [gov_at (GExecute ''CAROL'' 0)] = pre @ ((env, w), GExecute x 0) # post \<and>
     length (ballots ref_token pre dao_empty 0 False) < length (ballots ref_token pre dao_empty 0 True)"
proof -
  have ex: "pd_proposals (run (gov_step ref_token) (gov_calls @ [gov_at (GExecute ''CAROL'' 0)]) dao_empty) 0 =
      Some (gov_proposal\<lparr>dp_status := DaoExecuted\<rparr>)"
    using gov_executes by (simp add: run_append gov_run)
  have "dp_status (gov_proposal\<lparr>dp_status := DaoExecuted\<rparr>) = DaoExecuted" by simp
  from dao_executed_by_majority [OF ex this] show ?thesis
    unfolding Let_def by (elim exE conjE) (intro exI conjI)
qed

lemma dao_proposals_follow_lifecycle_witness:
  "\<exists>s'. gov_step ref_token (gov_at (GExecute ''CAROL'' 0)) gov_voted = Inr s' \<and>
     proposal_executed (env_at 0 10) (GExecute ''CAROL'' 0) gov_voted s' 0"
proof -
  obtain s' where step: "gov_step ref_token (gov_at (GExecute ''CAROL'' 0)) gov_voted = Inr s'"
    and p: "pd_proposals s' 0 \<noteq> pd_proposals gov_voted 0"
    using gov_executes by (auto simp: gov_voted_def gov_proposal_def)
  have "reachable (\<lambda>s. s = dao_empty) (gov_step ref_token) gov_voted"
    using reachable_run [of "\<lambda>s. s = dao_empty" "gov_step ref_token" dao_empty gov_calls]
    by (simp add: gov_run reachable_start)
  from conjunct1 [OF dao_proposals_follow_lifecycle [OF this step [unfolded gov_at_def]], THEN spec, of 0] p
  have "proposal_executed (env_at 0 10) (GExecute ''CAROL'' 0) gov_voted s' 0"
    by (auto simp: proposal_created_def proposal_cancelled_def gov_voted_def)
  with step show ?thesis by blast
qed

lemma one_token_votes_often_witness:
  "get_votes (run (gov_step ref_token) (map (\<lambda>v. ((env_at 0 10, sole_holder v), GVoteFor v 0)) [''EVE'', ''EVE2'', ''EVE3'']) gov_voted) 0 = (5, 0)"
proof -
  have "dao_ok gov_voted" using gov.run_inv [of dao_empty ref_token gov_calls] gov.start_inv by (simp add: gov_run)
  then have "get_votes (run (gov_step ref_token) (map (\<lambda>v. ((env_at 0 10, sole_holder v), GVoteFor v 0)) [''EVE'', ''EVE2'', ''EVE3'']) gov_voted) 0 =
      (fst (get_votes gov_voted 0) + length [''EVE'', ''EVE2'', ''EVE3''], snd (get_votes gov_voted 0))"
    by (rule one_token_votes_often [where p = gov_proposal, THEN conjunct1])
      (simp_all add: gov_voted_def gov_proposal_def dao_empty_def dao_is_expired_def get_proposal_internal_def
        get_proposal_duration_def u32_sat_def u32_max_def get_votes_def)
  moreover have "get_votes gov_voted 0 = (2, 0)" by (simp add: gov_voted_def dao_empty_def get_votes_def)
  ultimately show ?thesis by (simp del: run.simps list.map)
qed

end
