(* ===== verification/Dao_Link.thy ===== *)
theory Dao_Link
  imports Attestation Protocol_Dao
begin

text \<open>
  The attestation contract with the repository's own DAO (\<open>protocol-dao/src/lib.rs\<close>) behind its fee
  interface: \<open>get_attestation_fee_config\<close>, a parameter of the fee modules, becomes the DAO's.
\<close>

section \<open>The DAO behind the interface\<close>

text \<open>A ledger with one contract at \<open>D\<close>, the DAO in state \<open>d\<close>; a call to another address fails.\<close>

definition dao_at :: "address \<Rightarrow> dao_state \<Rightarrow> dao_call" where
  "dao_at D d a = (if a = D then Inr (get_attestation_fee_config d) else Inl CallFailed)"

lemma dynamic_from_dao:
  assumes "get_dao f = Some D" and "get_attestation_fee_config d = Some (t, k, base, e)"
  shows "get_effective_fee_config (dao_at D d) f =
    Inr (Some \<lparr>fc_token = t, fc_collector = k, fc_base_fee = base, fc_enabled = e\<rparr>)"
  using assms by (simp add: get_effective_fee_config_def get_fee_config_from_dao_def dao_at_def)

lemma flat_from_dao:
  assumes "flat_get_dao f = Some D" and "get_attestation_fee_config d = Some (t, k, base, e)"
  shows "get_effective_flat_fee_config (dao_at D d) f =
    Inr (Some \<lparr>fl_token = t, fl_collector = k, fl_amount = base, fl_enabled = e\<rparr>)"
  using assms by (simp add: get_effective_flat_fee_config_def get_flat_fee_config_from_dao_def dao_at_def)

lemma compute_fee_between: "compute_fee base t v = Inr fee \<Longrightarrow> 0 \<le> fee \<and> fee \<le> base"
  by (auto simp: compute_fee_def Let_def)

text \<open>The two fees of a business under a configuration of the DAO.\<close>

lemma fees_from_dao:
  assumes "get_dao (at_fees s) = Some D" and "flat_get_dao (at_flat s) = Some D"
    and "get_attestation_fee_config d = Some (t, k, base, e)"
  shows "calculate_fee (dao_at D d) (at_fees s) b = Inr fee \<Longrightarrow> (if e then 0 \<le> fee \<and> fee \<le> base else fee = 0)"
    and "calculate_flat_fee (dao_at D d) (at_flat s) = Inr (if e then base else 0)"
  using dynamic_from_dao [OF assms(1,3)] flat_from_dao [OF assms(2,3)]
  by (auto simp: calculate_fee_def calculate_flat_fee_def Let_def dest: compute_fee_between split: if_splits)

section \<open>Properties\<close>

text \<open>
  Fees are what the token holders decided. When the DAO sets the fees of the attestation contract, what
  a business is quoted is bounded by a proposal that was executed, so by a majority of a quorum: with fees
  switched on the quote lies between the proposal's fee and twice that fee, since the DAO's one
  configuration serves as the dynamic fee, less discounts, and as the flat fee on top; with fees switched
  off it is zero.
\<close>

theorem governed_fees:
  assumes "reachable (\<lambda>s. s = dao_empty) (gov_step T) d"
    and "get_dao (at_fees s) = Some D" and "flat_get_dao (at_flat s) = Some D"
    and "get_attestation_fee_config d \<noteq> None" and "get_fee_quote (dao_at D d) s b = Inr quote"
  shows "\<exists>i p t k base e e'. pd_proposals d i = Some p \<and> dp_status p = DaoExecuted \<and>
    dp_action p = SetAttestationFeeConfig t k base e' \<and> get_attestation_fee_config d = Some (t, k, base, e) \<and>
    (if e then base \<le> quote \<and> quote \<le> 2 * base else quote = 0)"
proof -
  obtain t k base e where c: "get_attestation_fee_config d = Some (t, k, base, e)" using assms(4) by auto
  then obtain i p e' where p: "pd_proposals d i = Some p" "dp_status p = DaoExecuted"
    "dp_action p = SetAttestationFeeConfig t k base e'"
    using govfee.reachable_inv [OF assms(1)] by (auto simp: fee_voted_def get_attestation_fee_config_def)
  from assms(5) obtain dyn where "calculate_fee (dao_at D d) (at_fees s) b = Inr dyn"
    "quote = dyn + (if e then base else 0)"
    using fees_from_dao(2) [OF assms(2,3) c] by (auto simp: get_fee_quote_def)
  with fees_from_dao(1) [OF assms(2,3) c, of b dyn] have "if e then base \<le> quote \<and> quote \<le> 2 * base else quote = 0"
    by (auto split: if_splits)
  with p c show ?thesis by blast
qed

text \<open>
  The DAO that executed the proposal of \<open>gov_calls\<close>, and a contract that takes both its fees from it; the
  business has a tier discount of a tenth.
\<close>

definition governed :: dao_state where
  "governed = gov_voted\<lparr>pd_fee_config := Some (''USDC'', ''COLLECTOR'', 100, True),
     pd_proposals := [0 \<mapsto> gov_proposal\<lparr>dp_status := DaoExecuted\<rparr>]\<rparr>"

definition governed_att :: att_state where
  "governed_att = att_empty\<lparr>at_fees := fee_empty\<lparr>fs_dao := Some ''DAO'', fs_tier_discount := [0 \<mapsto> 1000]\<rparr>,
     at_flat := flat_empty\<lparr>fl_dao := Some ''DAO''\<rparr>\<rparr>"

lemma governed_quote: "get_fee_quote (dao_at ''DAO'' governed) governed_att ''BIZ'' = Inr 190"
proof -
  have c: "get_attestation_fee_config governed = Some (''USDC'', ''COLLECTOR'', 100, True)"
    by (simp add: governed_def get_attestation_fee_config_def)
  have d: "get_dao (at_fees governed_att) = Some ''DAO''" "flat_get_dao (at_flat governed_att) = Some ''DAO''"
    by (simp_all add: governed_att_def att_empty_def get_dao_def flat_get_dao_def)
  have "calculate_fee (dao_at ''DAO'' governed) (at_fees governed_att) ''BIZ'' = Inr 90"
    using dynamic_from_dao [OF d(1) c] compute_fee_value [of 1000 0 100]
    by (simp add: calculate_fee_def Let_def get_tier_discount_def get_business_tier_def volume_discount_for_count_def
        get_volume_thresholds_def governed_att_def att_empty_def fee_empty_def i128_max_def)
  then show ?thesis using fees_from_dao(2) [OF d c]
    by (simp add: get_fee_quote_def in_i128_def i128_min_def i128_max_def)
qed

lemma governed_fees_witness:
  "\<exists>i p t k base e e'. pd_proposals governed i = Some p \<and> dp_action p = SetAttestationFeeConfig t k base e' \<and>
     get_attestation_fee_config governed = Some (t, k, base, e) \<and> (if e then base \<le> 190 \<and> 190 \<le> 2 * base else (190 :: int) = 0)"
proof -
  have "reachable (\<lambda>s. s = dao_empty) (gov_step ref_token) gov_voted"
    using reachable_run [of "\<lambda>s. s = dao_empty" "gov_step ref_token" dao_empty gov_calls]
    by (simp add: gov_run reachable_start)
  then have r: "reachable (\<lambda>s. s = dao_empty) (gov_step ref_token) governed"
    using gov_executes unfolding governed_def by (rule reachable_call)
  have d: "get_dao (at_fees governed_att) = Some ''DAO''" "flat_get_dao (at_flat governed_att) = Some ''DAO''"
    "get_attestation_fee_config governed \<noteq> None"
    by (simp_all add: governed_att_def att_empty_def get_dao_def flat_get_dao_def governed_def get_attestation_fee_config_def)
  from governed_fees [OF r d governed_quote] show ?thesis by (elim exE conjE) (intro exI conjI)
qed

end
