(* ===== verification/Attestation_Traces.thy ===== *)
theory Attestation_Traces
  imports Attestation_Contract
begin

text \<open>
  What a call may do to one attestation, for every call of the contract, and what follows over histories.
\<close>

section \<open>Submissions, item by item\<close>

definition item_data :: "batch_item \<Rightarrow> int \<Rightarrow> att_data" where
  "item_data i fee = \<lparr>ad_root = bi_root i, ad_timestamp = bi_timestamp i, ad_version = bi_version i, ad_fee = fee,
     ad_proof_hash = bi_proof_hash i, ad_expiry = bi_expiry i\<rparr>"

lemma store_item_active:
  assumes "store_item env X payer i (s, w) = Inr (s', w')"
  shows "\<exists>fee. at_active s' = (at_active s)(item_key i \<mapsto> item_data i fee)"
proof -
  obtain rl f1 fee s2 where e:
    "charge_fees X (unwrap_or payer (bi_business i)) (bi_business i) (s\<lparr>at_rate := rl, at_fees := f1\<rparr>, w) = Inr (fee, s2, w')"
    "s' = write_record env (bi_business i) (bi_period i) (item_data i fee)
       (case payer of Some p \<Rightarrow> s2\<lparr>at_attestor := (at_attestor s2)((bi_business i, bi_period i) \<mapsto> p)\<rparr> | None \<Rightarrow> s2)"
    using assms by (auto simp: store_item_def item_data_def Let_def split: prod.splits)
  have "at_active s2 = at_active s" using charge_frame [OF e(1)] by simp
  then show ?thesis by (auto simp: e(2) write_record_frame item_key_def split: option.split)
qed

lemma store_loop_active:
  assumes "store_loop env X payer items (s, w) = Inr (s', w')"
  shows "sub_frame s s' \<and> at_access s' = at_access s \<and>
    (at_active s' k = at_active s k \<or> (\<exists>i\<in>set items. \<exists>fee. item_key i = k \<and> at_active s' k = Some (item_data i fee)))"
  using assms
proof (induction items arbitrary: s w)
  case Nil
  then show ?case by simp
next
  case (Cons i items)
  from Cons.prems obtain s1 w1 where one: "store_item env X payer i (s, w) = Inr (s1, w1)"
    and rest: "store_loop env X payer items (s1, w1) = Inr (s', w')" by auto
  note f = store_item_frame(1,2) [OF one]
  obtain fee where a: "at_active s1 = (at_active s)(item_key i \<mapsto> item_data i fee)" using store_item_active [OF one] by blast
  have "sub_frame s s'" using Cons.IH [OF rest] f(1) by (blast intro: sub_frame_trans)
  with Cons.IH [OF rest] f(2) a show ?case by (cases "item_key i = k") (fastforce, force)
qed

lemma validation_loop_ok:
  "validation_loop env s rba authed seen items = Inr () \<Longrightarrow> i \<in> set items \<Longrightarrow>
   item_ok env s i \<and> (rba \<longrightarrow> authorized env (bi_business i) \<or> bi_business i \<in> set authed)"
proof (induction items arbitrary: authed seen)
  case Nil
  then show ?case by simp
next
  case (Cons j items)
  from Cons.prems(1) obtain authed1 where st: "item_ok env s j" "set authed1 \<subseteq> insert (bi_business j) (set authed)"
    "rba \<longrightarrow> authorized env (bi_business j) \<or> bi_business j \<in> set authed"
    "validation_loop env s rba authed1 (seen @ [item_key j]) items = Inr ()"
    by (intro that [of "if rba \<and> bi_business j \<notin> set authed then authed @ [bi_business j] else authed"])
      (auto simp: Let_def item_ok_def item_key_def require_active_Inr split: if_splits)
  show ?case
  proof (cases "i = j")
    case True
    with st(1,3) show ?thesis by simp
  next
    case False
    with Cons.prems(2) have "i \<in> set items" by simp
    from Cons.IH [OF st(4) this] st(2,3) show ?thesis by auto
  qed
qed

lemma auth_loop_ok:
  "auth_loop env authed items = Inr () \<Longrightarrow> i \<in> set items \<Longrightarrow>
   authorized env (bi_business i) \<or> bi_business i \<in> set authed"
proof (induction items arbitrary: authed)
  case Nil
  then show ?case by simp
next
  case (Cons j items)
  show ?case
  proof (cases "i \<in> set items")
    case True
    with Cons show ?thesis by (fastforce split: if_splits)
  next
    case False
    with Cons.prems show ?thesis by (auto split: if_splits)
  qed
qed

lemma execute_batch_cases:
  assumes "execute_batch_submission env X payer items rba (s, w) = Inr (s', w')"
  shows "sub_frame s s' \<and> at_access s' = check_and_apply_pending_pause env (at_access s) \<and> \<not> is_paused (at_access s') \<and>
    (at_active s' k = at_active s k \<or>
     (\<exists>i\<in>set items. \<exists>fee. item_key i = k \<and> item_ok env s i \<and> at_active s' k = Some (item_data i fee) \<and>
        (rba \<longrightarrow> authorized env (fst k))))"
proof -
  obtain ac s2 where e: "require_not_paused env (at_access s) = Inr ac"
    "validation_loop env (s\<lparr>at_access := ac\<rparr>) rba [] [] items = Inr ()"
    "store_loop env X payer items (s\<lparr>at_access := ac\<rparr>, w) = Inr (s2, w')"
    "s' = (case payer of Some r \<Rightarrow> s2\<lparr>at_fees := add_relayer_gas (at_fees s2) r 0\<rparr> | None \<Rightarrow> s2)"
    using assms by (auto simp: execute_batch_submission_def Let_def split: option.splits)
  have s': "sub_frame s2 s'" "at_access s' = at_access s2" "at_active s' = at_active s2"
    using e(4) by (auto split: option.splits)
  note l = store_loop_active [OF e(3), of k]
  have "sub_frame s (s\<lparr>at_access := ac\<rparr>)" by (simp add: sub_frame_def)
  then have "sub_frame s s'" using l s'(1) by (blast intro: sub_frame_trans)
  moreover have "item_ok env s i \<and> (rba \<longrightarrow> authorized env (bi_business i))" if "i \<in> set items" for i
    using validation_loop_ok [OF e(2) that] by (simp add: item_ok_def)
  ultimately show ?thesis
    using l s'(2,3) e(1) by (auto simp: require_not_paused_Inr item_key_def)
qed

section \<open>The life of an attestation\<close>

text \<open>
  What a call in an environment may do to the attestation under a key, and what it needs for it. The
  state is the one before the call; its guards are those of the abstract lifecycle.
\<close>

definition an_admin :: "ledger_env \<Rightarrow> att_state \<Rightarrow> bool" where
  "an_admin env s \<longleftrightarrow> (\<exists>c. authorized env c \<and> has_role (at_access s) c ROLE_ADMIN)"

definition admin_or_owner :: "ledger_env \<Rightarrow> att_state \<Rightarrow> address \<Rightarrow> bool" where
  "admin_or_owner env s b \<longleftrightarrow>
     (\<exists>c. authorized env c \<and> (fs_admin (at_fees s) = Some c \<or> has_role (at_access s) c ROLE_ADMIN \<or> c = b))"

definition an_attestor :: "ledger_env \<Rightarrow> att_state \<Rightarrow> bool" where
  "an_attestor env s \<longleftrightarrow> (\<exists>a. authorized env a \<and> has_role (at_access s) a ROLE_ATTESTOR \<and> \<not> is_attestor_locked (at_dispute s) a)"

inductive att_move :: "ledger_env \<Rightarrow> att_state \<Rightarrow> att_state \<Rightarrow> att_key \<Rightarrow> att_data option \<Rightarrow> att_data option \<Rightarrow> bool"
  for env s s' k
where
  am_submit: "get_status (at_registry s) (fst k) = Some BizActive \<Longrightarrow> authorized env (fst k) \<or> an_attestor env s \<Longrightarrow>
    \<not> is_paused (at_access s') \<Longrightarrow> \<not> attestation_expired env d \<Longrightarrow> att_move env s s' k None (Some d)"
| am_migrate: "an_admin env s \<Longrightarrow> ad_version d < v \<Longrightarrow> \<not> attestation_expired env d \<Longrightarrow>
    \<not> is_attestation_revoked (at_dispute s) (fst k) (snd k) \<Longrightarrow>
    att_move env s s' k (Some d) (Some (d\<lparr>ad_root := r, ad_version := v\<rparr>))"
| am_extend: "authorized env (fst k) \<Longrightarrow> unwrap_or (ad_expiry d) 0 < e \<Longrightarrow> ad_timestamp d < e \<Longrightarrow>
    att_move env s s' k (Some d) (Some (d\<lparr>ad_expiry := Some e\<rparr>))"
| am_proof: "an_admin env s \<Longrightarrow> att_move env s s' k (Some d) (Some (d\<lparr>ad_proof_hash := h\<rparr>))"
| am_cleanup: "admin_or_owner env s (fst k) \<Longrightarrow> attestation_expired env d \<Longrightarrow>
    \<not> is_attestation_revoked (at_dispute s) (fst k) (snd k) \<Longrightarrow>
    \<not> has_open_dispute (at_dispute s) (fst k) (snd k) \<Longrightarrow> att_move env s s' k (Some d) None"
| am_revoke: "admin_or_owner env s (fst k) \<Longrightarrow> is_attestation_revoked (at_dispute s') (fst k) (snd k) \<Longrightarrow>
    att_move env s s' k (Some d) None"
| am_archive: "an_admin env s \<Longrightarrow> ad_timestamp d < timestamp env \<Longrightarrow> at_archived s' k = Some d \<Longrightarrow>
    map_option ap_merkle_root (fs_archive_pointers (at_fees s') k) = Some (ad_root d) \<Longrightarrow>
    att_move env s s' k (Some d) None"

inductive_simps att_move_created: "att_move env s s' k None x"

lemma pause_roles [simp]: "has_role (check_and_apply_pending_pause env ac) a r = has_role ac a r"
  by (simp add: check_and_apply_pending_pause_def has_role_def get_roles_def set_paused_def clear_pending_pause_def Let_def
      split: option.split)

lemma require_admin_is: "require_admin env (at_access s) c = Inr u \<Longrightarrow> an_admin env s"
  by (auto simp: require_admin_def an_admin_def)

lemma admin_or_owner_is:
  "require_admin_or_owner s' c b = Inr u \<Longrightarrow> authorized env c \<Longrightarrow> at_fees s' = at_fees s \<Longrightarrow>
   (\<And>a r. has_role (at_access s') a r = has_role (at_access s) a r) \<Longrightarrow> admin_or_owner env s b"
  by (auto simp: require_admin_or_owner_def is_admin_caller_def admin_or_owner_def fees_get_admin_def)

lemma gates_attestor: "attestor_gates env X a (s, w) = Inr u \<Longrightarrow> an_attestor env s"
  by (auto simp: attestor_gates_def require_attestor_not_locked_def an_attestor_def)

lemma fresh_not_expired:
  "validate_expiry env ts ex = Inr () \<Longrightarrow> ad_expiry d = ex \<Longrightarrow> \<not> attestation_expired env d"
  by (auto simp: validate_expiry_def attestation_expired_def split: option.splits if_splits)

lemma archive_one_result:
  assumes "archive_one now j d s = Inr s1"
  shows "at_active s1 = (at_active s)(j := None) \<and> at_archived s1 = (at_archived s)(j \<mapsto> d) \<and>
    (\<exists>p. fs_archive_pointers (at_fees s1) = (fs_archive_pointers (at_fees s))(j \<mapsto> p) \<and> ap_merkle_root p = ad_root d \<and>
       ap_archive_index p = get_archive_index (at_fees s) + 1) \<and>
    get_archive_index (at_fees s1) = get_archive_index (at_fees s) + 1"
  using assms
  by (auto simp: archive_one_def set_archived_attestation_def set_archive_pointer_def next_archive_index_def
      get_archive_index_def Let_def)

text \<open>The loop archives some of the candidates, one after the other.\<close>

lemma archive_loop_induct:
  assumes "archive_loop now age limit ks n s = Inr (m, s')"
    and refl: "\<And>s. R s s" and trans: "\<And>s t u. R s t \<Longrightarrow> R t u \<Longrightarrow> R s u"
    and one: "\<And>s j d s1. at_active s j = Some d \<Longrightarrow> age \<le> (if ad_timestamp d \<le> now then now - ad_timestamp d else 0) \<Longrightarrow>
      archive_one now j d s = Inr s1 \<Longrightarrow> R s s1"
  shows "R s s'"
  using assms(1)
proof (induction ks arbitrary: n s)
  case Nil
  then show ?case by (simp add: refl)
next
  case (Cons j ks)
  show ?case
  proof (cases "limit \<le> n \<or> (\<forall>d. at_active s j = Some d \<longrightarrow> (if ad_timestamp d \<le> now then now - ad_timestamp d else 0) < age)")
    case True
    with Cons show ?thesis by (auto simp: Let_def refl split: option.splits if_splits)
  next
    case False
    then obtain d where d: "at_active s j = Some d" "age \<le> (if ad_timestamp d \<le> now then now - ad_timestamp d else 0)"
      by (auto simp: not_less)
    with False Cons.prems obtain s1 where s1: "archive_one now j d s = Inr s1"
      and rest: "archive_loop now age limit ks (n + 1) s1 = Inr (m, s')" by (auto simp: Let_def)
    from trans [OF one [OF d s1] Cons.IH [OF rest]] show ?thesis .
  qed
qed

lemma archive_loop_active:
  assumes "archive_loop now age limit ks n s = Inr (m, s')" and "0 < age"
  shows "at_active s' k = at_active s k \<and> at_archived s' k = at_archived s k \<and>
      fs_archive_pointers (at_fees s') k = fs_archive_pointers (at_fees s) k \<or>
    (\<exists>d. at_active s k = Some d \<and> ad_timestamp d < now \<and> at_active s' k = None \<and> at_archived s' k = Some d \<and>
       map_option ap_merkle_root (fs_archive_pointers (at_fees s') k) = Some (ad_root d))"
proof (rule archive_loop_induct [OF assms(1)], goal_cases)
  case (3 s j d s1)
  with assms(2) show ?case by (cases "k = j") (auto dest!: archive_one_result split: if_splits)
qed (auto)

definition moves :: "ledger_env \<Rightarrow> att_state \<Rightarrow> att_state \<Rightarrow> att_key \<Rightarrow> bool" where
  "moves env s s' k \<longleftrightarrow> at_active s' k = at_active s k \<or> att_move env s s' k (at_active s k) (at_active s' k)"

lemma moves_same: "at_active s' = at_active s \<Longrightarrow> moves env s s' k"
  by (simp add: moves_def)

lemma moves_upd:
  "at_active s' = (at_active s)(j := x) \<Longrightarrow> at_active s j = y \<Longrightarrow> att_move env s s' j y x \<Longrightarrow> moves env s s' k"
  by (cases "k = j") (simp_all add: moves_def)

lemma execute_moves:
  assumes "execute_submission env X payer attestor b p root ts ver ph ex (s, w) = Inr (s', w')"
    and "authorized env b \<or> an_attestor env s"
  shows "moves env s s' k"
  using assms(1)
proof (rule execute_cases)
  fix ac rl f1 fee s3 s1 data
  assume e: "require_not_paused env (at_access s) = Inr ac" "get_status (at_registry s) b = Some BizActive"
    "at_active s (b, p) = None" "validate_expiry env ts ex = Inr ()"
    "s1 = s\<lparr>at_access := ac, at_rate := rl, at_fees := f1,
       at_attestor := (case attestor of Some a \<Rightarrow> (at_attestor s)((b, p) \<mapsto> a) | None \<Rightarrow> at_attestor s)\<rparr>"
    "charge_fees X payer b (s1, w) = Inr (fee, s3, w')"
    "data = \<lparr>ad_root = root, ad_timestamp = ts, ad_version = ver, ad_fee = fee, ad_proof_hash = ph, ad_expiry = ex\<rparr>"
    "s' = (let s4 = write_record env b p data s3
           in if payer \<noteq> b then s4\<lparr>at_fees := add_relayer_gas (at_fees s4) payer 0\<rparr> else s4)"
  have a: "at_active s' = (at_active s)((b, p) \<mapsto> data)" "at_access s' = ac"
    using charge_frame [OF e(6)] by (simp_all add: e(5,8) Let_def write_record_frame)
  have "\<not> attestation_expired env data" using e(4) by (rule fresh_not_expired) (simp add: e(7))
  moreover have "\<not> is_paused ac" using e(1) by (auto simp: require_not_paused_Inr)
  ultimately have "att_move env s s' (b, p) None (Some data)" using e(2) assms(2) a(2) by (auto intro: am_submit)
  then show ?thesis using a(1) e(3) by (cases "k = (b, p)") (simp_all add: moves_def)
qed

lemma batch_moves:
  assumes "execute_batch_submission env X payer items rba (s, w) = Inr (s', w')"
    and "\<forall>i\<in>set items. authorized env (bi_business i) \<or> an_attestor env s"
  shows "moves env s s' k"
proof -
  note b = execute_batch_cases [OF assms(1), of k]
  show ?thesis
  proof (cases "at_active s' k = at_active s k")
    case True
    then show ?thesis by (simp add: moves_def)
  next
    case False
    with b obtain i fee where i: "i \<in> set items" "item_key i = k" "item_ok env s i" "at_active s' k = Some (item_data i fee)"
      by blast
    have "\<not> attestation_expired env (item_data i fee)"
      by (rule fresh_not_expired [of env "bi_timestamp i" "bi_expiry i"]) (use i(3) in \<open>simp_all add: item_ok_def item_data_def\<close>)
    moreover have "authorized env (fst k) \<or> an_attestor env s" using assms(2) i(1,2) by (auto simp: item_key_def)
    moreover have "at_active s k = None" "get_status (at_registry s) (fst k) = Some BizActive"
      using i(2,3) by (auto simp: item_ok_def item_key_def)
    ultimately show ?thesis using b i(4) by (auto simp: moves_def intro: am_submit)
  qed
qed

lemma moves_state:
  assumes "moves env s s1 k" and "at_active s2 = at_active s1" "at_access s2 = at_access s1"
    and "at_archived s2 = at_archived s1" "at_fees s2 = at_fees s1"
    and "ds_revoked (at_dispute s2) = ds_revoked (at_dispute s1)"
  shows "moves env s s2 k"
proof -
  have "att_move env s s2 k x y" if "att_move env s s1 k x y" for x y
    using that assms(3-6)
    by (induction rule: att_move.induct) (auto intro: att_move.intros simp: is_attestation_revoked_def)
  with assms(1,2) show ?thesis by (auto simp: moves_def)
qed

lemma recorded_frame [simp]: "ds_revoked (store_attestor_for_attestation d b p a) = ds_revoked d"
  by (simp add: store_attestor_for_attestation_def)

lemma recorded_fold [simp]:
  "ds_revoked (foldl (\<lambda>d i. store_attestor_for_attestation d (bi_business i) (bi_period i) a) d items) = ds_revoked d"
  by (induction items arbitrary: d) simp_all

lemma submit_moves:
  assumes "submit_step X env e (s, w) = Inr (s', w')"
  shows "moves env s s' k"
proof (cases e)
  case (CSubmit b p root ts ver paid ph ex)
  with assms show ?thesis by (auto simp: submit_attestation_def intro: execute_moves)
next
  case (CSubmitAttestor a b p root ts ver ex)
  with assms show ?thesis
    by (auto simp: submit_attestation_as_attestor_def dest!: gates_attestor
        intro: moves_state [OF execute_moves])
next
  case (CBatch items)
  with assms show ?thesis
    by (auto simp: submit_attestations_batch_def dest: auth_loop_ok intro!: batch_moves)
next
  case (CBatchAttestor a items)
  with assms show ?thesis
    by (auto simp: submit_batch_as_attestor_def dest!: gates_attestor intro: moves_state [OF batch_moves])
next
  case (CSubmitMetadata b p root ts ver cur net)
  with assms show ?thesis
    by (auto simp: submit_attestation_with_metadata_def submit_attestation_def set_metadata_def
        intro: moves_state [OF execute_moves])
next
  case (CMultiPeriod b st en root ts ver ph ex)
  with assms show ?thesis by (auto simp: submit_multi_period_attestation_def Let_def intro!: moves_same)
qed

lemma recorded_revoked:
  "record_revocation d b p r = Inr (n, d') \<Longrightarrow>
   ds_revoked d' = (ds_revoked d)((b, p) \<mapsto> r) \<and> ds_sequence d' = Some (get_revocation_sequence d + 1)"
  by (auto simp: record_revocation_def store_attestation_revocation_def append_to_revocation_index_def
      set_revoked_periods_def increment_revocation_sequence_def get_revocation_sequence_def Let_def split: if_splits)

lemma set_periods_frame [simp]:
  "ds_revoked (set_revoked_periods d b ps) = ds_revoked d" "ds_sequence (set_revoked_periods d b ps) = ds_sequence d"
  by (simp_all add: set_revoked_periods_def)

lemma cleanup_count_frame [simp]:
  "fs_archive_pointers (increment_cleanup_count f) = fs_archive_pointers f"
  "fs_archive_index (increment_cleanup_count f) = fs_archive_index f"
  "fs_pending_staking (increment_cleanup_count f) = fs_pending_staking f"
  by (simp_all add: increment_cleanup_count_def Let_def)

lemma compact_loop_frame:
  "\<exists>A. snd (compact_loop ep me limit ks n s) = s\<lparr>at_archived := A\<rparr> \<and> (\<forall>k. A k = at_archived s k \<or> A k = None)"
proof (induction ks arbitrary: n s)
  case Nil
  show ?case by (rule exI [of _ "at_archived s"]) simp
next
  case (Cons k ks)
  have "\<exists>A. s = s\<lparr>at_archived := A\<rparr> \<and> (\<forall>k. A k = at_archived s k \<or> A k = None)"
    by (rule exI [of _ "at_archived s"]) simp
  moreover have "\<exists>A. snd (compact_loop ep me limit ks (n + 1) (remove_archived_attestation s (fst k) (snd k)))
      = s\<lparr>at_archived := A\<rparr> \<and> (\<forall>j. A j = at_archived s j \<or> A j = None)"
    using Cons.IH [of "n + 1" "remove_archived_attestation s (fst k) (snd k)"]
    by (auto simp: remove_archived_attestation_def split: if_splits) (metis (full_types))
  ultimately show ?case using Cons.IH by simp
qed

lemma revoke_cleanup_moves:
  assumes "revoke_and_cleanup env c b p r n s = Inr s'"
  shows "moves env s s' k"
proof -
  let ?s = "s\<lparr>at_access := check_and_apply_pending_pause env (at_access s)\<rparr>"
  have e: "authorized env c" "at_active s (b, p) \<noteq> None" "require_admin_or_owner ?s c b = Inr ()"
    "is_attestation_revoked (at_dispute s') b p" "at_active s' = (at_active s)((b, p) := None)"
    using assms
    by (auto simp: revoke_and_cleanup_def remove_metadata_def Let_def require_not_paused_Inr is_attestation_revoked_def
        dest!: recorded_revoked split: if_splits)
  from e(3,1) have "admin_or_owner env s b" by (rule admin_or_owner_is) simp_all
  moreover obtain d where "at_active s (b, p) = Some d" using e(2) by auto
  ultimately show ?thesis
    using e(4,5) by (cases "k = (b, p)") (auto simp: moves_def intro: am_revoke)
qed

lemma life_moves:
  assumes "life_step env e s = Inr s'"
  shows "moves env s s' k"
proof (cases e)
  case (CRevokeCleanup c b p r n)
  with assms show ?thesis by (auto intro: revoke_cleanup_moves)
next
  case (CCleanup c b p)
  with assms obtain d where "authorized env c" "require_admin_or_owner s c b = Inr ()" "at_active s (b, p) = Some d"
    "attestation_expired env d" "\<not> is_attestation_revoked (at_dispute s) b p" "\<not> has_open_dispute (at_dispute s) b p"
    "at_active s' = (at_active s)((b, p) := None)"
    by (auto simp: cleanup_expired_attestation_def remove_metadata_def Let_def)
  moreover from this have "admin_or_owner env s b" by (intro admin_or_owner_is [of s c]) simp_all
  ultimately show ?thesis by (cases "k = (b, p)") (auto simp: moves_def intro: am_cleanup)
next
  case (CArchive c ks age limit)
  with assms obtain m where "an_admin env s" "0 < age" "archive_loop (timestamp env) age limit ks 0 s = Inr (m, s')"
    by (auto simp: move_to_archive_def dest: require_admin_is)
  with archive_loop_active [OF this(3,2), of k] show ?thesis by (auto simp: moves_def intro!: am_archive)
next
  case (CCompact c ks limit)
  with assms show ?thesis
    by (auto simp: compact_archival_def intro!: moves_same) (metis (no_types) att_state.select_convs(8) att_state.surjective
        att_state.update_convs(11) compact_loop_frame snd_conv)
next
  case (CMigrate c b p r v)
  with assms obtain d where "an_admin env s" "ad_version d < v" "\<not> attestation_expired env d"
    "\<not> is_attestation_revoked (at_dispute s) b p" and d: "at_active s (b, p) = Some d"
    and u: "at_active s' = (at_active s)((b, p) \<mapsto> d\<lparr>ad_root := r, ad_version := v\<rparr>)"
    by (auto simp: migrate_attestation_def dest: require_admin_is)
  then have "att_move env s s' (b, p) (Some d) (Some (d\<lparr>ad_root := r, ad_version := v\<rparr>))" by (intro am_migrate) simp_all
  with u d show ?thesis by (rule moves_upd)
next
  case (CExtend b p x)
  with assms obtain d where "authorized env b" "unwrap_or (ad_expiry d) 0 < x" "ad_timestamp d < x" and d: "at_active s (b, p) = Some d"
    and u: "at_active s' = (at_active s)((b, p) \<mapsto> d\<lparr>ad_expiry := Some x\<rparr>)"
    by (auto simp: extend_expiry_def not_le split: if_splits)
  then have "att_move env s s' (b, p) (Some d) (Some (d\<lparr>ad_expiry := Some x\<rparr>))" by (intro am_extend) simp_all
  with u d show ?thesis by (rule moves_upd)
next
  case (CProofHash c b p h)
  with assms obtain d where "an_admin env s" and d: "at_active s (b, p) = Some d"
    and u: "at_active s' = (at_active s)((b, p) \<mapsto> d\<lparr>ad_proof_hash := h\<rparr>)"
    by (auto simp: update_proof_hash_def dest: require_admin_is)
  then have "att_move env s s' (b, p) (Some d) (Some (d\<lparr>ad_proof_hash := h\<rparr>))" by (intro am_proof)
  with u d show ?thesis by (rule moves_upd)
qed (use assms in \<open>auto simp: revoke_attestation_def propose_revoke_def commit_revoke_def cancel_revoke_proposal_def
    set_grace_entry_def cleanup_revocation_index_def set_retention_entry_def clear_retention_entry_def
    revoke_multi_period_attestation_def Let_def intro!: moves_same split: if_splits\<close>)

section \<open>Reading\<close>

text \<open>A read only moves attestations between the two persistent stores, and finds nothing when both are empty.\<close>

definition read_only :: "att_state \<Rightarrow> att_state \<Rightarrow> bool" where
  "read_only s s' \<longleftrightarrow> (\<exists>P S. s' = s\<lparr>at_persistent := P, at_snapshots := S\<rparr>) \<and>
     (at_persistent s = Map.empty \<and> at_snapshots s = Map.empty \<longrightarrow> s' = s)"

lemma read_only_refl [simp]: "read_only s s"
  unfolding read_only_def by (intro conjI exI [of _ "at_persistent s"] exI [of _ "at_snapshots s"]) simp_all

lemma read_only_trans:
  assumes "read_only s t" and "read_only t u"
  shows "read_only s u"
proof -
  obtain P S where "t = s\<lparr>at_persistent := P, at_snapshots := S\<rparr>" using assms(1) unfolding read_only_def by blast
  moreover obtain P' S' where "u = t\<lparr>at_persistent := P', at_snapshots := S'\<rparr>"
    using assms(2) unfolding read_only_def by blast
  ultimately have "\<exists>P S. u = s\<lparr>at_persistent := P, at_snapshots := S\<rparr>" by auto
  moreover have "at_persistent s = Map.empty \<and> at_snapshots s = Map.empty \<longrightarrow> u = s"
    using assms unfolding read_only_def by metis
  ultimately show ?thesis by (simp add: read_only_def)
qed

lemma get_read_only: "get_attestation s b p = (r, s') \<Longrightarrow> read_only s s'"
  by (cases s) (auto simp: get_attestation_def read_only_def split: option.splits)

lemma get_read_only_snd [simp]: "read_only s (snd (get_attestation s b p))"
  using get_read_only [of s b p] by (metis surj_pair snd_conv)

lemma verify_loop_read_only: "verify_loop env s items rs = (rs', s') \<Longrightarrow> read_only s s'"
proof (induction env s items rs arbitrary: rs' s' rule: verify_loop.induct)
  case (2 env s b p root items rs)
  then show ?case
    by (auto simp: Let_def split: prod.splits option.splits dest!: get_read_only intro: read_only_trans)
qed simp

lemma status_loop_read_only: "status_loop s b ps rs = Inr (rs', s') \<Longrightarrow> read_only s s'"
proof (induction ps arbitrary: s rs)
  case (Cons p ps)
  have one: "read_only s (s\<lparr>at_persistent := P, at_snapshots := S\<rparr>)" if "at_snapshots s (b, p) = Some x" for P S x
    using that by (auto simp: read_only_def)
  from Cons show ?case by (auto simp: Let_def split: option.splits intro: read_only_trans [OF one])
qed simp

lemma page_row_read_only: "page_row_of s b p st ver = (row, s') \<Longrightarrow> read_only s s'"
  by (auto simp: page_row_of_def Let_def split: prod.splits option.splits if_splits dest: get_read_only)

lemma page_loop_read_only:
  "page_loop b ps from to st ver limit rows cursor s = Inr (rows', n, s') \<Longrightarrow> read_only s s'"
proof (induction "length ps - cursor" arbitrary: rows cursor s rule: less_induct)
  case less
  show ?case
  proof (cases "length rows < limit \<and> cursor < length ps")
    case True
    then have IH: "page_loop b ps from to st ver limit rs (cursor + 1) t = Inr (rows', n, s') \<Longrightarrow> read_only t s'" for rs t
      using True by (intro less.hyps) auto
    obtain row s1 where r: "page_row_of s b (ps ! cursor) st ver = (row, s1)" by (metis surj_pair)
    from less.prems True have "page_loop b ps from to st ver limit rows (cursor + 1) s = Inr (rows', n, s') \<or>
        (\<exists>rs. page_loop b ps from to st ver limit rs (cursor + 1) s1 = Inr (rows', n, s'))"
      by (subst (asm) page_loop.simps) (auto simp: Let_def r split: if_splits)
    then show ?thesis using IH page_row_read_only [OF r] by (auto intro: read_only_trans)
  next
    case False
    with less.prems show ?thesis by (subst (asm) page_loop.simps) auto
  qed
qed

lemma read_frame:
  assumes "read_step env e s = Inr s'"
  shows "read_only s s'"
  using assms
  by (cases e)
    (auto simp: verify_attestation_def verify_attestations_batch_def verify_merkle_entry_def
      get_business_attestations_def get_attestations_page_def
      split: prod.splits option.splits if_splits
      dest: get_read_only verify_loop_read_only status_loop_read_only page_loop_read_only)

section \<open>One step of the whole contract\<close>

text \<open>A step is a submission, a lifecycle call, a read, or a call that leaves the attestations alone.\<close>

lemma lib_step_cases:
  assumes "lib_step X (env, e) (c, w) = Inr (c', w')"
  obtains (submission) x where "e = Submission x" "submit_step X env x (ct_att c, w) = Inr (ct_att c', w')"
    | (lifecycle) x where "e = Lifecycle x" "life_step env x (ct_att c) = Inr (ct_att c')"
    | (reading) "read_only (ct_att c) (ct_att c')"
    | (other) "core_frame (ct_att c) (ct_att c')"
        "staking_frame (ct_att c) (ct_att c') \<or> (\<exists>x. e = Guard x \<and> guard_step env x (ct_att c) = Inr (ct_att c') \<and>
           ((\<exists>a b n. x = CProposeStaking a b n) \<or> (\<exists>a n. x = CCommitStaking a n) \<or> (\<exists>a n. x = CCancelStaking a n)))"
proof (cases e)
  case (Submission x)
  show thesis by (rule that(1) [OF Submission]) (use assms Submission in auto)
next
  case (Lifecycle x)
  show thesis by (rule that(2) [OF Lifecycle]) (use assms Lifecycle in auto)
next
  case (Reading x)
  show thesis by (rule that(3)) (use assms Reading in \<open>auto dest: read_frame\<close>)
next
  case (Config x)
  then have "core_frame (ct_att c) (ct_att c') \<and> staking_frame (ct_att c) (ct_att c')"
    using assms by (auto dest: config_frame)
  then show thesis using that(4) by blast
next
  case (Guard x)
  with assms have x: "guard_step env x (ct_att c) = Inr (ct_att c')" by auto
  note f = guard_frame [OF x]
  have "staking_frame (ct_att c) (ct_att c') \<or> (\<exists>a b n. x = CProposeStaking a b n) \<or>
      (\<exists>a n. x = CCommitStaking a n) \<or> (\<exists>a n. x = CCancelStaking a n)" using f(2) by blast
  then show thesis by (intro that(4) [OF f(1)]) (use Guard x in auto)
next
  case (Case x)
  then have "core_frame (ct_att c) (ct_att c') \<and> staking_frame (ct_att c) (ct_att c')"
    using assms by (auto dest: case_frame)
  then show thesis using that(4) by blast
next
  case (Owner x)
  then have "core_frame (ct_att c) (ct_att c') \<and> staking_frame (ct_att c) (ct_att c')"
    using assms by (auto dest: owner_frame)
  then show thesis using that(4) by blast
qed

text \<open>
  C2. The life of an attestation. Whatever entry point succeeds, the attestation stored for a business
  and period stays as it is or makes one of these moves: it is created where none was, for an active
  business in a contract that is not paused, by the business or by an unlocked attestor, and not expired
  on arrival; it is migrated by an administrator to a strictly greater version, unless it is expired or
  revoked; its expiry is moved forward by the business; its proof hash is replaced by an administrator;
  it is removed by an administrator or the business when it is expired, not revoked and not under
  dispute, or when the call leaves it revoked; or an administrator archives it, with its data kept in the
  archive and its root in the pointer. Nothing else can happen to it, and nobody else can do it.
\<close>

theorem attestation_follows_lifecycle:
  assumes "lib_step X (env, e) (c, w) = Inr (c', w')"
  shows "at_active (ct_att c') k = at_active (ct_att c) k \<or>
    att_move env (ct_att c) (ct_att c') k (at_active (ct_att c) k) (at_active (ct_att c') k)"
proof -
  have "moves env (ct_att c) (ct_att c') k"
    using assms
    by (cases rule: lib_step_cases)
      (auto intro: submit_moves life_moves moves_same simp: read_only_def core_frame_def)
  then show ?thesis by (simp add: moves_def)
qed

section \<open>Revocations are for good\<close>

text \<open>The sequence number counts the revoked keys; a record is never replaced or removed.\<close>

definition revocations_counted :: "contract \<times> 'w \<Rightarrow> bool" where
  "revocations_counted cw \<longleftrightarrow>
     (let d = at_dispute (ct_att (fst cw)) in
      finite (dom (ds_revoked d)) \<and> get_revocation_sequence d = card (dom (ds_revoked d)))"

definition rev_grows :: "att_state \<Rightarrow> att_state \<Rightarrow> bool" where
  "rev_grows s s' \<longleftrightarrow> rev_same (at_dispute s) (at_dispute s') \<or>
     (\<exists>k r. ds_revoked (at_dispute s) k = None \<and> ds_revoked (at_dispute s') = (ds_revoked (at_dispute s))(k \<mapsto> r) \<and>
        ds_sequence (at_dispute s') = Some (get_revocation_sequence (at_dispute s) + 1))"

lemma rev_grows_same: "ds_revoked (at_dispute s') = ds_revoked (at_dispute s) \<Longrightarrow>
    ds_sequence (at_dispute s') = ds_sequence (at_dispute s) \<Longrightarrow> rev_grows s s'"
  by (simp add: rev_grows_def rev_same_def)

lemma rev_grows_new: "ds_revoked (at_dispute s) (b, p) = None \<Longrightarrow> record_revocation (at_dispute s) b p r = Inr (n, d) \<Longrightarrow>
    ds_revoked (at_dispute s') = ds_revoked d \<Longrightarrow> ds_sequence (at_dispute s') = ds_sequence d \<Longrightarrow> rev_grows s s'"
  using recorded_revoked [of "at_dispute s" b p r n d] unfolding rev_grows_def by metis

lemma archive_loop_dispute:
  assumes "archive_loop now age limit ks n s = Inr (m, s')"
  shows "at_dispute s' = at_dispute s"
  by (rule archive_loop_induct [OF assms, where R = "\<lambda>s t. at_dispute t = at_dispute s"])
    (auto simp: archive_one_def set_archived_attestation_def Let_def)

lemma life_rev:
  assumes "life_step env e s = Inr s'"
  shows "rev_grows s s'"
proof (cases e)
  case (CArchive c ks age limit)
  with assms show ?thesis
    by (auto simp: move_to_archive_def dest!: archive_loop_dispute intro!: rev_grows_same)
next
  case (CCompact c ks limit)
  with assms obtain me n where "compact_loop (timestamp env div FEE_BUCKET_WINDOW_SECONDS) me limit ks 0 s = (n, s')"
    by (auto simp: compact_archival_def)
  then show ?thesis
    using compact_loop_frame [of "timestamp env div FEE_BUCKET_WINDOW_SECONDS" me limit ks 0 s]
    by (auto intro!: rev_grows_same)
next
  case (CRevoke c b p r n)
  with assms show ?thesis
    by (auto simp: revoke_attestation_def require_revocation_authorized_def is_attestation_revoked_def Let_def
        intro: rev_grows_new)
next
  case (CRevokeCleanup c b p r n)
  with assms show ?thesis
    by (cases "ds_revoked (at_dispute s) (b, p)")
      (auto simp: revoke_and_cleanup_def remove_metadata_def is_attestation_revoked_def Let_def
        intro: rev_grows_new rev_grows_same)
next
  case (CCommitRevoke c b p)
  with assms show ?thesis
    by (auto simp: commit_revoke_def is_attestation_revoked_def intro: rev_grows_new)
qed (use assms in \<open>auto simp: propose_revoke_def cancel_revoke_proposal_def set_grace_entry_def
    cleanup_expired_attestation_def cleanup_revocation_index_def set_retention_entry_def clear_retention_entry_def
    migrate_attestation_def extend_expiry_def update_proof_hash_def revoke_multi_period_attestation_def
    remove_metadata_def Let_def intro!: rev_grows_same split: if_splits\<close>)

text \<open>What a submission leaves alone, for every way to submit.\<close>

definition submit_frame :: "att_state \<Rightarrow> att_state \<Rightarrow> bool" where
  "submit_frame s s' \<longleftrightarrow> rev_same (at_dispute s) (at_dispute s') \<and> at_persistent s' = at_persistent s \<and>
     at_snapshots s' = at_snapshots s \<and> at_archived s' = at_archived s \<and> at_slash_counter s' = at_slash_counter s \<and>
     staking_frame s s' \<and> at_flat s' = at_flat s \<and> fs_dao (at_fees s') = fs_dao (at_fees s) \<and>
     fs_archive_index (at_fees s') = fs_archive_index (at_fees s) \<and>
     fs_archive_pointers (at_fees s') = fs_archive_pointers (at_fees s)"

lemma sub_submit_frame: "sub_frame s s' \<Longrightarrow> submit_frame s s'"
  by (simp add: sub_frame_def submit_frame_def rev_same_def staking_frame_def fee_frame_def)

lemma recorded_rev [simp]:
  "rev_same d (store_attestor_for_attestation d1 b p a) = rev_same d d1"
  "rev_same d (foldl (\<lambda>d i. store_attestor_for_attestation d (bi_business i) (bi_period i) a) d1 items) = rev_same d d1"
proof -
  show "rev_same d (store_attestor_for_attestation d1 b p a) = rev_same d d1"
    by (simp add: rev_same_def store_attestor_for_attestation_def)
  have "ds_sequence (foldl (\<lambda>d i. store_attestor_for_attestation d (bi_business i) (bi_period i) a) d1 items) = ds_sequence d1"
    by (induction items arbitrary: d1) (simp_all add: store_attestor_for_attestation_def)
  then show "rev_same d (foldl (\<lambda>d i. store_attestor_for_attestation d (bi_business i) (bi_period i) a) d1 items) = rev_same d d1"
    by (simp add: rev_same_def)
qed

lemma submit_step_frame:
  assumes "submit_step X env e (s, w) = Inr (s', w')"
  shows "submit_frame s s'"
proof -
  have ex: "submit_frame s t" if "execute_submission env X payer at b p root ts ver ph ex (s, w) = Inr (t, w1)"
    for payer at b p root ts ver ph ex t w1
    using execute_frame(1) [OF that] by (rule sub_submit_frame)
  have ba: "submit_frame s t" if "execute_batch_submission env X payer items rba (s, w) = Inr (t, w1)" for payer items rba t w1
    using execute_batch_cases [OF that] by (blast intro: sub_submit_frame)
  have st: "submit_frame s (t\<lparr>at_dispute := d\<rparr>)" if "submit_frame s t" "rev_same (at_dispute s) d" for t d
    using that by (simp add: submit_frame_def staking_frame_def)
  show ?thesis
  proof (cases e)
    case (CSubmitAttestor a b p root ts ver x)
    with assms obtain t where "execute_submission env X a (Some a) b p root ts ver None x (s, w) = Inr (t, w')"
      "s' = t\<lparr>at_dispute := store_attestor_for_attestation (at_dispute t) b p a\<rparr>"
      by (auto simp: submit_attestation_as_attestor_def)
    with ex [OF this(1)] show ?thesis by (auto simp: submit_frame_def staking_frame_def)
  next
    case (CBatchAttestor a items)
    with assms obtain t where "execute_batch_submission env X (Some a) items True (s, w) = Inr (t, w')"
      "s' = t\<lparr>at_dispute := foldl (\<lambda>d i. store_attestor_for_attestation d (bi_business i) (bi_period i) a)
         (at_dispute t) items\<rparr>"
      by (auto simp: submit_batch_as_attestor_def)
    with ba [OF this(1)] show ?thesis by (auto simp: submit_frame_def staking_frame_def)
  next
    case (CSubmitMetadata b p root ts ver cur net)
    with assms show ?thesis
      by (auto simp: submit_attestation_with_metadata_def submit_attestation_def set_metadata_def dest!: ex
          simp: submit_frame_def staking_frame_def)
  next
    case (CMultiPeriod b st en root ts ver ph x)
    with assms show ?thesis
      by (auto simp: submit_multi_period_attestation_def Let_def submit_frame_def staking_frame_def
          dest!: increment_count_frame)
  qed (use assms ex ba in \<open>auto simp: submit_attestation_def submit_attestations_batch_def\<close>)
qed

lemma read_only_fields:
  assumes "read_only s s'"
  shows "at_dispute s' = at_dispute s" "at_archived s' = at_archived s" "at_fees s' = at_fees s"
    "at_flat s' = at_flat s" "at_staking s' = at_staking s" "at_slash_counter s' = at_slash_counter s"
    "at_ranges s' = at_ranges s" "at_root_index s' = at_root_index s"
  using assms by (auto simp: read_only_def)

lemma lib_rev:
  assumes "lib_step X e (c, w) = Inr (c', w')"
  shows "rev_grows (ct_att c) (ct_att c')"
proof -
  obtain env x where "e = (env, x)" by (cases e)
  with assms have "lib_step X (env, x) (c, w) = Inr (c', w')" by simp
  then show ?thesis
  proof (cases rule: lib_step_cases)
    case (lifecycle y)
    then show ?thesis by (blast intro: life_rev)
  qed (auto dest: submit_step_frame simp: submit_frame_def core_frame_def rev_same_def read_only_fields
      intro!: rev_grows_same)
qed

lemma counted_start: "lib_start cw \<Longrightarrow> revocations_counted cw"
  by (simp add: lib_start_def revocations_counted_def contract_empty_def att_empty_def dispute_empty_def
      get_revocation_sequence_def)

lemma counted_step:
  assumes "revocations_counted cw" and "lib_step X e cw = Inr cw'"
  shows "revocations_counted cw'"
proof -
  obtain c w c' w' where cw: "cw = (c, w)" "cw' = (c', w')" by (metis surj_pair)
  with assms(2) have "rev_grows (ct_att c) (ct_att c')" by (auto intro: lib_rev)
  with assms(1) cw show ?thesis
    by (auto simp: revocations_counted_def rev_grows_def rev_same_def get_revocation_sequence_def Let_def
        domIff card_insert_if)
qed

interpretation counted: invariant_machine lib_start "lib_step X" revocations_counted for X
  by unfold_locales (erule counted_start, erule (1) counted_step)

text \<open>
  C8. Revocations are for good. In every reachable state the revocation sequence is the number of
  revoked attestations, so it grows by one with every revocation and never skips or repeats; and a
  revocation record, with who revoked, when and why, is still there unchanged after any further calls,
  whatever happens to the attestation itself.
\<close>

theorem revocations_for_good:
  assumes "reachable lib_start (lib_step X) cw"
  shows "get_revocation_sequence (at_dispute (ct_att (fst cw))) =
      card {k. is_attestation_revoked (at_dispute (ct_att (fst cw))) (fst k) (snd k)} \<and>
    (\<forall>cs b p r. get_attestation_revocation (at_dispute (ct_att (fst cw))) b p = Some r \<longrightarrow>
       get_attestation_revocation (at_dispute (ct_att (fst (run (lib_step X) cs cw)))) b p = Some r)"
proof -
  let ?d = "\<lambda>cw. at_dispute (ct_att (fst cw))"
  have "{k. is_attestation_revoked (?d cw) (fst k) (snd k)} = dom (ds_revoked (?d cw))"
    by (auto simp: is_attestation_revoked_def)
  moreover have "ds_revoked (?d cw) \<subseteq>\<^sub>m ds_revoked (?d (run (lib_step X) cs cw))" for cs
  proof (rule run_rel_any [where R = "\<lambda>s t. ds_revoked (?d s) \<subseteq>\<^sub>m ds_revoked (?d t)"])
    fix s e s' assume "lib_step X e s = Inr s'"
    then have "rev_grows (ct_att (fst s)) (ct_att (fst s'))" by (cases s, cases s') (auto intro: lib_rev)
    then show "ds_revoked (?d s) \<subseteq>\<^sub>m ds_revoked (?d s')"
      by (auto simp: rev_grows_def rev_same_def map_le_def dom_def)
  qed (auto intro: map_le_trans)
  ultimately show ?thesis
    using counted.reachable_inv [OF assms]
    by (auto simp: revocations_counted_def Let_def get_attestation_revocation_def map_le_def dom_def)
qed

section \<open>What a reader finds\<close>

definition stores_empty :: "contract \<times> 'w \<Rightarrow> bool" where
  "stores_empty cw \<longleftrightarrow> at_persistent (ct_att (fst cw)) = Map.empty \<and> at_snapshots (ct_att (fst cw)) = Map.empty"

lemma life_stores:
  assumes "life_step env e s = Inr s'"
  shows "at_persistent s' = at_persistent s \<and> at_snapshots s' = at_snapshots s \<and> staking_frame s s' \<and>
    at_slash_counter s' = at_slash_counter s"
proof (cases e)
  case (CArchive c ks age limit)
  with assms obtain m where "archive_loop (timestamp env) age limit ks 0 s = Inr (m, s')"
    by (auto simp: move_to_archive_def)
  then show ?thesis
    by (rule archive_loop_induct [where R = "\<lambda>s t. at_persistent t = at_persistent s \<and> at_snapshots t = at_snapshots s \<and>
          staking_frame s t \<and> at_slash_counter t = at_slash_counter s"])
      (auto simp: archive_one_def set_archived_attestation_def next_archive_index_def set_archive_pointer_def
        staking_frame_def Let_def)
next
  case (CCompact c ks limit)
  with assms obtain me n where "compact_loop (timestamp env div FEE_BUCKET_WINDOW_SECONDS) me limit ks 0 s = (n, s')"
    by (auto simp: compact_archival_def)
  then show ?thesis
    using compact_loop_frame [of "timestamp env div FEE_BUCKET_WINDOW_SECONDS" me limit ks 0 s]
    by (auto simp: staking_frame_def)
qed (use assms in \<open>auto simp: revoke_attestation_def revoke_and_cleanup_def propose_revoke_def commit_revoke_def
    cancel_revoke_proposal_def set_grace_entry_def cleanup_expired_attestation_def cleanup_revocation_index_def
    set_retention_entry_def clear_retention_entry_def migrate_attestation_def extend_expiry_def update_proof_hash_def
    revoke_multi_period_attestation_def remove_metadata_def store_revoke_proposal_def remove_revoke_proposal_def
    set_revoke_grace_seconds_def set_compaction_retention_def clear_compaction_retention_def staking_frame_def Let_def
    split: if_splits\<close>)

lemma stores_start: "lib_start cw \<Longrightarrow> stores_empty cw"
  by (simp add: lib_start_def stores_empty_def contract_empty_def att_empty_def)

lemma stores_step:
  assumes "stores_empty cw" and "lib_step X e cw = Inr cw'"
  shows "stores_empty cw'"
proof -
  obtain env x c w c' w' where e: "e = (env, x)" "cw = (c, w)" "cw' = (c', w')" by (metis surj_pair)
  with assms(2) have "lib_step X (env, x) (c, w) = Inr (c', w')" by simp
  then show ?thesis
    using assms(1) unfolding e
    by (cases rule: lib_step_cases)
      (auto dest: submit_step_frame life_stores simp: stores_empty_def submit_frame_def core_frame_def read_only_def)
qed

interpretation stores: invariant_machine lib_start "lib_step X" stores_empty for X
  by unfold_locales (erule stores_start, erule (1) stores_step)

text \<open>
  C20. Submitted attestations cannot be read back. \<open>get_attestation\<close> and all that builds on it look in
  the persistent storage, submissions write the instance storage, and nothing ever writes the snapshots.
  So in every state the contract can reach, whatever was submitted before, \<open>get_attestation\<close> finds
  nothing, \<open>verify_attestation\<close>, \<open>verify_attestations_batch\<close> and \<open>verify_merkle_proof\<close> answer false
  for every root, and \<open>get_business_attestations\<close> fails on any period that has an
  attestation, since it extends the lifetime of a persistent entry that is not there.
\<close>

theorem submitted_never_found:
  assumes "reachable lib_start (lib_step X) cw" and "s = ct_att (fst cw)"
  shows "get_attestation s b p = (None, s) \<and> verify_attestation env s b p root = (False, s) \<and>
    verify_merkle_entry sha s b p leaf path = Inr (False, s) \<and>
    (\<forall>items rs s'. verify_attestations_batch env s items = Inr (rs, s') \<longrightarrow> rs = map (\<lambda>_. False) items) \<and>
    (at_active s (b, p) \<noteq> None \<longrightarrow> get_business_attestations s b [p] = Inl (Panic ''missing persistent entry''))"
proof -
  have "stores_empty cw" using assms(1) by (rule stores.reachable_inv)
  then have e: "at_persistent s = Map.empty" "at_snapshots s = Map.empty" using assms(2) by (simp_all add: stores_empty_def)
  then have g: "get_attestation s b p = (None, s)" for b p by (simp add: get_attestation_def)
  have "verify_loop env s items rs = (rs @ map (\<lambda>_. False) items, s)" for items rs
    by (induction items arbitrary: rs) (auto simp: g)
  then show ?thesis
    using e by (auto simp: g verify_attestation_def verify_merkle_entry_def verify_attestations_batch_def
        get_business_attestations_def)
qed

section \<open>Duplicate submissions\<close>

lemma slash_counter_step:
  assumes "at_slash_counter (ct_att (fst cw)) = None" and "lib_step X e cw = Inr cw'"
  shows "at_slash_counter (ct_att (fst cw')) = None"
proof -
  obtain env x c w c' w' where e: "e = (env, x)" "cw = (c, w)" "cw' = (c', w')" by (metis surj_pair)
  with assms(2) have "lib_step X (env, x) (c, w) = Inr (c', w')" by simp
  then show ?thesis
    using assms(1) unfolding e
    by (cases rule: lib_step_cases)
      (auto dest: submit_step_frame life_stores simp: submit_frame_def core_frame_def read_only_fields)
qed

interpretation no_slash_id: invariant_machine lib_start "lib_step X" "\<lambda>cw. at_slash_counter (ct_att (fst cw)) = None" for X
  by unfold_locales (simp add: lib_start_def contract_empty_def att_empty_def, erule (1) slash_counter_step)

lemma duplicate_fails:
  assumes "at_active s (b, p) \<noteq> None"
  shows "execute_submission env X payer attestor b p root ts ver ph ex (s, w) \<noteq> Inr r"
proof
  assume e: "execute_submission env X payer attestor b p root ts ver ph ex (s, w) = Inr r"
  obtain s' w' where "r = (s', w')" by (cases r)
  with e have "execute_submission env X payer attestor b p root ts ver ph ex (s, w) = Inr (s', w')" by simp
  then show False by (rule execute_cases) (use assms in simp)
qed

lemma duplicate_batch_fails:
  assumes "at_active s (b, p) \<noteq> None" and "i \<in> set items" "item_key i = (b, p)"
  shows "execute_batch_submission env X payer items rba (s, w) \<noteq> Inr r"
proof
  assume e: "execute_batch_submission env X payer items rba (s, w) = Inr r"
  then obtain ac where "validation_loop env (s\<lparr>at_access := ac\<rparr>) rba [] [] items = Inr ()"
    by (auto simp: execute_batch_submission_def Let_def)
  from validation_loop_ok [OF this assms(2)] assms(1,3) show False by (simp add: item_ok_def)
qed

text \<open>
  C21. A duplicate submission changes nothing, a slash included. When a business already has an
  attestation for a period, every way to submit another one, alone or in a batch, by the business or by
  an attestor, fails as a whole. The slash that the attestor's path asks the staking contract for, and
  the slash id it draws, are rolled back with the call: in no reachable state was a slash id ever drawn,
  so double submission and reuse of an expired period are never penalised.
\<close>

theorem duplicate_submission_rolls_back:
  assumes "reachable lib_start (lib_step X) (c, w)" and "at_active (ct_att c) (b, p) \<noteq> None"
  shows "exec (lib_step X) (env, Submission (CSubmit b p root ts ver paid ph ex)) (c, w) = (c, w) \<and>
    exec (lib_step X) (env, Submission (CSubmitAttestor a b p root ts ver ex)) (c, w) = (c, w) \<and>
    exec (lib_step X) (env, Submission (CSubmitMetadata b p root ts ver cur net)) (c, w) = (c, w) \<and>
    (\<forall>items. (b, p) \<in> item_key ` set items \<longrightarrow>
       exec (lib_step X) (env, Submission (CBatch items)) (c, w) = (c, w) \<and>
       exec (lib_step X) (env, Submission (CBatchAttestor a items)) (c, w) = (c, w)) \<and>
    at_slash_counter (ct_att c) = None"
proof -
  have fail: "exec (lib_step X) e (c, w) = (c, w)" if "\<And>r. lib_step X e (c, w) \<noteq> Inr r" for e
    using that by (cases "lib_step X e (c, w)") (auto simp: exec_def)
  note d = duplicate_fails [OF assms(2)]
  show ?thesis
    using no_slash_id.reachable_inv [OF assms(1)]
    by (auto intro!: fail simp: submit_attestation_def submit_attestation_as_attestor_def d
        submit_attestation_with_metadata_def submit_attestations_batch_def submit_batch_as_attestor_def
        duplicate_batch_fails [OF assms(2) _ sym])
qed

section \<open>The staking contract\<close>

lemma lib_staking_cases:
  assumes "lib_step X (env, e) (c, w) = Inr (c', w')"
  shows "staking_frame (ct_att c) (ct_att c') \<or>
    (\<exists>x. e = Guard x \<and> guard_step env x (ct_att c) = Inr (ct_att c') \<and>
       ((\<exists>a b n. x = CProposeStaking a b n) \<or> (\<exists>a n. x = CCommitStaking a n) \<or> (\<exists>a n. x = CCancelStaking a n)))"
  using assms
proof (cases rule: lib_step_cases)
  case (submission x)
  then show ?thesis by (auto dest: submit_step_frame simp: submit_frame_def)
next
  case (lifecycle x)
  then show ?thesis by (auto dest: life_stores)
next
  case reading
  then show ?thesis by (simp add: staking_frame_def read_only_fields)
next
  case other
  then show ?thesis by blast
qed

lemma timelock_guard_cases:
  assumes "timelock_guard env caller n s = Inr (admin, s1)"
  shows "has_role (at_access s) caller ROLE_ADMIN \<and> fs_admin (at_fees s) = Some admin \<and> authorized env caller \<and>
    authorized env admin \<and> staking_frame s s1 \<and> at_access s1 = at_access s"
  using assms
  by (auto simp: timelock_guard_def require_admin_def fees_require_admin_def fees_get_admin_def use_nonce_of_def
      staking_frame_def)

lemma propose_staking_cases:
  assumes "propose_staking_contract env a b n s = Inr s'"
  shows "\<exists>admin. has_role (at_access s) a ROLE_ADMIN \<and> fs_admin (at_fees s) = Some admin \<and> authorized env a \<and>
    authorized env admin \<and> fs_pending_staking (at_fees s) = None \<and> at_staking s' = at_staking s \<and>
    fs_pending_staking (at_fees s') = Some \<lparr>ps_new_contract = b,
      ps_effective_at = timestamp env + FEE_TIMELOCK_SECONDS, ps_proposed_by = admin\<rparr>"
  using assms
  by (auto simp: propose_staking_contract_def staking_frame_def get_pending_staking_contract_def
      set_pending_staking_contract_def dest!: timelock_guard_cases)

lemma commit_staking_cases:
  assumes "commit_staking_contract env a n s = Inr s'"
  shows "\<exists>admin p. has_role (at_access s) a ROLE_ADMIN \<and> fs_admin (at_fees s) = Some admin \<and> authorized env a \<and>
    authorized env admin \<and> fs_pending_staking (at_fees s) = Some p \<and> ps_effective_at p \<le> timestamp env \<and>
    at_staking s' = Some (ps_new_contract p) \<and> fs_pending_staking (at_fees s') = None"
  using assms
  by (auto simp: commit_staking_contract_def staking_frame_def get_pending_staking_contract_def
      clear_pending_staking_contract_def dest!: timelock_guard_cases) metis

lemma cancel_staking_cases:
  assumes "cancel_pending_staking_contract env a n s = Inr s'"
  shows "at_staking s' = at_staking s \<and> fs_pending_staking (at_fees s') = None"
  using assms
  by (auto simp: cancel_pending_staking_contract_def staking_frame_def clear_pending_staking_contract_def
      dest!: timelock_guard_cases)

text \<open>
  C13. The staking contract is replaced only through the timelock. If a call, after any history from the
  empty contract, changes which staking contract decides about attestors, the history contains a
  successful proposal of that very contract, made at least 24 hours of ledger time earlier by an
  administrator with the authorization of the admin account of that time, and the call is authorized by
  the present admin account.
\<close>

theorem staking_replaced_after_timelock:
  assumes "lib_start cw" and "run (lib_step X) cs cw = (c, w)"
    and "lib_step X (env, e) (c, w) = Inr (c', w')" and "at_staking (ct_att c') \<noteq> at_staking (ct_att c)"
  shows "\<exists>pre env0 a b n post c0 w0 cw1 admin. cs = pre @ (env0, Guard (CProposeStaking a b n)) # post \<and>
    run (lib_step X) pre cw = (c0, w0) \<and> lib_step X (env0, Guard (CProposeStaking a b n)) (c0, w0) = Inr cw1 \<and>
    has_role (at_access (ct_att c0)) a ROLE_ADMIN \<and> authorized env0 a \<and>
    fs_admin (at_fees (ct_att c0)) = Some admin \<and> authorized env0 admin \<and>
    at_staking (ct_att c') = Some b \<and> timestamp env0 + FEE_TIMELOCK_SECONDS \<le> timestamp env \<and>
    (\<exists>adm. fs_admin (at_fees (ct_att c)) = Some adm \<and> authorized env adm)"
proof -
  let ?pend = "\<lambda>cw. fs_pending_staking (at_fees (ct_att (fst cw)))"
  from lib_staking_cases [OF assms(3)] assms(4) obtain x where x: "e = Guard x" "guard_step env x (ct_att c) = Inr (ct_att c')"
    "(\<exists>a b n. x = CProposeStaking a b n) \<or> (\<exists>a n. x = CCommitStaking a n) \<or> (\<exists>a n. x = CCancelStaking a n)"
    by (auto simp: staking_frame_def)
  then obtain a0 n0 where "commit_staking_contract env a0 n0 (ct_att c) = Inr (ct_att c')"
    using assms(4) by (auto dest: propose_staking_cases cancel_staking_cases)
  then obtain p adm where p: "?pend (c, w) = Some p" "ps_effective_at p \<le> timestamp env"
    "at_staking (ct_att c') = Some (ps_new_contract p)" "fs_admin (at_fees (ct_att c)) = Some adm" "authorized env adm"
    by (auto dest: commit_staking_cases)
  have "?pend cw \<noteq> Some p" using assms(1) by (simp add: lib_start_def contract_empty_def att_empty_def fee_empty_def)
  with p(1) assms(2) run_becomes [where Q = "\<lambda>cw. ?pend cw = Some p" and step = "lib_step X" and cs = cs and s = cw]
  obtain pre d post t where r: "cs = pre @ d # post" "?pend (run (lib_step X) pre cw) \<noteq> Some p"
    "lib_step X d (run (lib_step X) pre cw) = Inr t" "?pend t = Some p" by auto
  obtain env0 y c0 w0 c1 w1 where y: "d = (env0, y)" "run (lib_step X) pre cw = (c0, w0)" "t = (c1, w1)"
    by (metis surj_pair)
  with r(3) have st: "lib_step X (env0, y) (c0, w0) = Inr (c1, w1)" by simp
  have "\<exists>a b n. y = Guard (CProposeStaking a b n) \<and> propose_staking_contract env0 a b n (ct_att c0) = Inr (ct_att c1)"
    using lib_staking_cases [OF st] r(2,4) y
    by (auto simp: staking_frame_def dest!: commit_staking_cases cancel_staking_cases)
  then obtain a b n where g: "y = Guard (CProposeStaking a b n)"
    "propose_staking_contract env0 a b n (ct_att c0) = Inr (ct_att c1)" by blast
  from propose_staking_cases [OF g(2)] r(4) y(3) obtain admin where
    "has_role (at_access (ct_att c0)) a ROLE_ADMIN" "authorized env0 a" "fs_admin (at_fees (ct_att c0)) = Some admin"
    "authorized env0 admin" "ps_new_contract p = b" "ps_effective_at p = timestamp env0 + FEE_TIMELOCK_SECONDS"
    by auto
  with r(1) y(1,2) g(1) st p(2-5) show ?thesis by fastforce
qed

end
