(* ===== verification/Attestation_Stores.thy ===== *)
theory Attestation_Stores
  imports Attestation_Traces
begin

text \<open>
  The archive, the multi-period ranges and the DAO's slot of the attestation contract: what they guarantee
  in every state the contract can reach.
\<close>

section \<open>The archive\<close>

definition archive_ok :: "att_state \<Rightarrow> bool" where
  "archive_ok s \<longleftrightarrow>
     (\<forall>k p. fs_archive_pointers (at_fees s) k = Some p \<longrightarrow>
        0 < ap_archive_index p \<and> ap_archive_index p \<le> get_archive_index (at_fees s)) \<and>
     (\<forall>k j p q. fs_archive_pointers (at_fees s) k = Some p \<longrightarrow> fs_archive_pointers (at_fees s) j = Some q \<longrightarrow>
        ap_archive_index p = ap_archive_index q \<longrightarrow> k = j) \<and>
     (\<forall>k d. at_archived s k = Some d \<longrightarrow>
        map_option ap_merkle_root (fs_archive_pointers (at_fees s) k) = Some (ad_root d))"

text \<open>Pointers stay, or give way to newer ones.\<close>

definition pointers_grow :: "att_state \<Rightarrow> att_state \<Rightarrow> bool" where
  "pointers_grow s s' \<longleftrightarrow>
     (\<forall>k p. fs_archive_pointers (at_fees s) k = Some p \<longrightarrow>
        (\<exists>q. fs_archive_pointers (at_fees s') k = Some q \<and> (q = p \<or> ap_archive_index p < ap_archive_index q)))"

definition archive_step :: "att_state \<Rightarrow> att_state \<Rightarrow> bool" where
  "archive_step s s' \<longleftrightarrow> archive_ok s \<longrightarrow> archive_ok s' \<and> pointers_grow s s'"

lemma archive_step_refl [simp]: "archive_step s s"
  by (simp add: archive_step_def pointers_grow_def)

lemma pointers_grow_trans:
  assumes "pointers_grow s t" and "pointers_grow t u"
  shows "pointers_grow s u"
  unfolding pointers_grow_def
proof (intro allI impI)
  fix k p assume "fs_archive_pointers (at_fees s) k = Some p"
  then obtain q where q: "fs_archive_pointers (at_fees t) k = Some q" "q = p \<or> ap_archive_index p < ap_archive_index q"
    using assms(1) unfolding pointers_grow_def by blast
  then obtain r where "fs_archive_pointers (at_fees u) k = Some r" "r = q \<or> ap_archive_index q < ap_archive_index r"
    using assms(2) unfolding pointers_grow_def by blast
  with q(2) show "\<exists>q. fs_archive_pointers (at_fees u) k = Some q \<and> (q = p \<or> ap_archive_index p < ap_archive_index q)"
    by auto
qed

lemma archive_step_trans: "archive_step s t \<Longrightarrow> archive_step t u \<Longrightarrow> archive_step s u"
  by (auto simp: archive_step_def intro: pointers_grow_trans)

lemma archive_step_frame:
  "at_archived s' = at_archived s \<Longrightarrow> fs_archive_index (at_fees s') = fs_archive_index (at_fees s) \<Longrightarrow>
   fs_archive_pointers (at_fees s') = fs_archive_pointers (at_fees s) \<Longrightarrow> archive_step s s'"
  by (simp add: archive_step_def archive_ok_def pointers_grow_def get_archive_index_def)

lemma archive_step_less:
  assumes "\<And>k d. A k = Some d \<Longrightarrow> at_archived s k = Some d"
  shows "archive_step s (s\<lparr>at_archived := A\<rparr>)"
  using assms by (simp add: archive_step_def archive_ok_def pointers_grow_def)

lemma archive_okD:
  assumes "archive_ok s"
  shows "fs_archive_pointers (at_fees s) k = Some q \<Longrightarrow> 0 < ap_archive_index q"
    and "fs_archive_pointers (at_fees s) k = Some q \<Longrightarrow> ap_archive_index q \<le> get_archive_index (at_fees s)"
    and "fs_archive_pointers (at_fees s) k = Some q \<Longrightarrow> fs_archive_pointers (at_fees s) i = Some q' \<Longrightarrow>
      ap_archive_index q = ap_archive_index q' \<Longrightarrow> k = i"
    and "at_archived s k = Some d \<Longrightarrow> map_option ap_merkle_root (fs_archive_pointers (at_fees s) k) = Some (ad_root d)"
  using assms unfolding archive_ok_def by blast+

lemma archive_one_step:
  assumes "archive_one now j d s = Inr s'"
  shows "archive_step s s'"
proof -
  from archive_one_result [OF assms] obtain p where r: "at_archived s' = (at_archived s)(j \<mapsto> d)"
    "fs_archive_pointers (at_fees s') = (fs_archive_pointers (at_fees s))(j \<mapsto> p)" "ap_merkle_root p = ad_root d"
    "ap_archive_index p = get_archive_index (at_fees s) + 1"
    "get_archive_index (at_fees s') = get_archive_index (at_fees s) + 1" by blast
  note old = archive_okD(1,2) and distinct = archive_okD(3)
  have "archive_ok s'" if ok: "archive_ok s"
    unfolding archive_ok_def r(2,5)
  proof (intro conjI allI impI)
    fix k q assume "((fs_archive_pointers (at_fees s))(j \<mapsto> p)) k = Some q"
    then show "0 < ap_archive_index q" "ap_archive_index q \<le> get_archive_index (at_fees s) + 1"
      using old(1,2) [OF ok, of k q] r(4) by (auto split: if_splits)
  next
    fix k i q q'
    assume k: "((fs_archive_pointers (at_fees s))(j \<mapsto> p)) k = Some q"
      and i: "((fs_archive_pointers (at_fees s))(j \<mapsto> p)) i = Some q'" and eq: "ap_archive_index q = ap_archive_index q'"
    have new: "False" if "fs_archive_pointers (at_fees s) l = Some x" "ap_archive_index x = ap_archive_index p" for l x
      using old(2) [OF ok that(1)] that(2) r(4) by simp
    show "k = i"
    proof (cases "k = j")
      case True
      with k i eq new [of i q'] show ?thesis by (cases "i = j") simp_all
    next
      case False
      with k i eq new [of k q] distinct [OF ok, of k q i q'] show ?thesis by (cases "i = j") simp_all
    qed
  next
    fix k x assume "at_archived s' k = Some x"
    then show "map_option ap_merkle_root (((fs_archive_pointers (at_fees s))(j \<mapsto> p)) k) = Some (ad_root x)"
      using r(1,3) archive_okD(4) [OF ok, of k x] by (auto split: if_splits)
  qed
  moreover have "pointers_grow s s'" if "archive_ok s"
    using old(2) [OF that] r(2,4) by (auto simp: pointers_grow_def less_Suc_eq_le)
  ultimately show ?thesis by (simp add: archive_step_def)
qed

lemma life_archive:
  assumes "life_step env e s = Inr s'"
  shows "archive_step s s'"
proof (cases e)
  case (CArchive c ks age limit)
  with assms obtain m where "archive_loop (timestamp env) age limit ks 0 s = Inr (m, s')"
    by (auto simp: move_to_archive_def)
  then show ?thesis
    by (rule archive_loop_induct [where R = archive_step]) (auto intro: archive_step_trans archive_one_step)
next
  case (CCompact c ks limit)
  with assms obtain me n where "compact_loop (timestamp env div FEE_BUCKET_WINDOW_SECONDS) me limit ks 0 s = (n, s')"
    by (auto simp: compact_archival_def)
  then show ?thesis
    using compact_loop_frame [of "timestamp env div FEE_BUCKET_WINDOW_SECONDS" me limit ks 0 s]
    by (auto intro!: archive_step_less) (metis option.distinct(1))
qed (use assms in \<open>auto simp: revoke_attestation_def revoke_and_cleanup_def propose_revoke_def commit_revoke_def
    cancel_revoke_proposal_def set_grace_entry_def cleanup_expired_attestation_def cleanup_revocation_index_def
    set_retention_entry_def clear_retention_entry_def migrate_attestation_def extend_expiry_def update_proof_hash_def
    revoke_multi_period_attestation_def remove_metadata_def store_revoke_proposal_def remove_revoke_proposal_def
    set_revoke_grace_seconds_def set_compaction_retention_def clear_compaction_retention_def Let_def
    intro!: archive_step_frame split: if_splits\<close>)

lemma lib_archive:
  assumes "lib_step X e (c, w) = Inr (c', w')"
  shows "archive_step (ct_att c) (ct_att c')"
proof -
  obtain env x where "e = (env, x)" by (cases e)
  with assms have "lib_step X (env, x) (c, w) = Inr (c', w')" by simp
  then show ?thesis
  proof (cases rule: lib_step_cases)
    case (lifecycle y)
    then show ?thesis by (blast intro: life_archive)
  qed (auto dest: submit_step_frame simp: submit_frame_def core_frame_def read_only_fields intro!: archive_step_frame)
qed

lemma archive_start: "lib_start cw \<Longrightarrow> archive_ok (ct_att (fst cw))"
  by (simp add: lib_start_def archive_ok_def contract_empty_def att_empty_def fee_empty_def)

interpretation archive: invariant_machine lib_start "lib_step X" "\<lambda>cw. archive_ok (ct_att (fst cw))" for X
proof
  fix cw e cw' assume "archive_ok (ct_att (fst cw))" "lib_step X e cw = Inr cw'"
  then show "archive_ok (ct_att (fst cw'))"
    using lib_archive [of X e "fst cw" "snd cw" "fst cw'" "snd cw'"] by (simp add: archive_step_def)
qed (rule archive_start)

text \<open>
  C7. The archive keeps its commitments. In every reachable state the archive pointers carry distinct
  indices between 1 and the global index, an archived attestation has a pointer with its Merkle root, and
  no later call removes a pointer: it stays as it is, through compaction too, unless the same business
  and period is archived again, which gives it a greater index.
\<close>

theorem archive_keeps_commitments:
  assumes "reachable lib_start (lib_step X) cw" and "s = ct_att (fst cw)"
  shows "(\<forall>b p d. get_archived_attestation s b p = Some d \<longrightarrow>
      (\<exists>q. get_archive_pointer (at_fees s) b p = Some q \<and> ap_merkle_root q = ad_root d)) \<and>
    inj_on (\<lambda>(b, p). ap_archive_index (the (get_archive_pointer (at_fees s) b p)))
      {(b, p). get_archive_pointer (at_fees s) b p \<noteq> None} \<and>
    (\<forall>b p q. get_archive_pointer (at_fees s) b p = Some q \<longrightarrow>
      0 < ap_archive_index q \<and> ap_archive_index q \<le> get_archive_index (at_fees s) \<and>
      (\<forall>cs. \<exists>q'. get_archive_pointer (at_fees (ct_att (fst (run (lib_step X) cs cw)))) b p = Some q' \<and>
         (q' = q \<or> ap_archive_index q < ap_archive_index q')))"
proof -
  have ok: "archive_ok s" using archive.reachable_inv [OF assms(1)] assms(2) by simp
  have "pointers_grow s (ct_att (fst (run (lib_step X) cs cw)))" for cs
    unfolding assms(2)
  proof (rule archive.run_rel [where R = "\<lambda>s t. pointers_grow (ct_att (fst s)) (ct_att (fst t))"])
    show "archive_ok (ct_att (fst cw))" using ok assms(2) by simp
    fix s e s' assume "archive_ok (ct_att (fst s))" "lib_step X e s = Inr s'"
    then show "pointers_grow (ct_att (fst s)) (ct_att (fst s'))"
      using lib_archive [of X e "fst s" "snd s" "fst s'" "snd s'"] by (simp add: archive_step_def)
  qed (simp add: pointers_grow_def, blast intro: pointers_grow_trans)
  note grow = this
  have "inj_on (\<lambda>(b, p). ap_archive_index (the (get_archive_pointer (at_fees s) b p)))
      {(b, p). get_archive_pointer (at_fees s) b p \<noteq> None}"
    using archive_okD(3) [OF ok] by (auto simp: inj_on_def get_archive_pointer_def)
  moreover have "get_archived_attestation s b p = Some d \<Longrightarrow>
      \<exists>q. get_archive_pointer (at_fees s) b p = Some q \<and> ap_merkle_root q = ad_root d" for b p d
    using archive_okD(4) [OF ok, of "(b, p)" d] by (simp add: get_archived_attestation_def get_archive_pointer_def)
  moreover have "0 < ap_archive_index q" "ap_archive_index q \<le> get_archive_index (at_fees s)"
    if "get_archive_pointer (at_fees s) b p = Some q" for b p q
    using that archive_okD(1,2) [OF ok, of "(b, p)" q] by (simp_all add: get_archive_pointer_def)
  ultimately show ?thesis using grow unfolding pointers_grow_def get_archive_pointer_def by blast
qed

section \<open>Multi-period ranges\<close>

definition apart :: "att_range \<Rightarrow> att_range \<Rightarrow> bool" where
  "apart r q \<longleftrightarrow> rg_revoked r \<or> rg_revoked q \<or> rg_end r < rg_start q \<or> rg_end q < rg_start r"

definition ranges_ok :: "att_state \<Rightarrow> bool" where
  "ranges_ok s \<longleftrightarrow>
     (\<forall>b. \<forall>i < length (ranges_of s b). \<forall>j < length (ranges_of s b). i \<noteq> j \<longrightarrow>
        apart (ranges_of s b ! i) (ranges_of s b ! j))"

lemma ranges_okD:
  "ranges_ok s \<Longrightarrow> i < length (ranges_of s b) \<Longrightarrow> j < length (ranges_of s b) \<Longrightarrow> i \<noteq> j \<Longrightarrow>
   apart (ranges_of s b ! i) (ranges_of s b ! j)"
  by (simp add: ranges_ok_def)

lemma ranges_ok_frame: "at_ranges s' = at_ranges s \<Longrightarrow> ranges_ok s' = ranges_ok s"
  by (simp add: ranges_ok_def ranges_of_def)

lemma multi_period_cases:
  assumes "submit_multi_period_attestation env X b st en root ts ver ph ex (s, w) = Inr (s', w')"
  obtains r where "rg_start r = st" "rg_end r = en" "rg_root r = root" "rg_revoked r = False" "rg_expiry r = ex"
    "\<forall>q\<in>set (ranges_of s b). apart q r" "st \<le> en" "validate_expiry env ts ex = Inr ()" "authorized env b"
    "at_ranges s' = (at_ranges s)(b \<mapsto> ranges_of s b @ [r])"
proof -
  obtain fee where f: "authorized env b" "st \<le> en" "validate_expiry env ts ex = Inr ()"
    "\<not> list_ex (\<lambda>r. \<not> rg_revoked r \<and> st \<le> rg_end r \<and> rg_start r \<le> en) (ranges_of s b)"
    "at_ranges s' = (at_ranges s)(b \<mapsto> ranges_of s b @ [\<lparr>rg_start = st, rg_end = en, rg_root = root, rg_timestamp = ts,
       rg_version = ver, rg_fee_paid = fee, rg_proof_hash = ph, rg_expiry = ex, rg_revoked = False\<rparr>])"
    using assms by (auto simp: submit_multi_period_attestation_def Let_def not_less split: if_splits)
  show thesis
    by (rule that [OF _ _ _ _ _ _ f(2,3,1,5)]) (use f(4) in \<open>auto simp: list_ex_iff apart_def\<close>)
qed

lemma nth_snoc_pairs:
  assumes "\<forall>i < length xs. \<forall>j < length xs. i \<noteq> j \<longrightarrow> P (xs ! i) (xs ! j)"
    and "\<forall>x\<in>set xs. P x y \<and> P y x" and "i < Suc (length xs)" "j < Suc (length xs)" "i \<noteq> j"
  shows "P ((xs @ [y]) ! i) ((xs @ [y]) ! j)"
  using assms by (auto simp: nth_append less_Suc_eq)

lemma multi_period_ranges_ok:
  assumes "ranges_ok s" and "submit_multi_period_attestation env X b st en root ts ver ph ex (s, w) = Inr (s', w')"
  shows "ranges_ok s'"
  using assms(2)
proof (rule multi_period_cases)
  fix r assume r: "\<forall>q\<in>set (ranges_of s b). apart q r" "at_ranges s' = (at_ranges s)(b \<mapsto> ranges_of s b @ [r])"
  have "\<forall>q\<in>set (ranges_of s b). apart q r \<and> apart r q" using r(1) by (auto simp: apart_def)
  note snoc = nth_snoc_pairs [where P = apart, OF _ this]
  have "apart (ranges_of s' a ! i) (ranges_of s' a ! j)"
    if "i < length (ranges_of s' a)" "j < length (ranges_of s' a)" "i \<noteq> j" for a i j
  proof (cases "a = b")
    case True
    with r(2) have e: "ranges_of s' a = ranges_of s b @ [r]" by (simp add: ranges_of_def)
    show ?thesis using snoc [of i j] that assms(1) unfolding e ranges_ok_def by simp
  next
    case False
    with r(2) have "ranges_of s' a = ranges_of s a" by (simp add: ranges_of_def)
    with that assms(1) show ?thesis by (simp add: ranges_ok_def)
  qed
  then show ?thesis by (simp add: ranges_ok_def)
qed

lemma revoke_range_ok:
  assumes "ranges_ok s" and "revoke_multi_period_attestation env b root s = Inr s'"
  shows "ranges_ok s'"
proof -
  obtain i where i: "i < length (ranges_of s b)"
    "at_ranges s' = (at_ranges s)(b \<mapsto> (ranges_of s b)[i := (ranges_of s b ! i)\<lparr>rg_revoked := True\<rparr>])"
    using assms(2) by (auto simp: revoke_multi_period_attestation_def ranges_of_def)
  then have "ranges_of s' a = (if a = b then (ranges_of s b)[i := (ranges_of s b ! i)\<lparr>rg_revoked := True\<rparr>] else ranges_of s a)"
    for a by (simp add: ranges_of_def)
  with assms(1) i(1) show ?thesis by (auto simp: ranges_ok_def nth_list_update apart_def)
qed

lemma archive_loop_ranges:
  "archive_loop now age limit ks n s = Inr (m, s') \<Longrightarrow> at_ranges s' = at_ranges s"
  by (rule archive_loop_induct [where R = "\<lambda>s t. at_ranges t = at_ranges s"])
    (auto simp: archive_one_def set_archived_attestation_def Let_def)

lemma life_ranges:
  assumes "life_step env e s = Inr s'" and "ranges_ok s"
  shows "ranges_ok s'"
proof (cases e)
  case (CRevokeRange b root)
  with assms show ?thesis by (auto intro: revoke_range_ok)
next
  case (CArchive c ks age limit)
  with assms show ?thesis
    by (auto simp: move_to_archive_def intro: ranges_ok_frame [THEN iffD2] dest: archive_loop_ranges)
next
  case (CCompact c ks limit)
  with assms obtain me n where "compact_loop (timestamp env div FEE_BUCKET_WINDOW_SECONDS) me limit ks 0 s = (n, s')"
    by (auto simp: compact_archival_def)
  then show ?thesis
    using compact_loop_frame [of "timestamp env div FEE_BUCKET_WINDOW_SECONDS" me limit ks 0 s] assms(2)
    by (auto simp: ranges_ok_def ranges_of_def)
qed (use assms in \<open>auto simp: revoke_attestation_def revoke_and_cleanup_def propose_revoke_def commit_revoke_def
    cancel_revoke_proposal_def set_grace_entry_def cleanup_expired_attestation_def cleanup_revocation_index_def
    set_retention_entry_def clear_retention_entry_def migrate_attestation_def extend_expiry_def update_proof_hash_def
    remove_metadata_def Let_def ranges_ok_def ranges_of_def split: if_splits\<close>)

lemma submit_ranges:
  assumes "submit_step X env e (s, w) = Inr (s', w')" and "ranges_ok s"
  shows "ranges_ok s'"
proof (cases e)
  case (CMultiPeriod b st en root ts ver ph x)
  with assms show ?thesis by (auto intro: multi_period_ranges_ok)
qed (use assms in \<open>auto simp: submit_attestation_def submit_attestation_as_attestor_def submit_attestations_batch_def
    submit_batch_as_attestor_def submit_attestation_with_metadata_def set_metadata_def ranges_ok_def ranges_of_def
    dest!: execute_frame(1) execute_batch_cases simp: sub_frame_def\<close>)

lemma ranges_step:
  assumes "ranges_ok (ct_att (fst cw))" and "lib_step X e cw = Inr cw'"
  shows "ranges_ok (ct_att (fst cw'))"
proof -
  obtain env x c w c' w' where e: "e = (env, x)" "cw = (c, w)" "cw' = (c', w')" by (metis surj_pair)
  with assms(2) have "lib_step X (env, x) (c, w) = Inr (c', w')" by simp
  then show ?thesis
    using assms(1) unfolding e
    by (cases rule: lib_step_cases)
      (auto intro: submit_ranges life_ranges ranges_ok_frame [THEN iffD2] simp: core_frame_def read_only_fields)
qed

interpretation ranges: invariant_machine lib_start "lib_step X" "\<lambda>cw. ranges_ok (ct_att (fst cw))" for X
  by unfold_locales
    (simp add: lib_start_def ranges_ok_def ranges_of_def contract_empty_def att_empty_def, erule (1) ranges_step)

lemma verify_range_nth:
  "verify_multi_period_attestation env s b t r \<longleftrightarrow>
     (\<exists>i < length (ranges_of s b). range_verifies env t r (ranges_of s b ! i))"
  by (auto simp: verify_multi_period_attestation_def ranges_of_def list_ex_iff in_set_conv_nth
      intro: bexI [OF _ nth_mem] split: option.split)

lemma range_root_unique:
  assumes "ranges_ok s" "verify_multi_period_attestation env s b t r" "verify_multi_period_attestation env s b t q"
  shows "r = q"
proof -
  obtain i j where ij: "i < length (ranges_of s b)" "range_verifies env t r (ranges_of s b ! i)"
    "j < length (ranges_of s b)" "range_verifies env t q (ranges_of s b ! j)"
    using assms(2,3) unfolding verify_range_nth by blast
  then have "i = j" using ranges_okD [OF assms(1) ij(1,3)] by (fastforce simp: apart_def range_verifies_def)
  with ij show ?thesis by (simp add: range_verifies_def)
qed

lemma new_range_verifies:
  assumes "submit_multi_period_attestation env X b st en root ts ver ph ex (s, w) = Inr (s', w')" "st \<le> t" "t \<le> en"
  shows "verify_multi_period_attestation env s' b t root"
  using assms(1)
proof (rule multi_period_cases)
  fix r assume r: "rg_start r = st" "rg_end r = en" "rg_root r = root" "rg_revoked r = False" "rg_expiry r = ex"
    "validate_expiry env ts ex = Inr ()" "at_ranges s' = (at_ranges s)(b \<mapsto> ranges_of s b @ [r])"
  then have "range_verifies env t root r"
    using assms(2,3) by (auto simp: range_verifies_def validate_expiry_def split: option.splits if_splits)
  with r(7) show ?thesis by (simp add: verify_multi_period_attestation_def)
qed

text \<open>
  C14. A period has one multi-period root. In every reachable state the ranges of a business that are not
  revoked are pairwise disjoint, so at no time do two different roots verify for the same business and
  period; and right after a range is submitted, exactly its root verifies for each of its periods.
\<close>

theorem one_range_root_per_period:
  assumes "reachable lib_start (lib_step X) cw" and "s = ct_att (fst cw)"
  shows "(\<forall>i < length (ranges_of s b). \<forall>j < length (ranges_of s b). i \<noteq> j \<longrightarrow>
      \<not> rg_revoked (ranges_of s b ! i) \<longrightarrow> \<not> rg_revoked (ranges_of s b ! j) \<longrightarrow>
      {rg_start (ranges_of s b ! i)..rg_end (ranges_of s b ! i)} \<inter> {rg_start (ranges_of s b ! j)..rg_end (ranges_of s b ! j)} = {}) \<and>
    (\<forall>env t r q. verify_multi_period_attestation env s b t r \<longrightarrow> verify_multi_period_attestation env s b t q \<longrightarrow> r = q) \<and>
    (\<forall>env w st en root ts ver ph ex s' w' t q. st \<le> t \<longrightarrow> t \<le> en \<longrightarrow>
      submit_multi_period_attestation env X b st en root ts ver ph ex (s, w) = Inr (s', w') \<longrightarrow>
      verify_multi_period_attestation env s' b t q = (q = root))"
proof -
  have ok: "ranges_ok s" using ranges.reachable_inv [OF assms(1)] assms(2) by simp
  have "{rg_start (ranges_of s b ! i)..rg_end (ranges_of s b ! i)} \<inter> {rg_start (ranges_of s b ! j)..rg_end (ranges_of s b ! j)} = {}"
    if "i < length (ranges_of s b)" "j < length (ranges_of s b)" "i \<noteq> j" "\<not> rg_revoked (ranges_of s b ! i)"
      "\<not> rg_revoked (ranges_of s b ! j)" for i j
    using ranges_okD [OF ok that(1-3)] that(4,5) by (auto simp: apart_def)
  note disjoint = this
  have "verify_multi_period_attestation env s' b t q = (q = root)"
    if "st \<le> t" "t \<le> en" and m: "submit_multi_period_attestation env X b st en root ts ver ph ex (s, w) = Inr (s', w')"
    for env w st en root ts ver ph ex s' w' t q
    using range_root_unique [OF multi_period_ranges_ok [OF ok m]] new_range_verifies [OF m that(1,2)] by blast
  note exact = this
  show ?thesis
    by (intro conjI allI impI) (erule (4) disjoint, erule (1) range_root_unique [OF ok], erule (2) exact)
qed

section \<open>One slot for the DAO\<close>

text \<open>
  \<open>DataKey::Dao\<close> and \<open>FlatFeeDataKey::Dao\<close> are one slot of the storage, shown by the states of both fee
  modules: in every state that the contract reaches, they show the same DAO. So whoever sets or takes over
  the DAO of the flat fee has that of the dynamic fee too, and the other way round.
\<close>

definition one_dao :: "contract \<times> 'w \<Rightarrow> bool" where
  "one_dao cw \<longleftrightarrow> get_dao (at_fees (ct_att (fst cw))) = flat_get_dao (at_flat (ct_att (fst cw)))"

definition dao_same :: "att_state \<Rightarrow> att_state \<Rightarrow> bool" where
  "dao_same s s' \<longleftrightarrow> (fs_dao (at_fees s) = fl_dao (at_flat s) \<longrightarrow> fs_dao (at_fees s') = fl_dao (at_flat s'))"

lemma dao_same_frame:
  "fs_dao (at_fees s') = fs_dao (at_fees s) \<Longrightarrow> fl_dao (at_flat s') = fl_dao (at_flat s) \<Longrightarrow> dao_same s s'"
  by (simp add: dao_same_def)

lemmas fee_store_defs = store_revoke_proposal_def remove_revoke_proposal_def set_revoke_grace_seconds_def
  increment_cleanup_count_def set_compaction_retention_def clear_compaction_retention_def fees_set_admin_def
  set_fee_config_def set_pending_fee_config_def clear_pending_fee_config_def set_tier_discount_def
  set_business_tier_def set_volume_brackets_def set_fee_enabled_def fees_set_dao_def
  set_pending_staking_contract_def clear_pending_staking_contract_def set_reputation_contract_def
  clear_reputation_contract_def set_min_reputation_def

lemma life_dao:
  assumes "life_step env e s = Inr s'"
  shows "dao_same s s'"
proof (cases e)
  case (CArchive c ks age limit)
  with assms obtain n where "archive_loop (timestamp env) age limit ks 0 s = Inr (n, s')"
    by (auto simp: move_to_archive_def)
  then have "fs_dao (at_fees s') = fs_dao (at_fees s) \<and> at_flat s' = at_flat s"
    by (rule archive_loop_induct)
      (auto simp: archive_one_def set_archived_attestation_def next_archive_index_def set_archive_pointer_def Let_def)
  then show ?thesis by (simp add: dao_same_def)
next
  case (CCompact c ks limit)
  with assms obtain me n where "compact_loop (timestamp env div FEE_BUCKET_WINDOW_SECONDS) me limit ks 0 s = (n, s')"
    by (auto simp: compact_archival_def)
  then show ?thesis
    using compact_loop_frame [of "timestamp env div FEE_BUCKET_WINDOW_SECONDS" me limit ks 0 s]
    by (auto simp: dao_same_def)
qed (use assms in \<open>auto simp: fee_store_defs revoke_attestation_def revoke_and_cleanup_def commit_revoke_def propose_revoke_def
    cancel_revoke_proposal_def set_grace_entry_def cleanup_expired_attestation_def cleanup_revocation_index_def
    set_retention_entry_def clear_retention_entry_def migrate_attestation_def extend_expiry_def update_proof_hash_def
    revoke_multi_period_attestation_def remove_metadata_def Let_def intro!: dao_same_frame split: if_splits\<close>)

lemma config_dao:
  assumes "config_step X env e s = Inr s'"
  shows "dao_same s s'"
  using assms
  by (cases e)
    (auto simp: dao_same_def on_defs fee_store_defs initialize_def configure_fees_def propose_fee_config_def
      commit_fee_config_def cancel_pending_fee_config_def tier_discount_entry_def business_tier_entry_def
      volume_brackets_entry_def fee_enabled_entry_def set_dao_entry_def configure_flat_fee_def set_flat_fee_dao_def
      advance_epoch_entry_def set_epoch_entry_def configure_rate_limit_def Let_def split: if_splits option.splits)

lemma guard_dao:
  assumes "guard_step env e s = Inr s'"
  shows "dao_same s s'"
  using assms
  by (cases e)
    (auto simp: dao_same_def on_defs fee_store_defs propose_staking_contract_def commit_staking_contract_def
      cancel_pending_staking_contract_def set_attestor_staking_contract_def set_audit_log_contract_def
      reputation_entry_def clear_reputation_entry_def min_reputation_entry_def grant_role_entry_def
      revoke_role_entry_def swap_admin_entry_def admin_weight_entry_def cancel_delegated_permit_def pause_entry_def
      unpause_entry_def schedule_pause_def cancel_scheduled_pause_def add_authorized_analytics_def
      remove_authorized_analytics_def set_anomaly_def clear_escalation_entry_def Let_def split: if_splits)

lemma case_dao:
  assumes "case_step X env e (s, w) = Inr (s', w')"
  shows "dao_same s s'"
  using assms
  by (cases e)
    (auto simp: dao_same_def open_dispute_entry_def resolve_dispute_entry_def close_dispute_entry_def
      dispute_witness_entry_def rollback_disputes_entry_def dispute_deadline_entry_def trigger_slash_def
      propose_collector_entry_def accept_collector_entry_def put_flat_def on_dispute_def)

lemma dispatch_dao:
  assumes "dispatch_multisig_action env executor act c = Inr c'"
  shows "dao_same (ct_att c) (ct_att c')"
  using assms
  by (cases act) (auto simp: dispatch_multisig_action_def Let_def dao_same_def on_access_def fee_store_defs)

lemma owner_dao:
  assumes "owner_step env e c = Inr c'"
  shows "dao_same (ct_att c) (ct_att c')"
proof (cases e)
  case (CExecute a i n)
  with assms show ?thesis
    by (auto simp: execute_proposal_def use_nonce_of_def dao_same_def dest!: dispatch_dao)
qed (use assms in \<open>auto simp: configure_key_rotation_def propose_key_rotation_def confirm_key_rotation_def
    cancel_key_rotation_def propose_analytics_rotation_def commit_analytics_rotation_def cancel_analytics_rotation_def
    emergency_pause_entry_def initialize_multisig_entry_def create_proposal_entry_def
    approve_proposal_entry_def reject_proposal_entry_def cleanup_proposals_entry_def expiry_grace_entry_def
    use_nonce_of_def on_access_def fees_set_admin_def dao_same_def Let_def\<close>)

lemma lib_dao:
  assumes "lib_step X (env, e) (c, w) = Inr (c', w')"
  shows "dao_same (ct_att c) (ct_att c')"
  using assms
proof (cases e)
  case (Submission x)
  with assms show ?thesis by (auto dest!: submit_step_frame simp: submit_frame_def intro!: dao_same_frame)
next
  case (Reading x)
  with assms have "read_only (ct_att c) (ct_att c')" by (auto dest: read_frame)
  then show ?thesis by (simp add: dao_same_frame read_only_fields)
qed (use assms in \<open>auto dest: life_dao config_dao guard_dao case_dao owner_dao\<close>)

lemma one_dao_start: "lib_start cw \<Longrightarrow> one_dao cw"
  by (simp add: one_dao_def lib_start_def contract_empty_def att_empty_def fee_empty_def flat_empty_def
      get_dao_def flat_get_dao_def)

lemma one_dao_step:
  assumes "one_dao cw" and "lib_step X e cw = Inr cw'"
  shows "one_dao cw'"
proof -
  obtain env x c w c' w' where "e = (env, x)" "cw = (c, w)" "cw' = (c', w')" by (metis surj_pair)
  with assms lib_dao [of X env x c w c' w'] show ?thesis
    by (simp add: one_dao_def dao_same_def get_dao_def flat_get_dao_def)
qed

interpretation onedao: invariant_machine lib_start "lib_step X" one_dao for X
  by unfold_locales (erule one_dao_start, erule (1) one_dao_step)

lemma dao_one_slot:
  assumes "reachable lib_start (lib_step X) (c, w)"
  shows "get_dao (at_fees (ct_att c)) = flat_get_dao (at_flat (ct_att c))"
  using onedao.reachable_inv [OF assms] by (simp add: one_dao_def)

end
