(* ===== verification/Attestation_Examples.thy ===== *)
theory Attestation_Examples
  imports Attestation_Stores
begin

text \<open>Concrete histories of the whole contract, at which the theorems about it are applied.\<close>

section \<open>A staking contract is put in place\<close>

definition staking_calls :: "(ledger_env \<times> lib_call) list" where
  "staking_calls = [(env_at 10 1, Config (CInitialize ''ADMIN'' 0)),
     (env_at 20 2, Guard (CProposeStaking ''ADMIN'' ''STAKING'' 1))]"

lemmas call_simps = with_att_def initialize_def fees_is_initialized_def use_nonce_of_def
  verify_and_increment_nonce_def get_nonce_def on_access_def grant_role_def set_roles_def get_roles_def has_role_def
  is_valid_role_bitmap_def propose_staking_contract_def commit_staking_contract_def timelock_guard_def
  require_admin_def fees_require_admin_def fees_get_admin_def fees_set_admin_def get_pending_staking_contract_def
  set_pending_staking_contract_def clear_pending_staking_contract_def Let_def
  contract_empty_def NONCE_CHANNEL_ADMIN_def ROLE_ADMIN_def ROLE_ATTESTOR_def ROLE_BUSINESS_def ROLE_OPERATOR_def
  ROLE_VALID_MASK_def u64_max_def ZERO_ACCOUNT_STRKEY_def FEE_TIMELOCK_SECONDS_def att_demo_simps

lemma staking_run: "\<exists>c. run (lib_step ext_demo) staking_calls (contract_empty, w) = (c, w) \<and>
   fs_pending_staking (at_fees (ct_att c)) = Some \<lparr>ps_new_contract = ''STAKING'', ps_effective_at = 86420, ps_proposed_by = ''ADMIN''\<rparr> \<and>
   at_staking (ct_att c) = None \<and> fs_admin (at_fees (ct_att c)) = Some ''ADMIN'' \<and>
   has_role (at_access (ct_att c)) ''ADMIN'' ROLE_ADMIN \<and> at_nonces (ct_att c) = [(''ADMIN'', 0) \<mapsto> 2]"
  by (simp add: staking_calls_def call_simps exec_def numeral_2_eq_2)

lemma staking_replaced_after_timelock_witness:
  "\<exists>cw cw' pre post. run (lib_step ext_demo) staking_calls (contract_empty, \<lambda>t a. 0) = cw \<and>
     lib_step ext_demo (env_at 86420 3, Guard (CCommitStaking ''ADMIN'' 2)) cw = Inr cw' \<and>
     at_staking (ct_att (fst cw')) = Some ''STAKING'' \<and>
     staking_calls = pre @ (env_at 20 2, Guard (CProposeStaking ''ADMIN'' ''STAKING'' 1)) # post"
proof -
  obtain c where c: "run (lib_step ext_demo) staking_calls (contract_empty, \<lambda>t a. 0) = (c, \<lambda>t a. 0)"
    "fs_pending_staking (at_fees (ct_att c)) = Some \<lparr>ps_new_contract = ''STAKING'', ps_effective_at = 86420, ps_proposed_by = ''ADMIN''\<rparr>"
    "at_staking (ct_att c) = None" "fs_admin (at_fees (ct_att c)) = Some ''ADMIN''"
    "has_role (at_access (ct_att c)) ''ADMIN'' ROLE_ADMIN" "at_nonces (ct_att c) = [(''ADMIN'', 0) \<mapsto> 2]"
    using staking_run by blast
  obtain c' where c': "lib_step ext_demo (env_at 86420 3, Guard (CCommitStaking ''ADMIN'' 2)) (c, \<lambda>t a. 0) = Inr (c', \<lambda>t a. 0)"
    "at_staking (ct_att c') = Some ''STAKING''"
    using c(2-6)
    by (simp add: with_att_def commit_staking_contract_def timelock_guard_def require_admin_def fees_require_admin_def
        fees_get_admin_def use_nonce_of_def verify_and_increment_nonce_def get_nonce_def NONCE_CHANNEL_ADMIN_def
        u64_max_def get_pending_staking_contract_def)
  have "lib_start (contract_empty, \<lambda>t a. 0 :: int)" by (simp add: lib_start_def)
  from staking_replaced_after_timelock [OF this c(1) c'(1)] c(3) c'(2) obtain pre env0 a n post where
    "staking_calls = pre @ (env0, Guard (CProposeStaking a ''STAKING'' n)) # post" by fastforce
  moreover from this have "(env0, Guard (CProposeStaking a ''STAKING'' n)) = (env_at 20 2, Guard (CProposeStaking ''ADMIN'' ''STAKING'' 1))"
    by (auto simp: staking_calls_def Cons_eq_append_conv)
  ultimately show ?thesis using c(1) c' by (metis fst_conv)
qed

section \<open>An attestation whose expiry is extended\<close>

definition extend_before :: contract where
  "extend_before = contract_empty\<lparr>ct_att := att_empty\<lparr>at_active := [(''BIZ'', ''202601'') \<mapsto>
     \<lparr>ad_root = demo_root, ad_timestamp = 900, ad_version = 1, ad_fee = 5, ad_proof_hash = None, ad_expiry = None\<rparr>]\<rparr>\<rparr>"

lemma attestation_follows_lifecycle_witness:
  "\<exists>c'. lib_step ext_demo (env_at 1000 1, Lifecycle (CExtend ''BIZ'' ''202601'' 2000)) (extend_before, \<lambda>t a. 0) = Inr (c', \<lambda>t a. 0) \<and>
     att_move (env_at 1000 1) (ct_att extend_before) (ct_att c') (''BIZ'', ''202601'')
       (at_active (ct_att extend_before) (''BIZ'', ''202601'')) (at_active (ct_att c') (''BIZ'', ''202601''))"
proof -
  obtain c' where c': "lib_step ext_demo (env_at 1000 1, Lifecycle (CExtend ''BIZ'' ''202601'' 2000)) (extend_before, \<lambda>t a. 0) = Inr (c', \<lambda>t a. 0)"
    "at_active (ct_att c') (''BIZ'', ''202601'') \<noteq> at_active (ct_att extend_before) (''BIZ'', ''202601'')"
    by (simp add: with_att_def extend_expiry_def extend_before_def)
  from attestation_follows_lifecycle [OF c'(1), of "(''BIZ'', ''202601'')"] c' show ?thesis by blast
qed

section \<open>A multi-period range from the start\<close>

definition range_calls :: "(ledger_env \<times> lib_call) list" where
  "range_calls = [(env_at 10 1, Submission (CMultiPeriod ''BIZ'' 202601 202603 demo_root 5 1 None None))]"

lemma start_reachable: "reachable lib_start (lib_step X) (run (lib_step X) cs (contract_empty, w))"
  by (intro reachable_run reachable_start) (simp add: lib_start_def)

lemma range_run: "\<exists>c. run (lib_step ext_demo) range_calls (contract_empty, w) = (c, w) \<and>
   at_ranges (ct_att c) = [''BIZ'' \<mapsto> [\<lparr>rg_start = 202601, rg_end = 202603, rg_root = demo_root, rg_timestamp = 5,
     rg_version = 1, rg_fee_paid = 0, rg_proof_hash = None, rg_expiry = None, rg_revoked = False\<rparr>]]"
  by (simp add: range_calls_def with_att_def submit_multi_period_attestation_def contract_empty_def validate_expiry_def
      ranges_of_def collect_fee_def collect_fee_from_def calculate_fee_def get_effective_fee_config_def
      get_fee_config_from_dao_def get_dao_def get_fee_config_def increment_business_count_def get_business_count_def
      u64_max_def exec_def att_demo_simps)

lemma one_range_root_per_period_witness:
  "\<exists>c. run (lib_step ext_demo) range_calls (contract_empty, \<lambda>t a. 0) = (c, \<lambda>t a. 0) \<and>
     (\<forall>q. verify_multi_period_attestation (env_at 20 2) (ct_att c) ''BIZ'' 202602 q \<longrightarrow> q = demo_root)"
proof -
  obtain c where c: "run (lib_step ext_demo) range_calls (contract_empty, \<lambda>t a. 0) = (c, \<lambda>t a. 0)"
    "at_ranges (ct_att c) = [''BIZ'' \<mapsto> [\<lparr>rg_start = 202601, rg_end = 202603, rg_root = demo_root, rg_timestamp = 5,
     rg_version = 1, rg_fee_paid = 0, rg_proof_hash = None, rg_expiry = None, rg_revoked = False\<rparr>]]"
    using range_run by blast
  then have "verify_multi_period_attestation (env_at 20 2) (ct_att c) ''BIZ'' 202602 demo_root"
    by (simp add: verify_multi_period_attestation_def range_verifies_def)
  moreover have "reachable lib_start (lib_step ext_demo) (c, \<lambda>t a. 0)" using start_reachable c(1) by metis
  note one_range_root_per_period [OF this refl, of "''BIZ''"]
  ultimately show ?thesis using c(1) by (metis fst_conv)
qed

section \<open>An attestation that is submitted, revoked and archived\<close>

definition life_calls :: "(ledger_env \<times> lib_call) list" where
  "life_calls = [(env_at 10 1, Config (CInitialize ''ADMIN'' 0)),
     (env_at 20 2, Guard (CGrantRole ''ADMIN'' ''BIZ'' ROLE_BUSINESS)),
     (env_at 30 3, Guard (CRegistry (BRegister ''BIZ'' [] ''US'' []))),
     (env_at 40 4, Guard (CRegistry (BApprove ''ADMIN'' ''BIZ'')))]"

lemma life_run: "\<exists>c. run (lib_step ext_demo) life_calls (contract_empty, w) = (c, w) \<and>
   get_status (at_registry (ct_att c)) ''BIZ'' = Some BizActive \<and> has_role (at_access (ct_att c)) ''ADMIN'' ROLE_ADMIN \<and>
   fs_admin (at_fees (ct_att c)) = Some ''ADMIN'' \<and> ac_pending_pause (at_access (ct_att c)) = None \<and>
   \<not> ac_paused (at_access (ct_att c)) \<and> at_rate (ct_att c) = rate_empty \<and> at_active (ct_att c) = Map.empty \<and>
   at_flat (ct_att c) = flat_empty \<and> at_fees (ct_att c) = fee_empty\<lparr>fs_admin := Some ''ADMIN''\<rparr> \<and>
   at_dispute (ct_att c) = dispute_empty"
  by (simp add: life_calls_def call_simps exec_def guard_step.simps registry_step.simps on_registry_def
      register_business_def approve_business_def require_business_def get_record_opt_def get_record_def set_record_def
      get_status_def is_registered_def grant_role_entry_def for_role_admin_def env_at_def)

definition life_data :: att_data where
  "life_data = \<lparr>ad_root = demo_root, ad_timestamp = 900, ad_version = 1, ad_fee = 0, ad_proof_hash = None, ad_expiry = None\<rparr>"

abbreviation "life_submit \<equiv> (env_at 1000 5, Submission (CSubmit ''BIZ'' ''202601'' demo_root 900 1 0 None None))"

lemma life_submits:
  "\<exists>c c'. run (lib_step ext_demo) life_calls (contract_empty, w) = (c, w) \<and> lib_step ext_demo life_submit (c, w) = Inr (c', w) \<and>
     at_active (ct_att c') = [(''BIZ'', ''202601'') \<mapsto> life_data] \<and> at_dispute (ct_att c') = dispute_empty \<and>
     fs_admin (at_fees (ct_att c')) = Some ''ADMIN'' \<and> has_role (at_access (ct_att c')) ''ADMIN'' ROLE_ADMIN \<and>
     ac_pending_pause (at_access (ct_att c')) = None \<and> \<not> ac_paused (at_access (ct_att c')) \<and>
     fs_archive_index (at_fees (ct_att c')) = None"
proof -
  obtain c where c: "run (lib_step ext_demo) life_calls (contract_empty, w) = (c, w)"
    "get_status (at_registry (ct_att c)) ''BIZ'' = Some BizActive" "has_role (at_access (ct_att c)) ''ADMIN'' ROLE_ADMIN"
    "ac_pending_pause (at_access (ct_att c)) = None" "\<not> ac_paused (at_access (ct_att c))" "at_rate (ct_att c) = rate_empty"
    "at_active (ct_att c) = Map.empty" "at_flat (ct_att c) = flat_empty"
    "at_fees (ct_att c) = fee_empty\<lparr>fs_admin := Some ''ADMIN''\<rparr>" "at_dispute (ct_att c) = dispute_empty"
    using life_run by blast
  let ?s = "ct_att c"
  have np: "require_not_paused (env_at 1000 5) (at_access ?s) = Inr (at_access ?s)"
    using c(4,5) by (simp add: require_not_paused_Inr check_and_apply_pending_pause_def
        get_pending_pause_effective_at_def is_paused_def)
  have act: "require_active_business (at_registry ?s) ''BIZ'' = Inr ()" using c(2) by (simp add: require_active_Inr)
  have rate: "check_rate_limit (env_at 1000 5) (at_rate ?s) ''BIZ'' = Inr (at_rate ?s)"
    by (simp add: c(6) check_rate_limit_def enabled_config_def get_rate_limit_config_def rate_empty_def)
  obtain f1 where roll: "handle_epoch_rollover (env_at 1000 5) (at_fees ?s) = Inr f1"
    by (simp add: c(9) handle_epoch_rollover_def advance_epoch_def get_epoch_def u64_max_def fee_empty_def Let_def)
  note ff = rollover_fee_frame [OF roll]
  have dyn: "calculate_fee dao (at_fees ?s) b = Inr 0" for dao b
    by (simp add: c(9) calculate_fee_def get_effective_fee_config_def get_fee_config_from_dao_def get_dao_def
        get_fee_config_def fee_empty_def)
  have f1: "calculate_fee dao f1 b = Inr 0" "get_business_count f1 b = 0" for dao b
    using ff dyn calculate_fee_cong [of f1 "at_fees ?s"]
    by (simp_all add: fee_frame_def get_business_count_def c(9) fee_empty_def)
  have cf: "collect_fee_from (ex_token ext_demo) (ex_dao ext_demo) f1 ''BIZ'' ''BIZ'' w = Inr (0, w)"
    by (simp add: collect_fee_from_def f1)
  have cl: "collect_flat_fee (ex_token ext_demo) (ex_dao ext_demo) (at_flat ?s) ''BIZ'' w = Inr (0, w)"
    by (simp add: c(8) collect_flat_fee_def get_effective_flat_fee_config_def get_flat_fee_config_from_dao_def
        flat_get_dao_def get_flat_fee_config_def flat_empty_def)
  obtain f2 where inc: "increment_business_count f1 ''BIZ'' = Inr (1, f2)"
    by (simp add: increment_business_count_def f1 u64_max_def)
  have sum: "i128_chk 0 = Inr 0" by (simp add: in_i128_def i128_min_def i128_max_def)
  obtain s' where ex: "execute_submission (env_at 1000 5) ext_demo ''BIZ'' None ''BIZ'' ''202601'' demo_root 900 1
      None None (?s, w) = Inr (s', w)" and a: "at_active s' = [(''BIZ'', ''202601'') \<mapsto> life_data]"
    unfolding execute_submission_def Let_def prod.case np act rate roll bindr_simps
    by (simp add: c(7) validate_expiry_def validate_proof_hash_def charge_fees_def cf cl inc sum life_data_def
        write_record_frame del: bindr_Inr)
  then have "lib_step ext_demo life_submit (c, w) = Inr (c\<lparr>ct_att := s'\<rparr>, w)"
    by (simp add: with_att_def submit_attestation_def)
  moreover note fr = execute_frame(1,2) [OF ex]
  have "at_access s' = at_access ?s"
    using fr(2) c(4) by (simp add: check_and_apply_pending_pause_def get_pending_pause_effective_at_def)
  ultimately show ?thesis
    using c fr(1) a by (intro exI [of _ c] exI [of _ "c\<lparr>ct_att := s'\<rparr>"]) (simp add: sub_frame_def fee_frame_def fee_empty_def)
qed

lemma life_reachable:
  "\<exists>c. reachable lib_start (lib_step ext_demo) (c, w) \<and> at_active (ct_att c) = [(''BIZ'', ''202601'') \<mapsto> life_data] \<and>
     at_dispute (ct_att c) = dispute_empty \<and> fs_admin (at_fees (ct_att c)) = Some ''ADMIN'' \<and>
     has_role (at_access (ct_att c)) ''ADMIN'' ROLE_ADMIN \<and> ac_pending_pause (at_access (ct_att c)) = None \<and>
     \<not> ac_paused (at_access (ct_att c)) \<and> fs_archive_index (at_fees (ct_att c)) = None"
proof -
  obtain c c' where c: "run (lib_step ext_demo) life_calls (contract_empty, w) = (c, w)"
    "lib_step ext_demo life_submit (c, w) = Inr (c', w)" and rest: "at_active (ct_att c') = [(''BIZ'', ''202601'') \<mapsto> life_data]"
    "at_dispute (ct_att c') = dispute_empty" "fs_admin (at_fees (ct_att c')) = Some ''ADMIN''"
    "has_role (at_access (ct_att c')) ''ADMIN'' ROLE_ADMIN" "ac_pending_pause (at_access (ct_att c')) = None"
    "\<not> ac_paused (at_access (ct_att c'))" "fs_archive_index (at_fees (ct_att c')) = None"
    using life_submits by blast
  have "reachable lib_start (lib_step ext_demo) (c, w)" using start_reachable c(1) by metis
  then have "reachable lib_start (lib_step ext_demo) (c', w)" using c(2) by (rule reachable_call)
  with rest show ?thesis by blast
qed

lemma submitted_never_found_witness:
  "\<exists>c :: contract. at_active (ct_att c) (''BIZ'', ''202601'') = Some life_data \<and>
     get_attestation (ct_att c) ''BIZ'' ''202601'' = (None, ct_att c) \<and>
     verify_attestation (env_at 1001 6) (ct_att c) ''BIZ'' ''202601'' demo_root = (False, ct_att c)"
proof -
  obtain c where "reachable lib_start (lib_step ext_demo) (c, \<lambda>t a. 0)" "at_active (ct_att c) = [(''BIZ'', ''202601'') \<mapsto> life_data]"
    using life_reachable by blast
  with submitted_never_found [OF this(1) refl, of "''BIZ''" "''202601''" "env_at 1001 6" demo_root] show ?thesis
    by (auto intro!: exI [of _ c])
qed

lemma duplicate_submission_rolls_back_witness:
  "\<exists>c :: contract. at_active (ct_att c) (''BIZ'', ''202601'') = Some life_data \<and>
     exec (lib_step ext_demo) (env_at 3000 6, Submission (CSubmit ''BIZ'' ''202601'' demo_root 2000 1 0 None None))
       (c, \<lambda>t a. 0) = (c, \<lambda>t a. 0)"
proof -
  obtain c where "reachable lib_start (lib_step ext_demo) (c, \<lambda>t a. 0)" "at_active (ct_att c) = [(''BIZ'', ''202601'') \<mapsto> life_data]"
    using life_reachable by blast
  moreover from this(2) have "at_active (ct_att c) (''BIZ'', ''202601'') \<noteq> None" by simp
  ultimately show ?thesis using duplicate_submission_rolls_back by (metis fun_upd_same)
qed

lemma archive_keeps_commitments_witness:
  "\<exists>(c :: contract) q. get_archived_attestation (ct_att c) ''BIZ'' ''202601'' = Some life_data \<and>
     get_archive_pointer (at_fees (ct_att c)) ''BIZ'' ''202601'' = Some q \<and> ap_merkle_root q = demo_root"
proof -
  obtain c where c: "reachable lib_start (lib_step ext_demo) (c, \<lambda>t a. 0)" "at_active (ct_att c) = [(''BIZ'', ''202601'') \<mapsto> life_data]"
    "has_role (at_access (ct_att c)) ''ADMIN'' ROLE_ADMIN" "fs_archive_index (at_fees (ct_att c)) = None"
    using life_reachable by blast
  obtain c' where c': "lib_step ext_demo (env_at 5000 6, Lifecycle (CArchive ''ADMIN'' [(''BIZ'', ''202601'')] 100 10)) (c, \<lambda>t a. 0) =
      Inr (c', \<lambda>t a. 0)" "get_archived_attestation (ct_att c') ''BIZ'' ''202601'' = Some life_data"
    using c(2-4)
    by (simp add: with_att_def move_to_archive_def require_admin_def archive_one_def set_archived_attestation_def
        next_archive_index_def get_archive_index_def u64_max_def get_archived_attestation_def life_data_def Let_def)
  have "reachable lib_start (lib_step ext_demo) (c', \<lambda>t a. 0)" using c(1) c'(1) by (rule reachable_call)
  then have "\<exists>q. get_archive_pointer (at_fees (ct_att c')) ''BIZ'' ''202601'' = Some q \<and> ap_merkle_root q = ad_root life_data"
    using archive_keeps_commitments [where cw = "(c', \<lambda>t a. 0)" and X = ext_demo, OF _ refl] c'(2) by simp
  then obtain q where "get_archive_pointer (at_fees (ct_att c')) ''BIZ'' ''202601'' = Some q" "ap_merkle_root q = demo_root"
    by (auto simp: life_data_def)
  with c'(2) show ?thesis by blast
qed

lemma revocations_for_good_witness:
  "\<exists>c r. get_attestation_revocation (at_dispute (ct_att c)) ''BIZ'' ''202601'' = Some r \<and>
     (\<forall>cs. get_attestation_revocation (at_dispute (ct_att (fst (run (lib_step ext_demo) cs (c, \<lambda>t a. 0))))) ''BIZ'' ''202601'' = Some r)"
proof -
  obtain c where c: "reachable lib_start (lib_step ext_demo) (c, \<lambda>t a. 0)" "at_active (ct_att c) = [(''BIZ'', ''202601'') \<mapsto> life_data]"
    "at_dispute (ct_att c) = dispute_empty" "fs_admin (at_fees (ct_att c)) = Some ''ADMIN''"
    "ac_pending_pause (at_access (ct_att c)) = None" "\<not> ac_paused (at_access (ct_att c))"
    using life_reachable by blast
  obtain c' r where c': "lib_step ext_demo (env_at 2000 6, Lifecycle (CRevoke ''BIZ'' ''BIZ'' ''202601'' ''error'' 0)) (c, \<lambda>t a. 0) =
      Inr (c', \<lambda>t a. 0)" "get_attestation_revocation (at_dispute (ct_att c')) ''BIZ'' ''202601'' = Some r"
    using c(2-6)
    by (simp add: with_att_def revoke_attestation_def require_revocation_authorized_def require_not_paused_def
        check_and_apply_pending_pause_def get_pending_pause_effective_at_def is_paused_def is_attestation_revoked_def
        dispute_empty_def fees_get_admin_def record_revocation_def store_attestation_revocation_def
        append_to_revocation_index_def set_revoked_periods_def get_revoked_periods_def increment_revocation_sequence_def
        get_revocation_sequence_def u64_max_def get_attestation_revocation_def Let_def)
  have "reachable lib_start (lib_step ext_demo) (c', \<lambda>t a. 0)" using c(1) c'(1) by (rule reachable_call)
  from revocations_for_good [OF this] c'(2)
  have "\<forall>cs. get_attestation_revocation (at_dispute (ct_att (fst (run (lib_step ext_demo) cs (c', \<lambda>t a. 0))))) ''BIZ'' ''202601'' = Some r"
    by simp
  with c'(2) show ?thesis by blast
qed

end
