(* ===== verification/Custody.thy ===== *)
theory Custody
  imports Prelude
begin

text \<open>
  The interface of a contract that keeps tokens for others. Its operations work on the contract's state
  and the token ledger; \<open>owed s t\<close> is what it owes in token \<open>t\<close>. The law is that no operation raises the
  debt by more than the balance, so the contract stays able to pay whatever the order of the calls, and
  whatever token traffic of others, who cannot take tokens from the contract, comes in between.
\<close>

datatype ('e, 'w) traffic = Call 'e | Outside 'w

definition custody_step ::
  "'w token_ops \<Rightarrow> address \<Rightarrow> ('e \<Rightarrow> 's \<times> 'w \<Rightarrow> ('s \<times> 'w) res) \<Rightarrow> ('e, 'w) traffic \<Rightarrow> 's \<times> 'w \<Rightarrow> ('s \<times> 'w) res" where
  "custody_step T self step ev sw =
     (case ev of
        Call e \<Rightarrow> step e sw
      | Outside w \<Rightarrow>
          (if \<forall>t. tok_balance T t self (snd sw) \<le> tok_balance T t self w then Inr (fst sw, w) else Inl CallFailed))"

definition custody_start :: "'w token_ops \<Rightarrow> address \<Rightarrow> ('s \<Rightarrow> bool) \<Rightarrow> 's \<times> 'w \<Rightarrow> bool" where
  "custody_start T self start sw \<longleftrightarrow> start (fst sw) \<and> (\<forall>t. 0 \<le> tok_balance T t self (snd sw))"

text \<open>A call made to the contract at \<open>self\<close>, which nobody can authorize in its name.\<close>

definition outside_call :: "address \<Rightarrow> ledger_env \<Rightarrow> bool" where
  "outside_call self env \<longleftrightarrow> self_addr env = self \<and> \<not> authorized env self"

definition solvent_for :: "'w token_ops \<Rightarrow> address \<Rightarrow> ('s \<Rightarrow> bool) \<Rightarrow> ('s \<Rightarrow> address \<Rightarrow> int) \<Rightarrow> 's \<times> 'w \<Rightarrow> bool" where
  "solvent_for T self good owed sw \<longleftrightarrow>
     good (fst sw) \<and> (\<forall>t. owed (fst sw) t \<le> tok_balance T t self (snd sw))"

locale custody =
  fixes T :: "'w token_ops"
    and self :: address
    and honest :: bool
    and step :: "'e \<Rightarrow> 's \<times> 'w \<Rightarrow> ('s \<times> 'w) res"
    and start :: "'s \<Rightarrow> bool"
    and good :: "'s \<Rightarrow> bool"
    and owed :: "'s \<Rightarrow> address \<Rightarrow> int"
  assumes start_good: "start s \<Longrightarrow> good s"
    and start_owed: "start s \<Longrightarrow> owed s t \<le> 0"
    and step_good: "good s \<Longrightarrow> step e (s, w) = Inr (s', w') \<Longrightarrow> good s'"
    and step_covered: "honest \<Longrightarrow> sep41 T \<Longrightarrow> good s \<Longrightarrow> step e (s, w) = Inr (s', w') \<Longrightarrow>
      owed s' t - owed s t \<le> tok_balance T t self w' - tok_balance T t self w"
begin

lemma custody_inv:
  assumes "honest" and "sep41 T" and "solvent_for T self good owed sw" and "custody_step T self step ev sw = Inr sw'"
  shows "solvent_for T self good owed sw'"
proof -
  obtain s w s' w' where sw: "sw = (s, w)" "sw' = (s', w')" by (cases sw, cases sw')
  show ?thesis
  proof (cases ev)
    case (Call e)
    with assms(3,4) have "good s" and e: "step e (s, w) = Inr (s', w')" and le: "\<forall>t. owed s t \<le> tok_balance T t self w"
      by (simp_all add: custody_step_def sw solvent_for_def)
    from step_good [OF this(1,2)] step_covered [OF assms(1,2) this(1,2)] le show ?thesis
      by (auto simp: solvent_for_def sw) (smt (verit, best))
  next
    case (Outside v)
    with assms(3,4) show ?thesis
      by (auto simp: custody_step_def sw solvent_for_def split: if_splits intro: order.trans)
  qed
qed

sublocale machine: invariant_machine "custody_start T self start" "custody_step T self step"
  "\<lambda>sw. honest \<and> sep41 T \<longrightarrow> solvent_for T self good owed sw"
proof
  show "honest \<and> sep41 T \<longrightarrow> solvent_for T self good owed sw" if "custody_start T self start sw" for sw
    using that start_good start_owed [THEN order.trans] by (simp add: custody_start_def solvent_for_def)
  show "honest \<and> sep41 T \<longrightarrow> solvent_for T self good owed sw'"
    if "honest \<and> sep41 T \<longrightarrow> solvent_for T self good owed sw" "custody_step T self step e sw = Inr sw'" for sw e sw'
    using that custody_inv by blast
qed

lemma debts_covered:
  assumes "honest" and "sep41 T" and "reachable (custody_start T self start) (custody_step T self step) (s, w)"
  shows "good s" and "owed s t \<le> tok_balance T t self w"
  using machine.reachable_inv [OF assms(3)] assms(1,2) by (simp_all add: solvent_for_def)

end

end
