(* ===== verification/Revenue_Stream.thy ===== *)
theory Revenue_Stream
  imports Custody Replay_Protection
begin

text \<open>
  \<open>contracts/revenue-stream/src/lib.rs\<close>: streams that release tokens to a beneficiary, at once or
  linearly over time, while an attestation stands behind them. The contract holds the tokens.

  The token and the attestation contract are parameters. Times are ledger timestamps, amounts \<open>i128\<close>.
\<close>

section \<open>State\<close>

definition STREAM_CHANNEL_ADMIN :: nat where "STREAM_CHANNEL_ADMIN = 1"

datatype vesting_schedule = Lump "nat option" | Linear nat nat

record vest_time_remap =
  vr_t_eff0 :: nat
  vr_at_ledger :: nat

record stream_rec =
  st_id :: nat
  st_attestation_contract :: address
  st_business :: address
  st_period :: sstring
  st_beneficiary :: address
  st_token :: address
  st_amount :: int
  st_vesting :: vesting_schedule
  st_released_amount :: int

record stream_state =
  sm_admin :: "address option"
  sm_next_stream_id :: "nat option"
  sm_streams :: "nat \<rightharpoonup> stream_rec"
  sm_paused :: "bool option"
  sm_pause_snapshot :: "nat option"
  sm_remap :: "vest_time_remap option"
  sm_nonces :: nonces

definition stream_empty :: stream_state where
  "stream_empty = \<lparr>sm_admin = None, sm_next_stream_id = None, sm_streams = Map.empty, sm_paused = None,
     sm_pause_snapshot = None, sm_remap = None, sm_nonces = Map.empty\<rparr>"

text \<open>
  The contracts a stream reaches: the token, and \<open>get_attestation(..).is_some()\<close> and
  \<open>get_revocation_info(..).is_some()\<close> of an attestation contract. \<open>quiet\<close> is what the custody of the
  tokens relies on: asking for an attestation moves no tokens.
\<close>

record 'w stream_ext =
  sx_token :: "'w token_ops"
  sx_has_attestation :: "address \<Rightarrow> address \<Rightarrow> sstring \<Rightarrow> 'w \<Rightarrow> (bool \<times> 'w) res"
  sx_is_revoked :: "address \<Rightarrow> address \<Rightarrow> sstring \<Rightarrow> 'w \<Rightarrow> (bool \<times> 'w) res"

definition quiet :: "'w stream_ext \<Rightarrow> bool" where
  "quiet X \<longleftrightarrow>
     (\<forall>c b p w r w'. sx_has_attestation X c b p w = Inr (r, w') \<or> sx_is_revoked X c b p w = Inr (r, w') \<longrightarrow>
        (\<forall>t a. tok_balance (sx_token X) t a w' = tok_balance (sx_token X) t a w))"

section \<open>Vesting\<close>

definition stream_paused :: "stream_state \<Rightarrow> bool" where
  "stream_paused s = unwrap_or (sm_paused s) False"

definition effective_vest_ledger_time :: "ledger_env \<Rightarrow> stream_state \<Rightarrow> nat res" where
  "effective_vest_ledger_time env s =
     (let ledger = timestamp env in
      if stream_paused s then expectr (sm_pause_snapshot s) ''paused without snapshot''
      else
        (case sm_remap s of
           Some m \<Rightarrow> Inr (u64_sat (vr_t_eff0 m + (ledger - vr_at_ledger m)))
         | None \<Rightarrow> Inr ledger))"

definition vested_by_schedule :: "int \<Rightarrow> vesting_schedule \<Rightarrow> nat \<Rightarrow> int res" where
  "vested_by_schedule amount vesting t_upper =
     bindr (assertr (0 < amount) ''internal: amount'') (\<lambda>_.
     (case vesting of
        Lump cliff \<Rightarrow>
          (case cliff of
             Some c \<Rightarrow> (if t_upper < c then Inr 0 else Inr amount)
           | None \<Rightarrow> Inr amount)
      | Linear accrual_start accrual_end \<Rightarrow>
          (if t_upper \<le> accrual_start then Inr 0
           else if accrual_end \<le> t_upper then Inr amount
           else
             (let duration = int accrual_end - int accrual_start;
                  elapsed = int t_upper - int accrual_start in
              if in_i128 (amount * elapsed) \<and> duration \<noteq> 0
              then Inr (trunc_div (amount * elapsed) duration)
              else Inl (Panic ''vesting math overflow or zero duration'')))))"

definition is_fully_paid :: "stream_rec \<Rightarrow> bool" where
  "is_fully_paid st \<longleftrightarrow> st_amount st \<le> st_released_amount st"

section \<open>Entry points\<close>

definition stream_initialize :: "ledger_env \<Rightarrow> address \<Rightarrow> nat \<Rightarrow> stream_state \<Rightarrow> stream_state res" where
  "stream_initialize env admin nonce s =
     bindr (require_auth env admin) (\<lambda>_.
     bindr (verify_and_increment_nonce (sm_nonces s) admin STREAM_CHANNEL_ADMIN nonce) (\<lambda>n.
     bindr (assertr (sm_admin s = None) ''already initialized'') (\<lambda>_.
     Inr (s\<lparr>sm_nonces := n, sm_admin := Some admin, sm_next_stream_id := Some 0, sm_paused := Some False\<rparr>))))"

text \<open>The head of every administrative entry point: the stored administrator, with the next nonce.\<close>

definition stream_admin_guard :: "ledger_env \<Rightarrow> address \<Rightarrow> nat \<Rightarrow> stream_state \<Rightarrow> stream_state res" where
  "stream_admin_guard env admin nonce s =
     bindr (expectr (sm_admin s) ''not initialized'') (\<lambda>stored_admin.
     bindr (assertr (admin = stored_admin) ''assertion failed'') (\<lambda>_.
     bindr (require_auth env admin) (\<lambda>_.
     bindr (verify_and_increment_nonce (sm_nonces s) admin STREAM_CHANNEL_ADMIN nonce) (\<lambda>n.
     Inr (s\<lparr>sm_nonces := n\<rparr>)))))"

definition create_stream ::
  "'w stream_ext \<Rightarrow> ledger_env \<Rightarrow> address \<Rightarrow> nat \<Rightarrow> address \<Rightarrow> address \<Rightarrow> sstring \<Rightarrow> address \<Rightarrow> address \<Rightarrow> int \<Rightarrow>
   vesting_schedule \<Rightarrow> stream_state \<times> 'w \<Rightarrow> (nat \<times> stream_state \<times> 'w) res" where
  "create_stream X env admin nonce attestation_contract business period beneficiary token amount vesting sw =
     (let (s, w) = sw in
      bindr (stream_admin_guard env admin nonce s) (\<lambda>s1.
      bindr (assertr (0 < amount) ''amount must be positive'') (\<lambda>_.
      bindr (case vesting of
               Linear accrual_start accrual_end \<Rightarrow>
                 assertr (accrual_start < accrual_end) ''accrual_start must be before accrual_end''
             | Lump _ \<Rightarrow> Inr ()) (\<lambda>_.
      (let i = unwrap_or (sm_next_stream_id s1) 0;
           st = \<lparr>st_id = i, st_attestation_contract = attestation_contract, st_business = business,
                 st_period = period, st_beneficiary = beneficiary, st_token = token, st_amount = amount,
                 st_vesting = vesting, st_released_amount = 0\<rparr> in
       bindr (u64_chk (i + 1)) (\<lambda>next_id.
       bindr (transferr (sx_token X) token admin (self_addr env) amount w) (\<lambda>w1.
       Inr (i, s1\<lparr>sm_streams := (sm_streams s1)(i \<mapsto> st), sm_next_stream_id := Some next_id\<rparr>, w1))))))))"

definition release_stream :: "'w stream_ext \<Rightarrow> ledger_env \<Rightarrow> nat \<Rightarrow> stream_state \<times> 'w \<Rightarrow> (stream_state \<times> 'w) res" where
  "release_stream X env stream_id sw =
     (let (s, w) = sw in
      bindr (expectr (sm_streams s stream_id) ''stream not found'') (\<lambda>st.
      bindr (assertr (\<not> is_fully_paid st) ''stream already released'') (\<lambda>_.
      bindr (assertr (\<not> stream_paused s) ''contract is paused'') (\<lambda>_.
      bindr (effective_vest_ledger_time env s) (\<lambda>t_upper.
      bindr (case st_vesting st of
               Lump (Some c) \<Rightarrow> assertr (\<not> t_upper < c) ''cliff not reached''
             | _ \<Rightarrow> Inr ()) (\<lambda>_.
      bindr (vested_by_schedule (st_amount st) (st_vesting st) t_upper) (\<lambda>time_vested.
      bindr (i128_chk (time_vested - st_released_amount st)) (\<lambda>unpaid.
      bindr (i128_chk (st_amount st - st_released_amount st)) (\<lambda>left.
      (let pay_cap = min unpaid left in
       bindr (assertr (0 < pay_cap) ''nothing to claim'') (\<lambda>_.
       bindr (sx_has_attestation X (st_attestation_contract st) (st_business st) (st_period st) w) (\<lambda>(exists, w1).
       bindr (sx_is_revoked X (st_attestation_contract st) (st_business st) (st_period st) w1) (\<lambda>(revoked, w2).
       bindr (assertr exists ''attestation not found'') (\<lambda>_.
       bindr (assertr (\<not> revoked) ''attestation is revoked'') (\<lambda>_.
       bindr (if in_i128 (st_released_amount st + pay_cap) then Inr (st_released_amount st + pay_cap)
              else Inl (Panic ''released_amount overflow'')) (\<lambda>released.
       bindr (transferr (sx_token X) (st_token st) (self_addr env) (st_beneficiary st) pay_cap w2) (\<lambda>w3.
       Inr (s\<lparr>sm_streams := (sm_streams s)(stream_id \<mapsto> st\<lparr>st_released_amount := released\<rparr>)\<rparr>, w3))))))))))))))))))"

definition pause_streams :: "ledger_env \<Rightarrow> address \<Rightarrow> nat \<Rightarrow> stream_state \<Rightarrow> stream_state res" where
  "pause_streams env admin nonce s =
     bindr (stream_admin_guard env admin nonce s) (\<lambda>s1.
     bindr (assertr (\<not> stream_paused s1) ''already paused'') (\<lambda>_.
     bindr (effective_vest_ledger_time env s1) (\<lambda>snapshot.
     Inr (s1\<lparr>sm_pause_snapshot := Some snapshot, sm_paused := Some True\<rparr>))))"

definition resume_streams :: "ledger_env \<Rightarrow> address \<Rightarrow> nat \<Rightarrow> stream_state \<Rightarrow> stream_state res" where
  "resume_streams env admin nonce s =
     bindr (stream_admin_guard env admin nonce s) (\<lambda>s1.
     bindr (assertr (stream_paused s1) ''not paused'') (\<lambda>_.
     bindr (expectr (sm_pause_snapshot s1) ''pause state inconsistent'') (\<lambda>t_snap.
     Inr (s1\<lparr>sm_remap := Some \<lparr>vr_t_eff0 = t_snap, vr_at_ledger = timestamp env\<rparr>, sm_paused := Some False,
             sm_pause_snapshot := None\<rparr>))))"

definition get_vested_by_schedule :: "ledger_env \<Rightarrow> stream_state \<Rightarrow> nat \<Rightarrow> int res" where
  "get_vested_by_schedule env s stream_id =
     bindr (expectr (sm_streams s stream_id) ''stream not found'') (\<lambda>st.
     bindr (effective_vest_ledger_time env s) (\<lambda>t.
     vested_by_schedule (st_amount st) (st_vesting st) t))"

definition get_stream :: "stream_state \<Rightarrow> nat \<Rightarrow> stream_rec option" where
  "get_stream s stream_id = sm_streams s stream_id"

definition stream_get_admin :: "stream_state \<Rightarrow> address res" where
  "stream_get_admin s = expectr (sm_admin s) ''not initialized''"

definition stream_replay_nonce :: "stream_state \<Rightarrow> address \<Rightarrow> nat \<Rightarrow> nat" where
  "stream_replay_nonce s actor channel = get_nonce (sm_nonces s) actor channel"

section \<open>The contract as a custodian\<close>

datatype stream_call =
    RInit address nat
  | RCreate address nat address address sstring address address int vesting_schedule
  | RRelease nat
  | RPause address nat
  | RResume address nat

definition lift_ledger :: "'w \<Rightarrow> 's res \<Rightarrow> ('s \<times> 'w) res" where
  "lift_ledger w r = bindr r (\<lambda>s. Inr (s, w))"

lemma lift_ledger_Inr [simp]: "lift_ledger w r = Inr (s', w') \<longleftrightarrow> r = Inr s' \<and> w' = w"
  by (auto simp: lift_ledger_def)

fun stream_dispatch :: "'w stream_ext \<Rightarrow> ledger_env \<Rightarrow> stream_call \<Rightarrow> stream_state \<times> 'w \<Rightarrow> (stream_state \<times> 'w) res" where
  "stream_dispatch X env (RInit a n) (s, w) = lift_ledger w (stream_initialize env a n s)"
| "stream_dispatch X env (RCreate a n c b p k t m v) (s, w) =
     bindr (create_stream X env a n c b p k t m v (s, w)) (\<lambda>(_, sw). Inr sw)"
| "stream_dispatch X env (RRelease i) (s, w) = release_stream X env i (s, w)"
| "stream_dispatch X env (RPause a n) (s, w) = lift_ledger w (pause_streams env a n s)"
| "stream_dispatch X env (RResume a n) (s, w) = lift_ledger w (resume_streams env a n s)"

definition stream_step ::
  "'w stream_ext \<Rightarrow> address \<Rightarrow> ledger_env \<times> stream_call \<Rightarrow> stream_state \<times> 'w \<Rightarrow> (stream_state \<times> 'w) res" where
  "stream_step X self e sw =
     (if outside_call self (fst e) then stream_dispatch X (fst e) (snd e) sw else Inl CallFailed)"

text \<open>Every stream is paid out within its amount; ids are fresh; a pause has its snapshot.\<close>

definition stream_ok :: "stream_rec \<Rightarrow> bool" where
  "stream_ok st \<longleftrightarrow> 0 < st_amount st \<and> 0 \<le> st_released_amount st \<and> st_released_amount st \<le> st_amount st \<and>
     (case st_vesting st of Linear a b \<Rightarrow> a < b | Lump _ \<Rightarrow> True)"

definition streams_ok :: "stream_state \<Rightarrow> bool" where
  "streams_ok s \<longleftrightarrow>
     (\<forall>i st. sm_streams s i = Some st \<longrightarrow> stream_ok st \<and> i < unwrap_or (sm_next_stream_id s) 0) \<and>
     finite (dom (sm_streams s)) \<and>
     (stream_paused s \<longrightarrow> sm_pause_snapshot s \<noteq> None) \<and>
     (sm_admin s = None \<longrightarrow> sm_streams s = Map.empty)"

definition unreleased :: "address \<Rightarrow> stream_rec \<Rightarrow> int" where
  "unreleased t st = (if st_token st = t then st_amount st - st_released_amount st else 0)"

definition stream_owed :: "stream_state \<Rightarrow> address \<Rightarrow> int" where
  "stream_owed s t = map_sum (unreleased t) (sm_streams s)"

lemma stream_guard_cases:
  assumes "stream_admin_guard env a n s = Inr s1"
  obtains m where "sm_admin s = Some a" "authorized env a" "s1 = s\<lparr>sm_nonces := m\<rparr>"
  using assms by (auto simp: stream_admin_guard_def)

lemma stream_paused_nonces [simp]: "stream_paused (s\<lparr>sm_nonces := m\<rparr>) = stream_paused s"
  by (simp add: stream_paused_def)

lemma create_stream_cases:
  assumes "create_stream X env a n c b p k t m v (s, w) = Inr (i, s', w')"
  obtains ns st where "sm_admin s = Some a" "authorized env a" "0 < m" "i = unwrap_or (sm_next_stream_id s) 0"
    "st = \<lparr>st_id = i, st_attestation_contract = c, st_business = b, st_period = p, st_beneficiary = k, st_token = t,
       st_amount = m, st_vesting = v, st_released_amount = 0\<rparr>" "stream_ok st"
    "tok_transfer (sx_token X) t a (self_addr env) m w = Some w'"
    "s' = s\<lparr>sm_nonces := ns, sm_streams := (sm_streams s)(i \<mapsto> st), sm_next_stream_id := Some (i + 1)\<rparr>"
proof -
  from assms obtain s1 where g: "stream_admin_guard env a n s = Inr s1" and m: "0 < m"
    and v: "case v of Linear x y \<Rightarrow> x < y | Lump _ \<Rightarrow> True"
    and rest: "i = unwrap_or (sm_next_stream_id s1) 0" "tok_transfer (sx_token X) t a (self_addr env) m w = Some w'"
    "s' = s1\<lparr>sm_streams := (sm_streams s1)(i \<mapsto> \<lparr>st_id = i, st_attestation_contract = c, st_business = b,
       st_period = p, st_beneficiary = k, st_token = t, st_amount = m, st_vesting = v, st_released_amount = 0\<rparr>),
       sm_next_stream_id := Some (i + 1)\<rparr>"
    by (cases v) (auto simp: create_stream_def Let_def)
  from g obtain ns where "sm_admin s = Some a" "authorized env a" "s1 = s\<lparr>sm_nonces := ns\<rparr>"
    by (rule stream_guard_cases)
  with m v rest show thesis by (intro that [OF _ _ _ _ refl]) (simp_all add: stream_ok_def)
qed

lemma vested_bounds:
  assumes "vested_by_schedule amount v t = Inr x"
  shows "0 \<le> x" "x \<le> amount"
proof -
  have "trunc_div (amount * (int t - int a)) (int b - int a) \<le> amount \<and> 0 \<le> trunc_div (amount * (int t - int a)) (int b - int a)"
    if "0 < amount" "a < t" "t < b" for a b
  proof -
    have n: "0 \<le> amount * (int t - int a)" "0 < int b - int a" using that by simp_all
    have "amount * (int t - int a) \<le> amount * (int b - int a)" using that by (intro mult_left_mono) simp_all
    then have "amount * (int t - int a) div (int b - int a) \<le> amount * (int b - int a) div (int b - int a)"
      by (rule zdiv_mono1) (use that in simp)
    with n that show ?thesis by (simp add: trunc_div_nonneg pos_imp_zdiv_nonneg_iff)
  qed
  then show "0 \<le> x" "x \<le> amount"
    using assms by (auto simp: vested_by_schedule_def Let_def split: vesting_schedule.splits option.splits if_splits)
qed

lemma release_stream_cases:
  assumes "release_stream X env i (s, w) = Inr (s', w')" and "\<forall>st. sm_streams s i = Some st \<longrightarrow> stream_ok st"
  obtains st t v w1 w2 pay where "sm_streams s i = Some st" "\<not> stream_paused s"
    "effective_vest_ledger_time env s = Inr t" "vested_by_schedule (st_amount st) (st_vesting st) t = Inr v"
    "pay = v - st_released_amount st" "0 < pay" "0 \<le> v" "v \<le> st_amount st"
    "sx_has_attestation X (st_attestation_contract st) (st_business st) (st_period st) w = Inr (True, w1)"
    "sx_is_revoked X (st_attestation_contract st) (st_business st) (st_period st) w1 = Inr (False, w2)"
    "tok_transfer (sx_token X) (st_token st) (self_addr env) (st_beneficiary st) pay w2 = Some w'"
    "s' = s\<lparr>sm_streams := (sm_streams s)(i \<mapsto> st\<lparr>st_released_amount := v\<rparr>)\<rparr>"
proof -
  obtain st where st: "sm_streams s i = Some st" using assms(1) by (auto simp: release_stream_def)
  with assms(2) have ok: "stream_ok st" by simp
  from assms(1) st obtain t v w1 w2 where *: "\<not> stream_paused s" "effective_vest_ledger_time env s = Inr t"
    and v: "vested_by_schedule (st_amount st) (st_vesting st) t = Inr v"
    and r: "0 < min (v - st_released_amount st) (st_amount st - st_released_amount st)"
    "sx_has_attestation X (st_attestation_contract st) (st_business st) (st_period st) w = Inr (True, w1)"
    "sx_is_revoked X (st_attestation_contract st) (st_business st) (st_period st) w1 = Inr (False, w2)"
    "tok_transfer (sx_token X) (st_token st) (self_addr env) (st_beneficiary st)
      (min (v - st_released_amount st) (st_amount st - st_released_amount st)) w2 = Some w'"
    "s' = s\<lparr>sm_streams := (sm_streams s)(i \<mapsto> st\<lparr>st_released_amount := st_released_amount st +
        min (v - st_released_amount st) (st_amount st - st_released_amount st)\<rparr>)\<rparr>"
    by (auto simp: release_stream_def Let_def split: if_splits prod.splits)
  have "min (v - st_released_amount st) (st_amount st - st_released_amount st) = v - st_released_amount st"
    using vested_bounds(2) [OF v] by simp
  with that [OF st * v refl _ vested_bounds [OF v]] r show thesis by simp
qed

lemma stream_dispatch_ok:
  assumes "streams_ok s" and "stream_dispatch X env c (s, w) = Inr (s', w')"
  shows "streams_ok s'"
proof (cases c)
  case (RInit a n)
  with assms show ?thesis by (auto simp: stream_initialize_def streams_ok_def stream_paused_def)
next
  case (RCreate a n c b p k t m v)
  with assms(2) obtain i where "create_stream X env a n c b p k t m v (s, w) = Inr (i, s', w')" by auto
  then show ?thesis
    by (rule create_stream_cases) (use assms(1) in \<open>auto simp: streams_ok_def stream_paused_def less_Suc_eq\<close>)
next
  case (RRelease i)
  with assms(2) have "release_stream X env i (s, w) = Inr (s', w')" by simp
  then show ?thesis
  proof (rule release_stream_cases)
    show "\<forall>st. sm_streams s i = Some st \<longrightarrow> stream_ok st" using assms(1) by (simp add: streams_ok_def)
  qed (use assms(1) in \<open>auto simp: streams_ok_def stream_ok_def stream_paused_def\<close>)
next
  case (RPause a n)
  with assms show ?thesis
    by (auto simp: pause_streams_def streams_ok_def stream_paused_def elim!: stream_guard_cases)
next
  case (RResume a n)
  with assms show ?thesis
    by (auto simp: resume_streams_def streams_ok_def stream_paused_def elim!: stream_guard_cases)
qed

lemma stream_dispatch_covered:
  assumes "quiet X" and "sep41 (sx_token X)" and "streams_ok s" and "outside_call self env"
    and "stream_dispatch X env c (s, w) = Inr (s', w')"
  shows "stream_owed s' t - stream_owed s t \<le> tok_balance (sx_token X) t self w' - tok_balance (sx_token X) t self w"
proof -
  have fin: "finite (dom (sm_streams s))" using assms(3) by (simp add: streams_ok_def)
  show ?thesis
  proof (cases c)
    case (RCreate a n c b p k u m v)
    with assms(5) obtain i where "create_stream X env a n c b p k u m v (s, w) = Inr (i, s', w')" by auto
    then show ?thesis
    proof (rule create_stream_cases)
      fix ns st
      assume a: "authorized env a" and i: "i = unwrap_or (sm_next_stream_id s) 0"
        and st: "st = \<lparr>st_id = i, st_attestation_contract = c, st_business = b, st_period = p, st_beneficiary = k,
          st_token = u, st_amount = m, st_vesting = v, st_released_amount = 0\<rparr>"
        and tr: "tok_transfer (sx_token X) u a (self_addr env) m w = Some w'"
        and s': "s' = s\<lparr>sm_nonces := ns, sm_streams := (sm_streams s)(i \<mapsto> st), sm_next_stream_id := Some (i + 1)\<rparr>"
      have "sm_streams s i = None" using assms(3) i by (cases "sm_streams s i") (auto simp: streams_ok_def)
      then have "stream_owed s' t = stream_owed s t + unreleased t st"
        using fin by (simp add: stream_owed_def s' map_sum_upd amount_at_def)
      moreover have "a \<noteq> self" "self_addr env = self" using a assms(4) by (auto simp: outside_call_def)
      ultimately show ?thesis
        using sep41_transfer(4) [OF assms(2) tr, where t' = t and a = self] sep41_transfer(3) [OF assms(2) tr, where a = self]
        by (cases "t = u") (auto simp: st unreleased_def moved_def)
    qed
  next
    case (RRelease i)
    with assms(5) have "release_stream X env i (s, w) = Inr (s', w')" by simp
    then show ?thesis
    proof (rule release_stream_cases)
      show "\<forall>st. sm_streams s i = Some st \<longrightarrow> stream_ok st" using assms(3) by (simp add: streams_ok_def)
    next
      fix st w1 w2 v pay
      assume st: "sm_streams s i = Some st" and pay: "pay = v - st_released_amount st" "0 < pay"
        and q: "sx_has_attestation X (st_attestation_contract st) (st_business st) (st_period st) w = Inr (True, w1)"
        "sx_is_revoked X (st_attestation_contract st) (st_business st) (st_period st) w1 = Inr (False, w2)"
        and tr: "tok_transfer (sx_token X) (st_token st) (self_addr env) (st_beneficiary st) pay w2 = Some w'"
        and s': "s' = s\<lparr>sm_streams := (sm_streams s)(i \<mapsto> st\<lparr>st_released_amount := v\<rparr>)\<rparr>"
      have w2: "tok_balance (sx_token X) t self w2 = tok_balance (sx_token X) t self w" for t
        using assms(1) q unfolding quiet_def by metis
      have "stream_owed s' t = stream_owed s t - (if t = st_token st then pay else 0)"
        using fin st by (simp add: stream_owed_def s' map_sum_upd amount_at_def unreleased_def pay(1))
      moreover have "self_addr env = self" using assms(4) by (simp add: outside_call_def)
      ultimately show ?thesis
        using sep41_transfer(4) [OF assms(2) tr, where t' = t and a = self] sep41_transfer(3) [OF assms(2) tr, where a = self] pay(2)
        by (cases "t = st_token st") (auto simp: moved_def w2)
    qed
  qed (use assms(5) in \<open>auto simp: stream_owed_def stream_initialize_def pause_streams_def resume_streams_def
      elim!: stream_guard_cases\<close>)
qed

interpretation streams: custody "sx_token X" self "quiet X" "stream_step X self" "\<lambda>s. s = stream_empty" streams_ok stream_owed
  for X self
proof
  show "streams_ok s" if "s = stream_empty" for s
    using that by (simp add: streams_ok_def stream_empty_def stream_paused_def)
  show "stream_owed s t \<le> 0" if "s = stream_empty" for s t
    using that by (simp add: stream_owed_def stream_empty_def)
  show "streams_ok s'" if "streams_ok s" "stream_step X self e (s, w) = Inr (s', w')" for s e w s' w'
    using that by (auto simp: stream_step_def split: if_splits intro: stream_dispatch_ok)
  show "stream_owed s' t - stream_owed s t \<le> tok_balance (sx_token X) t self w' - tok_balance (sx_token X) t self w"
    if "quiet X" "sep41 (sx_token X)" "streams_ok s" "stream_step X self e (s, w) = Inr (s', w')" for s e w s' w' t
    using that by (auto simp: stream_step_def split: if_splits intro: stream_dispatch_covered)
qed

lemma stream_dispatch_keeps:
  assumes "streams_ok s" and "stream_dispatch X env c (s, w) = Inr (s', w')" and "sm_streams s i \<noteq> None"
  shows "sm_streams s' i \<noteq> None"
proof (cases c)
  case (RCreate a n d b p k t m v)
  with assms(2) obtain j where "create_stream X env a n d b p k t m v (s, w) = Inr (j, s', w')" by auto
  then show ?thesis by (rule create_stream_cases) (use assms(3) in auto)
next
  case (RRelease j)
  with assms(2) have "release_stream X env j (s, w) = Inr (s', w')" by simp
  then show ?thesis
  proof (rule release_stream_cases)
    show "\<forall>st. sm_streams s j = Some st \<longrightarrow> stream_ok st" using assms(1) by (simp add: streams_ok_def)
  qed (use assms(3) in auto)
qed (use assms in \<open>auto simp: stream_initialize_def pause_streams_def resume_streams_def elim!: stream_guard_cases\<close>)

section \<open>The vesting clock\<close>

text \<open>Pausing and resuming only move the anchor of the clock; the anchor never lies ahead of the ledger.\<close>

definition vest_clock :: "stream_state \<Rightarrow> nat \<Rightarrow> nat" where
  "vest_clock s now =
     (if stream_paused s then the (sm_pause_snapshot s)
      else (case sm_remap s of Some m \<Rightarrow> vr_t_eff0 m + (now - vr_at_ledger m) | None \<Rightarrow> now))"

definition anchored :: "stream_state \<Rightarrow> nat \<Rightarrow> bool" where
  "anchored s now \<longleftrightarrow>
     (\<forall>m. sm_remap s = Some m \<longrightarrow> vr_t_eff0 m \<le> vr_at_ledger m \<and> vr_at_ledger m \<le> now) \<and>
     (stream_paused s \<longrightarrow> (\<exists>t. sm_pause_snapshot s = Some t \<and> t \<le> now))"

lemma effective_is_clock:
  assumes "anchored s (timestamp env)" and "timestamp env \<le> u64_max"
  shows "effective_vest_ledger_time env s = Inr (vest_clock s (timestamp env))"
proof -
  have "vr_t_eff0 m + (timestamp env - vr_at_ledger m) \<le> u64_max" if "sm_remap s = Some m" for m
  proof -
    have "vr_t_eff0 m \<le> vr_at_ledger m" "vr_at_ledger m \<le> timestamp env" using assms(1) that by (simp_all add: anchored_def)
    with assms(2) show ?thesis by linarith
  qed
  with assms(1) show ?thesis
    by (auto simp: effective_vest_ledger_time_def vest_clock_def anchored_def Let_def u64_sat_def split: option.split)
qed

lemma clock_le: "anchored s now \<Longrightarrow> vest_clock s now \<le> now"
  by (auto simp: anchored_def vest_clock_def split: option.split)

lemma clock_advances:
  assumes "anchored s t" and "t \<le> t'"
  shows "vest_clock s t' = vest_clock s t + (if stream_paused s then 0 else t' - t)" and "anchored s t'"
  using assms by (auto simp: anchored_def vest_clock_def split: option.split)

lemma clock_step:
  assumes "anchored s (timestamp env)" and "timestamp env \<le> u64_max" and "stream_dispatch X env c (s, w) = Inr (s', w')"
    and "sm_admin s = None \<longrightarrow> \<not> stream_paused s \<and> sm_remap s = None" and "streams_ok s"
  shows "vest_clock s' (timestamp env) = vest_clock s (timestamp env)" and "anchored s' (timestamp env)"
    and "sm_admin s' = None \<longrightarrow> \<not> stream_paused s' \<and> sm_remap s' = None"
proof -
  have frame: "vest_clock s' (timestamp env) = vest_clock s (timestamp env) \<and> anchored s' (timestamp env) \<and>
      (sm_admin s' = None \<longrightarrow> \<not> stream_paused s' \<and> sm_remap s' = None)"
    if "sm_remap s' = sm_remap s" "stream_paused s' = stream_paused s" "sm_pause_snapshot s' = sm_pause_snapshot s"
      "sm_admin s' = None \<longrightarrow> sm_admin s = None"
    using that assms(1,4) by (simp add: vest_clock_def anchored_def)
  have "vest_clock s' (timestamp env) = vest_clock s (timestamp env) \<and> anchored s' (timestamp env) \<and>
      (sm_admin s' = None \<longrightarrow> \<not> stream_paused s' \<and> sm_remap s' = None)"
  proof (cases c)
    case (RInit a n)
    with assms(3) have "sm_admin s = None" by (auto simp: stream_initialize_def)
    with assms(4) have "\<not> stream_paused s" by simp
    with RInit assms(3) show ?thesis by (intro frame) (auto simp: stream_initialize_def stream_paused_def)
  next
    case (RCreate a n k b p f t m v)
    with assms(3) obtain i where "create_stream X env a n k b p f t m v (s, w) = Inr (i, s', w')" by auto
    then show ?thesis by (rule create_stream_cases) (intro frame, auto simp: stream_paused_def)
  next
    case (RRelease i)
    with assms(3) have "release_stream X env i (s, w) = Inr (s', w')" by simp
    then show ?thesis
    proof (rule release_stream_cases)
      show "\<forall>st. sm_streams s i = Some st \<longrightarrow> stream_ok st" using assms(5) by (simp add: streams_ok_def)
    qed (intro frame, auto simp: stream_paused_def)
  next
    case (RPause a n)
    with assms(3) obtain m t where "sm_admin s = Some a" "\<not> stream_paused s"
      "effective_vest_ledger_time env (s\<lparr>sm_nonces := m\<rparr>) = Inr t"
      and s': "s' = s\<lparr>sm_nonces := m, sm_pause_snapshot := Some t, sm_paused := Some True\<rparr>"
      by (auto simp: pause_streams_def elim!: stream_guard_cases)
    moreover have "effective_vest_ledger_time env (s\<lparr>sm_nonces := m\<rparr>) = effective_vest_ledger_time env s"
      by (simp add: effective_vest_ledger_time_def cong: option.case_cong if_cong)
    ultimately have "t = vest_clock s (timestamp env)" using effective_is_clock [OF assms(1,2)] by simp
    with assms(1) clock_le [OF assms(1)] \<open>sm_admin s = Some a\<close> show ?thesis
      by (auto simp: s' vest_clock_def anchored_def stream_paused_def)
  next
    case (RResume a n)
    with assms(3) obtain m t where "sm_admin s = Some a" "stream_paused s" "sm_pause_snapshot s = Some t"
      and s': "s' = s\<lparr>sm_nonces := m, sm_remap := Some \<lparr>vr_t_eff0 = t, vr_at_ledger = timestamp env\<rparr>,
         sm_paused := Some False, sm_pause_snapshot := None\<rparr>"
      by (auto simp: resume_streams_def elim!: stream_guard_cases)
    with assms(1) show ?thesis by (auto simp: s' vest_clock_def anchored_def stream_paused_def)
  qed
  then show "vest_clock s' (timestamp env) = vest_clock s (timestamp env)" and "anchored s' (timestamp env)"
    and "sm_admin s' = None \<longrightarrow> \<not> stream_paused s' \<and> sm_remap s' = None" by simp_all
qed

text \<open>
  The time that passes in a history of calls while the contract is not paused, from ledger time \<open>t\<close> to
  \<open>now\<close>; and the histories whose ledger times do not go back.
\<close>

type_synonym 'w stream_event = "(ledger_env \<times> stream_call, 'w) traffic"

fun unpaused_time ::
  "'w stream_ext \<Rightarrow> address \<Rightarrow> 'w stream_event list \<Rightarrow> stream_state \<times> 'w \<Rightarrow> nat \<Rightarrow> nat \<Rightarrow> nat" where
  "unpaused_time X self [] sw t now = (if stream_paused (fst sw) then 0 else now - t)"
| "unpaused_time X self (Call e # es) sw t now =
     (if stream_paused (fst sw) then 0 else timestamp (fst e) - t) +
     unpaused_time X self es (exec (custody_step (sx_token X) self (stream_step X self)) (Call e) sw) (timestamp (fst e)) now"
| "unpaused_time X self (Outside w # es) sw t now =
     unpaused_time X self es (exec (custody_step (sx_token X) self (stream_step X self)) (Outside w) sw) t now"

fun in_time :: "'w stream_event list \<Rightarrow> nat \<Rightarrow> nat \<Rightarrow> bool" where
  "in_time [] t now \<longleftrightarrow> t \<le> now"
| "in_time (Call e # es) t now \<longleftrightarrow> t \<le> timestamp (fst e) \<and> in_time es (timestamp (fst e)) now"
| "in_time (Outside w # es) t now \<longleftrightarrow> in_time es t now"

lemma in_time_le: "in_time es t now \<Longrightarrow> t \<le> now"
  by (induction es t now rule: in_time.induct) auto

lemma clock_over_history:
  assumes "streams_ok (fst sw)" and "anchored (fst sw) t" and "in_time es t now" and "now \<le> u64_max"
    and "sm_admin (fst sw) = None \<longrightarrow> \<not> stream_paused (fst sw) \<and> sm_remap (fst sw) = None"
  shows "vest_clock (fst (run (custody_step (sx_token X) self (stream_step X self)) es sw)) now =
      vest_clock (fst sw) t + unpaused_time X self es sw t now \<and>
    anchored (fst (run (custody_step (sx_token X) self (stream_step X self)) es sw)) now"
  using assms(1,2,3,5)
proof (induction es arbitrary: sw t)
  case Nil
  then show ?case using clock_advances [of "fst sw" t now] by simp
next
  case (Cons ev es)
  let ?step = "custody_step (sx_token X) self (stream_step X self)"
  obtain s w where sw: "sw = (s, w)" by (cases sw)
  show ?case
  proof (cases ev)
    case (Outside v)
    have "fst (exec ?step (Outside v) sw) = s"
      by (auto simp: exec_def custody_step_def sw)
    with Cons.IH [of "exec ?step (Outside v) sw" t] Cons.prems Outside sw show ?thesis by simp
  next
    case (Call e)
    obtain env c where e: "e = (env, c)" by (cases e)
    let ?t = "timestamp env" and ?sw' = "exec ?step (Call e) sw"
    have le: "t \<le> ?t" "in_time es ?t now" using Cons.prems(3) Call e by simp_all
    note adv = clock_advances [OF Cons.prems(2) le(1)]
    have u: "?t \<le> u64_max" using in_time_le [OF le(2)] assms(4) by simp
    have "vest_clock (fst ?sw') ?t = vest_clock s ?t \<and> anchored (fst ?sw') ?t \<and> streams_ok (fst ?sw') \<and>
        (sm_admin (fst ?sw') = None \<longrightarrow> \<not> stream_paused (fst ?sw') \<and> sm_remap (fst ?sw') = None)"
    proof (cases "stream_step X self e sw")
      case (Inl x)
      then have "?sw' = sw" by (simp add: exec_def custody_step_def)
      with Cons.prems adv sw show ?thesis by simp
    next
      case (Inr sw')
      obtain s' w' where sw': "sw' = (s', w')" by (cases sw')
      have "stream_dispatch X env c (s, w) = Inr (s', w')" using Inr by (simp add: stream_step_def sw sw' e split: if_splits)
      moreover have "?sw' = (s', w')" using Inr sw' by (simp add: exec_def custody_step_def)
      ultimately show ?thesis
        using clock_step [of s env X c w s' w'] stream_dispatch_ok [of s X env c w s' w'] Cons.prems adv(2) u sw by auto
    qed
    with Cons.IH [of ?sw' ?t] le adv(1) Call e sw show ?thesis by simp
  qed
qed

section \<open>Properties\<close>

text \<open>
  C23. The streams are funded. Whatever calls come in whatever order, and whatever the token traffic of
  others in between, the contract holds at least, in every token, what all its streams still have to
  release, and no stream has released less than nothing or more than its amount. The token keeps SEP-41
  and asking for an attestation moves no tokens.
\<close>

theorem streams_funded:
  assumes "sep41 (sx_token X)" and "quiet X"
    and "reachable (custody_start (sx_token X) self (\<lambda>s. s = stream_empty)) (custody_step (sx_token X) self (stream_step X self)) (s, w)"
  shows "(\<forall>t. map_sum (\<lambda>st. if st_token st = t then st_amount st - st_released_amount st else 0) (sm_streams s)
        \<le> tok_balance (sx_token X) t self w) \<and>
    (\<forall>i st. sm_streams s i = Some st \<longrightarrow> 0 \<le> st_released_amount st \<and> st_released_amount st \<le> st_amount st)"
proof -
  have "unreleased t = (\<lambda>st. if st_token st = t then st_amount st - st_released_amount st else 0)" for t
    by (simp add: unreleased_def fun_eq_iff)
  with streams.debts_covered [OF assms(2,1,3)] show ?thesis
    by (simp add: stream_owed_def streams_ok_def stream_ok_def)
qed

text \<open>
  C24. Pauses do not count. Along any history of calls whose ledger times do not go back, the schedule time
  of the streams is the starting time plus exactly the time that passed while the contract was not
  paused: it stands still in a pause, goes on without a jump on resume, and never runs ahead of the ledger.
\<close>

theorem pauses_do_not_count:
  assumes "in_time es t now" and "now \<le> u64_max" and "timestamp env = now"
    and "s = fst (run (custody_step (sx_token X) self (stream_step X self)) es (stream_empty, w))"
  shows "effective_vest_ledger_time env s = Inr (t + unpaused_time X self es (stream_empty, w) t now) \<and>
    t + unpaused_time X self es (stream_empty, w) t now \<le> now"
proof -
  have start: "streams_ok stream_empty" "anchored stream_empty t" "vest_clock stream_empty t = t"
    "sm_admin stream_empty = None \<longrightarrow> \<not> stream_paused stream_empty \<and> sm_remap stream_empty = None"
    by (simp_all add: streams_ok_def anchored_def vest_clock_def stream_empty_def stream_paused_def)
  from clock_over_history [of "(stream_empty, w)" t es now X self] start assms
  have c: "vest_clock s now = t + unpaused_time X self es (stream_empty, w) t now" "anchored s now" by simp_all
  with effective_is_clock [of s env] clock_le [OF c(2)] assms(2,3) show ?thesis by simp
qed

text \<open>
  A release pays what has vested, once. A successful release brings the released amount up to what the
  schedule has vested at the effective time, pays the difference to the beneficiary and nothing else from
  the contract, only while the attestation exists and is not revoked; a second release at the same ledger
  time finds nothing to claim.
\<close>

theorem release_pays_vested_once:
  assumes "sep41 (sx_token X)" and "quiet X" and "streams_ok s" and "release_stream X env i (s, w) = Inr (s', w')"
  shows "\<exists>st t v. sm_streams s i = Some st \<and> effective_vest_ledger_time env s = Inr t \<and>
    vested_by_schedule (st_amount st) (st_vesting st) t = Inr v \<and> st_released_amount st < v \<and> v \<le> st_amount st \<and>
    sm_streams s' = (sm_streams s)(i \<mapsto> st\<lparr>st_released_amount := v\<rparr>) \<and>
    (\<forall>a. tok_balance (sx_token X) (st_token st) a w' = tok_balance (sx_token X) (st_token st) a w +
       moved (self_addr env) (st_beneficiary st) (v - st_released_amount st) a) \<and>
    (\<exists>w1 w2. sx_has_attestation X (st_attestation_contract st) (st_business st) (st_period st) w = Inr (True, w1) \<and>
       sx_is_revoked X (st_attestation_contract st) (st_business st) (st_period st) w1 = Inr (False, w2)) \<and>
    (\<exists>e. release_stream X env i (s', w') = Inl e)"
proof -
  have "\<forall>st. sm_streams s i = Some st \<longrightarrow> stream_ok st" using assms(3) by (simp add: streams_ok_def)
  from assms(4) this show ?thesis
  proof (rule release_stream_cases)
    fix st t v w1 w2 pay
    assume st: "sm_streams s i = Some st" and t: "effective_vest_ledger_time env s = Inr t"
      and v: "vested_by_schedule (st_amount st) (st_vesting st) t = Inr v" and pay: "pay = v - st_released_amount st" "0 < pay"
      and bounds: "0 \<le> v" "v \<le> st_amount st"
      and q: "sx_has_attestation X (st_attestation_contract st) (st_business st) (st_period st) w = Inr (True, w1)"
      "sx_is_revoked X (st_attestation_contract st) (st_business st) (st_period st) w1 = Inr (False, w2)"
      and tr: "tok_transfer (sx_token X) (st_token st) (self_addr env) (st_beneficiary st) pay w2 = Some w'"
      and s': "s' = s\<lparr>sm_streams := (sm_streams s)(i \<mapsto> st\<lparr>st_released_amount := v\<rparr>)\<rparr>"
    have w2: "tok_balance (sx_token X) u a w2 = tok_balance (sx_token X) u a w" for u a
      using assms(2) q unfolding quiet_def by metis
    have t': "effective_vest_ledger_time env s' = Inr t"
      using t by (simp add: s' effective_vest_ledger_time_def stream_paused_def cong: option.case_cong if_cong)
    have "\<exists>e. release_stream X env i (s', w') = Inl e"
    proof (cases "release_stream X env i (s', w')")
      case (Inr sw'')
      obtain s'' w'' where "release_stream X env i (s', w') = Inr (s'', w'')" using Inr by (cases sw'') simp
      moreover have "\<forall>st. sm_streams s' i = Some st \<longrightarrow> stream_ok st"
        using assms(3) st bounds by (auto simp: s' streams_ok_def stream_ok_def)
      ultimately have False
        by (rule release_stream_cases) (use t' v in \<open>auto simp: s'\<close>)
      then show ?thesis ..
    qed simp
    with st t v pay bounds q s' sep41_transfer(3) [OF assms(1) tr] w2 show ?thesis by (intro exI) auto
  qed
qed

section \<open>A concrete stream\<close>

text \<open>A linear stream of 1000 over 100 seconds; the attestation contract knows every attestation.\<close>

definition stream_ext_demo :: "ref_ledger stream_ext" where
  "stream_ext_demo = \<lparr>sx_token = ref_token, sx_has_attestation = (\<lambda>c b p w. Inr (True, w)),
     sx_is_revoked = (\<lambda>c b p w. Inr (False, w))\<rparr>"

definition stream_demo :: stream_rec where
  "stream_demo = \<lparr>st_id = 0, st_attestation_contract = ''ATT'', st_business = ''BIZ'', st_period = ''202601'',
     st_beneficiary = ''BOB'', st_token = ''USDC'', st_amount = 1000, st_vesting = Linear 100 200, st_released_amount = 0\<rparr>"

definition streams_demo :: stream_state where
  "streams_demo = stream_empty\<lparr>sm_admin := Some ''ADMIN'', sm_next_stream_id := Some 1, sm_paused := Some False,
     sm_streams := [0 \<mapsto> stream_demo], sm_nonces := [(''ADMIN'', 1) \<mapsto> 2]\<rparr>"

definition stream_calls :: "ref_ledger stream_event list" where
  "stream_calls = [Call (ext_env 50 7, RInit ''ADMIN'' 0),
     Call (ext_env 60 8, RCreate ''ADMIN'' 1 ''ATT'' ''BIZ'' ''202601'' ''BOB'' ''USDC'' 1000 (Linear 100 200))]"

definition rich :: ref_ledger where "rich = (\<lambda>t a. 5000)"

abbreviation stream_machine :: "(ledger_env \<times> stream_call, ref_ledger) traffic \<Rightarrow> stream_state \<times> ref_ledger \<Rightarrow> (stream_state \<times> ref_ledger) res" where
  "stream_machine \<equiv> custody_step (sx_token stream_ext_demo) ''CONTRACT'' (stream_step stream_ext_demo ''CONTRACT'')"

lemma stream_demo_init:
  "exec stream_machine (Call (ext_env 50 7, RInit ''ADMIN'' 0)) (stream_empty, rich) =
     (stream_empty\<lparr>sm_admin := Some ''ADMIN'', sm_next_stream_id := Some 0, sm_paused := Some False,
        sm_nonces := [(''ADMIN'', 1) \<mapsto> 1]\<rparr>, rich)"
  by (simp add: exec_def custody_step_def stream_step_def outside_call_def stream_initialize_def lift_ledger_def
      verify_and_increment_nonce_def get_nonce_def STREAM_CHANNEL_ADMIN_def u64_max_def stream_empty_def)

lemma stream_demo_create:
  "fst (exec stream_machine (Call (ext_env 60 8, RCreate ''ADMIN'' 1 ''ATT'' ''BIZ'' ''202601'' ''BOB'' ''USDC'' 1000 (Linear 100 200)))
     (stream_empty\<lparr>sm_admin := Some ''ADMIN'', sm_next_stream_id := Some 0, sm_paused := Some False,
        sm_nonces := [(''ADMIN'', 1) \<mapsto> 1]\<rparr>, rich)) = streams_demo"
  by (simp add: exec_def custody_step_def stream_step_def outside_call_def create_stream_def stream_admin_guard_def
      verify_and_increment_nonce_def get_nonce_def STREAM_CHANNEL_ADMIN_def u64_max_def stream_empty_def
      streams_demo_def stream_demo_def stream_ext_demo_def ref_token_def transferr_def rich_def numeral_2_eq_2)

lemma stream_demo_run: "fst (run stream_machine stream_calls (stream_empty, rich)) = streams_demo"
  unfolding stream_calls_def run.simps stream_demo_init by (rule stream_demo_create)

lemma stream_ext_demo_ok: "sep41 (sx_token stream_ext_demo)" "quiet stream_ext_demo"
  by (simp_all add: stream_ext_demo_def ref_token_sep41 quiet_def)

lemma streams_funded_witness:
  "\<exists>w. fst (run stream_machine stream_calls (stream_empty, rich)) = streams_demo \<and>
     1000 \<le> tok_balance ref_token ''USDC'' ''CONTRACT'' w"
proof -
  obtain w where r: "run stream_machine stream_calls (stream_empty, rich) = (streams_demo, w)"
    using stream_demo_run by (metis prod.collapse)
  have "custody_start (sx_token stream_ext_demo) ''CONTRACT'' (\<lambda>s. s = stream_empty) (stream_empty, rich)"
    by (simp add: custody_start_def stream_ext_demo_def ref_token_def rich_def)
  then have "reachable (custody_start (sx_token stream_ext_demo) ''CONTRACT'' (\<lambda>s. s = stream_empty)) stream_machine (streams_demo, w)"
    unfolding r [symmetric] by (intro reachable_run reachable_start)
  from streams_funded [OF stream_ext_demo_ok this]
  have "map_sum (\<lambda>st. if st_token st = ''USDC'' then st_amount st - st_released_amount st else 0) (sm_streams streams_demo)
      \<le> tok_balance (sx_token stream_ext_demo) ''USDC'' ''CONTRACT'' w" by blast
  then show ?thesis using stream_demo_run
    by (auto simp: map_sum_def streams_demo_def stream_demo_def stream_ext_demo_def)
qed

lemma pauses_do_not_count_witness:
  "effective_vest_ledger_time (ext_env 150 9) (fst (run stream_machine stream_calls (stream_empty, rich))) = Inr 150"
proof -
  have "in_time stream_calls 0 150" by (simp add: stream_calls_def)
  from pauses_do_not_count [OF this _ _ refl, of "ext_env 150 9" stream_ext_demo "''CONTRACT''" rich]
  have "\<exists>t. effective_vest_ledger_time (ext_env 150 9) (fst (run stream_machine stream_calls (stream_empty, rich))) = Inr t"
    by (auto simp: u64_max_def)
  then show ?thesis unfolding stream_demo_run
    by (auto simp: effective_vest_ledger_time_def streams_demo_def stream_empty_def stream_paused_def)
qed

lemma release_pays_vested_once_witness:
  "\<exists>s' w'. release_stream stream_ext_demo (ext_env 150 9) 0 (streams_demo, rich) = Inr (s', w') \<and>
     sm_streams s' = [0 \<mapsto> stream_demo\<lparr>st_released_amount := 500\<rparr>] \<and>
     tok_balance ref_token ''USDC'' ''BOB'' w' = 5500"
proof -
  have ok: "streams_ok streams_demo"
    by (simp add: streams_ok_def streams_demo_def stream_demo_def stream_ok_def stream_empty_def stream_paused_def)
  obtain s' w' where r: "release_stream stream_ext_demo (ext_env 150 9) 0 (streams_demo, rich) = Inr (s', w')"
    by (simp add: release_stream_def streams_demo_def stream_demo_def stream_empty_def stream_paused_def
        effective_vest_ledger_time_def is_fully_paid_def vested_by_schedule_def in_i128_def i128_min_def i128_max_def
        stream_ext_demo_def ref_token_def transferr_def rich_def trunc_div_def del: bindr_Inr)
  from release_pays_vested_once [OF stream_ext_demo_ok ok r] r show ?thesis
    by (auto simp: streams_demo_def stream_demo_def effective_vest_ledger_time_def stream_paused_def stream_empty_def
        vested_by_schedule_def in_i128_def i128_min_def i128_max_def trunc_div_def stream_ext_demo_def ref_token_def
        rich_def moved_def)
qed

end
