(* ===== verification/Stream_Link.thy ===== *)
theory Stream_Link
  imports Attestation_Examples Revenue_Stream
begin

text \<open>
  Revenue streams over the repository's own attestation contract: the streams ask \<open>get_attestation\<close> and
  \<open>get_revocation_info\<close> of \<open>attestation/src/lib.rs\<close>, and both contracts take calls in any order.
\<close>

section \<open>The two contracts together\<close>

text \<open>The tokens of a ledger that also holds the attestation contract.\<close>

definition beside :: "'l token_ops \<Rightarrow> (contract \<times> 'l) token_ops" where
  "beside T = \<lparr>tok_transfer = (\<lambda>t a b n (c, l). map_option (Pair c) (tok_transfer T t a b n l)),
     tok_balance = (\<lambda>t a (c, l). tok_balance T t a l)\<rparr>"

lemma beside_simps [simp]:
  "tok_transfer (beside T) t a b n (c, l) = map_option (Pair c) (tok_transfer T t a b n l)"
  "tok_balance (beside T) t a (c, l) = tok_balance T t a l"
  by (simp_all add: beside_def)

lemma beside_sep41: "sep41 T \<Longrightarrow> sep41 (beside T)"
  by (auto simp: sep41_def beside_def)

text \<open>\<open>att\<close> is the address of the attestation contract; asking another address fails.\<close>

definition stream_link :: "'l token_ops \<Rightarrow> address \<Rightarrow> (contract \<times> 'l) stream_ext" where
  "stream_link T att = \<lparr>sx_token = beside T,
     sx_has_attestation = (\<lambda>a b p (c, l).
       if a = att
       then (case get_attestation (ct_att c) b p of (found, s) \<Rightarrow> Inr (found \<noteq> None, (c\<lparr>ct_att := s\<rparr>, l)))
       else Inl CallFailed),
     sx_is_revoked = (\<lambda>a b p (c, l).
       if a = att then Inr (is_attestation_revoked (at_dispute (ct_att c)) b p, (c, l)) else Inl CallFailed)\<rparr>"

lemma stream_link_quiet: "quiet (stream_link T att)"
  by (auto simp: quiet_def stream_link_def split: prod.splits if_splits)

datatype ('s, 'a) joint_call = ToStreams 's | ToAttestations 'a

fun joint_step where
  "joint_step X T att self (ToStreams e) (s, cl) = stream_step (stream_link T att) self e (s, cl)"
| "joint_step X T att self (ToAttestations e) (s, cl) = bindr (lib_step X e cl) (\<lambda>cl'. Inr (s, cl'))"

section \<open>Nothing is released\<close>

definition unpaid :: "stream_state \<times> (contract \<times> 'l) \<Rightarrow> bool" where
  "unpaid sw \<longleftrightarrow> stores_empty (snd sw) \<and> streams_ok (fst sw) \<and>
     (\<forall>i st. sm_streams (fst sw) i = Some st \<longrightarrow> st_released_amount st = 0)"

lemma release_finds_nothing:
  assumes "stores_empty (c, l)" and "streams_ok s"
  shows "release_stream (stream_link T att) env i (s, (c, l)) \<noteq> Inr (s', w')"
proof
  assume r: "release_stream (stream_link T att) env i (s, (c, l)) = Inr (s', w')"
  have "\<forall>st. sm_streams s i = Some st \<longrightarrow> stream_ok st" using assms(2) by (simp add: streams_ok_def)
  from r this show False
    by (rule release_stream_cases)
      (use assms(1) in \<open>auto simp: stream_link_def get_attestation_def stores_empty_def split: if_splits\<close>)
qed

lemma unpaid_step:
  assumes "unpaid sw" and "joint_step X T att self e sw = Inr sw'"
  shows "unpaid sw'"
proof -
  obtain s c l where sw: "sw = (s, (c, l))" by (metis surj_pair)
  obtain s' cl' where sw': "sw' = (s', cl')" by (cases sw')
  have inv: "stores_empty (c, l)" "streams_ok s" "\<forall>i st. sm_streams s i = Some st \<longrightarrow> st_released_amount st = 0"
    using assms(1) by (simp_all add: unpaid_def sw)
  show ?thesis
  proof (cases e)
    case (ToAttestations a)
    with assms(2) have "s' = s" "lib_step X a (c, l) = Inr cl'" by (auto simp: sw sw')
    with stores_step [OF inv(1)] inv show ?thesis by (simp add: unpaid_def sw')
  next
    case (ToStreams a)
    obtain env k where a: "a = (env, k)" by (cases a)
    from assms(2) ToStreams have d: "stream_dispatch (stream_link T att) env k (s, (c, l)) = Inr (s', cl')"
      by (simp add: sw sw' a stream_step_def split: if_splits)
    have ok: "streams_ok s'" using stream_dispatch_ok [OF inv(2) d] .
    show ?thesis
    proof (cases k)
      case (RCreate a n d b p f t m v)
      with d obtain i where "create_stream (stream_link T att) env a n d b p f t m v (s, (c, l)) = Inr (i, s', cl')" by auto
      then show ?thesis
      proof (rule create_stream_cases)
        fix ns st
        assume "tok_transfer (sx_token (stream_link T att)) t a (self_addr env) m (c, l) = Some cl'"
          and "s' = s\<lparr>sm_nonces := ns, sm_streams := (sm_streams s)(i \<mapsto> st), sm_next_stream_id := Some (i + 1)\<rparr>"
          and "st = \<lparr>st_id = i, st_attestation_contract = d, st_business = b, st_period = p, st_beneficiary = f,
            st_token = t, st_amount = m, st_vesting = v, st_released_amount = 0\<rparr>"
        with inv(1,3) ok show ?thesis by (auto simp: unpaid_def sw' stream_link_def stores_empty_def)
      qed
    next
      case (RRelease i)
      with d release_finds_nothing [OF inv(1,2)] show ?thesis by simp
    qed (use d inv ok in \<open>auto simp: unpaid_def sw' stream_initialize_def pause_streams_def resume_streams_def
        elim!: stream_guard_cases\<close>)
  qed
qed

lemma joint_keeps:
  assumes "unpaid sw" and "joint_step X T att self e sw = Inr sw'" and "sm_streams (fst sw) i \<noteq> None"
  shows "sm_streams (fst sw') i \<noteq> None"
proof -
  obtain s cl s' cl' where sw: "sw = (s, cl)" "sw' = (s', cl')" by (cases sw, cases sw')
  show ?thesis
  proof (cases e)
    case (ToStreams a)
    with assms(2) have "stream_dispatch (stream_link T att) (fst a) (snd a) (s, cl) = Inr (s', cl')"
      by (simp add: sw stream_step_def split: if_splits)
    with assms(1,3) show ?thesis using stream_dispatch_keeps [of s] by (simp add: unpaid_def sw)
  next
    case (ToAttestations a)
    with assms show ?thesis by (auto simp: sw)
  qed
qed

definition joint_start :: "stream_state \<times> (contract \<times> 'l) \<Rightarrow> bool" where
  "joint_start sw \<longleftrightarrow> fst sw = stream_empty \<and> lib_start (snd sw)"

interpretation joint: invariant_machine joint_start "joint_step X T att self" unpaid for X T att self
proof
  show "unpaid sw" if "joint_start sw" for sw :: "stream_state \<times> contract \<times> 'l"
    using that stores_start [of "snd sw"]
    by (simp add: joint_start_def unpaid_def streams_ok_def stream_empty_def stream_paused_def)
  show "unpaid sw'" if "unpaid sw" "joint_step X T att self e sw = Inr sw'" for sw e sw'
    using that by (rule unpaid_step)
qed

text \<open>
  Streams over this attestation contract never pay. A stream releases only when \<open>get_attestation\<close>
  finds an attestation, and the attestation contract never finds one that was submitted to it. So
  whatever is created, submitted and released, in any order of calls to the two contracts, no stream has
  released anything, every release fails, and what was paid in stays in the contract: it has no other way
  out. The streams stay funded all the same.
\<close>

theorem streams_never_pay:
  assumes "reachable joint_start (joint_step X T att self) (s, (c, l))" and "sm_streams s i = Some st"
  shows "st_released_amount st = 0 \<and> (\<exists>e. release_stream (stream_link T att) env i (s, (c, l)) = Inl e) \<and>
    (\<forall>es. \<exists>st'. sm_streams (fst (run (joint_step X T att self) es (s, (c, l)))) i = Some st' \<and> st_released_amount st' = 0)"
proof -
  have inv: "unpaid (s, (c, l))" using assms(1) by (rule joint.reachable_inv)
  then have "st_released_amount st = 0" "streams_ok s" "stores_empty (c, l)" using assms(2) by (auto simp: unpaid_def)
  moreover have "\<exists>e. release_stream (stream_link T att) env i (s, (c, l)) = Inl e"
    using release_finds_nothing [OF calculation(3,2), of T att env i]
    by (cases "release_stream (stream_link T att) env i (s, (c, l))") auto
  moreover have "\<exists>st'. sm_streams (fst (run (joint_step X T att self) es (s, (c, l)))) i = Some st' \<and> st_released_amount st' = 0"
    for es
  proof -
    let ?R = "\<lambda>sw sw' :: stream_state \<times> (contract \<times> _). \<forall>i. sm_streams (fst sw) i \<noteq> None \<longrightarrow> sm_streams (fst sw') i \<noteq> None"
    have "?R (s, (c, l)) (run (joint_step X T att self) es (s, (c, l)))"
      by (rule joint.run_rel [where R = ?R, OF inv]) (auto dest: joint_keeps)
    moreover have "unpaid (run (joint_step X T att self) es (s, (c, l)))" using inv by (rule joint.run_inv)
    ultimately show ?thesis using assms(2) by (fastforce simp: unpaid_def)
  qed
  ultimately show ?thesis by blast
qed

section \<open>A stream over a submitted attestation\<close>

lemma joint_from_lib:
  "reachable lib_start (lib_step X) cl \<Longrightarrow> reachable joint_start (joint_step X T att self) (stream_empty, cl)"
proof (induction rule: reachable.induct)
  case (reachable_start cl)
  then show ?case by (simp add: reachable.reachable_start joint_start_def)
next
  case (reachable_call cl e cl')
  then have "joint_step X T att self (ToAttestations e) (stream_empty, cl) = Inr (stream_empty, cl')" by simp
  with reachable_call.IH show ?case by (rule reachable.reachable_call)
qed

lemma joint_init:
  "joint_step X ref_token ''ATT'' ''CONTRACT'' (ToStreams (ext_env 50 7, RInit ''ADMIN'' 0)) (stream_empty, cl) =
     Inr (stream_empty\<lparr>sm_admin := Some ''ADMIN'', sm_next_stream_id := Some 0, sm_paused := Some False,
        sm_nonces := [(''ADMIN'', 1) \<mapsto> 1]\<rparr>, cl)"
  by (cases cl) (simp add: stream_step_def outside_call_def stream_initialize_def lift_ledger_def
      verify_and_increment_nonce_def get_nonce_def STREAM_CHANNEL_ADMIN_def u64_max_def stream_empty_def)

lemma joint_create:
  "\<exists>l. joint_step X ref_token ''ATT'' ''CONTRACT'' (ToStreams (ext_env 60 8, RCreate ''ADMIN'' 1 ''ATT'' ''BIZ'' ''202601'' ''BOB'' ''USDC'' 1000 (Linear 100 200)))
     (stream_empty\<lparr>sm_admin := Some ''ADMIN'', sm_next_stream_id := Some 0, sm_paused := Some False,
        sm_nonces := [(''ADMIN'', 1) \<mapsto> 1]\<rparr>, (c, rich)) = Inr (streams_demo, (c, l))"
  by (simp add: stream_step_def outside_call_def create_stream_def stream_admin_guard_def stream_link_def
      verify_and_increment_nonce_def get_nonce_def STREAM_CHANNEL_ADMIN_def u64_max_def stream_empty_def
      streams_demo_def stream_demo_def ref_token_def transferr_def rich_def numeral_2_eq_2 del: bindr_Inr)

lemma streams_never_pay_witness:
  "\<exists>(c :: contract) l. at_active (ct_att c) (''BIZ'', ''202601'') = Some life_data \<and>
     (\<exists>e. release_stream (stream_link ref_token ''ATT'') (ext_env 500 9) 0 (streams_demo, (c, l)) = Inl e)"
proof -
  obtain c where c: "reachable lib_start (lib_step ext_demo) (c, rich)" "at_active (ct_att c) = [(''BIZ'', ''202601'') \<mapsto> life_data]"
    using life_reachable by blast
  note init = reachable_call [OF joint_from_lib [OF c(1)], OF joint_init]
  obtain l where "joint_step ext_demo ref_token ''ATT'' ''CONTRACT'' (ToStreams (ext_env 60 8, RCreate ''ADMIN'' 1 ''ATT'' ''BIZ'' ''202601'' ''BOB'' ''USDC'' 1000 (Linear 100 200)))
     (stream_empty\<lparr>sm_admin := Some ''ADMIN'', sm_next_stream_id := Some 0, sm_paused := Some False,
        sm_nonces := [(''ADMIN'', 1) \<mapsto> 1]\<rparr>, (c, rich)) = Inr (streams_demo, (c, l))"
    using joint_create by metis
  from reachable_call [OF init, OF this]
  have "reachable joint_start (joint_step ext_demo ref_token ''ATT'' ''CONTRACT'') (streams_demo, (c, l))" .
  moreover have "sm_streams streams_demo 0 = Some stream_demo" by (simp add: streams_demo_def)
  ultimately have "\<exists>e. release_stream (stream_link ref_token ''ATT'') (ext_env 500 9) 0 (streams_demo, (c, l)) = Inl e"
    by (rule streams_never_pay [THEN conjunct2, THEN conjunct1])
  with c(2) show ?thesis by (intro exI [of _ c] exI [of _ l]) simp
qed

end
