(* ===== verification/Governance_Gating.thy ===== *)
theory Governance_Gating
  imports Prelude
begin

text \<open>
  \<open>contracts/common/src/governance_gating.rs\<close>: gates that ask for a balance of a governance token, with
  delegation of voting power, a stricter gate for handing out roles, an emergency pause and the pending
  administrator of a rotation.

  One field per \<open>GovernanceKey\<close>. The governance token is a parameter; only its \<open>balance\<close> is read.
\<close>

section \<open>State and configuration\<close>

record governance_config =
  gc_token :: address
  gc_threshold :: int
  gc_enabled :: bool

record role_escalation_config =
  ec_threshold :: int
  ec_allow_delegated_power :: bool

record emergency_config =
  em_paused :: bool
  em_override_admin :: "address option"

record governance_state =
  gv_token :: "address option"
  gv_threshold :: "int option"
  gv_delegation :: "address \<rightharpoonup> address"
  gv_delegation_amount :: "address \<rightharpoonup> int"
  gv_delegated_power :: "address \<rightharpoonup> int"
  gv_enabled :: "bool option"
  gv_esc_threshold :: "int option"
  gv_esc_delegated :: "bool option"
  gv_paused :: "bool option"
  gv_override :: "address option"
  gv_last_role :: "address \<rightharpoonup> nat"
  gv_pending_admin :: "address option"
  gv_activation_time :: "nat option"

definition governance_empty :: governance_state where
  "governance_empty = \<lparr>gv_token = None, gv_threshold = None, gv_delegation = Map.empty,
     gv_delegation_amount = Map.empty, gv_delegated_power = Map.empty, gv_enabled = None,
     gv_esc_threshold = None, gv_esc_delegated = None, gv_paused = None, gv_override = None,
     gv_last_role = Map.empty, gv_pending_admin = None, gv_activation_time = None\<rparr>"

definition initialize_governance :: "address \<Rightarrow> int \<Rightarrow> bool \<Rightarrow> governance_state \<Rightarrow> governance_state res" where
  "initialize_governance token threshold enabled s =
     bindr (assertr (gv_token s = None) ''governance already initialized'') (\<lambda>_.
     bindr (assertr (0 \<le> threshold) ''threshold must be non-negative'') (\<lambda>_.
     Inr (s\<lparr>gv_token := Some token, gv_threshold := Some threshold, gv_enabled := Some enabled,
            gv_esc_threshold := Some threshold, gv_esc_delegated := Some False, gv_paused := Some False\<rparr>)))"

definition get_governance_config :: "governance_state \<Rightarrow> governance_config option" where
  "get_governance_config s =
     (case gv_token s of
        None \<Rightarrow> None
      | Some token \<Rightarrow>
          (case gv_threshold s of
             None \<Rightarrow> None
           | Some threshold \<Rightarrow>
               Some \<lparr>gc_token = token, gc_threshold = threshold, gc_enabled = unwrap_or (gv_enabled s) False\<rparr>))"

definition get_role_escalation_config :: "governance_state \<Rightarrow> role_escalation_config option" where
  "get_role_escalation_config s =
     map_option (\<lambda>governance.
       \<lparr>ec_threshold = unwrap_or (gv_esc_threshold s) (gc_threshold governance),
        ec_allow_delegated_power = unwrap_or (gv_esc_delegated s) False\<rparr>) (get_governance_config s)"

definition get_emergency_config :: "governance_state \<Rightarrow> emergency_config option" where
  "get_emergency_config s =
     map_option (\<lambda>_. \<lparr>em_paused = unwrap_or (gv_paused s) False, em_override_admin = gv_override s\<rparr>)
       (get_governance_config s)"

definition require_governance_initialized :: "governance_state \<Rightarrow> unit res" where
  "require_governance_initialized s = assertr (gv_token s \<noteq> None) ''governance not initialized''"

definition get_base_governance_threshold :: "governance_state \<Rightarrow> int res" where
  "get_base_governance_threshold s = expectr (gv_threshold s) ''governance not initialized''"

definition set_governance_threshold :: "int \<Rightarrow> governance_state \<Rightarrow> governance_state res" where
  "set_governance_threshold threshold s =
     bindr (require_governance_initialized s) (\<lambda>_.
     bindr (assertr (0 \<le> threshold) ''threshold must be non-negative'') (\<lambda>_.
     (let s1 = s\<lparr>gv_threshold := Some threshold\<rparr> in
      bindr (expectr (get_role_escalation_config s1) ''governance not initialized'') (\<lambda>escalation.
      Inr (if ec_threshold escalation < threshold then s1\<lparr>gv_esc_threshold := Some threshold\<rparr> else s1)))))"

definition set_governance_enabled :: "bool \<Rightarrow> governance_state \<Rightarrow> governance_state res" where
  "set_governance_enabled enabled s =
     bindr (require_governance_initialized s) (\<lambda>_. Inr (s\<lparr>gv_enabled := Some enabled\<rparr>))"

definition set_role_escalation_threshold :: "int \<Rightarrow> governance_state \<Rightarrow> governance_state res" where
  "set_role_escalation_threshold threshold s =
     bindr (require_governance_initialized s) (\<lambda>_.
     bindr (assertr (0 \<le> threshold) ''threshold must be non-negative'') (\<lambda>_.
     bindr (get_base_governance_threshold s) (\<lambda>governance_threshold.
     bindr (assertr (governance_threshold \<le> threshold) ''role escalation threshold must be >= governance threshold'') (\<lambda>_.
     Inr (s\<lparr>gv_esc_threshold := Some threshold\<rparr>)))))"

definition set_role_escalation_use_delegated_power :: "bool \<Rightarrow> governance_state \<Rightarrow> governance_state res" where
  "set_role_escalation_use_delegated_power enabled s =
     bindr (require_governance_initialized s) (\<lambda>_. Inr (s\<lparr>gv_esc_delegated := Some enabled\<rparr>))"

section \<open>Voting power and delegation\<close>

definition get_direct_voting_power :: "'w token_ops \<Rightarrow> 'w \<Rightarrow> governance_state \<Rightarrow> address \<Rightarrow> int" where
  "get_direct_voting_power T w s a =
     (case get_governance_config s of None \<Rightarrow> 0 | Some config \<Rightarrow> tok_balance T (gc_token config) a w)"

definition has_outgoing_delegation :: "governance_state \<Rightarrow> address \<Rightarrow> bool" where
  "has_outgoing_delegation s a \<longleftrightarrow> gv_delegation s a \<noteq> None"

definition read_delegation_amount :: "'w token_ops \<Rightarrow> 'w \<Rightarrow> governance_state \<Rightarrow> address \<Rightarrow> int" where
  "read_delegation_amount T w s delegator =
     unwrap_or (gv_delegation_amount s delegator) (get_direct_voting_power T w s delegator)"

definition get_voting_power :: "'w token_ops \<Rightarrow> 'w \<Rightarrow> governance_state \<Rightarrow> address \<Rightarrow> int res" where
  "get_voting_power T w s a =
     (let direct_balance = get_direct_voting_power T w s a in
      if direct_balance = 0 \<and> get_governance_config s = None then Inr 0
      else
        (let retained_balance = (if has_outgoing_delegation s a then 0 else direct_balance);
             delegated = unwrap_or (gv_delegated_power s a) 0 in
         if in_i128 (retained_balance + delegated) then Inr (retained_balance + delegated)
         else Inl (Panic ''voting power overflow'')))"

definition get_role_escalation_power :: "'w token_ops \<Rightarrow> 'w \<Rightarrow> governance_state \<Rightarrow> address \<Rightarrow> int res" where
  "get_role_escalation_power T w s a =
     (case get_role_escalation_config s of
        None \<Rightarrow> Inr 0
      | Some escalation \<Rightarrow>
          (if ec_allow_delegated_power escalation then get_voting_power T w s a
           else Inr (get_direct_voting_power T w s a)))"

text \<open>Take back what a delegator delegated before, if anything.\<close>

definition take_back :: "'w token_ops \<Rightarrow> 'w \<Rightarrow> governance_state \<Rightarrow> address \<Rightarrow> governance_state res" where
  "take_back T w s delegator =
     (case gv_delegation s delegator of
        None \<Rightarrow> Inr s
      | Some old_delegate \<Rightarrow>
          (let delegated_amount = read_delegation_amount T w s delegator;
               old_power = unwrap_or (gv_delegated_power s old_delegate) 0 in
           if in_i128 (old_power - delegated_amount)
           then Inr (s\<lparr>gv_delegated_power := (gv_delegated_power s)(old_delegate \<mapsto> old_power - delegated_amount)\<rparr>)
           else Inl (Panic ''delegated power underflow'')))"

definition delegate_voting_power ::
  "'w token_ops \<Rightarrow> 'w \<Rightarrow> ledger_env \<Rightarrow> address \<Rightarrow> address \<Rightarrow> governance_state \<Rightarrow> governance_state res" where
  "delegate_voting_power T w env delegator delegate s =
     bindr (require_auth env delegator) (\<lambda>_.
     bindr (assertr (delegator \<noteq> delegate) ''cannot delegate to self'') (\<lambda>_.
     (let balance = get_direct_voting_power T w s delegator in
      bindr (assertr (get_governance_config s \<noteq> None) ''governance not initialized'') (\<lambda>_.
      bindr (take_back T w s delegator) (\<lambda>s1.
      (let current_power = unwrap_or (gv_delegated_power s1 delegate) 0 in
       if in_i128 (current_power + balance)
       then Inr (s1\<lparr>gv_delegation := (gv_delegation s1)(delegator \<mapsto> delegate),
                    gv_delegation_amount := (gv_delegation_amount s1)(delegator \<mapsto> balance),
                    gv_delegated_power := (gv_delegated_power s1)(delegate \<mapsto> current_power + balance)\<rparr>)
       else Inl (Panic ''delegated power overflow'')))))))"

definition revoke_delegation ::
  "'w token_ops \<Rightarrow> 'w \<Rightarrow> ledger_env \<Rightarrow> address \<Rightarrow> governance_state \<Rightarrow> governance_state res" where
  "revoke_delegation T w env delegator s =
     bindr (require_auth env delegator) (\<lambda>_.
     (case gv_delegation s delegator of
        None \<Rightarrow> Inr s
      | Some _ \<Rightarrow>
          bindr (take_back T w s delegator) (\<lambda>s1.
          Inr (s1\<lparr>gv_delegation := (gv_delegation s1)(delegator := None),
                  gv_delegation_amount := (gv_delegation_amount s1)(delegator := None)\<rparr>))))"

definition get_delegate :: "governance_state \<Rightarrow> address \<Rightarrow> address option" where
  "get_delegate s delegator = gv_delegation s delegator"

section \<open>The gates\<close>

definition has_governance_power :: "'w token_ops \<Rightarrow> 'w \<Rightarrow> governance_state \<Rightarrow> address \<Rightarrow> bool res" where
  "has_governance_power T w s a =
     (case get_governance_config s of
        None \<Rightarrow> Inr False
      | Some config \<Rightarrow>
          (if \<not> gc_enabled config then Inr False
           else bindr (get_voting_power T w s a) (\<lambda>power. Inr (gc_threshold config \<le> power))))"

text \<open>The check of the emergency pause that both gates make: the override administrator passes.\<close>

definition check_emergency :: "governance_state \<Rightarrow> address \<Rightarrow> unit res" where
  "check_emergency s a =
     (case get_emergency_config s of
        None \<Rightarrow> Inr ()
      | Some emergency \<Rightarrow>
          (if em_paused emergency \<and> em_override_admin emergency \<noteq> Some a
           then Inl (Panic ''protocol emergency paused - operation blocked'') else Inr ()))"

definition require_governance_threshold :: "'w token_ops \<Rightarrow> 'w \<Rightarrow> ledger_env \<Rightarrow> governance_state \<Rightarrow> address \<Rightarrow> unit res" where
  "require_governance_threshold T w env s a =
     bindr (require_auth env a) (\<lambda>_.
     bindr (check_emergency s a) (\<lambda>_.
     (case get_governance_config s of
        None \<Rightarrow> Inr ()
      | Some config \<Rightarrow>
          (if \<not> gc_enabled config then Inr ()
           else bindr (get_voting_power T w s a) (\<lambda>voting_power.
                assertr (gc_threshold config \<le> voting_power) ''insufficient governance voting power'')))))"

definition has_role_escalation_power :: "'w token_ops \<Rightarrow> 'w \<Rightarrow> governance_state \<Rightarrow> address \<Rightarrow> bool res" where
  "has_role_escalation_power T w s a =
     (case get_governance_config s of
        None \<Rightarrow> Inr False
      | Some governance \<Rightarrow>
          (if \<not> gc_enabled governance then Inr False
           else bindr (expectr (get_role_escalation_config s) ''governance not initialized'') (\<lambda>escalation.
                bindr (get_role_escalation_power T w s a) (\<lambda>power. Inr (ec_threshold escalation \<le> power)))))"

definition require_role_escalation_threshold ::
  "'w token_ops \<Rightarrow> 'w \<Rightarrow> ledger_env \<Rightarrow> governance_state \<Rightarrow> address \<Rightarrow> unit res" where
  "require_role_escalation_threshold T w env s a =
     bindr (require_auth env a) (\<lambda>_.
     bindr (expectr (get_governance_config s) ''governance not initialized'') (\<lambda>governance.
     bindr (assertr (gc_enabled governance) ''governance disabled'') (\<lambda>_.
     bindr (check_emergency s a) (\<lambda>_.
     bindr (expectr (get_role_escalation_config s) ''governance not initialized'') (\<lambda>escalation.
     bindr (get_role_escalation_power T w s a) (\<lambda>power.
     assertr (ec_threshold escalation \<le> power) ''insufficient role escalation voting power''))))))"

definition is_governance_enabled :: "governance_state \<Rightarrow> bool" where
  "is_governance_enabled s = (case get_governance_config s of Some config \<Rightarrow> gc_enabled config | None \<Rightarrow> False)"

definition is_emergency_paused :: "governance_state \<Rightarrow> bool" where
  "is_emergency_paused s = (case get_emergency_config s of Some config \<Rightarrow> em_paused config | None \<Rightarrow> False)"

definition is_emergency_override_admin :: "governance_state \<Rightarrow> address \<Rightarrow> bool" where
  "is_emergency_override_admin s a =
     (case get_emergency_config s of Some config \<Rightarrow> em_override_admin config = Some a | None \<Rightarrow> False)"

section \<open>Emergency, roles and rotation\<close>

definition set_emergency_pause ::
  "'w token_ops \<Rightarrow> 'w \<Rightarrow> ledger_env \<Rightarrow> address \<Rightarrow> bool \<Rightarrow> governance_state \<Rightarrow> governance_state res" where
  "set_emergency_pause T w env caller paused s =
     bindr (require_governance_initialized s) (\<lambda>_.
     bindr (require_auth env caller) (\<lambda>_.
     bindr (if paused then require_role_escalation_threshold T w env s caller else Inr ()) (\<lambda>_.
     Inr (s\<lparr>gv_paused := Some paused\<rparr>))))"

definition set_emergency_override_admin ::
  "'w token_ops \<Rightarrow> 'w \<Rightarrow> ledger_env \<Rightarrow> address \<Rightarrow> address option \<Rightarrow> governance_state \<Rightarrow> governance_state res" where
  "set_emergency_override_admin T w env caller admin s =
     bindr (require_governance_initialized s) (\<lambda>_.
     bindr (require_auth env caller) (\<lambda>_.
     bindr (require_role_escalation_threshold T w env s caller) (\<lambda>_.
     Inr (s\<lparr>gv_override := admin\<rparr>))))"

definition record_role_assignment :: "address \<Rightarrow> nat \<Rightarrow> governance_state \<Rightarrow> governance_state" where
  "record_role_assignment role_address ts s = s\<lparr>gv_last_role := (gv_last_role s)(role_address \<mapsto> ts)\<rparr>"

definition get_last_role_assignment :: "governance_state \<Rightarrow> address \<Rightarrow> nat option" where
  "get_last_role_assignment s role_address = gv_last_role s role_address"

definition set_pending_admin :: "ledger_env \<Rightarrow> address \<Rightarrow> nat \<Rightarrow> governance_state \<Rightarrow> governance_state res" where
  "set_pending_admin env admin delay s =
     bindr (u64_chk (timestamp env + delay)) (\<lambda>activation_time.
     Inr (s\<lparr>gv_pending_admin := Some admin, gv_activation_time := Some activation_time\<rparr>))"

definition get_active_pending_admin :: "ledger_env \<Rightarrow> governance_state \<Rightarrow> address option" where
  "get_active_pending_admin env s =
     (case gv_activation_time s of
        None \<Rightarrow> None
      | Some activation_time \<Rightarrow> (if activation_time \<le> timestamp env then gv_pending_admin s else None))"

definition clear_pending_admin :: "governance_state \<Rightarrow> governance_state" where
  "clear_pending_admin s = s\<lparr>gv_pending_admin := None, gv_activation_time := None\<rparr>"

section \<open>The module as a machine\<close>

datatype gate_call =
    GvInit address int bool
  | GvThreshold int
  | GvEnabled bool
  | GvEscalation int
  | GvUseDelegated bool
  | GvDelegate address address
  | GvRevoke address
  | GvPause address bool
  | GvOverride address "address option"
  | GvRole address nat
  | GvPending address nat
  | GvClear

fun gate_step :: "'w token_ops \<Rightarrow> (ledger_env \<times> 'w) \<times> gate_call \<Rightarrow> governance_state \<Rightarrow> governance_state res" where
  "gate_step T ((env, w), GvInit t n e) s = initialize_governance t n e s"
| "gate_step T ((env, w), GvThreshold n) s = set_governance_threshold n s"
| "gate_step T ((env, w), GvEnabled e) s = set_governance_enabled e s"
| "gate_step T ((env, w), GvEscalation n) s = set_role_escalation_threshold n s"
| "gate_step T ((env, w), GvUseDelegated e) s = set_role_escalation_use_delegated_power e s"
| "gate_step T ((env, w), GvDelegate a b) s = delegate_voting_power T w env a b s"
| "gate_step T ((env, w), GvRevoke a) s = revoke_delegation T w env a s"
| "gate_step T ((env, w), GvPause c p) s = set_emergency_pause T w env c p s"
| "gate_step T ((env, w), GvOverride c a) s = set_emergency_override_admin T w env c a s"
| "gate_step T ((env, w), GvRole a t) s = Inr (record_role_assignment a t s)"
| "gate_step T ((env, w), GvPending a d) s = set_pending_admin env a d s"
| "gate_step T ((env, w), GvClear) s = Inr (clear_pending_admin s)"

text \<open>The delegations of a state, each with the amount recorded for it.\<close>

definition delegations :: "governance_state \<Rightarrow> address \<rightharpoonup> address \<times> int" where
  "delegations s a =
     (case gv_delegation s a of None \<Rightarrow> None | Some d \<Rightarrow> Some (d, unwrap_or (gv_delegation_amount s a) 0))"

definition given_to :: "address \<Rightarrow> address \<times> int \<Rightarrow> int" where
  "given_to d e = (if fst e = d then snd e else 0)"

definition gates_ok :: "governance_state \<Rightarrow> bool" where
  "gates_ok s \<longleftrightarrow> finite (dom (gv_delegation s)) \<and> dom (gv_delegation_amount s) = dom (gv_delegation s) \<and>
     (\<forall>d. unwrap_or (gv_delegated_power s d) 0 = map_sum (given_to d) (delegations s)) \<and>
     (gv_token s \<noteq> None \<longrightarrow> (\<exists>base esc. gv_threshold s = Some base \<and> gv_esc_threshold s = Some esc \<and> 0 \<le> base \<and> base \<le> esc)) \<and>
     (\<forall>a. gv_delegation s a \<noteq> Some a)"

lemma dom_delegations [simp]: "dom (delegations s) = dom (gv_delegation s)"
  by (auto simp: delegations_def dom_def split: option.splits)

lemma gates_okD:
  assumes "gates_ok s"
  shows "finite (dom (delegations s))" and "gv_delegation s a = Some d \<Longrightarrow> \<exists>n. gv_delegation_amount s a = Some n \<and> delegations s a = Some (d, n)"
    and "unwrap_or (gv_delegated_power s e) 0 = map_sum (given_to e) (delegations s)"
proof -
  show "finite (dom (delegations s))" "unwrap_or (gv_delegated_power s e) 0 = map_sum (given_to e) (delegations s)"
    using assms by (simp_all add: gates_ok_def)
  show "\<exists>n. gv_delegation_amount s a = Some n \<and> delegations s a = Some (d, n)" if "gv_delegation s a = Some d"
  proof -
    have "a \<in> dom (gv_delegation_amount s)" using assms that by (auto simp: gates_ok_def)
    then obtain n where "gv_delegation_amount s a = Some n" by blast
    with that show ?thesis by (simp add: delegations_def)
  qed
qed

lemma gates_ok_frame:
  assumes "gates_ok s" and "gv_delegation s' = gv_delegation s" "gv_delegation_amount s' = gv_delegation_amount s"
    "gv_delegated_power s' = gv_delegated_power s"
    and "gv_token s' \<noteq> None \<Longrightarrow> \<exists>base esc. gv_threshold s' = Some base \<and> gv_esc_threshold s' = Some esc \<and> 0 \<le> base \<and> base \<le> esc"
  shows "gates_ok s'"
proof -
  have "delegations s' = delegations s" by (rule ext) (simp only: delegations_def assms(2,3))
  with assms show ?thesis by (simp add: gates_ok_def)
qed

lemma take_back_cases:
  assumes "gates_ok s" and "take_back T w s a = Inr s1"
  shows "s1 = s\<lparr>gv_delegated_power := gv_delegated_power s1\<rparr>"
    and "unwrap_or (gv_delegated_power s1 d) 0 = map_sum (given_to d) ((delegations s)(a := None))"
proof -
  have "s1 = s\<lparr>gv_delegated_power := gv_delegated_power s1\<rparr> \<and>
    unwrap_or (gv_delegated_power s1 d) 0 = map_sum (given_to d) ((delegations s)(a := None))"
  proof (cases "gv_delegation s a")
    case None
    then have "delegations s a = None" by (simp add: delegations_def)
    then have "(delegations s)(a := None) = delegations s" by (simp add: fun_upd_idem)
    moreover have "s1 = s" using assms(2) None by (simp add: take_back_def)
    ultimately show ?thesis using gates_okD(3) [OF assms(1)] by simp
  next
    case (Some old)
    then obtain n where n: "gv_delegation_amount s a = Some n" "delegations s a = Some (old, n)"
      using gates_okD(2) [OF assms(1)] by blast
    with assms(2) Some have "s1 = s\<lparr>gv_delegated_power := (gv_delegated_power s)(old \<mapsto> unwrap_or (gv_delegated_power s old) 0 - n)\<rparr>"
      by (auto simp: take_back_def read_delegation_amount_def Let_def split: if_splits)
    with n(2) show ?thesis
      using gates_okD(3) [OF assms(1)] gates_okD(1) [OF assms(1)]
      by (auto simp: map_sum_del amount_at_def given_to_def)
  qed
  then show "s1 = s\<lparr>gv_delegated_power := gv_delegated_power s1\<rparr>"
    and "unwrap_or (gv_delegated_power s1 d) 0 = map_sum (given_to d) ((delegations s)(a := None))" by simp_all
qed

lemma delegate_cases:
  assumes "gates_ok s" and "delegate_voting_power T w env a b s = Inr s'"
  obtains p where "authorized env a" "a \<noteq> b" "get_governance_config s \<noteq> None"
    "s' = s\<lparr>gv_delegation := (gv_delegation s)(a \<mapsto> b),
       gv_delegation_amount := (gv_delegation_amount s)(a \<mapsto> get_direct_voting_power T w s a), gv_delegated_power := p\<rparr>"
    "\<And>d. unwrap_or (p d) 0 = map_sum (given_to d) ((delegations s)(a \<mapsto> (b, get_direct_voting_power T w s a)))"
proof -
  let ?n = "get_direct_voting_power T w s a"
  obtain s1 where g: "authorized env a" "a \<noteq> b" "get_governance_config s \<noteq> None" and s1: "take_back T w s a = Inr s1"
    and s': "s' = s1\<lparr>gv_delegation := (gv_delegation s1)(a \<mapsto> b), gv_delegation_amount := (gv_delegation_amount s1)(a \<mapsto> ?n),
       gv_delegated_power := (gv_delegated_power s1)(b \<mapsto> unwrap_or (gv_delegated_power s1 b) 0 + ?n)\<rparr>"
    using assms(2) by (auto simp: delegate_voting_power_def Let_def split: if_splits)
  note tb = take_back_cases [OF assms(1) s1]
  have fin: "finite (dom (delegations s))" by (rule gates_okD(1) [OF assms(1)])
  have sum: "map_sum (given_to d) ((delegations s)(a \<mapsto> (b, ?n))) =
      map_sum (given_to d) ((delegations s)(a := None)) + (if d = b then ?n else 0)" for d
    using fin by (auto simp: map_sum_upd map_sum_del given_to_def)
  have "s' = s\<lparr>gv_delegation := (gv_delegation s)(a \<mapsto> b), gv_delegation_amount := (gv_delegation_amount s)(a \<mapsto> ?n),
       gv_delegated_power := (gv_delegated_power s1)(b \<mapsto> unwrap_or (gv_delegated_power s1 b) 0 + ?n)\<rparr>"
    unfolding s' by (subst tb(1), subst (2) tb(1), subst (3) tb(1)) simp
  from that [OF g this] show thesis using tb(2) sum by auto
qed

lemma revoke_delegation_cases:
  assumes "gates_ok s" and "revoke_delegation T w env a s = Inr s'"
  obtains p where "authorized env a" "s' = s\<lparr>gv_delegation := (gv_delegation s)(a := None),
       gv_delegation_amount := (gv_delegation_amount s)(a := None), gv_delegated_power := p\<rparr>"
    "\<And>d. unwrap_or (p d) 0 = map_sum (given_to d) ((delegations s)(a := None))"
proof (cases "gv_delegation s a")
  case None
  have "a \<notin> dom (gv_delegation_amount s)" using assms(1) None by (auto simp: gates_ok_def)
  moreover from None assms(2) have "s' = s" "authorized env a" "delegations s a = None"
    by (auto simp: revoke_delegation_def delegations_def)
  ultimately show thesis
    using None gates_okD(3) [OF assms(1)] by (intro that [of "gv_delegated_power s"]) (simp_all add: fun_upd_idem domIff)
next
  case (Some b)
  with assms(2) obtain s1 where "authorized env a" and s1: "take_back T w s a = Inr s1"
    and s': "s' = s1\<lparr>gv_delegation := (gv_delegation s1)(a := None), gv_delegation_amount := (gv_delegation_amount s1)(a := None)\<rparr>"
    by (auto simp: revoke_delegation_def)
  note tb = take_back_cases [OF assms(1) s1]
  have "s' = s\<lparr>gv_delegation := (gv_delegation s)(a := None), gv_delegation_amount := (gv_delegation_amount s)(a := None),
      gv_delegated_power := gv_delegated_power s1\<rparr>"
    unfolding s' by (subst tb(1), subst (2) tb(1), subst (3) tb(1)) simp
  with that \<open>authorized env a\<close> tb(2) show thesis by blast
qed

lemma gates_ok_step:
  assumes "gates_ok s" and "gate_step T ((env, w), c) s = Inr s'"
  shows "gates_ok s'"
proof -
  have same: ?thesis if "gv_delegation s' = gv_delegation s" "gv_delegation_amount s' = gv_delegation_amount s"
    "gv_delegated_power s' = gv_delegated_power s" "gv_token s' = gv_token s" "gv_threshold s' = gv_threshold s"
    "gv_esc_threshold s' = gv_esc_threshold s"
    using assms(1) by (rule gates_ok_frame) (use that assms(1) in \<open>simp_all add: gates_ok_def\<close>)
  show ?thesis
  proof (cases c)
  case (GvDelegate a b)
  with assms have "delegate_voting_power T w env a b s = Inr s'" by simp
  with assms(1) show ?thesis
  proof (rule delegate_cases)
    fix p
    assume "a \<noteq> b" and s': "s' = s\<lparr>gv_delegation := (gv_delegation s)(a \<mapsto> b),
       gv_delegation_amount := (gv_delegation_amount s)(a \<mapsto> get_direct_voting_power T w s a), gv_delegated_power := p\<rparr>"
      and p: "\<And>d. unwrap_or (p d) 0 = map_sum (given_to d) ((delegations s)(a \<mapsto> (b, get_direct_voting_power T w s a)))"
    have "delegations s' = (delegations s)(a \<mapsto> (b, get_direct_voting_power T w s a))"
      by (auto simp: s' delegations_def fun_eq_iff cong: option.case_cong)
    with p assms(1) \<open>a \<noteq> b\<close> show ?thesis by (simp add: gates_ok_def s')
  qed
next
  case (GvRevoke a)
  with assms have "revoke_delegation T w env a s = Inr s'" by simp
  with assms(1) show ?thesis
  proof (rule revoke_delegation_cases)
    fix p
    assume s': "s' = s\<lparr>gv_delegation := (gv_delegation s)(a := None),
       gv_delegation_amount := (gv_delegation_amount s)(a := None), gv_delegated_power := p\<rparr>"
      and p: "\<And>d. unwrap_or (p d) 0 = map_sum (given_to d) ((delegations s)(a := None))"
    have "delegations s' = (delegations s)(a := None)" by (auto simp: s' delegations_def fun_eq_iff cong: option.case_cong)
    with p assms(1) show ?thesis by (auto simp: gates_ok_def s')
  qed
next
  case (GvThreshold n)
  with assms obtain esc where "gv_token s \<noteq> None" "0 \<le> n" "get_role_escalation_config (s\<lparr>gv_threshold := Some n\<rparr>) = Some esc"
    and s': "s' = (if ec_threshold esc < n then s\<lparr>gv_threshold := Some n, gv_esc_threshold := Some n\<rparr> else s\<lparr>gv_threshold := Some n\<rparr>)"
    by (auto simp: set_governance_threshold_def require_governance_initialized_def Let_def)
  moreover obtain e where "gv_esc_threshold s = Some e" using assms(1) calculation(1) by (auto simp: gates_ok_def)
  ultimately show ?thesis
    by (intro gates_ok_frame [OF assms(1)])
      (auto simp: get_role_escalation_config_def get_governance_config_def split: if_splits)
next
  case (GvInit t n e)
  with assms(2) show ?thesis by (intro gates_ok_frame [OF assms(1)]) (auto simp: initialize_governance_def)
next
  case (GvEscalation n)
  with assms show ?thesis
    by (intro gates_ok_frame [OF assms(1)])
      (auto simp: set_role_escalation_threshold_def get_base_governance_threshold_def gates_ok_def)
next
  case (GvEnabled e)
  with assms(2) show ?thesis by (intro same) (auto simp: set_governance_enabled_def)
next
  case (GvUseDelegated e)
  with assms(2) show ?thesis by (intro same) (auto simp: set_role_escalation_use_delegated_power_def)
next
  case (GvPause k p)
  with assms(2) show ?thesis by (intro same) (auto simp: set_emergency_pause_def)
next
  case (GvOverride k p)
  with assms(2) show ?thesis by (intro same) (auto simp: set_emergency_override_admin_def)
next
  case (GvRole k t)
  with assms(2) show ?thesis by (intro same) (auto simp: record_role_assignment_def)
next
  case (GvPending k t)
  with assms(2) show ?thesis by (intro same) (auto simp: set_pending_admin_def)
next
  case GvClear
  with assms(2) show ?thesis by (intro same) (auto simp: clear_pending_admin_def)
  qed
qed

interpretation gates: invariant_machine "\<lambda>s. s = governance_empty" "gate_step T" gates_ok for T
proof
  show "gates_ok s" if "s = governance_empty" for s
    using that by (simp add: gates_ok_def governance_empty_def delegations_def map_sum_def)
  show "gates_ok s'" if "gates_ok s" "gate_step T e s = Inr s'" for e s s'
    using that by (cases e rule: prod.exhaust, cases "fst e") (auto intro: gates_ok_step)
qed

section \<open>Properties\<close>

text \<open>
  Delegated power is backed by delegations. In every reachable state, whatever balances changed in
  between, the power recorded for a delegate is exactly the sum of the amounts of the delegations made to
  it and still standing, nobody delegates to itself, and the threshold for handing out roles is never
  below the ordinary one. So taking a delegation back can never underflow.
\<close>

theorem delegations_balanced:
  assumes "reachable (\<lambda>s. s = governance_empty) (gate_step T) s"
  shows "(\<forall>d. unwrap_or (gv_delegated_power s d) 0 =
       (\<Sum>a\<in>{a. gv_delegation s a = Some d}. the (gv_delegation_amount s a))) \<and>
    (\<forall>a. gv_delegation s a \<noteq> Some a) \<and>
    (gv_token s \<noteq> None \<longrightarrow> (\<exists>base esc. gv_threshold s = Some base \<and> gv_esc_threshold s = Some esc \<and> 0 \<le> base \<and> base \<le> esc))"
proof -
  have ok: "gates_ok s" using assms by (rule gates.reachable_inv)
  have "unwrap_or (gv_delegated_power s d) 0 = (\<Sum>a\<in>{a. gv_delegation s a = Some d}. the (gv_delegation_amount s a))" for d
  proof -
    have "map_sum (given_to d) (delegations s) = (\<Sum>a\<in>dom (gv_delegation s). if gv_delegation s a = Some d then the (gv_delegation_amount s a) else 0)"
      unfolding map_sum_def dom_delegations
    proof (rule sum.cong [OF refl])
      fix a assume "a \<in> dom (gv_delegation s)"
      then obtain e where e: "gv_delegation s a = Some e" by blast
      from gates_okD(2) [OF ok this] obtain n where "gv_delegation_amount s a = Some n" "delegations s a = Some (e, n)" by blast
      with e show "given_to d (the (delegations s a)) = (if gv_delegation s a = Some d then the (gv_delegation_amount s a) else 0)"
        by (simp add: given_to_def)
    qed
    also have "\<dots> = (\<Sum>a\<in>{a. gv_delegation s a = Some d}. the (gv_delegation_amount s a))"
      using gates_okD(1) [OF ok] by (intro sum.mono_neutral_cong_right) auto
    finally show ?thesis using gates_okD(3) [OF ok] by simp
  qed
  with ok show ?thesis by (simp add: gates_ok_def)
qed

text \<open>
  The gate for roles is closed by default. In every reachable state an account passes it only with its
  own authorization, with governance switched on, outside an emergency pause unless it is the override
  administrator, and with a voting power at the role threshold, which is at least the ordinary threshold;
  unless delegated power was allowed explicitly, that power is the account's own token balance.
\<close>

theorem role_gate_closed:
  assumes "reachable (\<lambda>s. s = governance_empty) (gate_step T) s"
    and "require_role_escalation_threshold T w env s a = Inr ()"
  shows "authorized env a \<and> gv_enabled s = Some True \<and> (gv_paused s = Some True \<longrightarrow> gv_override s = Some a) \<and>
    (\<exists>t base esc. gv_token s = Some t \<and> gv_threshold s = Some base \<and> gv_esc_threshold s = Some esc \<and> base \<le> esc \<and>
       (if gv_esc_delegated s = Some True then \<exists>p. get_voting_power T w s a = Inr p \<and> esc \<le> p
        else esc \<le> tok_balance T t a w))"
proof -
  obtain g e where g: "get_governance_config s = Some g" "gc_enabled g" "check_emergency s a = Inr ()"
    and e: "get_role_escalation_config s = Some e" and p: "\<exists>p. get_role_escalation_power T w s a = Inr p \<and> ec_threshold e \<le> p"
    and a: "authorized env a"
    using assms(2) by (auto simp: require_role_escalation_threshold_def)
  from g(1) obtain t base where t: "gv_token s = Some t" "gv_threshold s = Some base"
    and gg: "g = \<lparr>gc_token = t, gc_threshold = base, gc_enabled = unwrap_or (gv_enabled s) False\<rparr>"
    by (auto simp: get_governance_config_def split: option.splits)
  have "gates_ok s" using assms(1) by (rule gates.reachable_inv)
  with t obtain esc where esc: "gv_esc_threshold s = Some esc" "base \<le> esc" by (auto simp: gates_ok_def)
  have en: "gv_enabled s = Some True" using g(2) gg by (cases "gv_enabled s") auto
  have pause: "gv_paused s = Some True \<longrightarrow> gv_override s = Some a"
    using g(1,3) by (auto simp: check_emergency_def get_emergency_config_def split: if_splits)
  have ee: "e = \<lparr>ec_threshold = esc, ec_allow_delegated_power = unwrap_or (gv_esc_delegated s) False\<rparr>"
    using e g(1) esc by (auto simp: get_role_escalation_config_def)
  have "if gv_esc_delegated s = Some True then \<exists>p. get_voting_power T w s a = Inr p \<and> esc \<le> p else esc \<le> tok_balance T t a w"
    using p e g(1) gg
    by (cases "gv_esc_delegated s") (auto simp: get_role_escalation_power_def ee get_direct_voting_power_def split: if_splits)
  with a en pause t esc show ?thesis by blast
qed

text \<open>
  The emergency pause can be lifted by anybody. Once governance is initialized, any account that
  authorizes the call takes the pause off: the voting power is asked for only when the pause is set.
\<close>

theorem anyone_unpauses:
  assumes "gv_token s \<noteq> None" and "authorized env a"
  shows "set_emergency_pause T w env a False s = Inr (s\<lparr>gv_paused := Some False\<rparr>) \<and>
    \<not> is_emergency_paused (s\<lparr>gv_paused := Some False\<rparr>)"
  using assms
  by (auto simp: set_emergency_pause_def require_governance_initialized_def is_emergency_paused_def
      get_emergency_config_def split: option.splits)

text \<open>
  Tokens that moved count twice. A delegation records the balance of the moment and stays when the
  tokens leave. When an account delegates, sends the tokens on to another account and that one delegates
  as well, to the same delegate, the delegate has gained twice the voting power of the tokens.
\<close>

theorem moved_tokens_count_twice:
  assumes "sep41 T" and "reachable (\<lambda>s. s = governance_empty) (gate_step T) s"
    and "gv_delegation s a = None" and "gv_delegation s b = None" and "a \<noteq> b" and "gv_token s = Some t"
    and "tok_balance T t b w = 0" and "n = tok_balance T t a w"
    and "delegate_voting_power T w env a d s = Inr s1" and "tok_transfer T t a b n w = Some w1"
    and "delegate_voting_power T w1 env1 b d s1 = Inr s2"
  shows "unwrap_or (gv_delegated_power s2 d) 0 = unwrap_or (gv_delegated_power s d) 0 + 2 * n \<and> tok_balance T t a w1 = 0"
proof -
  have ok: "gates_ok s" using assms(2) by (rule gates.reachable_inv)
  have direct: "get_direct_voting_power T v u x = tok_balance T t x v" if "get_governance_config u \<noteq> None" "gv_token u = Some t" for v u x
    using that by (auto simp: get_direct_voting_power_def get_governance_config_def split: option.splits)
  from ok assms(9) obtain p where g: "get_governance_config s \<noteq> None" "a \<noteq> d" and s1: "s1 = s\<lparr>gv_delegation := (gv_delegation s)(a \<mapsto> d),
      gv_delegation_amount := (gv_delegation_amount s)(a \<mapsto> get_direct_voting_power T w s a), gv_delegated_power := p\<rparr>"
    and p: "\<And>d'. unwrap_or (p d') 0 = map_sum (given_to d') ((delegations s)(a \<mapsto> (d, get_direct_voting_power T w s a)))"
    by (elim delegate_cases) auto
  have n: "get_direct_voting_power T w s a = n" using direct [OF g(1) assms(6)] assms(8) by simp
  have ok1: "gates_ok s1" using gates_ok_step [OF ok, of T env w "GvDelegate a d" s1] assms(9) by simp
  have power: "unwrap_or (gv_delegated_power u d) 0 + m = map_sum (given_to d) ((delegations u)(x \<mapsto> (d, m)))"
    if "gates_ok u" "gv_delegation u x = None" for u x m
  proof -
    have "delegations u x = None" using that(2) by (simp add: delegations_def)
    then show ?thesis using gates_okD(1,3) [OF that(1)] by (simp add: map_sum_upd amount_at_def given_to_def)
  qed
  from ok1 assms(11) obtain q where g1: "get_governance_config s1 \<noteq> None" and s2: "gv_delegated_power s2 = q"
    and q: "\<And>d'. unwrap_or (q d') 0 = map_sum (given_to d') ((delegations s1)(b \<mapsto> (d, get_direct_voting_power T w1 s1 b)))"
    by (elim delegate_cases) auto
  have t1: "gv_token s1 = Some t" "gv_delegation s1 b = None" using s1 assms(4,5,6) by simp_all
  have w1: "tok_balance T t b w1 = n" "tok_balance T t a w1 = 0"
    using sep41_transfer(3) [OF assms(1,10), of a] sep41_transfer(3) [OF assms(1,10), of b] assms(5,7,8)
    by (simp_all add: moved_def)
  have "unwrap_or (gv_delegated_power s1 d) 0 = unwrap_or (gv_delegated_power s d) 0 + n"
    using power [OF ok assms(3), of n] p [of d] n s1 by simp
  moreover have "unwrap_or (gv_delegated_power s2 d) 0 = unwrap_or (gv_delegated_power s1 d) 0 + n"
    using power [OF ok1 t1(2), of n] q [of d] direct [OF g1 t1(1)] w1 s2 by simp
  ultimately show ?thesis using w1(2) by simp
qed

section \<open>A concrete history\<close>

text \<open>Alice delegates 100 to Dora, passes her tokens to Bob, and Bob delegates them to Dora again.\<close>

definition gates_start :: governance_state where
  "gates_start = governance_empty\<lparr>gv_token := Some ''GOV'', gv_threshold := Some 50, gv_enabled := Some True,
     gv_esc_threshold := Some 50, gv_esc_delegated := Some False, gv_paused := Some False\<rparr>"

definition hundred :: "address \<Rightarrow> ref_ledger" where "hundred v = (\<lambda>t a. if a = v then 100 else 0)"

lemma gates_start_reachable: "reachable (\<lambda>s. s = governance_empty) (gate_step T) gates_start"
proof -
  have "gate_step T ((env_at 0 0, undefined), GvInit ''GOV'' 50 True) governance_empty = Inr gates_start"
    by (simp add: initialize_governance_def governance_empty_def gates_start_def)
  then show ?thesis by (rule reachable_call [OF reachable_start [of _ governance_empty], rotated]) simp
qed

definition gates_one :: governance_state where
  "gates_one = gates_start\<lparr>gv_delegation := [''ALICE'' \<mapsto> ''DORA''], gv_delegation_amount := [''ALICE'' \<mapsto> 100],
     gv_delegated_power := [''DORA'' \<mapsto> 100]\<rparr>"

lemmas gates_defs = delegate_voting_power_def take_back_def get_direct_voting_power_def get_governance_config_def
  gates_start_def governance_empty_def in_i128_def i128_min_def i128_max_def ref_token_def hundred_def

lemma gates_delegates:
  "delegate_voting_power ref_token (hundred ''ALICE'') (env_at 1 1) ''ALICE'' ''DORA'' gates_start = Inr gates_one"
  by (simp add: gates_defs gates_one_def)

lemma delegations_balanced_witness:
  "unwrap_or (gv_delegated_power gates_one ''DORA'') 0 = (\<Sum>a\<in>{a. gv_delegation gates_one a = Some ''DORA''}. the (gv_delegation_amount gates_one a)) \<and>
     unwrap_or (gv_delegated_power gates_one ''DORA'') 0 = 100"
proof -
  have "gate_step ref_token ((env_at 1 1, hundred ''ALICE''), GvDelegate ''ALICE'' ''DORA'') gates_start = Inr gates_one"
    using gates_delegates by simp
  from delegations_balanced [OF reachable_call [OF gates_start_reachable, OF this]] show ?thesis
    by (simp add: gates_one_def)
qed

lemma role_gate_closed_witness:
  "(\<exists>t base esc. gv_token gates_start = Some t \<and> gv_threshold gates_start = Some base \<and> gv_esc_threshold gates_start = Some esc \<and>
     base \<le> esc \<and> esc \<le> tok_balance ref_token t ''ALICE'' (hundred ''ALICE''))"
proof -
  have "require_role_escalation_threshold ref_token (hundred ''ALICE'') (env_at 1 1) gates_start ''ALICE'' = Inr ()"
    by (simp add: require_role_escalation_threshold_def check_emergency_def get_emergency_config_def
        get_role_escalation_config_def get_role_escalation_power_def gates_defs)
  from role_gate_closed [OF gates_start_reachable this] show ?thesis
    by (auto simp: gates_start_def)
qed

lemma anyone_unpauses_witness:
  "set_emergency_pause ref_token (hundred ''ALICE'') (env_at 1 1) ''EVE'' False (gates_start\<lparr>gv_paused := Some True\<rparr>) = Inr gates_start"
proof -
  have "set_emergency_pause ref_token (hundred ''ALICE'') (env_at 1 1) ''EVE'' False (gates_start\<lparr>gv_paused := Some True\<rparr>) =
      Inr (gates_start\<lparr>gv_paused := Some True, gv_paused := Some False\<rparr>)"
    by (rule anyone_unpauses [THEN conjunct1]) (simp_all add: gates_start_def)
  then show ?thesis by (simp add: gates_start_def)
qed

lemma moved_tokens_count_twice_witness:
  "\<exists>s2 w1. tok_transfer ref_token ''GOV'' ''ALICE'' ''BOB'' 100 (hundred ''ALICE'') = Some w1 \<and>
     delegate_voting_power ref_token w1 (env_at 2 2) ''BOB'' ''DORA'' gates_one = Inr s2 \<and>
     unwrap_or (gv_delegated_power s2 ''DORA'') 0 = 200"
proof -
  obtain w1 where w1: "tok_transfer ref_token ''GOV'' ''ALICE'' ''BOB'' 100 (hundred ''ALICE'') = Some w1"
    and b: "tok_balance ref_token ''GOV'' ''BOB'' w1 = 100"
    by (simp add: ref_token_def hundred_def moved_def)
  have "get_governance_config gates_one = Some \<lparr>gc_token = ''GOV'', gc_threshold = 50, gc_enabled = True\<rparr>"
    by (simp add: gates_one_def gates_start_def governance_empty_def get_governance_config_def)
  then obtain s2 where s2: "delegate_voting_power ref_token w1 (env_at 2 2) ''BOB'' ''DORA'' gates_one = Inr s2"
    using b by (simp add: delegate_voting_power_def take_back_def get_direct_voting_power_def gates_one_def
        gates_start_def governance_empty_def in_i128_def i128_min_def i128_max_def)
  have "unwrap_or (gv_delegated_power s2 ''DORA'') 0 = unwrap_or (gv_delegated_power gates_start ''DORA'') 0 + 2 * 100 \<and>
      tok_balance ref_token ''GOV'' ''ALICE'' w1 = 0"
    by (rule moved_tokens_count_twice [OF ref_token_sep41 gates_start_reachable _ _ _ _ _ _ gates_delegates w1 s2])
      (simp_all add: gates_start_def governance_empty_def ref_token_def hundred_def)
  with w1 s2 show ?thesis by (simp add: gates_start_def governance_empty_def)
qed

end
