(* ===== verification/Attestation_Client.thy ===== *)
theory Attestation_Client
  imports Merkle
begin

text \<open>
  How the revenue and lender contracts see an attestation contract: \<open>AttestationContractClient\<close>. The
  contract at an address is a parameter; \<open>'w\<close> is the ledger with everything on it. An attestation is the
  tuple \<open>AttestationData\<close> of the interface: root, timestamp, version, fee, proof hash and expiry.
\<close>

type_synonym att_tuple = "bytesn \<times> nat \<times> nat \<times> int \<times> bytesn option \<times> nat option"

record 'w att_client =
  ac_get_attestation :: "address \<Rightarrow> address \<Rightarrow> sstring \<Rightarrow> 'w \<Rightarrow> (att_tuple option \<times> 'w) res"
  ac_is_revoked :: "address \<Rightarrow> address \<Rightarrow> sstring \<Rightarrow> 'w \<Rightarrow> (bool \<times> 'w) res"
  ac_get_revocation_info :: "address \<Rightarrow> address \<Rightarrow> sstring \<Rightarrow> 'w \<Rightarrow> ((address \<times> nat \<times> sstring) option \<times> 'w) res"
  ac_is_expired :: "address \<Rightarrow> address \<Rightarrow> sstring \<Rightarrow> 'w \<Rightarrow> (bool \<times> 'w) res"

text \<open>Asking for an attestation moves no tokens.\<close>

definition quiet_client :: "'w token_ops \<Rightarrow> 'w att_client \<Rightarrow> bool" where
  "quiet_client T C \<longleftrightarrow>
     (\<forall>c b p w r w'. ac_get_attestation C c b p w = Inr (r, w') \<longrightarrow> (\<forall>t a. tok_balance T t a w' = tok_balance T t a w)) \<and>
     (\<forall>c b p w r w'. ac_get_revocation_info C c b p w = Inr (r, w') \<longrightarrow> (\<forall>t a. tok_balance T t a w' = tok_balance T t a w)) \<and>
     (\<forall>c b p w r w'. ac_is_revoked C c b p w = Inr (r, w') \<or> ac_is_expired C c b p w = Inr (r, w') \<longrightarrow>
        (\<forall>t a. tok_balance T t a w' = tok_balance T t a w))"

lemma quiet_clientD:
  assumes "quiet_client T C"
  shows "ac_get_attestation C c b p w = Inr (r, w') \<Longrightarrow> tok_balance T t a w' = tok_balance T t a w"
    and "ac_get_revocation_info C c b p w = Inr (i, w') \<Longrightarrow> tok_balance T t a w' = tok_balance T t a w"
    and "ac_is_revoked C c b p w = Inr (q, w') \<Longrightarrow> tok_balance T t a w' = tok_balance T t a w"
    and "ac_is_expired C c b p w = Inr (q, w') \<Longrightarrow> tok_balance T t a w' = tok_balance T t a w"
  using assms unfolding quiet_client_def by blast+

lemma no_triple [simp]: "(\<forall>x y z. m \<noteq> Some (x, y, z)) \<longleftrightarrow> m = None"
  by (cases m) auto

text \<open>A client for the concrete runs: every attestation exists, with the data given, and is in force.\<close>

definition client_of :: "att_tuple \<Rightarrow> 'w att_client" where
  "client_of d = \<lparr>ac_get_attestation = (\<lambda>c b p w. Inr (Some d, w)),
     ac_is_revoked = (\<lambda>c b p w. Inr (False, w)), ac_get_revocation_info = (\<lambda>c b p w. Inr (None, w)),
     ac_is_expired = (\<lambda>c b p w. Inr (False, w))\<rparr>"

lemma client_of_simps [simp]:
  "ac_get_attestation (client_of d) c b p w = Inr (Some d, w)"
  "ac_is_revoked (client_of d) c b p w = Inr (False, w)"
  "ac_get_revocation_info (client_of d) c b p w = Inr (None, w)"
  "ac_is_expired (client_of d) c b p w = Inr (False, w)"
  "quiet_client T (client_of d)"
  by (simp_all add: client_of_def quiet_client_def)

text \<open>\<open>i128::to_be_bytes\<close>: sixteen bytes, most significant first, in two's complement. The contracts hash them.\<close>

definition i128_be_bytes :: "int \<Rightarrow> byte list" where
  "i128_be_bytes x = map (\<lambda>k. of_int (x div 256 ^ (15 - k))) [0..<16]"

end
