(* ===== verification/Revenue_Bonds.thy ===== *)
theory Revenue_Bonds
  imports Attestation_Client
begin

text \<open>
  \<open>contracts/revenue-bonds/src/lib.rs\<close>: bonds that an issuer redeems month by month, by a fixed amount or
  one that follows the revenue, up to their face value.

  The token and the attestation contract are parameters; the revenue is the fourth component of the
  attestation, as the source reads it (\<open>attestation.3\<close>).
\<close>

section \<open>State\<close>

datatype bond_structure = Fixed | RevenueLinked | Hybrid

datatype bond_status = BondActive | FullyRedeemed | Defaulted | Matured

record bond_rec =
  bo_id :: nat
  bo_issuer :: address
  bo_face_value :: int
  bo_structure :: bond_structure
  bo_revenue_share_bps :: nat
  bo_min_payment :: int
  bo_max_payment :: int
  bo_maturity_periods :: nat
  bo_attestation_contract :: address
  bo_token :: address
  bo_status :: bond_status
  bo_issued_at :: nat
  bo_grace_period_seconds :: nat
  bo_issue_period :: sstring

record bond_terms =
  bt_face_value :: int
  bt_structure :: bond_structure
  bt_revenue_share_bps :: nat
  bt_min_payment :: int
  bt_max_payment :: int
  bt_maturity_periods :: nat
  bt_grace_period_seconds :: nat
  bt_issue_period :: sstring

record redemption_record =
  rr_bond_id :: nat
  rr_period :: sstring
  rr_attested_revenue :: int
  rr_redemption_amount :: int
  rr_redeemed_at :: nat

record bond_state =
  bs_admin :: "address option"
  bs_next_bond_id :: "nat option"
  bs_bonds :: "nat \<rightharpoonup> bond_rec"
  bs_owner :: "nat \<rightharpoonup> address"
  bs_redemptions :: "nat \<times> sstring \<rightharpoonup> redemption_record"
  bs_total_redeemed :: "nat \<rightharpoonup> int"

definition bond_empty :: bond_state where
  "bond_empty = \<lparr>bs_admin = None, bs_next_bond_id = None, bs_bonds = Map.empty, bs_owner = Map.empty,
     bs_redemptions = Map.empty, bs_total_redeemed = Map.empty\<rparr>"

section \<open>Periods\<close>

text \<open>\<open>bytes[i] as u64 - b'0' as u64\<close>, which overflows below the digit zero.\<close>

definition digit_of :: "char \<Rightarrow> nat res" where
  "digit_of c = (if of_char c < (48 :: nat) then Inl Overflow else Inr (of_char c - 48))"

fun parse_digits :: "string \<Rightarrow> nat \<Rightarrow> string \<Rightarrow> nat res" where
  "parse_digits msg acc [] = Inr acc"
| "parse_digits msg acc (c # cs) =
     bindr (digit_of c) (\<lambda>d.
     bindr (assertr (d \<le> 9) msg) (\<lambda>_.
     parse_digits msg (acc * 10 + d) cs))"

definition parse_period :: "sstring \<Rightarrow> nat res" where
  "parse_period period =
     bindr (assertr (length period = 7) ''invalid period length'') (\<lambda>_.
     bindr (assertr (period ! 4 = CHR ''-'') ''invalid period separator'') (\<lambda>_.
     bindr (parse_digits ''invalid year digit'' 0 (take 4 period)) (\<lambda>year.
     bindr (parse_digits ''invalid month digit'' 0 (drop 5 period)) (\<lambda>month.
     bindr (assertr (1 \<le> month \<and> month \<le> 12) ''invalid month'') (\<lambda>_.
     Inr (year * 12 + month - 1))))))"

definition is_leap_year :: "nat \<Rightarrow> bool" where
  "is_leap_year year \<longleftrightarrow> (year mod 4 = 0 \<and> year mod 100 \<noteq> 0) \<or> year mod 400 = 0"

definition days_in_month :: "nat \<Rightarrow> nat \<Rightarrow> nat res" where
  "days_in_month year month =
     (if month \<in> {1, 3, 5, 7, 8, 10, 12} then Inr 31
      else if month \<in> {4, 6, 9, 11} then Inr 30
      else if month = 2 then Inr (if is_leap_year year then 29 else 28)
      else Inl (Panic ''invalid month''))"

fun raw_digits :: "nat \<Rightarrow> string \<Rightarrow> nat res" where
  "raw_digits acc [] = Inr acc"
| "raw_digits acc (c # cs) = bindr (digit_of c) (\<lambda>d. raw_digits (acc * 10 + d) cs)"

text \<open>The two loops \<open>for y in 1970..end_year\<close> and \<open>for m in 1..end_month\<close>.\<close>

fun year_loop :: "nat list \<Rightarrow> nat \<Rightarrow> nat" where
  "year_loop [] total_days = total_days"
| "year_loop (y # ys) total_days = year_loop ys (total_days + (if is_leap_year y then 366 else 365))"

fun month_loop :: "nat \<Rightarrow> nat list \<Rightarrow> nat \<Rightarrow> nat res" where
  "month_loop end_year [] total_days = Inr total_days"
| "month_loop end_year (m # ms) total_days =
     bindr (days_in_month end_year m) (\<lambda>d. month_loop end_year ms (total_days + d))"

definition get_period_end_timestamp :: "sstring \<Rightarrow> nat res" where
  "get_period_end_timestamp period =
     bindr (assertr (length period = 7) ''invalid period length'') (\<lambda>_.
     bindr (raw_digits 0 (take 4 period)) (\<lambda>year.
     bindr (raw_digits 0 (drop 5 period)) (\<lambda>month.
     (let end_month = (if 12 < month + 1 then 1 else month + 1);
          end_year = (if 12 < month + 1 then year + 1 else year);
          total_days = year_loop [1970..<end_year] 0 in
      bindr (month_loop end_year [1..<end_month] total_days) (\<lambda>total_days1.
      Inr (total_days1 * 86400))))))"

definition is_period_within_maturity :: "bond_rec \<Rightarrow> sstring \<Rightarrow> bool res" where
  "is_period_within_maturity bond period =
     bindr (parse_period (bo_issue_period bond)) (\<lambda>issue_months.
     bindr (parse_period period) (\<lambda>period_months.
     Inr (issue_months \<le> period_months \<and> period_months < issue_months + bo_maturity_periods bond)))"

section \<open>The payment of a period\<close>

text \<open>\<open>attested_revenue as u128\<close> is the revenue itself: the caller has checked that it is not negative.\<close>

definition revenue_share :: "int \<Rightarrow> nat \<Rightarrow> int" where
  "revenue_share attested_revenue bps = u128_sat (attested_revenue * int bps) div 10000"

definition calculate_redemption :: "bond_rec \<Rightarrow> int \<Rightarrow> int res" where
  "calculate_redemption bond attested_revenue =
     (case bo_structure bond of
        Fixed \<Rightarrow> Inr (bo_min_payment bond)
      | RevenueLinked \<Rightarrow>
          Inr (min (max (revenue_share attested_revenue (bo_revenue_share_bps bond)) (bo_min_payment bond)) (bo_max_payment bond))
      | Hybrid \<Rightarrow>
          bindr (i128_chk (bo_min_payment bond + revenue_share attested_revenue (bo_revenue_share_bps bond))) (\<lambda>x.
          Inr (min x (bo_max_payment bond))))"

section \<open>Entry points\<close>

definition bond_initialize :: "ledger_env \<Rightarrow> address \<Rightarrow> bond_state \<Rightarrow> bond_state res" where
  "bond_initialize env admin s =
     bindr (require_auth env admin) (\<lambda>_.
     bindr (assertr (bs_admin s = None) ''already initialized'') (\<lambda>_.
     Inr (s\<lparr>bs_admin := Some admin, bs_next_bond_id := Some 0\<rparr>)))"

definition issue_bond ::
  "ledger_env \<Rightarrow> address \<Rightarrow> address \<Rightarrow> bond_terms \<Rightarrow> address \<Rightarrow> address \<Rightarrow> bond_state \<Rightarrow> (nat \<times> bond_state) res" where
  "issue_bond env issuer initial_owner terms attestation_contract token s =
     bindr (require_auth env issuer) (\<lambda>_.
     bindr (assertr (0 < bt_face_value terms) ''face_value must be positive'') (\<lambda>_.
     bindr (assertr (bt_revenue_share_bps terms \<le> 10000) ''revenue_share_bps must be <= 10000'') (\<lambda>_.
     bindr (assertr (0 \<le> bt_min_payment terms) ''min_payment_per_period must be non-negative'') (\<lambda>_.
     bindr (assertr (0 < bt_max_payment terms) ''max_payment_per_period must be positive'') (\<lambda>_.
     bindr (assertr (bt_min_payment terms \<le> bt_max_payment terms) ''max must be >= min'') (\<lambda>_.
     bindr (assertr (0 < bt_maturity_periods terms) ''maturity_periods must be positive'') (\<lambda>_.
     bindr (assertr (issuer \<noteq> initial_owner) ''issuer and owner must differ'') (\<lambda>_.
     (let i = unwrap_or (bs_next_bond_id s) 0;
          bond = \<lparr>bo_id = i, bo_issuer = issuer, bo_face_value = bt_face_value terms, bo_structure = bt_structure terms,
            bo_revenue_share_bps = bt_revenue_share_bps terms, bo_min_payment = bt_min_payment terms,
            bo_max_payment = bt_max_payment terms, bo_maturity_periods = bt_maturity_periods terms,
            bo_attestation_contract = attestation_contract, bo_token = token, bo_status = BondActive,
            bo_issued_at = timestamp env, bo_grace_period_seconds = bt_grace_period_seconds terms,
            bo_issue_period = bt_issue_period terms\<rparr> in
      bindr (u64_chk (i + 1)) (\<lambda>next_id.
      Inr (i, s\<lparr>bs_bonds := (bs_bonds s)(i \<mapsto> bond), bs_owner := (bs_owner s)(i \<mapsto> initial_owner),
                bs_total_redeemed := (bs_total_redeemed s)(i \<mapsto> 0), bs_next_bond_id := Some next_id\<rparr>)))))))))))"

definition redeem ::
  "'w token_ops \<Rightarrow> 'w att_client \<Rightarrow> ledger_env \<Rightarrow> nat \<Rightarrow> sstring \<Rightarrow> bond_state \<times> 'w \<Rightarrow> (bond_state \<times> 'w) res" where
  "redeem T C env bond_id period sw =
     (let (s, w) = sw in
      bindr (expectr (bs_bonds s bond_id) ''bond not found'') (\<lambda>bond.
      bindr (require_auth env (bo_issuer bond)) (\<lambda>_.
      bindr (assertr (bo_status bond = BondActive) ''bond not active'') (\<lambda>_.
      bindr (is_period_within_maturity bond period) (\<lambda>within.
      bindr (assertr within ''period exceeds maturity'') (\<lambda>_.
      bindr (assertr (bs_redemptions s (bond_id, period) = None) ''already redeemed for period'') (\<lambda>_.
      bindr (ac_get_revocation_info C (bo_attestation_contract bond) (bo_issuer bond) period w) (\<lambda>(revocation, w1).
      bindr (assertr (revocation = None) ''attestation is revoked'') (\<lambda>_.
      bindr (ac_get_attestation C (bo_attestation_contract bond) (bo_issuer bond) period w1) (\<lambda>(found, w2).
      bindr (expectr found ''attestation not found'') (\<lambda>(_, _, _, attested_revenue, _, _).
      bindr (assertr (0 \<le> attested_revenue) ''attested_revenue must be non-negative'') (\<lambda>_.
      bindr (calculate_redemption bond attested_revenue) (\<lambda>redemption_amount.
      (let total_redeemed = unwrap_or (bs_total_redeemed s bond_id) 0 in
       bindr (i128_chk (bo_face_value bond - total_redeemed)) (\<lambda>remaining.
       bindr (assertr (0 < remaining) ''bond already fully redeemed'') (\<lambda>_.
       (let actual_redemption = min redemption_amount remaining in
        bindr (assertr (actual_redemption \<le> bo_max_payment bond) ''redemption exceeds per-period cap'') (\<lambda>_.
        bindr (if 0 < actual_redemption
               then bindr (expectr (bs_owner s bond_id) ''owner not found'') (\<lambda>owner.
                    transferr T (bo_token bond) (bo_issuer bond) owner actual_redemption w2)
               else Inr w2) (\<lambda>w3.
        bindr (i128_chk (total_redeemed + actual_redemption)) (\<lambda>new_total.
        Inr (s\<lparr>bs_redemptions := (bs_redemptions s)((bond_id, period) \<mapsto>
                 \<lparr>rr_bond_id = bond_id, rr_period = period, rr_attested_revenue = attested_revenue,
                  rr_redemption_amount = actual_redemption, rr_redeemed_at = timestamp env\<rparr>),
               bs_total_redeemed := (bs_total_redeemed s)(bond_id \<mapsto> new_total),
               bs_bonds := (if bo_face_value bond \<le> new_total
                            then (bs_bonds s)(bond_id \<mapsto> bond\<lparr>bo_status := FullyRedeemed\<rparr>)
                            else bs_bonds s)\<rparr>, w3)))))))))))))))))))))"

definition transfer_ownership :: "ledger_env \<Rightarrow> nat \<Rightarrow> address \<Rightarrow> address \<Rightarrow> bond_state \<Rightarrow> bond_state res" where
  "transfer_ownership env bond_id current_owner new_owner s =
     bindr (require_auth env current_owner) (\<lambda>_.
     bindr (expectr (bs_owner s bond_id) ''bond not found'') (\<lambda>stored_owner.
     bindr (assertr (current_owner = stored_owner) ''not bond owner'') (\<lambda>_.
     bindr (assertr (current_owner \<noteq> new_owner) ''cannot transfer to self'') (\<lambda>_.
     bindr (expectr (bs_bonds s bond_id) ''bond not found'') (\<lambda>bond.
     bindr (assertr (bo_status bond = BondActive) ''bond not active'') (\<lambda>_.
     bindr (assertr (bo_issuer bond \<noteq> new_owner) ''cannot transfer to issuer'') (\<lambda>_.
     bindr (assertr (self_addr env \<noteq> new_owner) ''cannot transfer to contract itself'') (\<lambda>_.
     Inr (s\<lparr>bs_owner := (bs_owner s)(bond_id \<mapsto> new_owner)\<rparr>)))))))))"

text \<open>\<open>mark_defaulted\<close> and \<open>mark_matured\<close> differ in the status they set.\<close>

definition mark_bond :: "bond_status \<Rightarrow> ledger_env \<Rightarrow> address \<Rightarrow> nat \<Rightarrow> bond_state \<Rightarrow> bond_state res" where
  "mark_bond status env admin bond_id s =
     bindr (require_auth env admin) (\<lambda>_.
     bindr (expectr (bs_admin s) ''not initialized'') (\<lambda>stored_admin.
     bindr (assertr (admin = stored_admin) ''unauthorized'') (\<lambda>_.
     bindr (expectr (bs_bonds s bond_id) ''bond not found'') (\<lambda>bond.
     bindr (assertr (bo_status bond = BondActive) ''bond not active'') (\<lambda>_.
     Inr (s\<lparr>bs_bonds := (bs_bonds s)(bond_id \<mapsto> bond\<lparr>bo_status := status\<rparr>)\<rparr>))))))"

definition bond_mark_defaulted :: "ledger_env \<Rightarrow> address \<Rightarrow> nat \<Rightarrow> bond_state \<Rightarrow> bond_state res" where
  "bond_mark_defaulted = mark_bond Defaulted"

definition bond_mark_matured :: "ledger_env \<Rightarrow> address \<Rightarrow> nat \<Rightarrow> bond_state \<Rightarrow> bond_state res" where
  "bond_mark_matured = mark_bond Matured"

definition get_bond :: "bond_state \<Rightarrow> nat \<Rightarrow> bond_rec option" where
  "get_bond s bond_id = bs_bonds s bond_id"

definition get_owner :: "bond_state \<Rightarrow> nat \<Rightarrow> address option" where
  "get_owner s bond_id = bs_owner s bond_id"

definition get_redemption :: "bond_state \<Rightarrow> nat \<Rightarrow> sstring \<Rightarrow> redemption_record option" where
  "get_redemption s bond_id period = bs_redemptions s (bond_id, period)"

definition get_total_redeemed :: "bond_state \<Rightarrow> nat \<Rightarrow> int" where
  "get_total_redeemed s bond_id = unwrap_or (bs_total_redeemed s bond_id) 0"

definition get_remaining_value :: "bond_state \<Rightarrow> nat \<Rightarrow> int res" where
  "get_remaining_value s bond_id =
     bindr (expectr (bs_bonds s bond_id) ''bond not found'') (\<lambda>bond.
     if bo_status bond \<noteq> BondActive then Inr 0
     else i128_chk (bo_face_value bond - unwrap_or (bs_total_redeemed s bond_id) 0))"

definition bond_get_admin :: "bond_state \<Rightarrow> address res" where
  "bond_get_admin s = expectr (bs_admin s) ''not initialized''"

section \<open>Periods are months\<close>

text \<open>The reference: month \<open>n\<close>, counted from year zero, as it is written.\<close>

definition digit_char :: "nat \<Rightarrow> char" where "digit_char d = char_of (48 + d)"

definition format_period :: "nat \<Rightarrow> sstring" where
  "format_period n =
     (let y = n div 12; m = n mod 12 + 1 in
      [digit_char (y div 1000), digit_char (y div 100 mod 10), digit_char (y div 10 mod 10), digit_char (y mod 10),
       CHR ''-'', digit_char (m div 10), digit_char (m mod 10)])"

lemma digit_of_char: "d \<le> 9 \<Longrightarrow> digit_of (digit_char d) = Inr d"
  by (simp add: digit_of_def digit_char_def)

lemma digit_of_Inr: "digit_of c = Inr d \<Longrightarrow> c = digit_char d"
proof -
  assume "digit_of c = Inr d"
  then have "48 + d = of_char c" by (auto simp: digit_of_def split: if_splits)
  then show "c = digit_char d" by (simp add: digit_char_def)
qed

lemma length_7: "length p = 7 \<longleftrightarrow> (\<exists>a b c d e f g. p = [a, b, c, d, e, f, g])"
  by (auto simp: eval_nat_numeral length_Suc_conv)

lemma parse_written:
  assumes "a \<le> 9" "b \<le> 9" "c \<le> 9" "d \<le> 9" "f \<le> 9" "g \<le> 9"
  shows "parse_period [digit_char a, digit_char b, digit_char c, digit_char d, CHR ''-'', digit_char f, digit_char g] =
     (if 1 \<le> f * 10 + g \<and> f * 10 + g \<le> 12
      then Inr ((((a * 10 + b) * 10 + c) * 10 + d) * 12 + (f * 10 + g) - 1) else Inl (Panic ''invalid month''))"
  using assms by (simp add: parse_period_def digit_of_char assertr_def)

lemma parse_shape:
  assumes "parse_period p = Inr n"
  obtains a b c d f g where "a \<le> 9" "b \<le> 9" "c \<le> 9" "d \<le> 9" "f \<le> 9" "g \<le> 9"
    "p = [digit_char a, digit_char b, digit_char c, digit_char d, CHR ''-'', digit_char f, digit_char g]"
    "1 \<le> f * 10 + g" "f * 10 + g \<le> 12" "n = (((a * 10 + b) * 10 + c) * 10 + d) * 12 + (f * 10 + g) - 1"
proof -
  from assms have "length p = 7" by (simp add: parse_period_def bindr_Inr)
  then obtain x1 x2 x3 x4 x5 x6 x7 where p: "p = [x1, x2, x3, x4, x5, x6, x7]" unfolding length_7 by blast
  from assms [unfolded p] obtain a b c d f g where
    "digit_of x1 = Inr a" "digit_of x2 = Inr b" "digit_of x3 = Inr c" "digit_of x4 = Inr d"
    "digit_of x6 = Inr f" "digit_of x7 = Inr g" and le: "a \<le> 9" "b \<le> 9" "c \<le> 9" "d \<le> 9" "f \<le> 9" "g \<le> 9"
    and x5: "x5 = CHR ''-''"
    and m: "1 \<le> f * 10 + g" "f * 10 + g \<le> 12" "n = (((a * 10 + b) * 10 + c) * 10 + d) * 12 + (f * 10 + g) - 1"
    by (auto simp: parse_period_def bindr_Inr)
  then have "p = [digit_char a, digit_char b, digit_char c, digit_char d, CHR ''-'', digit_char f, digit_char g]"
    using p by (simp add: digit_of_Inr)
  with le m show ?thesis by (intro that)
qed

lemma split_tens: "d \<le> (9 :: nat) \<Longrightarrow> (x * 10 + d) div 10 = x" "d \<le> 9 \<Longrightarrow> (x * 10 + d) mod 10 = d"
  by auto

lemma div_tens: "n div (100 :: nat) = n div 10 div 10" "n div (1000 :: nat) = n div 10 div 10 div 10"
  by (simp_all add: div_mult2_eq [symmetric])

lemma format_shape:
  assumes "y = ((a * 10 + b) * 10 + c) * 10 + d" "m = f * 10 + g" "a \<le> 9" "b \<le> 9" "c \<le> 9" "d \<le> 9" "f \<le> 9" "g \<le> 9"
    "1 \<le> m" "m \<le> 12"
  shows "format_period (y * 12 + m - 1) =
     [digit_char a, digit_char b, digit_char c, digit_char d, CHR ''-'', digit_char f, digit_char g]"
proof -
  obtain k where k: "m = Suc k" "k < 12" using assms(9,10) by (cases m) auto
  have n: "(y * 12 + m - 1) div 12 = y" "(y * 12 + m - 1) mod 12 + 1 = m" using k(2) by (simp_all add: k(1))
  have y1: "y div 10 = (a * 10 + b) * 10 + c" "y mod 10 = d" unfolding assms(1) by (rule split_tens [OF assms(6)])+
  have y2: "y div 10 div 10 = a * 10 + b" "y div 10 mod 10 = c" unfolding y1 by (rule split_tens [OF assms(5)])+
  have y3: "y div 10 div 10 div 10 = a" "y div 10 div 10 mod 10 = b" unfolding y2 by (rule split_tens [OF assms(4)])+
  note y = y1(2) y2(2) y3
  have m: "m div 10 = f" "m mod 10 = g" unfolding assms(2) by (rule split_tens [OF assms(8)])+
  show ?thesis unfolding format_period_def Let_def n div_tens y m ..
qed

lemma parse_format: "n < 120000 \<Longrightarrow> parse_period (format_period n) = Inr n"
proof -
  assume n: "n < 120000"
  define y m where "y = n div 12" and "m = n mod 12 + 1"
  have ym: "y < 10000" "1 \<le> m" "m \<le> 12" "n = y * 12 + m - 1" using n by (auto simp: y_def m_def)
  define a b c d f g where "a = y div 1000" "b = y div 100 mod 10" "c = y div 10 mod 10" "d = y mod 10"
    "f = m div 10" "g = m mod 10"
  note defs = this
  have le: "a \<le> 9" "b \<le> 9" "c \<le> 9" "d \<le> 9" "f \<le> 9" "g \<le> 9" unfolding defs using ym by auto
  have eq: "y = ((a * 10 + b) * 10 + c) * 10 + d" "m = f * 10 + g" unfolding defs div_tens by simp_all
  from format_shape [OF eq le ym(2,3)] have "format_period n =
     [digit_char a, digit_char b, digit_char c, digit_char d, CHR ''-'', digit_char f, digit_char g]"
    using ym(4) by simp
  with parse_written [OF le] ym eq show ?thesis by simp
qed

lemma format_parse: "parse_period p = Inr n \<Longrightarrow> n < 120000 \<and> p = format_period n"
proof (elim parse_shape)
  fix a b c d f g :: nat
  assume le: "a \<le> 9" "b \<le> 9" "c \<le> 9" "d \<le> 9" "f \<le> 9" "g \<le> 9"
    and p: "p = [digit_char a, digit_char b, digit_char c, digit_char d, CHR ''-'', digit_char f, digit_char g]"
    and m: "1 \<le> f * 10 + g" "f * 10 + g \<le> 12"
    and n: "n = (((a * 10 + b) * 10 + c) * 10 + d) * 12 + (f * 10 + g) - 1"
  from format_shape [OF refl refl le m] have "p = format_period n" unfolding p n ..
  then show ?thesis using le m n by simp
qed

lemma parse_period_inj: "parse_period p = Inr n \<Longrightarrow> parse_period q = Inr n \<Longrightarrow> p = q"
  using format_parse by metis

section \<open>The machine\<close>

text \<open>An event carries the environment of the call and the ledger it finds: between calls anything may happen there.\<close>

datatype bond_call =
    BInit address
  | BIssue address address bond_terms address address
  | BRedeem nat sstring
  | BTransfer nat address address
  | BMark bool address nat

type_synonym 'w bond_event = "ledger_env \<times> 'w \<times> bond_call"

fun bond_step ::
  "'w token_ops \<Rightarrow> 'w att_client \<Rightarrow> 'w bond_event \<Rightarrow> bond_state \<Rightarrow> bond_state res" where
  "bond_step T C (env, w, BInit a) s = bond_initialize env a s"
| "bond_step T C (env, w, BIssue i o1 t a k) s = bindr (issue_bond env i o1 t a k s) (\<lambda>(_, s'). Inr s')"
| "bond_step T C (env, w, BRedeem i p) s = bindr (redeem T C env i p (s, w)) (\<lambda>(s', _). Inr s')"
| "bond_step T C (env, w, BTransfer i a b) s = transfer_ownership env i a b s"
| "bond_step T C (env, w, BMark d a i) s = (if d then bond_mark_defaulted env a i s else bond_mark_matured env a i s)"

text \<open>
  Bonds can be issued before the contract is initialised, and the initialisation resets the counter of ids, so
  that the next bond takes the place of the first. A history is in order unless it contains that: an
  initialisation that succeeds after a bond was issued.
\<close>

fun late_init :: "bond_call \<Rightarrow> bond_state \<Rightarrow> bool" where
  "late_init (BInit a) s \<longleftrightarrow> bs_admin s = None \<and> bs_next_bond_id s \<noteq> None"
| "late_init _ s \<longleftrightarrow> False"

fun in_order :: "'w token_ops \<Rightarrow> 'w att_client \<Rightarrow> 'w bond_event list \<Rightarrow> bond_state \<Rightarrow> bool" where
  "in_order T C [] s \<longleftrightarrow> True"
| "in_order T C ((env, w, c) # es) s \<longleftrightarrow> \<not> late_init c s \<and> in_order T C es (exec (bond_step T C) (env, w, c) s)"

text \<open>What the contract keeps of each bond, and of each redemption.\<close>

definition paid_on :: "nat \<Rightarrow> redemption_record \<Rightarrow> int" where
  "paid_on i r = (if rr_bond_id r = i then rr_redemption_amount r else 0)"

definition bond_ok :: "nat \<Rightarrow> bond_rec \<Rightarrow> int \<Rightarrow> bool" where
  "bond_ok i b paid \<longleftrightarrow> bo_id b = i \<and> 0 < bo_face_value b \<and> 0 \<le> bo_min_payment b \<and>
     bo_min_payment b \<le> bo_max_payment b \<and> bo_revenue_share_bps b \<le> 10000 \<and>
     0 \<le> paid \<and> paid \<le> bo_face_value b \<and> (bo_status b = FullyRedeemed \<longleftrightarrow> paid = bo_face_value b)"

definition redemption_ok :: "bond_rec \<Rightarrow> sstring \<Rightarrow> redemption_record \<Rightarrow> bool" where
  "redemption_ok b p r \<longleftrightarrow> rr_period r = p \<and> is_period_within_maturity b p = Inr True \<and>
     0 \<le> rr_redemption_amount r \<and> rr_redemption_amount r \<le> bo_max_payment b"

definition bonds_ok :: "bond_state \<Rightarrow> bool" where
  "bonds_ok s \<longleftrightarrow> finite (dom (bs_redemptions s)) \<and>
     dom (bs_bonds s) = {..<unwrap_or (bs_next_bond_id s) 0} \<and>
     dom (bs_owner s) = dom (bs_bonds s) \<and>
     (\<forall>i b. bs_bonds s i = Some b \<longrightarrow>
        bs_total_redeemed s i = Some (map_sum (paid_on i) (bs_redemptions s)) \<and>
        bond_ok i b (map_sum (paid_on i) (bs_redemptions s))) \<and>
     (\<forall>i p r. bs_redemptions s (i, p) = Some r \<longrightarrow> rr_bond_id r = i \<and>
        (\<exists>b. bs_bonds s i = Some b \<and> redemption_ok b p r))"

lemma bonds_okD:
  assumes "bonds_ok s"
  shows "finite (dom (bs_redemptions s))"
    and "bs_bonds s i = Some b \<Longrightarrow> bs_total_redeemed s i = Some (map_sum (paid_on i) (bs_redemptions s))"
    and "bs_bonds s i = Some b \<Longrightarrow> bond_ok i b (map_sum (paid_on i) (bs_redemptions s))"
    and "bs_redemptions s (i, p) = Some r \<Longrightarrow> rr_bond_id r = i"
    and "bs_redemptions s (i, p) = Some r \<Longrightarrow> \<exists>b. bs_bonds s i = Some b \<and> redemption_ok b p r"
  using assms unfolding bonds_ok_def by blast+

lemma calculate_nonneg:
  assumes "bond_ok i b x" and "0 \<le> v" and "calculate_redemption b v = Inr y"
  shows "0 \<le> y"
proof -
  have "0 \<le> revenue_share v (bo_revenue_share_bps b)" by (simp add: revenue_share_def u128_sat_def)
  with assms show ?thesis by (auto simp: calculate_redemption_def bond_ok_def split: bond_structure.splits)
qed

lemma redeem_cases:
  assumes "redeem T C env i p (s, w) = Inr (s', w')"
  obtains b v y rem w2 where "bs_bonds s i = Some b" "bo_status b = BondActive" "authorized env (bo_issuer b)"
    "is_period_within_maturity b p = Inr True" "bs_redemptions s (i, p) = None"
    "0 \<le> v" "calculate_redemption b v = Inr y" "rem = bo_face_value b - unwrap_or (bs_total_redeemed s i) 0" "0 < rem"
    "min y rem \<le> bo_max_payment b"
    "if 0 < min y rem then \<exists>o1. bs_owner s i = Some o1 \<and>
       tok_transfer T (bo_token b) (bo_issuer b) o1 (min y rem) w2 = Some w' else w' = w2"
    "\<exists>w1 d. ac_get_revocation_info C (bo_attestation_contract b) (bo_issuer b) p w = Inr (None, w1) \<and>
       ac_get_attestation C (bo_attestation_contract b) (bo_issuer b) p w1 = Inr (Some d, w2)"
    "s' = s\<lparr>bs_redemptions := (bs_redemptions s)((i, p) \<mapsto>
        \<lparr>rr_bond_id = i, rr_period = p, rr_attested_revenue = v, rr_redemption_amount = min y rem, rr_redeemed_at = timestamp env\<rparr>),
      bs_total_redeemed := (bs_total_redeemed s)(i \<mapsto> unwrap_or (bs_total_redeemed s i) 0 + min y rem),
      bs_bonds := (if bo_face_value b \<le> unwrap_or (bs_total_redeemed s i) 0 + min y rem
        then (bs_bonds s)(i \<mapsto> b\<lparr>bo_status := FullyRedeemed\<rparr>) else bs_bonds s)\<rparr>"
proof -
  let ?total = "unwrap_or (bs_total_redeemed s i) 0"
  from assms obtain b v y w2 where *: "bs_bonds s i = Some b" "bo_status b = BondActive" "authorized env (bo_issuer b)"
    "is_period_within_maturity b p = Inr True" "bs_redemptions s (i, p) = None" "0 \<le> v" "calculate_redemption b v = Inr y"
    and r: "0 < bo_face_value b - ?total" "min y (bo_face_value b - ?total) \<le> bo_max_payment b"
    and tr: "(if 0 < min y (bo_face_value b - ?total) then bindr (expectr (bs_owner s i) ''owner not found'') (\<lambda>owner.
        transferr T (bo_token b) (bo_issuer b) owner (min y (bo_face_value b - ?total)) w2) else Inr w2) = Inr w'"
    and s': "s' = s\<lparr>bs_redemptions := (bs_redemptions s)((i, p) \<mapsto> \<lparr>rr_bond_id = i, rr_period = p,
        rr_attested_revenue = v, rr_redemption_amount = min y (bo_face_value b - ?total), rr_redeemed_at = timestamp env\<rparr>),
      bs_total_redeemed := (bs_total_redeemed s)(i \<mapsto> ?total + min y (bo_face_value b - ?total)),
      bs_bonds := (if bo_face_value b \<le> ?total + min y (bo_face_value b - ?total)
        then (bs_bonds s)(i \<mapsto> b\<lparr>bo_status := FullyRedeemed\<rparr>) else bs_bonds s)\<rparr>"
    and at: "\<exists>w1 d. ac_get_revocation_info C (bo_attestation_contract b) (bo_issuer b) p w = Inr (None, w1) \<and>
       ac_get_attestation C (bo_attestation_contract b) (bo_issuer b) p w1 = Inr (Some d, w2)"
    unfolding redeem_def Let_def by (auto split: prod.splits simp del: if_split)
  show thesis by (rule that [OF * refl r _ at s']) (use tr in \<open>auto split: if_splits\<close>)
qed

lemma paid_on_new:
  assumes "bonds_ok s" and "bs_redemptions s (i, p) = None" and "rr_bond_id r = i"
  shows "map_sum (paid_on j) ((bs_redemptions s)((i, p) \<mapsto> r)) =
     map_sum (paid_on j) (bs_redemptions s) + (if j = i then rr_redemption_amount r else 0)"
  using map_sum_upd [OF bonds_okD(1) [OF assms(1)], of "paid_on j" "(i, p)" r] assms(2,3)
  by (simp add: amount_at_def paid_on_def)

lemma within_status [simp]: "is_period_within_maturity (b\<lparr>bo_status := x\<rparr>) p = is_period_within_maturity b p"
  by (simp add: is_period_within_maturity_def)

lemma redemption_ok_status [simp]: "redemption_ok (b\<lparr>bo_status := x\<rparr>) p r = redemption_ok b p r"
  by (simp add: redemption_ok_def)

lemma redeem_ok:
  assumes ok: "bonds_ok s" and "redeem T C env i p (s, w) = Inr (s', w')"
  shows "bonds_ok s'"
  using assms(2)
proof (rule redeem_cases)
  fix b v y rem w2
  assume b: "bs_bonds s i = Some b" "bo_status b = BondActive" "is_period_within_maturity b p = Inr True"
    and new: "bs_redemptions s (i, p) = None" and v: "0 \<le> v" "calculate_redemption b v = Inr y"
    and rem: "rem = bo_face_value b - unwrap_or (bs_total_redeemed s i) 0" "0 < rem" "min y rem \<le> bo_max_payment b"
    and s': "s' = s\<lparr>bs_redemptions := (bs_redemptions s)((i, p) \<mapsto>
        \<lparr>rr_bond_id = i, rr_period = p, rr_attested_revenue = v, rr_redemption_amount = min y rem, rr_redeemed_at = timestamp env\<rparr>),
      bs_total_redeemed := (bs_total_redeemed s)(i \<mapsto> unwrap_or (bs_total_redeemed s i) 0 + min y rem),
      bs_bonds := (if bo_face_value b \<le> unwrap_or (bs_total_redeemed s i) 0 + min y rem
        then (bs_bonds s)(i \<mapsto> b\<lparr>bo_status := FullyRedeemed\<rparr>) else bs_bonds s)\<rparr>"
  let ?paid = "\<lambda>j. map_sum (paid_on j) (bs_redemptions s)"
  note tot = bonds_okD(2) [OF ok b(1)] and bok = bonds_okD(3) [OF ok b(1)]
  have y: "0 \<le> y" by (rule calculate_nonneg [OF bok v])
  have paid: "map_sum (paid_on j) (bs_redemptions s') = ?paid j + (if j = i then min y rem else 0)" for j
    by (simp add: s' paid_on_new [OF ok new])
  have rd: "rr_bond_id r = j \<and> (\<exists>c. bs_bonds s j = Some c \<and> redemption_ok c q r)"
    if r: "bs_redemptions s' (j, q) = Some r" for j q r
  proof (cases "(j, q) = (i, p)")
    case True
    with r b y rem(2,3) show ?thesis by (auto simp: s' redemption_ok_def)
  next
    case False
    with r have "bs_redemptions s (j, q) = Some r" by (auto simp: s' split: if_splits)
    then show ?thesis using bonds_okD(4,5) [OF ok] by blast
  qed
  have rd': "\<exists>c. bs_bonds s' j = Some c \<and> redemption_ok c q r" if "bs_redemptions s' (j, q) = Some r" for j q r
    using rd [OF that] b(1) by (auto simp: s')
  have bd: "bs_total_redeemed s' j = Some (?paid j + (if j = i then min y rem else 0)) \<and>
      bond_ok j c (?paid j + (if j = i then min y rem else 0))" if "bs_bonds s' j = Some c" for j c
  proof (cases "j = i")
    case True
    define m where "m = min y rem"
    have t: "unwrap_or (bs_total_redeemed s i) 0 = ?paid i" using tot by simp
    have m: "0 \<le> m" "m \<le> bo_face_value b - ?paid i" using y rem(1,2) by (simp_all add: m_def t)
    have c: "c = (if bo_face_value b \<le> ?paid i + m then b\<lparr>bo_status := FullyRedeemed\<rparr> else b)"
      using that True b(1) by (simp add: s' t m_def split: if_splits)
    have "bs_total_redeemed s' i = Some (?paid i + m)" by (simp add: s' t m_def)
    moreover have "bond_ok i c (?paid i + m)" using bok m b(2) by (cases "bo_face_value b \<le> ?paid i + m") (auto simp: c bond_ok_def)
    ultimately show ?thesis using True by (simp add: m_def)
  next
    case False
    then have "bs_bonds s j = Some c" using that by (simp add: s' split: if_splits)
    with False bonds_okD(2,3) [OF ok] show ?thesis by (simp add: s')
  qed
  have "bs_next_bond_id s' = bs_next_bond_id s" "dom (bs_bonds s') = dom (bs_bonds s)" "bs_owner s' = bs_owner s"
    "bs_admin s' = bs_admin s" "finite (dom (bs_redemptions s'))"
    using b(1) bonds_okD(1) [OF ok] by (auto simp: s')
  with ok rd rd' bd show ?thesis unfolding bonds_ok_def paid by (simp add: domIff)
qed

lemma issue_ok:
  assumes ok: "bonds_ok s" and "issue_bond env a o1 tm c k s = Inr (i, s')"
  shows "bonds_ok s'"
proof -
  define n where "n = unwrap_or (bs_next_bond_id s) 0"
  have n: "dom (bs_bonds s) = {..<n}" using ok by (simp add: bonds_ok_def n_def)
  with assms(2) obtain b where b: "0 < bo_face_value b" "0 \<le> bo_min_payment b" "bo_min_payment b \<le> bo_max_payment b"
      "bo_revenue_share_bps b \<le> 10000" "bo_id b = n" "bo_status b = BondActive"
    and s': "s' = s\<lparr>bs_bonds := (bs_bonds s)(n \<mapsto> b), bs_owner := (bs_owner s)(n \<mapsto> o1),
      bs_total_redeemed := (bs_total_redeemed s)(n \<mapsto> 0), bs_next_bond_id := Some (n + 1)\<rparr>"
    by (simp add: issue_bond_def Let_def n_def [symmetric]) (elim conjE exE, rule that, auto)
  have "bs_bonds s n = None" using n by auto
  then have none: "bs_redemptions s (n, p) = None" for p
    using bonds_okD(5) [OF ok, of n p] by (cases "bs_redemptions s (n, p)") auto
  have "paid_on n r = 0" if "bs_redemptions s (j, q) = Some r" for j q r
    using bonds_okD(4) [OF ok that] none that by (auto simp: paid_on_def)
  then have z: "map_sum (paid_on n) (bs_redemptions s) = 0"
    unfolding map_sum_def by (intro sum.neutral) auto
  with ok n b none \<open>bs_bonds s n = None\<close> show ?thesis
    unfolding bonds_ok_def s' by (auto simp: bond_ok_def)
qed

lemma bond_step_ok:
  assumes ok: "bonds_ok s" and "bond_step T C (env, w, c) s = Inr s'" and "\<not> late_init c s"
  shows "bonds_ok s'"
proof (cases c)
  case (BInit a)
  with assms show ?thesis by (auto simp: bond_initialize_def bonds_ok_def)
next
  case (BIssue a o1 t b k)
  with assms show ?thesis by (auto intro: issue_ok)
next
  case (BRedeem i p)
  with assms show ?thesis by (auto intro: redeem_ok)
next
  case (BTransfer i a b)
  with assms(2) have s': "s' = s\<lparr>bs_owner := (bs_owner s)(i \<mapsto> b)\<rparr>" and "i \<in> dom (bs_owner s)"
    by (auto simp: transfer_ownership_def)
  then have "dom (bs_owner s') = dom (bs_owner s)" by auto
  with ok show ?thesis unfolding bonds_ok_def s' by simp
next
  case (BMark d a i)
  with assms(2) obtain b x where b: "bs_bonds s i = Some b" "bo_status b = BondActive" "x \<noteq> FullyRedeemed"
    "s' = s\<lparr>bs_bonds := (bs_bonds s)(i \<mapsto> b\<lparr>bo_status := x\<rparr>)\<rparr>"
    by (auto simp: bond_mark_defaulted_def bond_mark_matured_def mark_bond_def split: if_splits)
  have rd: "bs_redemptions s (j, q) = Some r \<Longrightarrow> \<exists>d. bs_bonds s' j = Some d \<and> redemption_ok d q r" for j q r
    using bonds_okD(5) [OF ok, of j q r] b(1) by (auto simp: b(4))
  have bd: "bond_ok j d (map_sum (paid_on j) (bs_redemptions s))" if "bs_bonds s' j = Some d" for j d
    using that bonds_okD(3) [OF ok, of j] b(1-3) by (auto simp: b(4) bond_ok_def split: if_splits)
  have "dom (bs_bonds s') = dom (bs_bonds s)" "bs_redemptions s' = bs_redemptions s" "bs_owner s' = bs_owner s"
    "bs_total_redeemed s' = bs_total_redeemed s" "bs_next_bond_id s' = bs_next_bond_id s" "bs_admin s' = bs_admin s"
    using b(1) by (auto simp: b(4))
  with ok rd bd show ?thesis unfolding bonds_ok_def by (metis domD domI)
qed

lemma bonds_ok_empty: "bonds_ok bond_empty"
  by (simp add: bonds_ok_def bond_empty_def)

lemma bonds_ok_run: "bonds_ok s \<Longrightarrow> in_order T C es s \<Longrightarrow> bonds_ok (run (bond_step T C) es s)"
proof (induction es arbitrary: s)
  case (Cons e es)
  obtain env w c where e: "e = (env, w, c)" by (cases e)
  have "bonds_ok (exec (bond_step T C) e s)"
    using Cons.prems bond_step_ok [of s T C env w c] by (auto simp: e exec_def split: sum.splits)
  with Cons show ?case by (simp add: e)
qed simp

lemmas in_order_ok = bonds_ok_run [OF bonds_ok_empty]

section \<open>The end of a period on the calendar\<close>

text \<open>The reference: days since the epoch in closed form, Gregorian leap years counted by division.\<close>

definition leap_years_upto :: "nat \<Rightarrow> nat" where
  "leap_years_upto y = y div 4 - y div 100 + y div 400"

definition epoch_day_of_year :: "nat \<Rightarrow> nat" where
  "epoch_day_of_year y = 365 * (y - 1970) + (leap_years_upto (y - 1) - leap_years_upto 1969)"

definition days_through_month :: "nat \<Rightarrow> nat \<Rightarrow> nat" where
  "days_through_month y m =
     [31, 59, 90, 120, 151, 181, 212, 243, 273, 304, 334, 365] ! (m - 1) + (if is_leap_year y \<and> 2 \<le> m then 1 else 0)"

lemma leap_years_Suc: "leap_years_upto (Suc y) = leap_years_upto y + (if is_leap_year (Suc y) then 1 else 0)"
proof -
  have d: "Suc y div k = y div k + (if Suc y mod k = 0 then 1 else 0)" for k by (simp add: div_Suc)
  have "y div 100 \<le> y div 4" by (rule div_le_mono2) simp_all
  moreover have "4 dvd (100 :: nat)" "100 dvd (400 :: nat)" by simp_all
  then have "Suc y mod 100 = 0 \<Longrightarrow> Suc y mod 4 = 0" "Suc y mod 400 = 0 \<Longrightarrow> Suc y mod 100 = 0"
    unfolding mod_eq_0_iff_dvd using dvd_trans by blast+
  ultimately show ?thesis unfolding leap_years_upto_def is_leap_year_def d [of 4] d [of 100] d [of 400] by auto
qed

lemma leap_years_mono: "y \<le> z \<Longrightarrow> leap_years_upto y \<le> leap_years_upto z"
  by (induction z rule: dec_induct) (auto simp: leap_years_Suc)

lemma year_loop_append: "year_loop (xs @ ys) n = year_loop ys (year_loop xs n)"
  by (induction xs arbitrary: n) auto

lemma year_loop_days: "1970 \<le> y \<Longrightarrow> year_loop [1970..<y] 0 = epoch_day_of_year y"
proof (induction y rule: dec_induct)
  case base
  show ?case by (simp add: epoch_day_of_year_def)
next
  case (step n)
  then obtain j where k: "n = Suc (1969 + j)" using le_Suc_ex [of 1970 n] by auto
  have le: "leap_years_upto 1969 \<le> leap_years_upto (1969 + j)" by (rule leap_years_mono) simp
  have "year_loop [1970..<Suc n] 0 = epoch_day_of_year n + (if is_leap_year n then 366 else 365)"
    using step by (simp add: year_loop_append)
  also have "\<dots> = epoch_day_of_year (Suc n)"
    using le leap_years_Suc [of "1969 + j"] by (simp add: epoch_day_of_year_def k ac_simps)
  finally show ?case .
qed

lemma month_loop_append: "month_loop y (xs @ ys) n = bindr (month_loop y xs n) (month_loop y ys)"
proof (induction xs arbitrary: n)
  case (Cons x xs)
  then show ?case by (cases "days_in_month y x") auto
qed simp

lemma month_loop_days: "1 \<le> m \<Longrightarrow> m \<le> 11 \<Longrightarrow> month_loop y [1..<Suc m] n = Inr (n + days_through_month y m)"
proof -
  assume "1 \<le> m" "m \<le> 11"
  then have "m \<in> {1, 2, 3, 4, 5, 6, 7, 8, 9, 10, 11}" by (simp, presburger)
  then show ?thesis
    by (elim insertE emptyE) (simp_all add: upt_rec days_in_month_def days_through_month_def eval_nat_numeral)
qed

lemma raw_of_parse: "parse_digits msg acc cs = Inr n \<Longrightarrow> raw_digits acc cs = Inr n"
  by (induction msg acc cs rule: parse_digits.induct) auto

lemma month_loop_Nil: "month_loop y [1..<1] n = Inr n" by simp

text \<open>
  A period ends where the calendar says: for every well-formed period from 1970 on the two loops over years
  and months compute, in seconds, the number of days from the epoch to the end of the month, by the closed form of
  the Gregorian calendar.
\<close>

theorem period_end_on_calendar:
  assumes "parse_period p = Inr n" and "1970 \<le> n div 12"
  shows "get_period_end_timestamp p =
     Inr (86400 * (epoch_day_of_year (n div 12) + days_through_month (n div 12) (n mod 12 + 1)))"
proof -
  from assms(1) obtain y m where *: "length p = 7" "raw_digits 0 (take 4 p) = Inr y" "raw_digits 0 (drop 5 p) = Inr m"
    and m: "1 \<le> m" "m \<le> 12" "n = y * 12 + m - 1"
    by (auto simp: parse_period_def dest: raw_of_parse)
  from m obtain k where k: "m = Suc k" "k < 12" "n = y * 12 + k" by (cases m) auto
  then have n: "n div 12 = y" "n mod 12 = k" by simp_all
  have y: "1970 \<le> y" using assms(2) n by simp
  show ?thesis
  proof (cases "k = 11")
    case True
    have "year_loop [1970..<Suc y] 0 = year_loop [y] (epoch_day_of_year y)"
      using y by (simp add: year_loop_append year_loop_days)
    then have "year_loop [1970..<Suc y] 0 = epoch_day_of_year y + days_through_month y 12"
      by (simp add: days_through_month_def)
    with True * show ?thesis by (simp add: get_period_end_timestamp_def k(1) n Let_def mult.commute)
  next
    case False
    then have m: "1 \<le> m" "m \<le> 11" using k by simp_all
    have "\<not> 12 < m + 1" using m by simp
    with * m month_loop_days [OF m, of y "epoch_day_of_year y"] show ?thesis
      by (simp add: get_period_end_timestamp_def n k(1) [symmetric] Let_def year_loop_days y mult.commute del: upt_Suc)
  qed
qed

lemma period_end_on_calendar_witness:
  "get_period_end_timestamp ''2024-02'' = Inr (86400 * (epoch_day_of_year 2024 + days_through_month 2024 2))"
proof -
  have n: "parse_period ''2024-02'' = Inr 24289"
    by (simp add: parse_period_def digit_of_def)
  have d: "(24289 :: nat) div 12 = 2024" "24289 mod 12 + 1 = (2 :: nat)" by simp_all
  show ?thesis using period_end_on_calendar [OF n, unfolded d] by simp
qed

text \<open>
  Periods and months are the same thing: a string parses to a month number exactly if it is the way that
  month of the years 0 to 9999 is written, so that no month has two period strings and the arithmetic on month
  numbers (the maturity test) loses nothing.
\<close>

theorem period_roundtrip: "parse_period p = Inr n \<longleftrightarrow> n < 120000 \<and> p = format_period n"
  using format_parse parse_format by blast

section \<open>What bonds pay\<close>

definition redeemed_periods :: "bond_state \<Rightarrow> nat \<Rightarrow> sstring set" where
  "redeemed_periods s i = {p. bs_redemptions s (i, p) \<noteq> None}"

text \<open>
  C25. After every history of calls from the empty storage in which the contract was not initialised after a
  bond had been issued, what has been paid on a bond is the sum of its redemptions, between nothing and the
  face value; the bond is marked fully redeemed exactly if it is the face value. (The code lets bonds be
  issued before the initialisation, which then resets the ids: \<open>late_initialization_overwrites\<close>.)
\<close>

theorem bonds_never_overpay:
  assumes "in_order T C es bond_empty" and "s = run (bond_step T C) es bond_empty" and "bs_bonds s i = Some b"
  shows "bs_total_redeemed s i = Some (map_sum (paid_on i) (bs_redemptions s)) \<and>
    0 \<le> map_sum (paid_on i) (bs_redemptions s) \<and> map_sum (paid_on i) (bs_redemptions s) \<le> bo_face_value b \<and>
    (bo_status b = FullyRedeemed \<longleftrightarrow> map_sum (paid_on i) (bs_redemptions s) = bo_face_value b)"
  using bonds_okD(2,3) [OF in_order_ok [OF assms(1), folded assms(2)] assms(3)] by (simp add: bond_ok_def)

text \<open>
  A bond pays in at most as many periods as it has to maturity: the redeemed periods are distinct months from
  the issue month on, before maturity, and each paid at most the cap per period.
\<close>

theorem payments_end_at_maturity:
  assumes "in_order T C es bond_empty" and "s = run (bond_step T C) es bond_empty" and "bs_bonds s i = Some b"
  shows "card (redeemed_periods s i) \<le> bo_maturity_periods b"
proof (cases "redeemed_periods s i = {}")
  case False
  note ok = in_order_ok [OF assms(1), folded assms(2)]
  have within: "is_period_within_maturity b p = Inr True" if "p \<in> redeemed_periods s i" for p
    using that bonds_okD(5) [OF ok] assms(3) by (fastforce simp: redeemed_periods_def redemption_ok_def)
  with False obtain n where n: "parse_period (bo_issue_period b) = Inr n"
    by (fastforce simp: is_period_within_maturity_def)
  define month where "month p = projr (parse_period p)" for p
  have month: "parse_period p = Inr (month p) \<and> month p \<in> {n..<n + bo_maturity_periods b}"
    if "p \<in> redeemed_periods s i" for p
    using within [OF that] n by (auto simp: is_period_within_maturity_def month_def)
  have "inj_on month (redeemed_periods s i)"
    by (rule inj_onI) (use month parse_period_inj in metis)
  then have "card (redeemed_periods s i) = card (month ` redeemed_periods s i)" by (simp add: card_image)
  also have "\<dots> \<le> card {n..<n + bo_maturity_periods b}" by (rule card_mono) (use month in auto)
  finally show ?thesis by simp
qed simp

text \<open>A run of a bond of face value 1000 that pays 600 at most, to its second and last payment.\<close>

definition bond_issue_event :: "nat \<Rightarrow> ref_ledger bond_event" where
  "bond_issue_event q = (env_at 0 q, (\<lambda>_ _. 5000), BIssue ''issuer'' ''owner'' \<lparr>bt_face_value = 1000, bt_structure = Fixed,
     bt_revenue_share_bps = 0, bt_min_payment = 600, bt_max_payment = 600, bt_maturity_periods = 12,
     bt_grace_period_seconds = 0, bt_issue_period = ''2024-01''\<rparr> ''att'' ''token'')"

definition bond_client :: "ref_ledger att_client" where
  "bond_client = client_of (BytesN [], 0, 1, 0, None, None)"

definition bond_events :: "ref_ledger bond_event list" where
  "bond_events = [(env_at 0 0, (\<lambda>_ _. 5000), BInit ''admin''), bond_issue_event 0,
     (env_at 1 1, (\<lambda>_ _. 5000), BRedeem 0 ''2024-01''), (env_at 2 2, (\<lambda>_ _. 5000), BRedeem 0 ''2024-02'')]"

definition bond_run_state :: bond_state where
  "bond_run_state = run (bond_step ref_token bond_client) bond_events bond_empty"

lemmas bond_run_simps = bond_issue_event_def bond_client_def exec_def bond_initialize_def issue_bond_def redeem_def
  is_period_within_maturity_def parse_period_def digit_of_def calculate_redemption_def bond_empty_def Let_def
  in_i128_def i128_min_def i128_max_def u64_max_def ref_token_def transferr_def

lemma bond_run_in_order: "in_order ref_token bond_client bond_events bond_empty"
  by (simp add: bond_events_def bond_issue_event_def) (simp add: bond_empty_def)

lemma bond_run_bond: "\<exists>b. bs_bonds bond_run_state 0 = Some b \<and> bo_face_value b = 1000 \<and> bo_maturity_periods b = 12 \<and>
    bs_redemptions bond_run_state (0, ''2024-02'') \<noteq> None"
  by (simp add: bond_run_state_def bond_events_def bond_run_simps)

lemma bonds_never_overpay_witness:
  "\<exists>b. bs_bonds bond_run_state 0 = Some b \<and> map_sum (paid_on 0) (bs_redemptions bond_run_state) \<le> bo_face_value b"
  using bond_run_bond bonds_never_overpay [OF bond_run_in_order bond_run_state_def, of 0] by blast

lemma payments_end_at_maturity_witness: "card (redeemed_periods bond_run_state 0) \<le> 12"
  using bond_run_bond payments_end_at_maturity [OF bond_run_in_order bond_run_state_def, of 0] by auto

text \<open>
  Out of order it goes wrong: a bond is issued and pays 600 of its face value of 1000, the contract is
  initialised, and the next bond issued becomes bond 0 as well. The redemptions of the first bond stay, the
  total starts again from nothing, and the same bond id now has a month that is already redeemed.
\<close>

lemma late_initialization_overwrites:
  "\<exists>s b. run (bond_step ref_token bond_client) [bond_issue_event 0, (env_at 1 1, (\<lambda>_ _. 5000), BRedeem 0 ''2024-01''),
       (env_at 2 2, (\<lambda>_ _. 5000), BInit ''admin''), bond_issue_event 3] bond_empty = s \<and>
     bs_bonds s 0 = Some b \<and> bo_status b = BondActive \<and> bs_next_bond_id s = Some 1 \<and>
     map_option rr_redemption_amount (bs_redemptions s (0, ''2024-01'')) = Some 600 \<and> bs_total_redeemed s 0 = Some 0"
  by (simp add: bond_run_simps)

text \<open>
  A redemption moves what it records, in every state that an orderly history reaches: under a token that keeps to SEP-41 and an attestation contract that moves
  nothing, exactly the amount recorded for the period goes from the issuer to the owner, the total grows by it, and
  the period was not redeemed before.
\<close>

theorem redemption_moves_what_it_records:
  assumes "bonds_ok s" and "sep41 T" and "quiet_client T C"
    and "redeem T C env i p (s, w) = Inr (s', w')"
  shows "\<exists>b o1 r. bs_bonds s i = Some b \<and> bs_owner s i = Some o1 \<and> bs_redemptions s (i, p) = None \<and>
    bs_redemptions s' = (bs_redemptions s)((i, p) \<mapsto> r) \<and>
    get_total_redeemed s' i = get_total_redeemed s i + rr_redemption_amount r \<and>
    (\<forall>a. tok_balance T (bo_token b) a w' =
       tok_balance T (bo_token b) a w + moved (bo_issuer b) o1 (rr_redemption_amount r) a)"
  using assms(4)
proof (rule redeem_cases)
  fix b v w2 and y rem :: int
  let ?m = "min y rem"
  assume b: "bs_bonds s i = Some b" and q: "bs_redemptions s (i, p) = None"
    and v: "0 \<le> v" "calculate_redemption b v = Inr y" "0 < rem"
    and tr: "if 0 < ?m then \<exists>o1. bs_owner s i = Some o1 \<and> tok_transfer T (bo_token b) (bo_issuer b) o1 ?m w2 = Some w'
      else w' = w2"
    and at: "\<exists>w1 d. ac_get_revocation_info C (bo_attestation_contract b) (bo_issuer b) p w = Inr (None, w1) \<and>
       ac_get_attestation C (bo_attestation_contract b) (bo_issuer b) p w1 = Inr (Some d, w2)"
    and s': "s' = s\<lparr>bs_redemptions := (bs_redemptions s)((i, p) \<mapsto>
        \<lparr>rr_bond_id = i, rr_period = p, rr_attested_revenue = v, rr_redemption_amount = ?m, rr_redeemed_at = timestamp env\<rparr>),
      bs_total_redeemed := (bs_total_redeemed s)(i \<mapsto> unwrap_or (bs_total_redeemed s i) 0 + ?m),
      bs_bonds := (if bo_face_value b \<le> unwrap_or (bs_total_redeemed s i) 0 + ?m
        then (bs_bonds s)(i \<mapsto> b\<lparr>bo_status := FullyRedeemed\<rparr>) else bs_bonds s)\<rparr>"
  note ok = assms(1)
  have w2: "tok_balance T t a w2 = tok_balance T t a w" for t a
    using at quiet_clientD [OF assms(3)] by metis
  have m: "0 \<le> ?m" using calculate_nonneg [OF bonds_okD(3) [OF ok b] v(1,2)] v(3) by simp
  have "bs_owner s i \<noteq> None" using ok b unfolding bonds_ok_def by (metis domIff option.distinct(1))
  then obtain o1 where o1: "bs_owner s i = Some o1" by auto
  have "tok_balance T (bo_token b) a w' = tok_balance T (bo_token b) a w + moved (bo_issuer b) o1 ?m a" for a
  proof (cases "0 < ?m")
    case True
    with tr o1 have "tok_transfer T (bo_token b) (bo_issuer b) o1 ?m w2 = Some w'" by simp
    from sep41_transfer(3) [OF assms(2) this, where a = a] show ?thesis by (simp add: w2)
  next
    case False
    then have z: "?m = 0" using m by linarith
    have "w' = w2" using tr False by (simp only: if_False)
    then show ?thesis unfolding z by (simp add: w2 moved_def)
  qed
  with b o1 q show ?thesis
    by (intro exI [of _ b] exI [of _ o1] exI [of _ "\<lparr>rr_bond_id = i, rr_period = p,
        rr_attested_revenue = v, rr_redemption_amount = ?m, rr_redeemed_at = timestamp env\<rparr>"] conjI)
      (simp_all add: s' get_total_redeemed_def)
qed

lemma redemption_moves_what_it_records_witness:
  "\<exists>s' w' o1. \<exists>b :: bond_rec. \<exists>r :: redemption_record. redeem ref_token bond_client (env_at 3 3) 0 ''2024-02''
      (run (bond_step ref_token bond_client) [bond_issue_event 0] bond_empty, (\<lambda>_ _. 5000)) = Inr (s', w') \<and>
    bo_token b = ''token'' \<and> tok_balance ref_token (bo_token b) o1 w' =
      5000 + moved (bo_issuer b) o1 (rr_redemption_amount r) o1"
proof -
  let ?s = "run (bond_step ref_token bond_client) [bond_issue_event 0] bond_empty"
  have ok: "bonds_ok ?s"
    by (rule in_order_ok) (simp add: bond_issue_event_def)
  have t: "\<exists>b. bs_bonds ?s 0 = Some b \<and> bo_token b = ''token''"
    by (simp add: bond_run_simps)
  have "\<exists>s' w'. redeem ref_token bond_client (env_at 3 3) 0 ''2024-02'' (?s, (\<lambda>_ _. 5000)) = Inr (s', w')"
    by (simp add: bond_run_simps)
  then obtain s' w' where r: "redeem ref_token bond_client (env_at 3 3) 0 ''2024-02'' (?s, (\<lambda>_ _. 5000)) = Inr (s', w')" by blast
  have quiet: "quiet_client ref_token bond_client" unfolding bond_client_def by (rule client_of_simps(5))
  from redemption_moves_what_it_records [OF ok ref_token_sep41 quiet r] obtain b o1 and x :: redemption_record
    where b: "bs_bonds ?s 0 = Some b" and bal: "\<forall>a. tok_balance ref_token (bo_token b) a w' =
       tok_balance ref_token (bo_token b) a (\<lambda>_ _. 5000) + moved (bo_issuer b) o1 (rr_redemption_amount x) a"
    by blast
  have "tok_balance ref_token (bo_token b) o1 (\<lambda>_ _. 5000) = 5000" by (simp add: ref_token_def)
  moreover have "bo_token b = ''token''" using t b by (metis option.inject)
  moreover note bal [rule_format, of o1]
  ultimately show ?thesis
    by (intro exI [of _ s'] exI [of _ w'] exI [of _ o1] exI [of _ b] exI [of _ x] conjI r) simp_all
qed

end
