(* ===== verification/Revenue_Share.thy ===== *)
theory Revenue_Share
  imports Attestation_Client Replay_Protection
begin

text \<open>
  \<open>contracts/revenue-share/src/lib.rs\<close>: the attested revenue of a period, split among stakeholders by
  basis points, with the rounding residual to the first of them.

  Parameters are the token, the attestation contract and the host's SHA-256, which binds the amount to the root.
\<close>

section \<open>State\<close>

definition NONCE_CHANNEL_DISTRIBUTE :: nat where "NONCE_CHANNEL_DISTRIBUTE = 2"
definition SHARE_CHANNEL_ADMIN :: nat where "SHARE_CHANNEL_ADMIN = 1"
definition MAX_PERIOD_BYTES :: nat where "MAX_PERIOD_BYTES = 128"

record stakeholder =
  sh_address :: address
  sh_bps :: nat

record distribution_record =
  dr_total_amount :: int
  dr_timestamp :: nat
  dr_amounts :: "int list"

record share_state =
  ss_admin :: "address option"
  ss_attestation_contract :: "address option"
  ss_token :: "address option"
  ss_stakeholders :: "stakeholder list option"
  ss_distributions :: "address \<times> sstring \<rightharpoonup> distribution_record"
  ss_counts :: "address \<rightharpoonup> nat"
  ss_nonces :: nonces

definition share_empty :: share_state where
  "share_empty = \<lparr>ss_admin = None, ss_attestation_contract = None, ss_token = None, ss_stakeholders = None,
     ss_distributions = Map.empty, ss_counts = Map.empty, ss_nonces = Map.empty\<rparr>"

section \<open>Administration\<close>

definition share_initialize ::
  "ledger_env \<Rightarrow> address \<Rightarrow> nat \<Rightarrow> address \<Rightarrow> address \<Rightarrow> share_state \<Rightarrow> share_state res" where
  "share_initialize env admin nonce attestation_contract token s =
     bindr (assertr (ss_admin s = None) ''already initialized'') (\<lambda>_.
     bindr (require_auth env admin) (\<lambda>_.
     bindr (verify_and_increment_nonce (ss_nonces s) admin SHARE_CHANNEL_ADMIN nonce) (\<lambda>n.
     Inr (s\<lparr>ss_nonces := n, ss_admin := Some admin, ss_attestation_contract := Some attestation_contract,
            ss_token := Some token\<rparr>))))"

definition require_admin_with_nonce :: "ledger_env \<Rightarrow> nat \<Rightarrow> share_state \<Rightarrow> (address \<times> share_state) res" where
  "require_admin_with_nonce env nonce s =
     bindr (expectr (ss_admin s) ''contract not initialized'') (\<lambda>admin.
     bindr (require_auth env admin) (\<lambda>_.
     bindr (verify_and_increment_nonce (ss_nonces s) admin SHARE_CHANNEL_ADMIN nonce) (\<lambda>n.
     Inr (admin, s\<lparr>ss_nonces := n\<rparr>))))"

fun check_stakeholders :: "nat \<Rightarrow> stakeholder list \<Rightarrow> nat res" where
  "check_stakeholders total_bps [] = Inr total_bps"
| "check_stakeholders total_bps (k # ks) =
     bindr (assertr (0 < sh_bps k) ''each stakeholder must have at least 1 bps'') (\<lambda>_.
     bindr (assertr (total_bps + sh_bps k \<le> u32_max) ''stakeholder bps overflow'') (\<lambda>_.
     bindr (assertr (list_all (\<lambda>other. sh_address k \<noteq> sh_address other) ks) ''duplicate stakeholder address'') (\<lambda>_.
     check_stakeholders (total_bps + sh_bps k) ks)))"

definition configure_stakeholders :: "ledger_env \<Rightarrow> nat \<Rightarrow> stakeholder list \<Rightarrow> share_state \<Rightarrow> share_state res" where
  "configure_stakeholders env nonce stakeholders s =
     bindr (require_admin_with_nonce env nonce s) (\<lambda>(_, s1).
     bindr (assertr (0 < length stakeholders) ''must have at least one stakeholder'') (\<lambda>_.
     bindr (assertr (length stakeholders \<le> 50) ''cannot exceed 50 stakeholders'') (\<lambda>_.
     bindr (check_stakeholders 0 stakeholders) (\<lambda>total_bps.
     bindr (assertr (total_bps = 10000) ''total shares must equal 10,000 bps (100%)'') (\<lambda>_.
     Inr (s1\<lparr>ss_stakeholders := Some stakeholders\<rparr>))))))"

definition share_set_attestation_contract :: "ledger_env \<Rightarrow> nat \<Rightarrow> address \<Rightarrow> share_state \<Rightarrow> share_state res" where
  "share_set_attestation_contract env nonce a s =
     bindr (require_admin_with_nonce env nonce s) (\<lambda>(_, s1). Inr (s1\<lparr>ss_attestation_contract := Some a\<rparr>))"

definition share_set_token :: "ledger_env \<Rightarrow> nat \<Rightarrow> address \<Rightarrow> share_state \<Rightarrow> share_state res" where
  "share_set_token env nonce a s =
     bindr (require_admin_with_nonce env nonce s) (\<lambda>(_, s1). Inr (s1\<lparr>ss_token := Some a\<rparr>))"

section \<open>Distribution\<close>

definition chk_or :: "string \<Rightarrow> int \<Rightarrow> int res" where
  "chk_or msg x = (if in_i128 x then Inr x else Inl (Panic msg))"

definition calculate_share :: "int \<Rightarrow> nat \<Rightarrow> int res" where
  "calculate_share revenue share_bps =
     bindr (chk_or ''calculate_share overflow'' (revenue * int share_bps)) (\<lambda>p. Inr (trunc_div p 10000))"

fun share_loop :: "int \<Rightarrow> stakeholder list \<Rightarrow> int list \<Rightarrow> int \<Rightarrow> (int list \<times> int) res" where
  "share_loop revenue [] amounts total_distributed = Inr (amounts, total_distributed)"
| "share_loop revenue (k # ks) amounts total_distributed =
     bindr (calculate_share revenue (sh_bps k)) (\<lambda>amount.
     bindr (chk_or ''total distributed overflow'' (total_distributed + amount)) (\<lambda>t.
     share_loop revenue ks (amounts @ [amount]) t))"

text \<open>The residual goes to the first; \<open>amounts.get(0).unwrap()\<close> panics on an empty vector.\<close>

definition add_residual :: "int \<Rightarrow> int list \<Rightarrow> int list res" where
  "add_residual residual amounts =
     (if 0 < residual
      then bindr (unwrapr (if amounts = [] then None else Some (amounts ! 0))) (\<lambda>first_amount.
           bindr (chk_or ''residual allocation overflow'' (first_amount + residual)) (\<lambda>x. Inr (amounts[0 := x])))
      else Inr amounts)"

fun sum_loop :: "int \<Rightarrow> int list \<Rightarrow> int res" where
  "sum_loop acc [] = Inr acc"
| "sum_loop acc (x # xs) = bindr (chk_or ''amount sum overflow'' (acc + x)) (\<lambda>t. sum_loop t xs)"

definition assert_amounts_sum :: "int list \<Rightarrow> int \<Rightarrow> unit res" where
  "assert_amounts_sum amounts expected =
     bindr (sum_loop 0 amounts) (\<lambda>sum. assertr (sum = expected) ''distribution amounts must sum to revenue'')"

definition assert_period_within_limit :: "sstring \<Rightarrow> unit res" where
  "assert_period_within_limit period = assertr (length period \<le> MAX_PERIOD_BYTES) ''period exceeds maximum length''"

definition assert_revenue_attested ::
  "(byte list \<Rightarrow> bytesn) \<Rightarrow> 'w att_client \<Rightarrow> address \<Rightarrow> address \<Rightarrow> sstring \<Rightarrow> int \<Rightarrow> 'w \<Rightarrow> 'w res" where
  "assert_revenue_attested sha C attestation_contract business period revenue_amount w =
     bindr (ac_get_attestation C attestation_contract business period w) (\<lambda>(att, w1).
     bindr (assertr (att \<noteq> None) ''attestation not found'') (\<lambda>_.
     bindr (ac_get_revocation_info C attestation_contract business period w1) (\<lambda>(revocation, w2).
     bindr (assertr (revocation = None) ''attestation is revoked'') (\<lambda>_.
     bindr (ac_is_expired C attestation_contract business period w2) (\<lambda>(expired, w3).
     bindr (assertr (\<not> expired) ''attestation expired'') (\<lambda>_.
     bindr (expectr att ''attestation not found'') (\<lambda>(stored_root, _).
     bindr (assertr (sha (i128_be_bytes revenue_amount) = stored_root)
              ''revenue amount does not match attested merkle root'') (\<lambda>_.
     Inr w3))))))))"

fun pay_loop :: "'w token_ops \<Rightarrow> address \<Rightarrow> address \<Rightarrow> stakeholder list \<Rightarrow> int list \<Rightarrow> 'w \<Rightarrow> 'w res" where
  "pay_loop T token business [] amounts w = Inr w"
| "pay_loop T token business (k # ks) [] w = Inl UnwrapNone"
| "pay_loop T token business (k # ks) (amount # amounts) w =
     bindr (if 0 < amount then transferr T token business (sh_address k) amount w else Inr w) (\<lambda>w1.
     pay_loop T token business ks amounts w1)"

definition distribute_revenue ::
  "(byte list \<Rightarrow> bytesn) \<Rightarrow> 'w token_ops \<Rightarrow> 'w att_client \<Rightarrow> ledger_env \<Rightarrow> address \<Rightarrow> sstring \<Rightarrow> int \<Rightarrow> nat \<Rightarrow>
   share_state \<times> 'w \<Rightarrow> (share_state \<times> 'w) res" where
  "distribute_revenue sha T C env business period revenue_amount nonce sw =
     (let (s, w) = sw in
      bindr (require_auth env business) (\<lambda>_.
      bindr (assert_period_within_limit period) (\<lambda>_.
      bindr (assertr (0 \<le> revenue_amount) ''revenue amount must be non-negative'') (\<lambda>_.
      bindr (assertr (ss_distributions s (business, period) = None) ''distribution already executed for this period'') (\<lambda>_.
      bindr (expectr (ss_attestation_contract s) ''attestation contract not configured'') (\<lambda>attestation_contract.
      bindr (assert_revenue_attested sha C attestation_contract business period revenue_amount w) (\<lambda>w1.
      bindr (expectr (ss_stakeholders s) ''stakeholders not configured'') (\<lambda>stakeholders.
      bindr (share_loop revenue_amount stakeholders [] 0) (\<lambda>(amounts, total_distributed).
      bindr (chk_or ''residual underflow'' (revenue_amount - total_distributed)) (\<lambda>residual.
      bindr (add_residual residual amounts) (\<lambda>amounts1.
      bindr (assert_amounts_sum amounts1 revenue_amount) (\<lambda>_.
      bindr (expectr (ss_token s) ''token not configured'') (\<lambda>token.
      bindr (assertr (revenue_amount \<le> tok_balance T token business w1) ''insufficient token balance for distribution'') (\<lambda>_.
      bindr (verify_and_increment_nonce (ss_nonces s) business NONCE_CHANNEL_DISTRIBUTE nonce) (\<lambda>n.
      bindr (pay_loop T token business stakeholders amounts1 w1) (\<lambda>w2.
      (let count = unwrap_or (ss_counts s business) 0 in
       bindr (assertr (count + 1 \<le> u64_max) ''count overflow'') (\<lambda>_.
       Inr (s\<lparr>ss_nonces := n,
              ss_distributions := (ss_distributions s)((business, period) \<mapsto>
                \<lparr>dr_total_amount = revenue_amount, dr_timestamp = timestamp env, dr_amounts = amounts1\<rparr>),
              ss_counts := (ss_counts s)(business \<mapsto> count + 1)\<rparr>, w2)))))))))))))))))))"

section \<open>Queries\<close>

definition get_max_period_bytes :: nat where "get_max_period_bytes = MAX_PERIOD_BYTES"

definition get_stakeholders :: "share_state \<Rightarrow> stakeholder list option" where
  "get_stakeholders s = ss_stakeholders s"

definition get_distribution :: "share_state \<Rightarrow> address \<Rightarrow> sstring \<Rightarrow> distribution_record option" where
  "get_distribution s business period = ss_distributions s (business, period)"

definition get_distribution_count :: "share_state \<Rightarrow> address \<Rightarrow> nat" where
  "get_distribution_count s business = unwrap_or (ss_counts s business) 0"

definition share_get_admin :: "share_state \<Rightarrow> address res" where
  "share_get_admin s = expectr (ss_admin s) ''contract not initialized''"

definition share_get_attestation_contract :: "share_state \<Rightarrow> address res" where
  "share_get_attestation_contract s = expectr (ss_attestation_contract s) ''attestation contract not configured''"

definition share_get_token :: "share_state \<Rightarrow> address res" where
  "share_get_token s = expectr (ss_token s) ''not initialized''"

definition share_get_replay_nonce :: "share_state \<Rightarrow> address \<Rightarrow> nat \<Rightarrow> nat" where
  "share_get_replay_nonce s actor channel = get_nonce (ss_nonces s) actor channel"

section \<open>The split\<close>

definition stakeholders_ok :: "stakeholder list \<Rightarrow> bool" where
  "stakeholders_ok ks \<longleftrightarrow> 1 \<le> length ks \<and> length ks \<le> 50 \<and> distinct (map sh_address ks) \<and>
     (\<forall>k\<in>set ks. 1 \<le> sh_bps k) \<and> sum_list (map sh_bps ks) = 10000"

lemma check_stakeholders_Inr:
  "check_stakeholders n ks = Inr m \<Longrightarrow>
     m = n + sum_list (map sh_bps ks) \<and> distinct (map sh_address ks) \<and> (\<forall>k\<in>set ks. 1 \<le> sh_bps k)"
proof (induction n ks rule: check_stakeholders.induct)
  case (2 n k ks)
  then show ?case by (fastforce simp: list_all_iff)
qed simp

text \<open>The reference: everybody the floor of its share, the first also what is left.\<close>

definition floor_share :: "int \<Rightarrow> stakeholder \<Rightarrow> int" where
  "floor_share revenue k = revenue * int (sh_bps k) div 10000"

definition floor_sum :: "int \<Rightarrow> stakeholder list \<Rightarrow> int" where
  "floor_sum revenue ks = sum_list (map (floor_share revenue) ks)"

definition split_shares :: "int \<Rightarrow> stakeholder list \<Rightarrow> int list" where
  "split_shares revenue ks =
     (floor_share revenue (hd ks) + (revenue - floor_sum revenue ks)) # map (floor_share revenue) (tl ks)"

lemma chk_or_Inr [simp]: "chk_or msg x = Inr y \<longleftrightarrow> y = x \<and> in_i128 x"
  by (auto simp: chk_or_def)

lemma calculate_share_Inr:
  "0 \<le> r \<Longrightarrow> calculate_share r (sh_bps k) = Inr x \<longleftrightarrow> in_i128 (r * int (sh_bps k)) \<and> x = floor_share r k"
  by (auto simp: calculate_share_def floor_share_def trunc_div_nonneg)

lemma share_loop_Inr:
  "0 \<le> r \<Longrightarrow> share_loop r ks xs t = Inr (ys, u) \<Longrightarrow> ys = xs @ map (floor_share r) ks \<and> u = t + floor_sum r ks"
  by (induction ks arbitrary: xs t) (fastforce simp: calculate_share_Inr floor_sum_def)+

lemma sum_loop_Inr: "sum_loop n xs = Inr m \<Longrightarrow> m = n + sum_list xs"
  by (induction xs arbitrary: n) fastforce+

lemma floor_share_nonneg: "0 \<le> r \<Longrightarrow> 0 \<le> floor_share r k"
  by (simp add: floor_share_def pos_imp_zdiv_nonneg_iff)

lemma floor_sum_le: "10000 * floor_sum r ks \<le> r * int (sum_list (map sh_bps ks))"
  and floor_sum_ge: "r * int (sum_list (map sh_bps ks)) \<le> 10000 * floor_sum r ks + 9999 * int (length ks)"
proof (induction ks)
  case (Cons k ks)
  have *: "10000 * floor_share r k \<le> r * int (sh_bps k)" "r * int (sh_bps k) \<le> 10000 * floor_share r k + 9999"
    unfolding floor_share_def by presburger+
  { case 1
    show ?case using Cons.IH(1) *(1) by (simp add: floor_sum_def algebra_simps)
  next
    case 2
    show ?case using Cons.IH(2) *(2) by (simp add: floor_sum_def algebra_simps) }
qed (simp_all add: floor_sum_def)

lemma residual_bounds:
  assumes "stakeholders_ok ks"
  shows "0 \<le> r - floor_sum r ks" and "r - floor_sum r ks < int (length ks)"
  using floor_sum_le [of r ks] floor_sum_ge [of r ks] assms by (auto simp: stakeholders_ok_def)

lemma split_sum: "ks \<noteq> [] \<Longrightarrow> sum_list (split_shares r ks) = r"
  by (cases ks) (simp_all add: split_shares_def floor_sum_def)

lemma split_nonneg: "0 \<le> r \<Longrightarrow> stakeholders_ok ks \<Longrightarrow> x \<in> set (split_shares r ks) \<Longrightarrow> 0 \<le> x"
  using residual_bounds(1) [of ks r] by (auto simp: split_shares_def floor_share_nonneg)

lemma split_length: "ks \<noteq> [] \<Longrightarrow> length (split_shares r ks) = length ks"
  by (cases ks) (simp_all add: split_shares_def)

lemma distribute_cases:
  assumes "distribute_revenue sha T C env b p r n (s, w) = Inr (s', w')" and "\<forall>ks. ss_stakeholders s = Some ks \<longrightarrow> stakeholders_ok ks"
  obtains c w1 ks t m where "authorized env b" "length p \<le> 128" "0 \<le> r" "ss_distributions s (b, p) = None"
    "assert_revenue_attested sha C c b p r w = Inr w1" "ss_attestation_contract s = Some c"
    "ss_stakeholders s = Some ks" "stakeholders_ok ks" "ss_token s = Some t" "r \<le> tok_balance T t b w1"
    "verify_and_increment_nonce (ss_nonces s) b NONCE_CHANNEL_DISTRIBUTE n = Inr m"
    "pay_loop T t b ks (split_shares r ks) w1 = Inr w'"
    "s' = s\<lparr>ss_nonces := m, ss_distributions := (ss_distributions s)((b, p) \<mapsto>
        \<lparr>dr_total_amount = r, dr_timestamp = timestamp env, dr_amounts = split_shares r ks\<rparr>),
      ss_counts := (ss_counts s)(b \<mapsto> unwrap_or (ss_counts s b) 0 + 1)\<rparr>"
proof -
  from assms(1) obtain c w1 ks t m xs u ys where *: "authorized env b" "length p \<le> 128" "0 \<le> r" "ss_distributions s (b, p) = None"
    "assert_revenue_attested sha C c b p r w = Inr w1" "ss_attestation_contract s = Some c" "ss_stakeholders s = Some ks"
    and **: "ss_token s = Some t" "r \<le> tok_balance T t b w1"
    "verify_and_increment_nonce (ss_nonces s) b NONCE_CHANNEL_DISTRIBUTE n = Inr m"
    and l: "share_loop r ks [] 0 = Inr (xs, u)" "add_residual (r - u) xs = Inr ys"
    and r: "pay_loop T t b ks ys w1 = Inr w'"
    "s' = s\<lparr>ss_nonces := m, ss_distributions := (ss_distributions s)((b, p) \<mapsto>
        \<lparr>dr_total_amount = r, dr_timestamp = timestamp env, dr_amounts = ys\<rparr>),
      ss_counts := (ss_counts s)(b \<mapsto> unwrap_or (ss_counts s b) 0 + 1)\<rparr>"
    by (auto simp: distribute_revenue_def Let_def assert_period_within_limit_def MAX_PERIOD_BYTES_def)
  from assms(2) * have ok: "stakeholders_ok ks" by simp
  then obtain k ks' where ks: "ks = k # ks'" by (cases ks) (auto simp: stakeholders_ok_def)
  from share_loop_Inr [OF *(3) l(1)] have xs: "xs = map (floor_share r) ks" "u = floor_sum r ks" by simp_all
  have ys: "ys = split_shares r ks"
  proof (cases "0 < r - u")
    case True
    with l(2) show ?thesis by (auto simp: add_residual_def xs ks split_shares_def)
  next
    case False
    with residual_bounds(1) [OF ok, of r] have "r - floor_sum r ks = 0" by (simp add: xs)
    with False l(2) show ?thesis by (simp add: add_residual_def xs ks split_shares_def)
  qed
  show thesis by (rule that [OF * ok ** r [unfolded ys]])
qed

section \<open>The machine\<close>

text \<open>An event carries the environment of the call and the ledger it finds.\<close>

datatype share_call =
    ShInit address nat address address
  | ShConfigure nat "stakeholder list"
  | ShSetAttestation nat address
  | ShSetToken nat address
  | ShDistribute address sstring int nat

type_synonym 'w share_event = "ledger_env \<times> 'w \<times> share_call"

fun share_step ::
  "(byte list \<Rightarrow> bytesn) \<Rightarrow> 'w token_ops \<Rightarrow> 'w att_client \<Rightarrow> 'w share_event \<Rightarrow> share_state \<Rightarrow> share_state res" where
  "share_step sha T C (env, w, ShInit a n c t) s = share_initialize env a n c t s"
| "share_step sha T C (env, w, ShConfigure n ks) s = configure_stakeholders env n ks s"
| "share_step sha T C (env, w, ShSetAttestation n a) s = share_set_attestation_contract env n a s"
| "share_step sha T C (env, w, ShSetToken n a) s = share_set_token env n a s"
| "share_step sha T C (env, w, ShDistribute b p r n) s =
     bindr (distribute_revenue sha T C env b p r n (s, w)) (\<lambda>(s', _). Inr s')"

definition distributed_periods :: "share_state \<Rightarrow> address \<Rightarrow> sstring set" where
  "distributed_periods s b = {p. ss_distributions s (b, p) \<noteq> None}"

definition shares_ok :: "share_state \<Rightarrow> bool" where
  "shares_ok s \<longleftrightarrow> (\<forall>ks. ss_stakeholders s = Some ks \<longrightarrow> stakeholders_ok ks) \<and>
     (\<forall>k d. ss_distributions s k = Some d \<longrightarrow> sum_list (dr_amounts d) = dr_total_amount d \<and> (\<forall>x\<in>set (dr_amounts d). 0 \<le> x)) \<and>
     (\<forall>b. finite (distributed_periods s b) \<and> get_distribution_count s b = card (distributed_periods s b))"

lemma require_admin_cases:
  assumes "require_admin_with_nonce env n s = Inr (a, s1)"
  obtains m where "ss_admin s = Some a" "authorized env a" "s1 = s\<lparr>ss_nonces := m\<rparr>"
  using assms by (auto simp: require_admin_with_nonce_def)

lemma shares_ok_frame:
  "shares_ok s \<Longrightarrow> ss_stakeholders s' = ss_stakeholders s \<Longrightarrow> ss_distributions s' = ss_distributions s \<Longrightarrow>
   ss_counts s' = ss_counts s \<Longrightarrow> shares_ok s'"
  by (simp add: shares_ok_def distributed_periods_def get_distribution_count_def)

lemma distribute_ok:
  assumes ok: "shares_ok s" and "distribute_revenue sha T C env b p r n (s, w) = Inr (s', w')"
  shows "shares_ok s'"
proof (rule distribute_cases [OF assms(2)])
  show "\<forall>ks. ss_stakeholders s = Some ks \<longrightarrow> stakeholders_ok ks" using ok by (simp add: shares_ok_def)
next
  fix ks m
  assume new: "ss_distributions s (b, p) = None" and r: "0 \<le> r" and ks: "stakeholders_ok ks"
    and s': "s' = s\<lparr>ss_nonces := m, ss_distributions := (ss_distributions s)((b, p) \<mapsto>
        \<lparr>dr_total_amount = r, dr_timestamp = timestamp env, dr_amounts = split_shares r ks\<rparr>),
      ss_counts := (ss_counts s)(b \<mapsto> unwrap_or (ss_counts s b) 0 + 1)\<rparr>"
  have dp: "distributed_periods s' c = (if c = b then insert p (distributed_periods s b) else distributed_periods s c)" for c
    by (auto simp: s' distributed_periods_def)
  have "p \<notin> distributed_periods s b" using new by (simp add: distributed_periods_def)
  with ok have "finite (distributed_periods s' c) \<and> get_distribution_count s' c = card (distributed_periods s' c)" for c
    unfolding dp by (auto simp: shares_ok_def get_distribution_count_def s')
  moreover have "ks \<noteq> []" using ks by (auto simp: stakeholders_ok_def)
  ultimately show ?thesis
    using ok split_sum [of ks r] split_nonneg [OF r ks] by (auto simp: shares_ok_def s' split: if_splits)
qed

lemma share_step_ok:
  assumes ok: "shares_ok s" and "share_step sha T C e s = Inr s'"
  shows "shares_ok s'"
proof -
  obtain env w c where e: "e = (env, w, c)" by (cases e)
  show ?thesis
  proof (cases c)
    case (ShInit a n b t)
    with assms e show ?thesis by (auto simp: share_initialize_def intro: shares_ok_frame)
  next
    case (ShConfigure n ks)
    with assms(2) e obtain a s1 where g: "require_admin_with_nonce env n s = Inr (a, s1)"
      and "0 < length ks" "length ks \<le> 50" "check_stakeholders 0 ks = Inr 10000" and s': "s' = s1\<lparr>ss_stakeholders := Some ks\<rparr>"
      by (auto simp: configure_stakeholders_def)
    with check_stakeholders_Inr [of 0 ks 10000] have "stakeholders_ok ks" by (auto simp: stakeholders_ok_def Suc_le_eq)
    with g ok show ?thesis
      by (auto simp: s' shares_ok_def distributed_periods_def get_distribution_count_def elim!: require_admin_cases)
  next
    case (ShSetAttestation n a)
    with assms e show ?thesis
      by (auto simp: share_set_attestation_contract_def elim!: require_admin_cases intro: shares_ok_frame)
  next
    case (ShSetToken n a)
    with assms e show ?thesis by (auto simp: share_set_token_def elim!: require_admin_cases intro: shares_ok_frame)
  next
    case (ShDistribute b p r n)
    with assms e show ?thesis by (auto intro: distribute_ok)
  qed
qed

interpretation shares: invariant_machine "\<lambda>s. s = share_empty" "share_step sha T C" shares_ok for sha T C
proof
  show "shares_ok s" if "s = share_empty" for s
    using that by (simp add: shares_ok_def share_empty_def distributed_periods_def get_distribution_count_def)
  show "shares_ok s'" if "shares_ok s" "share_step sha T C e s = Inr s'" for s e s'
    using that by (rule share_step_ok)
qed

lemma share_step_keeps:
  assumes "shares_ok s" and "share_step sha T C e s = Inr s'" and "ss_distributions s k = Some d"
  shows "ss_distributions s' k = Some d"
proof -
  obtain env w c where e: "e = (env, w, c)" by (cases e)
  show ?thesis
  proof (cases c)
    case (ShDistribute b p r n)
    with assms(2) e obtain w' where "distribute_revenue sha T C env b p r n (s, w) = Inr (s', w')" by auto
    moreover have "\<forall>ks. ss_stakeholders s = Some ks \<longrightarrow> stakeholders_ok ks" using assms(1) by (simp add: shares_ok_def)
    ultimately show ?thesis by (rule distribute_cases) (use assms(3) in auto)
  qed (use assms(2,3) e in \<open>auto simp: share_initialize_def configure_stakeholders_def share_set_attestation_contract_def
      share_set_token_def elim!: require_admin_cases\<close>)
qed

section \<open>The transfers of a distribution\<close>

definition received :: "stakeholder list \<Rightarrow> int list \<Rightarrow> address \<Rightarrow> int" where
  "received ks amounts a = sum_list (map snd (filter (\<lambda>(k, x). sh_address k = a) (zip ks amounts)))"

lemma received_Cons: "received (k # ks) (x # xs) a = (if sh_address k = a then x else 0) + received ks xs a"
  by (simp add: received_def)

lemma pay_loop_balances:
  assumes "sep41 T" and "pay_loop T t b ks xs w = Inr w'" and "length xs = length ks" and "\<forall>x\<in>set xs. 0 \<le> x"
  shows "tok_balance T t a w' = tok_balance T t a w + received ks xs a - (if a = b then sum_list xs else 0)"
  using assms(2-4)
proof (induction ks arbitrary: xs w)
  case Nil
  then show ?case by (simp add: received_def)
next
  case (Cons k ks)
  then obtain x ys where xs: "xs = x # ys" by (cases xs) auto
  with Cons.prems obtain w1 where w1: "(if 0 < x then transferr T t b (sh_address k) x w else Inr w) = Inr w1"
    and r: "pay_loop T t b ks ys w1 = Inr w'" and x: "0 \<le> x" by auto
  have "tok_balance T t a w1 = tok_balance T t a w + moved b (sh_address k) x a"
  proof (cases "0 < x")
    case True
    with w1 have "tok_transfer T t b (sh_address k) x w = Some w1" by simp
    then show ?thesis using sep41_transfer(3) [OF assms(1)] by simp
  next
    case False
    with w1 x show ?thesis by (simp add: moved_def)
  qed
  moreover have "tok_balance T t a w' = tok_balance T t a w1 + received ks ys a - (if a = b then sum_list ys else 0)"
    using Cons.IH [OF r] Cons.prems(2,3) xs by simp
  ultimately show ?case by (simp add: xs received_Cons moved_def)
qed

text \<open>A token that lets everybody move what it has.\<close>

definition pays :: "'w token_ops \<Rightarrow> bool" where
  "pays T \<longleftrightarrow> (\<forall>t a b n w. 0 \<le> n \<longrightarrow> n \<le> tok_balance T t a w \<longrightarrow> tok_transfer T t a b n w \<noteq> None)"

lemma pay_loop_total:
  assumes "sep41 T" and "pays T" and "length xs = length ks" and "\<forall>x\<in>set xs. 0 \<le> x" and "sum_list xs \<le> tok_balance T t b w"
  shows "\<exists>w'. pay_loop T t b ks xs w = Inr w'"
  using assms(3-5)
proof (induction ks arbitrary: xs w)
  case Nil
  then show ?case by simp
next
  case (Cons k ks)
  then obtain x ys where xs: "xs = x # ys" by (cases xs) auto
  with Cons.prems have x: "0 \<le> x" and ys: "\<forall>y\<in>set ys. 0 \<le> y" "length ys = length ks" by simp_all
  then have "0 \<le> sum_list ys" by (intro sum_list_nonneg) simp
  with Cons.prems xs have le: "x \<le> tok_balance T t b w" by simp
  have "\<exists>w1. (if 0 < x then transferr T t b (sh_address k) x w else Inr w) = Inr w1 \<and> sum_list ys \<le> tok_balance T t b w1"
  proof (cases "0 < x")
    case True
    from assms(2) x le obtain w1 where w1: "tok_transfer T t b (sh_address k) x w = Some w1" unfolding pays_def by blast
    have "tok_balance T t b w - x \<le> tok_balance T t b w1"
      using sep41_transfer(3) [OF assms(1) w1, where a = b] x by (simp add: moved_def)
    with True w1 Cons.prems(3) xs show ?thesis by simp
  qed (use Cons.prems(3) xs x in simp)
  then obtain w1 where "(if 0 < x then transferr T t b (sh_address k) x w else Inr w) = Inr w1"
    "sum_list ys \<le> tok_balance T t b w1" by blast
  with Cons.IH [OF ys(2,1), of w1] show ?case by (simp add: xs)
qed

lemma floor_share_le: "0 \<le> r \<Longrightarrow> 10000 * floor_share r k \<le> r * int (sh_bps k)"
  unfolding floor_share_def by presburger

lemma share_loop_total:
  assumes "0 \<le> r" and "r * 10000 \<le> i128_max"
  shows "0 \<le> t \<Longrightarrow> t + r * int (sum_list (map sh_bps ks)) \<le> i128_max \<Longrightarrow> (\<forall>k\<in>set ks. sh_bps k \<le> 10000) \<Longrightarrow>
    share_loop r ks xs t = Inr (xs @ map (floor_share r) ks, t + floor_sum r ks)"
proof (induction ks arbitrary: xs t)
  case Nil
  then show ?case by (simp add: floor_sum_def)
next
  case (Cons k ks)
  have "r * int (sh_bps k) \<le> r * 10000" using Cons.prems(3) assms(1) by (intro mult_left_mono) simp_all
  with assms have i: "in_i128 (r * int (sh_bps k))" by (simp add: i128_nonneg)
  have f: "0 \<le> floor_share r k" "floor_share r k \<le> r * int (sh_bps k)"
    using floor_share_nonneg [OF assms(1)] floor_share_le [OF assms(1), of k] by (auto intro: order.trans [rotated])
  have s: "t + (r * int (sh_bps k) + r * int (sum_list (map sh_bps ks))) \<le> i128_max"
    using Cons.prems(2) by (simp add: algebra_simps)
  moreover have "0 \<le> r * int (sum_list (map sh_bps ks))" using assms(1) by simp
  ultimately have "in_i128 (t + floor_share r k)" using f Cons.prems(1) by (simp add: i128_nonneg)
  moreover have "share_loop r ks (xs @ [floor_share r k]) (t + floor_share r k) =
      Inr ((xs @ [floor_share r k]) @ map (floor_share r) ks, t + floor_share r k + floor_sum r ks)"
    using Cons.prems s f by (intro Cons.IH) simp_all
  moreover have "calculate_share r (sh_bps k) = Inr (floor_share r k)" using i by (simp add: calculate_share_Inr assms(1))
  ultimately show ?case by (simp add: chk_or_def floor_sum_def)
qed

lemma sum_loop_total:
  "0 \<le> n \<Longrightarrow> \<forall>x\<in>set xs. 0 \<le> x \<Longrightarrow> n + sum_list xs \<le> i128_max \<Longrightarrow> sum_loop n xs = Inr (n + sum_list xs)"
proof (induction xs arbitrary: n)
  case (Cons x xs)
  have "0 \<le> sum_list xs" using Cons.prems(2) by (intro sum_list_nonneg) simp
  then have "in_i128 (n + x)" using Cons.prems by (simp add: i128_nonneg)
  with Cons show ?case by (simp add: chk_or_def)
qed simp

lemma add_residual_total:
  assumes "stakeholders_ok ks" and "0 \<le> r" and "r \<le> i128_max"
  shows "add_residual (r - floor_sum r ks) (map (floor_share r) ks) = Inr (split_shares r ks)"
proof -
  obtain k ks' where ks: "ks = k # ks'" using assms(1) by (cases ks) (auto simp: stakeholders_ok_def)
  have "0 \<le> sum_list (map (floor_share r) ks')" by (intro sum_list_nonneg) (auto simp: floor_share_nonneg assms(2))
  moreover have "sum_list (split_shares r ks) = r" by (rule split_sum) (simp add: ks)
  ultimately have "floor_share r k + (r - floor_sum r ks) \<le> r" by (simp add: split_shares_def ks)
  moreover have "0 \<le> floor_share r k + (r - floor_sum r ks)"
    using residual_bounds(1) [OF assms(1)] floor_share_nonneg [OF assms(2)] by simp
  ultimately have "in_i128 (floor_share r k + (r - floor_sum r ks))" using assms(3) by (simp add: i128_nonneg)
  moreover have "0 < r - floor_sum r ks \<or> r - floor_sum r ks = 0" using residual_bounds(1) [OF assms(1), of r] by linarith
  ultimately show ?thesis by (auto simp: add_residual_def split_shares_def ks chk_or_def)
qed

lemma bps_le:
  assumes "stakeholders_ok ks" and "k \<in> set ks"
  shows "sh_bps k \<le> 10000"
  using assms member_le_sum_list [of "sh_bps k" "map sh_bps ks"] by (auto simp: stakeholders_ok_def)

section \<open>What the contract promises\<close>

text \<open>
  C26. A configured split is always well formed: one to fifty stakeholders with distinct addresses, each with at
  least one basis point, 10000 in all.
\<close>

theorem stakeholders_well_formed:
  assumes "reachable (\<lambda>s. s = share_empty) (share_step sha T C) s" and "ss_stakeholders s = Some ks"
  shows "1 \<le> length ks \<and> length ks \<le> 50 \<and> distinct (map sh_address ks) \<and> (\<forall>k\<in>set ks. 1 \<le> sh_bps k) \<and>
    sum_list (map sh_bps ks) = 10000"
  using shares.reachable_inv [OF assms(1)] assms(2) by (simp add: shares_ok_def stakeholders_ok_def)

text \<open>
  C27. A distribution splits the attested amount exactly. Everybody gets the floor of its share and the first also the
  residual, which is less than one unit per stakeholder; the amounts are recorded, add up to the revenue, and
  under a token that keeps to SEP-41 they are what the recipients gain and the business loses.
\<close>

theorem distribution_splits_exactly:
  assumes "reachable (\<lambda>s. s = share_empty) (share_step sha T C) s" and "sep41 T" and "quiet_client T C"
    and "distribute_revenue sha T C env b p r n (s, w) = Inr (s', w')"
  shows "\<exists>ks t. ss_stakeholders s = Some ks \<and> ss_token s = Some t \<and>
    0 \<le> r - floor_sum r ks \<and> r - floor_sum r ks < int (length ks) \<and> sum_list (split_shares r ks) = r \<and>
    ss_distributions s' (b, p) = Some \<lparr>dr_total_amount = r, dr_timestamp = timestamp env, dr_amounts = split_shares r ks\<rparr> \<and>
    (\<forall>a. tok_balance T t a w' =
       tok_balance T t a w + received ks (split_shares r ks) a - (if a = b then r else 0))"
proof (rule distribute_cases [OF assms(4)])
  show "\<forall>ks. ss_stakeholders s = Some ks \<longrightarrow> stakeholders_ok ks"
    using shares.reachable_inv [OF assms(1)] by (simp add: shares_ok_def)
next
  fix c w1 ks t m
  assume r: "0 \<le> r" and at: "assert_revenue_attested sha C c b p r w = Inr w1" and ks: "ss_stakeholders s = Some ks" "stakeholders_ok ks"
    and t: "ss_token s = Some t" and pay: "pay_loop T t b ks (split_shares r ks) w1 = Inr w'"
    and s': "s' = s\<lparr>ss_nonces := m, ss_distributions := (ss_distributions s)((b, p) \<mapsto>
        \<lparr>dr_total_amount = r, dr_timestamp = timestamp env, dr_amounts = split_shares r ks\<rparr>),
      ss_counts := (ss_counts s)(b \<mapsto> unwrap_or (ss_counts s b) 0 + 1)\<rparr>"
  have ne: "ks \<noteq> []" using ks(2) by (auto simp: stakeholders_ok_def)
  from at obtain x w2 w3 where "ac_get_attestation C c b p w = Inr (x, w2)"
    "ac_get_revocation_info C c b p w2 = Inr (None, w3)" "ac_is_expired C c b p w3 = Inr (False, w1)"
    unfolding assert_revenue_attested_def by (auto split: prod.splits)
  then have quiet: "tok_balance T t a w1 = tok_balance T t a w" for a
    using quiet_clientD [OF assms(3)] by metis
  have "tok_balance T t a w' = tok_balance T t a w + received ks (split_shares r ks) a - (if a = b then r else 0)" for a
    using pay_loop_balances [OF assms(2) pay split_length [OF ne], where a = a] split_nonneg [OF r ks(2)]
    by (simp add: quiet split_sum [OF ne])
  with ks t residual_bounds [OF ks(2), of r] split_sum [OF ne] show ?thesis by (simp add: s')
qed

text \<open>
  C28. A distribution that is due goes through. If the business signs with its next nonce, the amount is attested, not
  yet distributed, covered by the balance and at most a ten-thousandth of the i128 range, and the token lets everybody
  move what it has, then the call returns: none of the arithmetic checks and sum assertions of the source fails.
\<close>

theorem due_distribution_succeeds:
  assumes "reachable (\<lambda>s. s = share_empty) (share_step sha T C) s" and "sep41 T" and "pays T"
    and "authorized env b" and "length p \<le> 128" and "0 \<le> r" and "r * 10000 \<le> i128_max"
    and "ss_distributions s (b, p) = None" and "ss_attestation_contract s = Some c"
    and "assert_revenue_attested sha C c b p r w = Inr w1" and "ss_stakeholders s = Some ks" and "ss_token s = Some t"
    and "r \<le> tok_balance T t b w1" and "get_nonce (ss_nonces s) b NONCE_CHANNEL_DISTRIBUTE < u64_max"
    and "get_distribution_count s b < u64_max"
  shows "\<exists>s' w'. distribute_revenue sha T C env b p r (get_nonce (ss_nonces s) b NONCE_CHANNEL_DISTRIBUTE) (s, w) = Inr (s', w')"
proof -
  have ks: "stakeholders_ok ks" using shares.reachable_inv [OF assms(1)] assms(11) by (simp add: shares_ok_def)
  then have ne: "ks \<noteq> []" by (auto simp: stakeholders_ok_def)
  have r: "r \<le> i128_max" using assms(6,7) by linarith
  have loop: "share_loop r ks [] 0 = Inr (map (floor_share r) ks, floor_sum r ks)"
    using share_loop_total [OF assms(6,7), of 0 ks "[]"] ks assms(7) bps_le [OF ks] by (simp add: stakeholders_ok_def)
  note nn = split_nonneg [OF assms(6) ks]
  have sum: "assert_amounts_sum (split_shares r ks) r = Inr ()"
    using sum_loop_total [of 0 "split_shares r ks"] nn r by (simp add: assert_amounts_sum_def split_sum [OF ne])
  obtain w2 where w2: "pay_loop T t b ks (split_shares r ks) w1 = Inr w2"
    using pay_loop_total [OF assms(2,3) split_length [OF ne]] nn assms(13) split_sum [OF ne, of r] by metis
  have "in_i128 (r - floor_sum r ks)"
    using residual_bounds [OF ks, of r] ks by (auto simp: i128_nonneg stakeholders_ok_def i128_max_def)
  then show ?thesis
    using assms loop add_residual_total [OF ks assms(6) r] sum w2
    by (simp add: distribute_revenue_def assert_period_within_limit_def MAX_PERIOD_BYTES_def chk_or_def Let_def
        verify_and_increment_nonce_def get_distribution_count_def)
qed

text \<open>
  A period is distributed once. A distribution that is on record stays as it is, along every later history of
  calls, and the counter of a business is the number of its distributed periods.
\<close>

theorem distributions_are_final:
  assumes "reachable (\<lambda>s. s = share_empty) (share_step sha T C) s" and "ss_distributions s (b, p) = Some d"
  shows "ss_distributions (run (share_step sha T C) es s) (b, p) = Some d \<and>
    get_distribution_count (run (share_step sha T C) es s) b = card (distributed_periods (run (share_step sha T C) es s) b)"
proof -
  note ok = shares.reachable_inv [OF assms(1)]
  have "ss_distributions s (b, p) = Some d \<longrightarrow> ss_distributions (run (share_step sha T C) es s) (b, p) = Some d"
    by (rule shares.run_rel [OF ok, where R = "\<lambda>s s'. ss_distributions s (b, p) = Some d \<longrightarrow> ss_distributions s' (b, p) = Some d"])
      (auto dest: share_step_keeps)
  moreover have "shares_ok (run (share_step sha T C) es s)" by (rule shares.run_inv [OF ok])
  ultimately show ?thesis using assms(2) by (simp add: shares_ok_def)
qed

section \<open>Witnesses\<close>

text \<open>Three stakeholders share 10001 units; SHA-256 is stood in for by a constant.\<close>

definition share_demo_sha :: "byte list \<Rightarrow> bytesn" where "share_demo_sha bs = BytesN []"

definition share_demo_split :: "stakeholder list" where
  "share_demo_split = [\<lparr>sh_address = ''a'', sh_bps = 3334\<rparr>, \<lparr>sh_address = ''b'', sh_bps = 3333\<rparr>, \<lparr>sh_address = ''c'', sh_bps = 3333\<rparr>]"

abbreviation share_demo_client :: "ref_ledger att_client" where
  "share_demo_client \<equiv> client_of (BytesN [], 0, 2, 0, None, None)"

definition share_demo :: share_state where
  "share_demo = run (share_step share_demo_sha ref_token share_demo_client)
     [(env_at 0 0, (\<lambda>_ _. 0), ShInit ''admin'' 0 ''att'' ''token''), (env_at 1 1, (\<lambda>_ _. 0), ShConfigure 1 share_demo_split)]
     share_empty"

lemma share_demo_state:
  "share_demo = share_empty\<lparr>ss_admin := Some ''admin'', ss_attestation_contract := Some ''att'', ss_token := Some ''token'',
     ss_stakeholders := Some share_demo_split, ss_nonces := [(''admin'', 1) \<mapsto> 2]\<rparr>"
  by (simp add: share_demo_def exec_def share_initialize_def configure_stakeholders_def require_admin_with_nonce_def
      verify_and_increment_nonce_def get_nonce_def SHARE_CHANNEL_ADMIN_def share_empty_def u64_max_def u32_max_def share_demo_split_def numeral_2_eq_2)

lemma share_demo_reachable:
  "reachable (\<lambda>s. s = share_empty) (share_step share_demo_sha ref_token share_demo_client) share_demo"
  unfolding share_demo_def by (rule reachable_run, rule reachable_start) simp

lemma ref_token_pays: "pays ref_token"
  by (simp add: pays_def ref_token_def)

lemma share_demo_attested: "assert_revenue_attested share_demo_sha share_demo_client ''att'' ''biz'' ''2024-01'' 10001 w = Inr w"
  by (simp add: assert_revenue_attested_def share_demo_sha_def)

lemma stakeholders_well_formed_witness: "sum_list (map sh_bps share_demo_split) = 10000"
  using stakeholders_well_formed [OF share_demo_reachable, of share_demo_split] by (simp add: share_demo_state)

lemma due_distribution_succeeds_witness:
  "\<exists>s' w'. distribute_revenue share_demo_sha ref_token share_demo_client (env_at 5 5) ''biz'' ''2024-01'' 10001
     (get_nonce (ss_nonces share_demo) ''biz'' NONCE_CHANNEL_DISTRIBUTE) (share_demo, (\<lambda>_ _. 20000)) = Inr (s', w')"
  by (rule due_distribution_succeeds [OF share_demo_reachable ref_token_sep41 ref_token_pays, where c = "''att''" and t = "''token''"
      and ?w1.0 = "\<lambda>_ _. 20000" and ks = share_demo_split])
    (simp_all add: share_demo_state share_empty_def share_demo_attested ref_token_def i128_max_def get_nonce_def
      NONCE_CHANNEL_DISTRIBUTE_def u64_max_def get_distribution_count_def)

lemma share_demo_distributes:
  "\<exists>s' w'. distribute_revenue share_demo_sha ref_token share_demo_client (env_at 5 5) ''biz'' ''2024-01'' 10001 0
     (share_demo, (\<lambda>_ _. 20000)) = Inr (s', w')"
  by (simp add: distribute_revenue_def assert_period_within_limit_def MAX_PERIOD_BYTES_def share_demo_attested share_demo_state
      share_empty_def share_demo_split_def calculate_share_def chk_or_def in_i128_def i128_min_def i128_max_def trunc_div_nonneg
      add_residual_def assert_amounts_sum_def verify_and_increment_nonce_def get_nonce_def NONCE_CHANNEL_DISTRIBUTE_def
      u64_max_def ref_token_def transferr_def moved_def Let_def)

lemma distribution_splits_exactly_witness:
  "\<exists>s' :: share_state. \<exists>w'. ss_distributions s' (''biz'', ''2024-01'') =
     Some \<lparr>dr_total_amount = 10001, dr_timestamp = 5, dr_amounts = [3335, 3333, 3333]\<rparr> \<and> tok_balance ref_token ''token'' ''biz'' w' = 9999"
proof -
  obtain s' w' where d: "distribute_revenue share_demo_sha ref_token share_demo_client (env_at 5 5) ''biz'' ''2024-01'' 10001 0
     (share_demo, (\<lambda>_ _. 20000)) = Inr (s', w')" using share_demo_distributes by blast
  have "split_shares 10001 share_demo_split = [3335, 3333, 3333]"
    by (simp add: split_shares_def floor_sum_def floor_share_def share_demo_split_def)
  with distribution_splits_exactly [OF share_demo_reachable ref_token_sep41 client_of_simps(5) d]
  have "ss_distributions s' (''biz'', ''2024-01'') =
     Some \<lparr>dr_total_amount = 10001, dr_timestamp = 5, dr_amounts = [3335, 3333, 3333]\<rparr>" "tok_balance ref_token ''token'' ''biz'' w' = 9999"
    by (auto simp: share_demo_state ref_token_def received_def share_demo_split_def)
  then show ?thesis by blast
qed

lemma distributions_are_final_witness:
  "\<exists>s' d. ss_distributions (run (share_step share_demo_sha ref_token share_demo_client)
     [(env_at 9 9, (\<lambda>_ _. 20000), ShDistribute ''biz'' ''2024-01'' 10001 1)] s') (''biz'', ''2024-01'') =
     Some (d :: distribution_record)"
proof -
  obtain s' w' where d: "distribute_revenue share_demo_sha ref_token share_demo_client (env_at 5 5) ''biz'' ''2024-01'' 10001 0
     (share_demo, (\<lambda>_ _. 20000)) = Inr (s', w')" using share_demo_distributes by blast
  have st: "share_step share_demo_sha ref_token share_demo_client (env_at 5 5, (\<lambda>_ _. 20000), ShDistribute ''biz'' ''2024-01'' 10001 0)
      share_demo = Inr s'" using d by simp
  have r: "reachable (\<lambda>s. s = share_empty) (share_step share_demo_sha ref_token share_demo_client) s'"
    by (rule reachable_call, rule share_demo_reachable, rule st)
  have "ss_distributions s' (''biz'', ''2024-01'') \<noteq> None"
    by (rule distribute_cases [OF d]) (use shares.reachable_inv [OF share_demo_reachable] in \<open>auto simp: shares_ok_def\<close>)
  then obtain x where "ss_distributions s' (''biz'', ''2024-01'') = Some x" by auto
  with distributions_are_final [OF r, of "''biz''" "''2024-01''" x] show ?thesis by blast
qed

end
