(* ===== verification/Revenue_Settlement.thy ===== *)
theory Revenue_Settlement
  imports Prelude
begin

text \<open>
  \<open>contracts/revenue-settlement/src/lib.rs\<close>: repayments of a loan from the revenue of one or several periods,
  netted over the periods of a call. The token is a parameter. The attestation contract of an agreement is
  stored; the source builds a client for it and never calls it: the revenues are the caller's.
\<close>

section \<open>State\<close>

record agreement =
  ag_id :: nat
  ag_lender :: address
  ag_business :: address
  ag_principal :: int
  ag_revenue_share_bps :: nat
  ag_min_revenue_threshold :: int
  ag_max_repayment_amount :: int
  ag_attestation_contract :: address
  ag_token :: address
  ag_status :: nat
  ag_created_at :: nat

record settlement_record =
  sr_agreement_id :: nat
  sr_period :: sstring
  sr_attested_revenue :: int
  sr_repayment_amount :: int
  sr_amount_transferred :: int
  sr_settled_at :: nat

record settle_state =
  se_admin :: "address option"
  se_next_agreement_id :: "nat option"
  se_agreements :: "nat \<rightharpoonup> agreement"
  se_committed :: "nat \<times> sstring \<rightharpoonup> int"
  se_settlements :: "nat \<times> sstring \<rightharpoonup> settlement_record"
  se_business_period_token :: "address \<times> sstring \<rightharpoonup> address"

definition settle_empty :: settle_state where
  "settle_empty = \<lparr>se_admin = None, se_next_agreement_id = None, se_agreements = Map.empty, se_committed = Map.empty,
     se_settlements = Map.empty, se_business_period_token = Map.empty\<rparr>"

section \<open>Agreements\<close>

definition settle_initialize :: "ledger_env \<Rightarrow> address \<Rightarrow> settle_state \<Rightarrow> settle_state res" where
  "settle_initialize env admin s =
     bindr (require_auth env admin) (\<lambda>_.
     bindr (assertr (se_admin s = None) ''already initialized'') (\<lambda>_.
     Inr (s\<lparr>se_admin := Some admin, se_next_agreement_id := Some 0\<rparr>)))"

definition create_agreement ::
  "ledger_env \<Rightarrow> address \<Rightarrow> address \<Rightarrow> int \<Rightarrow> nat \<Rightarrow> int \<Rightarrow> int \<Rightarrow> address \<Rightarrow> address \<Rightarrow> settle_state \<Rightarrow>
   (nat \<times> settle_state) res" where
  "create_agreement env lender business loan revenue_share_bps min_revenue_threshold max_repayment_amount
     attestation_contract token s =
     bindr (require_auth env lender) (\<lambda>_.
     bindr (assertr (0 < loan) ''principal must be positive'') (\<lambda>_.
     bindr (assertr (revenue_share_bps \<le> 10000) ''revenue_share_bps must be <= 10000'') (\<lambda>_.
     bindr (assertr (0 \<le> min_revenue_threshold) ''min_revenue_threshold must be non-negative'') (\<lambda>_.
     bindr (assertr (0 < max_repayment_amount) ''max_repayment_amount must be positive'') (\<lambda>_.
     bindr (assertr (business \<noteq> lender) ''business and lender must differ'') (\<lambda>_.
     (let i = unwrap_or (se_next_agreement_id s) 0;
          agreement = \<lparr>ag_id = i, ag_lender = lender, ag_business = business, ag_principal = loan,
            ag_revenue_share_bps = revenue_share_bps, ag_min_revenue_threshold = min_revenue_threshold,
            ag_max_repayment_amount = max_repayment_amount, ag_attestation_contract = attestation_contract,
            ag_token = token, ag_status = 0, ag_created_at = timestamp env\<rparr> in
      bindr (u64_chk (i + 1)) (\<lambda>next_id.
      Inr (i, s\<lparr>se_agreements := (se_agreements s)(i \<mapsto> agreement), se_next_agreement_id := Some next_id\<rparr>)))))))))"

section \<open>Settlement\<close>

text \<open>The first loop: one currency per business and period, no earlier commitment.\<close>

fun commit_checks :: "nat \<Rightarrow> agreement \<Rightarrow> sstring list \<Rightarrow> settle_state \<Rightarrow> settle_state res" where
  "commit_checks agreement_id agreement [] s = Inr s"
| "commit_checks agreement_id agreement (period # periods) s =
     bindr (case se_business_period_token s (ag_business agreement, period) of
              Some existing_token \<Rightarrow>
                bindr (assertr (existing_token = ag_token agreement) ''multi-currency settlement not allowed for period'') (\<lambda>_. Inr s)
            | None \<Rightarrow> Inr (s\<lparr>se_business_period_token :=
                (se_business_period_token s)((ag_business agreement, period) \<mapsto> ag_token agreement)\<rparr>)) (\<lambda>s1.
     (let previously_committed = unwrap_or (se_committed s1 (agreement_id, period)) 0 in
      bindr (assertr (previously_committed = 0) ''commitment already made for period'') (\<lambda>_.
      commit_checks agreement_id agreement periods s1)))"

fun revenue_loop :: "int \<Rightarrow> int list \<Rightarrow> int" where
  "revenue_loop acc [] = acc"
| "revenue_loop acc (r # rs) = revenue_loop (i128_sat (acc + r)) rs"

definition netted_repayment :: "agreement \<Rightarrow> int list \<Rightarrow> int \<Rightarrow> int" where
  "netted_repayment agreement revenues num_periods =
     (let total_revenue = revenue_loop 0 revenues;
          agg_threshold = i128_sat (ag_min_revenue_threshold agreement * num_periods);
          agg_cap = i128_sat (ag_max_repayment_amount agreement * num_periods) in
      if agg_threshold \<le> total_revenue \<and> 0 < total_revenue
      then min (u128_sat (total_revenue * int (ag_revenue_share_bps agreement)) div 10000) agg_cap
      else 0)"

text \<open>The recording loop; the last period also takes the remainder of the division.\<close>

fun record_loop ::
  "ledger_env \<Rightarrow> nat \<Rightarrow> int \<Rightarrow> int \<Rightarrow> sstring list \<Rightarrow> int list \<Rightarrow> settle_state \<Rightarrow> settle_state res" where
  "record_loop env agreement_id dist_repayment remainder [] revenues s = Inr s"
| "record_loop env agreement_id dist_repayment remainder (period # periods) [] s = Inl UnwrapNone"
| "record_loop env agreement_id dist_repayment remainder (period # periods) (revenue # revenues) s =
     bindr (if periods = [] then i128_chk (dist_repayment + remainder) else Inr dist_repayment) (\<lambda>amount.
     record_loop env agreement_id dist_repayment remainder periods revenues
       (s\<lparr>se_settlements := (se_settlements s)((agreement_id, period) \<mapsto>
            \<lparr>sr_agreement_id = agreement_id, sr_period = period, sr_attested_revenue = revenue,
             sr_repayment_amount = amount, sr_amount_transferred = amount, sr_settled_at = timestamp env\<rparr>),
          se_committed := (se_committed s)((agreement_id, period) \<mapsto> amount)\<rparr>))"

definition settle_multi ::
  "'w token_ops \<Rightarrow> ledger_env \<Rightarrow> nat \<Rightarrow> sstring list \<Rightarrow> int list \<Rightarrow> settle_state \<times> 'w \<Rightarrow> (settle_state \<times> 'w) res" where
  "settle_multi T env agreement_id periods revenues sw =
     (let (s, w) = sw in
      bindr (assertr (periods \<noteq> []) ''periods cannot be empty'') (\<lambda>_.
      bindr (assertr (length periods = length revenues) ''mismatched periods and revenues'') (\<lambda>_.
      bindr (expectr (se_agreements s agreement_id) ''agreement not found'') (\<lambda>agreement.
      bindr (assertr (ag_status agreement = 0) ''agreement not active'') (\<lambda>_.
      bindr (commit_checks agreement_id agreement periods s) (\<lambda>s1.
      (let num_periods = int (length periods);
           total_repayment_amount = netted_repayment agreement revenues num_periods in
       bindr (if 0 < total_repayment_amount
              then transferr T (ag_token agreement) (ag_business agreement) (ag_lender agreement) total_repayment_amount w
              else Inr w) (\<lambda>w1.
       bindr (record_loop env agreement_id (trunc_div total_repayment_amount num_periods)
                (trunc_mod total_repayment_amount num_periods) periods revenues s1) (\<lambda>s2.
       Inr (s2, w1))))))))))"

definition settle ::
  "'w token_ops \<Rightarrow> ledger_env \<Rightarrow> nat \<Rightarrow> sstring \<Rightarrow> int \<Rightarrow> settle_state \<times> 'w \<Rightarrow> (settle_state \<times> 'w) res" where
  "settle T env agreement_id period attested_revenue sw =
     settle_multi T env agreement_id [period] [attested_revenue] sw"

section \<open>Status and queries\<close>

text \<open>\<open>mark_completed\<close> sets status 1, \<open>mark_defaulted\<close> status 2.\<close>

definition mark_agreement :: "nat \<Rightarrow> ledger_env \<Rightarrow> address \<Rightarrow> nat \<Rightarrow> settle_state \<Rightarrow> settle_state res" where
  "mark_agreement status env admin agreement_id s =
     bindr (expectr (se_admin s) ''not initialized'') (\<lambda>stored_admin.
     bindr (assertr (admin = stored_admin) ''unauthorized'') (\<lambda>_.
     bindr (require_auth env admin) (\<lambda>_.
     bindr (expectr (se_agreements s agreement_id) ''agreement not found'') (\<lambda>agreement.
     bindr (assertr (ag_status agreement = 0) ''agreement not active'') (\<lambda>_.
     Inr (s\<lparr>se_agreements := (se_agreements s)(agreement_id \<mapsto> agreement\<lparr>ag_status := status\<rparr>)\<rparr>))))))"

definition mark_completed :: "ledger_env \<Rightarrow> address \<Rightarrow> nat \<Rightarrow> settle_state \<Rightarrow> settle_state res" where
  "mark_completed = mark_agreement 1"

definition settle_mark_defaulted :: "ledger_env \<Rightarrow> address \<Rightarrow> nat \<Rightarrow> settle_state \<Rightarrow> settle_state res" where
  "settle_mark_defaulted = mark_agreement 2"

definition get_agreement :: "settle_state \<Rightarrow> nat \<Rightarrow> agreement option" where
  "get_agreement s agreement_id = se_agreements s agreement_id"

definition get_settlement :: "settle_state \<Rightarrow> nat \<Rightarrow> sstring \<Rightarrow> settlement_record option" where
  "get_settlement s agreement_id period = se_settlements s (agreement_id, period)"

definition get_committed :: "settle_state \<Rightarrow> nat \<Rightarrow> sstring \<Rightarrow> int" where
  "get_committed s agreement_id period = unwrap_or (se_committed s (agreement_id, period)) 0"

definition settle_get_admin :: "settle_state \<Rightarrow> address res" where
  "settle_get_admin s = expectr (se_admin s) ''not initialized''"

section \<open>The machine\<close>

datatype settle_call =
    SInit address
  | SCreate address address int nat int int address address
  | SSettle nat sstring int
  | SSettleMulti nat "sstring list" "int list"
  | SMark bool address nat

type_synonym 'w settle_event = "ledger_env \<times> 'w \<times> settle_call"

fun settle_step :: "'w token_ops \<Rightarrow> 'w settle_event \<Rightarrow> settle_state \<Rightarrow> settle_state res" where
  "settle_step T (env, w, SInit a) s = settle_initialize env a s"
| "settle_step T (env, w, SCreate l b p r m x c t) s = bindr (create_agreement env l b p r m x c t s) (\<lambda>(_, s'). Inr s')"
| "settle_step T (env, w, SSettle i p r) s = bindr (settle T env i p r (s, w)) (\<lambda>(s', _). Inr s')"
| "settle_step T (env, w, SSettleMulti i ps rs) s = bindr (settle_multi T env i ps rs (s, w)) (\<lambda>(s', _). Inr s')"
| "settle_step T (env, w, SMark d a i) s = (if d then settle_mark_defaulted env a i s else mark_completed env a i s)"

text \<open>
  The storage before any call, and a deployment that begins with its initialisation. The code lets agreements
  be created before it; the initialisation then resets the counter of ids, and the next agreement takes the
  place of the first. What holds of every agreement holds from the empty storage on; what ties settlements to
  agreements is stated for deployments that are initialised first.
\<close>

definition settle_fresh :: "settle_state \<Rightarrow> bool" where
  "settle_fresh s \<longleftrightarrow> s = settle_empty"

definition settle_start :: "settle_state \<Rightarrow> bool" where
  "settle_start s \<longleftrightarrow> (\<exists>env a. settle_initialize env a settle_empty = Inr s)"

lemma start_from_fresh: "settle_start s \<Longrightarrow> reachable settle_fresh (settle_step T) s"
proof -
  assume "settle_start s"
  then obtain env a where "settle_step T (env, undefined, SInit a) settle_empty = Inr s" by (auto simp: settle_start_def)
  then show ?thesis
    by (rule reachable_call [OF reachable_start, rotated]) (simp add: settle_fresh_def)
qed

section \<open>The loops\<close>

lemma commit_checks_Inr:
  "commit_checks i ag ps s = Inr s' \<Longrightarrow>
   \<exists>m. s' = s\<lparr>se_business_period_token := m\<rparr> \<and> se_business_period_token s \<subseteq>\<^sub>m m \<and>
     (\<forall>p\<in>set ps. m (ag_business ag, p) = Some (ag_token ag) \<and> get_committed s i p = 0)"
proof (induction i ag ps s rule: commit_checks.induct)
  case (1 i ag s)
  then show ?case by (auto intro: exI [of _ "se_business_period_token s"])
next
  case (2 i ag p ps s)
  let ?t = "se_business_period_token s"
  from 2(2) obtain s1 where s1: "s1 = s\<lparr>se_business_period_token := ?t((ag_business ag, p) \<mapsto> ag_token ag)\<rparr>"
    and le: "?t \<subseteq>\<^sub>m ?t((ag_business ag, p) \<mapsto> ag_token ag)"
    and c: "get_committed s i p = 0" and r: "commit_checks i ag ps s1 = Inr s'"
    and b: "(case ?t (ag_business ag, p) of Some x \<Rightarrow> bindr (assertr (x = ag_token ag) ''multi-currency settlement not allowed for period'') (\<lambda>_. Inr s)
            | None \<Rightarrow> Inr (s\<lparr>se_business_period_token := ?t((ag_business ag, p) \<mapsto> ag_token ag)\<rparr>)) = Inr s1"
    by (cases "?t (ag_business ag, p)") (auto simp: get_committed_def map_le_def fun_upd_idem dom_def)
  have "assertr (unwrap_or (se_committed s1 (i, p)) 0 = 0) ''commitment already made for period'' = Inr ()"
    using c by (simp add: s1 get_committed_def)
  from 2(1) [OF b refl this r] obtain m where m: "s' = s1\<lparr>se_business_period_token := m\<rparr>" "se_business_period_token s1 \<subseteq>\<^sub>m m"
    "\<forall>q\<in>set ps. m (ag_business ag, q) = Some (ag_token ag) \<and> get_committed s1 i q = 0" by blast
  have "m (ag_business ag, p) = Some (ag_token ag)" using m(2) by (simp add: s1 map_le_def dom_def)
  moreover have "?t \<subseteq>\<^sub>m m" using le m(2) by (auto simp: s1 intro: map_le_trans)
  ultimately show ?case using m c by (auto simp: s1 get_committed_def intro!: exI [of _ m])
qed

text \<open>The parts of a repayment that the periods of a call record.\<close>

fun repayment_parts :: "int \<Rightarrow> int \<Rightarrow> sstring list \<Rightarrow> int list" where
  "repayment_parts d m [] = []"
| "repayment_parts d m (p # ps) = (if ps = [] then d + m else d) # repayment_parts d m ps"

fun settlement_records :: "nat \<Rightarrow> nat \<Rightarrow> int \<Rightarrow> int \<Rightarrow> sstring list \<Rightarrow> int list \<Rightarrow> settlement_record list" where
  "settlement_records now i d m (p # ps) (r # rs) =
     \<lparr>sr_agreement_id = i, sr_period = p, sr_attested_revenue = r, sr_repayment_amount = (if ps = [] then d + m else d),
      sr_amount_transferred = (if ps = [] then d + m else d), sr_settled_at = now\<rparr> # settlement_records now i d m ps rs"
| "settlement_records now i d m _ _ = []"

lemma parts_length [simp]: "length (repayment_parts d m ps) = length ps"
  by (induction ps) auto

lemma records_length [simp]: "length ps = length rs \<Longrightarrow> length (settlement_records now i d m ps rs) = length ps"
  by (induction ps rs rule: list_induct2) auto

lemma parts_sum: "ps \<noteq> [] \<Longrightarrow> sum_list (repayment_parts d m ps) = int (length ps) * d + m"
  by (induction ps) (auto simp: algebra_simps)

lemma parts_nonneg: "0 \<le> d \<Longrightarrow> 0 \<le> m \<Longrightarrow> x \<in> set (repayment_parts d m ps) \<Longrightarrow> 0 \<le> x"
  by (induction ps) (auto split: if_splits)

lemma records_nth:
  "length ps = length rs \<Longrightarrow> k < length ps \<Longrightarrow> settlement_records now i d m ps rs ! k =
     \<lparr>sr_agreement_id = i, sr_period = ps ! k, sr_attested_revenue = rs ! k, sr_repayment_amount = repayment_parts d m ps ! k,
      sr_amount_transferred = repayment_parts d m ps ! k, sr_settled_at = now\<rparr>"
  by (induction ps rs arbitrary: k rule: list_induct2) (auto simp: nth_Cons split: nat.splits)

lemma record_loop_Inr:
  "record_loop env i d m ps rs s = Inr s' \<Longrightarrow> length ps = length rs \<Longrightarrow>
   s' = s\<lparr>se_settlements := (se_settlements s)(map (Pair i) ps [\<mapsto>] settlement_records (timestamp env) i d m ps rs),
          se_committed := (se_committed s)(map (Pair i) ps [\<mapsto>] repayment_parts d m ps)\<rparr>"
proof (induction env i d m ps rs s rule: record_loop.induct)
  case (3 env i d m p ps r rs s)
  show ?case
  proof (cases "ps = []")
    case True
    with 3(2,3) show ?thesis by (auto simp: fun_upd_def)
  next
    case False
    with 3(2) have r: "record_loop env i d m ps rs (s\<lparr>se_settlements := (se_settlements s)((i, p) \<mapsto>
            \<lparr>sr_agreement_id = i, sr_period = p, sr_attested_revenue = r, sr_repayment_amount = d, sr_amount_transferred = d,
             sr_settled_at = timestamp env\<rparr>), se_committed := (se_committed s)((i, p) \<mapsto> d)\<rparr>) = Inr s'" by simp
    show ?thesis using 3(1) [OF _ r] 3(3) False by (simp add: fun_upd_def)
  qed
qed auto

lemma upds_nth:
  "distinct xs \<Longrightarrow> length xs = length ys \<Longrightarrow> k < length xs \<Longrightarrow> (f(xs [\<mapsto>] ys)) (xs ! k) = Some (ys ! k)"
proof (induction xs arbitrary: ys k f)
  case (Cons x xs)
  then obtain y zs where "ys = y # zs" by (cases ys) auto
  with Cons show ?case by (cases k) (auto simp: map_upds_apply_nontin)
qed simp

lemma upds_in:
  "length xs = length ys \<Longrightarrow> x \<in> set xs \<Longrightarrow> (f(xs [\<mapsto>] ys)) x = Some y \<Longrightarrow>
   (\<exists>k < length xs. xs ! k = x \<and> y = ys ! k) \<and> (g(xs [\<mapsto>] map h ys)) x = Some (h y)"
proof (induction xs ys arbitrary: f g rule: list_induct2)
  case (Cons a xs b ys)
  show ?case
  proof (cases "x \<in> set xs")
    case True
    have p: "((f(a \<mapsto> b))(xs [\<mapsto>] ys)) x = Some y" using Cons.prems(2) by (simp only: map_upds_Cons)
    from Cons.IH [OF True p, of "g(a \<mapsto> h b)"] obtain k where "k < length xs" "xs ! k = x" "y = ys ! k"
      and g: "((g(a \<mapsto> h b))(xs [\<mapsto>] map h ys)) x = Some (h y)" by blast
    then have "Suc k < length (a # xs) \<and> (a # xs) ! Suc k = x \<and> y = (b # ys) ! Suc k" by simp
    moreover have "(g(a # xs [\<mapsto>] map h (b # ys))) x = Some (h y)" using g by (simp only: map_upds_Cons list.map)
    ultimately show ?thesis by blast
  next
    case False
    with Cons.prems show ?thesis by (auto simp: map_upds_apply_nontin)
  qed
qed simp

lemma parts_records: "length ps = length rs \<Longrightarrow> repayment_parts d m ps = map sr_repayment_amount (settlement_records now i d m ps rs)"
  by (induction ps rs rule: list_induct2) auto

section \<open>The invariant\<close>

definition agreement_ok :: "agreement \<Rightarrow> bool" where
  "agreement_ok ag \<longleftrightarrow> ag_revenue_share_bps ag \<le> 10000 \<and> 0 \<le> ag_min_revenue_threshold ag \<and> 0 < ag_max_repayment_amount ag \<and>
     ag_business ag \<noteq> ag_lender ag"

definition settled_ok :: "settle_state \<Rightarrow> nat \<Rightarrow> sstring \<Rightarrow> settlement_record \<Rightarrow> bool" where
  "settled_ok s i p r \<longleftrightarrow> 0 \<le> sr_repayment_amount r \<and> se_committed s (i, p) = Some (sr_repayment_amount r) \<and>
     (\<exists>ag. se_agreements s i = Some ag \<and> se_business_period_token s (ag_business ag, p) = Some (ag_token ag))"

definition settlements_ok :: "settle_state \<Rightarrow> bool" where
  "settlements_ok s \<longleftrightarrow> se_admin s \<noteq> None \<and>
     (\<exists>k. se_next_agreement_id s = Some k \<and> dom (se_agreements s) = {..<k}) \<and>
     (\<forall>i ag. se_agreements s i = Some ag \<longrightarrow> agreement_ok ag) \<and>
     dom (se_committed s) = dom (se_settlements s) \<and>
     (\<forall>i p r. se_settlements s (i, p) = Some r \<longrightarrow> settled_ok s i p r)"

lemma settlements_okD:
  assumes "settlements_ok s"
  shows "se_agreements s i = Some ag \<Longrightarrow> agreement_ok ag"
    and "se_settlements s (i, p) = Some r \<Longrightarrow> settled_ok s i p r"
    and "dom (se_committed s) = dom (se_settlements s)"
  using assms unfolding settlements_ok_def by blast+

lemma netted_nonneg: "agreement_ok ag \<Longrightarrow> 0 \<le> n \<Longrightarrow> 0 \<le> netted_repayment ag rs n"
proof -
  assume "agreement_ok ag" "0 \<le> n"
  then have "0 \<le> ag_max_repayment_amount ag * n" by (simp add: agreement_ok_def)
  then have "0 \<le> i128_sat (ag_max_repayment_amount ag * n)" by (simp add: i128_sat_def i128_max_def)
  then show ?thesis by (simp add: netted_repayment_def Let_def u128_sat_def pos_imp_zdiv_nonneg_iff)
qed

lemma settle_multi_cases:
  assumes "settle_multi T env i ps rs (s, w) = Inr (s', w')"
  obtains ag m x d k where "ps \<noteq> []" "length ps = length rs" "se_agreements s i = Some ag" "ag_status ag = 0"
    "\<forall>p\<in>set ps. m (ag_business ag, p) = Some (ag_token ag) \<and> get_committed s i p = 0" "se_business_period_token s \<subseteq>\<^sub>m m"
    "x = netted_repayment ag rs (int (length ps))"
    "if 0 < x then tok_transfer T (ag_token ag) (ag_business ag) (ag_lender ag) x w = Some w' else w' = w"
    "d = trunc_div x (int (length ps))" "k = trunc_mod x (int (length ps))"
    "s' = s\<lparr>se_business_period_token := m,
       se_settlements := (se_settlements s)(map (Pair i) ps [\<mapsto>] settlement_records (timestamp env) i d k ps rs),
       se_committed := (se_committed s)(map (Pair i) ps [\<mapsto>] repayment_parts d k ps)\<rparr>"
proof -
  let ?n = "int (length ps)"
  from assms obtain ag s1 where *: "ps \<noteq> []" "length ps = length rs" "se_agreements s i = Some ag" "ag_status ag = 0"
    and c: "commit_checks i ag ps s = Inr s1"
    and tr: "(if 0 < netted_repayment ag rs ?n then transferr T (ag_token ag) (ag_business ag) (ag_lender ag) (netted_repayment ag rs ?n) w
       else Inr w) = Inr w'"
    and r: "record_loop env i (trunc_div (netted_repayment ag rs ?n) ?n) (trunc_mod (netted_repayment ag rs ?n) ?n) ps rs s1 = Inr s'"
    by (auto simp: settle_multi_def Let_def simp del: if_split)
  from commit_checks_Inr [OF c] obtain m where m: "s1 = s\<lparr>se_business_period_token := m\<rparr>" "se_business_period_token s \<subseteq>\<^sub>m m"
    "\<forall>p\<in>set ps. m (ag_business ag, p) = Some (ag_token ag) \<and> get_committed s i p = 0" by blast
  show thesis
    by (rule that [OF * m(3,2) refl _ refl refl])
      (use tr record_loop_Inr [OF r *(2)] in \<open>simp_all add: m(1) split: if_splits\<close>)
qed

lemma settle_multi_ok:
  assumes ok: "settlements_ok s" and "settle_multi T env i ps rs (s, w) = Inr (s', w')"
  shows "settlements_ok s'"
  using assms(2)
proof (rule settle_multi_cases)
  fix ag m x d k
  assume ps: "ps \<noteq> []" "length ps = length rs" and ag: "se_agreements s i = Some ag"
    and m: "\<forall>p\<in>set ps. m (ag_business ag, p) = Some (ag_token ag) \<and> get_committed s i p = 0" "se_business_period_token s \<subseteq>\<^sub>m m"
    and x: "x = netted_repayment ag rs (int (length ps))" "d = trunc_div x (int (length ps))" "k = trunc_mod x (int (length ps))"
    and s': "s' = s\<lparr>se_business_period_token := m,
       se_settlements := (se_settlements s)(map (Pair i) ps [\<mapsto>] settlement_records (timestamp env) i d k ps rs),
       se_committed := (se_committed s)(map (Pair i) ps [\<mapsto>] repayment_parts d k ps)\<rparr>"
  let ?K = "map (Pair i) ps"
  have "0 \<le> x" using netted_nonneg [OF settlements_okD(1) [OF ok ag]] by (simp add: x(1))
  then have dk: "0 \<le> d" "0 \<le> k" using ps(1) by (simp_all add: x(2,3) trunc_div_nonneg trunc_mod_nonneg pos_imp_zdiv_nonneg_iff)
  have "dom (se_committed s') = dom (se_settlements s')"
    using settlements_okD(3) [OF ok] ps(2) by (simp add: s')
  moreover have "settled_ok s' j q r" if r: "se_settlements s' (j, q) = Some r" for j q r
  proof (cases "(j, q) \<in> set ?K")
    case True
    then have jq: "j = i" "q \<in> set ps" by auto
    have len: "length ?K = length (settlement_records (timestamp env) i d k ps rs)" using ps(2) by simp
    from r have r': "((se_settlements s)(?K [\<mapsto>] settlement_records (timestamp env) i d k ps rs)) (j, q) = Some r" by (simp add: s')
    from upds_in [OF len True r', of "se_committed s" sr_repayment_amount] obtain n where
      n: "n < length ps" "r = settlement_records (timestamp env) i d k ps rs ! n"
      and c: "se_committed s' (j, q) = Some (sr_repayment_amount r)"
      by (auto simp: s' parts_records [OF ps(2), symmetric])
    have "0 \<le> sr_repayment_amount r"
      using parts_nonneg [OF dk, of "repayment_parts d k ps ! n" ps] n ps(2) by (simp add: records_nth)
    with c m(1) jq ag show ?thesis by (simp add: settled_ok_def s')
  next
    case False
    then have "se_settlements s' (j, q) = se_settlements s (j, q)" "se_committed s' (j, q) = se_committed s (j, q)"
      by (simp_all add: s' map_upds_apply_nontin)
    with r settlements_okD(2) [OF ok, of j q r] m(2) show ?thesis
      by (auto simp: settled_ok_def s' map_le_def dom_def)
  qed
  ultimately show ?thesis using ok unfolding settlements_ok_def by (simp add: s')
qed

lemma mark_cases:
  assumes "mark_agreement x env a i s = Inr s'"
  obtains ag where "se_agreements s i = Some ag" "ag_status ag = 0"
    "s' = s\<lparr>se_agreements := (se_agreements s)(i \<mapsto> ag\<lparr>ag_status := x\<rparr>)\<rparr>"
  using assms by (auto simp: mark_agreement_def)

lemma create_agreement_ok:
  assumes ok: "settlements_ok s" and "create_agreement env l b p q m x c t s = Inr (i, s')"
  shows "settlements_ok s'"
proof -
  from ok obtain n where n: "se_next_agreement_id s = Some n" "dom (se_agreements s) = {..<n}"
    by (auto simp: settlements_ok_def)
  with assms(2) obtain ag where ag: "agreement_ok ag"
    and s': "s' = s\<lparr>se_agreements := (se_agreements s)(n \<mapsto> ag), se_next_agreement_id := Some (n + 1)\<rparr>"
    by (simp add: create_agreement_def Let_def) (elim conjE exE, rule that, auto simp: agreement_ok_def)
  have "se_agreements s n = None" using n(2) by auto
  then have st: "settled_ok s' j q r" if "se_settlements s (j, q) = Some r" for j q r
    using settlements_okD(2) [OF ok that] by (auto simp: settled_ok_def s')
  have "dom (se_agreements s') = {..<n + 1}" using n(2) by (auto simp: s')
  with ok st ag show ?thesis unfolding settlements_ok_def by (auto simp: s')
qed

lemma settle_step_ok:
  assumes ok: "settlements_ok s" and "settle_step T e s = Inr s'"
  shows "settlements_ok s'"
proof -
  obtain env w c where e: "e = (env, w, c)" by (cases e)
  show ?thesis
  proof (cases c)
    case (SInit a)
    with assms e show ?thesis by (auto simp: settle_initialize_def settlements_ok_def)
  next
    case (SCreate l b p r m x c t)
    with assms e show ?thesis by (auto intro: create_agreement_ok)
  next
    case (SSettle i p r)
    with assms e show ?thesis by (auto simp: settle_def intro: settle_multi_ok)
  next
    case (SSettleMulti i ps rs)
    with assms e show ?thesis by (auto intro: settle_multi_ok)
  next
    case (SMark d a i)
    with assms(2) e obtain x where "mark_agreement x env a i s = Inr s'"
      by (auto simp: mark_completed_def settle_mark_defaulted_def split: if_splits)
    then show ?thesis
    proof (rule mark_cases)
      fix ag assume ag: "se_agreements s i = Some ag"
        and s': "s' = s\<lparr>se_agreements := (se_agreements s)(i \<mapsto> ag\<lparr>ag_status := x\<rparr>)\<rparr>"
      have "settled_ok s' j q r" if "se_settlements s (j, q) = Some r" for j q r
        using settlements_okD(2) [OF ok that] ag by (auto simp: settled_ok_def s')
      moreover have "agreement_ok a'" if "se_agreements s' j = Some a'" for j a'
        using that settlements_okD(1) [OF ok] ag by (auto simp: s' agreement_ok_def split: if_splits)
      moreover have "dom (se_agreements s') = dom (se_agreements s)" using ag by (auto simp: s')
      ultimately show ?thesis using ok unfolding settlements_ok_def by (simp add: s')
    qed
  qed
qed

interpretation settlements: invariant_machine settle_start "settle_step T" settlements_ok for T
proof
  show "settlements_ok s" if "settle_start s" for s
    using that by (auto simp: settle_start_def settle_initialize_def settlements_ok_def settle_empty_def)
  show "settlements_ok s'" if "settlements_ok s" "settle_step T e s = Inr s'" for s e s'
    using that by (rule settle_step_ok)
qed

definition agreements_ok :: "settle_state \<Rightarrow> bool" where
  "agreements_ok s \<longleftrightarrow> (\<forall>i ag. se_agreements s i = Some ag \<longrightarrow> agreement_ok ag)"

lemma agreements_step_ok:
  assumes "agreements_ok s" and "settle_step T e s = Inr s'"
  shows "agreements_ok s'"
proof -
  obtain env w c where e: "e = (env, w, c)" by (cases e)
  have multi: "se_agreements s' = se_agreements s" if "settle_multi T env i ps rs (s, w) = Inr (s', w')" for i ps rs w'
    using that by (rule settle_multi_cases) simp
  show ?thesis
  proof (cases c)
    case (SInit a)
    with assms e show ?thesis by (auto simp: settle_initialize_def agreements_ok_def)
  next
    case (SCreate l b p r m x c t)
    with assms e show ?thesis by (auto simp: create_agreement_def Let_def agreements_ok_def agreement_ok_def split: if_splits)
  next
    case (SMark d a i)
    with assms(2) e obtain x where "mark_agreement x env a i s = Inr s'"
      by (auto simp: mark_completed_def settle_mark_defaulted_def split: if_splits)
    then show ?thesis
      by (rule mark_cases) (use assms(1) in \<open>auto simp: agreements_ok_def agreement_ok_def split: if_splits\<close>)
  qed (use assms e in \<open>auto simp: agreements_ok_def settle_def dest!: multi\<close>)
qed

interpretation agreements: invariant_machine settle_fresh "settle_step T" agreements_ok for T
proof
  show "agreements_ok s" if "settle_fresh s" for s
    using that by (simp add: settle_fresh_def agreements_ok_def settle_empty_def)
  show "agreements_ok s'" if "agreements_ok s" "settle_step T e s = Inr s'" for s e s'
    using that by (rule agreements_step_ok)
qed

lemma settle_multi_keeps:
  assumes "settle_multi T env j ps rs (s, w) = Inr (s', w')" and "get_committed s i p \<noteq> 0"
  shows "(j = i \<longrightarrow> p \<notin> set ps) \<and> se_settlements s' (i, p) = se_settlements s (i, p) \<and> get_committed s' i p = get_committed s i p"
  using assms(1)
proof (rule settle_multi_cases)
  fix ag m x d k
  assume m: "\<forall>q\<in>set ps. m (ag_business ag, q) = Some (ag_token ag) \<and> get_committed s j q = 0"
    and s': "s' = s\<lparr>se_business_period_token := m,
       se_settlements := (se_settlements s)(map (Pair j) ps [\<mapsto>] settlement_records (timestamp env) j d k ps rs),
       se_committed := (se_committed s)(map (Pair j) ps [\<mapsto>] repayment_parts d k ps)\<rparr>"
  have n: "(i, p) \<notin> set (map (Pair j) ps)" using m assms(2) by auto
  then show ?thesis by (auto simp: s' get_committed_def map_upds_apply_nontin)
qed

lemma settle_step_keeps:
  assumes "settle_step T e s = Inr s'" and "get_committed s i p \<noteq> 0"
  shows "se_settlements s' (i, p) = se_settlements s (i, p) \<and> get_committed s' i p = get_committed s i p"
proof -
  obtain env w c where e: "e = (env, w, c)" by (cases e)
  show ?thesis
  proof (cases c)
    case (SSettle j q r)
    with assms(1) e obtain w' where "settle_multi T env j [q] [r] (s, w) = Inr (s', w')" by (auto simp: settle_def)
    from settle_multi_keeps [OF this assms(2)] show ?thesis by simp
  next
    case (SSettleMulti j ps rs)
    with assms(1) e obtain w' where "settle_multi T env j ps rs (s, w) = Inr (s', w')" by auto
    from settle_multi_keeps [OF this assms(2)] show ?thesis by simp
  next
    case (SMark d a j)
    with assms(1) e obtain x where "mark_agreement x env a j s = Inr s'"
      by (auto simp: mark_completed_def settle_mark_defaulted_def split: if_splits)
    then show ?thesis by (rule mark_cases) (simp add: get_committed_def)
  qed (use assms e in \<open>auto simp: settle_initialize_def create_agreement_def Let_def get_committed_def\<close>)
qed

text \<open>Without saturation the sum of the revenues is their sum.\<close>

lemma revenue_loop_sum:
  "0 \<le> n \<Longrightarrow> \<forall>r\<in>set rs. 0 \<le> r \<Longrightarrow> n + sum_list rs \<le> i128_max \<Longrightarrow> revenue_loop n rs = n + sum_list rs"
proof (induction rs arbitrary: n)
  case (Cons r rs)
  have "0 \<le> sum_list rs" using Cons.prems(2) by (intro sum_list_nonneg) simp
  then have "i128_sat (n + r) = n + r" using Cons.prems by (simp add: i128_sat_def i128_min_def)
  with Cons show ?case by simp
qed simp

section \<open>What the contract promises\<close>

text \<open>The repayment of a call, over the integers: the share of the summed revenue, up to the summed cap.\<close>

definition due_repayment :: "agreement \<Rightarrow> int \<Rightarrow> int \<Rightarrow> int" where
  "due_repayment ag revenue n =
     (if ag_min_revenue_threshold ag * n \<le> revenue \<and> 0 < revenue
      then min (revenue * int (ag_revenue_share_bps ag) div 10000) (ag_max_repayment_amount ag * n) else 0)"

lemma netted_is_due:
  assumes "agreement_ok ag" and "0 < n" and "\<forall>r\<in>set rs. 0 \<le> r" and "sum_list rs * 10000 \<le> u128_max" and "sum_list rs \<le> i128_max"
    and "ag_min_revenue_threshold ag * n \<le> i128_max" and "ag_max_repayment_amount ag * n \<le> i128_max"
  shows "netted_repayment ag rs n = due_repayment ag (sum_list rs) n"
proof -
  have R: "0 \<le> sum_list rs" using assms(3) by (intro sum_list_nonneg) simp
  have "sum_list rs * int (ag_revenue_share_bps ag) \<le> sum_list rs * 10000"
    using R assms(1) by (intro mult_left_mono) (simp_all add: agreement_ok_def)
  with assms(4) R have "u128_sat (sum_list rs * int (ag_revenue_share_bps ag)) = sum_list rs * int (ag_revenue_share_bps ag)"
    by (simp add: u128_sat_def)
  moreover have "0 \<le> ag_min_revenue_threshold ag * n" "0 \<le> ag_max_repayment_amount ag * n"
    using assms(1,2) by (simp_all add: agreement_ok_def)
  with assms(6,7) have "i128_sat (ag_min_revenue_threshold ag * n) = ag_min_revenue_threshold ag * n"
    "i128_sat (ag_max_repayment_amount ag * n) = ag_max_repayment_amount ag * n"
    by (simp_all add: i128_sat_def i128_min_def)
  ultimately show ?thesis
    using revenue_loop_sum [of 0 rs] assms(3,5) by (simp add: netted_repayment_def due_repayment_def Let_def)
qed

text \<open>
  C29. A settlement nets its periods, in every state that calls reach from the empty storage. For distinct periods and amounts that do not saturate, the business pays the lender
  exactly what is due on the summed revenue under the summed threshold and cap, and the repayments recorded for
  the periods add up to it.
\<close>

theorem settlement_nets_periods:
  assumes "reachable settle_fresh (settle_step T) s" and "sep41 T" and "se_agreements s i = Some ag"
    and "settle_multi T env i ps rs (s, w) = Inr (s', w')" and "distinct ps" and "\<forall>r\<in>set rs. 0 \<le> r"
    and "sum_list rs * 10000 \<le> u128_max" and "sum_list rs \<le> i128_max"
    and "ag_min_revenue_threshold ag * int (length ps) \<le> i128_max" and "ag_max_repayment_amount ag * int (length ps) \<le> i128_max"
  shows "sum_list (map (get_committed s' i) ps) = due_repayment ag (sum_list rs) (int (length ps)) \<and>
    (\<forall>a. tok_balance T (ag_token ag) a w' = tok_balance T (ag_token ag) a w +
       moved (ag_business ag) (ag_lender ag) (due_repayment ag (sum_list rs) (int (length ps))) a)"
  using assms(4)
proof (rule settle_multi_cases)
  fix ag' m x d k
  assume ps: "ps \<noteq> []" "length ps = length rs" and ag': "se_agreements s i = Some ag'"
    and x: "x = netted_repayment ag' rs (int (length ps))" "d = trunc_div x (int (length ps))" "k = trunc_mod x (int (length ps))"
    and tr: "if 0 < x then tok_transfer T (ag_token ag') (ag_business ag') (ag_lender ag') x w = Some w' else w' = w"
    and s': "s' = s\<lparr>se_business_period_token := m,
       se_settlements := (se_settlements s)(map (Pair i) ps [\<mapsto>] settlement_records (timestamp env) i d k ps rs),
       se_committed := (se_committed s)(map (Pair i) ps [\<mapsto>] repayment_parts d k ps)\<rparr>"
  have ok: "agreement_ok ag" using agreements.reachable_inv [OF assms(1)] assms(3) by (simp add: agreements_ok_def)
  have eq: "ag' = ag" using ag' assms(3) by simp
  have due: "x = due_repayment ag (sum_list rs) (int (length ps))"
    unfolding x(1) eq by (rule netted_is_due [OF ok _ assms(6-10)]) (use ps(1) in simp)
  have "0 \<le> x" using netted_nonneg [OF ok] by (simp add: x(1) eq)
  then have div: "int (length ps) * d + k = x" using ps(1) by (simp add: x(2,3) trunc_div_nonneg trunc_mod_nonneg)
  have inj: "distinct (map (Pair i) ps)" using assms(5) by (simp add: distinct_map inj_on_def)
  have "map (get_committed s' i) ps = repayment_parts d k ps"
  proof (rule nth_equalityI)
    fix j assume "j < length (map (get_committed s' i) ps)"
    then show "map (get_committed s' i) ps ! j = repayment_parts d k ps ! j"
      using upds_nth [OF inj, of "repayment_parts d k ps" j "se_committed s"] by (simp add: get_committed_def s')
  qed simp
  then have "sum_list (map (get_committed s' i) ps) = x" using parts_sum [OF ps(1)] div by simp
  moreover have "tok_balance T (ag_token ag) a w' = tok_balance T (ag_token ag) a w + moved (ag_business ag) (ag_lender ag) x a" for a
  proof (cases "0 < x")
    case True
    with tr eq have "tok_transfer T (ag_token ag) (ag_business ag) (ag_lender ag) x w = Some w'" by simp
    then show ?thesis by (rule sep41_transfer(3) [OF assms(2)])
  next
    case False
    with tr \<open>0 \<le> x\<close> show ?thesis by (simp add: moved_def)
  qed
  ultimately show ?thesis by (simp add: due)
qed

text \<open>
  What was paid is settled for good. Once a period of an agreement has a repayment, its record and the committed
  amount never change, along any history of calls, and no later call that names the period goes through.
\<close>

theorem paid_period_settled_for_good:
  assumes "get_committed s i p \<noteq> 0" and "p \<in> set ps"
  shows "get_settlement (run (settle_step T) es s) i p = get_settlement s i p \<and>
    (\<nexists>sw. settle_multi T env i ps rs (run (settle_step T) es s, w) = Inr sw)"
proof -
  let ?R = "\<lambda>s s'. get_committed s i p \<noteq> 0 \<longrightarrow>
    se_settlements s' (i, p) = se_settlements s (i, p) \<and> get_committed s' i p = get_committed s i p"
  have R: "?R s (run (settle_step T) es s)"
    by (rule run_rel_any [where R = ?R]) (auto dest: settle_step_keeps)
  then have "get_committed (run (settle_step T) es s) i p \<noteq> 0" using assms(1) by simp
  then have "\<nexists>sw. settle_multi T env i ps rs (run (settle_step T) es s, w) = Inr sw"
    using settle_multi_keeps [where i = i and p = p] assms(2) by (metis surj_pair)
  with R assms(1) show ?thesis by (simp add: get_settlement_def)
qed

text \<open>
  One currency per business and period: two agreements of a business that both have a settlement for a period
  settle in the same token.
\<close>

theorem one_currency_per_period:
  assumes "reachable settle_start (settle_step T) s" and "se_agreements s i = Some a" and "se_agreements s j = Some b"
    and "ag_business a = ag_business b" and "get_settlement s i p = Some r" and "get_settlement s j p = Some q"
  shows "ag_token a = ag_token b"
  using settlements_okD(2) [OF settlements.reachable_inv [OF assms(1)], of i p r]
    settlements_okD(2) [OF settlements.reachable_inv [OF assms(1)], of j p q] assms(2-6)
  by (auto simp: settled_ok_def get_settlement_def)

section \<open>Witnesses\<close>

definition settle_demo_calls :: "ref_ledger settle_event list" where
  "settle_demo_calls =
     [(env_at 0 0, (\<lambda>_ _. 5000), SCreate ''lender'' ''biz'' 9000 1000 100 500 ''att'' ''token''),
      (env_at 0 0, (\<lambda>_ _. 5000), SCreate ''other'' ''biz'' 9000 1000 100 500 ''att'' ''token'')]"

definition settle_demo :: settle_state where
  "settle_demo = run (settle_step ref_token) settle_demo_calls
     (settle_empty\<lparr>se_admin := Some ''admin'', se_next_agreement_id := Some 0\<rparr>)"

lemma settle_demo_reachable: "reachable settle_start (settle_step ref_token) settle_demo"
  unfolding settle_demo_def
  by (rule reachable_run, rule reachable_start)
    (auto simp: settle_start_def settle_initialize_def settle_empty_def intro!: exI [of _ "env_at 0 0"])

definition demo_agreement :: "nat \<Rightarrow> address \<Rightarrow> agreement" where
  "demo_agreement i lender = \<lparr>ag_id = i, ag_lender = lender, ag_business = ''biz'', ag_principal = 9000, ag_revenue_share_bps = 1000,
     ag_min_revenue_threshold = 100, ag_max_repayment_amount = 500, ag_attestation_contract = ''att'', ag_token = ''token'',
     ag_status = 0, ag_created_at = 0\<rparr>"

lemma settle_demo_state:
  "settle_demo = settle_empty\<lparr>se_admin := Some ''admin'', se_next_agreement_id := Some 2,
     se_agreements := [0 \<mapsto> demo_agreement 0 ''lender'', 1 \<mapsto> demo_agreement 1 ''other'']\<rparr>"
  by (simp add: settle_demo_def settle_demo_calls_def exec_def create_agreement_def settle_empty_def Let_def u64_max_def
      demo_agreement_def numeral_2_eq_2)

lemma demo_agreement_simps [simp]:
  "ag_business (demo_agreement i l) = ''biz''" "ag_lender (demo_agreement i l) = l" "ag_token (demo_agreement i l) = ''token''"
  "ag_status (demo_agreement i l) = 0" "ag_min_revenue_threshold (demo_agreement i l) = 100"
  "ag_max_repayment_amount (demo_agreement i l) = 500" "ag_revenue_share_bps (demo_agreement i l) = 1000"
  by (simp_all add: demo_agreement_def)

lemma demo_netted: "netted_repayment (demo_agreement i l) [1000, 3001] 2 = 400"
  "netted_repayment (demo_agreement i l) [1000, 1000] 2 = 200"
  "netted_repayment (demo_agreement i l) [1000] 1 = 100" "netted_repayment (demo_agreement i l) [2000] 1 = 200"
  by (simp_all add: netted_repayment_def i128_sat_def i128_min_def i128_max_def u128_sat_def u128_max_def)

lemma demo_div: "trunc_div 400 2 = 200" "trunc_mod 400 2 = 0" "trunc_div 200 2 = 100" "trunc_mod 200 2 = 0"
  "trunc_div 100 1 = 100" "trunc_mod 100 1 = 0" "trunc_div 200 1 = 200" "trunc_mod 200 1 = 0"
  by (simp_all add: trunc_div_def trunc_mod_def)

lemma demo_transfer:
  "0 \<le> n \<Longrightarrow> n \<le> w ''token'' ''biz'' \<Longrightarrow> tok_transfer ref_token ''token'' ''biz'' l n w =
     Some (\<lambda>t a. if t = ''token'' then w t a + moved ''biz'' l n a else w t a)"
  by (simp add: ref_token_def)

lemma settle_demo_agreements: "se_agreements settle_demo 0 = Some (demo_agreement 0 ''lender'')"
  "se_agreements settle_demo 1 = Some (demo_agreement 1 ''other'')" "se_committed settle_demo = Map.empty"
  "se_business_period_token settle_demo = Map.empty" "se_settlements settle_demo = Map.empty"
  by (simp_all add: settle_demo_state settle_empty_def)

lemmas settle_eval = settle_multi_def Let_def transferr_def demo_netted demo_div demo_transfer settle_demo_agreements
  settle_demo_agreements(2) [unfolded One_nat_def] in_i128_def
  i128_min_def i128_max_def get_committed_def get_settlement_def moved_def

lemma settle_demo_settles:
  "\<exists>s' w'. settle_multi ref_token (env_at 2 2) 0 [''2024-02'', ''2024-03''] [1000, 3001] (settle_demo, (\<lambda>_ _. 5000)) = Inr (s', w')"
  by (simp add: settle_eval)

lemma settlement_nets_periods_witness:
  "\<exists>s' :: settle_state. sum_list (map (get_committed s' 0) [''2024-02'', ''2024-03'']) = 400"
proof -
  obtain s' w' where m: "settle_multi ref_token (env_at 2 2) 0 [''2024-02'', ''2024-03''] [1000, 3001] (settle_demo, (\<lambda>_ _. 5000)) =
    Inr (s', w')" using settle_demo_settles by blast
  have "settle_start (settle_empty\<lparr>se_admin := Some ''admin'', se_next_agreement_id := Some 0\<rparr>)"
    by (auto simp: settle_start_def settle_initialize_def settle_empty_def intro!: exI [of _ "env_at 0 0"])
  then have r: "reachable settle_fresh (settle_step ref_token) settle_demo"
    unfolding settle_demo_def by (intro reachable_run start_from_fresh)
  have "sum_list (map (get_committed s' 0) [''2024-02'', ''2024-03'']) =
      due_repayment (demo_agreement 0 ''lender'') (sum_list [1000, 3001]) (int (length [''2024-02'', ''2024-03'']))"
    by (rule settlement_nets_periods [OF r ref_token_sep41 settle_demo_agreements(1) m, THEN conjunct1])
      (simp_all add: u128_max_def i128_max_def)
  then show ?thesis by (intro exI [of _ s']) (simp add: due_repayment_def)
qed

lemma settle_demo_both:
  "\<exists>s. s = run (settle_step ref_token) [(env_at 2 2, (\<lambda>_ _. 5000), SSettle 0 ''2024-02'' 1000),
       (env_at 3 3, (\<lambda>_ _. 5000), SSettle 1 ''2024-02'' 2000)] settle_demo \<and>
     get_committed s 0 ''2024-02'' = 100 \<and> get_settlement s 0 ''2024-02'' \<noteq> None \<and> get_settlement s 1 ''2024-02'' \<noteq> None"
  by (simp add: settle_eval settle_def exec_def)

lemma paid_period_settled_for_good_witness:
  "\<nexists>sw. settle_multi ref_token (env_at 9 9) 0 [''2024-02''] [5] (run (settle_step ref_token) []
     (run (settle_step ref_token) [(env_at 2 2, (\<lambda>_ _. 5000), SSettle 0 ''2024-02'' 1000),
       (env_at 3 3, (\<lambda>_ _. 5000), SSettle 1 ''2024-02'' 2000)] settle_demo), (\<lambda>_ _. 5000)) = Inr sw"
  by (rule paid_period_settled_for_good [THEN conjunct2]) (use settle_demo_both in auto)

lemma one_currency_per_period_witness:
  "\<exists>a b. se_agreements settle_demo 0 = Some a \<and> se_agreements settle_demo 1 = Some b \<and> ag_token a = ag_token b"
proof -
  let ?s = "run (settle_step ref_token) [(env_at 2 2, (\<lambda>_ _. 5000), SSettle 0 ''2024-02'' 1000),
       (env_at 3 3, (\<lambda>_ _. 5000), SSettle 1 ''2024-02'' 2000)] settle_demo"
  have r: "reachable settle_start (settle_step ref_token) ?s" by (rule reachable_run [OF settle_demo_reachable])
  have "se_agreements ?s 0 = Some (demo_agreement 0 ''lender'') \<and> se_agreements ?s 1 = Some (demo_agreement 1 ''other'')"
    by (simp add: settle_eval settle_def exec_def)
  moreover obtain x y where "get_settlement ?s 0 ''2024-02'' = Some x" "get_settlement ?s 1 ''2024-02'' = Some y"
    using settle_demo_both by auto
  ultimately have "ag_token (demo_agreement 0 ''lender'') = ag_token (demo_agreement 1 ''other'')"
    using one_currency_per_period [OF r, of 0 "demo_agreement 0 ''lender''" 1 "demo_agreement 1 ''other''" "''2024-02''" x y] by simp
  then show ?thesis using settle_demo_agreements(1,2) by blast
qed

text \<open>A call that names a period twice passes the checks: the lender is paid for both, one record stays.\<close>

lemma duplicate_period_paid_twice:
  "\<exists>s' w'. settle_multi ref_token (env_at 2 2) 0 [''2024-02'', ''2024-02''] [1000, 1000] (settle_demo, (\<lambda>_ _. 5000)) = Inr (s', w') \<and>
     get_committed s' 0 ''2024-02'' = 100 \<and> w' ''token'' ''lender'' = 5200"
  by (simp add: settle_eval)

end
