(* ===== verification/Revenue_Curve.thy ===== *)
theory Revenue_Curve
  imports Attestation_Client
begin

text \<open>
  \<open>contracts/revenue-curve/src/lib.rs\<close>: the APR of a loan from a base rate, a premium per point of the anomaly
  score and a discount by revenue tier, clamped to a band. The attestation contract is a parameter.
\<close>

section \<open>State\<close>

record pricing_policy =
  pp_base_apr_bps :: nat
  pp_min_apr_bps :: nat
  pp_max_apr_bps :: nat
  pp_risk_premium_bps_per_point :: nat
  pp_enabled :: bool

record revenue_tier =
  rt_min_revenue :: int
  rt_discount_bps :: nat

record pricing_output =
  po_apr_bps :: nat
  po_base_apr_bps :: nat
  po_risk_premium_bps :: nat
  po_tier_discount_bps :: nat
  po_tier_level :: nat

record curve_state =
  cv_admin :: "address option"
  cv_attestation_contract :: "address option"
  cv_policy :: "pricing_policy option"
  cv_tiers :: "revenue_tier list option"

definition curve_empty :: curve_state where
  "curve_empty = \<lparr>cv_admin = None, cv_attestation_contract = None, cv_policy = None, cv_tiers = None\<rparr>"

section \<open>Configuration\<close>

definition curve_initialize :: "ledger_env \<Rightarrow> address \<Rightarrow> curve_state \<Rightarrow> curve_state res" where
  "curve_initialize env admin s =
     bindr (require_auth env admin) (\<lambda>_.
     bindr (assertr (cv_admin s = None) ''already initialized'') (\<lambda>_.
     Inr (s\<lparr>cv_admin := Some admin\<rparr>)))"

definition curve_require_admin :: "ledger_env \<Rightarrow> address \<Rightarrow> curve_state \<Rightarrow> unit res" where
  "curve_require_admin env admin s =
     bindr (expectr (cv_admin s) ''not initialized'') (\<lambda>stored_admin.
     bindr (assertr (admin = stored_admin) ''caller is not admin'') (\<lambda>_.
     require_auth env admin))"

definition curve_set_attestation_contract :: "ledger_env \<Rightarrow> address \<Rightarrow> address \<Rightarrow> curve_state \<Rightarrow> curve_state res" where
  "curve_set_attestation_contract env admin attestation_contract s =
     bindr (curve_require_admin env admin s) (\<lambda>_. Inr (s\<lparr>cv_attestation_contract := Some attestation_contract\<rparr>))"

definition set_pricing_policy :: "ledger_env \<Rightarrow> address \<Rightarrow> pricing_policy \<Rightarrow> curve_state \<Rightarrow> curve_state res" where
  "set_pricing_policy env admin policy s =
     bindr (curve_require_admin env admin s) (\<lambda>_.
     bindr (assertr (pp_max_apr_bps policy \<le> 10000) ''max_apr cannot exceed 10000 bps (100%)'') (\<lambda>_.
     bindr (assertr (pp_min_apr_bps policy \<le> pp_max_apr_bps policy) ''min_apr must be <= max_apr'') (\<lambda>_.
     bindr (assertr (pp_min_apr_bps policy \<le> pp_base_apr_bps policy \<and> pp_base_apr_bps policy \<le> pp_max_apr_bps policy)
              ''base_apr must be within [min_apr, max_apr]'') (\<lambda>_.
     bindr (assertr (pp_risk_premium_bps_per_point policy \<le> 1000) ''risk premium per point cannot exceed 1000 bps'') (\<lambda>_.
     Inr (s\<lparr>cv_policy := Some policy\<rparr>))))))"

fun check_tiers :: "int option \<Rightarrow> nat \<Rightarrow> revenue_tier list \<Rightarrow> unit res" where
  "check_tiers prev_revenue prev_discount [] = Inr ()"
| "check_tiers prev_revenue prev_discount (tier # tiers) =
     bindr (case prev_revenue of
              Some p \<Rightarrow> assertr (p < rt_min_revenue tier) ''tiers must be sorted by min_revenue ascending''
            | None \<Rightarrow> Inr ()) (\<lambda>_.
     bindr (assertr (rt_discount_bps tier \<le> 10000) ''discount cannot exceed 100%'') (\<lambda>_.
     bindr (assertr (prev_discount \<le> rt_discount_bps tier) ''tier discounts must be non-decreasing (monotonic)'') (\<lambda>_.
     check_tiers (Some (rt_min_revenue tier)) (rt_discount_bps tier) tiers)))"

definition set_revenue_tiers :: "ledger_env \<Rightarrow> address \<Rightarrow> revenue_tier list \<Rightarrow> curve_state \<Rightarrow> curve_state res" where
  "set_revenue_tiers env admin tiers s =
     bindr (curve_require_admin env admin s) (\<lambda>_.
     bindr (assertr (length tiers \<le> 20) ''maximum of 20 tiers allowed'') (\<lambda>_.
     bindr (check_tiers None 0 tiers) (\<lambda>_.
     Inr (s\<lparr>cv_tiers := Some tiers\<rparr>))))"

section \<open>Pricing\<close>

definition scaled_risk_premium_bps :: "nat \<Rightarrow> nat \<Rightarrow> nat" where
  "scaled_risk_premium_bps anomaly_score risk_premium_bps_per_point =
     min (u64_sat (anomaly_score * risk_premium_bps_per_point)) u32_max"

definition assemble_pricing_output :: "pricing_policy \<Rightarrow> nat \<Rightarrow> nat \<Rightarrow> nat \<Rightarrow> pricing_output" where
  "assemble_pricing_output policy risk_premium_bps tier_discount_bps tier_level =
     (let combined = min (u64_sat (pp_base_apr_bps policy + risk_premium_bps)) u32_max;
          apr_bps = combined - tier_discount_bps in
      \<lparr>po_apr_bps = min (max apr_bps (pp_min_apr_bps policy)) (pp_max_apr_bps policy),
       po_base_apr_bps = pp_base_apr_bps policy, po_risk_premium_bps = risk_premium_bps,
       po_tier_discount_bps = tier_discount_bps, po_tier_level = tier_level\<rparr>)"

fun tier_loop :: "int \<Rightarrow> nat \<Rightarrow> revenue_tier list \<Rightarrow> nat \<Rightarrow> nat \<Rightarrow> nat \<times> nat" where
  "tier_loop revenue idx [] best_discount best_tier = (best_discount, best_tier)"
| "tier_loop revenue idx (tier # tiers) best_discount best_tier =
     (if rt_min_revenue tier \<le> revenue \<and> best_discount < rt_discount_bps tier
      then tier_loop revenue (idx + 1) tiers (rt_discount_bps tier) (idx + 1)
      else tier_loop revenue (idx + 1) tiers best_discount best_tier)"

definition find_tier_discount :: "curve_state \<Rightarrow> int \<Rightarrow> nat \<times> nat" where
  "find_tier_discount s revenue =
     (case cv_tiers s of Some tiers \<Rightarrow> tier_loop revenue 0 tiers 0 0 | None \<Rightarrow> (0, 0))"

definition pricing_output_for_inputs :: "curve_state \<Rightarrow> pricing_policy \<Rightarrow> int \<Rightarrow> nat \<Rightarrow> pricing_output" where
  "pricing_output_for_inputs s policy revenue anomaly_score =
     (let risk_premium_bps = scaled_risk_premium_bps anomaly_score (pp_risk_premium_bps_per_point policy);
          (tier_discount_bps, tier_level) = find_tier_discount s revenue in
      assemble_pricing_output policy risk_premium_bps tier_discount_bps tier_level)"

definition get_pricing_quote :: "curve_state \<Rightarrow> int \<Rightarrow> nat \<Rightarrow> pricing_output res" where
  "get_pricing_quote s revenue anomaly_score =
     bindr (assertr (anomaly_score \<le> 100) ''anomaly_score must be <= 100'') (\<lambda>_.
     bindr (expectr (cv_policy s) ''pricing policy not configured'') (\<lambda>policy.
     bindr (assertr (pp_enabled policy) ''pricing policy is disabled'') (\<lambda>_.
     Inr (pricing_output_for_inputs s policy revenue anomaly_score))))"

definition calculate_pricing ::
  "'w att_client \<Rightarrow> curve_state \<Rightarrow> address \<Rightarrow> sstring \<Rightarrow> int \<Rightarrow> nat \<Rightarrow> 'w \<Rightarrow> (pricing_output \<times> 'w) res" where
  "calculate_pricing C s business period revenue anomaly_score w =
     bindr (assertr (anomaly_score \<le> 100) ''anomaly_score must be <= 100'') (\<lambda>_.
     bindr (expectr (cv_policy s) ''pricing policy not configured'') (\<lambda>policy.
     bindr (assertr (pp_enabled policy) ''pricing policy is disabled'') (\<lambda>_.
     bindr (expectr (cv_attestation_contract s) ''attestation contract not set'') (\<lambda>attestation_contract.
     bindr (ac_get_attestation C attestation_contract business period w) (\<lambda>(found, w1).
     bindr (ac_get_revocation_info C attestation_contract business period w1) (\<lambda>(revocation, w2).
     bindr (assertr (found \<noteq> None) ''attestation not found'') (\<lambda>_.
     bindr (assertr (revocation = None) ''attestation is revoked'') (\<lambda>_.
     Inr (pricing_output_for_inputs s policy revenue anomaly_score, w2)))))))))"

definition get_pricing_policy :: "curve_state \<Rightarrow> pricing_policy option" where "get_pricing_policy s = cv_policy s"
definition get_revenue_tiers :: "curve_state \<Rightarrow> revenue_tier list option" where "get_revenue_tiers s = cv_tiers s"

definition curve_get_attestation_contract :: "curve_state \<Rightarrow> address option" where
  "curve_get_attestation_contract s = cv_attestation_contract s"

definition curve_get_admin :: "curve_state \<Rightarrow> address res" where
  "curve_get_admin s = expectr (cv_admin s) ''not initialized''"

section \<open>The machine\<close>

datatype curve_call =
    CvInit address
  | CvSetAttestation address address
  | CvSetPolicy address pricing_policy
  | CvSetTiers address "revenue_tier list"

fun curve_step :: "ledger_env \<times> curve_call \<Rightarrow> curve_state \<Rightarrow> curve_state res" where
  "curve_step (env, CvInit a) s = curve_initialize env a s"
| "curve_step (env, CvSetAttestation a c) s = curve_set_attestation_contract env a c s"
| "curve_step (env, CvSetPolicy a p) s = set_pricing_policy env a p s"
| "curve_step (env, CvSetTiers a ts) s = set_revenue_tiers env a ts s"

definition policy_ok :: "pricing_policy \<Rightarrow> bool" where
  "policy_ok p \<longleftrightarrow> pp_max_apr_bps p \<le> 10000 \<and> pp_min_apr_bps p \<le> pp_base_apr_bps p \<and> pp_base_apr_bps p \<le> pp_max_apr_bps p \<and>
     pp_risk_premium_bps_per_point p \<le> 1000"

definition tiers_ok :: "revenue_tier list \<Rightarrow> bool" where
  "tiers_ok ts \<longleftrightarrow> length ts \<le> 20 \<and> (\<forall>t\<in>set ts. rt_discount_bps t \<le> 10000) \<and>
     sorted_wrt (\<lambda>t u. rt_min_revenue t < rt_min_revenue u \<and> rt_discount_bps t \<le> rt_discount_bps u) ts"

definition curve_ok :: "curve_state \<Rightarrow> bool" where
  "curve_ok s \<longleftrightarrow> (\<forall>p. cv_policy s = Some p \<longrightarrow> policy_ok p) \<and> (\<forall>ts. cv_tiers s = Some ts \<longrightarrow> tiers_ok ts)"

lemma check_tiers_Inr:
  "check_tiers prev d ts = Inr () \<Longrightarrow>
     (\<forall>t\<in>set ts. rt_discount_bps t \<le> 10000 \<and> d \<le> rt_discount_bps t \<and> (\<forall>p. prev = Some p \<longrightarrow> p < rt_min_revenue t)) \<and>
     sorted_wrt (\<lambda>t u. rt_min_revenue t < rt_min_revenue u \<and> rt_discount_bps t \<le> rt_discount_bps u) ts"
proof (induction prev d ts rule: check_tiers.induct)
  case (2 prev d t ts)
  then show ?case by (cases prev) fastforce+
qed simp

interpretation curve: invariant_machine "\<lambda>s. s = curve_empty" curve_step curve_ok
proof
  show "curve_ok s" if "s = curve_empty" for s using that by (simp add: curve_ok_def curve_empty_def)
  show "curve_ok s'" if "curve_ok s" "curve_step e s = Inr s'" for s e s'
  proof -
    obtain env c where e: "e = (env, c)" by (cases e)
    show ?thesis
      using that e check_tiers_Inr [of None 0]
      by (cases c) (auto simp: curve_initialize_def curve_set_attestation_contract_def set_pricing_policy_def
        set_revenue_tiers_def curve_ok_def policy_ok_def tiers_ok_def)
  qed
qed

section \<open>The reference\<close>

text \<open>The discount of the highest tier that the revenue reaches, none below the first.\<close>

definition reached :: "int \<Rightarrow> revenue_tier list \<Rightarrow> revenue_tier list" where
  "reached revenue ts = filter (\<lambda>t. rt_min_revenue t \<le> revenue) ts"

definition tier_discount_at :: "int \<Rightarrow> revenue_tier list \<Rightarrow> nat" where
  "tier_discount_at revenue ts = (if reached revenue ts = [] then 0 else rt_discount_bps (last (reached revenue ts)))"

definition apr_at :: "pricing_policy \<Rightarrow> revenue_tier list \<Rightarrow> int \<Rightarrow> nat \<Rightarrow> nat" where
  "apr_at p ts revenue score =
     min (max (pp_base_apr_bps p + score * pp_risk_premium_bps_per_point p - tier_discount_at revenue ts) (pp_min_apr_bps p))
       (pp_max_apr_bps p)"

lemma tier_loop_max:
  "fst (tier_loop v i ts d l) = fold max (map rt_discount_bps (reached v ts)) d"
  by (induction v i ts d l rule: tier_loop.induct) (auto simp: reached_def max_def)

lemma fold_max_sorted: "sorted (xs :: nat list) \<Longrightarrow> fold max xs d = (if xs = [] then d else max d (last xs))"
proof (induction xs arbitrary: d)
  case (Cons x xs)
  have "x \<le> last xs" if "xs \<noteq> []" using Cons.prems that by simp
  moreover have "fold max xs (max x d) = (if xs = [] then max x d else max (max x d) (last xs))"
    using Cons by simp
  moreover have "max (max x d) (last xs) = max d (last xs)" if "xs \<noteq> []"
    using \<open>xs \<noteq> [] \<Longrightarrow> x \<le> last xs\<close> [OF that] by (simp add: max_def)
  ultimately show ?case by (simp add: max.commute)
qed simp

lemma reached_sorted: "tiers_ok ts \<Longrightarrow> sorted (map rt_discount_bps (reached v ts))"
  unfolding tiers_ok_def reached_def sorted_wrt_map
  by (intro sorted_wrt_filter) (auto elim: sorted_wrt_mono_rel [rotated])

lemma find_tier_exact:
  assumes "\<forall>ts. cv_tiers s = Some ts \<longrightarrow> tiers_ok ts"
  shows "fst (find_tier_discount s v) = tier_discount_at v (unwrap_or (cv_tiers s) [])"
proof (cases "cv_tiers s")
  case None
  then show ?thesis by (simp add: find_tier_discount_def tier_discount_at_def reached_def)
next
  case (Some ts)
  with assms have "sorted (map rt_discount_bps (reached v ts))" by (simp add: reached_sorted)
  from fold_max_sorted [OF this] Some show ?thesis
    by (simp add: find_tier_discount_def tier_loop_max tier_discount_at_def last_map)
qed

lemma tier_discount_mono:
  assumes "tiers_ok ts" and "v \<le> v'"
  shows "tier_discount_at v ts \<le> tier_discount_at v' ts"
proof (cases "reached v ts = []")
  case True
  then show ?thesis by (simp add: tier_discount_at_def)
next
  case False
  then have "last (reached v ts) \<in> set (reached v ts)" by simp
  then have t: "last (reached v ts) \<in> set (reached v' ts)" using assms(2) by (auto simp: reached_def simp del: last_in_set)
  then have ne: "map rt_discount_bps (reached v' ts) \<noteq> []" by auto
  have "x \<le> last xs" if "sorted xs" "x \<in> set xs" for x and xs :: "nat list"
    using that by (induction xs) (auto intro: order.trans)
  from this [OF reached_sorted [OF assms(1), of v'], of "rt_discount_bps (last (reached v ts))"] t ne False show ?thesis
    by (auto simp: tier_discount_at_def last_map)
qed

lemma apr_mono:
  assumes "tiers_ok ts" and "v \<le> v'" and "n \<le> m"
  shows "apr_at p ts v' n \<le> apr_at p ts v m"
proof -
  have "n * pp_risk_premium_bps_per_point p \<le> m * pp_risk_premium_bps_per_point p" using assms(3) by (rule mult_le_mono1)
  with tier_discount_mono [OF assms(1,2)] have
    "pp_base_apr_bps p + n * pp_risk_premium_bps_per_point p - tier_discount_at v' ts \<le>
     pp_base_apr_bps p + m * pp_risk_premium_bps_per_point p - tier_discount_at v ts" by linarith
  then show ?thesis unfolding apr_at_def by (intro min.mono max.mono order_refl)
qed

lemma quote_apr:
  assumes "curve_ok s" and "get_pricing_quote s v n = Inr out"
  obtains p where "cv_policy s = Some p" "policy_ok p" "pp_enabled p" "n \<le> 100" "po_apr_bps out = apr_at p (unwrap_or (cv_tiers s) []) v n"
    "po_tier_discount_bps out = tier_discount_at v (unwrap_or (cv_tiers s) [])"
proof -
  from assms(2) obtain p where p: "cv_policy s = Some p" "n \<le> 100" "pp_enabled p" "out = pricing_output_for_inputs s p v n"
    by (auto simp: get_pricing_quote_def)
  with assms(1) have ok: "policy_ok p" by (simp add: curve_ok_def)
  have "n * pp_risk_premium_bps_per_point p \<le> 100 * 1000" using p(2) ok by (intro mult_le_mono) (simp_all add: policy_ok_def)
  then have "scaled_risk_premium_bps n (pp_risk_premium_bps_per_point p) = n * pp_risk_premium_bps_per_point p"
    "min (u64_sat (pp_base_apr_bps p + n * pp_risk_premium_bps_per_point p)) u32_max =
       pp_base_apr_bps p + n * pp_risk_premium_bps_per_point p"
    using ok by (simp_all add: scaled_risk_premium_bps_def policy_ok_def u64_sat_def u64_max_def u32_max_def)
  moreover have "fst (find_tier_discount s v) = tier_discount_at v (unwrap_or (cv_tiers s) [])"
    by (rule find_tier_exact) (use assms(1) in \<open>simp add: curve_ok_def\<close>)
  ultimately have "po_apr_bps out = apr_at p (unwrap_or (cv_tiers s) []) v n"
    "po_tier_discount_bps out = tier_discount_at v (unwrap_or (cv_tiers s) [])"
    by (cases "find_tier_discount s v", simp add: p(4) pricing_output_for_inputs_def assemble_pricing_output_def apr_at_def Let_def)+
  with p ok that show thesis by blast
qed

section \<open>What the contract promises\<close>

text \<open>
  A price is the base rate plus the premium of the score less the discount of the highest tier that the revenue
  reaches, clamped to the band of the policy: none of the saturations is ever met, and the tier walk finds the last
  tier reached.
\<close>

theorem pricing_exact:
  assumes "reachable (\<lambda>s. s = curve_empty) curve_step s" and "get_pricing_quote s v n = Inr out"
  shows "\<exists>p. cv_policy s = Some p \<and> po_apr_bps out = apr_at p (unwrap_or (cv_tiers s) []) v n \<and>
    pp_min_apr_bps p \<le> po_apr_bps out \<and> po_apr_bps out \<le> pp_max_apr_bps p \<and> po_apr_bps out \<le> 10000"
  by (rule quote_apr [OF curve.reachable_inv [OF assms(1)] assms(2)]) (auto simp: apr_at_def policy_ok_def)

text \<open>
  C30. Prices are monotone: with more revenue and a score that is no worse, a business never pays a higher rate.
\<close>

theorem pricing_monotone:
  assumes "reachable (\<lambda>s. s = curve_empty) curve_step s" and "get_pricing_quote s v m = Inr a"
    and "get_pricing_quote s v' n = Inr b" and "v \<le> v'" and "n \<le> m"
  shows "po_apr_bps b \<le> po_apr_bps a"
proof -
  note ok = curve.reachable_inv [OF assms(1)]
  have "tiers_ok (unwrap_or (cv_tiers s) [])" using ok by (cases "cv_tiers s") (auto simp: curve_ok_def tiers_ok_def)
  moreover obtain p where "cv_policy s = Some p" "po_apr_bps a = apr_at p (unwrap_or (cv_tiers s) []) v m"
    by (rule quote_apr [OF ok assms(2)])
  moreover obtain q where "cv_policy s = Some q" "po_apr_bps b = apr_at q (unwrap_or (cv_tiers s) []) v' n"
    by (rule quote_apr [OF ok assms(3)])
  ultimately show ?thesis using apr_mono [OF _ assms(4,5)] by simp
qed

text \<open>A calculated price is the quote, under an attestation that was found and is not revoked.\<close>

lemma calculated_is_quote:
  "calculate_pricing C s b p v n w = Inr (out, w') \<Longrightarrow> get_pricing_quote s v n = Inr out \<and>
     (\<exists>c d w1. cv_attestation_contract s = Some c \<and> ac_get_attestation C c b p w = Inr (Some d, w1) \<and>
        ac_get_revocation_info C c b p w1 = Inr (None, w'))"
  by (auto simp: calculate_pricing_def get_pricing_quote_def split: prod.splits)

section \<open>Witnesses\<close>

definition curve_demo :: curve_state where
  "curve_demo = run curve_step
     [(env_at 0 0, CvInit ''admin''),
      (env_at 0 0, CvSetPolicy ''admin'' \<lparr>pp_base_apr_bps = 1000, pp_min_apr_bps = 300, pp_max_apr_bps = 3000,
         pp_risk_premium_bps_per_point = 10, pp_enabled = True\<rparr>),
      (env_at 0 0, CvSetTiers ''admin'' [\<lparr>rt_min_revenue = 100, rt_discount_bps = 50\<rparr>, \<lparr>rt_min_revenue = 1000, rt_discount_bps = 200\<rparr>])]
     curve_empty"

lemma curve_demo_reachable: "reachable (\<lambda>s. s = curve_empty) curve_step curve_demo"
  unfolding curve_demo_def by (rule reachable_run, rule reachable_start) simp

definition curve_demo_policy :: pricing_policy where
  "curve_demo_policy = \<lparr>pp_base_apr_bps = 1000, pp_min_apr_bps = 300, pp_max_apr_bps = 3000,
     pp_risk_premium_bps_per_point = 10, pp_enabled = True\<rparr>"

lemma curve_demo_state:
  "curve_demo = curve_empty\<lparr>cv_admin := Some ''admin'', cv_policy := Some curve_demo_policy,
     cv_tiers := Some [\<lparr>rt_min_revenue = 100, rt_discount_bps = 50\<rparr>, \<lparr>rt_min_revenue = 1000, rt_discount_bps = 200\<rparr>]\<rparr>"
  by (simp add: curve_demo_def exec_def curve_initialize_def set_pricing_policy_def set_revenue_tiers_def curve_require_admin_def
      curve_empty_def curve_demo_policy_def)

lemma curve_demo_quotes: "\<exists>a b. get_pricing_quote curve_demo 500 20 = Inr a \<and> get_pricing_quote curve_demo 5000 10 = Inr b"
  by (simp add: curve_demo_state curve_empty_def get_pricing_quote_def curve_demo_policy_def)

lemma pricing_exact_witness: "\<exists>out. get_pricing_quote curve_demo 500 20 = Inr out \<and> po_apr_bps out \<le> 10000"
proof -
  obtain a b where a: "get_pricing_quote curve_demo 500 20 = Inr a" "get_pricing_quote curve_demo 5000 10 = Inr b"
    using curve_demo_quotes by (elim exE conjE) (rule that)
  from pricing_exact [OF curve_demo_reachable a(1)] have "po_apr_bps a \<le> 10000" by (elim exE conjE)
  with a(1) show ?thesis by (intro exI conjI)
qed

lemma pricing_monotone_witness:
  "\<exists>a b. get_pricing_quote curve_demo 500 20 = Inr a \<and> get_pricing_quote curve_demo 5000 10 = Inr b \<and> po_apr_bps b \<le> po_apr_bps a"
proof -
  obtain a b where a: "get_pricing_quote curve_demo 500 20 = Inr a" "get_pricing_quote curve_demo 5000 10 = Inr b"
    using curve_demo_quotes by (elim exE conjE) (rule that)
  have "po_apr_bps b \<le> po_apr_bps a" by (rule pricing_monotone [OF curve_demo_reachable a]) simp_all
  with a show ?thesis by (intro exI conjI)
qed

end
