(* ===== verification/Audit_Log.thy ===== *)
theory Audit_Log
  imports Merkle Replay_Protection
begin

text \<open>
  \<open>contracts/audit-log/src/lib.rs\<close>: an append-only log whose entries are chained by their hashes, with an index
  per actor and per source contract. The host's XDR encoding followed by SHA-256 is one parameter, \<open>digest\<close>,
  a function of the hashed fields.
\<close>

section \<open>State\<close>

definition AUDIT_CHANNEL_ADMIN :: nat where "AUDIT_CHANNEL_ADMIN = 1"

record hash_input =
  hi_seq :: nat
  hi_actor :: address
  hi_source_contract :: address
  hi_action :: sstring
  hi_payload :: sstring
  hi_ledger_seq :: nat
  hi_prev_hash :: bytesn

record audit_record =
  au_seq :: nat
  au_actor :: address
  au_source_contract :: address
  au_action :: sstring
  au_payload :: sstring
  au_ledger_seq :: nat
  au_prev_hash :: bytesn
  au_entry_hash :: bytesn

record audit_state =
  al_admin :: "address option"
  al_next_seq :: "nat option"
  al_last_hash :: "bytesn option"
  al_entries :: "nat \<rightharpoonup> audit_record"
  al_actor_index :: "address \<rightharpoonup> nat list"
  al_contract_index :: "address \<rightharpoonup> nat list"
  al_nonces :: nonces

definition audit_empty :: audit_state where
  "audit_empty = \<lparr>al_admin = None, al_next_seq = None, al_last_hash = None, al_entries = Map.empty,
     al_actor_index = Map.empty, al_contract_index = Map.empty, al_nonces = Map.empty\<rparr>"

definition zero_hash :: bytesn where "zero_hash = BytesN (replicate 32 0)"

definition compute_entry_hash ::
  "(hash_input \<Rightarrow> bytesn) \<Rightarrow> nat \<Rightarrow> address \<Rightarrow> address \<Rightarrow> sstring \<Rightarrow> sstring \<Rightarrow> nat \<Rightarrow> bytesn \<Rightarrow> bytesn" where
  "compute_entry_hash digest seq actor source_contract action payload ledger_seq prev_hash =
     digest \<lparr>hi_seq = seq, hi_actor = actor, hi_source_contract = source_contract, hi_action = action,
       hi_payload = payload, hi_ledger_seq = ledger_seq, hi_prev_hash = prev_hash\<rparr>"

section \<open>Entry points\<close>

definition audit_initialize :: "ledger_env \<Rightarrow> address \<Rightarrow> nat \<Rightarrow> audit_state \<Rightarrow> audit_state res" where
  "audit_initialize env admin nonce s =
     bindr (require_auth env admin) (\<lambda>_.
     bindr (verify_and_increment_nonce (al_nonces s) admin AUDIT_CHANNEL_ADMIN nonce) (\<lambda>n.
     bindr (assertr (al_admin s = None) ''already initialized'') (\<lambda>_.
     Inr (s\<lparr>al_nonces := n, al_admin := Some admin, al_next_seq := Some 0, al_last_hash := Some zero_hash\<rparr>))))"

definition append_entry ::
  "(hash_input \<Rightarrow> bytesn) \<Rightarrow> ledger_env \<Rightarrow> nat \<Rightarrow> address \<Rightarrow> address \<Rightarrow> sstring \<Rightarrow> sstring \<Rightarrow> audit_state \<Rightarrow>
   (nat \<times> audit_state) res" where
  "append_entry digest env nonce actor source_contract action payload s =
     bindr (expectr (al_admin s) ''not initialized'') (\<lambda>admin.
     bindr (require_auth env admin) (\<lambda>_.
     bindr (verify_and_increment_nonce (al_nonces s) admin AUDIT_CHANNEL_ADMIN nonce) (\<lambda>n.
     (let seq = unwrap_or (al_next_seq s) 0;
          prev_hash = unwrap_or (al_last_hash s) zero_hash;
          entry_hash = compute_entry_hash digest seq actor source_contract action payload (sequence env) prev_hash;
          entry = \<lparr>au_seq = seq, au_actor = actor, au_source_contract = source_contract, au_action = action,
            au_payload = payload, au_ledger_seq = sequence env, au_prev_hash = prev_hash, au_entry_hash = entry_hash\<rparr> in
      bindr (u64_chk (seq + 1)) (\<lambda>next_seq.
      (let actor_seqs = unwrap_or (al_actor_index s actor) [] @ [seq];
           contract_seqs = unwrap_or (al_contract_index s source_contract) [] @ [seq] in
       Inr (seq, s\<lparr>al_nonces := n, al_entries := (al_entries s)(seq \<mapsto> entry), al_next_seq := Some next_seq,
         al_last_hash := Some entry_hash, al_actor_index := (al_actor_index s)(actor \<mapsto> actor_seqs),
         al_contract_index := (al_contract_index s)(source_contract \<mapsto> contract_seqs)\<rparr>)))))))"

definition get_log_count :: "audit_state \<Rightarrow> nat" where "get_log_count s = unwrap_or (al_next_seq s) 0"
definition get_entry :: "audit_state \<Rightarrow> nat \<Rightarrow> audit_record option" where "get_entry s seq = al_entries s seq"

definition get_seqs_by_actor :: "audit_state \<Rightarrow> address \<Rightarrow> nat list" where
  "get_seqs_by_actor s actor = unwrap_or (al_actor_index s actor) []"

definition get_seqs_by_contract :: "audit_state \<Rightarrow> address \<Rightarrow> nat list" where
  "get_seqs_by_contract s source_contract = unwrap_or (al_contract_index s source_contract) []"

definition audit_get_admin :: "audit_state \<Rightarrow> address res" where
  "audit_get_admin s = expectr (al_admin s) ''not initialized''"

definition get_last_hash :: "audit_state \<Rightarrow> bytesn" where
  "get_last_hash s = unwrap_or (al_last_hash s) zero_hash"

definition audit_get_replay_nonce :: "audit_state \<Rightarrow> address \<Rightarrow> nat \<Rightarrow> nat" where
  "audit_get_replay_nonce s actor channel = get_nonce (al_nonces s) actor channel"

section \<open>The machine\<close>

datatype audit_call =
    AuInit address nat
  | AuAppend nat address address sstring sstring

fun audit_step :: "(hash_input \<Rightarrow> bytesn) \<Rightarrow> ledger_env \<times> audit_call \<Rightarrow> audit_state \<Rightarrow> audit_state res" where
  "audit_step digest (env, AuInit a n) s = audit_initialize env a n s"
| "audit_step digest (env, AuAppend n a c x p) s = bindr (append_entry digest env n a c x p s) (\<lambda>(_, s'). Inr s')"

text \<open>What an entry hashes, and the chain: the entries from the first on, each with the hash before it.\<close>

definition hashed :: "audit_record \<Rightarrow> hash_input" where
  "hashed r = \<lparr>hi_seq = au_seq r, hi_actor = au_actor r, hi_source_contract = au_source_contract r, hi_action = au_action r,
     hi_payload = au_payload r, hi_ledger_seq = au_ledger_seq r, hi_prev_hash = au_prev_hash r\<rparr>"

definition log_of :: "audit_state \<Rightarrow> audit_record list" where
  "log_of s = map (\<lambda>k. the (al_entries s k)) [0..<get_log_count s]"

fun chained :: "(hash_input \<Rightarrow> bytesn) \<Rightarrow> audit_record list \<Rightarrow> bytesn \<Rightarrow> bool" where
  "chained digest [] h \<longleftrightarrow> h = zero_hash"
| "chained digest (r # rs) h \<longleftrightarrow> au_seq r = length rs \<and> au_entry_hash r = digest (hashed r) \<and> h = au_entry_hash r \<and>
     chained digest rs (au_prev_hash r)"

definition log_ok :: "(hash_input \<Rightarrow> bytesn) \<Rightarrow> audit_state \<Rightarrow> bool" where
  "log_ok digest s \<longleftrightarrow> dom (al_entries s) = {..<get_log_count s} \<and> (al_admin s = None \<longrightarrow> get_log_count s = 0) \<and>
     chained digest (rev (log_of s)) (get_last_hash s) \<and>
     (\<forall>a. get_seqs_by_actor s a = filter (\<lambda>k. au_actor (the (al_entries s k)) = a) [0..<get_log_count s]) \<and>
     (\<forall>c. get_seqs_by_contract s c = filter (\<lambda>k. au_source_contract (the (al_entries s k)) = c) [0..<get_log_count s])"

lemma append_cases:
  assumes "append_entry digest env n a c x p s = Inr (k, s')"
  obtains m h r where "al_admin s \<noteq> None" "k = get_log_count s" "h = get_last_hash s"
    "r = \<lparr>au_seq = k, au_actor = a, au_source_contract = c, au_action = x, au_payload = p, au_ledger_seq = sequence env,
       au_prev_hash = h, au_entry_hash = digest \<lparr>hi_seq = k, hi_actor = a, hi_source_contract = c, hi_action = x,
       hi_payload = p, hi_ledger_seq = sequence env, hi_prev_hash = h\<rparr>\<rparr>"
    "s' = s\<lparr>al_nonces := m, al_entries := (al_entries s)(k \<mapsto> r), al_next_seq := Some (k + 1),
         al_last_hash := Some (au_entry_hash r), al_actor_index := (al_actor_index s)(a \<mapsto> get_seqs_by_actor s a @ [k]),
         al_contract_index := (al_contract_index s)(c \<mapsto> get_seqs_by_contract s c @ [k])\<rparr>"
  using assms by (auto simp: append_entry_def Let_def get_log_count_def get_last_hash_def get_seqs_by_actor_def
      get_seqs_by_contract_def compute_entry_hash_def)

lemma append_ok:
  assumes ok: "log_ok digest s" and "append_entry digest env n a c x p s = Inr (k, s')"
  shows "log_ok digest s' \<and> log_of s' = log_of s @ [the (al_entries s' k)]"
  using assms(2)
proof (rule append_cases)
  fix m h r
  assume adm: "al_admin s \<noteq> None" and k: "k = get_log_count s" and h: "h = get_last_hash s"
    and r: "r = \<lparr>au_seq = k, au_actor = a, au_source_contract = c, au_action = x, au_payload = p, au_ledger_seq = sequence env,
       au_prev_hash = h, au_entry_hash = digest \<lparr>hi_seq = k, hi_actor = a, hi_source_contract = c, hi_action = x,
       hi_payload = p, hi_ledger_seq = sequence env, hi_prev_hash = h\<rparr>\<rparr>"
    and s': "s' = s\<lparr>al_nonces := m, al_entries := (al_entries s)(k \<mapsto> r), al_next_seq := Some (k + 1),
         al_last_hash := Some (au_entry_hash r), al_actor_index := (al_actor_index s)(a \<mapsto> get_seqs_by_actor s a @ [k]),
         al_contract_index := (al_contract_index s)(c \<mapsto> get_seqs_by_contract s c @ [k])\<rparr>"
  have n': "get_log_count s' = Suc k" by (simp add: s' get_log_count_def)
  have old: "al_entries s' j = al_entries s j" if "j < k" for j using that by (simp add: s')
  have log: "log_of s' = log_of s @ [r]"
    unfolding log_of_def n' k [symmetric] by (simp add: s')
  have fl: "filter (\<lambda>j. P (the (al_entries s' j))) [0..<Suc k] =
      filter (\<lambda>j. P (the (al_entries s j))) [0..<k] @ (if P r then [k] else [])" for P
  proof -
    have "filter (\<lambda>j. P (the (al_entries s' j))) [0..<k] = filter (\<lambda>j. P (the (al_entries s j))) [0..<k]"
      by (rule filter_cong) (simp_all add: old)
    then show ?thesis by (simp add: s')
  qed
  have "chained digest (rev (log_of s')) (get_last_hash s')"
  proof -
    have "get_last_hash s' = au_entry_hash r" by (simp add: s' get_last_hash_def)
    moreover have "length (log_of s) = k" by (simp add: log_of_def k)
    moreover have "chained digest (rev (log_of s)) h" using ok by (simp add: log_ok_def h)
    ultimately show ?thesis by (simp add: log r hashed_def)
  qed
  moreover have "dom (al_entries s') = {..<get_log_count s'}"
    using ok unfolding n' by (auto simp: s' log_ok_def k less_Suc_eq)
  moreover have "get_seqs_by_actor s' b = filter (\<lambda>j. au_actor (the (al_entries s' j)) = b) [0..<get_log_count s']" for b
  proof -
    have "get_seqs_by_actor s b = filter (\<lambda>j. au_actor (the (al_entries s j)) = b) [0..<k]" using ok by (simp add: log_ok_def k)
    moreover have "get_seqs_by_actor s' b = (if b = a then get_seqs_by_actor s b @ [k] else get_seqs_by_actor s b)"
      by (simp add: s' get_seqs_by_actor_def)
    ultimately show ?thesis unfolding n' fl [of "\<lambda>r. au_actor r = b"] by (cases "b = a") (simp_all add: r)
  qed
  moreover have "get_seqs_by_contract s' b = filter (\<lambda>j. au_source_contract (the (al_entries s' j)) = b) [0..<get_log_count s']" for b
  proof -
    have "get_seqs_by_contract s b = filter (\<lambda>j. au_source_contract (the (al_entries s j)) = b) [0..<k]" using ok by (simp add: log_ok_def k)
    moreover have "get_seqs_by_contract s' b = (if b = c then get_seqs_by_contract s b @ [k] else get_seqs_by_contract s b)"
      by (simp add: s' get_seqs_by_contract_def)
    ultimately show ?thesis unfolding n' fl [of "\<lambda>r. au_source_contract r = b"] by (cases "b = c") (simp_all add: r)
  qed
  moreover have "al_admin s' = al_admin s" "the (al_entries s' k) = r" by (simp_all add: s')
  ultimately show ?thesis using adm by (auto simp: log_ok_def log)
qed

interpretation audit: invariant_machine "\<lambda>s. s = audit_empty" "audit_step digest" "log_ok digest" for digest
proof
  show "log_ok digest s" if "s = audit_empty" for s
    using that by (simp add: log_ok_def audit_empty_def get_log_count_def log_of_def get_last_hash_def get_seqs_by_actor_def
        get_seqs_by_contract_def)
  show "log_ok digest s'" if "log_ok digest s" "audit_step digest e s = Inr s'" for s e s'
  proof -
    obtain env c where e: "e = (env, c)" by (cases e)
    show ?thesis
    proof (cases c)
      case (AuInit a n)
      with that e show ?thesis
        by (auto simp: audit_initialize_def log_ok_def get_log_count_def log_of_def get_last_hash_def get_seqs_by_actor_def
            get_seqs_by_contract_def)
    next
      case (AuAppend n a d x p)
      with that e show ?thesis using append_ok by fastforce
    qed
  qed
qed

text \<open>A log only grows at its end.\<close>

lemma audit_step_extends:
  assumes "log_ok digest s" and "audit_step digest e s = Inr s'"
  shows "\<exists>rs. log_of s' = log_of s @ rs"
proof -
  obtain env c where e: "e = (env, c)" by (cases e)
  show ?thesis
  proof (cases c)
    case (AuInit a n)
    with assms e have "log_of s = []" by (auto simp: audit_initialize_def log_ok_def log_of_def)
    then show ?thesis by simp
  next
    case (AuAppend n a d x p)
    with assms e show ?thesis using append_ok by fastforce
  qed
qed

text \<open>Under a digest without collisions on two chains, one head has one history.\<close>

lemma chain_unique:
  assumes "inj_on digest (hashed ` (set rs \<union> set ts))" and "zero_hash \<notin> digest ` hashed ` (set rs \<union> set ts)"
    and "chained digest rs h" and "chained digest ts h"
  shows "rs = ts"
  using assms
proof (induction rs arbitrary: ts h)
  case Nil
  then show ?case by (cases ts) (auto simp: image_iff)
next
  case (Cons r rs)
  show ?case
  proof (cases ts)
    case Nil
    with Cons.prems show ?thesis by (auto simp: image_iff)
  next
    case (Cons t us)
    note ts = this
    with Cons.prems(3,4) have "digest (hashed r) = digest (hashed t)" by simp
    then have "hashed r = hashed t" by (rule inj_onD [OF Cons.prems(1)]) (simp_all add: ts)
    moreover have "au_entry_hash r = au_entry_hash t" using Cons.prems(3,4) ts by simp
    ultimately have rt: "r = t" by (cases r, cases t) (simp add: hashed_def)
    have "rs = us"
    proof (rule Cons.IH)
      show "inj_on digest (hashed ` (set rs \<union> set us))" by (rule inj_on_subset [OF Cons.prems(1)]) (use ts in auto)
      show "zero_hash \<notin> digest ` hashed ` (set rs \<union> set us)" using Cons.prems(2) ts by auto
      show "chained digest rs (au_prev_hash r)" "chained digest us (au_prev_hash r)" using Cons.prems(3,4) ts rt by simp_all
    qed
    with rt ts show ?thesis by simp
  qed
qed

section \<open>What the contract promises\<close>

text \<open>
  C31. The log is tamper-evident. Take two reachable states of the log, over histories that may differ in everything. If
  the digest has no collision among what the two logs hash and never gives the zero hash, then equal heads mean
  equal logs, entry by entry.
\<close>

theorem log_tamper_evident:
  assumes "reachable (\<lambda>s. s = audit_empty) (audit_step digest) s" and "reachable (\<lambda>s. s = audit_empty) (audit_step digest) t"
    and "inj_on digest (hashed ` (set (log_of s) \<union> set (log_of t)))"
    and "zero_hash \<notin> digest ` hashed ` (set (log_of s) \<union> set (log_of t))" and "get_last_hash s = get_last_hash t"
  shows "log_of s = log_of t"
proof -
  have "chained digest (rev (log_of s)) (get_last_hash s)" "chained digest (rev (log_of t)) (get_last_hash s)"
    using audit.reachable_inv [OF assms(1)] audit.reachable_inv [OF assms(2)] assms(5) by (simp_all add: log_ok_def)
  with chain_unique [of digest "rev (log_of s)" "rev (log_of t)"] assms(3,4) show ?thesis by simp
qed

text \<open>
  The log is append-only and its indexes are exact: along every history the log of a state is a prefix of every later
  one, and the list of an actor is the ordered list of the numbers of its entries.
\<close>

theorem log_append_only:
  assumes "reachable (\<lambda>s. s = audit_empty) (audit_step digest) s"
  shows "\<exists>rs. log_of (run (audit_step digest) es s) = log_of s @ rs \<and>
    get_seqs_by_actor (run (audit_step digest) es s) a =
      filter (\<lambda>k. au_actor ((log_of s @ rs) ! k) = a) [0..<length (log_of s @ rs)]"
proof -
  let ?t = "run (audit_step digest) es s"
  note ok = audit.reachable_inv [OF assms]
  have "\<exists>rs. log_of ?t = log_of s @ rs"
    by (rule audit.run_rel [OF ok, where R = "\<lambda>s t. \<exists>rs. log_of t = log_of s @ rs"]) (auto dest: audit_step_extends)
  then obtain rs where rs: "log_of ?t = log_of s @ rs" by blast
  have "log_ok digest ?t" by (rule audit.run_inv [OF ok])
  then have "get_seqs_by_actor ?t a = filter (\<lambda>k. au_actor (the (al_entries ?t k)) = a) [0..<get_log_count ?t]"
    by (simp add: log_ok_def)
  also have "\<dots> = filter (\<lambda>k. au_actor (log_of ?t ! k) = a) [0..<get_log_count ?t]"
    by (rule filter_cong) (simp_all add: log_of_def)
  also have "get_log_count ?t = length (log_of ?t)" by (simp add: log_of_def)
  finally show ?thesis using rs by (intro exI [of _ rs]) simp
qed

section \<open>Witnesses\<close>

text \<open>A digest that is injective on the two entries of the demo.\<close>

definition audit_demo_digest :: "hash_input \<Rightarrow> bytesn" where
  "audit_demo_digest i = BytesN (replicate (hi_seq i) 0)"

lemma audit_init_eval:
  "audit_step d (env_at t q, AuInit ''admin'' 0) audit_empty =
     Inr (audit_empty\<lparr>al_nonces := [(''admin'', AUDIT_CHANNEL_ADMIN) \<mapsto> 1], al_admin := Some ''admin'', al_next_seq := Some 0,
       al_last_hash := Some zero_hash\<rparr>)"
  by (simp add: audit_initialize_def verify_and_increment_nonce_def get_nonce_def audit_empty_def u64_max_def)

lemma audit_append_eval:
  assumes "al_admin s = Some ''admin''" and "get_nonce (al_nonces s) ''admin'' AUDIT_CHANNEL_ADMIN = n" and "n < 1000"
    and "get_log_count s < 1000"
  shows "\<exists>s'. audit_step d (env_at t q, AuAppend n a c x p) s = Inr s' \<and> al_admin s' = Some ''admin'' \<and>
    get_nonce (al_nonces s') ''admin'' AUDIT_CHANNEL_ADMIN = n + 1 \<and> get_log_count s' = get_log_count s + 1"
  using assms by (simp add: append_entry_def verify_and_increment_nonce_def Let_def u64_max_def get_log_count_def)

lemma audit_demo_exists:
  "\<exists>s. reachable (\<lambda>s. s = audit_empty) (audit_step d) s \<and> get_log_count s = 2"
proof -
  let ?s0 = "audit_empty\<lparr>al_nonces := [(''admin'', AUDIT_CHANNEL_ADMIN) \<mapsto> 1], al_admin := Some ''admin'', al_next_seq := Some 0,
       al_last_hash := Some zero_hash\<rparr>"
  have r0: "reachable (\<lambda>s. s = audit_empty) (audit_step d) ?s0"
    by (rule reachable_call, rule reachable_start, rule refl, rule audit_init_eval)
  obtain s1 where s1: "audit_step d (env_at 1 1, AuAppend 1 ''alice'' ''att'' ''submit'' ''x'') ?s0 = Inr s1"
    "al_admin s1 = Some ''admin''" "get_nonce (al_nonces s1) ''admin'' AUDIT_CHANNEL_ADMIN = 2" "get_log_count s1 = 1"
    using audit_append_eval [of ?s0 1 d 1 1 "''alice''" "''att''" "''submit''" "''x''"]
    by (auto simp: get_nonce_def get_log_count_def)
  obtain s2 where s2: "audit_step d (env_at 2 2, AuAppend 2 ''bob'' ''att'' ''revoke'' ''y'') s1 = Inr s2" "get_log_count s2 = 2"
    using audit_append_eval [of s1 2 d 2 2 "''bob''" "''att''" "''revoke''" "''y''"] s1 by auto
  have "reachable (\<lambda>s. s = audit_empty) (audit_step d) s2"
    by (rule reachable_call, rule reachable_call, rule r0, rule s1(1), rule s2(1))
  with s2(2) show ?thesis by blast
qed

lemma chained_seqs: "chained d rs h \<Longrightarrow> distinct (map au_seq rs) \<and> (\<forall>r\<in>set rs. au_seq r < length rs)"
  by (induction rs arbitrary: h) (auto simp: less_Suc_eq, fastforce+)

lemma log_tamper_evident_witness:
  "\<exists>s. get_log_count s = 2 \<and> reachable (\<lambda>s. s = audit_empty) (audit_step audit_demo_digest) s \<and>
     inj_on audit_demo_digest (hashed ` (set (log_of s) \<union> set (log_of s))) \<and> log_of s = log_of s"
proof -
  obtain s where r: "reachable (\<lambda>s. s = audit_empty) (audit_step audit_demo_digest) s" and n: "get_log_count s = 2"
    using audit_demo_exists by blast
  have "chained audit_demo_digest (rev (log_of s)) (get_last_hash s)"
    using audit.reachable_inv [OF r] by (simp add: log_ok_def)
  from chained_seqs [OF this] have d: "distinct (map au_seq (log_of s))" and lt: "au_seq x < 2" if "x \<in> set (log_of s)" for x
    using that n by (auto simp: rev_map [symmetric] log_of_def)
  have i: "inj_on audit_demo_digest (hashed ` (set (log_of s) \<union> set (log_of s)))"
  proof (rule inj_onI, clarsimp)
    fix x y assume xy: "x \<in> set (log_of s)" "y \<in> set (log_of s)" "audit_demo_digest (hashed x) = audit_demo_digest (hashed y)"
    then have "au_seq x = au_seq y" by (auto simp: audit_demo_digest_def hashed_def dest: arg_cong [of _ _ length])
    with d [OF xy(1)] xy(1,2) show "hashed x = hashed y" by (auto simp: distinct_map dest: inj_onD)
  qed
  have z: "zero_hash \<notin> audit_demo_digest ` hashed ` (set (log_of s) \<union> set (log_of s))"
  proof
    assume "zero_hash \<in> audit_demo_digest ` hashed ` (set (log_of s) \<union> set (log_of s))"
    then obtain x where x: "x \<in> set (log_of s)" "zero_hash = audit_demo_digest (hashed x)" by auto
    from x(2) have "au_seq x = 32" by (auto simp: zero_hash_def audit_demo_digest_def hashed_def dest: arg_cong [of _ _ length])
    with lt [OF x(1)] show False by simp
  qed
  have "log_of s = log_of s" by (rule log_tamper_evident [OF r r i z refl])
  with r n i show ?thesis by (intro exI [of _ s] conjI)
qed

lemma log_append_only_witness:
  "\<exists>s rs. get_log_count s = 2 \<and>
     log_of (run (audit_step audit_demo_digest) [(env_at 3 3, AuAppend 3 ''alice'' ''att'' ''submit'' ''z'')] s) = log_of s @ rs"
proof -
  obtain s where r: "reachable (\<lambda>s. s = audit_empty) (audit_step audit_demo_digest) s" and n: "get_log_count s = 2"
    using audit_demo_exists by blast
  from log_append_only [OF r] obtain rs where
    "log_of (run (audit_step audit_demo_digest) [(env_at 3 3, AuAppend 3 ''alice'' ''att'' ''submit'' ''z'')] s) = log_of s @ rs" by blast
  with n show ?thesis by (intro exI [of _ s] exI [of _ rs] conjI)
qed

end
