(* ===== verification/Lender_Access_List.thy ===== *)
theory Lender_Access_List
  imports Prelude
begin

text \<open>
  \<open>contracts/lender-access-list/src/lib.rs\<close>: which lenders are admitted at which tier, set by accounts with the
  governance or the delegated role, which the administrator grants. Events are output only.
\<close>

section \<open>State\<close>

definition EVENT_SCHEMA_VERSION :: nat where "EVENT_SCHEMA_VERSION = 2"

datatype lender_status = LenderActive | LenderRemoved

record lender_metadata =
  lm_name :: sstring
  lm_url :: sstring
  lm_notes :: sstring

record lender =
  le_address :: address
  le_tier :: nat
  le_status :: lender_status
  le_metadata :: lender_metadata
  le_added_at :: nat
  le_updated_at :: nat
  le_updated_by :: address

record access_list =
  ll_admin :: "address option"
  ll_governance :: "address \<rightharpoonup> bool"
  ll_delegated :: "address \<rightharpoonup> bool"
  ll_lenders :: "address \<rightharpoonup> lender"
  ll_list :: "address list option"

definition list_empty :: access_list where
  "list_empty = \<lparr>ll_admin = None, ll_governance = Map.empty, ll_delegated = Map.empty, ll_lenders = Map.empty, ll_list = None\<rparr>"

section \<open>Roles\<close>

definition has_governance :: "access_list \<Rightarrow> address \<Rightarrow> bool" where
  "has_governance s account = unwrap_or (ll_governance s account) False"

definition has_delegated_admin :: "access_list \<Rightarrow> address \<Rightarrow> bool" where
  "has_delegated_admin s account = unwrap_or (ll_delegated s account) False"

definition list_require_admin :: "ledger_env \<Rightarrow> address \<Rightarrow> access_list \<Rightarrow> unit res" where
  "list_require_admin env caller s =
     bindr (require_auth env caller) (\<lambda>_.
     bindr (expectr (ll_admin s) ''not initialized'') (\<lambda>admin.
     assertr (caller = admin) ''caller is not admin''))"

definition require_lender_admin :: "ledger_env \<Rightarrow> address \<Rightarrow> access_list \<Rightarrow> unit res" where
  "require_lender_admin env caller s =
     bindr (require_auth env caller) (\<lambda>_.
     (let has_gov = unwrap_or (ll_governance s caller) False;
          has_del = unwrap_or (ll_delegated s caller) False in
      assertr (has_gov \<or> has_del) ''caller lacks lender admin privileges''))"

definition require_governance :: "ledger_env \<Rightarrow> address \<Rightarrow> access_list \<Rightarrow> unit res" where
  "require_governance env caller s =
     bindr (require_auth env caller) (\<lambda>_.
     assertr (unwrap_or (ll_governance s caller) False) ''caller does not have governance role'')"

definition list_initialize :: "ledger_env \<Rightarrow> address \<Rightarrow> access_list \<Rightarrow> access_list res" where
  "list_initialize env admin s =
     bindr (assertr (ll_admin s = None) ''already initialized'') (\<lambda>_.
     bindr (require_auth env admin) (\<lambda>_.
     Inr (s\<lparr>ll_admin := Some admin, ll_governance := (ll_governance s)(admin \<mapsto> True), ll_list := Some []\<rparr>)))"

definition list_transfer_admin :: "ledger_env \<Rightarrow> address \<Rightarrow> address \<Rightarrow> access_list \<Rightarrow> access_list res" where
  "list_transfer_admin env admin new_admin s =
     bindr (list_require_admin env admin s) (\<lambda>_.
     bindr (assertr (admin \<noteq> new_admin) ''new_admin must differ from current admin'') (\<lambda>_.
     Inr (s\<lparr>ll_admin := Some new_admin\<rparr>)))"

definition grant_governance :: "ledger_env \<Rightarrow> address \<Rightarrow> address \<Rightarrow> access_list \<Rightarrow> access_list res" where
  "grant_governance env admin account s =
     bindr (list_require_admin env admin s) (\<lambda>_. Inr (s\<lparr>ll_governance := (ll_governance s)(account \<mapsto> True)\<rparr>))"

definition revoke_governance :: "ledger_env \<Rightarrow> address \<Rightarrow> address \<Rightarrow> access_list \<Rightarrow> access_list res" where
  "revoke_governance env admin account s =
     bindr (list_require_admin env admin s) (\<lambda>_. Inr (s\<lparr>ll_governance := (ll_governance s)(account \<mapsto> False)\<rparr>))"

definition grant_delegated_admin :: "ledger_env \<Rightarrow> address \<Rightarrow> address \<Rightarrow> access_list \<Rightarrow> access_list res" where
  "grant_delegated_admin env admin account s =
     bindr (list_require_admin env admin s) (\<lambda>_. Inr (s\<lparr>ll_delegated := (ll_delegated s)(account \<mapsto> True)\<rparr>))"

definition revoke_delegated_admin :: "ledger_env \<Rightarrow> address \<Rightarrow> address \<Rightarrow> access_list \<Rightarrow> access_list res" where
  "revoke_delegated_admin env admin account s =
     bindr (list_require_admin env admin s) (\<lambda>_. Inr (s\<lparr>ll_delegated := (ll_delegated s)(account \<mapsto> False)\<rparr>))"

section \<open>Lenders\<close>

fun in_list :: "address list \<Rightarrow> address \<Rightarrow> bool" where
  "in_list [] lender = False"
| "in_list (a # as) lender = (if a = lender then True else in_list as lender)"

definition append_lender_to_list :: "address \<Rightarrow> access_list \<Rightarrow> access_list" where
  "append_lender_to_list lender s =
     (let lst = unwrap_or (ll_list s) [] in
      if \<not> in_list lst lender then s\<lparr>ll_list := Some (lst @ [lender])\<rparr> else s)"

definition set_lender :: "ledger_env \<Rightarrow> address \<Rightarrow> address \<Rightarrow> nat \<Rightarrow> lender_metadata \<Rightarrow> access_list \<Rightarrow> access_list res" where
  "set_lender env caller lender tier metadata s =
     bindr (require_lender_admin env caller s) (\<lambda>_.
     (let now = sequence env;
          new_status = (if tier = 0 then LenderRemoved else LenderActive) in
      case ll_lenders s lender of
        Some existing \<Rightarrow>
          Inr (s\<lparr>ll_lenders := (ll_lenders s)(lender \<mapsto> \<lparr>le_address = lender, le_tier = tier, le_status = new_status,
            le_metadata = metadata, le_added_at = le_added_at existing, le_updated_at = now, le_updated_by = caller\<rparr>)\<rparr>)
      | None \<Rightarrow>
          (let s1 = append_lender_to_list lender s in
           Inr (s1\<lparr>ll_lenders := (ll_lenders s1)(lender \<mapsto> \<lparr>le_address = lender, le_tier = tier, le_status = new_status,
             le_metadata = metadata, le_added_at = now, le_updated_at = now, le_updated_by = caller\<rparr>)\<rparr>))))"

definition remove_lender :: "ledger_env \<Rightarrow> address \<Rightarrow> address \<Rightarrow> access_list \<Rightarrow> access_list res" where
  "remove_lender env caller lender s =
     bindr (require_lender_admin env caller s) (\<lambda>_.
     bindr (expectr (ll_lenders s lender) ''lender not found'') (\<lambda>record.
     Inr (s\<lparr>ll_lenders := (ll_lenders s)(lender \<mapsto> record\<lparr>le_tier := 0, le_status := LenderRemoved,
       le_updated_at := sequence env, le_updated_by := caller\<rparr>)\<rparr>)))"

section \<open>Queries\<close>

definition get_lender :: "access_list \<Rightarrow> address \<Rightarrow> lender option" where "get_lender s lender = ll_lenders s lender"

definition is_allowed :: "access_list \<Rightarrow> address \<Rightarrow> nat \<Rightarrow> bool" where
  "is_allowed s lender min_tier =
     (if min_tier = 0 then True
      else (case get_lender s lender of
              Some record \<Rightarrow> le_status record = LenderActive \<and> min_tier \<le> le_tier record
            | None \<Rightarrow> False))"

definition get_all_lenders :: "access_list \<Rightarrow> address list" where "get_all_lenders s = unwrap_or (ll_list s) []"

fun active_loop :: "access_list \<Rightarrow> address list \<Rightarrow> address list \<Rightarrow> address list" where
  "active_loop s [] out = out"
| "active_loop s (addr # addrs) out =
     (case get_lender s addr of
        Some record \<Rightarrow> active_loop s addrs (if le_status record = LenderActive \<and> 0 < le_tier record then out @ [addr] else out)
      | None \<Rightarrow> active_loop s addrs out)"

definition get_active_lenders :: "access_list \<Rightarrow> address list" where
  "get_active_lenders s = active_loop s (get_all_lenders s) []"

definition list_get_admin :: "access_list \<Rightarrow> address res" where
  "list_get_admin s = expectr (ll_admin s) ''not initialized''"

definition get_event_schema_version :: nat where "get_event_schema_version = EVENT_SCHEMA_VERSION"

section \<open>The machine\<close>

datatype list_call =
    LInit address
  | LTransfer address address
  | LGovernance bool address address
  | LDelegated bool address address
  | LSet address address nat lender_metadata
  | LRemove address address

fun list_step :: "ledger_env \<times> list_call \<Rightarrow> access_list \<Rightarrow> access_list res" where
  "list_step (env, LInit a) s = list_initialize env a s"
| "list_step (env, LTransfer a b) s = list_transfer_admin env a b s"
| "list_step (env, LGovernance g a b) s = (if g then grant_governance env a b s else revoke_governance env a b s)"
| "list_step (env, LDelegated g a b) s = (if g then grant_delegated_admin env a b s else revoke_delegated_admin env a b s)"
| "list_step (env, LSet c l t m) s = set_lender env c l t m s"
| "list_step (env, LRemove c l) s = remove_lender env c l s"

definition list_ok :: "access_list \<Rightarrow> bool" where
  "list_ok s \<longleftrightarrow> distinct (get_all_lenders s) \<and> set (get_all_lenders s) = dom (ll_lenders s) \<and>
     (ll_admin s = None \<longrightarrow> (\<forall>a. \<not> has_governance s a \<and> \<not> has_delegated_admin s a) \<and> ll_lenders s = Map.empty) \<and>
     (\<forall>a r. ll_lenders s a = Some r \<longrightarrow> le_address r = a \<and> (le_status r = LenderActive \<longleftrightarrow> 0 < le_tier r))"

lemma in_list_set: "in_list as a \<longleftrightarrow> a \<in> set as"
  by (induction as) auto

lemma active_loop_filter: "active_loop s as out = out @ filter (\<lambda>a. is_allowed s a 1) as"
  by (induction as arbitrary: out) (auto simp: is_allowed_def split: option.splits)

lemmas role_defs = grant_governance_def revoke_governance_def grant_delegated_admin_def revoke_delegated_admin_def
  list_transfer_admin_def list_require_admin_def

lemma set_lender_cases:
  assumes "set_lender env c l t m s = Inr s'"
  obtains r where "authorized env c" "has_governance s c \<or> has_delegated_admin s c" "le_address r = l" "le_tier r = t"
    "le_status r = LenderActive \<longleftrightarrow> 0 < t" "le_updated_by r = c" "ll_lenders s' = (ll_lenders s)(l \<mapsto> r)"
    "get_all_lenders s' = (if ll_lenders s l = None \<and> l \<notin> set (get_all_lenders s) then get_all_lenders s @ [l] else get_all_lenders s)"
    "ll_admin s' = ll_admin s" "ll_governance s' = ll_governance s" "ll_delegated s' = ll_delegated s"
proof (cases "ll_lenders s l")
  case None
  with assms show thesis
    by (intro that [of "the (ll_lenders s' l)"])
      (auto simp: set_lender_def require_lender_admin_def Let_def has_governance_def has_delegated_admin_def
        append_lender_to_list_def get_all_lenders_def in_list_set split: if_splits)
next
  case (Some r)
  with assms show thesis
    by (intro that [of "the (ll_lenders s' l)"])
      (auto simp: set_lender_def require_lender_admin_def Let_def has_governance_def has_delegated_admin_def
        get_all_lenders_def split: if_splits)
qed

lemma remove_lender_cases:
  assumes "remove_lender env c l s = Inr s'"
  obtains r where "authorized env c" "has_governance s c \<or> has_delegated_admin s c" "ll_lenders s l = Some r"
    "s' = s\<lparr>ll_lenders := (ll_lenders s)(l \<mapsto> r\<lparr>le_tier := 0, le_status := LenderRemoved, le_updated_at := sequence env,
       le_updated_by := c\<rparr>)\<rparr>"
  using assms by (auto simp: remove_lender_def require_lender_admin_def Let_def has_governance_def has_delegated_admin_def)

lemma list_step_ok:
  assumes ok: "list_ok s" and "list_step e s = Inr s'"
  shows "list_ok s'"
proof -
  obtain env c where e: "e = (env, c)" by (cases e)
  show ?thesis
  proof (cases c)
    case (LInit a)
    with assms e show ?thesis by (auto simp: list_initialize_def list_ok_def get_all_lenders_def)
  next
    case (LSet c l t m)
    with assms(2) e have "set_lender env c l t m s = Inr s'" by simp
    then show ?thesis
      by (rule set_lender_cases) (use ok in \<open>auto simp: list_ok_def has_governance_def has_delegated_admin_def\<close>)
  next
    case (LRemove c l)
    with assms(2) e have "remove_lender env c l s = Inr s'" by simp
    then show ?thesis
      by (rule remove_lender_cases) (use ok in \<open>auto simp: list_ok_def get_all_lenders_def has_governance_def has_delegated_admin_def\<close>)
  qed (use assms e in \<open>auto simp: role_defs list_ok_def get_all_lenders_def has_governance_def has_delegated_admin_def
      split: if_splits\<close>)
qed

interpretation lenders: invariant_machine "\<lambda>s. s = list_empty" list_step list_ok
proof
  show "list_ok s" if "s = list_empty" for s
    using that by (simp add: list_ok_def list_empty_def get_all_lenders_def has_governance_def has_delegated_admin_def)
  show "list_ok s'" if "list_ok s" "list_step e s = Inr s'" for s e s' using that by (rule list_step_ok)
qed

section \<open>What the contract promises\<close>

text \<open>
  The list is exact. In every reachable state it names every lender with a record once, a record is active exactly if
  its tier is positive, and the active lenders are those that a check for tier one admits.
\<close>

theorem lender_list_exact:
  assumes "reachable (\<lambda>s. s = list_empty) list_step s"
  shows "distinct (get_all_lenders s) \<and> set (get_all_lenders s) = dom (ll_lenders s) \<and>
    get_active_lenders s = filter (\<lambda>a. is_allowed s a 1) (get_all_lenders s) \<and>
    (is_allowed s a 1 \<longleftrightarrow> (\<exists>r. get_lender s a = Some r \<and> 0 < le_tier r))"
proof -
  have "list_ok s" by (rule lenders.reachable_inv [OF assms])
  then show ?thesis
    by (auto simp: list_ok_def get_active_lenders_def active_loop_filter is_allowed_def get_lender_def split: option.splits)
qed

text \<open>
  C32. Who is admitted was admitted by a role holder. If a lender passes the check for a tier at the end of a history that
  starts from the empty contract, some call of the history set it to at least that tier, by an account that had
  authorized the call and held the governance or the delegated role at that moment, and the lender passes
  the check ever since.
\<close>

theorem allowed_by_role_holder:
  assumes "is_allowed (run list_step es list_empty) l k" and "0 < k"
  shows "\<exists>pre post env c t m s. es = pre @ (env, LSet c l t m) # post \<and> k \<le> t \<and> authorized env c \<and>
    (has_governance (run list_step pre list_empty) c \<or> has_delegated_admin (run list_step pre list_empty) c) \<and>
    list_step (env, LSet c l t m) (run list_step pre list_empty) = Inr s \<and>
    (\<forall>p q. post = p @ q \<longrightarrow> is_allowed (run list_step p s) l k)"
proof -
  have "\<not> is_allowed list_empty l k" using assms(2) by (simp add: is_allowed_def get_lender_def list_empty_def)
  from run_becomes_last [of "\<lambda>s. is_allowed s l k", OF assms(1) this] obtain pre e post s where
    e: "es = pre @ e # post" "\<not> is_allowed (run list_step pre list_empty) l k" "list_step e (run list_step pre list_empty) = Inr s"
    and ever: "\<forall>p q. post = p @ q \<longrightarrow> is_allowed (run list_step p s) l k" by blast
  let ?s = "run list_step pre list_empty"
  have s: "is_allowed s l k" using ever by (metis append_Nil run.simps(1))
  obtain env c where ec: "e = (env, c)" by (cases e)
  have "\<exists>d t m. c = LSet d l t m \<and> k \<le> t \<and> authorized env d \<and> (has_governance ?s d \<or> has_delegated_admin ?s d)"
  proof (cases c)
    case (LSet d x t m)
    with e(3) ec have "set_lender env d x t m ?s = Inr s" by simp
    then show ?thesis
    proof (rule set_lender_cases)
      fix r
      assume r: "authorized env d" "has_governance ?s d \<or> has_delegated_admin ?s d" "le_tier r = t"
        "ll_lenders s = (ll_lenders ?s)(x \<mapsto> r)"
      have "x = l" using s e(2) r(4) by (auto simp: is_allowed_def get_lender_def split: if_splits)
      with s r assms(2) LSet show ?thesis by (simp add: is_allowed_def get_lender_def)
    qed
  next
    case (LRemove d x)
    with e(3) ec have "remove_lender env d x ?s = Inr s" by simp
    then have "\<not> is_allowed s l k"
      by (rule remove_lender_cases) (use e(2) assms(2) in \<open>auto simp: is_allowed_def get_lender_def split: option.splits\<close>)
    with s show ?thesis by simp
  qed (use e(2,3) ec s in \<open>auto simp: role_defs list_initialize_def is_allowed_def get_lender_def split: if_splits\<close>)
  with e ec ever show ?thesis by blast
qed

text \<open>Handing the administration over leaves the old administrator its governance role and gives the new one none.\<close>

lemma transfer_keeps_roles:
  "list_transfer_admin env a b s = Inr s' \<Longrightarrow> has_governance s' x = has_governance s x"
  by (auto simp: role_defs has_governance_def)

section \<open>Witnesses\<close>

definition list_demo :: "(ledger_env \<times> list_call) list" where
  "list_demo = [(env_at 0 0, LInit ''admin''), (env_at 1 1, LDelegated True ''admin'' ''clerk''),
     (env_at 2 2, LSet ''clerk'' ''bank'' 3 \<lparr>lm_name = ''n'', lm_url = ''u'', lm_notes = ''x''\<rparr>)]"

lemma list_demo_allows: "is_allowed (run list_step list_demo list_empty) ''bank'' 2"
  by (simp add: list_demo_def exec_def list_initialize_def role_defs set_lender_def require_lender_admin_def Let_def
      append_lender_to_list_def list_empty_def is_allowed_def get_lender_def)

lemma allowed_by_role_holder_witness: "\<exists>pre post env c t m. list_demo = pre @ (env, LSet c ''bank'' t m) # post \<and> 2 \<le> t"
  using allowed_by_role_holder [OF list_demo_allows] by (metis zero_less_numeral)

lemma lender_list_exact_witness: "distinct (get_all_lenders (run list_step list_demo list_empty))"
proof -
  have "reachable (\<lambda>s. s = list_empty) list_step (run list_step list_demo list_empty)"
    by (rule reachable_run, rule reachable_start) simp
  from lender_list_exact [OF this] show ?thesis by (rule conjunct1)
qed

end
