(* ===== verification/Integration_Registry.thy ===== *)
theory Integration_Registry
  imports Replay_Protection
begin

text \<open>
  \<open>contracts/integration-registry/src/lib.rs\<close>: providers in namespaces, each with a lifecycle that the governance of
  its namespace moves. Events are output only.
\<close>

section \<open>State\<close>

definition IREG_CHANNEL_ADMIN :: nat where "IREG_CHANNEL_ADMIN = 1"
definition IREG_CHANNEL_GOVERNANCE :: nat where "IREG_CHANNEL_GOVERNANCE = 2"
definition IREG_CHANNEL_NAMESPACE :: nat where "IREG_CHANNEL_NAMESPACE = 3"
definition MAX_PROVIDER_METADATA_NAME_BYTES :: nat where "MAX_PROVIDER_METADATA_NAME_BYTES = 64"
definition MAX_PROVIDER_METADATA_DESCRIPTION_BYTES :: nat where "MAX_PROVIDER_METADATA_DESCRIPTION_BYTES = 512"
definition MAX_PROVIDER_METADATA_API_VERSION_BYTES :: nat where "MAX_PROVIDER_METADATA_API_VERSION_BYTES = 32"
definition MAX_PROVIDER_METADATA_DOCS_URL_BYTES :: nat where "MAX_PROVIDER_METADATA_DOCS_URL_BYTES = 256"
definition MAX_PROVIDER_METADATA_CATEGORY_BYTES :: nat where "MAX_PROVIDER_METADATA_CATEGORY_BYTES = 32"

datatype provider_status = PvRegistered | PvEnabled | PvDeprecated | PvDisabled

record provider_metadata =
  pm_name :: sstring
  pm_description :: sstring
  pm_api_version :: sstring
  pm_docs_url :: sstring
  pm_category :: sstring

record provider =
  pv_namespace :: sstring
  pv_id :: sstring
  pv_status :: provider_status
  pv_metadata :: provider_metadata
  pv_registered_at :: nat
  pv_updated_at :: nat
  pv_registered_by :: address

record ireg_state =
  ir_admin :: "address option"
  ir_providers :: "sstring \<times> sstring \<rightharpoonup> provider"
  ir_provider_list :: "sstring \<rightharpoonup> sstring list"
  ir_namespace_governance :: "sstring \<times> address \<rightharpoonup> bool"
  ir_namespaces :: "sstring list option"
  ir_governance :: "address \<rightharpoonup> bool"
  ir_nonces :: nonces

definition ireg_empty :: ireg_state where
  "ireg_empty = \<lparr>ir_admin = None, ir_providers = Map.empty, ir_provider_list = Map.empty, ir_namespace_governance = Map.empty,
     ir_namespaces = None, ir_governance = Map.empty, ir_nonces = Map.empty\<rparr>"

section \<open>Roles\<close>

definition ireg_is_admin :: "ireg_state \<Rightarrow> address \<Rightarrow> bool" where
  "ireg_is_admin s account = (case ir_admin s of Some admin \<Rightarrow> account = admin | None \<Rightarrow> False)"

definition ireg_has_governance :: "ireg_state \<Rightarrow> address \<Rightarrow> bool" where
  "ireg_has_governance s account = unwrap_or (ir_governance s account) False"

definition has_namespace_governance :: "ireg_state \<Rightarrow> sstring \<Rightarrow> address \<Rightarrow> bool" where
  "has_namespace_governance s namespace account =
     (if (case ir_admin s of Some admin \<Rightarrow> account = admin | None \<Rightarrow> False) then True
      else if ireg_has_governance s account then True
      else unwrap_or (ir_namespace_governance s (namespace, account)) False)"

definition ireg_require_admin :: "ledger_env \<Rightarrow> address \<Rightarrow> ireg_state \<Rightarrow> unit res" where
  "ireg_require_admin env caller s =
     bindr (require_auth env caller) (\<lambda>_.
     bindr (expectr (ir_admin s) ''contract not initialized'') (\<lambda>admin.
     assertr (caller = admin) ''caller is not admin''))"

definition ireg_require_governance :: "ledger_env \<Rightarrow> address \<Rightarrow> ireg_state \<Rightarrow> unit res" where
  "ireg_require_governance env caller s =
     bindr (require_auth env caller) (\<lambda>_.
     assertr (ireg_is_admin s caller \<or> ireg_has_governance s caller) ''caller does not have governance role'')"

definition require_namespace_governance :: "ledger_env \<Rightarrow> sstring \<Rightarrow> address \<Rightarrow> ireg_state \<Rightarrow> unit res" where
  "require_namespace_governance env namespace caller s =
     bindr (require_auth env caller) (\<lambda>_.
     assertr (has_namespace_governance s namespace caller) ''caller does not have namespace governance role'')"

text \<open>The replay check that follows each of the role checks.\<close>

definition ireg_nonce :: "address \<Rightarrow> nat \<Rightarrow> nat \<Rightarrow> ireg_state \<Rightarrow> ireg_state res" where
  "ireg_nonce caller channel nonce s =
     bindr (verify_and_increment_nonce (ir_nonces s) caller channel nonce) (\<lambda>n. Inr (s\<lparr>ir_nonces := n\<rparr>))"

definition ireg_initialize :: "ledger_env \<Rightarrow> address \<Rightarrow> nat \<Rightarrow> ireg_state \<Rightarrow> ireg_state res" where
  "ireg_initialize env admin nonce s =
     bindr (assertr (ir_admin s = None) ''already initialized'') (\<lambda>_.
     bindr (require_auth env admin) (\<lambda>_.
     bindr (ireg_nonce admin IREG_CHANNEL_ADMIN nonce s) (\<lambda>s1.
     Inr (s1\<lparr>ir_admin := Some admin, ir_governance := (ir_governance s1)(admin \<mapsto> True)\<rparr>))))"

definition ireg_grant_governance :: "ledger_env \<Rightarrow> address \<Rightarrow> address \<Rightarrow> nat \<Rightarrow> ireg_state \<Rightarrow> ireg_state res" where
  "ireg_grant_governance env admin account nonce s =
     bindr (ireg_require_admin env admin s) (\<lambda>_.
     bindr (ireg_nonce admin IREG_CHANNEL_ADMIN nonce s) (\<lambda>s1.
     Inr (s1\<lparr>ir_governance := (ir_governance s1)(account \<mapsto> True)\<rparr>)))"

definition ireg_revoke_governance :: "ledger_env \<Rightarrow> address \<Rightarrow> address \<Rightarrow> nat \<Rightarrow> ireg_state \<Rightarrow> ireg_state res" where
  "ireg_revoke_governance env admin account nonce s =
     bindr (ireg_require_admin env admin s) (\<lambda>_.
     bindr (ireg_nonce admin IREG_CHANNEL_ADMIN nonce s) (\<lambda>s1.
     Inr (s1\<lparr>ir_governance := (ir_governance s1)(account \<mapsto> False)\<rparr>)))"

section \<open>Namespaces\<close>

definition add_namespace :: "sstring \<Rightarrow> ireg_state \<Rightarrow> ireg_state" where
  "add_namespace namespace s =
     (let namespaces = unwrap_or (ir_namespaces s) [] in
      if namespace \<in> set namespaces then s else s\<lparr>ir_namespaces := Some (namespaces @ [namespace])\<rparr>)"

definition register_namespace :: "ledger_env \<Rightarrow> address \<Rightarrow> sstring \<Rightarrow> address \<Rightarrow> nat \<Rightarrow> ireg_state \<Rightarrow> ireg_state res" where
  "register_namespace env caller namespace initial_owner nonce s =
     bindr (ireg_require_governance env caller s) (\<lambda>_.
     bindr (ireg_nonce caller IREG_CHANNEL_GOVERNANCE nonce s) (\<lambda>s1.
     bindr (assertr (ir_namespace_governance s1 (namespace, initial_owner) = None) ''namespace owner already exists'') (\<lambda>_.
     Inr (add_namespace namespace (s1\<lparr>ir_namespace_governance :=
       (ir_namespace_governance s1)((namespace, initial_owner) \<mapsto> True)\<rparr>)))))"

definition grant_namespace_governance :: "ledger_env \<Rightarrow> address \<Rightarrow> sstring \<Rightarrow> address \<Rightarrow> nat \<Rightarrow> ireg_state \<Rightarrow> ireg_state res" where
  "grant_namespace_governance env caller namespace account nonce s =
     bindr (require_namespace_governance env namespace caller s) (\<lambda>_.
     bindr (ireg_nonce caller IREG_CHANNEL_NAMESPACE nonce s) (\<lambda>s1.
     Inr (s1\<lparr>ir_namespace_governance := (ir_namespace_governance s1)((namespace, account) \<mapsto> True)\<rparr>)))"

definition revoke_namespace_governance :: "ledger_env \<Rightarrow> address \<Rightarrow> sstring \<Rightarrow> address \<Rightarrow> nat \<Rightarrow> ireg_state \<Rightarrow> ireg_state res" where
  "revoke_namespace_governance env caller namespace account nonce s =
     bindr (require_namespace_governance env namespace caller s) (\<lambda>_.
     bindr (ireg_nonce caller IREG_CHANNEL_NAMESPACE nonce s) (\<lambda>s1.
     Inr (s1\<lparr>ir_namespace_governance := (ir_namespace_governance s1)((namespace, account) \<mapsto> False)\<rparr>)))"

section \<open>Providers\<close>

text \<open>The whitespace message is a parameter that the source ignores.\<close>

definition validate_metadata_field :: "sstring \<Rightarrow> nat \<Rightarrow> string \<Rightarrow> string \<Rightarrow> string \<Rightarrow> unit res" where
  "validate_metadata_field field max_len empty_msg max_msg whitespace_msg =
     bindr (assertr (0 < length field) empty_msg) (\<lambda>_.
     assertr (length field \<le> max_len) max_msg)"

definition validate_provider_metadata :: "provider_metadata \<Rightarrow> unit res" where
  "validate_provider_metadata metadata =
     bindr (validate_metadata_field (pm_name metadata) MAX_PROVIDER_METADATA_NAME_BYTES ''provider name cannot be empty''
       ''provider name exceeds max bytes'' ''provider name has leading or trailing whitespace'') (\<lambda>_.
     bindr (validate_metadata_field (pm_description metadata) MAX_PROVIDER_METADATA_DESCRIPTION_BYTES
       ''provider description cannot be empty'' ''provider description exceeds max bytes''
       ''provider description has leading or trailing whitespace'') (\<lambda>_.
     bindr (validate_metadata_field (pm_api_version metadata) MAX_PROVIDER_METADATA_API_VERSION_BYTES
       ''provider api version cannot be empty'' ''provider api version exceeds max bytes''
       ''provider api version has leading or trailing whitespace'') (\<lambda>_.
     bindr (validate_metadata_field (pm_docs_url metadata) MAX_PROVIDER_METADATA_DOCS_URL_BYTES
       ''provider docs url cannot be empty'' ''provider docs url exceeds max bytes''
       ''provider docs url has leading or trailing whitespace'') (\<lambda>_.
     validate_metadata_field (pm_category metadata) MAX_PROVIDER_METADATA_CATEGORY_BYTES ''provider category cannot be empty''
       ''provider category exceeds max bytes'' ''provider category has leading or trailing whitespace''))))"

definition register_provider ::
  "ledger_env \<Rightarrow> address \<Rightarrow> sstring \<Rightarrow> sstring \<Rightarrow> provider_metadata \<Rightarrow> nat \<Rightarrow> ireg_state \<Rightarrow> ireg_state res" where
  "register_provider env caller namespace i metadata nonce s =
     bindr (require_namespace_governance env namespace caller s) (\<lambda>_.
     bindr (ireg_nonce caller IREG_CHANNEL_GOVERNANCE nonce s) (\<lambda>s1.
     bindr (validate_provider_metadata metadata) (\<lambda>_.
     bindr (assertr (ir_providers s1 (namespace, i) = None) ''provider already registered in namespace'') (\<lambda>_.
     (let provider = \<lparr>pv_namespace = namespace, pv_id = i, pv_status = PvRegistered, pv_metadata = metadata,
            pv_registered_at = sequence env, pv_updated_at = sequence env, pv_registered_by = caller\<rparr>;
          providers = unwrap_or (ir_provider_list s1 namespace) [] in
      Inr (s1\<lparr>ir_providers := (ir_providers s1)((namespace, i) \<mapsto> provider),
              ir_provider_list := (ir_provider_list s1)(namespace \<mapsto> providers @ [i])\<rparr>))))))"

text \<open>The shared steps of the three calls that set a status.\<close>

definition set_provider_status ::
  "(provider_status \<Rightarrow> bool) \<Rightarrow> string \<Rightarrow> provider_status \<Rightarrow> ledger_env \<Rightarrow> address \<Rightarrow> sstring \<Rightarrow> sstring \<Rightarrow> nat \<Rightarrow>
   ireg_state \<Rightarrow> ireg_state res" where
  "set_provider_status allowed msg status env caller namespace i nonce s =
     bindr (require_namespace_governance env namespace caller s) (\<lambda>_.
     bindr (ireg_nonce caller IREG_CHANNEL_GOVERNANCE nonce s) (\<lambda>s1.
     bindr (expectr (ir_providers s1 (namespace, i)) ''provider not found'') (\<lambda>provider.
     bindr (assertr (allowed (pv_status provider)) msg) (\<lambda>_.
     Inr (s1\<lparr>ir_providers := (ir_providers s1)((namespace, i) \<mapsto>
       provider\<lparr>pv_status := status, pv_updated_at := sequence env\<rparr>)\<rparr>)))))"

definition enable_provider :: "ledger_env \<Rightarrow> address \<Rightarrow> sstring \<Rightarrow> sstring \<Rightarrow> nat \<Rightarrow> ireg_state \<Rightarrow> ireg_state res" where
  "enable_provider = set_provider_status (\<lambda>st. st = PvRegistered \<or> st = PvDeprecated \<or> st = PvDisabled)
     ''provider cannot be enabled from current status'' PvEnabled"

definition deprecate_provider :: "ledger_env \<Rightarrow> address \<Rightarrow> sstring \<Rightarrow> sstring \<Rightarrow> nat \<Rightarrow> ireg_state \<Rightarrow> ireg_state res" where
  "deprecate_provider = set_provider_status (\<lambda>st. st = PvEnabled) ''only enabled providers can be deprecated'' PvDeprecated"

definition disable_provider :: "ledger_env \<Rightarrow> address \<Rightarrow> sstring \<Rightarrow> sstring \<Rightarrow> nat \<Rightarrow> ireg_state \<Rightarrow> ireg_state res" where
  "disable_provider = set_provider_status (\<lambda>st. st \<noteq> PvDisabled) ''provider is already disabled'' PvDisabled"

definition update_metadata ::
  "ledger_env \<Rightarrow> address \<Rightarrow> sstring \<Rightarrow> sstring \<Rightarrow> provider_metadata \<Rightarrow> nat \<Rightarrow> ireg_state \<Rightarrow> ireg_state res" where
  "update_metadata env caller namespace i metadata nonce s =
     bindr (require_namespace_governance env namespace caller s) (\<lambda>_.
     bindr (ireg_nonce caller IREG_CHANNEL_GOVERNANCE nonce s) (\<lambda>s1.
     bindr (validate_provider_metadata metadata) (\<lambda>_.
     bindr (expectr (ir_providers s1 (namespace, i)) ''provider not found'') (\<lambda>provider.
     Inr (s1\<lparr>ir_providers := (ir_providers s1)((namespace, i) \<mapsto>
       provider\<lparr>pv_metadata := metadata, pv_updated_at := sequence env\<rparr>)\<rparr>)))))"

section \<open>Queries\<close>

definition get_provider :: "ireg_state \<Rightarrow> sstring \<Rightarrow> sstring \<Rightarrow> provider option" where
  "get_provider s namespace i = ir_providers s (namespace, i)"

definition is_enabled :: "ireg_state \<Rightarrow> sstring \<Rightarrow> sstring \<Rightarrow> bool" where
  "is_enabled s namespace i = (case get_provider s namespace i of Some p \<Rightarrow> pv_status p = PvEnabled | None \<Rightarrow> False)"

definition is_deprecated :: "ireg_state \<Rightarrow> sstring \<Rightarrow> sstring \<Rightarrow> bool" where
  "is_deprecated s namespace i = (case get_provider s namespace i of Some p \<Rightarrow> pv_status p = PvDeprecated | None \<Rightarrow> False)"

definition is_valid_for_attestation :: "ireg_state \<Rightarrow> sstring \<Rightarrow> sstring \<Rightarrow> bool" where
  "is_valid_for_attestation s namespace i =
     (case get_provider s namespace i of Some p \<Rightarrow> pv_status p = PvEnabled \<or> pv_status p = PvDeprecated | None \<Rightarrow> False)"

definition provider_get_status :: "ireg_state \<Rightarrow> sstring \<Rightarrow> sstring \<Rightarrow> provider_status option" where
  "provider_get_status s namespace i = map_option pv_status (get_provider s namespace i)"

definition get_all_namespaces :: "ireg_state \<Rightarrow> sstring list" where "get_all_namespaces s = unwrap_or (ir_namespaces s) []"

definition get_namespace_providers :: "ireg_state \<Rightarrow> sstring \<Rightarrow> sstring list" where
  "get_namespace_providers s namespace = unwrap_or (ir_provider_list s namespace) []"

fun providers_loop :: "(sstring \<Rightarrow> bool) \<Rightarrow> sstring list \<Rightarrow> sstring list \<Rightarrow> sstring list" where
  "providers_loop test [] out = out"
| "providers_loop test (i # is) out = providers_loop test is (if test i then out @ [i] else out)"

definition get_enabled_providers :: "ireg_state \<Rightarrow> sstring \<Rightarrow> sstring list" where
  "get_enabled_providers s namespace = providers_loop (is_enabled s namespace) (get_namespace_providers s namespace) []"

definition get_deprecated_providers :: "ireg_state \<Rightarrow> sstring \<Rightarrow> sstring list" where
  "get_deprecated_providers s namespace = providers_loop (is_deprecated s namespace) (get_namespace_providers s namespace) []"

definition ireg_get_admin :: "ireg_state \<Rightarrow> address res" where
  "ireg_get_admin s = expectr (ir_admin s) ''contract not initialized''"

definition ireg_get_replay_nonce :: "ireg_state \<Rightarrow> address \<Rightarrow> nat \<Rightarrow> nat" where
  "ireg_get_replay_nonce s actor channel = get_nonce (ir_nonces s) actor channel"

section \<open>The machine\<close>

datatype ireg_call =
    IrInit address nat
  | IrGovernance bool address address nat
  | IrNamespace address sstring address nat
  | IrNsGovernance bool address sstring address nat
  | IrRegister address sstring sstring provider_metadata nat
  | IrEnable address sstring sstring nat
  | IrDeprecate address sstring sstring nat
  | IrDisable address sstring sstring nat
  | IrUpdate address sstring sstring provider_metadata nat

fun ireg_step :: "ledger_env \<times> ireg_call \<Rightarrow> ireg_state \<Rightarrow> ireg_state res" where
  "ireg_step (env, IrInit a n) s = ireg_initialize env a n s"
| "ireg_step (env, IrGovernance g a b n) s = (if g then ireg_grant_governance env a b n s else ireg_revoke_governance env a b n s)"
| "ireg_step (env, IrNamespace a x b n) s = register_namespace env a x b n s"
| "ireg_step (env, IrNsGovernance g a x b n) s =
     (if g then grant_namespace_governance env a x b n s else revoke_namespace_governance env a x b n s)"
| "ireg_step (env, IrRegister a x i m n) s = register_provider env a x i m n s"
| "ireg_step (env, IrEnable a x i n) s = enable_provider env a x i n s"
| "ireg_step (env, IrDeprecate a x i n) s = deprecate_provider env a x i n s"
| "ireg_step (env, IrDisable a x i n) s = disable_provider env a x i n s"
| "ireg_step (env, IrUpdate a x i m n) s = update_metadata env a x i m n s"

lemma ireg_nonce_cases:
  assumes "ireg_nonce a c n s = Inr s1"
  obtains m where "s1 = s\<lparr>ir_nonces := m\<rparr>"
  using assms by (auto simp: ireg_nonce_def)

lemma set_status_cases:
  assumes "set_provider_status P msg st env a x i n s = Inr s'"
  obtains p m where "authorized env a" "has_namespace_governance s x a" "ir_providers s (x, i) = Some p" "P (pv_status p)"
    "s' = s\<lparr>ir_nonces := m, ir_providers := (ir_providers s)((x, i) \<mapsto> p\<lparr>pv_status := st, pv_updated_at := sequence env\<rparr>)\<rparr>"
  using assms by (auto simp: set_provider_status_def require_namespace_governance_def elim!: ireg_nonce_cases)

lemma register_provider_cases:
  assumes "register_provider env a x i md n s = Inr s'"
  obtains m where "authorized env a" "has_namespace_governance s x a" "ir_providers s (x, i) = None"
    "validate_provider_metadata md = Inr ()"
    "s' = s\<lparr>ir_nonces := m, ir_providers := (ir_providers s)((x, i) \<mapsto> \<lparr>pv_namespace = x, pv_id = i, pv_status = PvRegistered,
        pv_metadata = md, pv_registered_at = sequence env, pv_updated_at = sequence env, pv_registered_by = a\<rparr>),
      ir_provider_list := (ir_provider_list s)(x \<mapsto> get_namespace_providers s x @ [i])\<rparr>"
  using assms by (auto simp: register_provider_def require_namespace_governance_def Let_def get_namespace_providers_def
      elim!: ireg_nonce_cases)

lemma update_metadata_cases:
  assumes "update_metadata env a x i md n s = Inr s'"
  obtains p m where "authorized env a" "has_namespace_governance s x a" "ir_providers s (x, i) = Some p"
    "validate_provider_metadata md = Inr ()"
    "s' = s\<lparr>ir_nonces := m, ir_providers := (ir_providers s)((x, i) \<mapsto> p\<lparr>pv_metadata := md, pv_updated_at := sequence env\<rparr>)\<rparr>"
  using assms by (auto simp: update_metadata_def require_namespace_governance_def elim!: ireg_nonce_cases)

text \<open>The calls of the roles and namespaces leave the providers alone.\<close>

lemma ireg_office_frame:
  assumes "ireg_step (env, c) s = Inr s'" and "case c of IrInit _ _ \<Rightarrow> True | IrGovernance _ _ _ _ \<Rightarrow> True
      | IrNamespace _ _ _ _ \<Rightarrow> True | IrNsGovernance _ _ _ _ _ \<Rightarrow> True | _ \<Rightarrow> False"
  shows "ir_providers s' = ir_providers s" and "ir_provider_list s' = ir_provider_list s"
  using assms by (cases c; auto simp: ireg_initialize_def ireg_grant_governance_def ireg_revoke_governance_def
      register_namespace_def add_namespace_def grant_namespace_governance_def revoke_namespace_governance_def Let_def
      split: if_splits elim!: ireg_nonce_cases)+

section \<open>The lifecycle of a provider\<close>

definition status_moves :: "(provider_status \<times> provider_status) set" where
  "status_moves = {(PvRegistered, PvEnabled), (PvDeprecated, PvEnabled), (PvDisabled, PvEnabled), (PvEnabled, PvDeprecated),
     (PvRegistered, PvDisabled), (PvEnabled, PvDisabled), (PvDeprecated, PvDisabled)}"

inductive provider_moves :: "nat \<Rightarrow> address \<Rightarrow> provider option \<Rightarrow> provider option \<Rightarrow> bool" for now a where
  registered: "pv_status p = PvRegistered \<Longrightarrow> pv_registered_at p = now \<Longrightarrow> pv_updated_at p = now \<Longrightarrow> pv_registered_by p = a \<Longrightarrow>
     validate_provider_metadata (pv_metadata p) = Inr () \<Longrightarrow> provider_moves now a None (Some p)"
| status: "(pv_status p, st) \<in> status_moves \<Longrightarrow>
     provider_moves now a (Some p) (Some (p\<lparr>pv_status := st, pv_updated_at := now\<rparr>))"
| metadata: "validate_provider_metadata m = Inr () \<Longrightarrow>
     provider_moves now a (Some p) (Some (p\<lparr>pv_metadata := m, pv_updated_at := now\<rparr>))"

inductive_cases provider_movesE: "provider_moves now a p q"

lemma provider_step:
  assumes "ireg_step (env, c) s = Inr s'"
  shows "get_provider s' x i = get_provider s x i \<or>
    (\<exists>a. authorized env a \<and> has_namespace_governance s x a \<and>
       provider_moves (sequence env) a (get_provider s x i) (get_provider s' x i))"
proof -
  have st: ?thesis if "set_provider_status P msg t env a y j n s = Inr s'" "\<And>u. P u \<Longrightarrow> (u, t) \<in> status_moves" for P msg t a y j n
    using that(1)
  proof (rule set_status_cases)
    fix p m
    assume p: "authorized env a" "has_namespace_governance s y a" "ir_providers s (y, j) = Some p" "P (pv_status p)"
      and s': "s' = s\<lparr>ir_nonces := m, ir_providers := (ir_providers s)((y, j) \<mapsto> p\<lparr>pv_status := t, pv_updated_at := sequence env\<rparr>)\<rparr>"
    show ?thesis
    proof (cases "(x, i) = (y, j)")
      case True
      with p s' have "get_provider s x i = Some p" "get_provider s' x i = Some (p\<lparr>pv_status := t, pv_updated_at := sequence env\<rparr>)"
        by (simp_all add: get_provider_def)
      with p True that(2) show ?thesis by (auto intro: provider_moves.status)
    qed (auto simp: s' get_provider_def)
  qed
  show ?thesis
  proof (cases c)
    case (IrRegister a y j m n)
    with assms have "register_provider env a y j m n s = Inr s'" by simp
    then show ?thesis
      by (rule register_provider_cases) (auto simp: get_provider_def intro!: provider_moves.registered)
  next
    case (IrEnable a y j n)
    with assms have d: "set_provider_status (\<lambda>st. st = PvRegistered \<or> st = PvDeprecated \<or> st = PvDisabled)
      ''provider cannot be enabled from current status'' PvEnabled env a y j n s = Inr s'" by (simp add: enable_provider_def)
    show ?thesis by (rule st [OF d]) (auto simp: status_moves_def)
  next
    case (IrDeprecate a y j n)
    with assms have d: "set_provider_status (\<lambda>st. st = PvEnabled) ''only enabled providers can be deprecated'' PvDeprecated
      env a y j n s = Inr s'" by (simp add: deprecate_provider_def)
    show ?thesis by (rule st [OF d]) (auto simp: status_moves_def)
  next
    case (IrDisable a y j n)
    with assms have d: "set_provider_status (\<lambda>st. st \<noteq> PvDisabled) ''provider is already disabled'' PvDisabled env a y j n s = Inr s'"
      by (simp add: disable_provider_def)
    have "(u, PvDisabled) \<in> status_moves" if "u \<noteq> PvDisabled" for u using that by (cases u) (auto simp: status_moves_def)
    with st [OF d] show ?thesis by blast
  next
    case (IrUpdate a y j m n)
    with assms have "update_metadata env a y j m n s = Inr s'" by simp
    then show ?thesis
      by (rule update_metadata_cases) (auto simp: get_provider_def intro: provider_moves.metadata)
  qed (use assms ireg_office_frame(1) [OF assms] in \<open>auto simp: get_provider_def\<close>)
qed

section \<open>The lists\<close>

definition ireg_ok :: "ireg_state \<Rightarrow> bool" where
  "ireg_ok s \<longleftrightarrow> (\<forall>x. distinct (get_namespace_providers s x) \<and>
     set (get_namespace_providers s x) = {i. get_provider s x i \<noteq> None}) \<and>
     (\<forall>x i p. get_provider s x i = Some p \<longrightarrow> pv_namespace p = x \<and> pv_id p = i \<and>
        validate_provider_metadata (pv_metadata p) = Inr ())"

lemma ireg_ok_upd:
  assumes "ireg_ok s" and "ir_provider_list s' = ir_provider_list s" and "ir_providers s (y, j) = Some p"
    and "ir_providers s' = (ir_providers s)((y, j) \<mapsto> q)" and "pv_namespace q = pv_namespace p" "pv_id q = pv_id p"
    and "validate_provider_metadata (pv_metadata q) = Inr ()"
  shows "ireg_ok s'"
  using assms by (auto simp: ireg_ok_def get_namespace_providers_def get_provider_def)

lemma ireg_step_ok:
  assumes ok: "ireg_ok s" and "ireg_step e s = Inr s'"
  shows "ireg_ok s'"
proof -
  obtain env c where e: "e = (env, c)" by (cases e)
  have st: "ireg_ok s'" if "set_provider_status P msg t env a y j n s = Inr s'" for P msg t a y j n
    using that
  proof (rule set_status_cases)
    fix p m
    assume p: "ir_providers s (y, j) = Some p"
      and s': "s' = s\<lparr>ir_nonces := m, ir_providers := (ir_providers s)((y, j) \<mapsto> p\<lparr>pv_status := t, pv_updated_at := sequence env\<rparr>)\<rparr>"
    have "validate_provider_metadata (pv_metadata p) = Inr ()" using ok p by (auto simp: ireg_ok_def get_provider_def)
    then show ?thesis by (intro ireg_ok_upd [OF ok _ p, where q = "p\<lparr>pv_status := t, pv_updated_at := sequence env\<rparr>"]) (simp_all add: s')
  qed
  show ?thesis
  proof (cases c)
    case (IrRegister a y j m n)
    with assms(2) e have "register_provider env a y j m n s = Inr s'" by simp
    then show ?thesis
      by (rule register_provider_cases) (use ok in \<open>auto simp: ireg_ok_def get_provider_def get_namespace_providers_def\<close>)
  next
    case (IrUpdate a y j m n)
    with assms(2) e have "update_metadata env a y j m n s = Inr s'" by simp
    then show ?thesis
    proof (rule update_metadata_cases)
      fix p k
      assume p: "ir_providers s (y, j) = Some p" "validate_provider_metadata m = Inr ()"
        and s': "s' = s\<lparr>ir_nonces := k, ir_providers := (ir_providers s)((y, j) \<mapsto> p\<lparr>pv_metadata := m, pv_updated_at := sequence env\<rparr>)\<rparr>"
      from p(2) show ?thesis by (intro ireg_ok_upd [OF ok _ p(1), where q = "p\<lparr>pv_metadata := m, pv_updated_at := sequence env\<rparr>"]) (simp_all add: s')
    qed
  qed (use assms(2) e ireg_office_frame [OF assms(2) [unfolded e]] ok st in
      \<open>auto simp: enable_provider_def deprecate_provider_def disable_provider_def ireg_ok_def get_provider_def get_namespace_providers_def\<close>)
qed

interpretation ireg: invariant_machine "\<lambda>s. s = ireg_empty" ireg_step ireg_ok
proof
  show "ireg_ok s" if "s = ireg_empty" for s
    using that by (simp add: ireg_ok_def ireg_empty_def get_namespace_providers_def get_provider_def)
  show "ireg_ok s'" if "ireg_ok s" "ireg_step e s = Inr s'" for s e s' using that by (rule ireg_step_ok)
qed

lemma providers_loop_filter: "providers_loop test is out = out @ filter test is"
  by (induction "is" arbitrary: out) auto

section \<open>What the contract promises\<close>

text \<open>
  C33. A provider follows its lifecycle. Every successful call leaves a provider as it was or moves it one step, a
  registration, an allowed change of status or new metadata within the limits, with the authorization of an account that
  holds the governance of its namespace at that moment. Nobody else's call touches it.
\<close>

theorem provider_follows_lifecycle:
  assumes "ireg_step (env, c) s = Inr s'" and "get_provider s' x i \<noteq> get_provider s x i"
  shows "\<exists>a. authorized env a \<and> has_namespace_governance s x a \<and>
    provider_moves (sequence env) a (get_provider s x i) (get_provider s' x i)"
  using provider_step [OF assms(1)] assms(2) by blast

text \<open>
  The lists are exact: in every reachable state a namespace lists each of its providers once and nothing else, the
  enabled ones are the list filtered by their status, and all metadata fields are non-empty and within their limits.
\<close>

theorem provider_lists_exact:
  assumes "reachable (\<lambda>s. s = ireg_empty) ireg_step s"
  shows "distinct (get_namespace_providers s x) \<and> (i \<in> set (get_namespace_providers s x) \<longleftrightarrow> get_provider s x i \<noteq> None) \<and>
    get_enabled_providers s x = filter (is_enabled s x) (get_namespace_providers s x) \<and>
    (\<forall>p. get_provider s x i = Some p \<longrightarrow> validate_provider_metadata (pv_metadata p) = Inr ())"
proof -
  have "ireg_ok s" by (rule ireg.reachable_inv [OF assms])
  then show ?thesis by (auto simp: ireg_ok_def get_enabled_providers_def providers_loop_filter)
qed

lemma becomes_valid:
  assumes "set_provider_status P msg t env a y j n s = Inr s'" and "\<not> is_valid_for_attestation s x i"
    and "is_valid_for_attestation s' x i"
  shows "x = y \<and> i = j \<and> authorized env a \<and> has_namespace_governance s y a \<and> (t = PvEnabled \<or> t = PvDeprecated) \<and>
    (\<exists>u. P u \<and> u \<noteq> PvEnabled \<and> u \<noteq> PvDeprecated)"
  using assms(1) by (rule set_status_cases)
    (use assms(2,3) in \<open>auto simp: is_valid_for_attestation_def get_provider_def split: if_splits option.splits\<close>)

text \<open>
  What is valid for attestations was enabled by its namespace. If a provider is valid at the end of a history that
  starts from the empty contract, some call of the history enabled it, authorized by an account with the governance
  of its namespace at that moment, and it has been valid ever since.
\<close>

theorem valid_provider_was_enabled:
  assumes "is_valid_for_attestation (run ireg_step es ireg_empty) x i"
  shows "\<exists>pre post env a n s. es = pre @ (env, IrEnable a x i n) # post \<and> authorized env a \<and>
    has_namespace_governance (run ireg_step pre ireg_empty) x a \<and>
    ireg_step (env, IrEnable a x i n) (run ireg_step pre ireg_empty) = Inr s \<and>
    (\<forall>p q. post = p @ q \<longrightarrow> is_valid_for_attestation (run ireg_step p s) x i)"
proof -
  let ?V = "\<lambda>s. is_valid_for_attestation s x i"
  have "\<not> ?V ireg_empty" by (simp add: is_valid_for_attestation_def get_provider_def ireg_empty_def)
  from run_becomes_last [of ?V, OF assms this] obtain pre e post s where
    e: "es = pre @ e # post" "\<not> ?V (run ireg_step pre ireg_empty)" "ireg_step e (run ireg_step pre ireg_empty) = Inr s"
    and ever: "\<forall>p q. post = p @ q \<longrightarrow> ?V (run ireg_step p s)" by blast
  let ?s = "run ireg_step pre ireg_empty"
  have V: "?V s" using ever by (metis append_Nil run.simps(1))
  obtain env c where ec: "e = (env, c)" by (cases e)
  have "\<exists>a n. c = IrEnable a x i n \<and> authorized env a \<and> has_namespace_governance ?s x a"
  proof (cases c)
    case (IrRegister a y j m n)
    with e(3) ec have "register_provider env a y j m n ?s = Inr s" by simp
    then have "\<not> ?V s"
      by (rule register_provider_cases) (use e(2) in \<open>auto simp: is_valid_for_attestation_def get_provider_def split: option.splits\<close>)
    with V show ?thesis by simp
  next
    case (IrEnable a y j n)
    with e(3) ec have "enable_provider env a y j n ?s = Inr s" by simp
    from becomes_valid [OF this [unfolded enable_provider_def] e(2) V] IrEnable show ?thesis by simp
  next
    case (IrDeprecate a y j n)
    with e(3) ec have "deprecate_provider env a y j n ?s = Inr s" by simp
    from becomes_valid [OF this [unfolded deprecate_provider_def] e(2) V] show ?thesis by auto
  next
    case (IrDisable a y j n)
    with e(3) ec have "disable_provider env a y j n ?s = Inr s" by simp
    from becomes_valid [OF this [unfolded disable_provider_def] e(2) V] show ?thesis by auto
  next
    case (IrUpdate a y j m n)
    with e(3) ec have "update_metadata env a y j m n ?s = Inr s" by simp
    then have "\<not> ?V s"
      by (rule update_metadata_cases) (use e(2) in \<open>auto simp: is_valid_for_attestation_def get_provider_def split: if_splits option.splits\<close>)
    with V show ?thesis by simp
  qed (use e(2,3) V ec ireg_office_frame(1) [OF e(3) [unfolded ec]] in \<open>auto simp: is_valid_for_attestation_def get_provider_def\<close>)
  with e ec ever show ?thesis by blast
qed

section \<open>Witnesses\<close>

definition ireg_demo_metadata :: provider_metadata where
  "ireg_demo_metadata = \<lparr>pm_name = ''stripe'', pm_description = ''payments'', pm_api_version = ''v2'', pm_docs_url = ''url'', pm_category = ''pay''\<rparr>"

definition ireg_demo :: "(ledger_env \<times> ireg_call) list" where
  "ireg_demo = [(env_at 0 0, IrInit ''admin'' 0), (env_at 2 2, IrNamespace ''admin'' ''pay'' ''ops'' 0),
     (env_at 3 3, IrRegister ''ops'' ''pay'' ''stripe'' ireg_demo_metadata 0), (env_at 4 4, IrEnable ''ops'' ''pay'' ''stripe'' 1)]"

lemma ireg_demo_states:
  "\<exists>s. s = run ireg_step (take 3 ireg_demo) ireg_empty \<and> (\<exists>t. ireg_step (env_at 4 4, IrEnable ''ops'' ''pay'' ''stripe'' 1) s = Inr t \<and>
     is_valid_for_attestation t ''pay'' ''stripe'' \<and> get_provider t ''pay'' ''stripe'' \<noteq> get_provider s ''pay'' ''stripe'')"
  by (simp add: ireg_demo_def numeral_3_eq_3 exec_def ireg_initialize_def ireg_nonce_def verify_and_increment_nonce_def get_nonce_def Let_def
      register_namespace_def ireg_require_governance_def ireg_is_admin_def ireg_has_governance_def add_namespace_def
      register_provider_def require_namespace_governance_def has_namespace_governance_def validate_provider_metadata_def
      validate_metadata_field_def ireg_demo_metadata_def enable_provider_def set_provider_status_def ireg_empty_def
      is_valid_for_attestation_def get_provider_def u64_max_def IREG_CHANNEL_ADMIN_def IREG_CHANNEL_GOVERNANCE_def
      MAX_PROVIDER_METADATA_NAME_BYTES_def MAX_PROVIDER_METADATA_DESCRIPTION_BYTES_def MAX_PROVIDER_METADATA_API_VERSION_BYTES_def
      MAX_PROVIDER_METADATA_DOCS_URL_BYTES_def MAX_PROVIDER_METADATA_CATEGORY_BYTES_def)

lemma ireg_demo_split: "run ireg_step ireg_demo ireg_empty =
   run ireg_step [(env_at 4 4, IrEnable ''ops'' ''pay'' ''stripe'' 1)] (run ireg_step (take 3 ireg_demo) ireg_empty)"
  by (simp add: ireg_demo_def numeral_3_eq_3)

lemma provider_follows_lifecycle_witness:
  "\<exists>s t a. provider_moves 4 a (get_provider s ''pay'' ''stripe'') (get_provider t ''pay'' ''stripe'')"
proof -
  obtain s t where "ireg_step (env_at 4 4, IrEnable ''ops'' ''pay'' ''stripe'' 1) s = Inr t"
    "get_provider t ''pay'' ''stripe'' \<noteq> get_provider s ''pay'' ''stripe''" using ireg_demo_states by auto
  from provider_follows_lifecycle [OF this] obtain a where
    "provider_moves (sequence (env_at 4 4)) a (get_provider s ''pay'' ''stripe'') (get_provider t ''pay'' ''stripe'')" by blast
  then show ?thesis by (intro exI) simp
qed

lemma provider_lists_exact_witness: "distinct (get_namespace_providers (run ireg_step ireg_demo ireg_empty) ''pay'')"
proof -
  have "reachable (\<lambda>s. s = ireg_empty) ireg_step (run ireg_step ireg_demo ireg_empty)"
    by (rule reachable_run, rule reachable_start) simp
  from provider_lists_exact [OF this] show ?thesis by (rule conjunct1)
qed

lemma valid_provider_was_enabled_witness:
  "\<exists>pre post env a n. ireg_demo = pre @ (env, IrEnable a ''pay'' ''stripe'' n) # post \<and> authorized env a"
proof -
  obtain t where t: "ireg_step (env_at 4 4, IrEnable ''ops'' ''pay'' ''stripe'' 1) (run ireg_step (take 3 ireg_demo) ireg_empty) = Inr t"
    "is_valid_for_attestation t ''pay'' ''stripe''" using ireg_demo_states by auto
  have "run ireg_step ireg_demo ireg_empty = t" unfolding ireg_demo_split using t(1) by (simp add: exec_def)
  with t(2) have "is_valid_for_attestation (run ireg_step ireg_demo ireg_empty) ''pay'' ''stripe''" by simp
  from valid_provider_was_enabled [OF this] show ?thesis by blast
qed

end
