(* ===== verification/Attestation_Registry.thy ===== *)
theory Attestation_Registry
  imports Prelude
begin

text \<open>
  \<open>contracts/attestation-registry/src/lib.rs\<close>: the address and version of the attestation implementation in force, the
  pair before it, upgrades and rollbacks, and attestation keys that are registered once.
\<close>

section \<open>State\<close>

type_synonym migration = "8 word list"

record version_info =
  vi_version :: nat
  vi_implementation :: address
  vi_migration_data :: "migration option"
  vi_activated_at :: nat

record areg_state =
  ar_admin :: "address option"
  ar_current_implementation :: "address option"
  ar_previous_implementation :: "address option"
  ar_current_version :: "nat option"
  ar_previous_version :: "nat option"
  ar_initialized :: "bool option"
  ar_attestation_keys :: "address \<times> sstring \<rightharpoonup> nat"

definition areg_empty :: areg_state where
  "areg_empty = \<lparr>ar_admin = None, ar_current_implementation = None, ar_previous_implementation = None, ar_current_version = None,
     ar_previous_version = None, ar_initialized = None, ar_attestation_keys = Map.empty\<rparr>"

section \<open>Entry points\<close>

definition areg_is_initialized :: "areg_state \<Rightarrow> bool" where "areg_is_initialized s \<longleftrightarrow> ar_initialized s \<noteq> None"

definition areg_require_initialized :: "areg_state \<Rightarrow> unit res" where
  "areg_require_initialized s = assertr (ar_initialized s \<noteq> None) ''registry not initialized''"

definition areg_require_admin :: "ledger_env \<Rightarrow> areg_state \<Rightarrow> address res" where
  "areg_require_admin env s =
     bindr (expectr (ar_admin s) ''admin missing'') (\<lambda>admin.
     bindr (require_auth env admin) (\<lambda>_. Inr admin))"

definition areg_initialize :: "ledger_env \<Rightarrow> address \<Rightarrow> address \<Rightarrow> nat \<Rightarrow> areg_state \<Rightarrow> areg_state res" where
  "areg_initialize env admin initial_impl initial_version s =
     bindr (assertr (ar_initialized s = None) ''registry already initialized'') (\<lambda>_.
     bindr (require_auth env admin) (\<lambda>_.
     Inr (s\<lparr>ar_admin := Some admin, ar_current_implementation := Some initial_impl,
            ar_current_version := Some initial_version, ar_initialized := Some True\<rparr>)))"

definition validate_implementation :: "areg_state \<Rightarrow> address \<Rightarrow> bool" where
  "validate_implementation s candidate =
     (if \<not> areg_is_initialized s then True
      else if (case ar_current_implementation s of Some current \<Rightarrow> candidate = current | None \<Rightarrow> False) then False
      else if (case ar_admin s of Some a \<Rightarrow> candidate = a | None \<Rightarrow> False) then False
      else True)"

definition upgrade :: "ledger_env \<Rightarrow> address \<Rightarrow> nat \<Rightarrow> migration option \<Rightarrow> areg_state \<Rightarrow> areg_state res" where
  "upgrade env new_impl new_version migration_data s =
     bindr (areg_require_initialized s) (\<lambda>_.
     bindr (areg_require_admin env s) (\<lambda>_.
     bindr (assertr (validate_implementation s new_impl) ''invalid implementation address'') (\<lambda>_.
     bindr (expectr (ar_current_version s) ''current version missing'') (\<lambda>current_version.
     bindr (assertr (\<not> new_version \<le> current_version) ''new version must be greater than current version'') (\<lambda>_.
     bindr (expectr (ar_current_implementation s) ''current implementation missing'') (\<lambda>current_impl.
     Inr (s\<lparr>ar_previous_implementation := Some current_impl, ar_previous_version := Some current_version,
            ar_current_implementation := Some new_impl, ar_current_version := Some new_version\<rparr>)))))))"

definition rollback :: "ledger_env \<Rightarrow> areg_state \<Rightarrow> areg_state res" where
  "rollback env s =
     bindr (areg_require_initialized s) (\<lambda>_.
     bindr (areg_require_admin env s) (\<lambda>_.
     (let prev_impl = ar_previous_implementation s; prev_version = ar_previous_version s in
      bindr (assertr (\<not> (prev_impl = None \<or> prev_version = None)) ''no previous implementation to rollback to'') (\<lambda>_.
      bindr (expectr (ar_current_implementation s) ''current implementation missing'') (\<lambda>current_impl.
      bindr (expectr (ar_current_version s) ''current version missing'') (\<lambda>current_version.
      bindr (unwrapr prev_impl) (\<lambda>pi.
      bindr (unwrapr prev_version) (\<lambda>pv.
      Inr (s\<lparr>ar_current_implementation := Some pi, ar_current_version := Some pv,
             ar_previous_implementation := Some current_impl, ar_previous_version := Some current_version\<rparr>)))))))))"

definition register_attestation_key :: "ledger_env \<Rightarrow> address \<Rightarrow> sstring \<Rightarrow> areg_state \<Rightarrow> areg_state res" where
  "register_attestation_key env attester key s =
     bindr (areg_require_initialized s) (\<lambda>_.
     bindr (require_auth env attester) (\<lambda>_.
     bindr (assertr (ar_attestation_keys s (attester, key) = None) ''attestation key already registered'') (\<lambda>_.
     Inr (s\<lparr>ar_attestation_keys := (ar_attestation_keys s)((attester, key) \<mapsto> timestamp env)\<rparr>))))"

definition areg_transfer_admin :: "ledger_env \<Rightarrow> address \<Rightarrow> areg_state \<Rightarrow> areg_state res" where
  "areg_transfer_admin env new_admin s =
     bindr (areg_require_initialized s) (\<lambda>_.
     bindr (areg_require_admin env s) (\<lambda>_. Inr (s\<lparr>ar_admin := Some new_admin\<rparr>)))"

section \<open>Queries\<close>

definition get_current_implementation :: "areg_state \<Rightarrow> address option" where
  "get_current_implementation s = (if ar_initialized s = None then None else ar_current_implementation s)"

definition get_current_version :: "areg_state \<Rightarrow> nat option" where
  "get_current_version s = (if ar_initialized s = None then None else ar_current_version s)"

definition get_previous_implementation :: "areg_state \<Rightarrow> address option" where
  "get_previous_implementation s = (if ar_initialized s = None then None else ar_previous_implementation s)"

definition get_previous_version :: "areg_state \<Rightarrow> nat option" where
  "get_previous_version s = (if ar_initialized s = None then None else ar_previous_version s)"

definition areg_get_admin :: "areg_state \<Rightarrow> address option" where
  "areg_get_admin s = (if ar_initialized s = None then None else ar_admin s)"

definition get_version_info :: "ledger_env \<Rightarrow> areg_state \<Rightarrow> version_info option res" where
  "get_version_info env s =
     (if \<not> areg_is_initialized s then Inr None
      else bindr (expectr (ar_current_implementation s) ''current implementation missing'') (\<lambda>implementation.
           bindr (expectr (ar_current_version s) ''current version missing'') (\<lambda>version.
           Inr (Some \<lparr>vi_version = version, vi_implementation = implementation, vi_migration_data = None,
                      vi_activated_at = timestamp env\<rparr>))))"

definition has_attestation_key :: "areg_state \<Rightarrow> address \<Rightarrow> sstring \<Rightarrow> bool" where
  "has_attestation_key s attester key =
     (if ar_initialized s = None then False else ar_attestation_keys s (attester, key) \<noteq> None)"

section \<open>The machine\<close>

datatype areg_call =
    ArInit address address nat
  | ArUpgrade address nat "migration option"
  | ArRollback
  | ArKey address sstring
  | ArTransfer address

fun areg_step :: "ledger_env \<times> areg_call \<Rightarrow> areg_state \<Rightarrow> areg_state res" where
  "areg_step (env, ArInit a i v) s = areg_initialize env a i v s"
| "areg_step (env, ArUpgrade i v m) s = upgrade env i v m s"
| "areg_step (env, ArRollback) s = rollback env s"
| "areg_step (env, ArKey a k) s = register_attestation_key env a k s"
| "areg_step (env, ArTransfer a) s = areg_transfer_admin env a s"

lemmas areg_defs = areg_initialize_def upgrade_def rollback_def register_attestation_key_def areg_transfer_admin_def
  areg_require_initialized_def areg_require_admin_def

text \<open>The pairs in force and before, and that a version in force has its implementation.\<close>

definition areg_ok :: "areg_state \<Rightarrow> bool" where
  "areg_ok s \<longleftrightarrow>
     (ar_initialized s = None \<longrightarrow> ar_current_implementation s = None \<and> ar_current_version s = None \<and> ar_attestation_keys s = Map.empty \<and>
        ar_previous_implementation s = None \<and> ar_previous_version s = None \<and> ar_admin s = None) \<and>
     (ar_initialized s \<noteq> None \<longrightarrow> ar_current_implementation s \<noteq> None \<and> ar_current_version s \<noteq> None \<and> ar_admin s \<noteq> None) \<and>
     (ar_previous_implementation s = None \<longleftrightarrow> ar_previous_version s = None) \<and>
     (ar_previous_version s \<noteq> None \<longrightarrow> ar_previous_version s \<noteq> ar_current_version s)"

interpretation areg: invariant_machine "\<lambda>s. s = areg_empty" areg_step areg_ok
proof
  show "areg_ok s" if "s = areg_empty" for s using that by (simp add: areg_ok_def areg_empty_def)
  show "areg_ok s'" if "areg_ok s" "areg_step e s = Inr s'" for s e s'
  proof -
    obtain env c where e: "e = (env, c)" by (cases e)
    show ?thesis using that e by (cases c) (auto simp: areg_defs areg_ok_def Let_def)
  qed
qed

lemma upgrade_cases:
  assumes "upgrade env i v m s = Inr s'" and "areg_ok s"
  obtains c w where "ar_initialized s \<noteq> None" "ar_current_implementation s = Some c" "ar_current_version s = Some w" "w < v"
    "s' = s\<lparr>ar_previous_implementation := Some c, ar_previous_version := Some w, ar_current_implementation := Some i, ar_current_version := Some v\<rparr>"
  using assms by (auto simp: areg_defs)

lemma rollback_swaps:
  assumes "ar_initialized s \<noteq> None" and "ar_admin s = Some a" and "authorized env a"
    and "ar_previous_implementation s = Some pi" and "ar_previous_version s = Some pv"
    and "ar_current_implementation s = Some c" and "ar_current_version s = Some w"
  shows "rollback env s = Inr (s\<lparr>ar_current_implementation := Some pi, ar_current_version := Some pv,
             ar_previous_implementation := Some c, ar_previous_version := Some w\<rparr>)"
  using assms by (simp add: areg_defs require_auth_def)

section \<open>What the contract promises\<close>

text \<open>
  C34. A rollback undoes an upgrade. In every reachable state, an upgrade that goes through can be rolled back by the
  administrator at once, which puts back the implementation and the version that were in force, and a second rollback
  puts the upgrade into force again, exactly.
\<close>

theorem rollback_undoes_upgrade:
  assumes "reachable (\<lambda>s. s = areg_empty) areg_step s" and "upgrade env i v m s = Inr s'" and "ar_admin s = Some a"
    and "authorized env' a" and "authorized env'' a"
  shows "\<exists>t. rollback env' s' = Inr t \<and> get_current_implementation t = get_current_implementation s \<and>
    get_current_version t = get_current_version s \<and> rollback env'' t = Inr s'"
proof -
  have "areg_ok s" by (rule areg.reachable_inv [OF assms(1)])
  with assms(2) obtain c w where c: "ar_initialized s \<noteq> None" "ar_current_implementation s = Some c" "ar_current_version s = Some w"
    and s': "s' = s\<lparr>ar_previous_implementation := Some c, ar_previous_version := Some w, ar_current_implementation := Some i, ar_current_version := Some v\<rparr>"
    by (rule upgrade_cases) (rule that)
  define t where "t = s'\<lparr>ar_current_implementation := Some c, ar_current_version := Some w,
    ar_previous_implementation := Some i, ar_previous_version := Some v\<rparr>"
  have "rollback env' s' = Inr t"
    using c assms(3,4) unfolding t_def by (intro rollback_swaps) (simp_all add: s')
  moreover have "rollback env'' t = Inr (t\<lparr>ar_current_implementation := Some i, ar_current_version := Some v,
    ar_previous_implementation := Some c, ar_previous_version := Some w\<rparr>)"
    using c assms(3,5) by (intro rollback_swaps) (simp_all add: s' t_def)
  ultimately show ?thesis
    using c by (auto simp: get_current_implementation_def get_current_version_def t_def s')
qed

text \<open>
  An attestation key is registered once: along every history its entry stays, and registering it again fails.
\<close>

theorem attestation_key_once:
  assumes "reachable (\<lambda>s. s = areg_empty) areg_step s" and "has_attestation_key s a k"
  shows "has_attestation_key (run areg_step es s) a k \<and>
    (\<nexists>s'. register_attestation_key env a k (run areg_step es s) = Inr s')"
proof -
  have "ar_initialized s \<noteq> None \<and> ar_attestation_keys s (a, k) \<noteq> None \<longrightarrow>
      ar_initialized (run areg_step es s) \<noteq> None \<and> ar_attestation_keys (run areg_step es s) (a, k) \<noteq> None"
  proof (rule run_rel_any [where R = "\<lambda>s s'. ar_initialized s \<noteq> None \<and> ar_attestation_keys s (a, k) \<noteq> None \<longrightarrow>
      ar_initialized s' \<noteq> None \<and> ar_attestation_keys s' (a, k) \<noteq> None"])
    fix s s' and e :: "ledger_env \<times> areg_call"
    assume st: "areg_step e s = Inr s'"
    obtain env c where "e = (env, c)" by (cases e)
    with st show "ar_initialized s \<noteq> None \<and> ar_attestation_keys s (a, k) \<noteq> None \<longrightarrow>
        ar_initialized s' \<noteq> None \<and> ar_attestation_keys s' (a, k) \<noteq> None"
      by (cases c) (auto simp: areg_defs Let_def)
  qed auto
  with assms(2) show ?thesis
    by (auto simp: has_attestation_key_def register_attestation_key_def areg_require_initialized_def split: if_splits)
qed

text \<open>A version number does not name an implementation: after a rollback another one takes the number of the first.\<close>

definition areg_upgraded :: areg_state where
  "areg_upgraded = run areg_step [(env_at 0 0, ArInit ''admin'' ''impl1'' 10), (env_at 1 1, ArUpgrade ''impl2'' 20 None)] areg_empty"

lemma areg_upgraded_is: "areg_upgraded = areg_empty\<lparr>ar_admin := Some ''admin'', ar_initialized := Some True,
    ar_previous_implementation := Some ''impl1'', ar_previous_version := Some 10,
    ar_current_implementation := Some ''impl2'', ar_current_version := Some 20\<rparr>"
  by (simp add: areg_upgraded_def areg_defs exec_def areg_empty_def validate_implementation_def areg_is_initialized_def)

lemma version_reused:
  "get_current_version areg_upgraded = Some 20 \<and> get_current_implementation areg_upgraded = Some ''impl2'' \<and>
   (\<exists>s'. s' = run areg_step [(env_at 2 2, ArRollback), (env_at 3 3, ArUpgrade ''impl3'' 20 None)] areg_upgraded \<and>
     get_current_version s' = Some 20 \<and> get_current_implementation s' = Some ''impl3'')"
  by (simp add: areg_upgraded_is areg_defs exec_def areg_empty_def validate_implementation_def areg_is_initialized_def Let_def
      get_current_version_def get_current_implementation_def)

section \<open>Witnesses\<close>

definition areg_demo :: areg_state where
  "areg_demo = run areg_step [(env_at 0 0, ArInit ''admin'' ''impl1'' 10), (env_at 1 1, ArKey ''att'' ''k'')] areg_empty"

lemma areg_demo_reachable: "reachable (\<lambda>s. s = areg_empty) areg_step areg_demo"
  unfolding areg_demo_def by (rule reachable_run, rule reachable_start) simp

lemma areg_demo_facts: "\<exists>s'. upgrade (env_at 2 2) ''impl2'' 20 None areg_demo = Inr s'" "ar_admin areg_demo = Some ''admin''"
  "has_attestation_key areg_demo ''att'' ''k''" "get_current_version areg_demo = Some 10"
  by (simp_all add: areg_demo_def areg_defs exec_def areg_empty_def validate_implementation_def areg_is_initialized_def Let_def
      has_attestation_key_def get_current_version_def)

lemma rollback_undoes_upgrade_witness:
  "\<exists>s' t. upgrade (env_at 2 2) ''impl2'' 20 None areg_demo = Inr s' \<and> rollback (env_at 3 3) s' = Inr t \<and> get_current_version t = Some 10"
proof -
  obtain s' where u: "upgrade (env_at 2 2) ''impl2'' 20 None areg_demo = Inr s'" using areg_demo_facts(1) by blast
  from rollback_undoes_upgrade [OF areg_demo_reachable u areg_demo_facts(2), of "env_at 3 3" "env_at 4 4"] u show ?thesis
    by (auto simp: areg_demo_facts(4))
qed

lemma attestation_key_once_witness:
  "has_attestation_key (run areg_step [(env_at 5 5, ArKey ''att'' ''k'')] areg_demo) ''att'' ''k''"
  using attestation_key_once [OF areg_demo_reachable areg_demo_facts(3)] by blast

end
