(* ===== verification/Business_Config.thy ===== *)
theory Business_Config
  imports Prelude
begin

text \<open>
  \<open>contracts/business-config/src/lib.rs\<close>: per-business settings in five sections over global defaults, and anchors that
  lock sections. Events are output only.
\<close>

section \<open>State\<close>

definition BUSINESS_CONFIG_SCHEMA_VERSION :: nat where "BUSINESS_CONFIG_SCHEMA_VERSION = 1"
definition DEFAULT_ANOMALY_ALERT_THRESHOLD :: nat where "DEFAULT_ANOMALY_ALERT_THRESHOLD = 70"
definition DEFAULT_ANOMALY_BLOCK_THRESHOLD :: nat where "DEFAULT_ANOMALY_BLOCK_THRESHOLD = 90"
definition DEFAULT_EXPIRY_SECONDS :: nat where "DEFAULT_EXPIRY_SECONDS = 31536000"
definition DEFAULT_GRACE_PERIOD_SECONDS :: nat where "DEFAULT_GRACE_PERIOD_SECONDS = 2592000"

record anomaly_policy =
  apol_alert_threshold :: nat
  apol_block_threshold :: nat
  apol_required :: bool
  apol_auto_revoke :: bool

record integration_requirements =
  ireq_required_oracles :: "address list"
  ireq_min_confirmations :: nat
  ireq_external_validation_required :: bool

record expiry_config =
  exc_default_expiry_seconds :: nat
  exc_enforce_expiry :: bool
  exc_grace_period_seconds :: nat

record custom_fee_config =
  cfee_base_fee_override :: "int option"
  cfee_tier_discount_bps :: "nat option"
  cfee_fee_waived :: bool

record compliance_config =
  comp_jurisdictions :: "sstring list"
  comp_required_tags :: "sstring list"
  comp_kyc_required :: bool
  comp_metadata_required :: bool

record anchor_config =
  anc_anomaly_policy :: bool
  anc_integrations :: bool
  anc_expiry :: bool
  anc_custom_fees :: bool
  anc_compliance :: bool

record business_config =
  bcfg_business :: address
  bcfg_schema_version :: nat
  bcfg_anomaly_policy :: anomaly_policy
  bcfg_integrations :: integration_requirements
  bcfg_expiry :: expiry_config
  bcfg_custom_fees :: custom_fee_config
  bcfg_compliance :: compliance_config
  bcfg_version :: nat
  bcfg_created_at :: nat
  bcfg_updated_at :: nat

record config_state =
  bcs_admin :: "address option"
  bcs_configs :: "address \<rightharpoonup> business_config"
  bcs_defaults :: "business_config option"
  bcs_initialized :: "bool option"
  bcs_anchors :: "address \<rightharpoonup> anchor_config"

definition config_empty :: config_state where
  "config_empty = \<lparr>bcs_admin = None, bcs_configs = Map.empty, bcs_defaults = None, bcs_initialized = None, bcs_anchors = Map.empty\<rparr>"

section \<open>Helpers\<close>

definition no_anchors :: anchor_config where
  "no_anchors = \<lparr>anc_anomaly_policy = False, anc_integrations = False, anc_expiry = False, anc_custom_fees = False, anc_compliance = False\<rparr>"

definition get_anchor_config_internal :: "config_state \<Rightarrow> address \<Rightarrow> anchor_config" where
  "get_anchor_config_internal s business = unwrap_or (bcs_anchors s business) no_anchors"

definition config_require_admin :: "ledger_env \<Rightarrow> address \<Rightarrow> config_state \<Rightarrow> unit res" where
  "config_require_admin env caller s =
     bindr (require_auth env caller) (\<lambda>_.
     bindr (expectr (bcs_admin s) ''not initialized'') (\<lambda>admin.
     assertr (caller = admin) ''caller is not admin''))"

definition create_default_config :: "ledger_env \<Rightarrow> business_config" where
  "create_default_config env =
     \<lparr>bcfg_business = self_addr env, bcfg_schema_version = BUSINESS_CONFIG_SCHEMA_VERSION,
      bcfg_anomaly_policy = \<lparr>apol_alert_threshold = DEFAULT_ANOMALY_ALERT_THRESHOLD,
        apol_block_threshold = DEFAULT_ANOMALY_BLOCK_THRESHOLD, apol_required = False, apol_auto_revoke = False\<rparr>,
      bcfg_integrations = \<lparr>ireq_required_oracles = [], ireq_min_confirmations = 0, ireq_external_validation_required = False\<rparr>,
      bcfg_expiry = \<lparr>exc_default_expiry_seconds = DEFAULT_EXPIRY_SECONDS, exc_enforce_expiry = False,
        exc_grace_period_seconds = DEFAULT_GRACE_PERIOD_SECONDS\<rparr>,
      bcfg_custom_fees = \<lparr>cfee_base_fee_override = None, cfee_tier_discount_bps = None, cfee_fee_waived = False\<rparr>,
      bcfg_compliance = \<lparr>comp_jurisdictions = [], comp_required_tags = [], comp_kyc_required = False, comp_metadata_required = False\<rparr>,
      bcfg_version = 0, bcfg_created_at = timestamp env, bcfg_updated_at = timestamp env\<rparr>"

definition validate_anomaly_policy :: "anomaly_policy \<Rightarrow> unit res" where
  "validate_anomaly_policy policy =
     bindr (assertr (apol_alert_threshold policy \<le> 100) ''alert threshold must be <= 100'') (\<lambda>_.
     bindr (assertr (apol_block_threshold policy \<le> 100) ''block threshold must be <= 100'') (\<lambda>_.
     assertr (apol_alert_threshold policy \<le> apol_block_threshold policy) ''alert threshold must be <= block threshold''))"

definition validate_custom_fees :: "custom_fee_config \<Rightarrow> unit res" where
  "validate_custom_fees fees =
     bindr (case cfee_tier_discount_bps fees of
              Some discount \<Rightarrow> assertr (discount \<le> 10000) ''discount cannot exceed 10000 bps (100%)''
            | None \<Rightarrow> Inr ()) (\<lambda>_.
     (case cfee_base_fee_override fees of
        Some fee \<Rightarrow> assertr (0 \<le> fee) ''base fee cannot be negative''
      | None \<Rightarrow> Inr ()))"

definition validate_schema_version :: "business_config \<Rightarrow> unit res" where
  "validate_schema_version config =
     assertr (bcfg_schema_version config \<le> BUSINESS_CONFIG_SCHEMA_VERSION) ''unsupported business config schema version''"

definition get_business_config_or_default :: "ledger_env \<Rightarrow> config_state \<Rightarrow> address \<Rightarrow> business_config res" where
  "get_business_config_or_default env s business =
     (case bcs_configs s business of
        Some config \<Rightarrow> bindr (validate_schema_version config) (\<lambda>_. Inr config)
      | None \<Rightarrow>
          (case bcs_defaults s of
             Some config \<Rightarrow> bindr (validate_schema_version config) (\<lambda>_. Inr config)
           | None \<Rightarrow> Inr (create_default_config env)))"

section \<open>Entry points\<close>

definition config_initialize :: "ledger_env \<Rightarrow> address \<Rightarrow> config_state \<Rightarrow> config_state res" where
  "config_initialize env admin s =
     bindr (assertr (bcs_initialized s = None) ''already initialized'') (\<lambda>_.
     bindr (require_auth env admin) (\<lambda>_.
     Inr (s\<lparr>bcs_admin := Some admin, bcs_initialized := Some True, bcs_defaults := Some (create_default_config env)\<rparr>)))"

definition set_business_config ::
  "ledger_env \<Rightarrow> address \<Rightarrow> address \<Rightarrow> anomaly_policy \<Rightarrow> integration_requirements \<Rightarrow> expiry_config \<Rightarrow> custom_fee_config \<Rightarrow>
   compliance_config \<Rightarrow> config_state \<Rightarrow> config_state res" where
  "set_business_config env caller business policy integrations expiry custom_fees compliance s =
     bindr (config_require_admin env caller s) (\<lambda>_.
     bindr (validate_anomaly_policy policy) (\<lambda>_.
     bindr (validate_custom_fees custom_fees) (\<lambda>_.
     (let anchor = get_anchor_config_internal s business; ts = timestamp env; existing = bcs_configs s business in
      bindr (if existing \<noteq> None then
               bindr (assertr (\<not> anc_anomaly_policy anchor) ''anomaly policy is anchored and cannot be modified'') (\<lambda>_.
               bindr (assertr (\<not> anc_integrations anchor) ''integrations config is anchored and cannot be modified'') (\<lambda>_.
               bindr (assertr (\<not> anc_expiry anchor) ''expiry config is anchored and cannot be modified'') (\<lambda>_.
               bindr (assertr (\<not> anc_custom_fees anchor) ''custom fees config is anchored and cannot be modified'') (\<lambda>_.
               assertr (\<not> anc_compliance anchor) ''compliance config is anchored and cannot be modified''))))
             else Inr ()) (\<lambda>_.
      bindr (case existing of
               Some old \<Rightarrow>
                 bindr (assertr (bcfg_schema_version old \<le> BUSINESS_CONFIG_SCHEMA_VERSION)
                   ''unsupported business config schema version'') (\<lambda>_.
                 bindr (u32_chk (bcfg_version old + 1)) (\<lambda>version.
                 Inr (version, bcfg_created_at old)))
             | None \<Rightarrow> Inr (1, ts)) (\<lambda>(version, created_at).
      Inr (s\<lparr>bcs_configs := (bcs_configs s)(business \<mapsto>
        \<lparr>bcfg_business = business, bcfg_schema_version = BUSINESS_CONFIG_SCHEMA_VERSION, bcfg_anomaly_policy = policy,
         bcfg_integrations = integrations, bcfg_expiry = expiry, bcfg_custom_fees = custom_fees, bcfg_compliance = compliance,
         bcfg_version = version, bcfg_created_at = created_at, bcfg_updated_at = ts\<rparr>)\<rparr>)))))))"

text \<open>The five single-section updates end alike: the effective configuration with the new section, counted and stored.\<close>

definition store_section ::
  "ledger_env \<Rightarrow> address \<Rightarrow> (business_config \<Rightarrow> business_config) \<Rightarrow> config_state \<Rightarrow> config_state res" where
  "store_section env business set_it s =
     bindr (get_business_config_or_default env s business) (\<lambda>config.
     bindr (u32_chk (bcfg_version (set_it config) + 1)) (\<lambda>version.
     Inr (s\<lparr>bcs_configs := (bcs_configs s)(business \<mapsto> (set_it config)\<lparr>bcfg_version := version, bcfg_updated_at := timestamp env\<rparr>)\<rparr>)))"

definition update_anomaly_policy :: "ledger_env \<Rightarrow> address \<Rightarrow> address \<Rightarrow> anomaly_policy \<Rightarrow> config_state \<Rightarrow> config_state res" where
  "update_anomaly_policy env caller business policy s =
     bindr (config_require_admin env caller s) (\<lambda>_.
     bindr (validate_anomaly_policy policy) (\<lambda>_.
     bindr (assertr (\<not> anc_anomaly_policy (get_anchor_config_internal s business))
       ''anomaly policy is anchored and cannot be modified'') (\<lambda>_.
     store_section env business (\<lambda>config. config\<lparr>bcfg_anomaly_policy := policy\<rparr>) s)))"

definition update_integrations ::
  "ledger_env \<Rightarrow> address \<Rightarrow> address \<Rightarrow> integration_requirements \<Rightarrow> config_state \<Rightarrow> config_state res" where
  "update_integrations env caller business integrations s =
     bindr (config_require_admin env caller s) (\<lambda>_.
     bindr (assertr (\<not> anc_integrations (get_anchor_config_internal s business))
       ''integrations config is anchored and cannot be modified'') (\<lambda>_.
     store_section env business (\<lambda>config. config\<lparr>bcfg_integrations := integrations\<rparr>) s))"

definition update_expiry_config :: "ledger_env \<Rightarrow> address \<Rightarrow> address \<Rightarrow> expiry_config \<Rightarrow> config_state \<Rightarrow> config_state res" where
  "update_expiry_config env caller business expiry s =
     bindr (config_require_admin env caller s) (\<lambda>_.
     bindr (assertr (\<not> anc_expiry (get_anchor_config_internal s business))
       ''expiry config is anchored and cannot be modified'') (\<lambda>_.
     store_section env business (\<lambda>config. config\<lparr>bcfg_expiry := expiry\<rparr>) s))"

definition update_custom_fees ::
  "ledger_env \<Rightarrow> address \<Rightarrow> address \<Rightarrow> custom_fee_config \<Rightarrow> config_state \<Rightarrow> config_state res" where
  "update_custom_fees env caller business custom_fees s =
     bindr (config_require_admin env caller s) (\<lambda>_.
     bindr (validate_custom_fees custom_fees) (\<lambda>_.
     bindr (assertr (\<not> anc_custom_fees (get_anchor_config_internal s business))
       ''custom fees config is anchored and cannot be modified'') (\<lambda>_.
     store_section env business (\<lambda>config. config\<lparr>bcfg_custom_fees := custom_fees\<rparr>) s)))"

definition update_compliance ::
  "ledger_env \<Rightarrow> address \<Rightarrow> address \<Rightarrow> compliance_config \<Rightarrow> config_state \<Rightarrow> config_state res" where
  "update_compliance env caller business compliance s =
     bindr (config_require_admin env caller s) (\<lambda>_.
     bindr (assertr (\<not> anc_compliance (get_anchor_config_internal s business))
       ''compliance config is anchored and cannot be modified'') (\<lambda>_.
     store_section env business (\<lambda>config. config\<lparr>bcfg_compliance := compliance\<rparr>) s))"

definition set_global_defaults ::
  "ledger_env \<Rightarrow> address \<Rightarrow> anomaly_policy \<Rightarrow> integration_requirements \<Rightarrow> expiry_config \<Rightarrow> custom_fee_config \<Rightarrow>
   compliance_config \<Rightarrow> config_state \<Rightarrow> config_state res" where
  "set_global_defaults env caller policy integrations expiry custom_fees compliance s =
     bindr (config_require_admin env caller s) (\<lambda>_.
     bindr (validate_anomaly_policy policy) (\<lambda>_.
     Inr (s\<lparr>bcs_defaults := Some
       \<lparr>bcfg_business = caller, bcfg_schema_version = BUSINESS_CONFIG_SCHEMA_VERSION, bcfg_anomaly_policy = policy,
        bcfg_integrations = integrations, bcfg_expiry = expiry, bcfg_custom_fees = custom_fees, bcfg_compliance = compliance,
        bcfg_version = 1, bcfg_created_at = timestamp env, bcfg_updated_at = timestamp env\<rparr>\<rparr>)))"

definition set_anchor_config :: "ledger_env \<Rightarrow> address \<Rightarrow> address \<Rightarrow> anchor_config \<Rightarrow> config_state \<Rightarrow> config_state res" where
  "set_anchor_config env caller business anchor s =
     bindr (config_require_admin env caller s) (\<lambda>_.
     (let existing = get_anchor_config_internal s business;
          merged = \<lparr>anc_anomaly_policy = anc_anomaly_policy existing \<or> anc_anomaly_policy anchor,
                    anc_integrations = anc_integrations existing \<or> anc_integrations anchor,
                    anc_expiry = anc_expiry existing \<or> anc_expiry anchor,
                    anc_custom_fees = anc_custom_fees existing \<or> anc_custom_fees anchor,
                    anc_compliance = anc_compliance existing \<or> anc_compliance anchor\<rparr> in
      Inr (s\<lparr>bcs_anchors := (bcs_anchors s)(business \<mapsto> merged)\<rparr>)))"

section \<open>Queries\<close>

definition get_config :: "ledger_env \<Rightarrow> config_state \<Rightarrow> address \<Rightarrow> business_config res" where
  "get_config env s business = get_business_config_or_default env s business"

definition get_anomaly_policy :: "ledger_env \<Rightarrow> config_state \<Rightarrow> address \<Rightarrow> anomaly_policy res" where
  "get_anomaly_policy env s business = bindr (get_business_config_or_default env s business) (\<lambda>c. Inr (bcfg_anomaly_policy c))"

definition get_integrations :: "ledger_env \<Rightarrow> config_state \<Rightarrow> address \<Rightarrow> integration_requirements res" where
  "get_integrations env s business = bindr (get_business_config_or_default env s business) (\<lambda>c. Inr (bcfg_integrations c))"

definition get_expiry_config :: "ledger_env \<Rightarrow> config_state \<Rightarrow> address \<Rightarrow> expiry_config res" where
  "get_expiry_config env s business = bindr (get_business_config_or_default env s business) (\<lambda>c. Inr (bcfg_expiry c))"

definition get_custom_fees :: "ledger_env \<Rightarrow> config_state \<Rightarrow> address \<Rightarrow> custom_fee_config res" where
  "get_custom_fees env s business = bindr (get_business_config_or_default env s business) (\<lambda>c. Inr (bcfg_custom_fees c))"

definition get_compliance :: "ledger_env \<Rightarrow> config_state \<Rightarrow> address \<Rightarrow> compliance_config res" where
  "get_compliance env s business = bindr (get_business_config_or_default env s business) (\<lambda>c. Inr (bcfg_compliance c))"

definition has_custom_config :: "config_state \<Rightarrow> address \<Rightarrow> bool" where
  "has_custom_config s business \<longleftrightarrow> bcs_configs s business \<noteq> None"

definition get_global_defaults :: "ledger_env \<Rightarrow> config_state \<Rightarrow> business_config" where
  "get_global_defaults env s = (case bcs_defaults s of Some d \<Rightarrow> d | None \<Rightarrow> create_default_config env)"

definition config_get_admin :: "config_state \<Rightarrow> address res" where
  "config_get_admin s = expectr (bcs_admin s) ''not initialized''"

definition get_anchor_config :: "config_state \<Rightarrow> address \<Rightarrow> anchor_config" where
  "get_anchor_config s business = get_anchor_config_internal s business"

definition config_get_schema_version :: nat where
  "config_get_schema_version = BUSINESS_CONFIG_SCHEMA_VERSION"

section \<open>The machine\<close>

datatype section_value =
    SecAnomaly anomaly_policy
  | SecIntegrations integration_requirements
  | SecExpiry expiry_config
  | SecFees custom_fee_config
  | SecCompliance compliance_config

datatype bconfig_call =
    CfInit address
  | CfSet address address anomaly_policy integration_requirements expiry_config custom_fee_config compliance_config
  | CfUpdate address address section_value
  | CfDefaults address anomaly_policy integration_requirements expiry_config custom_fee_config compliance_config
  | CfAnchor address address anchor_config

fun update_section :: "ledger_env \<Rightarrow> address \<Rightarrow> address \<Rightarrow> section_value \<Rightarrow> config_state \<Rightarrow> config_state res" where
  "update_section env c b (SecAnomaly v) s = update_anomaly_policy env c b v s"
| "update_section env c b (SecIntegrations v) s = update_integrations env c b v s"
| "update_section env c b (SecExpiry v) s = update_expiry_config env c b v s"
| "update_section env c b (SecFees v) s = update_custom_fees env c b v s"
| "update_section env c b (SecCompliance v) s = update_compliance env c b v s"

fun bconfig_step :: "ledger_env \<times> bconfig_call \<Rightarrow> config_state \<Rightarrow> config_state res" where
  "bconfig_step (env, CfInit a) s = config_initialize env a s"
| "bconfig_step (env, CfSet c b p i e f k) s = set_business_config env c b p i e f k s"
| "bconfig_step (env, CfUpdate c b v) s = update_section env c b v s"
| "bconfig_step (env, CfDefaults c p i e f k) s = set_global_defaults env c p i e f k s"
| "bconfig_step (env, CfAnchor c b a) s = set_anchor_config env c b a s"

text \<open>The sections by name: what a configuration holds in one, what an update writes into it, and whether it is anchored.\<close>

datatype section_kind = KAnomaly | KIntegrations | KExpiry | KFees | KCompliance

fun kind_of :: "section_value \<Rightarrow> section_kind" where
  "kind_of (SecAnomaly _) = KAnomaly"
| "kind_of (SecIntegrations _) = KIntegrations"
| "kind_of (SecExpiry _) = KExpiry"
| "kind_of (SecFees _) = KFees"
| "kind_of (SecCompliance _) = KCompliance"

fun section_of :: "section_kind \<Rightarrow> business_config \<Rightarrow> section_value" where
  "section_of KAnomaly c = SecAnomaly (bcfg_anomaly_policy c)"
| "section_of KIntegrations c = SecIntegrations (bcfg_integrations c)"
| "section_of KExpiry c = SecExpiry (bcfg_expiry c)"
| "section_of KFees c = SecFees (bcfg_custom_fees c)"
| "section_of KCompliance c = SecCompliance (bcfg_compliance c)"

fun with_section :: "section_value \<Rightarrow> business_config \<Rightarrow> business_config" where
  "with_section (SecAnomaly v) c = c\<lparr>bcfg_anomaly_policy := v\<rparr>"
| "with_section (SecIntegrations v) c = c\<lparr>bcfg_integrations := v\<rparr>"
| "with_section (SecExpiry v) c = c\<lparr>bcfg_expiry := v\<rparr>"
| "with_section (SecFees v) c = c\<lparr>bcfg_custom_fees := v\<rparr>"
| "with_section (SecCompliance v) c = c\<lparr>bcfg_compliance := v\<rparr>"

fun is_anchored :: "section_kind \<Rightarrow> anchor_config \<Rightarrow> bool" where
  "is_anchored KAnomaly a = anc_anomaly_policy a"
| "is_anchored KIntegrations a = anc_integrations a"
| "is_anchored KExpiry a = anc_expiry a"
| "is_anchored KFees a = anc_custom_fees a"
| "is_anchored KCompliance a = anc_compliance a"

lemma with_section_keeps [simp]:
  "bcfg_business (with_section v c) = bcfg_business c" "bcfg_schema_version (with_section v c) = bcfg_schema_version c"
  "bcfg_version (with_section v c) = bcfg_version c" "bcfg_created_at (with_section v c) = bcfg_created_at c"
  by (cases v; simp)+

lemma section_of_with [simp]: "section_of k (with_section v c) = (if k = kind_of v then v else section_of k c)"
  by (cases v; cases k) simp_all

lemma section_of_counted [simp]: "section_of k (c\<lparr>bcfg_version := n, bcfg_updated_at := t\<rparr>) = section_of k c"
  by (cases k) simp_all

lemma is_anchored_none [simp]: "\<not> is_anchored k no_anchors"
  by (cases k) (simp_all add: no_anchors_def)

fun section_valid :: "section_value \<Rightarrow> bool" where
  "section_valid (SecAnomaly v) \<longleftrightarrow> validate_anomaly_policy v = Inr ()"
| "section_valid (SecFees v) \<longleftrightarrow> validate_custom_fees v = Inr ()"
| "section_valid _ \<longleftrightarrow> True"

lemma update_section_Inr:
  "update_section env caller b v s = Inr s' \<longleftrightarrow>
     authorized env caller \<and> bcs_admin s = Some caller \<and> section_valid v \<and>
     \<not> is_anchored (kind_of v) (get_anchor_config s b) \<and>
     (\<exists>c. get_config env s b = Inr c \<and> bcfg_version c + 1 \<le> u32_max \<and>
       s' = s\<lparr>bcs_configs := (bcs_configs s)(b \<mapsto> (with_section v c)\<lparr>bcfg_version := bcfg_version c + 1, bcfg_updated_at := timestamp env\<rparr>)\<rparr>)"
  by (cases v) (auto simp: update_anomaly_policy_def update_integrations_def update_expiry_config_def update_custom_fees_def
      update_compliance_def store_section_def config_require_admin_def get_anchor_config_def get_config_def)

lemma set_business_config_cases:
  assumes "set_business_config env caller b p i e f k s = Inr s'"
  obtains version created where "authorized env caller" "bcs_admin s = Some caller"
    "validate_anomaly_policy p = Inr ()" "validate_custom_fees f = Inr ()"
    "bcs_configs s b \<noteq> None \<Longrightarrow> get_anchor_config s b = no_anchors"
    "\<And>old. bcs_configs s b = Some old \<Longrightarrow> version = bcfg_version old + 1 \<and> created = bcfg_created_at old"
    "bcs_configs s b = None \<Longrightarrow> version = 1 \<and> created = timestamp env"
    "s' = s\<lparr>bcs_configs := (bcs_configs s)(b \<mapsto>
        \<lparr>bcfg_business = b, bcfg_schema_version = BUSINESS_CONFIG_SCHEMA_VERSION, bcfg_anomaly_policy = p,
         bcfg_integrations = i, bcfg_expiry = e, bcfg_custom_fees = f, bcfg_compliance = k,
         bcfg_version = version, bcfg_created_at = created, bcfg_updated_at = timestamp env\<rparr>)\<rparr>"
  using assms
  by (cases "bcs_configs s b") (auto simp: set_business_config_def Let_def config_require_admin_def get_anchor_config_def no_anchors_def
      intro!: anchor_config.equality intro: that)

lemmas config_defs = config_initialize_def set_global_defaults_def set_anchor_config_def config_require_admin_def

section \<open>What the contract promises\<close>

text \<open>
  A configuration that exists is never removed: its creation time stays, its version never falls, anchors are never
  lifted, and its anchored sections stay as they are.
\<close>

definition config_preserved :: "config_state \<Rightarrow> config_state \<Rightarrow> bool" where
  "config_preserved s s' \<longleftrightarrow>
     (\<forall>k b. is_anchored k (get_anchor_config s b) \<longrightarrow> is_anchored k (get_anchor_config s' b)) \<and>
     (\<forall>b c. bcs_configs s b = Some c \<longrightarrow> (\<exists>c' :: business_config. bcs_configs s' b = Some c' \<and>
        bcfg_created_at c' = bcfg_created_at c \<and> bcfg_version c \<le> bcfg_version c' \<and>
        (\<forall>k. is_anchored k (get_anchor_config s b) \<longrightarrow> section_of k c' = section_of k c)))"

lemma config_preserved_trans: "config_preserved s t \<Longrightarrow> config_preserved t u \<Longrightarrow> config_preserved s u"
  unfolding config_preserved_def
proof (elim conjE, intro conjI allI impI)
  fix b and c :: business_config
  assume st: "\<forall>b c. bcs_configs s b = Some c \<longrightarrow> (\<exists>c' :: business_config. bcs_configs t b = Some c' \<and>
        bcfg_created_at c' = bcfg_created_at c \<and> bcfg_version c \<le> bcfg_version c' \<and>
        (\<forall>k. is_anchored k (get_anchor_config s b) \<longrightarrow> section_of k c' = section_of k c))"
    and tu: "\<forall>b c. bcs_configs t b = Some c \<longrightarrow> (\<exists>c' :: business_config. bcs_configs u b = Some c' \<and>
        bcfg_created_at c' = bcfg_created_at c \<and> bcfg_version c \<le> bcfg_version c' \<and>
        (\<forall>k. is_anchored k (get_anchor_config t b) \<longrightarrow> section_of k c' = section_of k c))"
    and a: "\<forall>k b. is_anchored k (get_anchor_config s b) \<longrightarrow> is_anchored k (get_anchor_config t b)"
    and c: "bcs_configs s b = Some c"
  from st c obtain d where d: "bcs_configs t b = Some d" "bcfg_created_at d = bcfg_created_at c" "bcfg_version c \<le> bcfg_version d"
    "\<forall>k. is_anchored k (get_anchor_config s b) \<longrightarrow> section_of k d = section_of k c" by blast
  from tu d(1) obtain e where e: "bcs_configs u b = Some e" "bcfg_created_at e = bcfg_created_at d" "bcfg_version d \<le> bcfg_version e"
    "\<forall>k. is_anchored k (get_anchor_config t b) \<longrightarrow> section_of k e = section_of k d" by blast
  from d e a show "\<exists>c'. bcs_configs u b = Some c' \<and> bcfg_created_at c' = bcfg_created_at c \<and> bcfg_version c \<le> bcfg_version c' \<and>
        (\<forall>k. is_anchored k (get_anchor_config s b) \<longrightarrow> section_of k c' = section_of k c)"
    by (intro exI [of _ e]) simp
qed blast

lemma anchors_merge: "is_anchored k \<lparr>anc_anomaly_policy = anc_anomaly_policy x \<or> anc_anomaly_policy a,
    anc_integrations = anc_integrations x \<or> anc_integrations a, anc_expiry = anc_expiry x \<or> anc_expiry a,
    anc_custom_fees = anc_custom_fees x \<or> anc_custom_fees a, anc_compliance = anc_compliance x \<or> anc_compliance a\<rparr> \<longleftrightarrow>
  is_anchored k x \<or> is_anchored k a"
  by (cases k) simp_all

lemma anchor_update: "get_anchor_config (s\<lparr>bcs_anchors := (bcs_anchors s)(b' \<mapsto> a)\<rparr>) b = (if b = b' then a else get_anchor_config s b)"
  "get_anchor_config (s\<lparr>bcs_configs := x\<rparr>) b = get_anchor_config s b"
  "get_anchor_config (s\<lparr>bcs_defaults := y\<rparr>) b = get_anchor_config s b"
  by (simp_all add: get_anchor_config_def get_anchor_config_internal_def)

lemma bconfig_step_preserves:
  assumes "bconfig_step (env, c) s = Inr s'"
  shows "config_preserved s s'"
proof (cases c)
  case (CfInit a)
  then show ?thesis using assms
    by (auto simp: config_defs config_preserved_def get_anchor_config_def get_anchor_config_internal_def)
next
  case (CfSet a b p i e f k)
  with assms have "set_business_config env a b p i e f k s = Inr s'" by simp
  then show ?thesis
  proof (cases rule: set_business_config_cases)
    case (1 version created)
    then show ?thesis unfolding config_preserved_def by (auto simp: anchor_update)
  qed
next
  case (CfUpdate a b v)
  with assms show ?thesis
    by (auto simp: update_section_Inr config_preserved_def anchor_update get_config_def get_business_config_or_default_def)
next
  case (CfDefaults a p i e f k)
  with assms show ?thesis by (auto simp: config_defs config_preserved_def anchor_update)
next
  case (CfAnchor a b x)
  with assms show ?thesis
    by (auto simp: config_defs config_preserved_def anchor_update Let_def anchors_merge
        get_anchor_config_def [symmetric] intro: exI)
qed

text \<open>Every stored configuration and the defaults have a readable schema and a policy within its bounds.\<close>

definition config_ok :: "config_state \<Rightarrow> bool" where
  "config_ok s \<longleftrightarrow>
     (\<forall>c. c \<in> ran (bcs_configs s) \<or> bcs_defaults s = Some c \<longrightarrow>
        bcfg_schema_version c = BUSINESS_CONFIG_SCHEMA_VERSION \<and>
        apol_alert_threshold (bcfg_anomaly_policy c) \<le> apol_block_threshold (bcfg_anomaly_policy c) \<and>
        apol_block_threshold (bcfg_anomaly_policy c) \<le> 100)"

lemma default_config_ok:
  "bcfg_schema_version (create_default_config env) = BUSINESS_CONFIG_SCHEMA_VERSION"
  "apol_alert_threshold (bcfg_anomaly_policy (create_default_config env)) \<le> apol_block_threshold (bcfg_anomaly_policy (create_default_config env))"
  "apol_block_threshold (bcfg_anomaly_policy (create_default_config env)) \<le> 100"
  by (simp_all add: create_default_config_def DEFAULT_ANOMALY_ALERT_THRESHOLD_def DEFAULT_ANOMALY_BLOCK_THRESHOLD_def)

lemma get_config_ok:
  assumes "config_ok s"
  obtains c where "get_config env s b = Inr c" "bcfg_schema_version c = BUSINESS_CONFIG_SCHEMA_VERSION"
    "apol_alert_threshold (bcfg_anomaly_policy c) \<le> apol_block_threshold (bcfg_anomaly_policy c)"
    "apol_block_threshold (bcfg_anomaly_policy c) \<le> 100"
proof (cases "bcs_configs s b")
  case (Some c)
  then have "c \<in> ran (bcs_configs s)" by (rule ranI)
  with assms Some show ?thesis
    by (intro that [of c]) (simp_all add: config_ok_def get_config_def get_business_config_or_default_def validate_schema_version_def)
next
  case None
  show ?thesis
  proof (cases "bcs_defaults s")
    case (Some c)
    with assms None show ?thesis
      by (intro that [of c]) (simp_all add: config_ok_def get_config_def get_business_config_or_default_def validate_schema_version_def)
  next
    case d: None
    with None show ?thesis
      by (intro that [of "create_default_config env"] default_config_ok) (simp_all add: get_config_def get_business_config_or_default_def)
  qed
qed

lemma policy_valid_iff:
  "validate_anomaly_policy p = Inr () \<longleftrightarrow> apol_alert_threshold p \<le> apol_block_threshold p \<and> apol_block_threshold p \<le> 100"
  by (auto simp: validate_anomaly_policy_def)

lemma ran_upd: "x \<in> ran (m(k \<mapsto> v)) \<Longrightarrow> x = v \<or> x \<in> ran m"
  by (auto simp: ran_def split: if_splits)

interpretation bcfg: invariant_machine "\<lambda>s. s = config_empty" bconfig_step config_ok
proof
  show "config_ok s" if "s = config_empty" for s using that by (simp add: config_ok_def config_empty_def)
  show "config_ok s'" if inv: "config_ok s" and st: "bconfig_step e s = Inr s'" for s e s'
  proof -
    obtain env c where e: "e = (env, c)" by (cases e)
    show ?thesis
    proof (cases c)
      case (CfInit a)
      with st inv show ?thesis by (auto simp: e config_defs config_ok_def default_config_ok)
    next
      case (CfSet a b p i x f k)
      with st have "set_business_config env a b p i x f k s = Inr s'" by (simp add: e)
      then show ?thesis
        by (cases rule: set_business_config_cases) (use inv in \<open>auto simp: config_ok_def policy_valid_iff dest!: ran_upd\<close>)
    next
      case (CfUpdate a b v)
      with st obtain c where v: "section_valid v" and g: "get_config env s b = Inr c"
        and s': "s' = s\<lparr>bcs_configs := (bcs_configs s)(b \<mapsto> (with_section v c)\<lparr>bcfg_version := bcfg_version c + 1, bcfg_updated_at := timestamp env\<rparr>)\<rparr>"
        by (auto simp: e update_section_Inr)
      have c: "bcfg_schema_version c = BUSINESS_CONFIG_SCHEMA_VERSION"
        "apol_alert_threshold (bcfg_anomaly_policy c) \<le> apol_block_threshold (bcfg_anomaly_policy c)"
        "apol_block_threshold (bcfg_anomaly_policy c) \<le> 100"
        by (rule get_config_ok [OF inv, of env b]; use g in simp)+
      moreover have
        "apol_alert_threshold (bcfg_anomaly_policy (with_section v c)) \<le> apol_block_threshold (bcfg_anomaly_policy (with_section v c))"
        "apol_block_threshold (bcfg_anomaly_policy (with_section v c)) \<le> 100"
        using c v by (cases v; simp add: policy_valid_iff)+
      ultimately show ?thesis using inv by (auto simp: s' config_ok_def dest!: ran_upd)
    next
      case (CfDefaults a p i x f k)
      with st inv show ?thesis by (auto simp: e config_defs config_ok_def policy_valid_iff)
    next
      case (CfAnchor a b x)
      with st inv show ?thesis by (auto simp: e config_defs config_ok_def Let_def)
    qed
  qed
qed

text \<open>
  C35. An anchored section of a configured business never changes. Along every history of calls, whoever makes them, a
  configuration stays, keeps its creation time, never lowers its version, and keeps every section that is anchored.
\<close>

theorem anchored_sections_frozen:
  assumes "bcs_configs s b = Some c"
  shows "\<exists>c' :: business_config. bcs_configs (run bconfig_step es s) b = Some c' \<and> bcfg_created_at c' = bcfg_created_at c \<and>
    bcfg_version c \<le> bcfg_version c' \<and>
    (\<forall>k. is_anchored k (get_anchor_config s b) \<longrightarrow>
      section_of k c' = section_of k c \<and> is_anchored k (get_anchor_config (run bconfig_step es s) b))"
proof -
  have "config_preserved s (run bconfig_step es s)"
    by (rule run_rel_any [where R = config_preserved])
      (auto simp: config_preserved_def [of t t for t] intro: config_preserved_trans bconfig_step_preserves)
  with assms show ?thesis unfolding config_preserved_def by blast
qed

text \<open>
  Reading a configuration never fails on a reachable state, for any business and at any time, and the policy it
  returns is within its bounds: alerts at or below the blocking threshold, and that at most 100.
\<close>

theorem config_always_readable:
  assumes "reachable (\<lambda>s. s = config_empty) bconfig_step s"
  shows "\<exists>c. get_config env s b = Inr c \<and> bcfg_schema_version c \<le> BUSINESS_CONFIG_SCHEMA_VERSION \<and>
    apol_alert_threshold (bcfg_anomaly_policy c) \<le> apol_block_threshold (bcfg_anomaly_policy c) \<and>
    apol_block_threshold (bcfg_anomaly_policy c) \<le> 100"
  by (rule get_config_ok [OF bcfg.reachable_inv [OF assms], of env b]) auto

text \<open>
  A section update changes that section of that business and nothing else: the other sections keep what was in force
  for the business, its own or the defaults, the version goes up by one, and every other business reads what it read.
\<close>

theorem section_update_exact:
  assumes "bconfig_step (env, CfUpdate caller b v) s = Inr s'" and "get_config env s b = Inr c"
  shows "get_config env' s' b = Inr ((with_section v c)\<lparr>bcfg_version := bcfg_version c + 1, bcfg_updated_at := timestamp env\<rparr>) \<and>
    (\<forall>k. k \<noteq> kind_of v \<longrightarrow> section_of k (with_section v c) = section_of k c) \<and>
    (\<forall>b'. b' \<noteq> b \<longrightarrow> get_config env' s' b' = get_config env' s b') \<and> \<not> is_anchored (kind_of v) (get_anchor_config s b)"
proof -
  have "bcfg_schema_version c \<le> BUSINESS_CONFIG_SCHEMA_VERSION"
    using assms(2) by (auto simp: get_config_def get_business_config_or_default_def validate_schema_version_def create_default_config_def
        split: option.splits)
  moreover have "authorized env caller" "\<not> is_anchored (kind_of v) (get_anchor_config s b)"
    "s' = s\<lparr>bcs_configs := (bcs_configs s)(b \<mapsto> (with_section v c)\<lparr>bcfg_version := bcfg_version c + 1, bcfg_updated_at := timestamp env\<rparr>)\<rparr>"
    using assms by (auto simp: update_section_Inr)
  ultimately show ?thesis
    by (simp add: get_config_def get_business_config_or_default_def validate_schema_version_def cong: option.case_cong)
qed

section \<open>Gaps\<close>

text \<open>
  Three gaps, on concrete histories: the defaults take fees that no business configuration may have, an anchor on a
  business without a configuration of its own does not stop \<open>set_business_config\<close>, and a configuration created by an
  update names the contract, not the business.
\<close>

definition config_demo :: config_state where
  "config_demo = run bconfig_step [(env_at 10 0, CfInit ''admin'')] config_empty"

lemma config_demo_is: "config_demo = \<lparr>bcs_admin = Some ''admin'', bcs_configs = Map.empty,
    bcs_defaults = Some (create_default_config (env_at 10 0)), bcs_initialized = Some True, bcs_anchors = Map.empty\<rparr>"
  by (simp add: config_demo_def exec_def config_defs config_empty_def)

abbreviation "demo_config \<equiv> create_default_config (env_at 10 0)"
abbreviation "demo_policy \<equiv> bcfg_anomaly_policy demo_config"
abbreviation "demo_fees \<equiv> \<lparr>cfee_base_fee_override = Some (-5), cfee_tier_discount_bps = Some 20000, cfee_fee_waived = False\<rparr>"

lemma demo_policy_valid: "validate_anomaly_policy demo_policy = Inr ()"
  by (simp add: policy_valid_iff default_config_ok)

lemma defaults_escape_fee_check:
  "\<exists>s'. bconfig_step (env_at 11 0, CfDefaults ''admin'' demo_policy (bcfg_integrations demo_config) (bcfg_expiry demo_config) demo_fees
       (bcfg_compliance demo_config)) config_demo = Inr s' \<and>
     get_custom_fees env s' ''biz'' = Inr demo_fees \<and> validate_custom_fees demo_fees \<noteq> Inr ()"
  by (simp add: config_demo_is set_global_defaults_def config_require_admin_def demo_policy_valid get_custom_fees_def
      get_business_config_or_default_def validate_schema_version_def validate_custom_fees_def)

definition all_anchors :: anchor_config where
  "all_anchors = \<lparr>anc_anomaly_policy = True, anc_integrations = True, anc_expiry = True, anc_custom_fees = True, anc_compliance = True\<rparr>"

definition strict_expiry :: expiry_config where
  "strict_expiry = \<lparr>exc_default_expiry_seconds = 60, exc_enforce_expiry = True, exc_grace_period_seconds = 0\<rparr>"

lemma strict_expiry_new: "strict_expiry \<noteq> bcfg_expiry demo_config"
  by (simp add: strict_expiry_def create_default_config_def)

lemma anchor_without_config_open:
  "\<exists>s1 s2. bconfig_step (env_at 11 0, CfAnchor ''admin'' ''biz'' all_anchors) config_demo = Inr s1 \<and>
     bconfig_step (env_at 12 0, CfSet ''admin'' ''biz'' demo_policy (bcfg_integrations demo_config) strict_expiry
       (bcfg_custom_fees demo_config) (bcfg_compliance demo_config)) s1 = Inr s2 \<and>
     is_anchored KExpiry (get_anchor_config s1 ''biz'') \<and> get_expiry_config env s1 ''biz'' \<noteq> get_expiry_config env s2 ''biz''"
proof -
  have f: "validate_custom_fees (bcfg_custom_fees demo_config) = Inr ()"
    by (simp add: validate_custom_fees_def create_default_config_def)
  show ?thesis
    using strict_expiry_new
    by (auto simp: config_demo_is set_anchor_config_def config_require_admin_def Let_def set_business_config_def demo_policy_valid f
        get_expiry_config_def get_business_config_or_default_def validate_schema_version_def default_config_ok all_anchors_def
        get_anchor_config_def get_anchor_config_internal_def)
qed

definition config_demo2 :: config_state where
  "config_demo2 = run bconfig_step [(env_at 11 0, CfUpdate ''admin'' ''biz'' (SecExpiry strict_expiry))] config_demo"

lemma config_demo2_step: "bconfig_step (env_at 11 0, CfUpdate ''admin'' ''biz'' (SecExpiry strict_expiry)) config_demo = Inr
   (config_demo\<lparr>bcs_configs := [''biz'' \<mapsto> demo_config\<lparr>bcfg_expiry := strict_expiry, bcfg_version := 1, bcfg_updated_at := 11\<rparr>]\<rparr>)"
  by (simp add: config_demo_is update_expiry_config_def store_section_def config_require_admin_def get_anchor_config_internal_def
      no_anchors_def get_business_config_or_default_def validate_schema_version_def default_config_ok u32_max_def)
    (simp add: create_default_config_def)

lemma config_demo2_is: "config_demo2 =
   config_demo\<lparr>bcs_configs := [''biz'' \<mapsto> demo_config\<lparr>bcfg_expiry := strict_expiry, bcfg_version := 1, bcfg_updated_at := 11\<rparr>]\<rparr>"
  using config_demo2_step by (simp add: config_demo2_def)

lemma updated_config_names_contract: "bcs_configs config_demo2 ''biz'' \<noteq> None \<and>
   bcfg_business (the (bcs_configs config_demo2 ''biz'')) = ''CONTRACT''"
  by (simp add: config_demo2_is create_default_config_def)

section \<open>Witnesses\<close>

lemma config_demo2_reachable: "reachable (\<lambda>s. s = config_empty) bconfig_step config_demo2"
  unfolding config_demo2_def config_demo_def by (rule reachable_run, rule reachable_run, rule reachable_start) simp

lemma config_demo3_anchored: "is_anchored KExpiry (get_anchor_config
    (run bconfig_step [(env_at 12 0, CfAnchor ''admin'' ''biz'' all_anchors)] config_demo2) ''biz'')"
  "bcs_configs (run bconfig_step [(env_at 12 0, CfAnchor ''admin'' ''biz'' all_anchors)] config_demo2) ''biz'' =
     Some (demo_config\<lparr>bcfg_expiry := strict_expiry, bcfg_version := 1, bcfg_updated_at := 11\<rparr>)"
  by (simp_all add: exec_def config_defs config_demo2_is config_demo_is all_anchors_def no_anchors_def
      get_anchor_config_def get_anchor_config_internal_def Let_def)

lemma anchored_sections_frozen_witness:
  "\<exists>c'. bcs_configs (run bconfig_step [(env_at 13 0, CfUpdate ''admin'' ''biz'' (SecExpiry (bcfg_expiry demo_config)))]
       (run bconfig_step [(env_at 12 0, CfAnchor ''admin'' ''biz'' all_anchors)] config_demo2)) ''biz'' = Some c' \<and>
     section_of KExpiry c' = SecExpiry strict_expiry \<and> 1 \<le> bcfg_version c'"
proof -
  let ?es = "[(env_at 13 0, CfUpdate ''admin'' ''biz'' (SecExpiry (bcfg_expiry demo_config)))]"
  obtain c' where c: "bcs_configs (run bconfig_step ?es
      (run bconfig_step [(env_at 12 0, CfAnchor ''admin'' ''biz'' all_anchors)] config_demo2)) ''biz'' = Some c'" "1 \<le> bcfg_version c'"
    and k: "section_of KExpiry c' = section_of KExpiry (demo_config\<lparr>bcfg_expiry := strict_expiry, bcfg_version := 1, bcfg_updated_at := 11\<rparr>)"
    using anchored_sections_frozen [OF config_demo3_anchored(2), of ?es] config_demo3_anchored(1)
    by (elim exE conjE) (rule that, assumption, simp_all del: section_of.simps)
  from k have "section_of KExpiry c' = SecExpiry strict_expiry" by simp
  with c show ?thesis by blast
qed

lemma config_always_readable_witness: "\<exists>c. get_config (env_at 20 0) config_demo2 ''other'' = Inr c"
  using config_always_readable [OF config_demo2_reachable] by blast

lemma section_update_exact_witness:
  "\<exists>s' c. bconfig_step (env_at 11 0, CfUpdate ''admin'' ''biz'' (SecExpiry strict_expiry)) config_demo = Inr s' \<and>
     get_config (env_at 12 0) s' ''biz'' = Inr c \<and> bcfg_expiry c = strict_expiry"
proof -
  have g: "get_config (env_at 11 0) config_demo ''biz'' = Inr demo_config"
    by (simp add: config_demo_is get_config_def get_business_config_or_default_def validate_schema_version_def default_config_ok)
  from section_update_exact [OF config_demo2_step g, of "env_at 12 0"] config_demo2_step show ?thesis by auto
qed

end
