(* ===== verification/Lender_Consumer.thy ===== *)
theory Lender_Consumer
  imports Attestation_Client
begin

text \<open>
  \<open>contracts/lender-consumer/src/lib.rs\<close>: revenues that lenders submit and the contract checks against an attestation,
  with the lenders' dispute and anomaly flags. The attestation contract and the access list are called through their
  client interfaces, \<open>C\<close> and \<open>L\<close>; \<open>'w\<close> is the ledger behind them. SHA-256 is a parameter.
\<close>

section \<open>State\<close>

definition REJECTION_VALID :: nat where "REJECTION_VALID = 0"
definition REJECTION_EXPIRED :: nat where "REJECTION_EXPIRED = 1"
definition REJECTION_REVOKED :: nat where "REJECTION_REVOKED = 2"
definition REJECTION_DISPUTED :: nat where "REJECTION_DISPUTED = 3"
definition REJECTION_NOT_FOUND :: nat where "REJECTION_NOT_FOUND = 4"
definition REJECTION_ROOT_MISMATCH :: nat where "REJECTION_ROOT_MISMATCH = 5"

record verification_result =
  vr_is_valid :: bool
  vr_rejection_reason :: nat
  vr_message :: sstring

record attestation_health =
  ah_exists :: bool
  ah_is_expired :: bool
  ah_is_revoked :: bool
  ah_is_disputed :: bool
  ah_has_revenue :: bool
  ah_has_anomaly :: bool

record consumer_state =
  lc_admin :: "address option"
  lc_core_address :: "address option"
  lc_access_list :: "address option"
  lc_verified_revenue :: "address \<times> sstring \<rightharpoonup> int"
  lc_dispute_status :: "address \<times> sstring \<rightharpoonup> bool"
  lc_anomaly :: "address \<times> sstring \<rightharpoonup> bool"

definition consumer_empty :: consumer_state where
  "consumer_empty = \<lparr>lc_admin = None, lc_core_address = None, lc_access_list = None, lc_verified_revenue = Map.empty,
     lc_dispute_status = Map.empty, lc_anomaly = Map.empty\<rparr>"

text \<open>\<open>LenderAccessListClient\<close>\<close>

type_synonym 'w access_client = "address \<Rightarrow> address \<Rightarrow> nat \<Rightarrow> 'w \<Rightarrow> (bool \<times> 'w) res"

section \<open>Roles\<close>

definition consumer_initialize :: "ledger_env \<Rightarrow> address \<Rightarrow> address \<Rightarrow> address \<Rightarrow> consumer_state \<Rightarrow> consumer_state res" where
  "consumer_initialize env admin core_address access_list s =
     bindr (assertr (lc_core_address s = None) ''already initialized'') (\<lambda>_.
     bindr (require_auth env admin) (\<lambda>_.
     Inr (s\<lparr>lc_admin := Some admin, lc_core_address := Some core_address, lc_access_list := Some access_list\<rparr>)))"

definition consumer_require_admin :: "ledger_env \<Rightarrow> address \<Rightarrow> consumer_state \<Rightarrow> unit res" where
  "consumer_require_admin env admin s =
     bindr (require_auth env admin) (\<lambda>_.
     bindr (expectr (lc_admin s) ''not initialized'') (\<lambda>stored.
     assertr (admin = stored) ''caller is not admin''))"

definition get_access_list :: "consumer_state \<Rightarrow> address res" where
  "get_access_list s = expectr (lc_access_list s) ''not initialized''"

definition require_lender_tier :: "'w access_client \<Rightarrow> ledger_env \<Rightarrow> address \<Rightarrow> nat \<Rightarrow> consumer_state \<Rightarrow> 'w \<Rightarrow> 'w res" where
  "require_lender_tier L env lender min_tier s w =
     bindr (require_auth env lender) (\<lambda>_.
     bindr (get_access_list s) (\<lambda>access_list.
     bindr (L access_list lender min_tier w) (\<lambda>(ok, w1).
     bindr (assertr ok ''lender not allowed'') (\<lambda>_. Inr w1))))"

definition set_access_list :: "ledger_env \<Rightarrow> address \<Rightarrow> address \<Rightarrow> consumer_state \<Rightarrow> consumer_state res" where
  "set_access_list env admin access_list s =
     bindr (consumer_require_admin env admin s) (\<lambda>_. Inr (s\<lparr>lc_access_list := Some access_list\<rparr>))"

definition get_access_list_address :: "consumer_state \<Rightarrow> address res" where
  "get_access_list_address s = get_access_list s"

definition get_core_address :: "consumer_state \<Rightarrow> address res" where
  "get_core_address s = expectr (lc_core_address s) ''not initialized''"

definition consumer_get_admin :: "consumer_state \<Rightarrow> address res" where
  "consumer_get_admin s = expectr (lc_admin s) ''not initialized''"

section \<open>Verification\<close>

definition get_dispute_status_internal :: "consumer_state \<Rightarrow> address \<Rightarrow> sstring \<Rightarrow> bool" where
  "get_dispute_status_internal s business period = unwrap_or (lc_dispute_status s (business, period)) False"

definition is_anomaly_internal :: "consumer_state \<Rightarrow> address \<Rightarrow> sstring \<Rightarrow> bool" where
  "is_anomaly_internal s business period = unwrap_or (lc_anomaly s (business, period)) False"

definition rejected :: "nat \<Rightarrow> sstring \<Rightarrow> verification_result" where
  "rejected reason message = \<lparr>vr_is_valid = False, vr_rejection_reason = reason, vr_message = message\<rparr>"

definition verify_with_safeguards_internal ::
  "'w att_client \<Rightarrow> consumer_state \<Rightarrow> address \<Rightarrow> sstring \<Rightarrow> bytesn \<Rightarrow> 'w \<Rightarrow> (verification_result \<times> 'w) res" where
  "verify_with_safeguards_internal C s business period merkle_root w =
     bindr (expectr (lc_core_address s) ''not initialized'') (\<lambda>core_addr.
     bindr (ac_get_attestation C core_addr business period w) (\<lambda>(attestation, w1).
     (case attestation of
        None \<Rightarrow> Inr (rejected REJECTION_NOT_FOUND ''attestation not found'', w1)
      | Some (stored_root, _) \<Rightarrow>
          bindr (ac_is_expired C core_addr business period w1) (\<lambda>(expired, w2).
          if expired then Inr (rejected REJECTION_EXPIRED ''attestation has expired'', w2)
          else
            bindr (ac_get_revocation_info C core_addr business period w2) (\<lambda>(info, w3).
            if info \<noteq> None then Inr (rejected REJECTION_REVOKED ''attestation has been revoked'', w3)
            else if get_dispute_status_internal s business period
            then Inr (rejected REJECTION_DISPUTED ''attestation is under dispute'', w3)
            else if stored_root \<noteq> merkle_root
            then Inr (rejected REJECTION_ROOT_MISMATCH ''merkle root mismatch'', w3)
            else Inr (\<lparr>vr_is_valid = True, vr_rejection_reason = REJECTION_VALID, vr_message = ''verification successful''\<rparr>, w3))))))"

text \<open>The public function repeats the body of the internal one after the check of the lender.\<close>

definition verify_with_safeguards ::
  "'w att_client \<Rightarrow> 'w access_client \<Rightarrow> ledger_env \<Rightarrow> address \<Rightarrow> address \<Rightarrow> sstring \<Rightarrow> bytesn \<Rightarrow> consumer_state \<Rightarrow> 'w \<Rightarrow>
   (verification_result \<times> 'w) res" where
  "verify_with_safeguards C L env lender business period merkle_root s w =
     bindr (require_lender_tier L env lender 1 s w) (\<lambda>w1.
     bindr (get_core_address s) (\<lambda>core_addr.
     bindr (ac_get_attestation C core_addr business period w1) (\<lambda>(attestation, w2).
     if attestation = None then Inr (rejected REJECTION_NOT_FOUND ''attestation not found'', w2)
     else
       bindr (ac_is_expired C core_addr business period w2) (\<lambda>(expired, w3).
       if expired then Inr (rejected REJECTION_EXPIRED ''attestation has expired'', w3)
       else
         bindr (ac_get_revocation_info C core_addr business period w3) (\<lambda>(info, w4).
         if info \<noteq> None then Inr (rejected REJECTION_REVOKED ''attestation has been revoked'', w4)
         else if get_dispute_status_internal s business period
         then Inr (rejected REJECTION_DISPUTED ''attestation is under dispute'', w4)
         else
           bindr (unwrapr attestation) (\<lambda>(stored_root, _).
           if stored_root \<noteq> merkle_root
           then Inr (rejected REJECTION_ROOT_MISMATCH ''merkle root mismatch'', w4)
           else Inr (\<lparr>vr_is_valid = True, vr_rejection_reason = REJECTION_VALID, vr_message = ''verification successful''\<rparr>, w4)))))))"

definition get_attestation_health ::
  "'w att_client \<Rightarrow> 'w access_client \<Rightarrow> ledger_env \<Rightarrow> address \<Rightarrow> address \<Rightarrow> sstring \<Rightarrow> consumer_state \<Rightarrow> 'w \<Rightarrow>
   (attestation_health \<times> 'w) res" where
  "get_attestation_health C L env lender business period s w =
     bindr (require_lender_tier L env lender 1 s w) (\<lambda>w1.
     bindr (get_core_address s) (\<lambda>core_addr.
     bindr (ac_get_attestation C core_addr business period w1) (\<lambda>(attestation, w2).
     (let ex = attestation \<noteq> None in
      bindr (if ex then ac_is_expired C core_addr business period w2 else Inr (False, w2)) (\<lambda>(expired, w3).
      bindr (if ex then bindr (ac_get_revocation_info C core_addr business period w3) (\<lambda>(info, w'). Inr (info \<noteq> None, w'))
             else Inr (False, w3)) (\<lambda>(revoked, w4).
      Inr (\<lparr>ah_exists = ex, ah_is_expired = expired, ah_is_revoked = revoked,
            ah_is_disputed = get_dispute_status_internal s business period,
            ah_has_revenue = lc_verified_revenue s (business, period) \<noteq> None,
            ah_has_anomaly = is_anomaly_internal s business period\<rparr>, w4)))))))"

section \<open>Revenue\<close>

text \<open>The end of both submissions: the revenue and its anomaly flag.\<close>

definition store_revenue :: "address \<Rightarrow> sstring \<Rightarrow> int \<Rightarrow> consumer_state \<Rightarrow> consumer_state" where
  "store_revenue business period revenue s =
     (let s1 = s\<lparr>lc_verified_revenue := (lc_verified_revenue s)((business, period) \<mapsto> revenue)\<rparr> in
      if revenue < 0 then s1\<lparr>lc_anomaly := (lc_anomaly s1)((business, period) \<mapsto> True)\<rparr>
      else s1\<lparr>lc_anomaly := (lc_anomaly s1)((business, period) \<mapsto> False)\<rparr>)"

definition rejection_panic :: "nat \<Rightarrow> string" where
  "rejection_panic reason =
     (if reason = REJECTION_EXPIRED then ''attestation has expired''
      else if reason = REJECTION_REVOKED then ''attestation has been revoked''
      else if reason = REJECTION_DISPUTED then ''attestation is under dispute''
      else if reason = REJECTION_NOT_FOUND then ''attestation not found''
      else if reason = REJECTION_ROOT_MISMATCH then ''Revenue data does not match the attested Merkle root in Core''
      else ''verification failed'')"

definition submit_revenue ::
  "'w att_client \<Rightarrow> 'w access_client \<Rightarrow> (byte list \<Rightarrow> bytesn) \<Rightarrow> ledger_env \<Rightarrow> address \<Rightarrow> address \<Rightarrow> sstring \<Rightarrow> int \<Rightarrow>
   consumer_state \<Rightarrow> 'w \<Rightarrow> (consumer_state \<times> 'w) res" where
  "submit_revenue C L sha env lender business period revenue s w =
     bindr (require_lender_tier L env lender 1 s w) (\<lambda>w1.
     (let calculated_root = sha (i128_be_bytes revenue) in
      bindr (verify_with_safeguards_internal C s business period calculated_root w1) (\<lambda>(result, w2).
      bindr (assertr (vr_is_valid result) (rejection_panic (vr_rejection_reason result))) (\<lambda>_.
      Inr (store_revenue business period revenue s, w2)))))"

definition submit_revenue_unchecked ::
  "'w att_client \<Rightarrow> 'w access_client \<Rightarrow> (byte list \<Rightarrow> bytesn) \<Rightarrow> ledger_env \<Rightarrow> address \<Rightarrow> address \<Rightarrow> sstring \<Rightarrow> int \<Rightarrow>
   consumer_state \<Rightarrow> 'w \<Rightarrow> (consumer_state \<times> 'w) res" where
  "submit_revenue_unchecked C L sha env lender business period revenue s w =
     bindr (require_lender_tier L env lender 1 s w) (\<lambda>w1.
     (let calculated_root = sha (i128_be_bytes revenue) in
      bindr (get_core_address s) (\<lambda>core_addr.
      bindr (ac_get_attestation C core_addr business period w1) (\<lambda>(attestation, w2).
      bindr (assertr (attestation \<noteq> None) ''attestation not found'') (\<lambda>_.
      bindr (unwrapr attestation) (\<lambda>(stored_root, _).
      bindr (assertr (stored_root = calculated_root) ''Revenue data does not match the attested Merkle root in Core'') (\<lambda>_.
      Inr (store_revenue business period revenue s, w2))))))))"

definition get_revenue ::
  "'w access_client \<Rightarrow> ledger_env \<Rightarrow> address \<Rightarrow> address \<Rightarrow> sstring \<Rightarrow> consumer_state \<Rightarrow> 'w \<Rightarrow> (int option \<times> 'w) res" where
  "get_revenue L env lender business period s w =
     bindr (require_lender_tier L env lender 1 s w) (\<lambda>w1. Inr (lc_verified_revenue s (business, period), w1))"

fun trailing_loop :: "consumer_state \<Rightarrow> address \<Rightarrow> int \<Rightarrow> sstring list \<Rightarrow> int res" where
  "trailing_loop s business acc [] = Inr acc"
| "trailing_loop s business acc (period # periods) =
     (let rev = unwrap_or (lc_verified_revenue s (business, period)) 0 in
      bindr (i128_chk (acc + rev)) (\<lambda>acc'. trailing_loop s business acc' periods))"

definition get_trailing_revenue ::
  "'w access_client \<Rightarrow> ledger_env \<Rightarrow> address \<Rightarrow> address \<Rightarrow> sstring list \<Rightarrow> consumer_state \<Rightarrow> 'w \<Rightarrow> (int \<times> 'w) res" where
  "get_trailing_revenue L env lender business periods s w =
     bindr (require_lender_tier L env lender 1 s w) (\<lambda>w1.
     bindr (trailing_loop s business 0 periods) (\<lambda>t. Inr (t, w1)))"

section \<open>Flags\<close>

definition consumer_is_anomaly ::
  "'w access_client \<Rightarrow> ledger_env \<Rightarrow> address \<Rightarrow> address \<Rightarrow> sstring \<Rightarrow> consumer_state \<Rightarrow> 'w \<Rightarrow> (bool \<times> 'w) res" where
  "consumer_is_anomaly L env lender business period s w =
     bindr (require_lender_tier L env lender 1 s w) (\<lambda>w1. Inr (is_anomaly_internal s business period, w1))"

definition set_dispute ::
  "'w access_client \<Rightarrow> ledger_env \<Rightarrow> address \<Rightarrow> address \<Rightarrow> sstring \<Rightarrow> bool \<Rightarrow> consumer_state \<Rightarrow> 'w \<Rightarrow> (consumer_state \<times> 'w) res" where
  "set_dispute L env lender business period is_disputed s w =
     bindr (require_lender_tier L env lender 2 s w) (\<lambda>w1.
     Inr (s\<lparr>lc_dispute_status := (lc_dispute_status s)((business, period) \<mapsto> is_disputed)\<rparr>, w1))"

definition consumer_get_dispute_status ::
  "'w access_client \<Rightarrow> ledger_env \<Rightarrow> address \<Rightarrow> address \<Rightarrow> sstring \<Rightarrow> consumer_state \<Rightarrow> 'w \<Rightarrow> (bool \<times> 'w) res" where
  "consumer_get_dispute_status L env lender business period s w =
     bindr (require_lender_tier L env lender 1 s w) (\<lambda>w1. Inr (get_dispute_status_internal s business period, w1))"

definition clear_anomaly :: "ledger_env \<Rightarrow> address \<Rightarrow> address \<Rightarrow> sstring \<Rightarrow> consumer_state \<Rightarrow> consumer_state res" where
  "clear_anomaly env admin business period s =
     bindr (consumer_require_admin env admin s) (\<lambda>_.
     Inr (s\<lparr>lc_anomaly := (lc_anomaly s)((business, period) \<mapsto> False)\<rparr>))"

section \<open>The machine\<close>

text \<open>Between the contract's calls the ledger behind the clients moves on its own: \<open>LcOther f\<close> is what happens there.\<close>

datatype 'w consumer_call =
    LcInit address address address
  | LcSetList address address
  | LcSubmit address address sstring int
  | LcUnchecked address address sstring int
  | LcDispute address address sstring bool
  | LcClear address address sstring
  | LcOther "'w \<Rightarrow> 'w"

fun consumer_step ::
  "'w att_client \<Rightarrow> 'w access_client \<Rightarrow> (byte list \<Rightarrow> bytesn) \<Rightarrow> ledger_env \<times> 'w consumer_call \<Rightarrow> consumer_state \<times> 'w \<Rightarrow>
   (consumer_state \<times> 'w) res" where
  "consumer_step C L sha (env, LcInit a c l) (s, w) = bindr (consumer_initialize env a c l s) (\<lambda>s'. Inr (s', w))"
| "consumer_step C L sha (env, LcSetList a l) (s, w) = bindr (set_access_list env a l s) (\<lambda>s'. Inr (s', w))"
| "consumer_step C L sha (env, LcSubmit l b p r) (s, w) = submit_revenue C L sha env l b p r s w"
| "consumer_step C L sha (env, LcUnchecked l b p r) (s, w) = submit_revenue_unchecked C L sha env l b p r s w"
| "consumer_step C L sha (env, LcDispute l b p d) (s, w) = set_dispute L env l b p d s w"
| "consumer_step C L sha (env, LcClear a b p) (s, w) = bindr (clear_anomaly env a b p s) (\<lambda>s'. Inr (s', w))"
| "consumer_step C L sha (env, LcOther f) (s, w) = Inr (s, f w)"

section \<open>Case lemmas\<close>

lemma require_lender_tier_Inr:
  "require_lender_tier L env lender k s w = Inr w1 \<longleftrightarrow>
     authorized env lender \<and> (\<exists>a. lc_access_list s = Some a \<and> L a lender k w = Inr (True, w1))"
  by (auto simp: require_lender_tier_def get_access_list_def)

lemma store_revenue_fields [simp]:
  "lc_verified_revenue (store_revenue b p r s) = (lc_verified_revenue s)((b, p) \<mapsto> r)"
  "lc_anomaly (store_revenue b p r s) = (lc_anomaly s)((b, p) \<mapsto> r < 0)"
  "lc_dispute_status (store_revenue b p r s) = lc_dispute_status s"
  by (simp_all add: store_revenue_def Let_def)

lemma verify_internal_valid:
  "verify_with_safeguards_internal C s b p root w = Inr (v, w') \<and> vr_is_valid v \<longleftrightarrow>
     (\<exists>c rest w1 w2. lc_core_address s = Some c \<and> ac_get_attestation C c b p w = Inr (Some (root, rest), w1) \<and>
        ac_is_expired C c b p w1 = Inr (False, w2) \<and> ac_get_revocation_info C c b p w2 = Inr (None, w') \<and>
        \<not> get_dispute_status_internal s b p \<and>
        v = \<lparr>vr_is_valid = True, vr_rejection_reason = REJECTION_VALID, vr_message = ''verification successful''\<rparr>)"
  (is "?l \<longleftrightarrow> ?r")
proof
  show "?l \<Longrightarrow> ?r"
    by (auto simp: verify_with_safeguards_internal_def rejected_def split: option.splits prod.splits if_splits)
  show "?r \<Longrightarrow> ?l"
    by (elim exE conjE) (simp add: verify_with_safeguards_internal_def case_prod_beta)
qed

lemma verify_internal_reason:
  "verify_with_safeguards_internal C s b p root w = Inr (v, w') \<Longrightarrow> vr_is_valid v \<longleftrightarrow> vr_rejection_reason v = REJECTION_VALID"
  by (auto simp: verify_with_safeguards_internal_def rejected_def REJECTION_VALID_def REJECTION_NOT_FOUND_def REJECTION_EXPIRED_def
      REJECTION_REVOKED_def REJECTION_DISPUTED_def REJECTION_ROOT_MISMATCH_def split: option.splits prod.splits if_splits)

lemma verify_public:
  "verify_with_safeguards C L env l b p root s w =
     bindr (require_lender_tier L env l 1 s w) (verify_with_safeguards_internal C s b p root)"
  unfolding verify_with_safeguards_def verify_with_safeguards_internal_def get_core_address_def
  by (rule arg_cong [where f = "bindr _"], rule ext, rule arg_cong [where f = "bindr _"], rule ext,
      rule arg_cong [where f = "bindr _"], rule ext)
    (auto split: option.splits prod.splits cong: if_cong)

lemma submit_revenue_Inr:
  "submit_revenue C L sha env l b p r s w = Inr (s', w') \<longleftrightarrow>
     (\<exists>w1 v. require_lender_tier L env l 1 s w = Inr w1 \<and>
        verify_with_safeguards_internal C s b p (sha (i128_be_bytes r)) w1 = Inr (v, w') \<and> vr_is_valid v \<and>
        s' = store_revenue b p r s)"
  by (auto simp: submit_revenue_def Let_def)

lemma submit_unchecked_Inr:
  "submit_revenue_unchecked C L sha env l b p r s w = Inr (s', w') \<longleftrightarrow>
     (\<exists>w1 c rest. require_lender_tier L env l 1 s w = Inr w1 \<and> lc_core_address s = Some c \<and>
        ac_get_attestation C c b p w1 = Inr (Some (sha (i128_be_bytes r), rest), w') \<and> s' = store_revenue b p r s)"
  by (auto simp: submit_revenue_unchecked_def Let_def get_core_address_def)

lemma trailing_loop_sum:
  "trailing_loop s b acc ps = sum_chk acc (map (\<lambda>p. unwrap_or (lc_verified_revenue s (b, p)) 0) ps)"
  by (induction ps arbitrary: acc) (simp_all add: Let_def)

section \<open>What the contract promises\<close>

text \<open>
  A submission goes through exactly when the public verification accepts the hash of the revenue, for the same
  lender and at the same moment, and then it stores the revenue with its anomaly flag and leaves everything else.
\<close>

theorem submission_accepts_verified:
  "submit_revenue C L sha env l b p r s w = Inr (s', w') \<longleftrightarrow>
     (\<exists>v. verify_with_safeguards C L env l b p (sha (i128_be_bytes r)) s w = Inr (v, w') \<and> vr_rejection_reason v = REJECTION_VALID \<and>
        s' = s\<lparr>lc_verified_revenue := (lc_verified_revenue s)((b, p) \<mapsto> r), lc_anomaly := (lc_anomaly s)((b, p) \<mapsto> r < 0)\<rparr>)"
proof -
  have "store_revenue b p r s = s\<lparr>lc_verified_revenue := (lc_verified_revenue s)((b, p) \<mapsto> r), lc_anomaly := (lc_anomaly s)((b, p) \<mapsto> r < 0)\<rparr>"
    by (simp add: store_revenue_def Let_def)
  then show ?thesis
    unfolding submit_revenue_Inr verify_public using verify_internal_reason [of C s b p "sha (i128_be_bytes r)"] by auto
qed

text \<open>
  C36. Every recorded revenue was attested. If at the end of a history that starts from the empty contract a revenue is
  recorded for a business and a period, some call of the history submitted it: its lender had authorized the call, the
  access list admitted the lender, and the attestation contract held an attestation with the hash of the
  revenue as its root. The revenue is recorded ever since.
\<close>

theorem recorded_revenue_attested:
  assumes "lc_verified_revenue (fst (run (consumer_step C L sha) es (consumer_empty, w0))) (b, p) = Some r"
  shows "\<exists>pre post env c l s w a k w1 w2 rest. es = pre @ (env, c) # post \<and> c \<in> {LcSubmit l b p r, LcUnchecked l b p r} \<and>
    run (consumer_step C L sha) pre (consumer_empty, w0) = (s, w) \<and> authorized env l \<and>
    lc_access_list s = Some a \<and> L a l 1 w = Inr (True, w1) \<and>
    lc_core_address s = Some k \<and> ac_get_attestation C k b p w1 = Inr (Some (sha (i128_be_bytes r), rest), w2)"
proof -
  let ?Q = "\<lambda>x :: consumer_state \<times> 'a. lc_verified_revenue (fst x) (b, p) = Some r"
  have "\<not> ?Q (consumer_empty, w0)" by (simp add: consumer_empty_def)
  from run_becomes [of ?Q, OF assms this] obtain pre e post t where
    e: "es = pre @ e # post" "\<not> ?Q (run (consumer_step C L sha) pre (consumer_empty, w0))"
      "consumer_step C L sha e (run (consumer_step C L sha) pre (consumer_empty, w0)) = Inr t" "?Q t" by blast
  obtain s w where sw: "run (consumer_step C L sha) pre (consumer_empty, w0) = (s, w)" by (meson surj_pair)
  obtain env c where ec: "e = (env, c)" by (cases e)
  obtain s' w' where t: "t = (s', w')" by (cases t)
  from e(3) have st: "consumer_step C L sha (env, c) (s, w) = Inr (s', w')" by (simp add: ec sw t)
  have new: "lc_verified_revenue s (b, p) \<noteq> Some r" "lc_verified_revenue s' (b, p) = Some r" using e(2,4) by (simp_all add: sw t)
  have "\<exists>l a k w1 w2 rest. c \<in> {LcSubmit l b p r, LcUnchecked l b p r} \<and> authorized env l \<and>
    lc_access_list s = Some a \<and> L a l 1 w = Inr (True, w1) \<and>
    lc_core_address s = Some k \<and> ac_get_attestation C k b p w1 = Inr (Some (sha (i128_be_bytes r), rest), w2)"
  proof (cases c)
    case (LcSubmit l b' p' r')
    with st obtain w1 v where 1: "require_lender_tier L env l 1 s w = Inr w1"
      and 2: "verify_with_safeguards_internal C s b' p' (sha (i128_be_bytes r')) w1 = Inr (v, w')" "vr_is_valid v"
      and s': "s' = store_revenue b' p' r' s" by (auto simp: submit_revenue_Inr)
    from new s' have "b' = b" "p' = p" "r' = r" by (auto split: if_splits)
    with 1 2 LcSubmit show ?thesis
      using verify_internal_valid [of C s b p "sha (i128_be_bytes r)" w1 v w'] by (auto simp: require_lender_tier_Inr)
  next
    case (LcUnchecked l b' p' r')
    with st obtain w1 k rest where 1: "require_lender_tier L env l 1 s w = Inr w1"
      and 2: "lc_core_address s = Some k" "ac_get_attestation C k b' p' w1 = Inr (Some (sha (i128_be_bytes r'), rest), w')"
      and s': "s' = store_revenue b' p' r' s" by (auto simp: submit_unchecked_Inr)
    from new s' have "b' = b" "p' = p" "r' = r" by (auto split: if_splits)
    with 1 2 LcUnchecked show ?thesis by (cases rest) (auto simp: require_lender_tier_Inr)
  qed (use st new in \<open>auto simp: consumer_initialize_def set_access_list_def set_dispute_def clear_anomaly_def\<close>)
  with e(1) ec sw show ?thesis by blast
qed

text \<open>
  The trailing revenue is the sum of the recorded revenues of the listed periods, a missing period counting as
  zero and a repeated one as often as it is listed; the query changes nothing, and no revenues that add up below
  the limit of \<open>i128\<close> without a negative one among them make it fail.
\<close>

theorem trailing_revenue_sums:
  assumes "require_lender_tier L env l 1 s w = Inr w1"
  shows "(\<forall>t w'. get_trailing_revenue L env l b ps s w = Inr (t, w') \<longrightarrow>
      w' = w1 \<and> t = (\<Sum>p\<leftarrow>ps. unwrap_or (lc_verified_revenue s (b, p)) 0)) \<and>
    ((\<forall>p\<in>set ps. 0 \<le> unwrap_or (lc_verified_revenue s (b, p)) 0) \<and>
     (\<Sum>p\<leftarrow>ps. unwrap_or (lc_verified_revenue s (b, p)) 0) \<le> i128_max \<longrightarrow>
       (\<exists>t. get_trailing_revenue L env l b ps s w = Inr (t, w1)))"
proof (intro conjI allI impI)
  fix t w' assume "get_trailing_revenue L env l b ps s w = Inr (t, w')"
  with assms have "w' = w1" "sum_chk 0 (map (\<lambda>p. unwrap_or (lc_verified_revenue s (b, p)) 0) ps) = Inr t"
    by (auto simp: get_trailing_revenue_def trailing_loop_sum)
  with sum_chk_Inr show "w' = w1" "t = (\<Sum>p\<leftarrow>ps. unwrap_or (lc_verified_revenue s (b, p)) 0)" by fastforce+
next
  assume "(\<forall>p\<in>set ps. 0 \<le> unwrap_or (lc_verified_revenue s (b, p)) 0) \<and>
     (\<Sum>p\<leftarrow>ps. unwrap_or (lc_verified_revenue s (b, p)) 0) \<le> i128_max"
  then have "sum_chk 0 (map (\<lambda>p. unwrap_or (lc_verified_revenue s (b, p)) 0) ps) =
      Inr (0 + (\<Sum>p\<leftarrow>ps. unwrap_or (lc_verified_revenue s (b, p)) 0))"
    by (intro sum_chk_total) auto
  with assms show "\<exists>t. get_trailing_revenue L env l b ps s w = Inr (t, w1)"
    by (auto simp: get_trailing_revenue_def trailing_loop_sum)
qed

text \<open>Any lender of the second tier clears the dispute of another, and the administrator cannot.\<close>

lemma other_lender_clears_dispute:
  assumes "lc_access_list s = Some a" and "L a l2 2 w = Inr (True, w')" and "authorized env l2"
  shows "\<exists>s'. set_dispute L env l2 b p False s w = Inr (s', w') \<and> \<not> get_dispute_status_internal s' b p"
  using assms by (simp add: set_dispute_def require_lender_tier_def get_access_list_def get_dispute_status_internal_def)

section \<open>Witnesses\<close>

definition any_lender :: "unit access_client" where "any_lender a l k w = Inr (True, w)"

definition const_sha :: "byte list \<Rightarrow> bytesn" where "const_sha b = BytesN b"

abbreviation "demo_client \<equiv> client_of (const_sha (i128_be_bytes 500), 9, 2, 0, None, None) :: unit att_client"

definition revenue_demo :: "consumer_state \<times> unit" where
  "revenue_demo = run (consumer_step demo_client any_lender const_sha)
     [(env_at 0 0, LcInit ''admin'' ''core'' ''list''), (env_at 5 5, LcSubmit ''lender'' ''biz'' ''2026-01'' 500)] (consumer_empty, ())"

lemma demo_submit: "submit_revenue demo_client any_lender const_sha (env_at 5 5) ''lender'' ''biz'' ''2026-01'' 500
     (consumer_empty\<lparr>lc_admin := Some ''admin'', lc_core_address := Some ''core'', lc_access_list := Some ''list''\<rparr>) () =
   Inr (store_revenue ''biz'' ''2026-01'' 500
     (consumer_empty\<lparr>lc_admin := Some ''admin'', lc_core_address := Some ''core'', lc_access_list := Some ''list''\<rparr>), ())"
  by (subst submit_revenue_Inr, subst require_lender_tier_Inr)
    (simp add: any_lender_def verify_with_safeguards_internal_def get_dispute_status_internal_def consumer_empty_def)

lemma revenue_demo_eq: "revenue_demo = (store_revenue ''biz'' ''2026-01'' 500
     (consumer_empty\<lparr>lc_admin := Some ''admin'', lc_core_address := Some ''core'', lc_access_list := Some ''list''\<rparr>), ())"
proof -
  have "consumer_step demo_client any_lender const_sha (env_at 0 0, LcInit ''admin'' ''core'' ''list'') (consumer_empty, ()) =
     Inr (consumer_empty\<lparr>lc_admin := Some ''admin'', lc_core_address := Some ''core'', lc_access_list := Some ''list''\<rparr>, ())"
    by (simp add: consumer_initialize_def consumer_empty_def)
  then show ?thesis by (simp add: revenue_demo_def demo_submit)
qed

lemma revenue_demo_is: "lc_verified_revenue (fst revenue_demo) (''biz'', ''2026-01'') = Some 500"
  "lc_access_list (fst revenue_demo) = Some ''list''"
  by (simp add: revenue_demo_eq) (simp add: revenue_demo_eq store_revenue_def)

lemma recorded_revenue_attested_witness:
  "\<exists>(env :: ledger_env) c l. c \<in> {LcSubmit l ''biz'' ''2026-01'' 500, LcUnchecked l ''biz'' ''2026-01'' 500 :: unit consumer_call} \<and> authorized env l"
  using recorded_revenue_attested [OF revenue_demo_is(1) [unfolded revenue_demo_def]]
  by (elim exE conjE) (intro exI conjI, assumption+)

lemma trailing_revenue_sums_witness:
  "get_trailing_revenue any_lender (env_at 6 6) ''lender'' ''biz'' [''2026-01'', ''2026-02''] (fst revenue_demo) () = Inr (500, ()) \<or>
   lc_verified_revenue (fst revenue_demo) (''biz'', ''2026-02'') \<noteq> None"
proof -
  have "require_lender_tier any_lender (env_at 6 6) ''lender'' 1 (fst revenue_demo) () = Inr ()"
    by (simp add: require_lender_tier_def get_access_list_def revenue_demo_is any_lender_def)
  from trailing_revenue_sums [OF this, of "''biz''" "[''2026-01'', ''2026-02'']"] show ?thesis
    by (cases "lc_verified_revenue (fst revenue_demo) (''biz'', ''2026-02'')") (fastforce simp: revenue_demo_is i128_max_def)+
qed

end
