(* ===== verification/Network_Config.thy ===== *)
theory Network_Config
  imports Prelude
begin

unbundle bit_operations_syntax

text \<open>
  \<open>contracts/network-config/src/lib.rs\<close>: the parameters of the networks the contracts are deployed on, with roles,
  versions and an implementation that can be upgraded and rolled back. The helpers that no entry point calls
  (assets, the pause flag, the operator role) are modelled with the others. Events are output only.
\<close>

section \<open>State\<close>

type_synonym network_id = nat

definition NET_ROLE_ADMIN :: "32 word" where "NET_ROLE_ADMIN = 1"
definition NET_ROLE_GOVERNANCE :: "32 word" where "NET_ROLE_GOVERNANCE = 2"
definition NET_ROLE_OPERATOR :: "32 word" where "NET_ROLE_OPERATOR = 4"

record fee_policy =
  fp_fee_token :: address
  fp_fee_collector :: address
  fp_base_fee :: int
  fp_enabled :: bool
  fp_max_fee :: int
  fp_min_fee :: int

record asset_config =
  ast_asset_address :: address
  ast_asset_code :: sstring
  ast_decimals :: nat
  ast_is_active :: bool
  ast_max_attestation_value :: int

record contract_registry =
  cr_attestation_contract :: address
  cr_revenue_stream_contract :: address
  cr_audit_log_contract :: address
  cr_agg_attestations_contract :: address
  cr_integration_registry_contract :: address
  cr_attestation_snapshot_contract :: address
  cr_has_attestation :: bool
  cr_has_revenue_stream :: bool
  cr_has_audit_log :: bool
  cr_has_aggregated_attestations :: bool
  cr_has_integration_registry :: bool
  cr_has_attestation_snapshot :: bool

record network_config =
  nw_name :: sstring
  nw_network_passphrase :: sstring
  nw_is_active :: bool
  nw_fee_policy :: fee_policy
  nw_contracts :: contract_registry
  nw_block_time_seconds :: nat
  nw_min_attestations_for_aggregate :: nat
  nw_dispute_timeout_seconds :: nat
  nw_max_period_length_seconds :: nat
  nw_created_at :: nat
  nw_updated_at :: nat

record net_state =
  nt_initialized :: "bool option"
  nt_current_implementation :: "address option"
  nt_current_version :: "nat option"
  nt_previous_implementation :: "address option"
  nt_previous_version :: "nat option"
  nt_admin :: "address option"
  nt_governance_dao :: "address option"
  nt_paused :: "bool option"
  nt_network_config :: "network_id \<rightharpoonup> network_config"
  nt_registered_networks :: "network_id list option"
  nt_default_network :: "network_id option"
  nt_role :: "address \<rightharpoonup> 32 word"
  nt_role_holders :: "address list option"
  nt_network_version :: "network_id \<rightharpoonup> nat"
  nt_global_version :: "nat option"
  nt_asset_config :: "network_id \<times> address \<rightharpoonup> asset_config"
  nt_asset_addresses :: "network_id \<rightharpoonup> address list"

definition net_empty :: net_state where
  "net_empty = \<lparr>nt_initialized = None, nt_current_implementation = None, nt_current_version = None, nt_previous_implementation = None,
     nt_previous_version = None, nt_admin = None, nt_governance_dao = None, nt_paused = None, nt_network_config = Map.empty,
     nt_registered_networks = None, nt_default_network = None, nt_role = Map.empty, nt_role_holders = None,
     nt_network_version = Map.empty, nt_global_version = None, nt_asset_config = Map.empty, nt_asset_addresses = Map.empty\<rparr>"

section \<open>Access control\<close>

definition net_get_roles :: "net_state \<Rightarrow> address \<Rightarrow> 32 word" where
  "net_get_roles s account = unwrap_or (nt_role s account) 0"

definition net_has_role :: "net_state \<Rightarrow> address \<Rightarrow> 32 word \<Rightarrow> bool" where
  "net_has_role s account role \<longleftrightarrow> net_get_roles s account AND role \<noteq> 0"

definition net_grant_role :: "net_state \<Rightarrow> address \<Rightarrow> 32 word \<Rightarrow> net_state" where
  "net_grant_role s account role =
     (let roles = net_get_roles s account OR role;
          s1 = s\<lparr>nt_role := (nt_role s)(account \<mapsto> roles)\<rparr>;
          holders = unwrap_or (nt_role_holders s1) [] in
      if account \<notin> set holders then s1\<lparr>nt_role_holders := Some (holders @ [account])\<rparr> else s1)"

text \<open>\<open>position\<close> and \<open>remove\<close>: the first occurrence goes.\<close>

definition net_revoke_role :: "net_state \<Rightarrow> address \<Rightarrow> 32 word \<Rightarrow> net_state" where
  "net_revoke_role s account role =
     (let roles = net_get_roles s account AND NOT role;
          s1 = s\<lparr>nt_role := (nt_role s)(account \<mapsto> roles)\<rparr> in
      if roles = 0 then
        (let holders = unwrap_or (nt_role_holders s1) [] in
         if account \<in> set holders then s1\<lparr>nt_role_holders := Some (remove1 account holders)\<rparr> else s1)
      else s1)"

definition net_get_role_holders :: "net_state \<Rightarrow> address list" where
  "net_get_role_holders s = unwrap_or (nt_role_holders s) []"

definition net_require_admin :: "ledger_env \<Rightarrow> address \<Rightarrow> net_state \<Rightarrow> unit res" where
  "net_require_admin env account s =
     bindr (assertr (net_has_role s account NET_ROLE_ADMIN) ''not admin'') (\<lambda>_. require_auth env account)"

definition net_require_governance :: "ledger_env \<Rightarrow> address \<Rightarrow> net_state \<Rightarrow> unit res" where
  "net_require_governance env account s =
     (let roles = net_get_roles s account in
      bindr (assertr (roles AND (NET_ROLE_ADMIN OR NET_ROLE_GOVERNANCE) \<noteq> 0) ''not gov'') (\<lambda>_. require_auth env account))"

definition net_require_operator :: "ledger_env \<Rightarrow> address \<Rightarrow> net_state \<Rightarrow> unit res" where
  "net_require_operator env account s =
     (let roles = net_get_roles s account in
      bindr (assertr (roles AND (NET_ROLE_ADMIN OR NET_ROLE_GOVERNANCE OR NET_ROLE_OPERATOR) \<noteq> 0) ''not op'') (\<lambda>_.
      require_auth env account))"

definition net_is_paused :: "net_state \<Rightarrow> bool" where "net_is_paused s = unwrap_or (nt_paused s) False"
definition net_set_paused :: "bool \<Rightarrow> net_state \<Rightarrow> net_state" where "net_set_paused paused s = s\<lparr>nt_paused := Some paused\<rparr>"

section \<open>Storage\<close>

definition net_is_initialized :: "net_state \<Rightarrow> bool" where "net_is_initialized s \<longleftrightarrow> nt_initialized s \<noteq> None"

definition store_network_config :: "network_id \<Rightarrow> network_config \<Rightarrow> net_state \<Rightarrow> net_state res" where
  "store_network_config network_id config s =
     (let version = unwrap_or (nt_network_version s network_id) 0 in
      bindr (u32_chk (version + 1)) (\<lambda>version'.
      (let s1 = s\<lparr>nt_network_config := (nt_network_config s)(network_id \<mapsto> config),
                  nt_network_version := (nt_network_version s)(network_id \<mapsto> version')\<rparr>;
           networks = unwrap_or (nt_registered_networks s1) [] in
       Inr (if network_id \<notin> set networks then s1\<lparr>nt_registered_networks := Some (networks @ [network_id])\<rparr> else s1))))"

definition get_network_config :: "net_state \<Rightarrow> network_id \<Rightarrow> network_config option" where
  "get_network_config s network_id = nt_network_config s network_id"

definition is_registered_network :: "net_state \<Rightarrow> network_id \<Rightarrow> bool" where
  "is_registered_network s network_id \<longleftrightarrow> nt_network_config s network_id \<noteq> None"

definition get_registered_networks :: "net_state \<Rightarrow> network_id list" where
  "get_registered_networks s = unwrap_or (nt_registered_networks s) []"

definition get_default_network :: "net_state \<Rightarrow> network_id option" where "get_default_network s = nt_default_network s"

definition get_network_version :: "net_state \<Rightarrow> network_id \<Rightarrow> nat" where
  "get_network_version s network_id = unwrap_or (nt_network_version s network_id) 0"

definition increment_global_version :: "net_state \<Rightarrow> net_state res" where
  "increment_global_version s =
     bindr (u32_chk (unwrap_or (nt_global_version s) 0 + 1)) (\<lambda>new_version. Inr (s\<lparr>nt_global_version := Some new_version\<rparr>))"

definition get_global_version :: "net_state \<Rightarrow> nat" where "get_global_version s = unwrap_or (nt_global_version s) 0"

definition add_asset :: "network_id \<Rightarrow> asset_config \<Rightarrow> net_state \<Rightarrow> net_state" where
  "add_asset network_id config s =
     (let s1 = s\<lparr>nt_asset_config := (nt_asset_config s)((network_id, ast_asset_address config) \<mapsto> config)\<rparr>;
          assets = unwrap_or (nt_asset_addresses s1 network_id) [] in
      if ast_asset_address config \<notin> set assets
      then s1\<lparr>nt_asset_addresses := (nt_asset_addresses s1)(network_id \<mapsto> assets @ [ast_asset_address config])\<rparr> else s1)"

definition remove_asset :: "network_id \<Rightarrow> address \<Rightarrow> net_state \<Rightarrow> net_state" where
  "remove_asset network_id addr s =
     (let s1 = s\<lparr>nt_asset_config := (nt_asset_config s)((network_id, addr) := None)\<rparr>;
          assets = unwrap_or (nt_asset_addresses s1 network_id) [] in
      if addr \<in> set assets
      then s1\<lparr>nt_asset_addresses := (nt_asset_addresses s1)(network_id \<mapsto> remove1 addr assets)\<rparr> else s1)"

definition get_asset_config :: "net_state \<Rightarrow> network_id \<Rightarrow> address \<Rightarrow> asset_config option" where
  "get_asset_config s network_id addr = nt_asset_config s (network_id, addr)"

definition get_network_assets :: "net_state \<Rightarrow> network_id \<Rightarrow> address list" where
  "get_network_assets s network_id = unwrap_or (nt_asset_addresses s network_id) []"

section \<open>Validation\<close>

definition validate_network_config :: "network_config \<Rightarrow> unit res" where
  "validate_network_config config =
     bindr (assertr (nw_name config \<noteq> []) ''empty name'') (\<lambda>_.
     bindr (assertr (nw_network_passphrase config \<noteq> []) ''empty passphrase'') (\<lambda>_.
     bindr (assertr (0 \<le> fp_base_fee (nw_fee_policy config)) ''invalid base fee'') (\<lambda>_.
     assertr (0 < nw_block_time_seconds config \<and> nw_block_time_seconds config \<le> 3600) ''invalid block time'')))"

definition validate_asset_config :: "asset_config \<Rightarrow> unit res" where
  "validate_asset_config config =
     bindr (assertr (ast_asset_code config \<noteq> []) ''empty asset code'') (\<lambda>_.
     assertr (ast_decimals config \<le> 18) ''invalid decimals'')"

definition validate_fee_policy :: "fee_policy \<Rightarrow> unit res" where
  "validate_fee_policy policy =
     bindr (assertr (0 \<le> fp_base_fee policy) ''invalid base fee'') (\<lambda>_.
     assertr (0 \<le> fp_min_fee policy) ''invalid min fee'')"

section \<open>Entry points\<close>

definition net_initialize :: "ledger_env \<Rightarrow> address \<Rightarrow> address option \<Rightarrow> net_state \<Rightarrow> net_state res" where
  "net_initialize env admin governance_dao s =
     bindr (assertr (\<not> net_is_initialized s) ''already init'') (\<lambda>_.
     bindr (require_auth env admin) (\<lambda>_.
     (let s1 = net_grant_role (s\<lparr>nt_initialized := Some True, nt_admin := Some admin\<rparr>) admin NET_ROLE_ADMIN;
          s2 = (case governance_dao of
                  Some dao \<Rightarrow> net_grant_role (s1\<lparr>nt_governance_dao := Some dao\<rparr>) dao NET_ROLE_GOVERNANCE
                | None \<Rightarrow> s1) in
      Inr (s2\<lparr>nt_default_network := Some 0\<rparr>))))"

definition net_upgrade :: "ledger_env \<Rightarrow> address \<Rightarrow> address \<Rightarrow> nat \<Rightarrow> net_state \<Rightarrow> net_state res" where
  "net_upgrade env caller new_impl new_version s =
     bindr (assertr (net_is_initialized s) ''not init'') (\<lambda>_.
     bindr (net_require_governance env caller s) (\<lambda>_.
     (let current_version = unwrap_or (nt_current_version s) 0 in
      bindr (assertr (\<not> new_version \<le> current_version) ''bad version'') (\<lambda>_.
      (let s1 = (case nt_current_implementation s of
                   Some old \<Rightarrow> s\<lparr>nt_previous_implementation := Some old, nt_previous_version := Some current_version\<rparr>
                 | None \<Rightarrow> s) in
       Inr (s1\<lparr>nt_current_implementation := Some new_impl, nt_current_version := Some new_version\<rparr>))))))"

definition net_rollback :: "ledger_env \<Rightarrow> address \<Rightarrow> net_state \<Rightarrow> net_state res" where
  "net_rollback env caller s =
     bindr (assertr (net_is_initialized s) ''not init'') (\<lambda>_.
     bindr (net_require_governance env caller s) (\<lambda>_.
     bindr (expectr (nt_previous_implementation s) ''no rollback target'') (\<lambda>prev_impl.
     bindr (expectr (nt_previous_version s) ''no rollback version'') (\<lambda>prev_version.
     bindr (expectr (nt_current_implementation s) ''no current impl'') (\<lambda>current_impl.
     bindr (expectr (nt_current_version s) ''no current version'') (\<lambda>current_version.
     Inr (s\<lparr>nt_previous_implementation := Some current_impl, nt_previous_version := Some current_version,
            nt_current_implementation := Some prev_impl, nt_current_version := Some prev_version\<rparr>)))))))"

definition grant_network_role :: "ledger_env \<Rightarrow> address \<Rightarrow> address \<Rightarrow> 32 word \<Rightarrow> net_state \<Rightarrow> net_state res" where
  "grant_network_role env caller account role s =
     bindr (net_require_admin env caller s) (\<lambda>_. Inr (net_grant_role s account role))"

definition revoke_network_role :: "ledger_env \<Rightarrow> address \<Rightarrow> address \<Rightarrow> 32 word \<Rightarrow> net_state \<Rightarrow> net_state res" where
  "revoke_network_role env caller account role s =
     bindr (net_require_admin env caller s) (\<lambda>_. Inr (net_revoke_role s account role))"

definition set_network_config :: "ledger_env \<Rightarrow> address \<Rightarrow> network_id \<Rightarrow> network_config \<Rightarrow> net_state \<Rightarrow> net_state res" where
  "set_network_config env caller network_id config s =
     bindr (net_require_governance env caller s) (\<lambda>_.
     bindr (assertr (network_id \<noteq> 0) ''bad id'') (\<lambda>_.
     bindr (validate_network_config config) (\<lambda>_.
     bindr (store_network_config network_id config s) (\<lambda>s1.
     increment_global_version s1))))"

definition get_contract_address :: "net_state \<Rightarrow> network_id \<Rightarrow> sstring \<Rightarrow> address option" where
  "get_contract_address s network_id n =
     (case get_network_config s network_id of
        None \<Rightarrow> None
      | Some config \<Rightarrow>
          (let c = nw_contracts config in
           if n = ''attestation'' \<and> cr_has_attestation c then Some (cr_attestation_contract c)
           else if n = ''revenue_stream'' \<and> cr_has_revenue_stream c then Some (cr_revenue_stream_contract c)
           else if n = ''audit_log'' \<and> cr_has_audit_log c then Some (cr_audit_log_contract c)
           else if n = ''aggregated_attestations'' \<and> cr_has_aggregated_attestations c then Some (cr_agg_attestations_contract c)
           else if n = ''integration_registry'' \<and> cr_has_integration_registry c then Some (cr_integration_registry_contract c)
           else if n = ''attestation_snapshot'' \<and> cr_has_attestation_snapshot c then Some (cr_attestation_snapshot_contract c)
           else None))"

definition net_get_admin :: "net_state \<Rightarrow> address res" where "net_get_admin s = expectr (nt_admin s) ''no admin''"

section \<open>The machine\<close>

datatype net_call =
    NtInit address "address option"
  | NtUpgrade address address nat
  | NtRollback address
  | NtGrant address address "32 word"
  | NtRevoke address address "32 word"
  | NtSet address network_id network_config

fun net_step :: "ledger_env \<times> net_call \<Rightarrow> net_state \<Rightarrow> net_state res" where
  "net_step (env, NtInit a d) s = net_initialize env a d s"
| "net_step (env, NtUpgrade c i v) s = net_upgrade env c i v s"
| "net_step (env, NtRollback c) s = net_rollback env c s"
| "net_step (env, NtGrant c a r) s = grant_network_role env c a r s"
| "net_step (env, NtRevoke c a r) s = revoke_network_role env c a r s"
| "net_step (env, NtSet c n k) s = set_network_config env c n k s"

lemmas net_role_defs = net_grant_role_def net_revoke_role_def net_require_admin_def net_require_governance_def Let_def
lemmas net_defs = net_initialize_def net_upgrade_def net_rollback_def grant_network_role_def revoke_network_role_def
  set_network_config_def store_network_config_def increment_global_version_def

section \<open>The invariant\<close>

definition net_ok :: "net_state \<Rightarrow> bool" where
  "net_ok s \<longleftrightarrow>
     (distinct (net_get_role_holders s) \<and> (\<forall>a. net_get_roles s a \<noteq> 0 \<longrightarrow> a \<in> set (net_get_role_holders s))) \<and>
     distinct (get_registered_networks s) \<and>
     (\<forall>n. n \<in> set (get_registered_networks s) \<longleftrightarrow> is_registered_network s n) \<and>
     (\<forall>n. is_registered_network s n \<longleftrightarrow> 0 < get_network_version s n) \<and>
     (\<forall>n c. get_network_config s n = Some c \<longrightarrow> n \<noteq> 0 \<and> validate_network_config c = Inr ()) \<and>
     get_global_version s = (\<Sum>n\<leftarrow>get_registered_networks s. get_network_version s n) \<and>
     (get_default_network s = None \<or> get_default_network s = Some 0)"

lemma sum_list_counted:
  "distinct xs \<Longrightarrow> n \<in> set xs \<Longrightarrow> (\<And>x. x \<noteq> n \<Longrightarrow> g x = f x) \<Longrightarrow> g n = Suc (f n) \<Longrightarrow>
   sum_list (map g xs) = Suc (sum_list (map (f :: 'a \<Rightarrow> nat) xs))"
proof (induction xs)
  case (Cons x xs)
  show ?case
  proof (cases "x = n")
    case True
    have "map g xs = map f xs"
    proof (rule map_cong [OF refl])
      fix y assume "y \<in> set xs"
      with True Cons.prems(1) have "y \<noteq> n" by auto
      then show "g y = f y" by (rule Cons.prems(3))
    qed
    then have "sum_list (map g xs) = sum_list (map f xs)" by (simp only:)
    with True Cons.prems(4) show ?thesis by simp
  next
    case False
    with Cons show ?thesis by simp
  qed
qed simp

lemma grant_fields [simp]:
  "nt_network_config (net_grant_role s a r) = nt_network_config s"
  "nt_registered_networks (net_grant_role s a r) = nt_registered_networks s"
  "nt_network_version (net_grant_role s a r) = nt_network_version s"
  "nt_global_version (net_grant_role s a r) = nt_global_version s"
  "nt_default_network (net_grant_role s a r) = nt_default_network s"
  "nt_network_config (net_revoke_role s a r) = nt_network_config s"
  "nt_registered_networks (net_revoke_role s a r) = nt_registered_networks s"
  "nt_network_version (net_revoke_role s a r) = nt_network_version s"
  "nt_global_version (net_revoke_role s a r) = nt_global_version s"
  "nt_default_network (net_revoke_role s a r) = nt_default_network s"
  by (simp_all add: net_role_defs)

definition holders_ok :: "net_state \<Rightarrow> bool" where
  "holders_ok s \<longleftrightarrow> distinct (net_get_role_holders s) \<and> (\<forall>a. net_get_roles s a \<noteq> 0 \<longrightarrow> a \<in> set (net_get_role_holders s))"

lemma holders_grant: "holders_ok s \<Longrightarrow> holders_ok (net_grant_role s a r)"
  by (auto simp: holders_ok_def net_grant_role_def Let_def net_get_role_holders_def net_get_roles_def)

lemma holders_revoke: "holders_ok s \<Longrightarrow> holders_ok (net_revoke_role s a r)"
  by (cases "net_get_roles s a = 0")
    (auto simp: holders_ok_def net_revoke_role_def Let_def net_get_role_holders_def net_get_roles_def split: if_splits)

lemma holders_fields: "nt_role s' = nt_role s \<Longrightarrow> nt_role_holders s' = nt_role_holders s \<Longrightarrow> holders_ok s' = holders_ok s"
  by (simp add: holders_ok_def net_get_role_holders_def net_get_roles_def)

lemma net_ok_holders: "net_ok s \<Longrightarrow> holders_ok s"
  by (simp add: net_ok_def holders_ok_def)

lemma net_ok_frame:
  assumes "net_ok s" and "nt_network_config s' = nt_network_config s" and "nt_registered_networks s' = nt_registered_networks s"
    and "nt_network_version s' = nt_network_version s" and "nt_global_version s' = nt_global_version s"
    and "nt_default_network s' = nt_default_network s \<or> nt_default_network s' = Some 0" and "holders_ok s'"
  shows "net_ok s'"
proof -
  have "get_registered_networks s' = get_registered_networks s" "is_registered_network s' = is_registered_network s"
    "get_network_version s' = get_network_version s" "get_network_config s' = get_network_config s"
    "get_global_version s' = get_global_version s" "get_default_network s' = get_default_network s \<or> get_default_network s' = Some 0"
    using assms(2-6) by (simp_all add: get_registered_networks_def is_registered_network_def get_network_version_def
        get_network_config_def get_global_version_def get_default_network_def fun_eq_iff)
  with assms(1,7) show ?thesis unfolding net_ok_def holders_ok_def by simp metis
qed

lemma set_network_config_Inr:
  assumes "set_network_config env caller n c s = Inr s'"
  shows "authorized env caller \<and> net_get_roles s caller AND (NET_ROLE_ADMIN OR NET_ROLE_GOVERNANCE) \<noteq> 0 \<and> n \<noteq> 0 \<and>
    validate_network_config c = Inr () \<and>
    s' = s\<lparr>nt_network_config := (nt_network_config s)(n \<mapsto> c),
           nt_network_version := (nt_network_version s)(n \<mapsto> get_network_version s n + 1),
           nt_registered_networks := (if n \<notin> set (get_registered_networks s) then Some (get_registered_networks s @ [n])
             else nt_registered_networks s),
           nt_global_version := Some (get_global_version s + 1)\<rparr>"
  using assms by (auto simp: net_defs net_require_governance_def Let_def get_network_version_def get_registered_networks_def get_global_version_def
      split: if_splits)

lemma net_ok_set:
  assumes inv: "net_ok s" and st: "set_network_config env caller n c s = Inr s'"
  shows "net_ok s'"
proof -
  note s = set_network_config_Inr [OF st]
  define xs where "xs = get_registered_networks s"
  have xs': "get_registered_networks s' = (if n \<in> set xs then xs else xs @ [n])"
    using s by (auto simp: xs_def get_registered_networks_def)
  have v': "get_network_version s' = (\<lambda>m. if m = n then Suc (get_network_version s m) else get_network_version s m)"
    using s by (auto simp: get_network_version_def fun_eq_iff)
  have d: "distinct xs" and m: "\<And>m. m \<in> set xs \<longleftrightarrow> is_registered_network s m"
    and pos: "\<And>m. is_registered_network s m \<longleftrightarrow> 0 < get_network_version s m"
    and g: "get_global_version s = (\<Sum>m\<leftarrow>xs. get_network_version s m)"
    using inv by (simp_all add: net_ok_def xs_def)
  have reg: "is_registered_network s' m \<longleftrightarrow> m = n \<or> is_registered_network s m" for m
    using s by (auto simp: is_registered_network_def)
  have sum: "get_global_version s' = (\<Sum>m\<leftarrow>get_registered_networks s'. get_network_version s' m)"
  proof (cases "n \<in> set xs")
    case True
    have "get_global_version s' = Suc (get_global_version s)" using s by (simp add: get_global_version_def)
    also have "\<dots> = (\<Sum>m\<leftarrow>xs. get_network_version s' m)"
      unfolding g by (rule sum_list_counted [symmetric, OF d True]) (simp_all add: v')
    finally show ?thesis using True by (simp add: xs')
  next
    case False
    then have "get_network_version s n = 0" using m pos by auto
    then have new: "get_network_version s' n = 1" by (simp add: v')
    have "map (get_network_version s') xs = map (get_network_version s) xs"
    proof (rule map_cong [OF refl])
      fix y assume "y \<in> set xs"
      with False show "get_network_version s' y = get_network_version s y" by (auto simp: v')
    qed
    then have "(\<Sum>m\<leftarrow>xs. get_network_version s' m) = (\<Sum>m\<leftarrow>xs. get_network_version s m)" by (simp only:)
    moreover have "get_global_version s' = Suc (get_global_version s)" using s by (simp add: get_global_version_def)
    ultimately show ?thesis using False g new by (simp add: xs')
  qed
  have "get_default_network s' = get_default_network s" "net_get_role_holders s' = net_get_role_holders s" "net_get_roles s' = net_get_roles s"
    using s by (auto simp: get_default_network_def net_get_role_holders_def net_get_roles_def fun_eq_iff)
  then have roles: "distinct (net_get_role_holders s')" "\<forall>a. net_get_roles s' a \<noteq> 0 \<longrightarrow> a \<in> set (net_get_role_holders s')"
    "get_default_network s' = None \<or> get_default_network s' = Some 0"
    using inv by (simp_all add: net_ok_def)
  have val: "n \<noteq> 0" "validate_network_config c = Inr ()"
    and old: "\<And>m k. get_network_config s m = Some k \<Longrightarrow> m \<noteq> 0 \<and> validate_network_config k = Inr ()"
    using s inv by (simp_all add: net_ok_def)
  have conf: "get_network_config s' m = (if m = n then Some c else get_network_config s m)" for m
    using s by (simp add: get_network_config_def)
  show ?thesis
    unfolding net_ok_def
  proof (intro conjI allI)
    show "distinct (get_registered_networks s')" using d by (simp add: xs')
    show "m \<in> set (get_registered_networks s') \<longleftrightarrow> is_registered_network s' m" for m using m by (auto simp: xs' reg)
    show "is_registered_network s' m \<longleftrightarrow> 0 < get_network_version s' m" for m using pos by (auto simp: v' reg)
    show "get_network_config s' m = Some k \<longrightarrow> m \<noteq> 0 \<and> validate_network_config k = Inr ()" for m k
      using val old by (auto simp: conf)
  qed (use roles sum in auto)
qed

interpretation networks: invariant_machine "\<lambda>s. s = net_empty" net_step net_ok
proof
  show "net_ok s" if "s = net_empty" for s
    using that by (simp add: net_ok_def net_empty_def net_get_role_holders_def net_get_roles_def get_registered_networks_def
        is_registered_network_def get_network_version_def get_network_config_def get_global_version_def get_default_network_def)
  show "net_ok s'" if inv: "net_ok s" and st: "net_step e s = Inr s'" for s e s'
  proof -
    obtain env c where e: "e = (env, c)" by (cases e)
    note frame = holders_fields [THEN iffD2]
    note h = net_ok_holders [OF inv]
    show ?thesis
    proof (cases c)
      case (NtInit a d)
      let ?s1 = "net_grant_role (s\<lparr>nt_initialized := Some True, nt_admin := Some a\<rparr>) a NET_ROLE_ADMIN"
      have h1: "holders_ok ?s1" by (rule holders_grant, rule frame [OF _ _ h]) simp_all
      show ?thesis
      proof (cases d)
        case None
        with NtInit st have "s' = ?s1\<lparr>nt_default_network := Some 0\<rparr>" by (simp add: e net_initialize_def Let_def)
        then show ?thesis by (intro net_ok_frame [OF inv] frame [OF _ _ h1]) simp_all
      next
        case (Some dao)
        let ?s2 = "net_grant_role (?s1\<lparr>nt_governance_dao := Some dao\<rparr>) dao NET_ROLE_GOVERNANCE"
        have h2: "holders_ok ?s2" by (rule holders_grant, rule frame [OF _ _ h1]) simp_all
        from Some NtInit st have "s' = ?s2\<lparr>nt_default_network := Some 0\<rparr>" by (simp add: e net_initialize_def Let_def)
        then show ?thesis by (intro net_ok_frame [OF inv] frame [OF _ _ h2]) simp_all
      qed
    next
      case (NtUpgrade x i v)
      with st show ?thesis
        by (intro net_ok_frame [OF inv] frame [OF _ _ h]) (auto simp: e net_upgrade_def Let_def split: option.splits)
    next
      case (NtRollback x)
      with st show ?thesis
        by (intro net_ok_frame [OF inv] frame [OF _ _ h]) (auto simp: e net_rollback_def)
    next
      case (NtGrant x a r)
      with st h show ?thesis
        by (intro net_ok_frame [OF inv]) (auto simp: e grant_network_role_def intro: holders_grant)
    next
      case (NtRevoke x a r)
      with st h show ?thesis
        by (intro net_ok_frame [OF inv]) (auto simp: e revoke_network_role_def intro: holders_revoke)
    next
      case (NtSet x n k)
      with st show ?thesis by (intro net_ok_set [OF inv]) (simp add: e)
    qed
  qed
qed

section \<open>What the contract promises\<close>

text \<open>
  The networks are listed and counted exactly. In every reachable state the list of networks holds each configured
  network once and no other, each has a valid configuration and a version of at least one, the global version is the
  sum of the networks' versions, and every account with a role is listed once as a holder.
\<close>

theorem networks_counted:
  assumes "reachable (\<lambda>s. s = net_empty) net_step s"
  shows "distinct (get_registered_networks s) \<and> set (get_registered_networks s) = {n. get_network_config s n \<noteq> None} \<and>
    (\<forall>n c. get_network_config s n = Some c \<longrightarrow> n \<noteq> 0 \<and> validate_network_config c = Inr () \<and> 0 < get_network_version s n) \<and>
    get_global_version s = (\<Sum>n\<leftarrow>get_registered_networks s. get_network_version s n) \<and>
    distinct (net_get_role_holders s) \<and> (\<forall>a. net_get_roles s a \<noteq> 0 \<longrightarrow> a \<in> set (net_get_role_holders s))"
  using networks.reachable_inv [OF assms] unfolding net_ok_def
  by (auto simp: is_registered_network_def get_network_config_def)

text \<open>
  The configuration of a network was set by governance: if a network has a configuration at the end of a history
  from the empty contract, some call of the history set it, valid, by an account that had authorized the call and held
  the administrator or the governance role at that moment.
\<close>

theorem network_set_by_governance:
  assumes "get_network_config (run net_step es net_empty) n = Some k"
  shows "\<exists>pre post env c. es = pre @ (env, NtSet c n k) # post \<and> authorized env c \<and> validate_network_config k = Inr () \<and>
    (net_has_role (run net_step pre net_empty) c NET_ROLE_ADMIN \<or> net_has_role (run net_step pre net_empty) c NET_ROLE_GOVERNANCE)"
proof -
  have "get_network_config net_empty n \<noteq> Some k" by (simp add: get_network_config_def net_empty_def)
  from run_becomes [of "\<lambda>s. get_network_config s n = Some k", OF assms this] obtain pre e post t where
    e: "es = pre @ e # post" "get_network_config (run net_step pre net_empty) n \<noteq> Some k"
      "net_step e (run net_step pre net_empty) = Inr t" "get_network_config t n = Some k" by blast
  let ?s = "run net_step pre net_empty"
  obtain env c where ec: "e = (env, c)" by (cases e)
  have "\<exists>x. c = NtSet x n k \<and> authorized env x \<and> validate_network_config k = Inr () \<and>
    (net_has_role ?s x NET_ROLE_ADMIN \<or> net_has_role ?s x NET_ROLE_GOVERNANCE)"
  proof (cases c)
    case (NtSet x m k')
    with e(3) ec have s: "set_network_config env x m k' ?s = Inr t" by simp
    from set_network_config_Inr [OF s] e(2,4) have "m = n" "k' = k"
      by (auto simp: get_network_config_def split: if_splits)
    with set_network_config_Inr [OF s] NtSet show ?thesis by (auto simp: net_has_role_def bit.conj_disj_distrib)
  qed (use e(2-4) ec in \<open>auto simp: get_network_config_def net_initialize_def net_upgrade_def net_rollback_def grant_network_role_def
      revoke_network_role_def Let_def split: option.splits\<close>)
  with e(1) ec show ?thesis by blast
qed

text \<open>The default network is the number no network can have.\<close>

lemma default_network_unregistered:
  "reachable (\<lambda>s. s = net_empty) net_step s \<Longrightarrow> get_default_network s = Some n \<Longrightarrow> \<not> is_registered_network s n"
proof
  assume r: "reachable (\<lambda>s. s = net_empty) net_step s" and d: "get_default_network s = Some n" and "is_registered_network s n"
  then obtain c where "get_network_config s n = Some c" by (auto simp: is_registered_network_def get_network_config_def)
  moreover have "net_ok s" by (rule networks.reachable_inv [OF r])
  ultimately have "n \<noteq> 0" "get_default_network s \<in> {None, Some 0}" by (simp_all add: net_ok_def)
  with d show False by simp
qed

section \<open>Gaps and witnesses\<close>

definition net_ready :: net_state where
  "net_ready = run net_step [(env_at 0 0, NtInit ''admin'' None)] net_empty"

lemma net_ready_is: "net_ready = net_empty\<lparr>nt_initialized := Some True, nt_admin := Some ''admin'', nt_role := [''admin'' \<mapsto> NET_ROLE_ADMIN],
    nt_role_holders := Some [''admin''], nt_default_network := Some 0\<rparr>"
  by (simp add: net_ready_def exec_def net_initialize_def net_is_initialized_def net_empty_def net_grant_role_def net_get_roles_def)

text \<open>The only administrator can give the role up: nobody can administer the contract again.\<close>

lemma last_admin_removed:
  "\<exists>s'. net_step (env_at 1 1, NtRevoke ''admin'' ''admin'' NET_ROLE_ADMIN) net_ready = Inr s' \<and> (\<forall>a. net_get_roles s' a = 0)"
  by (simp add: net_ready_is revoke_network_role_def net_require_admin_def net_has_role_def net_get_roles_def NET_ROLE_ADMIN_def
      net_revoke_role_def Let_def net_empty_def)

definition demo_network :: network_config where
  "demo_network = \<lparr>nw_name = ''testnet'', nw_network_passphrase = ''pass'', nw_is_active = True,
     nw_fee_policy = \<lparr>fp_fee_token = ''t'', fp_fee_collector = ''c'', fp_base_fee = 0, fp_enabled = True, fp_max_fee = 0, fp_min_fee = -7\<rparr>,
     nw_contracts = \<lparr>cr_attestation_contract = ''a'', cr_revenue_stream_contract = ''b'', cr_audit_log_contract = ''c'',
       cr_agg_attestations_contract = ''d'', cr_integration_registry_contract = ''e'', cr_attestation_snapshot_contract = ''f'',
       cr_has_attestation = True, cr_has_revenue_stream = False, cr_has_audit_log = False, cr_has_aggregated_attestations = False,
       cr_has_integration_registry = False, cr_has_attestation_snapshot = False\<rparr>,
     nw_block_time_seconds = 5, nw_min_attestations_for_aggregate = 0, nw_dispute_timeout_seconds = 0,
     nw_max_period_length_seconds = 0, nw_created_at = 0, nw_updated_at = 0\<rparr>"

definition net_demo :: net_state where
  "net_demo = run net_step [(env_at 1 1, NtSet ''admin'' 5 demo_network)] net_ready"

lemma net_demo_config: "get_network_config net_demo 5 = Some demo_network"
  by (simp add: net_demo_def exec_def net_ready_is set_network_config_def net_require_governance_def net_get_roles_def Let_def
      NET_ROLE_ADMIN_def NET_ROLE_GOVERNANCE_def validate_network_config_def demo_network_def store_network_config_def
      increment_global_version_def net_empty_def u32_max_def get_network_config_def)

text \<open>The fee policy of an accepted configuration need not be one that \<open>validate_fee_policy\<close> accepts.\<close>

lemma fee_policy_not_validated:
  "get_network_config net_demo 5 = Some demo_network \<and> validate_fee_policy (nw_fee_policy demo_network) \<noteq> Inr ()"
  by (simp add: net_demo_config) (simp add: demo_network_def validate_fee_policy_def)

lemma networks_counted_witness: "0 < get_network_version net_demo 5 \<and> distinct (get_registered_networks net_demo)"
proof -
  have "reachable (\<lambda>s. s = net_empty) net_step net_demo"
    unfolding net_demo_def net_ready_def by (rule reachable_run, rule reachable_run, rule reachable_start) simp
  from networks_counted [OF this] net_demo_config show ?thesis by blast
qed

lemma network_set_by_governance_witness:
  "\<exists>(env :: ledger_env) c. authorized env c \<and> validate_network_config demo_network = Inr ()"
proof -
  have "get_network_config (run net_step [(env_at 0 0, NtInit ''admin'' None), (env_at 1 1, NtSet ''admin'' 5 demo_network)] net_empty) 5 =
      Some demo_network"
    using net_demo_config by (simp add: net_demo_def net_ready_def)
  from network_set_by_governance [OF this] show ?thesis by blast
qed

end
