(* ===== verification/Attestation_Snapshot.thy ===== *)
theory Attestation_Snapshot
  imports Attestation_Client
begin

text \<open>
  \<open>contracts/attestation-snapshot/src/lib.rs\<close>: snapshot records per business and period, the indexes over them,
  epochs that are finalized, the restore protocol (dry run, then commit) and the commitment over all records.

  Parameters are the attestation contract \<open>C\<close>, SHA-256 \<open>sha\<close> and the SDK's XDR encodings \<open>X\<close>. Events, and the storage
  lifetimes that \<open>bump_snapshot_pointer_ttl\<close> extends, are left out.
\<close>

section \<open>State\<close>

definition SNAP_MAX_PERIOD_BYTES :: nat where "SNAP_MAX_PERIOD_BYTES = 128"
definition MAX_BUSINESS_PERIODS :: nat where "MAX_BUSINESS_PERIODS = 512"
definition MAX_EPOCH_BUSINESSES :: nat where "MAX_EPOCH_BUSINESSES = 512"
definition SNAPSHOT_SCHEMA_VERSION :: nat where "SNAPSHOT_SCHEMA_VERSION = 1"
definition MAX_RESTORE_BATCH :: nat where "MAX_RESTORE_BATCH = 1024"
definition RESTORE_COMMIT_WINDOW_LEDGERS :: nat where "RESTORE_COMMIT_WINDOW_LEDGERS = 1440"

record snapshot_record =
  sn_period :: sstring
  sn_trailing_revenue :: int
  sn_anomaly_count :: nat
  sn_attestation_count :: nat
  sn_recorded_at :: nat

record epoch_finalization =
  ef_epoch :: sstring
  ef_snapshot_count :: nat
  ef_finalized_at :: nat
  ef_finalized_by :: address

record restore_entry =
  re_business :: address
  re_period :: sstring
  re_record :: snapshot_record
  re_schema_version :: nat
  re_business_count :: nat

record entry_violation =
  ev_index :: nat
  ev_reason :: sstring

record restore_report =
  rp_entries_checked :: nat
  rp_entries_valid :: nat
  rp_violations :: "entry_violation list"
  rp_ready_to_commit :: bool
  rp_commit_deadline_ledger :: nat

record pending_restore_token =
  pt_batch_hash :: bytesn
  pt_expires_at_ledger :: nat

record snap_state =
  ss_admin :: "address option"
  ss_attestation_contract :: "address option"
  ss_snapshot :: "address \<times> sstring \<rightharpoonup> snapshot_record"
  ss_business_periods :: "address \<rightharpoonup> sstring list"
  ss_epoch_businesses :: "sstring \<rightharpoonup> address list"
  ss_epoch_finalization :: "sstring \<rightharpoonup> epoch_finalization"
  ss_all_epochs :: "sstring list option"
  ss_writer :: "address \<rightharpoonup> bool"
  ss_pending_restore :: "address \<rightharpoonup> pending_restore_token"
  ss_last_restore_id :: "bytesn option"

definition snap_empty :: snap_state where
  "snap_empty = \<lparr>ss_admin = None, ss_attestation_contract = None, ss_snapshot = Map.empty, ss_business_periods = Map.empty,
     ss_epoch_businesses = Map.empty, ss_epoch_finalization = Map.empty, ss_all_epochs = None, ss_writer = Map.empty,
     ss_pending_restore = Map.empty, ss_last_restore_id = None\<rparr>"

record xdr_ops =
  xdr_address :: "address \<Rightarrow> byte list"
  xdr_string :: "sstring \<Rightarrow> byte list"
  xdr_u32 :: "nat \<Rightarrow> byte list"
  xdr_bytes :: "byte list \<Rightarrow> byte list"

section \<open>Roles\<close>

definition snap_initialize :: "ledger_env \<Rightarrow> address \<Rightarrow> address option \<Rightarrow> snap_state \<Rightarrow> snap_state res" where
  "snap_initialize env admin attestation_contract s =
     bindr (assertr (ss_admin s = None) ''already initialized'') (\<lambda>_.
     bindr (require_auth env admin) (\<lambda>_.
     (let s1 = s\<lparr>ss_admin := Some admin\<rparr> in
      Inr (case attestation_contract of Some addr \<Rightarrow> s1\<lparr>ss_attestation_contract := Some addr\<rparr> | None \<Rightarrow> s1))))"

definition snap_require_admin :: "ledger_env \<Rightarrow> address \<Rightarrow> snap_state \<Rightarrow> unit res" where
  "snap_require_admin env caller s =
     bindr (require_auth env caller) (\<lambda>_.
     bindr (expectr (ss_admin s) ''contract not initialized'') (\<lambda>admin.
     assertr (caller = admin) ''caller is not admin''))"

definition require_admin_or_writer :: "ledger_env \<Rightarrow> address \<Rightarrow> snap_state \<Rightarrow> unit res" where
  "require_admin_or_writer env caller s =
     bindr (require_auth env caller) (\<lambda>_.
     bindr (expectr (ss_admin s) ''contract not initialized'') (\<lambda>admin.
     assertr (caller = admin \<or> unwrap_or (ss_writer s caller) False) ''caller must be admin or writer''))"

definition snap_set_attestation_contract :: "ledger_env \<Rightarrow> address \<Rightarrow> address option \<Rightarrow> snap_state \<Rightarrow> snap_state res" where
  "snap_set_attestation_contract env caller attestation_contract s =
     bindr (snap_require_admin env caller s) (\<lambda>_.
     (case attestation_contract of
        Some addr \<Rightarrow> Inr (s\<lparr>ss_attestation_contract := Some addr\<rparr>)
      | None \<Rightarrow> Inr (s\<lparr>ss_attestation_contract := None\<rparr>)))"

definition add_writer :: "ledger_env \<Rightarrow> address \<Rightarrow> address \<Rightarrow> snap_state \<Rightarrow> snap_state res" where
  "add_writer env caller account s =
     bindr (snap_require_admin env caller s) (\<lambda>_. Inr (s\<lparr>ss_writer := (ss_writer s)(account \<mapsto> True)\<rparr>))"

definition remove_writer :: "ledger_env \<Rightarrow> address \<Rightarrow> address \<Rightarrow> snap_state \<Rightarrow> snap_state res" where
  "remove_writer env caller account s =
     bindr (snap_require_admin env caller s) (\<lambda>_. Inr (s\<lparr>ss_writer := (ss_writer s)(account \<mapsto> False)\<rparr>))"

definition is_writer :: "snap_state \<Rightarrow> address \<Rightarrow> bool" where
  "is_writer s account = unwrap_or (ss_writer s account) False"

section \<open>Indexes\<close>

definition has_epoch_finalization :: "snap_state \<Rightarrow> sstring \<Rightarrow> bool" where
  "has_epoch_finalization s epoch \<longleftrightarrow> ss_epoch_finalization s epoch \<noteq> None"

definition read_epoch_businesses :: "snap_state \<Rightarrow> sstring \<Rightarrow> address list" where
  "read_epoch_businesses s epoch = unwrap_or (ss_epoch_businesses s epoch) []"

definition index_period_for_business :: "address \<Rightarrow> sstring \<Rightarrow> snap_state \<Rightarrow> snap_state res" where
  "index_period_for_business business period s =
     (let periods = unwrap_or (ss_business_periods s business) [] in
      if period \<in> set periods then Inr s
      else
        bindr (assertr (length periods < MAX_BUSINESS_PERIODS) ''business period index limit reached'') (\<lambda>_.
        Inr (s\<lparr>ss_business_periods := (ss_business_periods s)(business \<mapsto> periods @ [period])\<rparr>)))"

definition index_business_for_epoch :: "sstring \<Rightarrow> address \<Rightarrow> snap_state \<Rightarrow> snap_state res" where
  "index_business_for_epoch epoch business s =
     (let businesses = unwrap_or (ss_epoch_businesses s epoch) [] in
      if business \<in> set businesses then Inr s
      else
        bindr (assertr (length businesses < MAX_EPOCH_BUSINESSES) ''epoch business index limit reached'') (\<lambda>_.
        Inr (s\<lparr>ss_epoch_businesses := (ss_epoch_businesses s)(epoch \<mapsto> businesses @ [business])\<rparr>)))"

definition index_epoch_globally :: "sstring \<Rightarrow> snap_state \<Rightarrow> snap_state" where
  "index_epoch_globally epoch s =
     (let epochs = unwrap_or (ss_all_epochs s) [] in
      if epoch \<in> set epochs then s else s\<lparr>ss_all_epochs := Some (epochs @ [epoch])\<rparr>)"

definition snap_assert_period_within_limit :: "sstring \<Rightarrow> unit res" where
  "snap_assert_period_within_limit period = assertr (length period \<le> SNAP_MAX_PERIOD_BYTES) ''period exceeds max bytes''"

section \<open>Recording and finalizing\<close>

definition record_snapshot ::
  "'w att_client \<Rightarrow> ledger_env \<Rightarrow> address \<Rightarrow> address \<Rightarrow> sstring \<Rightarrow> int \<Rightarrow> nat \<Rightarrow> nat \<Rightarrow> snap_state \<Rightarrow> 'w \<Rightarrow>
   (snap_state \<times> 'w) res" where
  "record_snapshot C env caller business period trailing_revenue anomaly_count attestation_count s w =
     bindr (require_admin_or_writer env caller s) (\<lambda>_.
     bindr (snap_assert_period_within_limit period) (\<lambda>_.
     bindr (assertr (\<not> has_epoch_finalization s period) ''epoch already finalized'') (\<lambda>_.
     bindr (case ss_attestation_contract s of
              Some attestation_contract \<Rightarrow>
                bindr (ac_get_attestation C attestation_contract business period w) (\<lambda>(att, w1).
                bindr (ac_get_revocation_info C attestation_contract business period w1) (\<lambda>(info, w2).
                bindr (assertr (att \<noteq> None) ''attestation must exist for this business and period'') (\<lambda>_.
                bindr (assertr (\<not> info \<noteq> None) ''attestation must not be revoked'') (\<lambda>_. Inr w2))))
            | None \<Rightarrow> Inr w) (\<lambda>w'.
     (let record = \<lparr>sn_period = period, sn_trailing_revenue = trailing_revenue, sn_anomaly_count = anomaly_count,
            sn_attestation_count = attestation_count, sn_recorded_at = timestamp env\<rparr>;
          s1 = s\<lparr>ss_snapshot := (ss_snapshot s)((business, period) \<mapsto> record)\<rparr> in
      bindr (index_period_for_business business period s1) (\<lambda>s2.
      bindr (index_business_for_epoch period business s2) (\<lambda>s3.
      Inr (index_epoch_globally period s3, w'))))))))"

definition finalize_epoch :: "ledger_env \<Rightarrow> address \<Rightarrow> sstring \<Rightarrow> snap_state \<Rightarrow> snap_state res" where
  "finalize_epoch env caller epoch s =
     bindr (snap_require_admin env caller s) (\<lambda>_.
     bindr (snap_assert_period_within_limit epoch) (\<lambda>_.
     bindr (assertr (\<not> has_epoch_finalization s epoch) ''epoch already finalized'') (\<lambda>_.
     (let snapshot_count = length (read_epoch_businesses s epoch) in
      bindr (assertr (0 < snapshot_count) ''epoch has no snapshots'') (\<lambda>_.
      Inr (s\<lparr>ss_epoch_finalization := (ss_epoch_finalization s)(epoch \<mapsto>
        \<lparr>ef_epoch = epoch, ef_snapshot_count = snapshot_count, ef_finalized_at = timestamp env, ef_finalized_by = caller\<rparr>)\<rparr>))))))"

definition bump_snapshot_pointer_ttl :: "ledger_env \<Rightarrow> address \<Rightarrow> address \<Rightarrow> sstring \<Rightarrow> snap_state \<Rightarrow> bool res" where
  "bump_snapshot_pointer_ttl env caller business period s =
     bindr (require_admin_or_writer env caller s) (\<lambda>_.
     if ss_snapshot s (business, period) = None then Inr False else Inr True)"

section \<open>Restore: dry run\<close>

definition violation :: "nat \<Rightarrow> sstring \<Rightarrow> entry_violation" where
  "violation i reason = \<lparr>ev_index = i, ev_reason = reason\<rparr>"

text \<open>The last time per business, in order of first appearance: the first pair of the business is looked up, all of them set.\<close>

fun last_recorded :: "(address \<times> nat) list \<Rightarrow> address \<Rightarrow> nat option" where
  "last_recorded [] business = None"
| "last_recorded ((b, t) # rest) business = (if b = business then Some t else last_recorded rest business)"

definition set_last_recorded :: "(address \<times> nat) list \<Rightarrow> address \<Rightarrow> nat \<Rightarrow> (address \<times> nat) list" where
  "set_last_recorded pairs business t = map (\<lambda>kp. if fst kp = business then (business, t) else kp) pairs"

fun dry_loop ::
  "nat \<Rightarrow> nat \<Rightarrow> restore_entry list \<Rightarrow> entry_violation list \<Rightarrow> (address \<times> sstring) list \<Rightarrow> (address \<times> nat) list \<Rightarrow>
   entry_violation list res" where
  "dry_loop now_ts i [] violations seen_keys biz_last_ts = Inr violations"
| "dry_loop now_ts i (entry # entries) violations seen_keys biz_last_ts =
     bindr (assertr (re_schema_version entry = SNAPSHOT_SCHEMA_VERSION) ''snapshot schema version mismatch'') (\<lambda>_.
     if length (re_period entry) > SNAP_MAX_PERIOD_BYTES
     then dry_loop now_ts (i + 1) entries (violations @ [violation i ''period exceeds MAX_PERIOD_BYTES'']) seen_keys biz_last_ts
     else if sn_recorded_at (re_record entry) > now_ts
     then dry_loop now_ts (i + 1) entries (violations @ [violation i ''recorded_at is in the future'']) seen_keys biz_last_ts
     else if (re_business entry, re_period entry) \<in> set seen_keys
     then dry_loop now_ts (i + 1) entries (violations @ [violation i ''duplicate (business, period) key in batch'']) seen_keys biz_last_ts
     else
       (let seen = seen_keys @ [(re_business entry, re_period entry)] in
        case last_recorded biz_last_ts (re_business entry) of
          Some t \<Rightarrow>
            if sn_recorded_at (re_record entry) < t
            then dry_loop now_ts (i + 1) entries
              (violations @ [violation i ''recorded_at not monotonically non-decreasing for business'']) seen biz_last_ts
            else dry_loop now_ts (i + 1) entries violations seen
              (set_last_recorded biz_last_ts (re_business entry) (sn_recorded_at (re_record entry)))
        | None \<Rightarrow> dry_loop now_ts (i + 1) entries violations seen
              (biz_last_ts @ [(re_business entry, sn_recorded_at (re_record entry))])))"

fun batch_buffer :: "xdr_ops \<Rightarrow> byte list \<Rightarrow> restore_entry list \<Rightarrow> byte list" where
  "batch_buffer X buffer [] = buffer"
| "batch_buffer X buffer (entry # entries) =
     batch_buffer X (buffer @ xdr_address X (re_business entry) @ xdr_string X (re_period entry) @ xdr_u32 X (re_schema_version entry)) entries"

definition compute_batch_hash :: "(byte list \<Rightarrow> bytesn) \<Rightarrow> xdr_ops \<Rightarrow> restore_entry list \<Rightarrow> bytesn" where
  "compute_batch_hash sha X entries = sha (batch_buffer X [] entries)"

definition restore_dry_run ::
  "(byte list \<Rightarrow> bytesn) \<Rightarrow> xdr_ops \<Rightarrow> ledger_env \<Rightarrow> address \<Rightarrow> restore_entry list \<Rightarrow> snap_state \<Rightarrow>
   (restore_report \<times> snap_state) res" where
  "restore_dry_run sha X env caller entries s =
     bindr (snap_require_admin env caller s) (\<lambda>_.
     (let batch_len = length entries in
      bindr (assertr (batch_len \<le> MAX_RESTORE_BATCH) ''restore batch exceeds MAX_RESTORE_BATCH'') (\<lambda>_.
      bindr (dry_loop (timestamp env) 0 entries [] [] []) (\<lambda>violations.
      (let entries_valid = batch_len - length violations; ready = (violations = []) in
       bindr (if ready then u32_chk (sequence env + RESTORE_COMMIT_WINDOW_LEDGERS) else Inr 0) (\<lambda>deadline.
       (let s1 = (if ready then s\<lparr>ss_pending_restore := (ss_pending_restore s)(caller \<mapsto>
              \<lparr>pt_batch_hash = compute_batch_hash sha X entries, pt_expires_at_ledger = deadline\<rparr>)\<rparr> else s) in
        Inr (\<lparr>rp_entries_checked = batch_len, rp_entries_valid = entries_valid, rp_violations = violations,
              rp_ready_to_commit = ready, rp_commit_deadline_ledger = deadline\<rparr>, s1))))))))"

section \<open>Restore: commit\<close>

fun versions_loop :: "restore_entry list \<Rightarrow> unit res" where
  "versions_loop [] = Inr ()"
| "versions_loop (entry # entries) =
     bindr (assertr (re_schema_version entry = SNAPSHOT_SCHEMA_VERSION) ''snapshot schema version mismatch'') (\<lambda>_. versions_loop entries)"

fun bump_actual :: "(address \<times> nat) list \<Rightarrow> address \<Rightarrow> (address \<times> nat) list" where
  "bump_actual pairs business =
     (if business \<in> fst ` set pairs
      then map (\<lambda>kp. if fst kp = business then (business, snd kp + 1) else kp) pairs
      else pairs @ [(business, 1)])"

fun count_loop :: "restore_entry list \<Rightarrow> (address \<times> nat) list \<Rightarrow> (address \<times> nat) list \<Rightarrow>
   (address \<times> nat) list \<times> (address \<times> nat) list" where
  "count_loop [] biz_declared biz_actual = (biz_declared, biz_actual)"
| "count_loop (entry # entries) biz_declared biz_actual =
     count_loop entries
       (if re_business entry \<in> fst ` set biz_declared then biz_declared
        else biz_declared @ [(re_business entry, re_business_count entry)])
       (bump_actual biz_actual (re_business entry))"

fun compare_loop :: "(address \<times> nat) list \<Rightarrow> (address \<times> nat) list \<Rightarrow> unit res" where
  "compare_loop [] biz_actual = Inr ()"
| "compare_loop ((business, declared) # rest) biz_actual =
     (let actual = unwrap_or (last_recorded biz_actual business) 0 in
      bindr (assertr (declared = actual) ''restore aborted: business_count mismatch'') (\<lambda>_. compare_loop rest biz_actual))"

fun write_loop :: "restore_entry list \<Rightarrow> snap_state \<Rightarrow> snap_state res" where
  "write_loop [] s = Inr s"
| "write_loop (entry # entries) s =
     (if has_epoch_finalization s (re_period entry) then write_loop entries s
      else
        (let s1 = s\<lparr>ss_snapshot := (ss_snapshot s)((re_business entry, re_period entry) \<mapsto> re_record entry)\<rparr> in
         bindr (index_period_for_business (re_business entry) (re_period entry) s1) (\<lambda>s2.
         bindr (index_business_for_epoch (re_period entry) (re_business entry) s2) (\<lambda>s3.
         write_loop entries s3))))"

definition restore_commit ::
  "(byte list \<Rightarrow> bytesn) \<Rightarrow> xdr_ops \<Rightarrow> ledger_env \<Rightarrow> address \<Rightarrow> restore_entry list \<Rightarrow> snap_state \<Rightarrow> snap_state res" where
  "restore_commit sha X env caller entries s =
     bindr (snap_require_admin env caller s) (\<lambda>_.
     bindr (expectr (ss_pending_restore s caller) ''no pending restore; call restore_dry_run first'') (\<lambda>token.
     (let s1 = s\<lparr>ss_pending_restore := (ss_pending_restore s)(caller := None)\<rparr> in
      bindr (assertr (sequence env \<le> pt_expires_at_ledger token)
        ''pending restore token has expired; call restore_dry_run again'') (\<lambda>_.
      (let incoming_hash = compute_batch_hash sha X entries in
       bindr (assertr (incoming_hash = pt_batch_hash token)
         ''snapshot_bytes hash mismatch; batch was altered since dry-run'') (\<lambda>_.
       bindr (versions_loop entries) (\<lambda>_.
       (let (biz_declared, biz_actual) = count_loop entries [] [] in
        bindr (compare_loop biz_declared biz_actual) (\<lambda>_.
        bindr (write_loop entries s1) (\<lambda>s2.
        Inr (s2\<lparr>ss_last_restore_id := Some incoming_hash\<rparr>)))))))))))"

section \<open>Queries\<close>

definition get_pending_restore :: "snap_state \<Rightarrow> address \<Rightarrow> pending_restore_token option" where
  "get_pending_restore s admin = ss_pending_restore s admin"

definition get_last_restore_id :: "snap_state \<Rightarrow> bytesn option" where "get_last_restore_id s = ss_last_restore_id s"

definition get_snapshot :: "snap_state \<Rightarrow> address \<Rightarrow> sstring \<Rightarrow> snapshot_record option" where
  "get_snapshot s business period = ss_snapshot s (business, period)"

fun snapshots_loop :: "snap_state \<Rightarrow> address \<Rightarrow> snapshot_record list \<Rightarrow> sstring list \<Rightarrow> snapshot_record list" where
  "snapshots_loop s business out [] = out"
| "snapshots_loop s business out (period # periods) =
     (case ss_snapshot s (business, period) of
        Some record \<Rightarrow> snapshots_loop s business (out @ [record]) periods
      | None \<Rightarrow> snapshots_loop s business out periods)"

definition get_snapshots_for_business :: "snap_state \<Rightarrow> address \<Rightarrow> snapshot_record list" where
  "get_snapshots_for_business s business =
     snapshots_loop s business [] (unwrap_or (ss_business_periods s business) [])"

definition get_epoch_businesses :: "snap_state \<Rightarrow> sstring \<Rightarrow> address list" where
  "get_epoch_businesses s epoch = read_epoch_businesses s epoch"

definition get_epoch_finalization :: "snap_state \<Rightarrow> sstring \<Rightarrow> epoch_finalization option" where
  "get_epoch_finalization s epoch = ss_epoch_finalization s epoch"

definition is_epoch_finalized :: "snap_state \<Rightarrow> sstring \<Rightarrow> bool" where
  "is_epoch_finalized s epoch = has_epoch_finalization s epoch"

definition snap_get_admin :: "snap_state \<Rightarrow> address res" where
  "snap_get_admin s = expectr (ss_admin s) ''contract not initialized''"

definition snap_get_attestation_contract :: "snap_state \<Rightarrow> address option" where
  "snap_get_attestation_contract s = ss_attestation_contract s"

function epoch_page_loop :: "sstring list \<Rightarrow> nat \<Rightarrow> nat \<Rightarrow> nat \<Rightarrow> sstring list \<Rightarrow> sstring list" where
  "epoch_page_loop all start page_size i result =
     (if i < length all \<and> i - start < page_size then epoch_page_loop all start page_size (i + 1) (result @ [all ! i]) else result)"
  by pat_completeness auto
termination by (relation "measure (\<lambda>(all, start, page_size, i, result). length all - i)") auto

definition get_all_epochs :: "snap_state \<Rightarrow> nat \<Rightarrow> nat \<Rightarrow> sstring list res" where
  "get_all_epochs s page page_size =
     (let all = unwrap_or (ss_all_epochs s) [] in
      if page_size = 0 then Inr all
      else bindr (u32_chk (page * page_size)) (\<lambda>start. Inr (epoch_page_loop all start page_size start [])))"

definition get_total_epoch_count :: "snap_state \<Rightarrow> nat" where
  "get_total_epoch_count s = length (unwrap_or (ss_all_epochs s) [])"

section \<open>The commitment\<close>

text \<open>\<open>to_le_bytes\<close> of an integer of \<open>n\<close> bytes.\<close>

definition le_bytes :: "nat \<Rightarrow> int \<Rightarrow> byte list" where
  "le_bytes n x = map (\<lambda>k. of_int (x div 256 ^ k)) [0..<n]"

definition canonicalize_snapshot_record :: "xdr_ops \<Rightarrow> snapshot_record \<Rightarrow> byte list" where
  "canonicalize_snapshot_record X r =
     xdr_string X (sn_period r) @ xdr_bytes X (le_bytes 16 (sn_trailing_revenue r)) @ xdr_bytes X (le_bytes 4 (int (sn_anomaly_count r))) @
     xdr_bytes X (le_bytes 8 (int (sn_attestation_count r))) @ xdr_bytes X (le_bytes 8 (int (sn_recorded_at r)))"

fun period_entries :: "xdr_ops \<Rightarrow> snap_state \<Rightarrow> address \<Rightarrow> sstring list \<Rightarrow> byte list list" where
  "period_entries X s business [] = []"
| "period_entries X s business (period # periods) =
     (case ss_snapshot s (business, period) of
        Some record \<Rightarrow> canonicalize_snapshot_record X record # period_entries X s business periods
      | None \<Rightarrow> period_entries X s business periods)"

fun business_entries :: "xdr_ops \<Rightarrow> snap_state \<Rightarrow> address list \<Rightarrow> byte list list" where
  "business_entries X s [] = []"
| "business_entries X s (business # businesses) =
     period_entries X s business (unwrap_or (ss_business_periods s business) []) @ business_entries X s businesses"

fun epoch_entries :: "xdr_ops \<Rightarrow> snap_state \<Rightarrow> sstring list \<Rightarrow> byte list list" where
  "epoch_entries X s [] = []"
| "epoch_entries X s (epoch # epochs) = business_entries X s (read_epoch_businesses s epoch) @ epoch_entries X s epochs"

text \<open>The insertion sort in place: entry \<open>j\<close> is swapped down while the one before it is greater.\<close>

fun sink :: "'a :: linorder list \<Rightarrow> nat \<Rightarrow> 'a list" where
  "sink entries 0 = entries"
| "sink entries (Suc j) =
     (let prev = entries ! j; cur = entries ! Suc j in
      if \<not> prev > cur then entries else sink (entries[Suc j := prev, j := cur]) j)"

fun insertion_loop :: "'a :: linorder list \<Rightarrow> nat list \<Rightarrow> 'a list" where
  "insertion_loop entries [] = entries"
| "insertion_loop entries (i # is) = insertion_loop (sink entries i) is"

definition insertion_sort :: "'a :: linorder list \<Rightarrow> 'a list" where
  "insertion_sort entries = insertion_loop entries [1..<length entries]"

definition export_commitment_with_count :: "(byte list \<Rightarrow> bytesn) \<Rightarrow> xdr_ops \<Rightarrow> snap_state \<Rightarrow> bytesn \<times> nat" where
  "export_commitment_with_count sha X s =
     (let entries = insertion_sort (epoch_entries X s (unwrap_or (ss_all_epochs s) [])) in
      (sha (concat entries), length entries))"

definition export_snapshot_commitment :: "(byte list \<Rightarrow> bytesn) \<Rightarrow> xdr_ops \<Rightarrow> snap_state \<Rightarrow> bytesn" where
  "export_snapshot_commitment sha X s = (let (commitment, _) = export_commitment_with_count sha X s in commitment)"

section \<open>The machine\<close>

datatype 'w snap_call =
    SnInit address "address option"
  | SnSetContract address "address option"
  | SnAddWriter address address
  | SnRemoveWriter address address
  | SnRecord address address sstring int nat nat
  | SnFinalize address sstring
  | SnDryRun address "restore_entry list"
  | SnCommit address "restore_entry list"
  | SnOther "'w \<Rightarrow> 'w"

fun snap_step ::
  "'w att_client \<Rightarrow> (byte list \<Rightarrow> bytesn) \<Rightarrow> xdr_ops \<Rightarrow> ledger_env \<times> 'w snap_call \<Rightarrow> snap_state \<times> 'w \<Rightarrow> (snap_state \<times> 'w) res" where
  "snap_step C sha X (env, SnInit a c) (s, w) = bindr (snap_initialize env a c s) (\<lambda>s'. Inr (s', w))"
| "snap_step C sha X (env, SnSetContract a c) (s, w) = bindr (snap_set_attestation_contract env a c s) (\<lambda>s'. Inr (s', w))"
| "snap_step C sha X (env, SnAddWriter a x) (s, w) = bindr (add_writer env a x s) (\<lambda>s'. Inr (s', w))"
| "snap_step C sha X (env, SnRemoveWriter a x) (s, w) = bindr (remove_writer env a x s) (\<lambda>s'. Inr (s', w))"
| "snap_step C sha X (env, SnRecord a b p r n k) (s, w) = record_snapshot C env a b p r n k s w"
| "snap_step C sha X (env, SnFinalize a e) (s, w) = bindr (finalize_epoch env a e s) (\<lambda>s'. Inr (s', w))"
| "snap_step C sha X (env, SnDryRun a es) (s, w) = bindr (restore_dry_run sha X env a es s) (\<lambda>(r, s'). Inr (s', w))"
| "snap_step C sha X (env, SnCommit a es) (s, w) = bindr (restore_commit sha X env a es s) (\<lambda>s'. Inr (s', w))"
| "snap_step C sha X (env, SnOther f) (s, w) = Inr (s, f w)"

end
