(* ===== verification/Snapshot_Properties.thy ===== *)
theory Snapshot_Properties
  imports Attestation_Snapshot "HOL-Library.Multiset"
begin

text \<open>
  What the snapshot contract of \<open>Attestation_Snapshot\<close> promises: the commitment depends on the set of entries only, the
  indexes are exact, finalized epochs are frozen, a dry run accepts exactly the clean batches and a restore writes its
  batch; and the gaps of the restore protocol and of the commitment, on concrete runs.
\<close>

section \<open>Sorting\<close>

text \<open>One pass of the insertion: the entry at position \<open>i\<close> sinks into the sorted entries before it.\<close>

lemma sink_length [simp]: "length (sink xs i) = length xs"
  by (induction i arbitrary: xs) (simp_all add: Let_def)

lemma sink_mset: "i < length xs \<Longrightarrow> mset (sink xs i) = mset xs"
proof (induction i arbitrary: xs)
  case (Suc i)
  have "mset (xs[Suc i := xs ! i, i := xs ! Suc i]) = mset xs" using Suc.prems by (intro mset_swap) simp_all
  with Suc show ?case by (simp add: Let_def)
qed simp

lemma sink_above: "i < k \<Longrightarrow> sink xs i ! k = xs ! k"
  by (induction i arbitrary: xs) (simp_all add: Let_def)

text \<open>Positions \<open>0..i\<close> are sorted but for the entry at \<open>i\<close>, which is at most what comes after it.\<close>

lemma sink_sorts:
  assumes "i < length xs" and "i < n" and "n \<le> length xs"
    and "\<And>j k. j < k \<Longrightarrow> k < n \<Longrightarrow> k \<noteq> i \<Longrightarrow> xs ! j \<le> xs ! k"
  shows "j < k \<Longrightarrow> k < n \<Longrightarrow> sink xs i ! j \<le> sink xs i ! k"
  using assms
proof (induction i arbitrary: xs j k)
  case 0
  then show ?case by simp
next
  case (Suc i)
  note srt = Suc.prems(6)
  show ?case
  proof (cases "xs ! i > xs ! Suc i")
    case False
    then have le: "xs ! i \<le> xs ! Suc i" by simp
    have "xs ! j \<le> xs ! k"
    proof (cases "k = Suc i")
      case True
      show ?thesis
      proof (cases "j = i")
        case False
        with True Suc.prems(1) have "j < i" by simp
        then have "xs ! j \<le> xs ! i" using Suc.prems by (intro srt) simp_all
        with le True show ?thesis by simp
      qed (use le True in simp)
    qed (use Suc.prems in simp)
    with False show ?thesis by (simp add: Let_def)
  next
    case True
    let ?ys = "xs[Suc i := xs ! i, i := xs ! Suc i]"
    have "sink ?ys i ! j \<le> sink ?ys i ! k"
    proof (rule Suc.IH)
      fix j k assume jk: "j < k" "k < n" "k \<noteq> i"
      show "?ys ! j \<le> ?ys ! k"
      proof (cases "k = Suc i")
        case k: True
        with jk have "j = i \<or> j < i" by auto
        then show ?thesis
        proof
          assume "j = i"
          with k True Suc.prems(3) show ?thesis by simp
        next
          assume "j < i"
          then have "xs ! j \<le> xs ! i" using Suc.prems by (intro srt) simp_all
          with k \<open>j < i\<close> Suc.prems(3) show ?thesis by simp
        qed
      next
        case False
        have "xs ! j \<le> xs ! k" using jk False by (intro srt)
        moreover have "xs ! i \<le> xs ! k" "xs ! Suc i \<le> xs ! k" if "i < k"
          using that jk(2) False by (auto intro!: srt)
        ultimately show ?thesis using jk False Suc.prems(3) by (auto simp: nth_list_update)
      qed
    qed (use Suc.prems in simp_all)
    with True show ?thesis by (simp add: Let_def)
  qed
qed

lemma insertion_loop_sorts:
  assumes "\<And>j k. j < k \<Longrightarrow> k < m \<Longrightarrow> xs ! j \<le> xs ! k" and "m \<le> length xs"
  shows "sorted (insertion_loop xs [m..<length xs]) \<and> mset (insertion_loop xs [m..<length xs]) = mset xs"
  using assms
proof (induction "length xs - m" arbitrary: m xs)
  case 0
  then show ?case by (simp add: sorted_iff_nth_mono_less)
next
  case (Suc d)
  then have m: "m < length xs" by simp
  have "sorted (insertion_loop (sink xs m) [Suc m..<length (sink xs m)]) \<and>
      mset (insertion_loop (sink xs m) [Suc m..<length (sink xs m)]) = mset (sink xs m)"
  proof (rule Suc.hyps)
    show "sink xs m ! j \<le> sink xs m ! k" if "j < k" "k < Suc m" for j k
      by (rule sink_sorts [of m xs "Suc m"]) (use that m Suc.prems(1) in simp_all)
  qed (use m Suc.hyps(2) in simp_all)
  with m show ?case by (simp add: upt_conv_Cons sink_mset)
qed

lemma insertion_sort_sort: "insertion_sort xs = sort xs"
proof -
  have "sorted (insertion_sort xs) \<and> mset (insertion_sort xs) = mset xs"
  proof (cases "xs = []")
    case False
    then have "(1::nat) \<le> length xs" by (simp add: Suc_leI)
    then show ?thesis unfolding insertion_sort_def by (intro insertion_loop_sorts) simp_all
  qed (simp add: insertion_sort_def)
  then show ?thesis by (metis properties_for_sort)
qed

text \<open>
  The commitment depends only on which entries there are: it is the hash of the sorted entries, and two states whose
  entries are the same up to their order have the same commitment and the same count.
\<close>

theorem commitment_order_independent:
  assumes "mset (epoch_entries X s (unwrap_or (ss_all_epochs s) [])) = mset (epoch_entries X t (unwrap_or (ss_all_epochs t) []))"
  shows "export_commitment_with_count sha X s = export_commitment_with_count sha X t \<and>
    export_snapshot_commitment sha X t = sha (concat (sort (epoch_entries X s (unwrap_or (ss_all_epochs s) []))))"
proof -
  have "sort (epoch_entries X t (unwrap_or (ss_all_epochs t) [])) = sort (epoch_entries X s (unwrap_or (ss_all_epochs s) []))"
    using assms by (metis mset_sort properties_for_sort sorted_sort)
  then show ?thesis
    by (simp add: export_commitment_with_count_def export_snapshot_commitment_def insertion_sort_sort Let_def)
qed

section \<open>The indexes\<close>

text \<open>What a call leaves of an epoch that is finalized.\<close>

definition epoch_kept :: "sstring \<Rightarrow> snap_state \<Rightarrow> snap_state \<Rightarrow> bool" where
  "epoch_kept e s s' \<longleftrightarrow> (has_epoch_finalization s e \<longrightarrow>
     ss_epoch_finalization s' e = ss_epoch_finalization s e \<and> (\<forall>b. ss_snapshot s' (b, e) = ss_snapshot s (b, e)) \<and>
     ss_epoch_businesses s' e = ss_epoch_businesses s e)"

lemma epoch_kept_trans: "epoch_kept e s t \<Longrightarrow> epoch_kept e t u \<Longrightarrow> epoch_kept e s u"
  by (auto simp: epoch_kept_def has_epoch_finalization_def)

definition periods_of :: "snap_state \<Rightarrow> address \<Rightarrow> sstring list" where
  "periods_of s b = unwrap_or (ss_business_periods s b) []"

lemma periods_of_update [simp]:
  "periods_of (s\<lparr>ss_snapshot := x\<rparr>) = periods_of s" "periods_of (s\<lparr>ss_epoch_businesses := y\<rparr>) = periods_of s"
  "periods_of (s\<lparr>ss_business_periods := (ss_business_periods s)(b \<mapsto> ps)\<rparr>) = (periods_of s)(b := ps)"
  by (auto simp: periods_of_def fun_eq_iff)

lemma read_epoch_update [simp]:
  "read_epoch_businesses (s\<lparr>ss_snapshot := x\<rparr>) = read_epoch_businesses s"
  "read_epoch_businesses (s\<lparr>ss_business_periods := y\<rparr>) = read_epoch_businesses s"
  "read_epoch_businesses (s\<lparr>ss_epoch_businesses := (ss_epoch_businesses s)(e \<mapsto> bs)\<rparr>) = (read_epoch_businesses s)(e := bs)"
  by (auto simp: read_epoch_businesses_def fun_eq_iff)

definition listed :: "'a \<Rightarrow> 'a list \<Rightarrow> 'a list" where
  "listed x xs = (if x \<in> set xs then xs else xs @ [x])"

lemma listed_simps [simp]: "set (listed x xs) = insert x (set xs)" "distinct (listed x xs) = distinct xs"
  by (auto simp: listed_def)

lemma index_period_eq: "index_period_for_business b p s =
    (if p \<in> set (periods_of s b) then Inr s
     else bindr (assertr (length (periods_of s b) < MAX_BUSINESS_PERIODS) ''business period index limit reached'') (\<lambda>_.
       Inr (s\<lparr>ss_business_periods := (ss_business_periods s)(b \<mapsto> listed p (periods_of s b))\<rparr>)))"
  by (simp add: index_period_for_business_def Let_def periods_of_def listed_def)

lemma index_business_eq: "index_business_for_epoch e b s =
    (if b \<in> set (read_epoch_businesses s e) then Inr s
     else bindr (assertr (length (read_epoch_businesses s e) < MAX_EPOCH_BUSINESSES) ''epoch business index limit reached'') (\<lambda>_.
       Inr (s\<lparr>ss_epoch_businesses := (ss_epoch_businesses s)(e \<mapsto> listed b (read_epoch_businesses s e))\<rparr>)))"
  by (simp add: index_business_for_epoch_def Let_def read_epoch_businesses_def listed_def)

lemma index_period_Inr:
  assumes "index_period_for_business b p s = Inr s'"
  obtains "s' = s \<or> s' = s\<lparr>ss_business_periods := (ss_business_periods s)(b \<mapsto> listed p (periods_of s b))\<rparr>"
    "periods_of s' = (periods_of s)(b := listed p (periods_of s b))"
    "length (periods_of s b) \<le> MAX_BUSINESS_PERIODS \<Longrightarrow> length (listed p (periods_of s b)) \<le> MAX_BUSINESS_PERIODS"
proof (cases "p \<in> set (periods_of s b)")
  case True
  then have l: "listed p (periods_of s b) = periods_of s b" by (simp add: listed_def)
  have "s' = s" using assms True by (simp add: index_period_eq)
  then show ?thesis by (intro that) (simp_all add: l fun_upd_idem)
next
  case False
  then have "length (listed p (periods_of s b)) = Suc (length (periods_of s b))" by (simp add: listed_def)
  moreover have "length (periods_of s b) < MAX_BUSINESS_PERIODS"
    and s': "s' = s\<lparr>ss_business_periods := (ss_business_periods s)(b \<mapsto> listed p (periods_of s b))\<rparr>"
    using assms False by (auto simp: index_period_eq)
  ultimately show ?thesis by (intro that) (simp_all add: s')
qed

lemma index_business_Inr:
  assumes "index_business_for_epoch e b s = Inr s'"
  obtains "s' = s \<or> s' = s\<lparr>ss_epoch_businesses := (ss_epoch_businesses s)(e \<mapsto> listed b (read_epoch_businesses s e))\<rparr>"
    "read_epoch_businesses s' = (read_epoch_businesses s)(e := listed b (read_epoch_businesses s e))"
    "length (read_epoch_businesses s e) \<le> MAX_EPOCH_BUSINESSES \<Longrightarrow> length (listed b (read_epoch_businesses s e)) \<le> MAX_EPOCH_BUSINESSES"
proof (cases "b \<in> set (read_epoch_businesses s e)")
  case True
  then have l: "listed b (read_epoch_businesses s e) = read_epoch_businesses s e" by (simp add: listed_def)
  have "s' = s" using assms True by (simp add: index_business_eq)
  then show ?thesis by (intro that) (simp_all add: l fun_upd_idem)
next
  case False
  then have "length (listed b (read_epoch_businesses s e)) = Suc (length (read_epoch_businesses s e))" by (simp add: listed_def)
  moreover have "length (read_epoch_businesses s e) < MAX_EPOCH_BUSINESSES"
    and s': "s' = s\<lparr>ss_epoch_businesses := (ss_epoch_businesses s)(e \<mapsto> listed b (read_epoch_businesses s e))\<rparr>"
    using assms False by (auto simp: index_business_eq)
  ultimately show ?thesis by (intro that) (simp_all add: s')
qed

lemma index_globally_fields [simp]:
  "ss_snapshot (index_epoch_globally e s) = ss_snapshot s" "ss_business_periods (index_epoch_globally e s) = ss_business_periods s"
  "ss_epoch_businesses (index_epoch_globally e s) = ss_epoch_businesses s"
  "ss_epoch_finalization (index_epoch_globally e s) = ss_epoch_finalization s"
  "periods_of (index_epoch_globally e s) = periods_of s" "read_epoch_businesses (index_epoch_globally e s) = read_epoch_businesses s"
  by (simp_all add: index_epoch_globally_def Let_def periods_of_def read_epoch_businesses_def fun_eq_iff)

text \<open>The record and its two index entries: the common step of \<open>record_snapshot\<close> and of the restore loop.\<close>

definition put_record :: "address \<Rightarrow> sstring \<Rightarrow> snapshot_record \<Rightarrow> snap_state \<Rightarrow> snap_state res" where
  "put_record b p r s =
     bindr (index_period_for_business b p (s\<lparr>ss_snapshot := (ss_snapshot s)((b, p) \<mapsto> r)\<rparr>)) (index_business_for_epoch p b)"

lemma put_record_Inr:
  assumes "put_record b p r s = Inr s'"
  shows "ss_snapshot s' = (ss_snapshot s)((b, p) \<mapsto> r)" and "ss_epoch_finalization s' = ss_epoch_finalization s"
    and "periods_of s' = (periods_of s)(b := listed p (periods_of s b))"
    and "read_epoch_businesses s' = (read_epoch_businesses s)(p := listed b (read_epoch_businesses s p))"
    and "\<And>e. e \<noteq> p \<Longrightarrow> ss_epoch_businesses s' e = ss_epoch_businesses s e"
    and "length (periods_of s b) \<le> MAX_BUSINESS_PERIODS \<Longrightarrow> length (listed p (periods_of s b)) \<le> MAX_BUSINESS_PERIODS"
    and "length (read_epoch_businesses s p) \<le> MAX_EPOCH_BUSINESSES \<Longrightarrow>
      length (listed b (read_epoch_businesses s p)) \<le> MAX_EPOCH_BUSINESSES"
    and "ss_admin s' = ss_admin s" and "ss_pending_restore s' = ss_pending_restore s" and "ss_all_epochs s' = ss_all_epochs s"
proof -
  from assms obtain s1 where 1: "index_period_for_business b p (s\<lparr>ss_snapshot := (ss_snapshot s)((b, p) \<mapsto> r)\<rparr>) = Inr s1"
    and 2: "index_business_for_epoch p b s1 = Inr s'" by (auto simp: put_record_def)
  show "ss_snapshot s' = (ss_snapshot s)((b, p) \<mapsto> r)" "ss_epoch_finalization s' = ss_epoch_finalization s"
    "ss_admin s' = ss_admin s" "ss_pending_restore s' = ss_pending_restore s" "ss_all_epochs s' = ss_all_epochs s"
    "periods_of s' = (periods_of s)(b := listed p (periods_of s b))"
    "read_epoch_businesses s' = (read_epoch_businesses s)(p := listed b (read_epoch_businesses s p))"
    "length (periods_of s b) \<le> MAX_BUSINESS_PERIODS \<Longrightarrow> length (listed p (periods_of s b)) \<le> MAX_BUSINESS_PERIODS"
    "length (read_epoch_businesses s p) \<le> MAX_EPOCH_BUSINESSES \<Longrightarrow>
      length (listed b (read_epoch_businesses s p)) \<le> MAX_EPOCH_BUSINESSES"
    by (rule index_period_Inr [OF 1], rule index_business_Inr [OF 2], auto)+
  show "ss_epoch_businesses s' e = ss_epoch_businesses s e" if "e \<noteq> p" for e
    by (rule index_period_Inr [OF 1], rule index_business_Inr [OF 2]) (use that in auto)
qed

lemma write_loop_put:
  "write_loop (entry # entries) s =
     (if has_epoch_finalization s (re_period entry) then write_loop entries s
      else bindr (put_record (re_business entry) (re_period entry) (re_record entry) s) (write_loop entries))"
  by (simp add: put_record_def Let_def bindr_def split: sum.split)

lemma record_snapshot_Inr:
  assumes "record_snapshot C env caller b p r n k s w = Inr (s', w')"
  obtains s1 where "authorized env caller" "ss_admin s = Some caller \<or> is_writer s caller" "\<not> has_epoch_finalization s p"
    "length p \<le> SNAP_MAX_PERIOD_BYTES"
    "put_record b p \<lparr>sn_period = p, sn_trailing_revenue = r, sn_anomaly_count = n, sn_attestation_count = k, sn_recorded_at = timestamp env\<rparr> s = Inr s1"
    "s' = index_epoch_globally p s1"
    "\<And>c. ss_attestation_contract s = Some c \<Longrightarrow> \<exists>d w1. ac_get_attestation C c b p w = Inr (Some d, w1) \<and>
       ac_get_revocation_info C c b p w1 = Inr (None, w')"
  using assms
  by (auto simp: record_snapshot_def Let_def put_record_def require_admin_or_writer_def is_writer_def snap_assert_period_within_limit_def
      split: option.splits)

declare write_loop.simps(2) [simp del]

section \<open>Restores\<close>

lemma put_keeps_epoch: "put_record b p r s = Inr s' \<Longrightarrow> e \<noteq> p \<Longrightarrow> epoch_kept e s s'"
  by (auto simp: epoch_kept_def put_record_Inr)

lemma write_loop_keeps_epoch: "write_loop entries s = Inr s' \<Longrightarrow> epoch_kept e s s'"
proof (induction entries arbitrary: s)
  case Nil
  then show ?case by (simp add: epoch_kept_def)
next
  case (Cons entry entries)
  show ?case
  proof (cases "has_epoch_finalization s (re_period entry)")
    case True
    with Cons show ?thesis by (simp add: write_loop_put)
  next
    case False
    with Cons.prems obtain s1 where 1: "put_record (re_business entry) (re_period entry) (re_record entry) s = Inr s1"
      and 2: "write_loop entries s1 = Inr s'" by (auto simp: write_loop_put)
    have "epoch_kept e s s1"
      by (cases "e = re_period entry") (use False in \<open>simp add: epoch_kept_def\<close>, rule put_keeps_epoch [OF 1])
    then show ?thesis by (rule epoch_kept_trans [OF _ Cons.IH [OF 2]])
  qed
qed

lemma write_loop_finalization: "write_loop entries s = Inr s' \<Longrightarrow> ss_epoch_finalization s' = ss_epoch_finalization s"
proof (induction entries arbitrary: s)
  case (Cons entry entries)
  then show ?case
    by (auto simp: write_loop_put put_record_Inr(2) split: if_splits)
qed simp

text \<open>What a restore writes: for every business and period the last entry of the batch, unless the epoch is final.\<close>

definition restored :: "restore_entry list \<Rightarrow> address \<Rightarrow> sstring \<Rightarrow> snapshot_record option" where
  "restored entries b p = map_of (rev (map (\<lambda>e. ((re_business e, re_period e), re_record e)) entries)) (b, p)"

lemma restored_Nil [simp]: "restored [] b p = None"
  by (simp add: restored_def)

lemma restored_Cons: "restored (e # es) b p =
    (case restored es b p of Some r \<Rightarrow> Some r | None \<Rightarrow> if re_business e = b \<and> re_period e = p then Some (re_record e) else None)"
  by (auto simp: restored_def map_add_def split: option.splits)

lemma write_loop_snapshot:
  "write_loop entries s = Inr s' \<Longrightarrow>
   ss_snapshot s' (b, p) = (if has_epoch_finalization s p then ss_snapshot s (b, p)
     else case restored entries b p of Some r \<Rightarrow> Some r | None \<Rightarrow> ss_snapshot s (b, p))"
proof (induction entries arbitrary: s)
  case (Cons entry entries)
  show ?case
  proof (cases "has_epoch_finalization s (re_period entry)")
    case True
    with Cons show ?thesis by (auto simp: write_loop_put restored_Cons split: option.splits)
  next
    case False
    with Cons.prems obtain s1 where 1: "put_record (re_business entry) (re_period entry) (re_record entry) s = Inr s1"
      and 2: "write_loop entries s1 = Inr s'" by (auto simp: write_loop_put)
    have "has_epoch_finalization s1 p = has_epoch_finalization s p"
      by (simp add: has_epoch_finalization_def put_record_Inr(2) [OF 1])
    with Cons.IH [OF 2] False show ?thesis
      by (auto simp: put_record_Inr(1) [OF 1] restored_Cons split: option.splits)
  qed
qed simp

text \<open>The two loops over the declared and the actual counts.\<close>

lemma last_recorded_None: "last_recorded ps b = None \<longleftrightarrow> b \<notin> fst ` set ps"
  by (induction ps b rule: last_recorded.induct) auto

lemma last_recorded_append: "last_recorded (ps @ qs) b = (case last_recorded ps b of Some t \<Rightarrow> Some t | None \<Rightarrow> last_recorded qs b)"
  by (induction ps) auto

lemma last_recorded_bump:
  "last_recorded (bump_actual ps b) c = (if c = b then Some (unwrap_or (last_recorded ps b) 0 + 1) else last_recorded ps c)"
proof -
  have "last_recorded (map (\<lambda>kp. if fst kp = b then (b, snd kp + 1) else kp) ps) c =
      (if c = b then map_option Suc (last_recorded ps b) else last_recorded ps c)"
    by (induction ps) auto
  moreover have "last_recorded ps b = None \<longleftrightarrow> b \<notin> fst ` set ps" by (rule last_recorded_None)
  ultimately show ?thesis by (auto simp: last_recorded_append split: option.splits)
qed

lemma bump_keys: "fst ` set (bump_actual ps b) = insert b (fst ` set ps)"
proof (rule set_eqI)
  fix c
  show "c \<in> fst ` set (bump_actual ps b) \<longleftrightarrow> c \<in> insert b (fst ` set ps)"
    using last_recorded_None [of "bump_actual ps b" c] last_recorded_None [of ps c] last_recorded_bump [of ps b c]
    by (simp split: if_splits)
qed

declare bump_actual.simps [simp del]

lemma count_loop_actual:
  "last_recorded (snd (count_loop entries ds as)) b =
     (if b \<in> fst ` set as \<or> b \<in> re_business ` set entries
      then Some (unwrap_or (last_recorded as b) 0 + length (filter (\<lambda>e. re_business e = b) entries)) else None)"
proof (induction entries arbitrary: ds as)
  case Nil
  show ?case using last_recorded_None [of as b] by (cases "last_recorded as b") simp_all
next
  case (Cons e es)
  show ?case by (auto simp: Cons bump_keys last_recorded_bump)
qed

lemma count_loop_declared:
  "last_recorded (fst (count_loop entries ds as)) b =
     (case last_recorded ds b of Some t \<Rightarrow> Some t
      | None \<Rightarrow> map_option re_business_count (find (\<lambda>e. re_business e = b) entries))"
proof (induction entries arbitrary: ds as)
  case Nil
  show ?case by (simp split: option.split)
next
  case (Cons e es)
  show ?case
  proof (cases "re_business e \<in> fst ` set ds")
    case True
    then have "last_recorded ds (re_business e) \<noteq> None" by (simp add: last_recorded_None)
    with True Cons show ?thesis by (auto split: option.splits)
  next
    case False
    then have "last_recorded ds (re_business e) = None" by (simp add: last_recorded_None)
    with False Cons show ?thesis by (auto simp: last_recorded_append split: option.splits)
  qed
qed

lemma last_recorded_in: "last_recorded ps b = Some t \<Longrightarrow> (b, t) \<in> set ps"
  by (induction ps) (auto split: if_splits)

lemma compare_loop_Inr: "compare_loop ps as = Inr u \<Longrightarrow> (b, d) \<in> set ps \<Longrightarrow> d = unwrap_or (last_recorded as b) 0"
  by (induction ps) (auto simp: Let_def)

lemma counts_checked:
  assumes "compare_loop (fst (count_loop entries [] [])) (snd (count_loop entries [] [])) = Inr u"
    and "find (\<lambda>e. re_business e = b) entries = Some e"
  shows "re_business_count e = length (filter (\<lambda>e. re_business e = b) entries)"
proof -
  have "last_recorded (fst (count_loop entries [] [])) b = Some (re_business_count e)"
    by (simp add: count_loop_declared assms(2))
  then have "re_business_count e = unwrap_or (last_recorded (snd (count_loop entries [] [])) b) 0"
    by (intro compare_loop_Inr [OF assms(1)] last_recorded_in)
  moreover from assms(2) obtain i where "i < length entries" "e = entries ! i" "re_business e = b" by (auto simp: find_Some_iff)
  then have "b \<in> re_business ` set entries" by auto
  ultimately show ?thesis by (simp add: count_loop_actual)
qed

lemma restore_commit_Inr:
  assumes "restore_commit sha X env caller entries s = Inr s'"
  obtains token s2 where "authorized env caller" "ss_admin s = Some caller" "ss_pending_restore s caller = Some token"
    "sequence env \<le> pt_expires_at_ledger token" "compute_batch_hash sha X entries = pt_batch_hash token"
    "\<And>b e. find (\<lambda>e. re_business e = b) entries = Some e \<Longrightarrow>
       re_business_count e = length (filter (\<lambda>e. re_business e = b) entries)"
    "write_loop entries (s\<lparr>ss_pending_restore := (ss_pending_restore s)(caller := None)\<rparr>) = Inr s2"
    "s' = s2\<lparr>ss_last_restore_id := Some (compute_batch_hash sha X entries)\<rparr>"
proof -
  obtain token s2 u where 1: "authorized env caller" "ss_admin s = Some caller" "ss_pending_restore s caller = Some token"
    "sequence env \<le> pt_expires_at_ledger token" "compute_batch_hash sha X entries = pt_batch_hash token"
    "write_loop entries (s\<lparr>ss_pending_restore := (ss_pending_restore s)(caller := None)\<rparr>) = Inr s2"
    "s' = s2\<lparr>ss_last_restore_id := Some (compute_batch_hash sha X entries)\<rparr>"
    and 2: "compare_loop (fst (count_loop entries [] [])) (snd (count_loop entries [] [])) = Inr u"
    using assms by (auto simp: restore_commit_def Let_def snap_require_admin_def case_prod_beta)
  show ?thesis by (rule that [OF 1(1-5) counts_checked [OF 2] 1(6,7)])
qed

section \<open>Finalized epochs\<close>

lemma snap_admin_calls:
  "snap_initialize env a c s = Inr s' \<Longrightarrow> epoch_kept e s s'"
  "snap_set_attestation_contract env a c s = Inr s' \<Longrightarrow> epoch_kept e s s'"
  "add_writer env a x s = Inr s' \<Longrightarrow> epoch_kept e s s'"
  "remove_writer env a x s = Inr s' \<Longrightarrow> epoch_kept e s s'"
  "finalize_epoch env a f s = Inr s' \<Longrightarrow> epoch_kept e s s'"
  "restore_dry_run sha X env a es s = Inr (r, s') \<Longrightarrow> epoch_kept e s s'"
  by (auto simp: epoch_kept_def has_epoch_finalization_def snap_initialize_def snap_set_attestation_contract_def add_writer_def
      remove_writer_def finalize_epoch_def restore_dry_run_def Let_def split: option.splits)

lemma snap_step_keeps_epoch:
  assumes "snap_step C sha X (env, c) (s, w) = Inr (s', w')"
  shows "epoch_kept e s s'"
proof (cases c)
  case (SnRecord a b p r n k)
  with assms have "record_snapshot C env a b p r n k s w = Inr (s', w')" by simp
  then show ?thesis
  proof (rule record_snapshot_Inr)
    fix s1
    assume nf: "\<not> has_epoch_finalization s p" and s': "s' = index_epoch_globally p s1"
      and put: "put_record b p \<lparr>sn_period = p, sn_trailing_revenue = r, sn_anomaly_count = n, sn_attestation_count = k,
        sn_recorded_at = timestamp env\<rparr> s = Inr s1"
    have "epoch_kept e s s1"
      by (cases "e = p") (use nf in \<open>simp add: epoch_kept_def\<close>, rule put_keeps_epoch [OF put])
    then show ?thesis by (simp add: s' epoch_kept_def)
  qed
next
  case (SnCommit a es)
  with assms have "restore_commit sha X env a es s = Inr s'" by auto
  then show ?thesis
  proof (rule restore_commit_Inr)
    fix s2
    assume "write_loop es (s\<lparr>ss_pending_restore := (ss_pending_restore s)(a := None)\<rparr>) = Inr s2"
      and s': "s' = s2\<lparr>ss_last_restore_id := Some (compute_batch_hash sha X es)\<rparr>"
    from write_loop_keeps_epoch [OF this(1), of e] s' show ?thesis by (simp add: epoch_kept_def has_epoch_finalization_def)
  qed
next
  case (SnOther f)
  with assms show ?thesis by (simp add: epoch_kept_def)
qed (use assms snap_admin_calls in \<open>auto simp: split_def\<close>)

lemma write_loop_pending: "write_loop entries s = Inr s' \<Longrightarrow> ss_pending_restore s' = ss_pending_restore s"
proof (induction entries arbitrary: s)
  case (Cons e es)
  then show ?case by (auto simp: write_loop_put put_record_Inr(9) split: if_splits)
qed simp

section \<open>The invariant\<close>

definition snap_ok :: "snap_state \<Rightarrow> bool" where
  "snap_ok s \<longleftrightarrow>
     (\<forall>b p. ss_snapshot s (b, p) \<noteq> None \<longleftrightarrow> p \<in> set (periods_of s b)) \<and>
     (\<forall>b p. b \<in> set (read_epoch_businesses s p) \<longleftrightarrow> p \<in> set (periods_of s b)) \<and>
     (\<forall>b. distinct (periods_of s b) \<and> length (periods_of s b) \<le> MAX_BUSINESS_PERIODS) \<and>
     (\<forall>p. distinct (read_epoch_businesses s p) \<and> length (read_epoch_businesses s p) \<le> MAX_EPOCH_BUSINESSES) \<and>
     (\<forall>e f. ss_epoch_finalization s e = Some f \<longrightarrow> ef_epoch f = e \<and> ef_snapshot_count f = length (read_epoch_businesses s e) \<and>
        read_epoch_businesses s e \<noteq> [])"

lemma snap_ok_cong:
  assumes "ss_snapshot s' = ss_snapshot s" and "ss_business_periods s' = ss_business_periods s"
    and "ss_epoch_businesses s' = ss_epoch_businesses s" and "ss_epoch_finalization s' = ss_epoch_finalization s"
  shows "snap_ok s' \<longleftrightarrow> snap_ok s"
proof -
  have "periods_of s' = periods_of s" "read_epoch_businesses s' = read_epoch_businesses s"
    using assms by (simp_all add: periods_of_def read_epoch_businesses_def fun_eq_iff)
  with assms show ?thesis by (simp add: snap_ok_def)
qed

lemma snap_ok_put:
  assumes "snap_ok s" and put: "put_record b p r s = Inr s'" and nf: "\<not> has_epoch_finalization s p"
  shows "snap_ok s'"
proof -
  note p = put_record_Inr [OF put]
  have "ss_epoch_finalization s p = None" using nf by (simp add: has_epoch_finalization_def)
  moreover have "length (listed p (periods_of s b)) \<le> MAX_BUSINESS_PERIODS"
    "length (listed b (read_epoch_businesses s p)) \<le> MAX_EPOCH_BUSINESSES"
    using assms(1) by (auto intro: p(6,7) simp: snap_ok_def)
  moreover have "(\<forall>c q. ss_snapshot s' (c, q) \<noteq> None \<longleftrightarrow> q \<in> set (periods_of s' c))"
    using assms(1) by (auto simp: snap_ok_def p(1,3))
  moreover have "(\<forall>c q. c \<in> set (read_epoch_businesses s' q) \<longleftrightarrow> q \<in> set (periods_of s' c))"
    using assms(1) by (auto simp: snap_ok_def p(3,4))
  moreover have "ef_epoch f = e \<and> ef_snapshot_count f = length (read_epoch_businesses s' e) \<and> read_epoch_businesses s' e \<noteq> []"
    if "ss_epoch_finalization s' e = Some f" for e f
  proof -
    have "e \<noteq> p" "ss_epoch_finalization s e = Some f" using that \<open>ss_epoch_finalization s p = None\<close> by (auto simp: p(2))
    with assms(1) show ?thesis unfolding snap_ok_def by (simp add: p(4))
  qed
  moreover have "distinct (periods_of s' c) \<and> length (periods_of s' c) \<le> MAX_BUSINESS_PERIODS"
    "distinct (read_epoch_businesses s' q) \<and> length (read_epoch_businesses s' q) \<le> MAX_EPOCH_BUSINESSES" for c q
    using assms(1) calculation(2,3) unfolding snap_ok_def by (simp_all add: p(3,4))
  ultimately show ?thesis unfolding snap_ok_def by blast
qed

lemma snap_ok_write: "write_loop entries s = Inr s' \<Longrightarrow> snap_ok s \<Longrightarrow> snap_ok s'"
proof (induction entries arbitrary: s)
  case (Cons e es)
  then show ?case by (auto simp: write_loop_put split: if_splits intro: snap_ok_put)
qed simp

lemma snap_ok_step:
  assumes "snap_ok s" and "snap_step C sha X (env, c) (s, w) = Inr (s', w')"
  shows "snap_ok s'"
proof (cases c)
  case (SnRecord a b p r n k)
  with assms(2) have "record_snapshot C env a b p r n k s w = Inr (s', w')" by simp
  then show ?thesis
    by (rule record_snapshot_Inr) (use assms(1) in \<open>auto simp: snap_ok_cong [OF index_globally_fields(1-4)] intro: snap_ok_put\<close>)
next
  case (SnCommit a es)
  with assms(2) have "restore_commit sha X env a es s = Inr s'" by auto
  then show ?thesis
  proof (rule restore_commit_Inr)
    fix s2
    let ?s1 = "s\<lparr>ss_pending_restore := (ss_pending_restore s)(a := None)\<rparr>"
    assume w: "write_loop es ?s1 = Inr s2" and s': "s' = s2\<lparr>ss_last_restore_id := Some (compute_batch_hash sha X es)\<rparr>"
    have "snap_ok ?s1" using assms(1) by (subst snap_ok_cong [of _ s]) simp_all
    then have "snap_ok s2" by (rule snap_ok_write [OF w])
    then show ?thesis unfolding s' by (subst snap_ok_cong [of _ s2]) simp_all
  qed
next
  case (SnFinalize a e)
  with assms(2) obtain n where n: "n = length (read_epoch_businesses s e)" "0 < n"
    and s': "s' = s\<lparr>ss_epoch_finalization := (ss_epoch_finalization s)(e \<mapsto>
        \<lparr>ef_epoch = e, ef_snapshot_count = n, ef_finalized_at = timestamp env, ef_finalized_by = a\<rparr>)\<rparr>"
    by (auto simp: finalize_epoch_def Let_def)
  have "periods_of s' = periods_of s" "read_epoch_businesses s' = read_epoch_businesses s" "ss_snapshot s' = ss_snapshot s"
    by (simp_all add: s' periods_of_def read_epoch_businesses_def fun_eq_iff)
  note eqs = this
  have "ef_epoch f = x \<and> ef_snapshot_count f = length (read_epoch_businesses s' x) \<and> read_epoch_businesses s' x \<noteq> []"
    if "ss_epoch_finalization s' x = Some f" for x f
  proof (cases "x = e")
    case True
    with that have "f = \<lparr>ef_epoch = e, ef_snapshot_count = n, ef_finalized_at = timestamp env, ef_finalized_by = a\<rparr>" by (simp add: s')
    with n True show ?thesis by (simp add: eqs)
  next
    case False
    then have "ss_epoch_finalization s x = Some f" using that by (simp add: s')
    with assms(1) show ?thesis unfolding snap_ok_def by (simp add: eqs)
  qed
  with assms(1) show ?thesis unfolding snap_ok_def eqs by blast
next
  case (SnOther f)
  with assms show ?thesis by simp
qed (use assms in \<open>auto simp: snap_initialize_def snap_set_attestation_contract_def add_writer_def remove_writer_def
    restore_dry_run_def Let_def split_def snap_ok_cong [of "s\<lparr>ss_admin := x\<rparr>" s for x] snap_ok_cong [of "s\<lparr>ss_writer := x\<rparr>" s for x]
    snap_ok_cong [of "s\<lparr>ss_attestation_contract := x\<rparr>" s for x] snap_ok_cong [of "s\<lparr>ss_pending_restore := x\<rparr>" s for x]
    snap_ok_cong [of "s\<lparr>ss_admin := x, ss_attestation_contract := y\<rparr>" s for x y] split: option.splits if_splits\<close>)

interpretation snaps: invariant_machine "\<lambda>x. fst x = snap_empty" "snap_step C sha X" "\<lambda>x. snap_ok (fst x)" for C sha X
proof
  show "snap_ok (fst x)" if "fst x = snap_empty" for x
    using that by (simp add: snap_ok_def snap_empty_def periods_of_def read_epoch_businesses_def)
  show "snap_ok (fst x')" if "snap_ok (fst x)" "snap_step C sha X e x = Inr x'" for x e x'
    using that by (cases e; cases x; cases x') (auto intro: snap_ok_step)
qed

lemma snapshots_loop_map:
  "\<forall>p\<in>set ps. ss_snapshot s (b, p) \<noteq> None \<Longrightarrow> snapshots_loop s b out ps = out @ map (\<lambda>p. the (ss_snapshot s (b, p))) ps"
  by (induction ps arbitrary: out) auto

section \<open>What the contract promises\<close>

text \<open>
  C37. A finalized epoch is frozen: along every history of calls its finalization stays as it is, and so do the list of
  its businesses and every snapshot in it, through recordings and restores alike.
\<close>

theorem finalized_epoch_frozen:
  assumes "get_epoch_finalization s e = Some f"
  shows "get_epoch_finalization (fst (run (snap_step C sha X) es (s, w))) e = Some f \<and>
    (\<forall>b. get_snapshot (fst (run (snap_step C sha X) es (s, w))) b e = get_snapshot s b e) \<and>
    get_epoch_businesses (fst (run (snap_step C sha X) es (s, w))) e = get_epoch_businesses s e"
proof -
  have "epoch_kept e (fst (s, w)) (fst (run (snap_step C sha X) es (s, w)))"
  proof (rule run_rel_any [where R = "\<lambda>x y. epoch_kept e (fst x) (fst y)"])
    fix x y and c :: "ledger_env \<times> 'a snap_call"
    assume "snap_step C sha X c x = Inr y"
    then show "epoch_kept e (fst x) (fst y)" by (cases c; cases x; cases y) (auto intro: snap_step_keeps_epoch)
  next
    show "epoch_kept e (fst x) (fst x)" for x :: "snap_state \<times> 'a" by (simp add: epoch_kept_def)
    show "epoch_kept e (fst x) (fst z)" if "epoch_kept e (fst x) (fst y)" "epoch_kept e (fst y) (fst z)"
      for x y z :: "snap_state \<times> 'a" by (rule epoch_kept_trans [OF that])
  qed
  with assms show ?thesis
    by (auto simp: epoch_kept_def has_epoch_finalization_def get_epoch_finalization_def get_snapshot_def get_epoch_businesses_def
        read_epoch_businesses_def)
qed

text \<open>
  The indexes are exact. In every reachable state a snapshot exists for a business and a period exactly if the period
  is listed for the business, and exactly if the business is listed for the period, each once and within the limits; the
  query for a business returns each of its records once, and a finalization counts the snapshots of its epoch.
\<close>

theorem snapshots_indexed:
  assumes "reachable (\<lambda>x. fst x = snap_empty) (snap_step C sha X) (s, w)"
  shows "(\<forall>b p. get_snapshot s b p \<noteq> None \<longleftrightarrow> b \<in> set (get_epoch_businesses s p)) \<and>
    (\<forall>b. \<exists>ps. distinct ps \<and> set ps = {p. get_snapshot s b p \<noteq> None} \<and> length ps \<le> MAX_BUSINESS_PERIODS \<and>
       get_snapshots_for_business s b = map (\<lambda>p. the (get_snapshot s b p)) ps) \<and>
    (\<forall>e f. get_epoch_finalization s e = Some f \<longrightarrow> ef_snapshot_count f = card {b. get_snapshot s b e \<noteq> None} \<and> 0 < ef_snapshot_count f)"
proof -
  have ok: "snap_ok s" using snaps.reachable_inv [OF assms] by simp
  then have snap: "\<And>b p. ss_snapshot s (b, p) \<noteq> None \<longleftrightarrow> p \<in> set (periods_of s b)"
    and bus: "\<And>b p. b \<in> set (read_epoch_businesses s p) \<longleftrightarrow> p \<in> set (periods_of s b)"
    and dist: "\<And>b. distinct (periods_of s b) \<and> length (periods_of s b) \<le> MAX_BUSINESS_PERIODS"
    and dist': "\<And>p. distinct (read_epoch_businesses s p)"
    and fin: "\<And>e f. ss_epoch_finalization s e = Some f \<Longrightarrow> ef_snapshot_count f = length (read_epoch_businesses s e) \<and> read_epoch_businesses s e \<noteq> []"
    by (auto simp: snap_ok_def)
  have "get_snapshots_for_business s b = map (\<lambda>p. the (ss_snapshot s (b, p))) (periods_of s b)" for b
    using snap by (simp add: get_snapshots_for_business_def periods_of_def [symmetric] snapshots_loop_map)
  moreover have "card {b. ss_snapshot s (b, e) \<noteq> None} = length (read_epoch_businesses s e)" for e
  proof -
    have "{b. ss_snapshot s (b, e) \<noteq> None} = set (read_epoch_businesses s e)" using snap bus by blast
    then show ?thesis by (simp add: distinct_card [OF dist'])
  qed
  ultimately show ?thesis
    using snap bus dist fin unfolding get_snapshot_def get_epoch_businesses_def get_epoch_finalization_def
    by (intro conjI allI exI [of _ "periods_of s b" for b]) auto
qed

text \<open>
  A restore writes the batch and nothing else. A commit that goes through was called by the administrator with an
  unexpired token of a dry run for the same hash, and consumes it; afterwards a business and period outside the finalized
  epochs hold the last record of the batch for them, everything else is as it was, and the first entry of every business
  in the batch declared the number of its entries.
\<close>

theorem restore_writes_batch:
  assumes "restore_commit sha X env caller entries s = Inr s'"
  shows "(\<exists>token. get_pending_restore s caller = Some token \<and> sequence env \<le> pt_expires_at_ledger token \<and>
      pt_batch_hash token = compute_batch_hash sha X entries) \<and> ss_admin s = Some caller \<and> authorized env caller \<and>
    get_pending_restore s' caller = None \<and>
    (\<forall>b p. get_snapshot s' b p = (if is_epoch_finalized s p then get_snapshot s b p
       else case restored entries b p of Some r \<Rightarrow> Some r | None \<Rightarrow> get_snapshot s b p)) \<and>
    (\<forall>b e. find (\<lambda>e. re_business e = b) entries = Some e \<longrightarrow>
       re_business_count e = length (filter (\<lambda>e. re_business e = b) entries))"
  using assms
proof (rule restore_commit_Inr)
  fix token s2
  let ?s1 = "s\<lparr>ss_pending_restore := (ss_pending_restore s)(caller := None)\<rparr>"
  assume t: "authorized env caller" "ss_admin s = Some caller" "ss_pending_restore s caller = Some token"
    "sequence env \<le> pt_expires_at_ledger token" "compute_batch_hash sha X entries = pt_batch_hash token"
    and counts: "\<And>b e. find (\<lambda>e. re_business e = b) entries = Some e \<Longrightarrow>
       re_business_count e = length (filter (\<lambda>e. re_business e = b) entries)"
    and w: "write_loop entries ?s1 = Inr s2" and s': "s' = s2\<lparr>ss_last_restore_id := Some (compute_batch_hash sha X entries)\<rparr>"
  have "ss_pending_restore s2 = ss_pending_restore ?s1" by (rule write_loop_pending [OF w])
  moreover have "get_snapshot s' b p = (if is_epoch_finalized s p then get_snapshot s b p
       else case restored entries b p of Some r \<Rightarrow> Some r | None \<Rightarrow> get_snapshot s b p)" for b p
    using write_loop_snapshot [OF w, of b p]
    by (simp add: s' get_snapshot_def is_epoch_finalized_def has_epoch_finalization_def cong: option.case_cong)
  ultimately show ?thesis using t counts by (auto simp: get_pending_restore_def s')
qed

section \<open>The dry run\<close>

text \<open>What the dry run demands of a batch, without its bookkeeping.\<close>

definition entry_key :: "restore_entry \<Rightarrow> address \<times> sstring" where
  "entry_key e = (re_business e, re_period e)"

definition clean_batch :: "nat \<Rightarrow> restore_entry list \<Rightarrow> bool" where
  "clean_batch now_ts entries \<longleftrightarrow>
     (\<forall>e\<in>set entries. re_schema_version e = SNAPSHOT_SCHEMA_VERSION \<and> length (re_period e) \<le> SNAP_MAX_PERIOD_BYTES \<and>
        sn_recorded_at (re_record e) \<le> now_ts) \<and>
     distinct (map entry_key entries) \<and>
     sorted_wrt (\<lambda>e f. re_business e = re_business f \<longrightarrow> sn_recorded_at (re_record e) \<le> sn_recorded_at (re_record f)) entries"

lemma dry_loop_grows: "dry_loop now_ts i entries vs seen lts = Inr out \<Longrightarrow> \<exists>ws. out = vs @ ws \<and> length ws \<le> length entries"
proof (induction now_ts i entries vs seen lts rule: dry_loop.induct)
  case (2 now_ts i entry entries vs seen lts)
  have grow: "\<exists>ws. out = vs @ ws \<and> length ws \<le> length (entry # entries)"
    if "\<exists>ws. out = (vs @ us) @ ws \<and> length ws \<le> length entries" "length us \<le> 1" for us
  proof -
    from that(1) obtain ws where "out = (vs @ us) @ ws" "length ws \<le> length entries" by blast
    with that(2) show ?thesis by (intro exI [of _ "us @ ws"]) simp
  qed
  show ?case
    using 2 by (auto simp: Let_def split: if_splits option.splits dest!: grow [of "[]", simplified] grow [of "[v]" for v, simplified])
qed simp

lemma set_last_recorded_lookup:
  "last_recorded ps b \<noteq> None \<Longrightarrow> last_recorded (set_last_recorded ps b t) c = (if c = b then Some t else last_recorded ps c)"
proof (cases "c = b")
  case False
  then have "last_recorded (set_last_recorded ps b t) c = last_recorded ps c"
    by (induction ps) (auto simp: set_last_recorded_def)
  with False show ?thesis by simp
next
  case True
  then show "last_recorded ps b \<noteq> None \<Longrightarrow> ?thesis"
    by (induction ps) (auto simp: set_last_recorded_def split: if_splits)
qed

lemma dry_loop_clean:
  "dry_loop now_ts i entries [] seen lts = Inr [] \<longleftrightarrow>
     clean_batch now_ts entries \<and> set (map entry_key entries) \<inter> set seen = {} \<and>
     (\<forall>e\<in>set entries. \<forall>t. last_recorded lts (re_business e) = Some t \<longrightarrow> t \<le> sn_recorded_at (re_record e))"
proof (induction entries arbitrary: i seen lts)
  case Nil
  show ?case by (simp add: clean_batch_def)
next
  case (Cons e es)
  have stuck: "dry_loop now_ts j es [v] s l \<noteq> Inr []" for j v s l
    using dry_loop_grows [of now_ts j es "[v]" s l "[]"] by auto
  let ?b = "re_business e" and ?t = "sn_recorded_at (re_record e)"
  show ?case
  proof (cases "re_schema_version e = SNAPSHOT_SCHEMA_VERSION \<and> length (re_period e) \<le> SNAP_MAX_PERIOD_BYTES \<and>
      ?t \<le> now_ts \<and> entry_key e \<notin> set seen")
    case False
    then show ?thesis using stuck by (auto simp: clean_batch_def entry_key_def)
  next
    case True
    show ?thesis
    proof (cases "last_recorded lts ?b")
      case None
      have "last_recorded (lts @ [(?b, ?t)]) c = (if c = ?b then Some ?t else last_recorded lts c)" for c
        using None by (auto simp: last_recorded_append split: option.splits)
      with True None show ?thesis
        by (auto simp: Cons Let_def clean_batch_def entry_key_def [of e] image_iff)
    next
      case (Some t)
      show ?thesis
      proof (cases "?t < t")
        case True
        with Some \<open>_ \<and> _\<close> stuck show ?thesis by (auto simp: Let_def entry_key_def)
      next
        case False
        have "last_recorded (set_last_recorded lts ?b ?t) c = (if c = ?b then Some ?t else last_recorded lts c)" for c
          using Some by (intro set_last_recorded_lookup) simp
        with True Some False show ?thesis
          by (auto simp: Cons Let_def clean_batch_def entry_key_def [of e] image_iff dest: order_trans)
      qed
    qed
  qed
qed

lemma dry_loop_returns:
  "(\<exists>out. dry_loop now_ts i entries vs seen lts = Inr out) \<longleftrightarrow>
     (\<forall>e\<in>set entries. re_schema_version e = SNAPSHOT_SCHEMA_VERSION)"
proof (induction entries arbitrary: i vs seen lts)
  case (Cons e es)
  show ?case
    by (cases "re_schema_version e = SNAPSHOT_SCHEMA_VERSION")
      (simp_all add: Cons Let_def bindr_def assertr_def split: option.split)
qed simp

text \<open>
  C38. The dry run accepts exactly the clean batches. It returns exactly for the administrator, a batch of at most
  \<open>MAX_RESTORE_BATCH\<close> entries of the supported schema, and a deadline that fits its type if the batch is clean; and when
  it returns it is ready to commit precisely when every entry has the supported schema, a period within the limit and a
  time that is not in the future, no business and period occur twice, and the times of each business do not fall. It
  counts a violation per faulty entry, and changes no more than the token of its caller, which is set for that batch
  exactly when the batch is clean.
\<close>

theorem dry_run_exact:
  "((\<exists>report s'. restore_dry_run sha X env caller entries s = Inr (report, s')) \<longleftrightarrow>
      snap_require_admin env caller s = Inr () \<and> length entries \<le> MAX_RESTORE_BATCH \<and>
      (\<forall>e\<in>set entries. re_schema_version e = SNAPSHOT_SCHEMA_VERSION) \<and>
      (clean_batch (timestamp env) entries \<longrightarrow> sequence env + RESTORE_COMMIT_WINDOW_LEDGERS \<le> u32_max)) \<and>
   (\<forall>report s'. restore_dry_run sha X env caller entries s = Inr (report, s') \<longrightarrow>
      (rp_ready_to_commit report \<longleftrightarrow> clean_batch (timestamp env) entries) \<and>
      rp_entries_valid report + length (rp_violations report) = length entries \<and>
      s' = s\<lparr>ss_pending_restore := (if clean_batch (timestamp env) entries then (ss_pending_restore s)(caller \<mapsto>
        \<lparr>pt_batch_hash = compute_batch_hash sha X entries, pt_expires_at_ledger = sequence env + RESTORE_COMMIT_WINDOW_LEDGERS\<rparr>)
        else ss_pending_restore s)\<rparr>)"
proof (intro conjI allI impI)
  have clean: "vs = [] \<longleftrightarrow> clean_batch (timestamp env) entries" if "dry_loop (timestamp env) 0 entries [] [] [] = Inr vs" for vs
    using dry_loop_clean [of "timestamp env" 0 entries "[]" "[]"] that by auto
  show "(\<exists>report s'. restore_dry_run sha X env caller entries s = Inr (report, s')) \<longleftrightarrow>
      snap_require_admin env caller s = Inr () \<and> length entries \<le> MAX_RESTORE_BATCH \<and>
      (\<forall>e\<in>set entries. re_schema_version e = SNAPSHOT_SCHEMA_VERSION) \<and>
      (clean_batch (timestamp env) entries \<longrightarrow> sequence env + RESTORE_COMMIT_WINDOW_LEDGERS \<le> u32_max)"
  proof (cases "\<exists>vs. dry_loop (timestamp env) 0 entries [] [] [] = Inr vs")
    case True
    then obtain vs where vs: "dry_loop (timestamp env) 0 entries [] [] [] = Inr vs" by blast
    moreover have "\<forall>e\<in>set entries. re_schema_version e = SNAPSHOT_SCHEMA_VERSION" using True dry_loop_returns by blast
    ultimately show ?thesis
      using clean [OF vs] by (cases "vs = []") (auto simp: restore_dry_run_def Let_def)
  next
    case False
    moreover have "\<not> (\<forall>e\<in>set entries. re_schema_version e = SNAPSHOT_SCHEMA_VERSION)" using False dry_loop_returns by blast
    ultimately show ?thesis by (auto simp: restore_dry_run_def Let_def)
  qed
  fix report s'
  assume a: "restore_dry_run sha X env caller entries s = Inr (report, s')"
  then obtain vs where vs: "dry_loop (timestamp env) 0 entries [] [] [] = Inr vs"
    and r: "rp_ready_to_commit report \<longleftrightarrow> vs = []" "rp_violations report = vs" "rp_entries_valid report = length entries - length vs"
    and s': "s' = (if vs = [] then s\<lparr>ss_pending_restore := (ss_pending_restore s)(caller \<mapsto>
      \<lparr>pt_batch_hash = compute_batch_hash sha X entries, pt_expires_at_ledger = sequence env + RESTORE_COMMIT_WINDOW_LEDGERS\<rparr>)\<rparr> else s)"
    by (auto simp: restore_dry_run_def Let_def split: if_splits)
  show "rp_ready_to_commit report \<longleftrightarrow> clean_batch (timestamp env) entries" using r clean [OF vs] by simp
  show "rp_entries_valid report + length (rp_violations report) = length entries" using r dry_loop_grows [OF vs] by auto
  show "s' = s\<lparr>ss_pending_restore := (if clean_batch (timestamp env) entries then (ss_pending_restore s)(caller \<mapsto>
      \<lparr>pt_batch_hash = compute_batch_hash sha X entries, pt_expires_at_ledger = sequence env + RESTORE_COMMIT_WINDOW_LEDGERS\<rparr>)
      else ss_pending_restore s)\<rparr>"
    using s' clean [OF vs] by simp
qed

section \<open>Gaps\<close>

text \<open>
  The token binds keys, not records: \<open>compute_batch_hash\<close> hashes the business, the period and the schema version of each
  entry. Whatever batch commits, another with the same keys, versions and declared counts and any records at all,
  future times included, commits in its place.
\<close>

definition entry_head :: "restore_entry \<Rightarrow> address \<times> sstring \<times> nat \<times> nat" where
  "entry_head e = (re_business e, re_period e, re_schema_version e, re_business_count e)"

lemma entry_head_eq: "entry_head f = entry_head e \<longleftrightarrow> re_business f = re_business e \<and> re_period f = re_period e \<and>
    re_schema_version f = re_schema_version e \<and> re_business_count f = re_business_count e"
  by (simp add: entry_head_def)

lemma heads_buffer: "map entry_head es = map entry_head fs \<Longrightarrow> batch_buffer X b es = batch_buffer X b fs"
proof (induction es arbitrary: b fs)
  case (Cons e es)
  then obtain f gs where fs: "fs = f # gs" and h: "entry_head f = entry_head e" and hs: "map entry_head es = map entry_head gs" by auto
  from h show ?case by (simp add: fs Cons.IH [OF hs] entry_head_eq)
qed simp

lemma heads_versions: "map entry_head es = map entry_head fs \<Longrightarrow> versions_loop es = versions_loop fs"
proof (induction es arbitrary: fs)
  case (Cons e es)
  then obtain f gs where fs: "fs = f # gs" and h: "entry_head f = entry_head e" and hs: "map entry_head es = map entry_head gs" by auto
  from h show ?case by (simp add: fs Cons.IH [OF hs] entry_head_eq)
qed simp

lemma heads_counts: "map entry_head es = map entry_head fs \<Longrightarrow> count_loop es ds as = count_loop fs ds as"
proof (induction es arbitrary: fs ds as)
  case (Cons e es)
  then obtain f gs where fs: "fs = f # gs" and h: "entry_head f = entry_head e" and hs: "map entry_head es = map entry_head gs" by auto
  from h show ?case by (simp add: fs Cons.IH [OF hs] entry_head_eq)
qed simp

lemma put_other_record:
  assumes "put_record b p r s = Inr s'"
  shows "\<exists>n. put_record b p r' (s\<lparr>ss_snapshot := m\<rparr>) = Inr (s'\<lparr>ss_snapshot := n\<rparr>)"
proof -
  from assms obtain s1 where 1: "index_period_for_business b p (s\<lparr>ss_snapshot := (ss_snapshot s)((b, p) \<mapsto> r)\<rparr>) = Inr s1"
    and 2: "index_business_for_epoch p b s1 = Inr s'" by (auto simp: put_record_def)
  let ?n = "m((b, p) \<mapsto> r')"
  have "index_period_for_business b p (s\<lparr>ss_snapshot := ?n\<rparr>) = Inr (s1\<lparr>ss_snapshot := ?n\<rparr>)"
    using 1 by (auto simp: index_period_eq split: if_splits)
  moreover have "index_business_for_epoch p b (s1\<lparr>ss_snapshot := ?n\<rparr>) = Inr (s'\<lparr>ss_snapshot := ?n\<rparr>)"
    using 2 by (auto simp: index_business_eq split: if_splits)
  ultimately show ?thesis by (intro exI [of _ ?n]) (simp add: put_record_def)
qed

lemma heads_write:
  "map entry_head es = map entry_head fs \<Longrightarrow> write_loop es s = Inr s' \<Longrightarrow> \<exists>n. write_loop fs (s\<lparr>ss_snapshot := m\<rparr>) = Inr (s'\<lparr>ss_snapshot := n\<rparr>)"
proof (induction es arbitrary: fs s m)
  case Nil
  then show ?case by auto
next
  case (Cons e es)
  then obtain f gs where fs: "fs = f # gs" and h: "re_business f = re_business e" "re_period f = re_period e"
    and hs: "map entry_head es = map entry_head gs" by (auto simp: entry_head_eq)
  show ?case
  proof (cases "has_epoch_finalization s (re_period e)")
    case True
    with Cons.prems(2) have "write_loop es s = Inr s'" by (simp add: write_loop_put)
    from Cons.IH [OF hs this, of m] True show ?thesis by (simp add: fs write_loop_put h has_epoch_finalization_def)
  next
    case False
    with Cons.prems(2) obtain s1 where 1: "put_record (re_business e) (re_period e) (re_record e) s = Inr s1"
      and 2: "write_loop es s1 = Inr s'" by (auto simp: write_loop_put)
    from put_other_record [OF 1] obtain n where "put_record (re_business e) (re_period e) (re_record f) (s\<lparr>ss_snapshot := m\<rparr>) =
      Inr (s1\<lparr>ss_snapshot := n\<rparr>)" by blast
    with Cons.IH [OF hs 2, of n] False show ?thesis by (auto simp: fs write_loop_put h has_epoch_finalization_def)
  qed
qed

text \<open>
  A commit does not notice that the records were exchanged. Whenever a batch commits, every batch with the same
  businesses, periods, versions and declared counts in the same order commits in the same call too, whatever its
  records are, and its records are what is stored.
\<close>

theorem commit_takes_other_records:
  assumes "restore_commit sha X env caller es s = Inr s'" and "map entry_head es = map entry_head fs"
  shows "\<exists>t. restore_commit sha X env caller fs s = Inr t \<and>
    (\<forall>b p r. restored fs b p = Some r \<and> \<not> is_epoch_finalized s p \<longrightarrow> get_snapshot t b p = Some r)"
proof -
  note eqs = heads_buffer [OF assms(2)] heads_versions [OF assms(2)] heads_counts [OF assms(2)]
  have "compute_batch_hash sha X fs = compute_batch_hash sha X es" by (simp add: compute_batch_hash_def eqs)
  with assms(1) obtain token s2 where w: "write_loop es (s\<lparr>ss_pending_restore := (ss_pending_restore s)(caller := None)\<rparr>) = Inr s2"
    and rest: "\<And>t. write_loop fs (s\<lparr>ss_pending_restore := (ss_pending_restore s)(caller := None)\<rparr>) = Inr t \<Longrightarrow>
      restore_commit sha X env caller fs s = Inr (t\<lparr>ss_last_restore_id := Some (compute_batch_hash sha X es)\<rparr>)"
    by (auto simp: restore_commit_def Let_def eqs case_prod_beta)
  let ?s1 = "s\<lparr>ss_pending_restore := (ss_pending_restore s)(caller := None)\<rparr>"
  from heads_write [OF assms(2) w, of "ss_snapshot ?s1"] obtain t where t: "write_loop fs ?s1 = Inr t" by auto
  have "get_snapshot (t\<lparr>ss_last_restore_id := z\<rparr>) b p = Some r" if "restored fs b p = Some r" "\<not> is_epoch_finalized s p" for b p r z
    using write_loop_snapshot [OF t, of b p] that
    by (simp add: get_snapshot_def is_epoch_finalized_def has_epoch_finalization_def)
  with rest [OF t] show ?thesis by blast
qed

text \<open>
  The commitment counts a business once per epoch and period pair, and misses epochs that only a restore has written:
  two runs in which two snapshots are exported as four, and one restored snapshot as none.
\<close>

abbreviation "no_client \<equiv> client_of (BytesN [], 0, 2, 0, None, None) :: unit att_client"

definition snap_ready :: snap_state where
  "snap_ready = snap_empty\<lparr>ss_admin := Some ''admin''\<rparr>"

lemma snap_ready_step: "snap_step no_client sha X (env_at 0 0, SnInit ''admin'' None) (snap_empty, ()) = Inr (snap_ready, ())"
  by (simp add: snap_initialize_def snap_ready_def snap_empty_def)

definition demo_record :: "sstring \<Rightarrow> nat \<Rightarrow> snapshot_record" where
  "demo_record p t = \<lparr>sn_period = p, sn_trailing_revenue = 100, sn_anomaly_count = 0, sn_attestation_count = 3, sn_recorded_at = t\<rparr>"

definition snap_one :: snap_state where
  "snap_one = snap_ready\<lparr>ss_snapshot := [(''biz'', ''p1'') \<mapsto> demo_record ''p1'' 5], ss_business_periods := [''biz'' \<mapsto> [''p1'']],
     ss_epoch_businesses := [''p1'' \<mapsto> [''biz'']], ss_all_epochs := Some [''p1'']\<rparr>"

lemma snap_one_step: "snap_step no_client sha X (env_at 5 0, SnRecord ''admin'' ''biz'' ''p1'' 100 0 3) (snap_ready, ()) = Inr (snap_one, ())"
  by (simp add: record_snapshot_def require_admin_or_writer_def snap_ready_def snap_empty_def snap_assert_period_within_limit_def
      SNAP_MAX_PERIOD_BYTES_def has_epoch_finalization_def Let_def index_period_for_business_def index_business_for_epoch_def
      MAX_BUSINESS_PERIODS_def MAX_EPOCH_BUSINESSES_def index_epoch_globally_def snap_one_def demo_record_def)

definition snap_two :: snap_state where
  "snap_two = snap_one\<lparr>ss_snapshot := [(''biz'', ''p1'') \<mapsto> demo_record ''p1'' 5, (''biz'', ''p2'') \<mapsto> demo_record ''p2'' 6],
     ss_business_periods := [''biz'' \<mapsto> [''p1'', ''p2'']], ss_epoch_businesses := [''p1'' \<mapsto> [''biz''], ''p2'' \<mapsto> [''biz'']],
     ss_all_epochs := Some [''p1'', ''p2'']\<rparr>"

lemma snap_two_step: "snap_step no_client sha X (env_at 6 0, SnRecord ''admin'' ''biz'' ''p2'' 100 0 3) (snap_one, ()) = Inr (snap_two, ())"
  by (simp add: record_snapshot_def require_admin_or_writer_def snap_one_def snap_ready_def snap_empty_def snap_assert_period_within_limit_def
      SNAP_MAX_PERIOD_BYTES_def has_epoch_finalization_def Let_def index_period_for_business_def index_business_for_epoch_def
      MAX_BUSINESS_PERIODS_def MAX_EPOCH_BUSINESSES_def index_epoch_globally_def snap_two_def demo_record_def)

lemma snap_two_reachable: "reachable (\<lambda>x. fst x = snap_empty) (snap_step no_client sha X) (snap_two, ())"
  by (rule reachable_call, rule reachable_call, rule reachable_call, rule reachable_start [where s = "(snap_empty, ())"], simp,
      rule snap_ready_step, rule snap_one_step, rule snap_two_step)

lemma commitment_counts_twice:
  "reachable (\<lambda>x. fst x = snap_empty) (snap_step no_client sha X) (snap_two, ()) \<and>
   length (get_snapshots_for_business snap_two ''biz'') = 2 \<and> snd (export_commitment_with_count sha X snap_two) = 4"
proof (intro conjI)
  show "reachable (\<lambda>x. fst x = snap_empty) (snap_step no_client sha X) (snap_two, ())" by (rule snap_two_reachable)
  show "length (get_snapshots_for_business snap_two ''biz'') = 2"
    by (simp add: get_snapshots_for_business_def snap_two_def)
  show "snd (export_commitment_with_count sha X snap_two) = 4"
    by (simp add: export_commitment_with_count_def insertion_sort_sort Let_def snap_two_def read_epoch_businesses_def)
qed

definition demo_entry :: "nat \<Rightarrow> restore_entry" where
  "demo_entry t = \<lparr>re_business = ''biz'', re_period = ''p9'', re_record = demo_record ''p9'' t, re_schema_version = 1, re_business_count = 1\<rparr>"

definition snap_token :: "(byte list \<Rightarrow> bytesn) \<Rightarrow> xdr_ops \<Rightarrow> snap_state" where
  "snap_token sha X = snap_ready\<lparr>ss_pending_restore := [''admin'' \<mapsto>
     \<lparr>pt_batch_hash = compute_batch_hash sha X [demo_entry 5], pt_expires_at_ledger = 1450\<rparr>]\<rparr>"

lemma demo_clean: "clean_batch 7 [demo_entry 5]"
  by (simp add: clean_batch_def demo_entry_def demo_record_def SNAPSHOT_SCHEMA_VERSION_def SNAP_MAX_PERIOD_BYTES_def)

lemma demo_dry_run: "\<exists>r. restore_dry_run sha X (env_at 7 10) ''admin'' [demo_entry 5] snap_ready = Inr (r, snap_token sha X)"
proof -
  have "dry_loop 7 0 [demo_entry 5] [] [] [] = Inr []" using demo_clean by (simp add: dry_loop_clean del: dry_loop.simps)
  then show ?thesis
    by (simp add: restore_dry_run_def Let_def snap_require_admin_def snap_ready_def MAX_RESTORE_BATCH_def RESTORE_COMMIT_WINDOW_LEDGERS_def
        u32_max_def snap_token_def snap_empty_def del: dry_loop.simps)
qed

definition snap_restored :: "(byte list \<Rightarrow> bytesn) \<Rightarrow> xdr_ops \<Rightarrow> snap_state" where
  "snap_restored sha X = snap_ready\<lparr>ss_snapshot := [(''biz'', ''p9'') \<mapsto> demo_record ''p9'' 5], ss_business_periods := [''biz'' \<mapsto> [''p9'']],
     ss_epoch_businesses := [''p9'' \<mapsto> [''biz'']], ss_last_restore_id := Some (compute_batch_hash sha X [demo_entry 5])\<rparr>"

lemma demo_write: "write_loop [demo_entry 5] snap_ready = Inr (snap_ready\<lparr>ss_snapshot := [(''biz'', ''p9'') \<mapsto> demo_record ''p9'' 5],
     ss_business_periods := [''biz'' \<mapsto> [''p9'']], ss_epoch_businesses := [''p9'' \<mapsto> [''biz'']]\<rparr>)"
  by (simp add: write_loop.simps has_epoch_finalization_def snap_ready_def snap_empty_def demo_entry_def Let_def
      index_period_for_business_def index_business_for_epoch_def MAX_BUSINESS_PERIODS_def MAX_EPOCH_BUSINESSES_def)

lemma demo_commit: "restore_commit sha X (env_at 8 11) ''admin'' [demo_entry 5] (snap_token sha X) = Inr (snap_restored sha X)"
proof -
  have "(snap_token sha X)\<lparr>ss_pending_restore := (ss_pending_restore (snap_token sha X))(''admin'' := None)\<rparr> = snap_ready"
    by (simp add: snap_token_def snap_ready_def snap_empty_def)
  moreover have "snap_require_admin (env_at 8 11) ''admin'' (snap_token sha X) = Inr ()"
    by (simp add: snap_require_admin_def snap_token_def snap_ready_def)
  moreover have "versions_loop [demo_entry 5] = Inr ()" "count_loop [demo_entry 5] [] [] = ([(''biz'', 1)], [(''biz'', 1)])"
    by (simp_all add: demo_entry_def SNAPSHOT_SCHEMA_VERSION_def bump_actual.simps)
  moreover have "ss_pending_restore (snap_token sha X) ''admin'' =
      Some \<lparr>pt_batch_hash = compute_batch_hash sha X [demo_entry 5], pt_expires_at_ledger = 1450\<rparr>"
    by (simp add: snap_token_def)
  ultimately show ?thesis
    by (simp add: restore_commit_def Let_def demo_write snap_restored_def del: versions_loop.simps count_loop.simps)
qed

lemma restore_not_exported:
  "get_snapshot (snap_restored sha X) ''biz'' ''p9'' \<noteq> None \<and> snd (export_commitment_with_count sha X (snap_restored sha X)) = 0"
  by (simp add: get_snapshot_def snap_restored_def export_commitment_with_count_def insertion_sort_sort Let_def snap_ready_def snap_empty_def)

section \<open>Witnesses\<close>

abbreviation "demo_xdr \<equiv> \<lparr>xdr_address = (\<lambda>_. []), xdr_string = (\<lambda>_. []), xdr_u32 = (\<lambda>_. []), xdr_bytes = (\<lambda>b. b)\<rparr>"

lemma commitment_order_independent_witness:
  "export_commitment_with_count BytesN demo_xdr snap_two =
   export_commitment_with_count BytesN demo_xdr (snap_two\<lparr>ss_all_epochs := Some [''p2'', ''p1'']\<rparr>)"
  by (rule commitment_order_independent [THEN conjunct1]) (simp add: snap_two_def read_epoch_businesses_def)

definition snap_final :: snap_state where
  "snap_final = snap_two\<lparr>ss_epoch_finalization := [''p1'' \<mapsto>
     \<lparr>ef_epoch = ''p1'', ef_snapshot_count = 1, ef_finalized_at = 7, ef_finalized_by = ''admin''\<rparr>]\<rparr>"

lemma finalized_epoch_frozen_witness:
  "\<exists>f. get_epoch_finalization (fst (run (snap_step no_client BytesN demo_xdr)
     [(env_at 9 9, SnRecord ''admin'' ''biz'' ''p1'' 7 0 0), (env_at 9 9, SnFinalize ''admin'' ''p1'')] (snap_final, ()))) ''p1'' = Some f \<and>
     ef_finalized_at f = 7"
proof -
  have "get_epoch_finalization snap_final ''p1'' =
      Some \<lparr>ef_epoch = ''p1'', ef_snapshot_count = 1, ef_finalized_at = 7, ef_finalized_by = ''admin''\<rparr>"
    by (simp add: get_epoch_finalization_def snap_final_def)
  from finalized_epoch_frozen [OF this, THEN conjunct1] show ?thesis by (intro exI conjI, assumption) simp
qed

lemma snapshots_indexed_witness: "get_snapshot snap_two b p \<noteq> None \<longleftrightarrow> b \<in> set (get_epoch_businesses snap_two p)"
  using snapshots_indexed [OF snap_two_reachable [of BytesN demo_xdr]] by blast

lemma restore_writes_batch_witness: "get_snapshot (snap_restored BytesN demo_xdr) ''biz'' ''p9'' = Some (demo_record ''p9'' 5)"
proof -
  have "restored [demo_entry 5] ''biz'' ''p9'' = Some (demo_record ''p9'' 5)"
    by (simp add: restored_def demo_entry_def)
  moreover have "\<not> is_epoch_finalized (snap_token BytesN demo_xdr) ''p9''"
    by (simp add: is_epoch_finalized_def has_epoch_finalization_def snap_token_def snap_ready_def snap_empty_def)
  ultimately show ?thesis using restore_writes_batch [OF demo_commit [of BytesN demo_xdr]] by simp
qed

lemma dry_run_exact_witness:
  "\<exists>r. restore_dry_run BytesN demo_xdr (env_at 7 10) ''admin'' [demo_entry 5] snap_ready = Inr (r, snap_token BytesN demo_xdr) \<and>
     rp_ready_to_commit r"
proof -
  obtain r where r: "restore_dry_run BytesN demo_xdr (env_at 7 10) ''admin'' [demo_entry 5] snap_ready = Inr (r, snap_token BytesN demo_xdr)"
    using demo_dry_run by blast
  from dry_run_exact [THEN conjunct2, rule_format, OF r] r demo_clean show ?thesis by auto
qed

text \<open>The dry run approved a record of time 5; the commit stores one of time 999, in the future.\<close>

lemma commit_takes_other_records_witness:
  "\<exists>t. restore_commit BytesN demo_xdr (env_at 8 11) ''admin'' [demo_entry 999] (snap_token BytesN demo_xdr) = Inr t \<and>
     get_snapshot t ''biz'' ''p9'' = Some (demo_record ''p9'' 999)"
proof -
  have "map entry_head [demo_entry 5] = map entry_head [demo_entry 999]" by (simp add: entry_head_def demo_entry_def)
  moreover have "restored [demo_entry 999] ''biz'' ''p9'' = Some (demo_record ''p9'' 999)" by (simp add: restored_def demo_entry_def)
  moreover have "\<not> is_epoch_finalized (snap_token BytesN demo_xdr) ''p9''"
    by (simp add: is_epoch_finalized_def has_epoch_finalization_def snap_token_def snap_ready_def snap_empty_def)
  ultimately show ?thesis using commit_takes_other_records [OF demo_commit [of BytesN demo_xdr]] by blast
qed

end
