(* ===== verification/Aggregated_Attestations.thy ===== *)
theory Aggregated_Attestations
  imports Attestation_Snapshot Replay_Protection Governance_Gating
begin

text \<open>
  \<open>contracts/aggregated-attestations/src/lib.rs\<close>: portfolios of businesses, metrics summed over the records of a snapshot
  contract, aggregated roots per time window, and an administrator that rotates behind a time lock.

  The snapshot contract is the repository's: \<open>W\<close> gives the state of the one deployed at an address, and a query of it is
  \<open>get_snapshots_for_business\<close> of \<open>Attestation_Snapshot\<close>; a call to any other address fails.
\<close>

section \<open>State\<close>

definition AGG_CHANNEL_ADMIN :: nat where "AGG_CHANNEL_ADMIN = 1"
definition AGG_CHANNEL_ADMIN_ROTATION :: nat where "AGG_CHANNEL_ADMIN_ROTATION = 256"
definition MAX_PORTFOLIO_BUSINESSES :: nat where "MAX_PORTFOLIO_BUSINESSES = 200"
definition MAX_PORTFOLIO_ID_BYTES :: nat where "MAX_PORTFOLIO_ID_BYTES = 128"

record aggregated_root =
  ar_root :: bytesn
  ar_start_timestamp :: nat
  ar_end_timestamp :: nat
  ar_version :: nat

record aggregated_metrics =
  am_total_trailing_revenue :: int
  am_total_anomaly_count :: nat
  am_business_count :: nat
  am_businesses_with_snapshots :: nat
  am_average_trailing_revenue :: int

record agg_state =
  agg_admin :: "address option"
  agg_portfolio :: "sstring \<rightharpoonup> address list"
  agg_portfolio_roots :: "sstring \<rightharpoonup> aggregated_root list"
  agg_nonces :: nonces
  agg_governance :: governance_state

definition agg_empty :: agg_state where
  "agg_empty = \<lparr>agg_admin = None, agg_portfolio = Map.empty, agg_portfolio_roots = Map.empty, agg_nonces = Map.empty,
     agg_governance = governance_empty\<rparr>"

section \<open>Administration and portfolios\<close>

definition agg_initialize :: "ledger_env \<Rightarrow> address \<Rightarrow> nat \<Rightarrow> agg_state \<Rightarrow> agg_state res" where
  "agg_initialize env admin nonce s =
     bindr (assertr (agg_admin s = None) ''already initialized'') (\<lambda>_.
     bindr (require_auth env admin) (\<lambda>_.
     bindr (verify_and_increment_nonce (agg_nonces s) admin AGG_CHANNEL_ADMIN nonce) (\<lambda>n.
     Inr (s\<lparr>agg_nonces := n, agg_admin := Some admin\<rparr>))))"

definition agg_require_admin :: "ledger_env \<Rightarrow> address \<Rightarrow> agg_state \<Rightarrow> address res" where
  "agg_require_admin env caller s =
     bindr (require_auth env caller) (\<lambda>_.
     bindr (expectr (agg_admin s) ''contract not initialized'') (\<lambda>admin.
     bindr (assertr (caller = admin) ''caller is not admin'') (\<lambda>_. Inr admin)))"

definition assert_portfolio_id_within_limit :: "sstring \<Rightarrow> unit res" where
  "assert_portfolio_id_within_limit portfolio_id =
     assertr (length portfolio_id \<le> MAX_PORTFOLIO_ID_BYTES) ''portfolio_id exceeds maximum length''"

fun differs_loop :: "address \<Rightarrow> address list \<Rightarrow> unit res" where
  "differs_loop a [] = Inr ()"
| "differs_loop a (b # bs) = bindr (assertr (a \<noteq> b) ''duplicate business in portfolio'') (\<lambda>_. differs_loop a bs)"

fun duplicates_loop :: "address list \<Rightarrow> unit res" where
  "duplicates_loop [] = Inr ()"
| "duplicates_loop (a # as) = bindr (differs_loop a as) (\<lambda>_. duplicates_loop as)"

definition assert_portfolio_businesses_valid :: "address list \<Rightarrow> unit res" where
  "assert_portfolio_businesses_valid businesses =
     bindr (assertr (length businesses \<le> MAX_PORTFOLIO_BUSINESSES) ''portfolio exceeds maximum businesses'') (\<lambda>_.
     duplicates_loop businesses)"

definition register_portfolio :: "ledger_env \<Rightarrow> address \<Rightarrow> nat \<Rightarrow> sstring \<Rightarrow> address list \<Rightarrow> agg_state \<Rightarrow> agg_state res" where
  "register_portfolio env caller nonce portfolio_id businesses s =
     bindr (agg_require_admin env caller s) (\<lambda>_.
     bindr (assert_portfolio_id_within_limit portfolio_id) (\<lambda>_.
     bindr (assert_portfolio_businesses_valid businesses) (\<lambda>_.
     bindr (verify_and_increment_nonce (agg_nonces s) caller AGG_CHANNEL_ADMIN nonce) (\<lambda>n.
     Inr (s\<lparr>agg_nonces := n, agg_portfolio := (agg_portfolio s)(portfolio_id \<mapsto> businesses)\<rparr>)))))"

definition agg_set_pending_admin :: "ledger_env \<Rightarrow> address \<Rightarrow> nat \<Rightarrow> address \<Rightarrow> nat \<Rightarrow> agg_state \<Rightarrow> agg_state res" where
  "agg_set_pending_admin env caller nonce admin delay s =
     bindr (agg_require_admin env caller s) (\<lambda>_.
     bindr (verify_and_increment_nonce (agg_nonces s) caller AGG_CHANNEL_ADMIN_ROTATION nonce) (\<lambda>n.
     bindr (set_pending_admin env admin delay (agg_governance s)) (\<lambda>g.
     Inr (s\<lparr>agg_nonces := n, agg_governance := g\<rparr>))))"

definition activate_admin :: "ledger_env \<Rightarrow> agg_state \<Rightarrow> agg_state res" where
  "activate_admin env s =
     (case get_active_pending_admin env (agg_governance s) of
        Some new_admin \<Rightarrow> Inr (s\<lparr>agg_admin := Some new_admin, agg_governance := clear_pending_admin (agg_governance s)\<rparr>)
      | None \<Rightarrow> Inl (Panic ''time-lock not expired or no pending admin''))"

section \<open>Metrics\<close>

type_synonym snap_contracts = "address \<rightharpoonup> snap_state"

definition snapshots_at :: "snap_contracts \<Rightarrow> address \<Rightarrow> address \<Rightarrow> snapshot_record list res" where
  "snapshots_at W snapshot_contract business =
     (case W snapshot_contract of
        None \<Rightarrow> Inl CallFailed
      | Some s \<Rightarrow> Inr (get_snapshots_for_business s business))"

fun unique_loop :: "address list \<Rightarrow> address list \<Rightarrow> address list" where
  "unique_loop unique [] = unique"
| "unique_loop unique (business # businesses) =
     unique_loop (if business \<in> set unique then unique else unique @ [business]) businesses"

text \<open>The sums over the rows of one business, saturating; then over the businesses.\<close>

fun rows_loop :: "int \<Rightarrow> nat \<Rightarrow> snapshot_record list \<Rightarrow> int \<times> nat" where
  "rows_loop revenue anomalies [] = (revenue, anomalies)"
| "rows_loop revenue anomalies (s # ss) =
     rows_loop (i128_sat (revenue + sn_trailing_revenue s)) (u32_sat (anomalies + sn_anomaly_count s)) ss"

fun metrics_loop :: "snap_contracts \<Rightarrow> address \<Rightarrow> int \<Rightarrow> nat \<Rightarrow> nat \<Rightarrow> address list \<Rightarrow> (int \<times> nat \<times> nat) res" where
  "metrics_loop W c revenue anomalies with_snapshots [] = Inr (revenue, anomalies, with_snapshots)"
| "metrics_loop W c revenue anomalies with_snapshots (business # businesses) =
     bindr (snapshots_at W c business) (\<lambda>snapshots.
     if snapshots \<noteq> [] then
       bindr (u32_chk (with_snapshots + 1)) (\<lambda>n.
       (let (revenue', anomalies') = rows_loop revenue anomalies snapshots in
        metrics_loop W c revenue' anomalies' n businesses))
     else metrics_loop W c revenue anomalies with_snapshots businesses)"

definition no_metrics :: aggregated_metrics where
  "no_metrics = \<lparr>am_total_trailing_revenue = 0, am_total_anomaly_count = 0, am_business_count = 0,
     am_businesses_with_snapshots = 0, am_average_trailing_revenue = 0\<rparr>"

definition get_aggregated_metrics :: "snap_contracts \<Rightarrow> address \<Rightarrow> sstring \<Rightarrow> agg_state \<Rightarrow> aggregated_metrics res" where
  "get_aggregated_metrics W snapshot_contract portfolio_id s =
     (let businesses = unwrap_or (agg_portfolio s portfolio_id) [];
          unique_businesses = unique_loop [] businesses;
          business_count = length unique_businesses in
      if business_count = 0 then Inr no_metrics
      else
        bindr (metrics_loop W snapshot_contract 0 0 0 unique_businesses) (\<lambda>(revenue, anomalies, with_snapshots).
        bindr (if 0 < with_snapshots then i128_chk (trunc_div revenue (int with_snapshots)) else Inr 0) (\<lambda>average.
        Inr \<lparr>am_total_trailing_revenue = revenue, am_total_anomaly_count = anomalies, am_business_count = business_count,
             am_businesses_with_snapshots = with_snapshots, am_average_trailing_revenue = average\<rparr>)))"

fun rows_match :: "nat \<Rightarrow> snapshot_record list \<Rightarrow> bool" where
  "rows_match batch_recorded_at [] = True"
| "rows_match batch_recorded_at (s # ss) = (if sn_recorded_at s \<noteq> batch_recorded_at then False else rows_match batch_recorded_at ss)"

fun consistency_loop :: "snap_contracts \<Rightarrow> address \<Rightarrow> nat \<Rightarrow> address list \<Rightarrow> bool res" where
  "consistency_loop W c batch_recorded_at [] = Inr True"
| "consistency_loop W c batch_recorded_at (business # businesses) =
     bindr (snapshots_at W c business) (\<lambda>snapshots.
     if snapshots = [] then consistency_loop W c batch_recorded_at businesses
     else if \<not> rows_match batch_recorded_at snapshots then Inr False
     else consistency_loop W c batch_recorded_at businesses)"

definition check_batch_snapshot_consistency :: "snap_contracts \<Rightarrow> address \<Rightarrow> sstring \<Rightarrow> nat \<Rightarrow> agg_state \<Rightarrow> bool res" where
  "check_batch_snapshot_consistency W snapshot_contract portfolio_id batch_recorded_at s =
     (let businesses = unwrap_or (agg_portfolio s portfolio_id) [] in
      if businesses = [] then Inr True
      else consistency_loop W snapshot_contract batch_recorded_at businesses)"

fun batch_rows_loop :: "nat \<Rightarrow> int \<Rightarrow> nat \<Rightarrow> bool \<Rightarrow> snapshot_record list \<Rightarrow> int \<times> nat \<times> bool" where
  "batch_rows_loop at revenue anomalies contributed [] = (revenue, anomalies, contributed)"
| "batch_rows_loop at revenue anomalies contributed (s # ss) =
     (if sn_recorded_at s = at
      then batch_rows_loop at (i128_sat (revenue + sn_trailing_revenue s)) (u32_sat (anomalies + sn_anomaly_count s)) True ss
      else batch_rows_loop at revenue anomalies contributed ss)"

fun batch_metrics_loop :: "snap_contracts \<Rightarrow> address \<Rightarrow> nat \<Rightarrow> int \<Rightarrow> nat \<Rightarrow> nat \<Rightarrow> address list \<Rightarrow> (int \<times> nat \<times> nat) res" where
  "batch_metrics_loop W c at revenue anomalies with_snapshots [] = Inr (revenue, anomalies, with_snapshots)"
| "batch_metrics_loop W c at revenue anomalies with_snapshots (business # businesses) =
     bindr (snapshots_at W c business) (\<lambda>snapshots.
     (let (revenue', anomalies', contributed) = batch_rows_loop at revenue anomalies False snapshots in
      bindr (if contributed then u32_chk (with_snapshots + 1) else Inr with_snapshots) (\<lambda>n.
      batch_metrics_loop W c at revenue' anomalies' n businesses)))"

definition get_aggregated_metrics_for_batch ::
  "snap_contracts \<Rightarrow> address \<Rightarrow> sstring \<Rightarrow> nat \<Rightarrow> agg_state \<Rightarrow> aggregated_metrics res" where
  "get_aggregated_metrics_for_batch W snapshot_contract portfolio_id batch_recorded_at s =
     (let businesses = unwrap_or (agg_portfolio s portfolio_id) []; business_count = length businesses in
      if business_count = 0 then Inr no_metrics
      else
        bindr (batch_metrics_loop W snapshot_contract batch_recorded_at 0 0 0 businesses) (\<lambda>(revenue, anomalies, with_snapshots).
        bindr (if 0 < with_snapshots then i128_chk (trunc_div revenue (int with_snapshots)) else Inr 0) (\<lambda>average.
        Inr \<lparr>am_total_trailing_revenue = revenue, am_total_anomaly_count = anomalies, am_business_count = business_count,
             am_businesses_with_snapshots = with_snapshots, am_average_trailing_revenue = average\<rparr>)))"

section \<open>Aggregated roots\<close>

fun max_version_loop :: "aggregated_root list \<Rightarrow> nat \<Rightarrow> aggregated_root option \<Rightarrow> nat \<times> aggregated_root option" where
  "max_version_loop [] max_version last_record = (max_version, last_record)"
| "max_version_loop (record # records) max_version last_record =
     (if ar_version record > max_version then max_version_loop records (ar_version record) (Some record)
      else if ar_version record = max_version then max_version_loop records max_version (Some record)
      else max_version_loop records max_version last_record)"

definition submit_aggregated_root ::
  "ledger_env \<Rightarrow> address \<Rightarrow> sstring \<Rightarrow> bytesn \<Rightarrow> nat \<Rightarrow> nat \<Rightarrow> nat \<Rightarrow> agg_state \<Rightarrow> agg_state res" where
  "submit_aggregated_root env caller portfolio_id root start_timestamp end_timestamp version s =
     bindr (agg_require_admin env caller s) (\<lambda>_.
     bindr (assertr (start_timestamp < end_timestamp) ''invalid window boundaries'') (\<lambda>_.
     bindr (assertr (end_timestamp \<le> timestamp env) ''future window boundary'') (\<lambda>_.
     (let roots = unwrap_or (agg_portfolio_roots s portfolio_id) [] in
      bindr (if roots \<noteq> [] then
               (let (max_version, last_record_opt) = max_version_loop roots 0 None in
                case last_record_opt of
                  Some last_record \<Rightarrow>
                    bindr (assertr (max_version \<le> version) ''version cannot be decreased'') (\<lambda>_.
                    if version = max_version
                    then assertr (ar_end_timestamp last_record \<le> start_timestamp) ''overlapping window boundaries''
                    else Inr ())
                | None \<Rightarrow> Inr ())
             else Inr ()) (\<lambda>_.
      Inr (s\<lparr>agg_portfolio_roots := (agg_portfolio_roots s)(portfolio_id \<mapsto> roots @
        [\<lparr>ar_root = root, ar_start_timestamp = start_timestamp, ar_end_timestamp = end_timestamp, ar_version = version\<rparr>])\<rparr>))))))"

definition get_aggregated_roots :: "agg_state \<Rightarrow> sstring \<Rightarrow> aggregated_root list" where
  "get_aggregated_roots s portfolio_id = unwrap_or (agg_portfolio_roots s portfolio_id) []"

fun best_loop :: "nat \<Rightarrow> aggregated_root list \<Rightarrow> aggregated_root option \<Rightarrow> aggregated_root option" where
  "best_loop t [] best_record = best_record"
| "best_loop t (record # records) best_record =
     (if ar_start_timestamp record \<le> t \<and> t < ar_end_timestamp record then
        (case best_record of
           Some best \<Rightarrow> best_loop t records (if ar_version record > ar_version best then Some record else best_record)
         | None \<Rightarrow> best_loop t records (Some record))
      else best_loop t records best_record)"

definition get_aggregated_root_at_timestamp :: "agg_state \<Rightarrow> sstring \<Rightarrow> nat \<Rightarrow> aggregated_root option" where
  "get_aggregated_root_at_timestamp s portfolio_id t = best_loop t (unwrap_or (agg_portfolio_roots s portfolio_id) []) None"

section \<open>Queries\<close>

definition agg_get_admin :: "agg_state \<Rightarrow> address res" where
  "agg_get_admin s = expectr (agg_admin s) ''contract not initialized''"

definition agg_get_replay_nonce :: "agg_state \<Rightarrow> address \<Rightarrow> nat \<Rightarrow> nat" where
  "agg_get_replay_nonce s actor channel = get_nonce (agg_nonces s) actor channel"

definition get_portfolio :: "agg_state \<Rightarrow> sstring \<Rightarrow> address list option" where
  "get_portfolio s portfolio_id = agg_portfolio s portfolio_id"

section \<open>The machine\<close>

datatype agg_call =
    AgInit address nat
  | AgPortfolio address nat sstring "address list"
  | AgPending address nat address nat
  | AgActivate
  | AgRoot address sstring bytesn nat nat nat

fun agg_step :: "ledger_env \<times> agg_call \<Rightarrow> agg_state \<Rightarrow> agg_state res" where
  "agg_step (env, AgInit a n) s = agg_initialize env a n s"
| "agg_step (env, AgPortfolio a n p bs) s = register_portfolio env a n p bs s"
| "agg_step (env, AgPending a n x d) s = agg_set_pending_admin env a n x d s"
| "agg_step (env, AgActivate) s = activate_admin env s"
| "agg_step (env, AgRoot a p r t u v) s = submit_aggregated_root env a p r t u v s"

lemma differs_loop_Inr: "differs_loop a bs = Inr u \<longleftrightarrow> a \<notin> set bs"
  by (induction bs) auto

lemma duplicates_loop_Inr: "duplicates_loop bs = Inr u \<longleftrightarrow> distinct bs"
  by (induction bs) (auto simp: differs_loop_Inr)

section \<open>Metrics: loops against sums\<close>

lemma unique_loop_distinct: "distinct bs \<Longrightarrow> set xs \<inter> set bs = {} \<Longrightarrow> unique_loop xs bs = xs @ bs"
  by (induction bs arbitrary: xs) auto

lemma rows_match_all: "rows_match t ss \<longleftrightarrow> (\<forall>s\<in>set ss. sn_recorded_at s = t)"
  by (induction ss) auto

lemma batch_rows_all:
  "\<forall>s\<in>set ss. sn_recorded_at s = t \<Longrightarrow>
   batch_rows_loop t r a c ss = (fst (rows_loop r a ss), snd (rows_loop r a ss), c \<or> ss \<noteq> [])"
  by (induction ss arbitrary: r a c) auto

lemma consistency_loop_True:
  "consistency_loop W c t bs = Inr True \<Longrightarrow> b \<in> set bs \<Longrightarrow> \<exists>ss. snapshots_at W c b = Inr ss \<and> rows_match t ss"
  by (induction bs) (auto split: if_splits)

lemma consistent_loops_agree:
  "\<forall>b\<in>set bs. \<exists>ss. snapshots_at W c b = Inr ss \<and> rows_match t ss \<Longrightarrow>
   batch_metrics_loop W c t r a n bs = metrics_loop W c r a n bs"
proof (induction bs arbitrary: r a n)
  case (Cons b bs)
  then obtain ss where ss: "snapshots_at W c b = Inr ss" "rows_match t ss" by auto
  have rows: "batch_rows_loop t r a False ss = (fst (rows_loop r a ss), snd (rows_loop r a ss), ss \<noteq> [])"
    using ss(2) by (simp add: rows_match_all batch_rows_all)
  show ?case
    using Cons.IH Cons.prems by (simp add: ss(1) rows Let_def case_prod_beta)
qed simp

section \<open>Roots: the order of the windows\<close>

text \<open>Later windows have a later version, or the same and start after the earlier ones end.\<close>

definition window_before :: "aggregated_root \<Rightarrow> aggregated_root \<Rightarrow> bool" where
  "window_before a b \<longleftrightarrow> ar_version a < ar_version b \<or> ar_version a = ar_version b \<and> ar_end_timestamp a \<le> ar_start_timestamp b"

definition agg_ok :: "agg_state \<Rightarrow> bool" where
  "agg_ok s \<longleftrightarrow>
     (\<forall>p bs. agg_portfolio s p = Some bs \<longrightarrow> distinct bs \<and> length bs \<le> MAX_PORTFOLIO_BUSINESSES) \<and>
     (\<forall>p. sorted_wrt window_before (get_aggregated_roots s p) \<and>
        (\<forall>r\<in>set (get_aggregated_roots s p). ar_start_timestamp r < ar_end_timestamp r))"

lemma max_version_last:
  "sorted_wrt window_before rs \<Longrightarrow> \<forall>r\<in>set rs. m \<le> ar_version r \<Longrightarrow>
   max_version_loop rs m l = (if rs = [] then (m, l) else (ar_version (List.last rs), Some (List.last rs)))"
proof (induction rs arbitrary: m l)
  case (Cons r rs)
  have "\<forall>x\<in>set rs. ar_version r \<le> ar_version x" using Cons.prems(1) by (auto simp: window_before_def)
  moreover have "sorted_wrt window_before rs" using Cons.prems(1) by simp
  ultimately have "max_version_loop rs (ar_version r) (Some r) =
      (if rs = [] then (ar_version r, Some r) else (ar_version (List.last rs), Some (List.last rs)))"
    by (intro Cons.IH)
  moreover have "ar_version r > m \<or> ar_version r = m" using Cons.prems(2) by auto
  ultimately show ?case by (auto split: if_splits)
qed simp

lemma window_before_trans:
  "window_before a b \<Longrightarrow> window_before b c \<Longrightarrow> ar_start_timestamp b < ar_end_timestamp b \<Longrightarrow> window_before a c"
  by (auto simp: window_before_def)

lemma submit_root_Inr:
  assumes "submit_aggregated_root env caller p root t u v s = Inr s'" and "agg_ok s"
  shows "t < u \<and> u \<le> timestamp env \<and> s' = s\<lparr>agg_portfolio_roots := (agg_portfolio_roots s)(p \<mapsto> get_aggregated_roots s p @
      [\<lparr>ar_root = root, ar_start_timestamp = t, ar_end_timestamp = u, ar_version = v\<rparr>])\<rparr> \<and>
    (\<forall>r\<in>set (get_aggregated_roots s p).
       window_before r \<lparr>ar_root = root, ar_start_timestamp = t, ar_end_timestamp = u, ar_version = v\<rparr>)"
proof -
  let ?rs = "get_aggregated_roots s p" and ?n = "\<lparr>ar_root = root, ar_start_timestamp = t, ar_end_timestamp = u, ar_version = v\<rparr>"
  have ok: "sorted_wrt window_before ?rs" "\<forall>r\<in>set ?rs. ar_start_timestamp r < ar_end_timestamp r"
    using assms(2) by (auto simp: agg_ok_def)
  have m: "max_version_loop ?rs 0 None = (if ?rs = [] then (0, None) else (ar_version (List.last ?rs), Some (List.last ?rs)))"
    by (rule max_version_last [OF ok(1)]) simp
  have A: "t < u \<and> u \<le> timestamp env \<and> s' = s\<lparr>agg_portfolio_roots := (agg_portfolio_roots s)(p \<mapsto> ?rs @ [?n])\<rparr> \<and>
      (?rs \<noteq> [] \<longrightarrow> window_before (List.last ?rs) ?n)"
    using assms(1) m
    by (cases "?rs = []") (auto simp: submit_aggregated_root_def get_aggregated_roots_def Let_def window_before_def split: if_splits)
  have step: "window_before r ?n" if "r \<in> set ?rs" "window_before (List.last ?rs) ?n" for r
  proof -
    from that(1) have ne: "?rs \<noteq> []" by auto
    then have split: "?rs = butlast ?rs @ [List.last ?rs]" by simp
    from that(1) split have "r \<in> set (butlast ?rs) \<or> r = List.last ?rs" by (metis Un_iff empty_iff empty_set insert_iff list.simps(15) set_append)
    then show ?thesis
    proof
      assume "r \<in> set (butlast ?rs)"
      moreover have "sorted_wrt window_before (butlast ?rs @ [List.last ?rs])" using ok(1) split by simp
      ultimately have "window_before r (List.last ?rs)" by (simp add: sorted_wrt_append)
      moreover have "ar_start_timestamp (List.last ?rs) < ar_end_timestamp (List.last ?rs)" using ok(2) ne by simp
      ultimately show ?thesis using that(2) by (blast intro: window_before_trans)
    qed (use that(2) in simp)
  qed
  have "\<forall>r\<in>set ?rs. window_before r ?n"
  proof
    fix r assume r: "r \<in> set ?rs"
    then have "?rs \<noteq> []" by auto
    with A have "window_before (List.last ?rs) ?n" by blast
    with r show "window_before r ?n" by (rule step)
  qed
  with A show ?thesis by blast
qed

interpretation aggregates: invariant_machine "\<lambda>s. s = agg_empty" agg_step agg_ok
proof
  show "agg_ok s" if "s = agg_empty" for s using that by (simp add: agg_ok_def agg_empty_def get_aggregated_roots_def)
  show "agg_ok s'" if inv: "agg_ok s" and st: "agg_step e s = Inr s'" for s e s'
  proof -
    obtain env c where e: "e = (env, c)" by (cases e)
    show ?thesis
    proof (cases c)
      case (AgRoot a p r t u v)
      with st e have "submit_aggregated_root env a p r t u v s = Inr s'" by simp
      from submit_root_Inr [OF this inv] inv show ?thesis
        by (auto simp: agg_ok_def get_aggregated_roots_def sorted_wrt_append)
    next
      case (AgPortfolio a n p bs)
      with st e inv show ?thesis
        by (auto simp: register_portfolio_def assert_portfolio_businesses_valid_def duplicates_loop_Inr agg_ok_def
            get_aggregated_roots_def split: if_splits)
    qed (use st e inv in \<open>auto simp: agg_initialize_def agg_set_pending_admin_def activate_admin_def agg_ok_def
        get_aggregated_roots_def split: option.splits\<close>)
  qed
qed

lemma best_loop_Some:
  "best_loop t rs b = Some r \<Longrightarrow>
     (b = Some r \<or> r \<in> set rs \<and> ar_start_timestamp r \<le> t \<and> t < ar_end_timestamp r) \<and>
     (\<forall>x\<in>set rs. ar_start_timestamp x \<le> t \<and> t < ar_end_timestamp x \<longrightarrow> ar_version x \<le> ar_version r) \<and>
     (\<forall>x. b = Some x \<longrightarrow> ar_version x \<le> ar_version r)"
proof (induction t rs b rule: best_loop.induct)
  case (2 t x rs b)
  then show ?case by (fastforce split: if_splits option.splits)
qed simp

lemma best_loop_None:
  "best_loop t rs b = None \<longleftrightarrow> b = None \<and> (\<forall>x\<in>set rs. \<not> (ar_start_timestamp x \<le> t \<and> t < ar_end_timestamp x))"
  by (induction t rs b rule: best_loop.induct) (auto split: option.splits)

section \<open>What the contract promises\<close>

text \<open>
  The two metrics agree on a consistent batch. In every reachable state, when the check finds that all rows of a
  portfolio were recorded at one time, the metrics for that batch and the metrics over all rows are the same, failures
  of the snapshot contract and of the arithmetic included.
\<close>

theorem consistent_batch_metrics_agree:
  assumes "reachable (\<lambda>s. s = agg_empty) agg_step s" and "check_batch_snapshot_consistency W c p t s = Inr True"
  shows "get_aggregated_metrics_for_batch W c p t s = get_aggregated_metrics W c p s"
proof -
  have "distinct (unwrap_or (agg_portfolio s p) [])"
    using aggregates.reachable_inv [OF assms(1)] by (cases "agg_portfolio s p") (auto simp: agg_ok_def)
  then have u: "unique_loop [] (unwrap_or (agg_portfolio s p) []) = unwrap_or (agg_portfolio s p) []"
    by (simp add: unique_loop_distinct)
  show ?thesis
  proof (cases "unwrap_or (agg_portfolio s p) [] = []")
    case True
    then show ?thesis by (simp add: get_aggregated_metrics_for_batch_def get_aggregated_metrics_def Let_def)
  next
    case False
    with assms(2) have "consistency_loop W c t (unwrap_or (agg_portfolio s p) []) = Inr True"
      by (simp add: check_batch_snapshot_consistency_def Let_def)
    then have "batch_metrics_loop W c t 0 0 0 (unwrap_or (agg_portfolio s p) []) =
        metrics_loop W c 0 0 0 (unwrap_or (agg_portfolio s p) [])"
      by (intro consistent_loops_agree ballI consistency_loop_True)
    then show ?thesis by (simp add: get_aggregated_metrics_for_batch_def get_aggregated_metrics_def u Let_def)
  qed
qed

text \<open>
  C39. The root in force at a time is well defined. In every reachable state the query returns a root of the portfolio
  whose window covers the time, with the highest version among those that do, and no other covering root has that
  version; it returns none exactly if no window covers the time.
\<close>

theorem root_at_timestamp_exact:
  assumes "reachable (\<lambda>s. s = agg_empty) agg_step s"
  shows "(case get_aggregated_root_at_timestamp s p t of
      Some r \<Rightarrow> r \<in> set (get_aggregated_roots s p) \<and> ar_start_timestamp r \<le> t \<and> t < ar_end_timestamp r \<and>
        (\<forall>x\<in>set (get_aggregated_roots s p). ar_start_timestamp x \<le> t \<and> t < ar_end_timestamp x \<longrightarrow>
           x = r \<or> ar_version x < ar_version r)
    | None \<Rightarrow> \<forall>x\<in>set (get_aggregated_roots s p). \<not> (ar_start_timestamp x \<le> t \<and> t < ar_end_timestamp x))"
proof -
  let ?rs = "get_aggregated_roots s p"
  have ok: "sorted_wrt window_before ?rs" using aggregates.reachable_inv [OF assms] by (simp add: agg_ok_def)
  have q: "get_aggregated_root_at_timestamp s p t = best_loop t ?rs None"
    by (simp add: get_aggregated_root_at_timestamp_def get_aggregated_roots_def)
  have uniq: "x = y" if "x \<in> set ?rs" "y \<in> set ?rs" "ar_version x = ar_version y"
    "ar_start_timestamp x \<le> t" "t < ar_end_timestamp x" "ar_start_timestamp y \<le> t" "t < ar_end_timestamp y" for x y
  proof -
    from that(1,2) obtain i j where ij: "i < length ?rs" "j < length ?rs" "?rs ! i = x" "?rs ! j = y" by (metis in_set_conv_nth)
    have "\<not> i < j" "\<not> j < i"
      using sorted_wrt_nth_less [OF ok, of i j] sorted_wrt_nth_less [OF ok, of j i] ij that by (auto simp: window_before_def)
    with ij show ?thesis by simp
  qed
  show ?thesis
  proof (cases "best_loop t ?rs None")
    case None
    then have "\<forall>x\<in>set ?rs. \<not> (ar_start_timestamp x \<le> t \<and> t < ar_end_timestamp x)" by (simp add: best_loop_None)
    with None show ?thesis by (simp add: q)
  next
    case (Some r)
    note b = best_loop_Some [OF Some]
    have "x = r \<or> ar_version x < ar_version r" if "x \<in> set ?rs" "ar_start_timestamp x \<le> t" "t < ar_end_timestamp x" for x
      using b that uniq [of x r] by (auto simp: le_less)
    with b Some show ?thesis by (simp add: q)
  qed
qed

text \<open>
  The administrator changes only by rotation behind the time lock. If the administrator at the end of a history is not
  the one at its start, some activation of the history installed it, at a time when it was the pending administrator and
  its activation time had come.
\<close>

theorem admin_rotates_after_timelock:
  assumes "agg_admin (run agg_step es s) = Some a" and "agg_admin s = Some b" and "a \<noteq> b"
  shows "\<exists>pre post env t. es = pre @ (env, AgActivate) # post \<and>
    gv_pending_admin (agg_governance (run agg_step pre s)) = Some a \<and>
    gv_activation_time (agg_governance (run agg_step pre s)) = Some t \<and> t \<le> timestamp env"
proof -
  have keep: "agg_admin (run agg_step es s) \<noteq> None" for es
  proof -
    have "agg_admin s \<noteq> None \<longrightarrow> agg_admin (run agg_step es s) \<noteq> None"
    proof (rule run_rel_any [where R = "\<lambda>x y. agg_admin x \<noteq> None \<longrightarrow> agg_admin y \<noteq> None"])
      fix x y and e :: "ledger_env \<times> agg_call"
      assume "agg_step e x = Inr y"
      then show "agg_admin x \<noteq> None \<longrightarrow> agg_admin y \<noteq> None"
        by (cases e; cases "snd e") (auto simp: agg_initialize_def register_portfolio_def agg_set_pending_admin_def activate_admin_def
            submit_aggregated_root_def Let_def split: option.splits)
    qed auto
    with assms(2) show ?thesis by simp
  qed
  have "agg_admin s \<noteq> Some a" using assms(2,3) by simp
  from run_becomes [of "\<lambda>s. agg_admin s = Some a", OF assms(1) this] obtain pre e post x where
    e: "es = pre @ e # post" "agg_admin (run agg_step pre s) \<noteq> Some a" "agg_step e (run agg_step pre s) = Inr x" "agg_admin x = Some a"
    by blast
  obtain env c where ec: "e = (env, c)" by (cases e)
  have "c = AgActivate \<and> gv_pending_admin (agg_governance (run agg_step pre s)) = Some a \<and>
    (\<exists>t. gv_activation_time (agg_governance (run agg_step pre s)) = Some t \<and> t \<le> timestamp env)"
    using e(2-4) keep [of pre]
    by (cases c) (auto simp: ec agg_initialize_def register_portfolio_def agg_set_pending_admin_def activate_admin_def
        submit_aggregated_root_def get_active_pending_admin_def Let_def split: option.splits if_splits)
  with e(1) ec show ?thesis by blast
qed

section \<open>Witnesses\<close>

definition agg_ready :: agg_state where
  "agg_ready = agg_empty\<lparr>agg_admin := Some ''admin'', agg_nonces := [(''admin'', AGG_CHANNEL_ADMIN) \<mapsto> 1]\<rparr>"

lemma agg_ready_step: "agg_step (env_at 0 0, AgInit ''admin'' 0) agg_empty = Inr agg_ready"
  by (simp add: agg_initialize_def agg_ready_def agg_empty_def verify_nonce_Inr get_nonce_def u64_max_def)

definition agg_rooted :: agg_state where
  "agg_rooted = agg_ready\<lparr>agg_portfolio_roots := [''p'' \<mapsto>
     [\<lparr>ar_root = BytesN [], ar_start_timestamp = 10, ar_end_timestamp = 20, ar_version = 3\<rparr>]]\<rparr>"

lemma agg_rooted_step: "agg_step (env_at 30 0, AgRoot ''admin'' ''p'' (BytesN []) 10 20 3) agg_ready = Inr agg_rooted"
  by (simp add: submit_aggregated_root_def agg_require_admin_def agg_ready_def agg_empty_def agg_rooted_def Let_def)

lemma agg_rooted_reachable: "reachable (\<lambda>s. s = agg_empty) agg_step agg_rooted"
  by (rule reachable_call, rule reachable_call, rule reachable_start [where s = agg_empty], simp, rule agg_ready_step, rule agg_rooted_step)

lemma root_at_timestamp_exact_witness: "get_aggregated_root_at_timestamp agg_rooted ''p'' 15 \<noteq> None"
proof
  assume "get_aggregated_root_at_timestamp agg_rooted ''p'' 15 = None"
  with root_at_timestamp_exact [OF agg_rooted_reachable, of "''p''" 15] show False
    by (simp add: get_aggregated_roots_def agg_rooted_def)
qed

lemma consistent_batch_metrics_agree_witness:
  "get_aggregated_metrics_for_batch Map.empty ''snap'' ''p'' 7 agg_rooted = get_aggregated_metrics Map.empty ''snap'' ''p'' agg_rooted"
  by (rule consistent_batch_metrics_agree [OF agg_rooted_reachable])
    (simp add: check_batch_snapshot_consistency_def agg_rooted_def agg_ready_def agg_empty_def)

definition agg_pending :: agg_state where
  "agg_pending = agg_ready\<lparr>agg_governance := governance_empty\<lparr>gv_pending_admin := Some ''next'', gv_activation_time := Some 50\<rparr>\<rparr>"

lemma admin_rotates_after_timelock_witness:
  "\<exists>env :: ledger_env. 50 \<le> timestamp env"
proof -
  have "agg_admin (run agg_step [(env_at 60 0, AgActivate)] agg_pending) = Some ''next''"
    by (simp add: exec_def activate_admin_def get_active_pending_admin_def agg_pending_def)
  moreover have "agg_admin agg_pending = Some ''admin''" by (simp add: agg_pending_def agg_ready_def)
  ultimately obtain pre post env t where 1: "[(env_at 60 0, AgActivate)] = pre @ (env, AgActivate) # post"
    and 2: "gv_activation_time (agg_governance (run agg_step pre agg_pending)) = Some t" "t \<le> timestamp env"
    using admin_rotates_after_timelock [of "[(env_at 60 0, AgActivate)]" agg_pending "''next''" "''admin''"] by auto
  from 1 have "pre = []" by (cases pre) auto
  with 2 show ?thesis by (auto simp: agg_pending_def)
qed

end
