(* ===== verification/Client_Link.thy ===== *)
theory Client_Link
  imports Stream_Link Lender_Consumer Lender_Access_List Revenue_Bonds Revenue_Share Revenue_Curve Attestation_Snapshot
begin

text \<open>
  The contracts that read attestations, over the repository's own attestation contract (\<open>attestation/src/lib.rs\<close>) and, for
  the lender consumer, over its own lender access list: the interfaces that those theories leave open are given here by
  the models of the two contracts.
\<close>

section \<open>The two contracts as clients\<close>

definition tuple_of :: "att_data \<Rightarrow> att_tuple" where
  "tuple_of d = (ad_root d, ad_timestamp d, ad_version d, ad_fee d, ad_proof_hash d, ad_expiry d)"

definition revocation_tuple :: "revocation_data \<Rightarrow> address \<times> nat \<times> sstring" where
  "revocation_tuple r = (rd_by r, rd_at r, rd_reason r)"

text \<open>\<open>att\<close> is the address of the attestation contract; a call to another address fails.\<close>

definition repo_client :: "ledger_env \<Rightarrow> address \<Rightarrow> (contract \<times> 'l) att_client" where
  "repo_client env att = \<lparr>
     ac_get_attestation = (\<lambda>a b p (c, l).
       if a = att
       then (case get_attestation (ct_att c) b p of (found, s) \<Rightarrow> Inr (map_option tuple_of found, (c\<lparr>ct_att := s\<rparr>, l)))
       else Inl CallFailed),
     ac_is_revoked = (\<lambda>a b p (c, l).
       if a = att then Inr (is_attestation_revoked (at_dispute (ct_att c)) b p, (c, l)) else Inl CallFailed),
     ac_get_revocation_info = (\<lambda>a b p (c, l).
       if a = att
       then Inr (map_option revocation_tuple (get_attestation_revocation (at_dispute (ct_att c)) b p), (c, l))
       else Inl CallFailed),
     ac_is_expired = (\<lambda>a b p (c, l).
       if a = att
       then (case Attestation.is_expired env (ct_att c) b p of (expired, s) \<Rightarrow> Inr (expired, (c\<lparr>ct_att := s\<rparr>, l)))
       else Inl CallFailed)\<rparr>"

lemma repo_client_quiet: "quiet_client (beside T) (repo_client env att)"
  by (auto simp: quiet_client_def repo_client_def split: prod.splits if_splits)

text \<open>The access lists by address, as they are when the consumer asks.\<close>

definition repo_lists :: "(address \<rightharpoonup> access_list) \<Rightarrow> 'w access_client" where
  "repo_lists als a lender tier w =
     (case als a of None \<Rightarrow> Inl CallFailed | Some s \<Rightarrow> Inr (is_allowed s lender tier, w))"

lemma repo_lists_Inr: "repo_lists als a lender tier w = Inr (ok, w') \<longleftrightarrow>
    w' = w \<and> (\<exists>s. als a = Some s \<and> ok = is_allowed s lender tier)"
  by (auto simp: repo_lists_def split: option.splits)

section \<open>Nothing is found\<close>

lemma repo_finds_nothing:
  assumes "stores_empty cl"
  shows "ac_get_attestation (repo_client env att) a b p cl = Inr (x, cl') \<longleftrightarrow> a = att \<and> x = None \<and> cl' = cl"
  using assms by (cases cl) (auto simp: repo_client_def get_attestation_def stores_empty_def)

lemma repo_info_keeps: "ac_get_revocation_info (repo_client env att) a b p cl = Inr (x, cl') \<Longrightarrow> cl' = cl"
  by (cases cl) (auto simp: repo_client_def split: if_splits)

lemma redeem_asks:
  assumes "redeem T C env i p (s, w) = Inr t"
  shows "\<exists>a b w1 x w2. ac_get_revocation_info C a b p w = Inr (None, w1) \<and> ac_get_attestation C a b p w1 = Inr (Some x, w2)"
  using assms by (fastforce simp: redeem_def)

text \<open>
  C40. No contract of the repository that needs an attestation can use one. In every state that the attestation contract can
  reach, over its own interface: a lender's revenue is refused with and without the safeguards, no bond is redeemed, no
  revenue is distributed, no price is calculated, and no snapshot is recorded by a contract bound to it, whatever
  the states of those contracts, the lenders' tiers, the ledger and the arguments are.
\<close>

theorem attested_calls_fail:
  assumes "reachable lib_start (lib_step X) cl"
  shows "(\<nexists>t. submit_revenue (repo_client env att) (repo_lists als) sha env l b p r con cl = Inr t) \<and>
    (\<nexists>t. submit_revenue_unchecked (repo_client env att) (repo_lists als) sha env l b p r con cl = Inr t) \<and>
    (\<nexists>t. redeem (beside T) (repo_client env att) env i p (bond, cl) = Inr t) \<and>
    (\<nexists>t. distribute_revenue sha (beside T) (repo_client env att) env b p r n (share, cl) = Inr t) \<and>
    (\<nexists>t. calculate_pricing (repo_client env att) curve b p r k cl = Inr t) \<and>
    (snap_get_attestation_contract snap \<noteq> None \<longrightarrow>
      (\<nexists>t. record_snapshot (repo_client env att) env l b p r n k snap cl = Inr t))"
proof -
  have e: "stores_empty cl" using assms by (rule stores.reachable_inv)
  note none = repo_finds_nothing [OF e, of env att]
  have 1: "submit_revenue (repo_client env att) (repo_lists als) sha env l b p r con cl \<noteq> Inr t" for t
  proof
    assume "submit_revenue (repo_client env att) (repo_lists als) sha env l b p r con cl = Inr t"
    then obtain w1 v w' where "require_lender_tier (repo_lists als) env l 1 con cl = Inr w1"
      and v: "verify_with_safeguards_internal (repo_client env att) con b p (sha (i128_be_bytes r)) w1 = Inr (v, w')" "vr_is_valid v"
      by (cases t) (auto simp: submit_revenue_Inr)
    from this(1) have "w1 = cl" by (auto simp: require_lender_tier_Inr repo_lists_Inr)
    with verify_internal_valid [THEN iffD1, OF conjI, OF v] show False by (auto simp: none)
  qed
  have 2: "submit_revenue_unchecked (repo_client env att) (repo_lists als) sha env l b p r con cl \<noteq> Inr t" for t
    by (cases t) (auto simp: submit_unchecked_Inr require_lender_tier_Inr repo_lists_Inr none)
  have 3: "redeem (beside T) (repo_client env att) env i p (bond, cl) \<noteq> Inr t" for t
  proof
    assume "redeem (beside T) (repo_client env att) env i p (bond, cl) = Inr t"
    from redeem_asks [OF this] obtain a b w1 x w2 where a: "ac_get_revocation_info (repo_client env att) a b p cl = Inr (None, w1)"
      "ac_get_attestation (repo_client env att) a b p w1 = Inr (Some x, w2)" by blast
    from a(2) [unfolded repo_info_keeps [OF a(1)]] show False by (simp add: none)
  qed
  have 4: "distribute_revenue sha (beside T) (repo_client env att) env b p r n (share, cl) \<noteq> Inr t" for t
    by (auto simp: distribute_revenue_def assert_revenue_attested_def none)
  have 5: "calculate_pricing (repo_client env att) curve b p r k cl \<noteq> Inr t" for t
    by (auto simp: calculate_pricing_def none)
  have 6: "record_snapshot (repo_client env att) env l b p r n k snap cl \<noteq> Inr t" if "snap_get_attestation_contract snap \<noteq> None" for t
    using that by (auto simp: record_snapshot_def snap_get_attestation_contract_def none)
  show ?thesis using 1 2 3 4 5 6 by blast
qed

lemma attested_calls_fail_witness:
  "\<exists>c :: contract. at_active (ct_att c) (''BIZ'', ''202601'') = Some life_data \<and>
     (\<forall>curve. \<nexists>t. calculate_pricing (repo_client (env_at 9 9) ''ATT'') curve ''BIZ'' ''202601'' 5 6 (c, \<lambda>(t :: address) (a :: address). 0 :: int) = Inr t)"
proof -
  obtain c where c: "reachable lib_start (lib_step ext_demo) (c, \<lambda>(t :: address) (a :: address). 0 :: int)" "at_active (ct_att c) = [(''BIZ'', ''202601'') \<mapsto> life_data]"
    using life_reachable by blast
  have "\<nexists>t. calculate_pricing (repo_client (env_at 9 9) ''ATT'') curve ''BIZ'' ''202601'' 5 6 (c, \<lambda>(t :: address) (a :: address). 0 :: int) = Inr t" for curve
    by (rule attested_calls_fail [OF c(1), THEN conjunct2, THEN conjunct2, THEN conjunct2, THEN conjunct2, THEN conjunct1])
  with c(2) show ?thesis by (metis fun_upd_same)
qed

section \<open>The lenders behind a recorded revenue\<close>

text \<open>Over any attestation contract, a revenue is recorded only for a lender that the access list in use admits.\<close>

lemma consumer_uses_list:
  assumes "submit_revenue C (repo_lists als) sha env l b p r con cl = Inr t"
  shows "\<exists>a s. lc_access_list con = Some a \<and> als a = Some s \<and> is_allowed s l 1"
  using assms by (cases t) (auto simp: submit_revenue_Inr require_lender_tier_Inr repo_lists_Inr)

end
