(* ===== verification/Spec2Isabelle.thy ===== *)
theory Spec2Isabelle
  imports Attestation_Pages Staking_Link Dao_Link Stream_Link Governance_Gating Revenue_Bonds Revenue_Share Revenue_Settlement Revenue_Curve Audit_Log Lender_Access_List Integration_Registry Attestation_Registry Business_Config Lender_Consumer Network_Config Snapshot_Properties Aggregated_Attestations Client_Link
begin

text \<open>
  Veritasor contracts: a model of the Soroban contracts under \<open>src/contracts\<close> and what it shows.

  The program. Businesses submit Merkle roots of their revenue data, one per period, to the attestation
  contract (\<open>attestation/src/lib.rs\<close>). Its modules keep roles and a pause switch
  (\<open>access_control.rs\<close>), replay nonces and key rotations (\<open>common/src\<close>), a business registry
  (\<open>registry.rs\<close>), a rate limit (\<open>rate_limit.rs\<close>), dynamic and flat fees (\<open>dynamic_fees.rs\<close>,
  \<open>fees.rs\<close>), disputes, revocations and attestor locks (\<open>dispute.rs\<close>) and a multisig (\<open>multisig.rs\<close>)
  through which its owners govern it. Attestors back what they submit with a stake in the staking
  contract (\<open>attestor-staking/src/lib.rs\<close>), which an upheld dispute slashes. The other contracts build on
  the attestations: streams, bonds, shares and settlements pay against them, a pricing curve and the
  lenders' consumer read them, the snapshot contract and its aggregation summarise them; a DAO and
  several registries configure the whole.

  How the theories correspond to the code. Every theory models one source file or one part of
  \<open>attestation/src/lib.rs\<close>; definitions keep the names of the functions, with a suffix or prefix where two
  modules use one name, and \<open>_entry\<close> for an entry point of \<open>lib.rs\<close> around a module's function.
    \<^item> \<open>Prelude\<close>: ledger environment and authorization, results (\<open>Inl\<close> is a panic, a failed host call or
      an error code), checked integers, the SEP-41 token interface and its reference ledger, and the
      locales for invariants and step relations over histories of calls.
    \<^item> \<open>Replay_Protection\<close>, \<open>Handover\<close>, \<open>Key_Rotation\<close>, \<open>Merkle\<close>, \<open>Governance_Gating\<close>: the files of
      \<open>common/src\<close>.
    \<^item> \<open>Access_Control\<close>, \<open>Business_Registry\<close>, \<open>Rate_Limit\<close>, \<open>Dynamic_Fees\<close>, \<open>Flat_Fees\<close>, \<open>Dispute\<close>,
      \<open>Multisig\<close>: the modules of the attestation contract.
    \<^item> \<open>Attestation\<close>: submission, batches, verification, pages and quotes; \<open>Attestation_Lifecycle\<close>:
      revocation, cleanup, archive, migration and multi-period ranges; \<open>Attestation_Admin\<close>: governance,
      timelocks, roles, pause, analytics, disputes, rotations and the multisig's actions.
    \<^item> \<open>Attestation_Contract\<close>: every call of the contract as a constructor, one step function over the
      joint state, and what each group of calls leaves alone. \<open>Attestation_Traces\<close>,
      \<open>Attestation_Stores\<close>, \<open>Attestation_Pages\<close>: properties over whole histories of calls;
      \<open>Attestation_Examples\<close>: concrete runs.
    \<^item> \<open>Attestor_Staking\<close>: the staking contract; \<open>Protocol_Dao\<close>: \<open>protocol-dao\<close>, its proposals, votes,
      delegation and execution.
    \<^item> \<open>Custody\<close>: what a contract that holds tokens owes and owns. \<open>Attestation_Client\<close>: the interface through
      which a contract reads attestations, and the big-endian bytes that it hashes.
    \<^item> \<open>Revenue_Stream\<close>, \<open>Revenue_Bonds\<close>, \<open>Revenue_Share\<close>, \<open>Revenue_Settlement\<close>, \<open>Revenue_Curve\<close>: the
      revenue contracts of the same names, over any client and any token.
    \<^item> \<open>Audit_Log\<close>, \<open>Lender_Access_List\<close>, \<open>Lender_Consumer\<close>, \<open>Integration_Registry\<close>,
      \<open>Attestation_Registry\<close>, \<open>Business_Config\<close>, \<open>Network_Config\<close>: the contracts of the same names.
    \<^item> \<open>Attestation_Snapshot\<close>: \<open>attestation-snapshot\<close>, its records, epochs, exports and restores, with
      \<open>Snapshot_Properties\<close> over its histories; \<open>Aggregated_Attestations\<close>: \<open>aggregated-attestations\<close>, which
      reads the snapshot contract's model.
    \<^item> \<open>Staking_Link\<close>, \<open>Dao_Link\<close>, \<open>Stream_Link\<close>, \<open>Client_Link\<close>: contracts that call each other, with the
      callee's interface given by its own model: the attestation contract over the staking contract, its
      fee modules over the DAO, the streams and the other clients over the attestation contract.

  What the lemmas show. Each component has its state as a record (one field per storage key; an absent
  entry is \<open>None\<close>), its operations with every guard and early return, the invariants that every
  operation keeps, and what each operation does on every branch. Over histories of the attestation
  contract: nonces are consecutive, an administrator always remains, an executed proposal was approved in time
  by a quorum of the owners at its creation and is executed once, stakes are backed by tokens, disputes follow their lifecycle and lock the
  attestor, attestations follow theirs and are paid for exactly, revocations and archive commitments are for good, ranges are
  disjoint, governance changes wait for their timelock. Over histories of the others: a DAO proposal is
  executed by a majority of a quorum, streams are funded and pay what has vested, bonds never pay more than
  their face value (unless the contract was initialised after the first bond), a distribution splits a revenue exactly, a settlement nets every period once, a recorded
  revenue was attested for an admitted lender, lenders are managed by holders of the role, providers follow
  their lifecycle, anchored sections of a business configuration and finalized epochs do not change, a
  rollback undoes an upgrade, any change to an audit log changes its hash, if SHA-256 does not
  collide. The optimised loops (the
  slash of the unstake queue, the batch validation, the Merkle proof walks, the pages, the aggregation over
  a batch, the dry run of a restore) equal their reference definitions.

  Conventions. A failed call changes nothing: \<open>exec\<close> keeps the old state, as the host does. Amounts are
  integers with the i128 checks of the release profile (\<open>overflow-checks = true\<close>) written out; lengths,
  times and counters are natural numbers with their u32 and u64 bounds where the code can reach them;
  role bitmaps, Merkle bytes and encoded integers are words. Calls to other contracts (tokens, the reputation
  contract, and outside the \<open>_Link\<close> theories the contracts of this repository) and SHA-256 are parameters.
  Instance and persistent storage are separate fields, since the code confuses them once
  (\<open>submitted_never_found\<close>, and what follows for the clients in \<open>Client_Link\<close>). Two pairs of keys of the
  instance storage encode to one slot each, and are modelled as such: the DAO of the dynamic and of the flat
  fees (\<open>put_flat\<close>, \<open>dao_one_slot\<close>), and the pending key rotation and the pending analytics rotation
  (\<open>pending_value\<close>, \<open>pending_analytics_blocks_rotation\<close>). Loops are structural or have
  a measure; nothing needs fuel, except that \<open>read_pages\<close> bounds the number of calls of a client, by the
  number of its periods.

  Not modelled: events (\<open>attestation/src/events.rs\<close> and the publishing elsewhere), logs and storage
  lifetimes (\<open>attestation/src/network_config.rs\<close> holds their constants), which no call reads; the gas price in
  the relayer variants, whose gas delta is zero in the production build; the host's rejection of a second
  authorization of one address in a frame; \<open>protocol-simulation\<close>, a scenario driver over the other
  contracts; \<open>common/src/interface_spec_check.rs\<close> and \<open>scripts\<close>, which check the sources at build time.
\<close>

end
